(* ===== verification/Prelude.thy ===== *)
theory Prelude
  imports Main
begin

text \<open>
  Shared vocabulary of the development: the faults a C execution can run into, the result
  type of every operation that may fault, sequencing of such operations, the arithmetic of
  \<^verbatim>\<open>size_t\<close>, and the generic list lemmas the components use.

  A computation of the model either returns a value (\<open>Inr\<close>) or stops with a fault
  (\<open>Inl\<close>): undefined behaviour of C (a read outside an object, a dangling pointer, a
  shift that is too wide, signed overflow) or a failed \<^verbatim>\<open>assert\<close>. Errors the code
  reports itself (\<^verbatim>\<open>false\<close>, an \<^verbatim>\<open>http_err_t\<close>) are ordinary values. The fault
  \<open>No_fuel\<close> is not one of C: it marks a loop of the model that was given too few steps.
\<close>

section \<open>Faults and results\<close>

datatype fault =
    Null_deref
  | Out_of_bounds
  | Dangling
  | Read_only
  | Overlap
  | Bad_free
  | Shift_overflow
  | Signed_overflow
  | Assert_failed
  | Indeterminate
  | No_fuel

type_synonym 'a res = "fault + 'a"

text \<open>Run the first computation; continue with its value, or stop with its fault.\<close>

definition bnd :: "'a res \<Rightarrow> ('a \<Rightarrow> 'b res) \<Rightarrow> 'b res" where
  "bnd r f = (case r of Inl e \<Rightarrow> Inl e | Inr x \<Rightarrow> f x)"

lemma bnd_simps [simp]:
  "bnd (Inl e) f = Inl e"
  "bnd (Inr x) f = f x"
  by (simp_all add: bnd_def)

lemma bnd_assoc: "bnd (bnd r f) g = bnd r (\<lambda>x. bnd (f x) g)"
  by (simp add: bnd_def split: sum.split)

lemma bnd_eq_Inr_iff: "bnd r f = Inr y \<longleftrightarrow> (\<exists>x. r = Inr x \<and> f x = Inr y)"
  by (auto simp: bnd_def split: sum.splits)

lemma bnd_InrE:
  assumes "bnd r f = Inr y"
  obtains x where "r = Inr x" and "f x = Inr y"
  using assms by (auto simp: bnd_eq_Inr_iff)

text \<open>\<^verbatim>\<open>assert(c)\<close>: it aborts, unless the program is built with \<^verbatim>\<open>NDEBUG\<close>.\<close>

definition c_assert :: "bool \<Rightarrow> bool \<Rightarrow> unit res" where
  "c_assert nd c = (if c \<or> nd then Inr () else Inl Assert_failed)"

lemma c_assert_True [simp]: "c_assert nd True = Inr ()"
  by (simp add: c_assert_def)

lemma c_assert_ndebug [simp]: "c_assert True c = Inr ()"
  by (simp add: c_assert_def)

lemma c_assert_False [simp]: "c_assert False False = Inl Assert_failed"
  by (simp add: c_assert_def)

section \<open>Arithmetic of size_t\<close>

text \<open>
  A \<^verbatim>\<open>size_t\<close> is a natural number below $2^{64}$; the operations that may leave this
  range wrap around, as the unsigned arithmetic of C does.
\<close>

type_synonym size_t = nat

abbreviation SIZE_MOD :: nat where
  "SIZE_MOD \<equiv> 18446744073709551616"

definition sz_add :: "size_t \<Rightarrow> size_t \<Rightarrow> size_t" where
  "sz_add a b = (a + b) mod SIZE_MOD"

definition sz_sub :: "size_t \<Rightarrow> size_t \<Rightarrow> size_t" where
  "sz_sub a b = (a + SIZE_MOD - b) mod SIZE_MOD"

lemma sz_add_exact [simp]: "a + b < SIZE_MOD \<Longrightarrow> sz_add a b = a + b"
  by (simp add: sz_add_def)

lemma sz_sub_exact [simp]: "b \<le> a \<Longrightarrow> a < SIZE_MOD \<Longrightarrow> sz_sub a b = a - b"
  by (simp add: sz_sub_def mod_if)

lemma sz_sub_wraps: "a < b \<Longrightarrow> b \<le> SIZE_MOD \<Longrightarrow> sz_sub a b = a + SIZE_MOD - b"
  by (simp add: sz_sub_def)

lemma sz_add_less: "sz_add a b < SIZE_MOD"
  by (simp add: sz_add_def)

lemma sz_sub_less: "sz_sub a b < SIZE_MOD"
  by (simp add: sz_sub_def)

text \<open>
  The conversion of a \<^verbatim>\<open>size_t\<close> to \<^verbatim>\<open>int\<close>: the low 32 bits, read as two's
  complement.
\<close>

definition to_int32 :: "size_t \<Rightarrow> int" where
  "to_int32 n = (let r = int (n mod 4294967296) in if r < 2147483648 then r else r - 4294967296)"

lemma to_int32_small [simp]: "n < 2147483648 \<Longrightarrow> to_int32 n = int n"
  by (simp add: to_int32_def)

lemma to_int32_eq_0_iff: "to_int32 n = 0 \<longleftrightarrow> n mod 4294967296 = 0"
proof -
  have "n mod 4294967296 < 4294967296" by simp
  then show ?thesis by (auto simp: to_int32_def Let_def)
qed

lemma to_int32_sub_eq_0_iff:
  assumes "a < 2147483648" and "b < 2147483648"
  shows "to_int32 (sz_sub a b) = 0 \<longleftrightarrow> a = b"
proof (cases "b \<le> a")
  case True
  with assms show ?thesis by (auto simp: to_int32_eq_0_iff)
next
  case False
  then have "sz_sub a b = a + SIZE_MOD - b" using assms by (intro sz_sub_wraps) auto
  also have "\<dots> = 4294967296 - (b - a) + 4294967295 * 4294967296" using False assms by simp
  finally have "sz_sub a b mod 4294967296 = (4294967296 - (b - a)) mod 4294967296"
    by (simp only: mod_mult_self1)
  also have "\<dots> = 4294967296 - (b - a)" using False assms by simp
  finally show ?thesis using False assms by (simp add: to_int32_eq_0_iff)
qed

text \<open>
  The longest string the results speak about. Below it neither the capacity computation
  nor the \<^verbatim>\<open>int\<close> offsets of the string library overflow.
\<close>

abbreviation MAX_LEN :: nat where
  "MAX_LEN \<equiv> 1073741824"

section \<open>Bytes\<close>

text \<open>A \<^verbatim>\<open>char\<close> of C is an 8-bit HOL character; strings are lists of them.\<close>

abbreviation NUL :: char where "NUL \<equiv> CHR 0x00"
abbreviation CR :: char where "CR \<equiv> CHR 0x0D"
abbreviation LF :: char where "LF \<equiv> CHR 0x0A"
abbreviation TAB :: char where "TAB \<equiv> CHR 0x09"
abbreviation SP :: char where "SP \<equiv> CHR 0x20"

abbreviation CRLF :: string where "CRLF \<equiv> [CR, LF]"

text \<open>The part of a byte sequence in front of its first NUL: what a C string is.\<close>

definition cstr :: "char list \<Rightarrow> char list" where
  "cstr bs = takeWhile (\<lambda>c. c \<noteq> NUL) bs"

lemma cstr_simps [simp]:
  "cstr [] = []"
  "cstr (c # cs) = (if c = NUL then [] else c # cstr cs)"
  by (simp_all add: cstr_def)

lemma cstr_append_NUL: "NUL \<notin> set xs \<Longrightarrow> cstr (xs @ NUL # ys) = xs"
  by (induction xs) auto

lemma cstr_id: "NUL \<notin> set xs \<Longrightarrow> cstr xs = xs"
  by (induction xs) auto

lemma NUL_notin_cstr [simp]: "NUL \<notin> set (cstr xs)"
  by (induction xs) auto

lemma length_cstr_le: "length (cstr xs) \<le> length xs"
  by (simp add: cstr_def length_takeWhile_le)

section \<open>Lists\<close>

lemma take_drop_append_mid:
  "i \<le> length xs \<Longrightarrow> take (length ys) (drop i (take i xs @ ys @ zs)) = ys"
  by simp

lemma nth_take_drop: "i + n \<le> length xs \<Longrightarrow> k < n \<Longrightarrow> take n (drop i xs) ! k = xs ! (i + k)"
  by simp

end
