(* ===== verification/Memory.thy ===== *)
theory Memory
  imports Prelude
begin

text \<open>
  The memory of the C program: objects of bytes, pointers into them, the allocator, and the
  functions of the C library the sources apply to raw memory (\<^verbatim>\<open>malloc\<close>,
  \<^verbatim>\<open>realloc\<close>, \<^verbatim>\<open>free\<close>, \<^verbatim>\<open>memcpy\<close>, \<^verbatim>\<open>memset\<close>,
  \<^verbatim>\<open>strlen\<close>, \<^verbatim>\<open>strncmp\<close>). Every access is checked: a read or write outside a
  live object is a fault of the result.

  Whether an allocation succeeds and what bytes a new object holds is up to the environment:
  the memory carries an oracle \<open>avail\<close> for the \<open>k\<close>-th request and the bytes \<open>junk\<close>
  it is filled with. Theorems hold for every oracle.
\<close>

section \<open>Objects, pointers, memory\<close>

text \<open>
  An object is a block from the allocator (\<open>Heap\<close>), a byte array embedded in a struct
  (\<open>Buf\<close>, the small buffer of a \<^verbatim>\<open>string_t\<close>), or a string literal, which carries
  its characters and cannot be written.
\<close>

datatype base = Heap nat | Buf nat | Lit string

datatype ptr = NULL | Ptr base nat

record mem =
  blocks :: "base \<Rightarrow> char list option"
  brk :: nat
  avail :: "nat \<Rightarrow> bool"
  junk :: "nat \<Rightarrow> nat \<Rightarrow> char"
  ndebug :: bool

definition block :: "mem \<Rightarrow> base \<Rightarrow> char list option" where
  "block m b = (case b of Lit s \<Rightarrow> Some (s @ [NUL]) | _ \<Rightarrow> blocks m b)"

lemma block_simps [simp]:
  "block m (Heap k) = blocks m (Heap k)"
  "block m (Buf k) = blocks m (Buf k)"
  "block m (Lit s) = Some (s @ [NUL])"
  by (simp_all add: block_def)

text \<open>Pointer arithmetic; only a pointer into an object moves.\<close>

definition ptr_add :: "ptr \<Rightarrow> nat \<Rightarrow> ptr" where
  "ptr_add p n = (case p of NULL \<Rightarrow> NULL | Ptr b i \<Rightarrow> Ptr b (i + n))"

lemma ptr_add_simps [simp]:
  "ptr_add NULL n = NULL"
  "ptr_add (Ptr b i) n = Ptr b (i + n)"
  by (simp_all add: ptr_add_def)

lemma ptr_add_0 [simp]: "ptr_add p 0 = p"
  by (cases p) simp_all

lemma ptr_add_add: "ptr_add (ptr_add p i) j = ptr_add p (i + j)"
  by (cases p) simp_all

section \<open>Reads and writes\<close>

definition load_bytes :: "mem \<Rightarrow> ptr \<Rightarrow> nat \<Rightarrow> char list res" where
  "load_bytes m p n =
     (if n = 0 then Inr []
      else case p of
        NULL \<Rightarrow> Inl Null_deref
      | Ptr b i \<Rightarrow>
          (case block m b of
             None \<Rightarrow> Inl Dangling
           | Some bs \<Rightarrow> if i + n \<le> length bs then Inr (take n (drop i bs)) else Inl Out_of_bounds))"

definition load_byte :: "mem \<Rightarrow> ptr \<Rightarrow> nat \<Rightarrow> char res" where
  "load_byte m p k =
     (case p of
        NULL \<Rightarrow> Inl Null_deref
      | Ptr b i \<Rightarrow>
          (case block m b of
             None \<Rightarrow> Inl Dangling
           | Some bs \<Rightarrow> if i + k < length bs then Inr (bs ! (i + k)) else Inl Out_of_bounds))"

definition store_bytes :: "mem \<Rightarrow> ptr \<Rightarrow> char list \<Rightarrow> mem res" where
  "store_bytes m p bs =
     (if bs = [] then Inr m
      else case p of
        NULL \<Rightarrow> Inl Null_deref
      | Ptr b i \<Rightarrow>
          (case b of
             Lit s \<Rightarrow> Inl Read_only
           | _ \<Rightarrow>
             (case blocks m b of
                None \<Rightarrow> Inl Dangling
              | Some old \<Rightarrow>
                  if i + length bs \<le> length old
                  then Inr (m\<lparr>blocks := (blocks m)(b := Some (take i old @ bs @ drop (i + length bs) old))\<rparr>)
                  else Inl Out_of_bounds)))"

definition overlaps :: "ptr \<Rightarrow> ptr \<Rightarrow> nat \<Rightarrow> bool" where
  "overlaps d s n =
     (case d of NULL \<Rightarrow> False
      | Ptr b i \<Rightarrow> (case s of NULL \<Rightarrow> False | Ptr b' j \<Rightarrow> 0 < n \<and> b = b' \<and> i < j + n \<and> j < i + n))"

definition memcpy :: "ptr \<Rightarrow> ptr \<Rightarrow> nat \<Rightarrow> mem \<Rightarrow> mem res" where
  "memcpy d s n m =
     bnd (load_bytes m s n)
         (\<lambda>bs. if overlaps d s n then Inl Overlap else store_bytes m d bs)"

definition memset :: "ptr \<Rightarrow> char \<Rightarrow> nat \<Rightarrow> mem \<Rightarrow> mem res" where
  "memset p c n m = store_bytes m p (replicate n c)"

lemma load_bytes_0 [simp]: "load_bytes m p 0 = Inr []"
  by (simp add: load_bytes_def)

lemma load_bytes_length: "load_bytes m p n = Inr bs \<Longrightarrow> length bs = n"
  by (auto simp: load_bytes_def split: if_splits ptr.splits option.splits)

lemma load_bytes_block:
  "block m b = Some bs \<Longrightarrow> i + n \<le> length bs \<Longrightarrow>
    load_bytes m (Ptr b i) n = Inr (take n (drop i bs))"
  by (simp add: load_bytes_def)

lemma load_bytes_Inr_iff:
  "load_bytes m (Ptr b i) n = Inr xs \<longleftrightarrow>
     (n = 0 \<and> xs = []) \<or>
     (0 < n \<and> (\<exists>bs. block m b = Some bs \<and> i + n \<le> length bs \<and> xs = take n (drop i bs)))"
  by (auto simp: load_bytes_def split: option.splits if_splits)

text \<open>Part of a readable range is readable.\<close>

lemma load_bytes_sub:
  assumes "load_bytes m p n = Inr bs" and "i + k \<le> n"
  shows "load_bytes m (ptr_add p i) k = Inr (take k (drop i bs))"
proof (cases p)
  case NULL
  with assms show ?thesis by (auto simp: load_bytes_def split: if_splits)
next
  case (Ptr b j)
  show ?thesis
  proof (cases "k = 0")
    case False
    with assms Ptr obtain xs where "block m b = Some xs" "j + n \<le> length xs" "bs = take n (drop j xs)"
      by (auto simp: load_bytes_Inr_iff)
    with assms(2) False Ptr show ?thesis
      by (simp add: load_bytes_def drop_take min_def add.commute)
  qed simp
qed

lemma load_byte_nth:
  assumes "load_bytes m p n = Inr bs" and "k < n"
  shows "load_byte m p k = Inr (bs ! k)"
  using assms by (cases p) (auto simp: load_bytes_def load_byte_def split: option.splits if_splits)

section \<open>The allocator\<close>

definition malloc :: "nat \<Rightarrow> mem \<Rightarrow> ptr \<times> mem" where
  "malloc n m =
     (let k = brk m in
      if avail m k
      then (Ptr (Heap k) 0,
            m\<lparr>blocks := (blocks m)(Heap k := Some (map (junk m k) [0..<n])), brk := Suc k\<rparr>)
      else (NULL, m\<lparr>brk := Suc k\<rparr>))"

definition mfree :: "ptr \<Rightarrow> mem \<Rightarrow> mem res" where
  "mfree p m =
     (case p of
        NULL \<Rightarrow> Inr m
      | Ptr b i \<Rightarrow>
          (case b of
             Heap k \<Rightarrow>
               (if blocks m b = None then Inl Dangling
                else if i \<noteq> 0 then Inl Bad_free
                else Inr (m\<lparr>blocks := (blocks m)(b := None)\<rparr>))
           | _ \<Rightarrow> Inl Bad_free))"

text \<open>
  \<^verbatim>\<open>realloc\<close> ends the lifetime of the old object: pointers into it dangle, whether or
  not the allocator moves the bytes. A failed request leaves it alone.
\<close>

definition realloc :: "ptr \<Rightarrow> nat \<Rightarrow> mem \<Rightarrow> (ptr \<times> mem) res" where
  "realloc p n m =
     (case p of
        NULL \<Rightarrow> Inr (malloc n m)
      | Ptr b i \<Rightarrow>
          (case b of
             Heap j \<Rightarrow>
               (case blocks m b of
                  None \<Rightarrow> Inl Dangling
                | Some old \<Rightarrow>
                    if i \<noteq> 0 then Inl Bad_free
                    else let k = brk m in
                      if avail m k
                      then Inr (Ptr (Heap k) 0,
                             m\<lparr>blocks := (blocks m)
                                 (b := None,
                                  Heap k := Some (take n old @ map (junk m k) [length old..<n])),
                               brk := Suc k\<rparr>)
                      else Inr (NULL, m\<lparr>brk := Suc k\<rparr>))
           | _ \<Rightarrow> Inl Bad_free))"

text \<open>
  A struct with an embedded byte array comes to life (an automatic variable, or a part of a
  block of the allocator) and ends.
\<close>

definition new_buf :: "nat \<Rightarrow> mem \<Rightarrow> nat \<times> mem" where
  "new_buf n m =
     (brk m, m\<lparr>blocks := (blocks m)(Buf (brk m) := Some (replicate n NUL)), brk := Suc (brk m)\<rparr>)"

definition drop_buf :: "nat \<Rightarrow> mem \<Rightarrow> mem" where
  "drop_buf k m = m\<lparr>blocks := (blocks m)(Buf k := None)\<rparr>"

section \<open>Well-formed memories and frames\<close>

text \<open>The identities from \<open>brk\<close> on are unused.\<close>

definition wf_mem :: "mem \<Rightarrow> bool" where
  "wf_mem m \<longleftrightarrow> (\<forall>k \<ge> brk m. blocks m (Heap k) = None \<and> blocks m (Buf k) = None)"

text \<open>
  \<open>frame B m m'\<close>: from \<open>m\<close> to \<open>m'\<close> the environment is the same, identities are
  only handed out, of the objects old in \<open>m\<close> only those in \<open>B\<close> may have changed, and
  no object that has ended in \<open>m\<close> has come back.
\<close>

definition frame :: "base set \<Rightarrow> mem \<Rightarrow> mem \<Rightarrow> bool" where
  "frame B m m' \<longleftrightarrow>
     wf_mem m' \<and> brk m \<le> brk m' \<and> avail m' = avail m \<and> junk m' = junk m \<and> ndebug m' = ndebug m \<and>
     (\<forall>b. b \<notin> B \<and> blocks m b \<noteq> None \<longrightarrow> blocks m' b = blocks m b) \<and>
     (\<forall>k < brk m. blocks m (Heap k) = None \<longrightarrow> blocks m' (Heap k) = None) \<and>
     (\<forall>k < brk m. blocks m (Buf k) = None \<longrightarrow> blocks m' (Buf k) = None)"

lemma frame_refl [simp]: "wf_mem m \<Longrightarrow> frame B m m"
  by (simp add: frame_def)

lemma frame_wf: "frame B m m' \<Longrightarrow> wf_mem m'"
  by (simp add: frame_def)

lemma frame_mono: "frame B m m' \<Longrightarrow> B \<subseteq> C \<Longrightarrow> frame C m m'"
  by (auto simp: frame_def)

lemma frame_env:
  assumes "frame B m m'"
  shows "avail m' = avail m" "junk m' = junk m" "ndebug m' = ndebug m"
  using assms by (simp_all add: frame_def)

lemma frame_blocks: "frame B m m' \<Longrightarrow> b \<notin> B \<Longrightarrow> blocks m b = Some bs \<Longrightarrow> blocks m' b = Some bs"
  by (simp add: frame_def)

lemma frame_dead: "frame B m m' \<Longrightarrow> k < brk m \<Longrightarrow> blocks m (Heap k) = None \<Longrightarrow> blocks m' (Heap k) = None"
  by (simp add: frame_def)

lemma frame_dead_buf: "frame B m m' \<Longrightarrow> k < brk m \<Longrightarrow> blocks m (Buf k) = None \<Longrightarrow> blocks m' (Buf k) = None"
  by (simp add: frame_def)

lemma frame_brk_le: "frame B m m' \<Longrightarrow> brk m \<le> brk m'"
  by (simp add: frame_def)

lemma frame_None: "frame B m m' \<Longrightarrow> blocks m' b = None \<Longrightarrow> b \<in> B \<or> blocks m b = None"
  by (force simp: frame_def)

lemma frame_block: "frame B m m' \<Longrightarrow> b \<notin> B \<Longrightarrow> block m b = Some bs \<Longrightarrow> block m' b = Some bs"
  by (cases b) (simp_all add: frame_def)

text \<open>Objects that a step makes itself may be changed by the next step.\<close>

lemma frame_trans:
  assumes "frame B m m'" and "frame C m' m''" and "\<And>b. b \<in> C \<Longrightarrow> b \<in> B \<or> blocks m b = None"
  shows "frame B m m''"
proof -
  have "blocks m'' b = blocks m b" if b: "b \<notin> B" "blocks m b \<noteq> None" for b
  proof -
    from assms(3) [of b] b have "b \<notin> C" by auto
    with b assms(1,2) show ?thesis by (simp add: frame_def)
  qed
  with assms(1,2) show ?thesis by (simp add: frame_def)
qed

lemma frame_load:
  assumes "frame B m m'" and "load_bytes m p n = Inr bs"
    and "\<And>b i. p = Ptr b i \<Longrightarrow> 0 < n \<Longrightarrow> b \<notin> B"
  shows "load_bytes m' p n = Inr bs"
proof (cases p)
  case NULL
  with assms(2) show ?thesis by (auto simp: load_bytes_def split: if_splits)
next
  case (Ptr b i)
  with assms show ?thesis
    by (auto simp: load_bytes_Inr_iff dest: frame_block)
qed

lemma wf_mem_fresh [simp]: "wf_mem m \<Longrightarrow> blocks m (Heap (brk m)) = None"
  "wf_mem m \<Longrightarrow> blocks m (Buf (brk m)) = None"
  by (simp_all add: wf_mem_def)

lemma wf_mem_used:
  "wf_mem m \<Longrightarrow> blocks m (Heap k) = Some bs \<Longrightarrow> k < brk m"
  "wf_mem m \<Longrightarrow> blocks m (Buf k) = Some bs \<Longrightarrow> k < brk m"
  by (force simp: wf_mem_def not_less[symmetric])+

lemma wf_mem_brk [simp]: "wf_mem m \<Longrightarrow> wf_mem (m\<lparr>brk := Suc (brk m)\<rparr>)"
  by (simp add: wf_mem_def)

section \<open>Steps on a live object\<close>

definition is_lit :: "base \<Rightarrow> bool" where
  "is_lit b \<longleftrightarrow> (case b of Lit _ \<Rightarrow> True | _ \<Rightarrow> False)"

lemma is_lit_simps [simp]: "\<not> is_lit (Heap k)" "\<not> is_lit (Buf k)" "is_lit (Lit s)"
  by (simp_all add: is_lit_def)

lemma block_obj: "\<not> is_lit b \<Longrightarrow> block m b = blocks m b"
  by (cases b) simp_all

lemma store_bytes_obj:
  assumes "blocks m b = Some old" and "\<not> is_lit b" and "i + length bs \<le> length old"
  shows "store_bytes m (Ptr b i) bs =
    Inr (m\<lparr>blocks := (blocks m)(b := Some (take i old @ bs @ drop (i + length bs) old))\<rparr>)"
  using assms by (cases b) (auto simp: store_bytes_def fun_upd_idem)

lemma wf_mem_update:
  "wf_mem m \<Longrightarrow> blocks m b \<noteq> None \<Longrightarrow> wf_mem (m\<lparr>blocks := (blocks m)(b := x)\<rparr>)"
  by (auto simp: wf_mem_def)

lemma wf_mem_alloc:
  "wf_mem m \<Longrightarrow> b = Heap (brk m) \<or> b = Buf (brk m) \<Longrightarrow>
     wf_mem (m\<lparr>blocks := (blocks m)(b := x), brk := Suc (brk m)\<rparr>)"
  by (auto simp: wf_mem_def)

lemma frame_update:
  "wf_mem m \<Longrightarrow> blocks m b \<noteq> None \<Longrightarrow> b \<in> B \<Longrightarrow>
     frame B m (m\<lparr>blocks := (blocks m)(b := x)\<rparr>)"
  by (auto simp: frame_def wf_mem_update)

lemma frame_alloc:
  "wf_mem m \<Longrightarrow> b = Heap (brk m) \<or> b = Buf (brk m) \<Longrightarrow>
     frame B m (m\<lparr>blocks := (blocks m)(b := x), brk := Suc (brk m)\<rparr>)"
  by (auto simp: frame_def wf_mem_alloc)

lemma frame_brk: "wf_mem m \<Longrightarrow> frame B m (m\<lparr>brk := Suc (brk m)\<rparr>)"
  by (simp add: frame_def)

lemma frame_fresh_update:
  assumes "frame B m m'" and "blocks m b = None" and "blocks m' b \<noteq> None"
  shows "frame B m (m'\<lparr>blocks := (blocks m')(b := x)\<rparr>)"
  using assms by (auto simp: frame_def wf_mem_update)

text \<open>Success and failure of an allocation.\<close>

lemma malloc_ok:
  "avail m (brk m) \<Longrightarrow> malloc n m =
     (Ptr (Heap (brk m)) 0,
      m\<lparr>blocks := (blocks m)(Heap (brk m) := Some (map (junk m (brk m)) [0..<n])), brk := Suc (brk m)\<rparr>)"
  by (simp add: malloc_def Let_def)

lemma malloc_fails: "\<not> avail m (brk m) \<Longrightarrow> malloc n m = (NULL, m\<lparr>brk := Suc (brk m)\<rparr>)"
  by (simp add: malloc_def Let_def)

end
