(* ===== verification/CcVec.thy ===== *)
theory CcVec
  imports Memory
begin

text \<open>
  The vector of the container library that comes with the sources
  (\<^verbatim>\<open>extern/cc/include/cc.h\<close>), as far as the server uses it: a list of elements and the
  capacity of its storage, which doubles through \<^verbatim>\<open>realloc\<close>. The elements are typed
  values, so the storage is not a part of the byte memory; what remains of it there is the
  request to the allocator.
\<close>

text \<open>A request for storage outside the byte memory: it may be refused.\<close>

definition alloc_request :: "mem \<Rightarrow> bool \<times> mem" where
  "alloc_request m = (avail m (brk m), m\<lparr>brk := Suc (brk m)\<rparr>)"

text \<open>What a step leaves of the allocator.\<close>

definition mem_ahead :: "mem \<Rightarrow> mem \<Rightarrow> bool" where
  "mem_ahead m m' \<longleftrightarrow>
     brk m \<le> brk m' \<and> avail m' = avail m \<and> blocks m' = blocks m \<and> junk m' = junk m \<and> ndebug m' = ndebug m"

lemma mem_ahead_refl [simp]: "mem_ahead m m"
  by (simp add: mem_ahead_def)

lemma mem_ahead_alloc [simp]: "mem_ahead m (snd (alloc_request m))"
  by (simp add: mem_ahead_def alloc_request_def)

lemma mem_ahead_trans: "mem_ahead m m' \<Longrightarrow> mem_ahead m' m'' \<Longrightarrow> mem_ahead m m''"
  by (auto simp: mem_ahead_def)

record 'a cc_vec =
  vec_els :: "'a list"
  vec_cap :: size_t

text \<open>\<^verbatim>\<open>cc_init\<close> stores the address of a shared placeholder, which is never null.\<close>

definition cc_init :: "'a cc_vec" where
  "cc_init = \<lparr>vec_els = [], vec_cap = 0\<rparr>"

definition cc_size :: "'a cc_vec \<Rightarrow> size_t" where
  "cc_size v = length (vec_els v)"

text \<open>The loop that doubles the capacity.\<close>

function grow_cap :: "nat \<Rightarrow> nat \<Rightarrow> nat" where
  "grow_cap cap n = (if 0 < cap \<and> cap < n then grow_cap (cap * 2) n else cap)"
  by auto
termination by (relation "measure (\<lambda>(cap, n). n - cap)") auto

declare grow_cap.simps [simp del]

section \<open>The functions\<close>

text \<open>
  A pointer-iterator is the index of its element. The destructor of an element is a parameter of
  the functions that erase, as the macros make it one of the type of the elements.
\<close>

type_synonym 'a dtor = "('a \<Rightarrow> mem \<Rightarrow> mem res) option"

definition cc_vec_is_placeholder :: "'a cc_vec \<Rightarrow> bool" where
  "cc_vec_is_placeholder v \<longleftrightarrow> vec_cap v = 0"

definition cc_vec_get :: "'a cc_vec \<Rightarrow> size_t \<Rightarrow> int" where
  "cc_vec_get v key = int key"

text \<open>
  A first allocation also sets the size of the new header to zero, the size of the placeholder:
  the elements stay the same in either case.
\<close>

definition cc_vec_reserve :: "'a cc_vec \<Rightarrow> size_t \<Rightarrow> mem \<Rightarrow> bool \<times> 'a cc_vec \<times> mem" where
  "cc_vec_reserve v n m =
     (if vec_cap v \<ge> n then (True, v, m)
      else case alloc_request m of (ok, m) \<Rightarrow>
        if \<not> ok then (False, v, m)
        else (True, v\<lparr>vec_cap := n\<rparr>, m))"

text \<open>
  The first component is the pointer-iterator of the result; null when the storage could not
  grow or nothing was to be inserted. An index behind the end makes the size of the move wrap.
\<close>

definition cc_vec_insert_n ::
  "'a cc_vec \<Rightarrow> size_t \<Rightarrow> 'a list \<Rightarrow> mem \<Rightarrow> (nat option \<times> 'a cc_vec \<times> mem) res" where
  "cc_vec_insert_n v index els m =
     (let n = length els in
      if n = 0 then Inr (None, v, m)
      else
        case (if cc_size v + n > vec_cap v
              then cc_vec_reserve v (grow_cap (if vec_cap v = 0 then 2 else vec_cap v) (cc_size v + n)) m
              else (True, v, m)) of
          (ok, v, m) \<Rightarrow>
            if \<not> ok then Inr (None, v, m)
            else if index > cc_size v then Inl Out_of_bounds
            else Inr (Some index,
                      v\<lparr>vec_els := take index (vec_els v) @ els @ drop index (vec_els v)\<rparr>, m))"

definition cc_vec_insert :: "'a cc_vec \<Rightarrow> 'a \<Rightarrow> size_t \<Rightarrow> mem \<Rightarrow> (nat option \<times> 'a cc_vec \<times> mem) res" where
  "cc_vec_insert v el key m = cc_vec_insert_n v key [el] m"

definition cc_vec_push_n :: "'a cc_vec \<Rightarrow> 'a list \<Rightarrow> mem \<Rightarrow> (nat option \<times> 'a cc_vec \<times> mem) res" where
  "cc_vec_push_n v els m = cc_vec_insert_n v (cc_size v) els m"

definition cc_vec_push :: "'a cc_vec \<Rightarrow> 'a \<Rightarrow> mem \<Rightarrow> (nat option \<times> 'a cc_vec \<times> mem) res" where
  "cc_vec_push v el m = cc_vec_push_n v [el] m"

text \<open>The loop of destructor calls.\<close>

fun destroy_els :: "'a dtor \<Rightarrow> 'a list \<Rightarrow> mem \<Rightarrow> mem res" where
  "destroy_els None xs m = Inr m"
| "destroy_els (Some d) [] m = Inr m"
| "destroy_els (Some d) (x # xs) m = bnd (d x m) (\<lambda>m. destroy_els (Some d) xs m)"

definition cc_vec_erase_n ::
  "'a cc_vec \<Rightarrow> size_t \<Rightarrow> size_t \<Rightarrow> 'a dtor \<Rightarrow> mem \<Rightarrow> (nat \<times> 'a cc_vec \<times> mem) res" where
  "cc_vec_erase_n v index n el_dtor m =
     (if n = 0 then Inr (index, v, m)
      else if index + n > cc_size v then Inl Out_of_bounds
      else bnd (destroy_els el_dtor (take n (drop index (vec_els v))) m) (\<lambda>m.
           Inr (index, v\<lparr>vec_els := take index (vec_els v) @ drop (index + n) (vec_els v)\<rparr>, m)))"

definition cc_vec_erase ::
  "'a cc_vec \<Rightarrow> size_t \<Rightarrow> 'a dtor \<Rightarrow> mem \<Rightarrow> (nat \<times> 'a cc_vec \<times> mem) res" where
  "cc_vec_erase v key el_dtor m = cc_vec_erase_n v key 1 el_dtor m"

text \<open>New elements are what the storage holds, the parameter \<open>raw\<close>.\<close>

definition cc_vec_resize ::
  "(nat \<Rightarrow> 'a) \<Rightarrow> 'a cc_vec \<Rightarrow> size_t \<Rightarrow> 'a dtor \<Rightarrow> mem \<Rightarrow> (bool \<times> 'a cc_vec \<times> mem) res" where
  "cc_vec_resize raw v n el_dtor m =
     (if n = cc_size v then Inr (True, v, m)
      else if n < cc_size v
      then bnd (cc_vec_erase_n v n (cc_size v - n) el_dtor m) (\<lambda>(_, v, m). Inr (True, v, m))
      else case cc_vec_reserve v n m of (ok, v, m) \<Rightarrow>
        if \<not> ok then Inr (False, v, m)
        else Inr (True, v\<lparr>vec_els := vec_els v @ map raw [cc_size v..<n]\<rparr>, m))"

definition cc_vec_shrink :: "'a cc_vec \<Rightarrow> mem \<Rightarrow> bool \<times> 'a cc_vec \<times> mem" where
  "cc_vec_shrink v m =
     (if cc_size v = vec_cap v then (True, v, m)
      else if cc_size v = 0 then (True, cc_init, m)
      else case alloc_request m of (ok, m) \<Rightarrow>
        if \<not> ok then (False, v, m) else (True, v\<lparr>vec_cap := cc_size v\<rparr>, m))"

definition cc_vec_init_clone :: "(nat \<Rightarrow> 'a) \<Rightarrow> 'a cc_vec \<Rightarrow> mem \<Rightarrow> ('a cc_vec option \<times> mem) res" where
  "cc_vec_init_clone raw src m =
     (if cc_size src = 0 then Inr (Some cc_init, m)
      else bnd (cc_vec_resize raw cc_init (cc_size src) None m) (\<lambda>(ok, v, m).
           if \<not> ok then Inr (None, m)
           else Inr (Some (v\<lparr>vec_els := vec_els src @ drop (cc_size src) (vec_els v)\<rparr>), m)))"

definition cc_vec_clear :: "'a cc_vec \<Rightarrow> 'a dtor \<Rightarrow> mem \<Rightarrow> ('a cc_vec \<times> mem) res" where
  "cc_vec_clear v el_dtor m =
     bnd (cc_vec_erase_n v 0 (cc_size v) el_dtor m) (\<lambda>(_, v, m). Inr (v, m))"

text \<open>The storage is released; the macro \<^verbatim>\<open>cc_cleanup\<close> makes the handle the placeholder again.\<close>

definition cc_vec_cleanup :: "'a cc_vec \<Rightarrow> 'a dtor \<Rightarrow> mem \<Rightarrow> mem res" where
  "cc_vec_cleanup v el_dtor m = bnd (cc_vec_clear v el_dtor m) (\<lambda>(_, m). Inr m)"

definition cc_vec_end :: "'a cc_vec \<Rightarrow> int" where
  "cc_vec_end v = int (cc_size v)"

definition cc_vec_next :: "int \<Rightarrow> int" where
  "cc_vec_next itr = itr + 1"

definition cc_vec_first :: "'a cc_vec \<Rightarrow> int" where
  "cc_vec_first v = 0"

text \<open>In an empty vector this is the place in front of the first element.\<close>

definition cc_vec_last :: "'a cc_vec \<Rightarrow> int" where
  "cc_vec_last v = int (cc_size v) - 1"

text \<open>The element a pointer-iterator points to.\<close>

definition vec_deref :: "'a cc_vec \<Rightarrow> int \<Rightarrow> 'a res" where
  "vec_deref v i = (if 0 \<le> i \<and> i < int (cc_size v) then Inr (vec_els v ! nat i) else Inl Out_of_bounds)"

section \<open>The macros the server uses\<close>

text \<open>A push never moves elements, and so has no fault (\<open>cc_vec_push_total\<close> below).\<close>

definition cc_push :: "'a cc_vec \<Rightarrow> 'a \<Rightarrow> mem \<Rightarrow> bool \<times> 'a cc_vec \<times> mem" where
  "cc_push v x m =
     (case cc_vec_push v x m of
        Inl e \<Rightarrow> (False, v, m)
      | Inr (itr, v, m) \<Rightarrow> (itr \<noteq> None, v, m))"

definition cc_last :: "'a cc_vec \<Rightarrow> 'a res" where
  "cc_last v = vec_deref v (cc_vec_last v)"

definition cc_get :: "'a cc_vec \<Rightarrow> nat \<Rightarrow> 'a res" where
  "cc_get v i = vec_deref v (cc_vec_get v i)"

definition cc_cleanup :: "'a cc_vec \<Rightarrow> 'a cc_vec" where
  "cc_cleanup v = cc_init"

lemma cc_last_eq: "cc_last v = (if vec_els v = [] then Inl Out_of_bounds else Inr (last (vec_els v)))"
  by (auto simp: cc_last_def vec_deref_def cc_vec_last_def cc_size_def last_conv_nth nat_minus_as_int)

lemma cc_get_eq: "cc_get v i = (if i < cc_size v then Inr (vec_els v ! i) else Inl Out_of_bounds)"
  by (simp add: cc_get_def vec_deref_def cc_vec_get_def)

section \<open>What they do\<close>

text \<open>
  The elements fit the capacity; the placeholder is the vector without storage.
\<close>

definition vec_ok :: "'a cc_vec \<Rightarrow> bool" where
  "vec_ok v \<longleftrightarrow> cc_size v \<le> vec_cap v"

lemma vec_ok_init [simp]: "vec_ok cc_init"
  by (simp add: vec_ok_def cc_init_def cc_size_def)

lemma grow_cap_ge: "0 < cap \<Longrightarrow> n \<le> grow_cap cap n"
  by (induction cap n rule: grow_cap.induct) (subst grow_cap.simps, auto)

lemma grow_cap_doubles: "\<exists>k. grow_cap cap n = cap * 2 ^ k"
proof (induction cap n rule: grow_cap.induct)
  case (1 cap n)
  show ?case
  proof (cases "0 < cap \<and> cap < n")
    case True
    with 1 obtain k where "grow_cap (cap * 2) n = cap * 2 * 2 ^ k" by blast
    with True have "grow_cap cap n = cap * 2 ^ Suc k" by (subst grow_cap.simps) simp
    then show ?thesis by blast
  next
    case False
    then have "grow_cap cap n = cap * 2 ^ 0" by (subst grow_cap.simps) auto
    then show ?thesis by blast
  qed
qed

lemma grow_cap_less: "0 < cap \<Longrightarrow> grow_cap cap n = cap \<or> grow_cap cap n < 2 * n"
proof (induction cap n rule: grow_cap.induct)
  case (1 cap n)
  then show ?case by (subst (1 2) grow_cap.simps) (auto)
qed

text \<open>An insertion: the list with the new elements in it, or nothing changed.\<close>

lemma cc_vec_insert_n_cases:
  assumes "vec_ok v" and "index \<le> cc_size v" and "els \<noteq> []"
  obtains m' where "cc_vec_insert_n v index els m = Inr (None, v, m')"
      and "\<not> avail m (brk m)" and "vec_cap v < cc_size v + length els"
  | v' m' where "cc_vec_insert_n v index els m = Inr (Some index, v', m')"
      and "vec_els v' = take index (vec_els v) @ els @ drop index (vec_els v)" and "vec_ok v'"
      and "vec_cap v \<le> vec_cap v'"
proof -
  let ?n = "cc_size v + length els" and ?c = "if vec_cap v = 0 then 2 else vec_cap v"
  have g: "?n \<le> grow_cap ?c ?n" by (rule grow_cap_ge) simp
  show thesis
  proof (cases "?n > vec_cap v")
    case False
    then show thesis using assms
      by (intro that(2) [of "v\<lparr>vec_els := take index (vec_els v) @ els @ drop index (vec_els v)\<rparr>" m])
        (auto simp: cc_vec_insert_n_def vec_ok_def cc_size_def)
  next
    case True
    with g have c: "\<not> vec_cap v \<ge> grow_cap ?c ?n" by simp
    show thesis
    proof (cases "avail m (brk m)")
      case False
      with True c assms(3) show thesis
        by (intro that(1) [of "m\<lparr>brk := Suc (brk m)\<rparr>"])
          (simp_all add: cc_vec_insert_n_def cc_vec_reserve_def alloc_request_def)
    next
      case av: True
      let ?v = "\<lparr>vec_els = vec_els v, vec_cap = grow_cap ?c ?n\<rparr>"
      have "cc_vec_reserve v (grow_cap ?c ?n) m = (True, ?v, m\<lparr>brk := Suc (brk m)\<rparr>)"
        using c av by (simp add: cc_vec_reserve_def alloc_request_def)
      moreover have "index \<le> cc_size ?v" using assms(2) by (simp add: cc_size_def)
      ultimately have "cc_vec_insert_n v index els m = Inr (Some index,
          ?v\<lparr>vec_els := take index (vec_els v) @ els @ drop index (vec_els v)\<rparr>, m\<lparr>brk := Suc (brk m)\<rparr>)"
        using True assms(3) by (simp add: cc_vec_insert_n_def)
      then show thesis by (rule that(2)) (use g assms c in \<open>auto simp: vec_ok_def cc_size_def\<close>)
    qed
  qed
qed

lemma cc_vec_push_total: "cc_vec_push v x m \<noteq> Inl e"
  by (auto simp: cc_vec_push_def cc_vec_push_n_def cc_vec_insert_n_def cc_vec_reserve_def alloc_request_def
      cc_size_def cc_vec_is_placeholder_def Let_def)

text \<open>The push, in one equation.\<close>

lemma cc_push_unfold:
  "cc_push v x m =
     (if cc_size v + 1 > vec_cap v
      then let cap = grow_cap (if vec_cap v = 0 then 2 else vec_cap v) (cc_size v + 1)
           in (case alloc_request m of (ok, m) \<Rightarrow>
                if \<not> ok then (False, v, m)
                else (True, \<lparr>vec_els = vec_els v @ [x], vec_cap = cap\<rparr>, m))
      else (True, v\<lparr>vec_els := vec_els v @ [x]\<rparr>, m))"
proof -
  have "cc_size v + 1 \<le> grow_cap (if vec_cap v = 0 then 2 else vec_cap v) (cc_size v + 1)"
    by (rule grow_cap_ge) simp
  then show ?thesis
    by (auto simp: cc_push_def cc_vec_push_def cc_vec_push_n_def cc_vec_insert_n_def cc_vec_reserve_def
        alloc_request_def cc_size_def Let_def)
qed

lemma cc_push_ok:
  assumes "avail m (brk m)"
  shows "\<exists>c b. cc_push v x m = (True, \<lparr>vec_els = vec_els v @ [x], vec_cap = c\<rparr>, m\<lparr>brk := b\<rparr>) \<and> brk m \<le> b"
proof (cases "cc_size v + 1 > vec_cap v")
  case True
  with assms show ?thesis by (auto simp: cc_push_unfold alloc_request_def intro!: exI [of _ "Suc (brk m)"])
next
  case False
  then show ?thesis
    by (intro exI [of _ "vec_cap v"] exI [of _ "brk m"]) (simp add: cc_push_unfold)
qed

lemma cc_push_preserves: "vec_ok v \<Longrightarrow> cc_push v x m = (ok, v', m') \<Longrightarrow> vec_ok v'"
  using grow_cap_ge [of 2 "cc_size v + 1"] grow_cap_ge [of "vec_cap v" "cc_size v + 1"]
  by (auto simp: cc_push_unfold vec_ok_def cc_size_def alloc_request_def Let_def split: if_splits)

end
