(* ===== verification/CcVecProps.thy ===== *)
theory CcVecProps
  imports CcVec
begin

text \<open>
  The vector refines a list: every sequence of its operations, with any answers of the
  allocator, does to the elements what the same operations do to a list, where an operation that
  gets no storage does nothing; and it faults exactly where an operation leaves the bounds.
\<close>

section \<open>Operations as data\<close>

datatype 'a vec_op =
    V_reserve nat | V_insert nat "'a list" | V_push 'a | V_erase nat nat | V_resize nat | V_shrink | V_clear

fun vec_step :: "(nat \<Rightarrow> 'a) \<Rightarrow> 'a vec_op \<Rightarrow> 'a cc_vec \<Rightarrow> mem \<Rightarrow> (bool \<times> 'a cc_vec \<times> mem) res" where
  "vec_step raw (V_reserve n) v m = Inr (cc_vec_reserve v n m)"
| "vec_step raw (V_insert i els) v m =
     bnd (cc_vec_insert_n v i els m) (\<lambda>(itr, v, m). Inr (itr \<noteq> None, v, m))"
| "vec_step raw (V_push x) v m = Inr (cc_push v x m)"
| "vec_step raw (V_erase i n) v m = bnd (cc_vec_erase_n v i n None m) (\<lambda>(_, v, m). Inr (True, v, m))"
| "vec_step raw (V_resize n) v m = cc_vec_resize raw v n None m"
| "vec_step raw V_shrink v m = Inr (cc_vec_shrink v m)"
| "vec_step raw V_clear v m = bnd (cc_vec_clear v None m) (\<lambda>(v, m). Inr (True, v, m))"

text \<open>The same operation on a list; \<open>ok\<close> says whether it got the storage it asked for.\<close>

fun list_step :: "(nat \<Rightarrow> 'a) \<Rightarrow> bool \<Rightarrow> 'a vec_op \<Rightarrow> 'a list \<Rightarrow> 'a list option" where
  "list_step raw ok (V_reserve n) xs = Some xs"
| "list_step raw ok (V_insert i els) xs =
     (if \<not> ok \<or> els = [] then Some xs
      else if i \<le> length xs then Some (take i xs @ els @ drop i xs) else None)"
| "list_step raw ok (V_push x) xs = Some (if ok then xs @ [x] else xs)"
| "list_step raw ok (V_erase i n) xs =
     (if n = 0 then Some xs else if i + n \<le> length xs then Some (take i xs @ drop (i + n) xs) else None)"
| "list_step raw ok (V_resize n) xs =
     Some (if n \<le> length xs then take n xs else if ok then xs @ map raw [length xs..<n] else xs)"
| "list_step raw ok V_shrink xs = Some xs"
| "list_step raw ok V_clear xs = Some []"

fun vec_run :: "(nat \<Rightarrow> 'a) \<Rightarrow> 'a vec_op list \<Rightarrow> 'a cc_vec \<Rightarrow> mem \<Rightarrow> ('a cc_vec \<times> mem) res" where
  "vec_run raw [] v m = Inr (v, m)"
| "vec_run raw (op # ops) v m = bnd (vec_step raw op v m) (\<lambda>(_, v, m). vec_run raw ops v m)"

fun list_run :: "(nat \<Rightarrow> 'a) \<Rightarrow> bool list \<Rightarrow> 'a vec_op list \<Rightarrow> 'a list \<Rightarrow> 'a list option" where
  "list_run raw (ok # oks) (op # ops) xs =
     (case list_step raw ok op xs of None \<Rightarrow> None | Some xs \<Rightarrow> list_run raw oks ops xs)"
| "list_run raw _ _ xs = Some xs"

section \<open>One operation\<close>

lemmas vec_defs = cc_vec_reserve_def cc_vec_insert_n_def cc_push_unfold cc_vec_erase_n_def cc_vec_resize_def
  cc_vec_shrink_def cc_vec_clear_def alloc_request_def cc_size_def vec_ok_def cc_init_def

lemma vec_step_list:
  assumes ok: "vec_ok v"
  shows "case vec_step raw op v m of
       Inr (done, v', m') \<Rightarrow>
         vec_ok v' \<and> mem_ahead m m' \<and> ((\<forall>k \<ge> brk m. avail m k) \<longrightarrow> done \<or> (\<exists>i. op = V_insert i [])) \<and>
         list_step raw done op (vec_els v) = Some (vec_els v')
     | Inl e \<Rightarrow> e = Out_of_bounds \<and> list_step raw True op (vec_els v) = None"
proof (cases op)
  case (V_insert i els)
  have g: "length (vec_els v) + length els \<le> grow_cap 2 (length (vec_els v) + length els)"
    "0 < vec_cap v \<Longrightarrow> length (vec_els v) + length els \<le> grow_cap (vec_cap v) (length (vec_els v) + length els)"
    by (simp_all add: grow_cap_ge)
  with ok V_insert show ?thesis
    by (auto simp: vec_defs mem_ahead_def Let_def not_less)
next
  case (V_push x)
  have g: "Suc (length (vec_els v)) \<le> grow_cap 2 (Suc (length (vec_els v)))"
    "0 < vec_cap v \<Longrightarrow> Suc (length (vec_els v)) \<le> grow_cap (vec_cap v) (Suc (length (vec_els v)))"
    by (simp_all add: grow_cap_ge)
  with ok V_push show ?thesis
    by (auto simp: vec_defs mem_ahead_def Let_def not_less)
qed (use ok in \<open>auto simp: vec_defs mem_ahead_def Let_def not_less\<close>)

section \<open>All sequences\<close>

lemma vec_run_list:
  assumes "vec_ok v"
  shows "\<exists>oks. length oks = length ops \<and>
     (case vec_run raw ops v m of
        Inr (v', m') \<Rightarrow> vec_ok v' \<and> list_run raw oks ops (vec_els v) = Some (vec_els v')
      | Inl e \<Rightarrow> e = Out_of_bounds \<and> list_run raw oks ops (vec_els v) = None) \<and>
     ((\<forall>k \<ge> brk m. avail m k) \<longrightarrow> list_run raw oks ops (vec_els v) = list_run raw (map (\<lambda>_. True) ops) ops (vec_els v))"
  using assms
proof (induction ops arbitrary: v m)
  case (Cons op ops)
  show ?case
  proof (cases "vec_step raw op v m")
    case (Inl e)
    with vec_step_list [OF Cons.prems, of raw op m] show ?thesis
      by (intro exI [of _ "map (\<lambda>_. True) (op # ops)"]) simp
  next
    case (Inr r)
    obtain ok v1 m1 where r: "r = (ok, v1, m1)" by (cases r)
    from vec_step_list [OF Cons.prems, of raw op m] Inr r have 1: "vec_ok v1" "mem_ahead m m1"
      "(\<forall>k \<ge> brk m. avail m k) \<longrightarrow> ok \<or> (\<exists>i. op = V_insert i [])"
      "list_step raw ok op (vec_els v) = Some (vec_els v1)" by auto
    from Cons.IH [OF 1(1), of m1] obtain oks where o: "length oks = length ops"
      "case vec_run raw ops v1 m1 of
         Inr (v', m') \<Rightarrow> vec_ok v' \<and> list_run raw oks ops (vec_els v1) = Some (vec_els v')
       | Inl e \<Rightarrow> e = Out_of_bounds \<and> list_run raw oks ops (vec_els v1) = None"
      "(\<forall>k \<ge> brk m1. avail m1 k) \<longrightarrow> list_run raw oks ops (vec_els v1) = list_run raw (map (\<lambda>_. True) ops) ops (vec_els v1)"
      by blast
    have run: "vec_run raw (op # ops) v m = vec_run raw ops v1 m1" using Inr r by simp
    have list: "list_run raw (ok # oks) (op # ops) (vec_els v) = list_run raw oks ops (vec_els v1)"
      using 1(4) by simp
    have "list_run raw (ok # oks) (op # ops) (vec_els v) =
        list_run raw (map (\<lambda>_. True) (op # ops)) (op # ops) (vec_els v)" if av: "\<forall>k \<ge> brk m. avail m k"
    proof -
      have "\<forall>k \<ge> brk m1. avail m1 k" using av 1(2) by (auto simp: mem_ahead_def)
      moreover have "list_step raw True op (vec_els v) = Some (vec_els v1)" using 1(3,4) av by auto
      ultimately show ?thesis using o(3) 1(4) by simp
    qed
    with o(1,2) show ?thesis unfolding run list [symmetric]
      by (intro exI [of _ "ok # oks"]) simp
  qed
qed simp



text \<open>
  Inserting elements and erasing as many at the same place gives the elements back; the
  capacity only grows, and not beyond twice the number of elements it was needed for.
\<close>

theorem vec_insert_erase:
  assumes "vec_ok v" and "index \<le> cc_size v" and "els \<noteq> []" and "avail m (brk m)"
  shows "\<exists>v1 m1 v2. cc_vec_insert_n v index els m = Inr (Some index, v1, m1) \<and>
     cc_size v1 = cc_size v + length els \<and>
     (vec_cap v1 = vec_cap v \<or> vec_cap v1 \<le> 2 \<or> vec_cap v1 < 2 * cc_size v1) \<and>
     cc_vec_erase_n v1 index (length els) None m1 = Inr (index, v2, m1) \<and>
     vec_els v2 = vec_els v \<and> vec_cap v2 = vec_cap v1"
proof -
  let ?n = "cc_size v + length els"
  have "0 < (if vec_cap v = 0 then 2 else vec_cap v)" by simp
  note g = grow_cap_less [OF this, of ?n]
  from cc_vec_insert_n_cases [OF assms(1-3), of m] assms(4) obtain v1 m1 where
    1: "cc_vec_insert_n v index els m = Inr (Some index, v1, m1)"
       "vec_els v1 = take index (vec_els v) @ els @ drop index (vec_els v)" "vec_ok v1" "vec_cap v \<le> vec_cap v1"
    by metis
  have s: "cc_size v1 = ?n" using 1(2) assms(2) by (simp add: cc_size_def)
  have "vec_cap v1 = (if ?n > vec_cap v then grow_cap (if vec_cap v = 0 then 2 else vec_cap v) ?n else vec_cap v)"
    using 1(1) assms(3,4) grow_cap_ge [of "if vec_cap v = 0 then 2 else vec_cap v" ?n]
    by (auto simp: cc_vec_insert_n_def cc_vec_reserve_def alloc_request_def Let_def split: if_splits)
  with g have c: "vec_cap v1 = vec_cap v \<or> vec_cap v1 \<le> 2 \<or> vec_cap v1 < 2 * cc_size v1"
    unfolding s by (auto split: if_splits)
  have "cc_vec_erase_n v1 index (length els) None m1 = Inr (index, v1\<lparr>vec_els := vec_els v\<rparr>, m1)"
    using assms(2,3) s 1(2) by (simp add: cc_vec_erase_n_def cc_size_def)
  with 1(1) s c show ?thesis by auto
qed

lemma vec_insert_erase_witness:
  "\<exists>v1 m1 v2. cc_vec_insert_n \<lparr>vec_els = [1, 2::nat], vec_cap = 2\<rparr> 1 [5]
       \<lparr>blocks = Map.empty, brk = 0, avail = (\<lambda>_. True), junk = (\<lambda>_ _. NUL), ndebug = False\<rparr> = Inr (Some 1, v1, m1) \<and>
     cc_vec_erase_n v1 1 1 None m1 = Inr (1, v2, m1) \<and> vec_els v2 = [1, 2]"
proof -
  let ?v = "\<lparr>vec_els = [1, 2::nat], vec_cap = 2\<rparr>"
  let ?m = "\<lparr>blocks = Map.empty, brk = 0, avail = (\<lambda>_. True), junk = (\<lambda>_ _. NUL), ndebug = False\<rparr> :: mem"
  have "vec_ok ?v" "1 \<le> cc_size ?v" "[5::nat] \<noteq> []" "avail ?m (brk ?m)" by (simp_all add: vec_ok_def cc_size_def)
  from vec_insert_erase [OF this] show ?thesis by auto
qed

end
