(* ===== verification/CcList.thy ===== *)
theory CcList
  imports CcVec
begin

text \<open>
  The list of the container library (\<^verbatim>\<open>extern/cc/include/cc.h\<close>): doubly linked nodes between
  two sentinels that are part of the list's header. A list without a header is the address of a
  constant placeholder, and a header keeps pointers to the sentinels of the placeholder it replaced,
  so that the iterators of both ends never change. Nodes are objects of a store of their own, every
  access to which is checked; the elements are typed values.
\<close>

section \<open>The store\<close>

text \<open>
  Headers and element nodes have numbers. A pointer-iterator points behind the header of its node:
  here it is the node.
\<close>

datatype lnode = L_node nat | L_rend nat | L_end nat

record listnode_hdr =
  prev_node :: lnode
  next_node :: lnode

record 'a lstore =
  list_nodes :: "lnode \<Rightarrow> listnode_hdr option"
  list_els :: "nat \<Rightarrow> 'a option"
  list_sizes :: "nat \<Rightarrow> size_t option"
  list_const :: "nat \<Rightarrow> bool"     \<comment> \<open>the placeholders, which are constant\<close>

fun read_only_node :: "'a lstore \<Rightarrow> lnode \<Rightarrow> bool" where
  "read_only_node s (L_node n) = False"
| "read_only_node s (L_rend h) = list_const s h"
| "read_only_node s (L_end h) = list_const s h"

definition get_node :: "'a lstore \<Rightarrow> lnode \<Rightarrow> listnode_hdr res" where
  "get_node s n = (case list_nodes s n of None \<Rightarrow> Inl Dangling | Some h \<Rightarrow> Inr h)"

definition put_node :: "'a lstore \<Rightarrow> lnode \<Rightarrow> listnode_hdr \<Rightarrow> 'a lstore res" where
  "put_node s n h =
     (if list_nodes s n = None then Inl Dangling
      else if read_only_node s n then Inl Read_only
      else Inr (s\<lparr>list_nodes := (list_nodes s)(n := Some h)\<rparr>))"

definition set_next :: "'a lstore \<Rightarrow> lnode \<Rightarrow> lnode \<Rightarrow> 'a lstore res" where
  "set_next s n v = bnd (get_node s n) (\<lambda>h. put_node s n (h\<lparr>next_node := v\<rparr>))"

definition set_prev :: "'a lstore \<Rightarrow> lnode \<Rightarrow> lnode \<Rightarrow> 'a lstore res" where
  "set_prev s n v = bnd (get_node s n) (\<lambda>h. put_node s n (h\<lparr>prev_node := v\<rparr>))"

definition add_size :: "'a lstore \<Rightarrow> nat \<Rightarrow> (size_t \<Rightarrow> size_t) \<Rightarrow> 'a lstore res" where
  "add_size s cntr f =
     (case list_sizes s cntr of
        None \<Rightarrow> Inl Dangling
      | Some n \<Rightarrow> if list_const s cntr then Inl Read_only
                 else Inr (s\<lparr>list_sizes := (list_sizes s)(cntr := Some (f n))\<rparr>))"

text \<open>A placeholder: its sentinels point to themselves on their outer sides.\<close>

definition cc_list_placeholder :: "nat \<Rightarrow> 'a lstore \<Rightarrow> 'a lstore" where
  "cc_list_placeholder h s =
     s\<lparr>list_nodes := (list_nodes s)
         (L_rend h := Some \<lparr>prev_node = L_rend h, next_node = L_end h\<rparr>,
          L_end h := Some \<lparr>prev_node = L_rend h, next_node = L_end h\<rparr>),
       list_sizes := (list_sizes s)(h := Some 0), list_const := (list_const s)(h := True)\<rparr>"

section \<open>Iterators\<close>

definition cc_list_is_placeholder :: "nat \<Rightarrow> 'a lstore \<Rightarrow> bool res" where
  "cc_list_is_placeholder cntr s = bnd (get_node s (L_rend cntr)) (\<lambda>h. Inr (prev_node h = L_rend cntr))"

definition cc_list_size :: "nat \<Rightarrow> 'a lstore \<Rightarrow> size_t res" where
  "cc_list_size cntr s = (case list_sizes s cntr of None \<Rightarrow> Inl Dangling | Some n \<Rightarrow> Inr n)"

definition cc_list_r_end :: "nat \<Rightarrow> 'a lstore \<Rightarrow> lnode res" where
  "cc_list_r_end cntr s = bnd (get_node s (L_rend cntr)) (\<lambda>h. Inr (prev_node h))"

definition cc_list_end :: "nat \<Rightarrow> 'a lstore \<Rightarrow> lnode res" where
  "cc_list_end cntr s = bnd (get_node s (L_end cntr)) (\<lambda>h. Inr (next_node h))"

definition cc_list_prev :: "nat \<Rightarrow> lnode \<Rightarrow> 'a lstore \<Rightarrow> lnode res" where
  "cc_list_prev cntr itr s =
     bnd (cc_list_end cntr s) (\<lambda>e.
     bnd (get_node s (if itr = e then L_end cntr else itr)) (\<lambda>h.
     if prev_node h = L_rend cntr
     then bnd (get_node s (L_rend cntr)) (\<lambda>h. Inr (prev_node h))
     else Inr (prev_node h)))"

definition cc_list_next :: "nat \<Rightarrow> lnode \<Rightarrow> 'a lstore \<Rightarrow> lnode res" where
  "cc_list_next cntr itr s =
     bnd (cc_list_r_end cntr s) (\<lambda>e.
     bnd (get_node s (if itr = e then L_rend cntr else itr)) (\<lambda>h.
     if next_node h = L_end cntr
     then bnd (get_node s (L_end cntr)) (\<lambda>h. Inr (next_node h))
     else Inr (next_node h)))"

definition cc_list_first :: "nat \<Rightarrow> 'a lstore \<Rightarrow> lnode res" where
  "cc_list_first cntr s = cc_list_next cntr (L_rend cntr) s"

definition cc_list_last :: "nat \<Rightarrow> 'a lstore \<Rightarrow> lnode res" where
  "cc_list_last cntr s = cc_list_prev cntr (L_end cntr) s"

section \<open>Insertion\<close>

text \<open>A new header for a list that is a placeholder; \<open>None\<close> when the allocator refuses.\<close>

definition cc_list_alloc_hdr :: "nat \<Rightarrow> 'a lstore \<Rightarrow> mem \<Rightarrow> nat option \<times> 'a lstore \<times> mem" where
  "cc_list_alloc_hdr cntr s m =
     (let h = brk m in
      case alloc_request m of (ok, m) \<Rightarrow>
      if \<not> ok then (None, s, m)
      else (Some h,
        s\<lparr>list_nodes := (list_nodes s)
            (L_rend h := Some \<lparr>prev_node = L_rend cntr, next_node = L_end h\<rparr>,
             L_end h := Some \<lparr>prev_node = L_rend h, next_node = L_end cntr\<rparr>),
          list_sizes := (list_sizes s)(h := Some 0), list_const := (list_const s)(h := False)\<rparr>, m))"

text \<open>The sentinels of the placeholder stand for those of the header.\<close>

definition local_itr :: "nat \<Rightarrow> lnode \<Rightarrow> 'a lstore \<Rightarrow> lnode res" where
  "local_itr cntr itr s =
     bnd (cc_list_r_end cntr s) (\<lambda>r.
     if itr = r then Inr (L_rend cntr)
     else bnd (cc_list_end cntr s) (\<lambda>e. Inr (if itr = e then L_end cntr else itr)))"

definition cc_list_attach :: "nat \<Rightarrow> lnode \<Rightarrow> lnode \<Rightarrow> 'a lstore \<Rightarrow> 'a lstore res" where
  "cc_list_attach cntr itr node s =
     bnd (local_itr cntr itr s) (\<lambda>itr.
     bnd (set_next s node itr) (\<lambda>s.
     bnd (get_node s itr) (\<lambda>h.
     bnd (set_prev s node (prev_node h)) (\<lambda>s.
     bnd (set_prev s itr node) (\<lambda>s.
     bnd (get_node s node) (\<lambda>h.
     set_next s (prev_node h) node))))))"

text \<open>
  The part that \<^verbatim>\<open>cc_list_insert\<close> and \<^verbatim>\<open>cc_list_splice\<close> begin with: the list gets its header.
\<close>

definition with_hdr :: "nat \<Rightarrow> 'a lstore \<Rightarrow> mem \<Rightarrow> (nat option \<times> 'a lstore \<times> mem) res" where
  "with_hdr cntr s m =
     bnd (cc_list_is_placeholder cntr s) (\<lambda>ph.
     Inr (if ph then cc_list_alloc_hdr cntr s m else (Some cntr, s, m)))"

text \<open>
  The result is the new handle and the iterator of the new element, or null. The iterator in the
  variable of the caller is changed as well; it is a copy, and given up.
\<close>

definition cc_list_insert :: "nat \<Rightarrow> 'a \<Rightarrow> lnode \<Rightarrow> 'a lstore \<Rightarrow> mem \<Rightarrow> (nat \<times> lnode option \<times> 'a lstore \<times> mem) res" where
  "cc_list_insert cntr el key s m =
     bnd (with_hdr cntr s m) (\<lambda>(h, s, m).
     case h of
       None \<Rightarrow> Inr (cntr, None, s, m)
     | Some cntr \<Rightarrow>
         let n = brk m in
         case alloc_request m of (ok, m) \<Rightarrow>
         if \<not> ok then Inr (cntr, None, s, m)
         else
         let s = s\<lparr>list_nodes := (list_nodes s)(L_node n := Some \<lparr>prev_node = L_node n, next_node = L_node n\<rparr>),
                   list_els := (list_els s)(n := Some el)\<rparr> in
         bnd (local_itr cntr key s) (\<lambda>key.
         bnd (cc_list_attach cntr key (L_node n) s) (\<lambda>s.
         bnd (add_size s cntr (\<lambda>k. sz_add k 1)) (\<lambda>s.
         Inr (cntr, Some (L_node n), s, m)))))"

definition cc_list_push :: "nat \<Rightarrow> 'a \<Rightarrow> 'a lstore \<Rightarrow> mem \<Rightarrow> (nat \<times> lnode option \<times> 'a lstore \<times> mem) res" where
  "cc_list_push cntr el s m = bnd (cc_list_end cntr s) (\<lambda>e. cc_list_insert cntr el e s m)"

section \<open>Removal\<close>

text \<open>Only an element has storage that can be given back.\<close>

definition free_node :: "lnode \<Rightarrow> 'a lstore \<Rightarrow> 'a lstore res" where
  "free_node n s =
     (case n of
        L_node i \<Rightarrow> if list_nodes s n = None then Inl Bad_free
                    else Inr (s\<lparr>list_nodes := (list_nodes s)(n := None), list_els := (list_els s)(i := None)\<rparr>)
      | _ \<Rightarrow> Inl Bad_free)"

definition get_el :: "lnode \<Rightarrow> 'a lstore \<Rightarrow> 'a res" where
  "get_el n s =
     (case n of L_node i \<Rightarrow> (case list_els s i of None \<Rightarrow> Inl Dangling | Some x \<Rightarrow> Inr x) | _ \<Rightarrow> Inl Out_of_bounds)"

definition destroy_el :: "'a dtor \<Rightarrow> lnode \<Rightarrow> 'a lstore \<Rightarrow> mem \<Rightarrow> mem res" where
  "destroy_el el_dtor n s m = (case el_dtor of None \<Rightarrow> Inr m | Some d \<Rightarrow> bnd (get_el n s) (\<lambda>x. d x m))"

definition cc_list_erase :: "nat \<Rightarrow> lnode \<Rightarrow> 'a dtor \<Rightarrow> 'a lstore \<Rightarrow> mem \<Rightarrow> (lnode \<times> 'a lstore \<times> mem) res" where
  "cc_list_erase cntr key el_dtor s m =
     bnd (get_node s key) (\<lambda>hdr.
     let next = next_node hdr in
     bnd (set_next s (prev_node hdr) next) (\<lambda>s.
     bnd (get_node s key) (\<lambda>hdr.
     bnd (set_prev s next (prev_node hdr)) (\<lambda>s.
     bnd (destroy_el el_dtor key s m) (\<lambda>m.
     bnd (free_node key s) (\<lambda>s.
     bnd (add_size s cntr (\<lambda>k. sz_sub k 1)) (\<lambda>s.
     if next = L_end cntr
     then bnd (get_node s next) (\<lambda>h. Inr (next_node h, s, m))
     else Inr (next, s, m))))))))"

definition cc_list_splice :: "nat \<Rightarrow> lnode \<Rightarrow> nat \<Rightarrow> lnode \<Rightarrow> 'a lstore \<Rightarrow> mem \<Rightarrow> (nat \<times> bool \<times> 'a lstore \<times> mem) res" where
  "cc_list_splice cntr itr src src_itr s m =
     bnd (with_hdr cntr s m) (\<lambda>(h, s, m).
     case h of
       None \<Rightarrow> Inr (cntr, False, s, m)
     | Some cntr \<Rightarrow>
         bnd (get_node s src_itr) (\<lambda>hdr.
         bnd (set_next s (prev_node hdr) (next_node hdr)) (\<lambda>s.
         bnd (get_node s src_itr) (\<lambda>hdr.
         bnd (set_prev s (next_node hdr) (prev_node hdr)) (\<lambda>s.
         bnd (cc_list_attach cntr itr src_itr s) (\<lambda>s.
         bnd (add_size s src (\<lambda>k. sz_sub k 1)) (\<lambda>s.
         bnd (add_size s cntr (\<lambda>k. sz_add k 1)) (\<lambda>s.
         Inr (cntr, True, s, m)))))))))"

section \<open>Whole lists\<close>

text \<open>The loop of the clone; the fuel is one more than the number of elements.\<close>

fun clone_loop :: "nat \<Rightarrow> nat \<Rightarrow> lnode \<Rightarrow> nat \<Rightarrow> 'a lstore \<Rightarrow> mem \<Rightarrow> (nat \<times> bool \<times> 'a lstore \<times> mem) res" where
  "clone_loop 0 src i new s m = Inl No_fuel"
| "clone_loop (Suc fuel) src i new s m =
     bnd (cc_list_end src s) (\<lambda>e.
     if i = e then Inr (new, True, s, m)
     else bnd (get_el i s) (\<lambda>x.
          bnd (cc_list_end new s) (\<lambda>key.
          bnd (cc_list_insert new x key s m) (\<lambda>(new, itr, s, m).
          if itr = None then Inr (new, False, s, m)
          else bnd (cc_list_next src i s) (\<lambda>i. clone_loop fuel src i new s m)))))"

text \<open>What is left of a clone that could not be completed is freed.\<close>

fun free_loop :: "nat \<Rightarrow> nat \<Rightarrow> lnode \<Rightarrow> 'a lstore \<Rightarrow> 'a lstore res" where
  "free_loop 0 cntr j s = Inl No_fuel"
| "free_loop (Suc fuel) cntr j s =
     bnd (cc_list_end cntr s) (\<lambda>e.
     if j = e then Inr s
     else bnd (cc_list_next cntr j s) (\<lambda>next.
          bnd (free_node j s) (\<lambda>s. free_loop fuel cntr next s)))"

definition free_hdr :: "nat \<Rightarrow> 'a lstore \<Rightarrow> 'a lstore res" where
  "free_hdr h s =
     (if list_sizes s h = None \<or> list_const s h then Inl Bad_free
      else Inr (s\<lparr>list_nodes := (list_nodes s)(L_rend h := None, L_end h := None),
                  list_sizes := (list_sizes s)(h := None)\<rparr>))"

text \<open>\<open>ph\<close> is the placeholder of the file that the clone is made in.\<close>

definition cc_list_init_clone :: "nat \<Rightarrow> nat \<Rightarrow> 'a lstore \<Rightarrow> mem \<Rightarrow> (nat option \<times> 'a lstore \<times> mem) res" where
  "cc_list_init_clone ph src s m =
     bnd (cc_list_size src s) (\<lambda>k.
     bnd (cc_list_first src s) (\<lambda>i.
     bnd (clone_loop (Suc k) src i ph s m) (\<lambda>(new, ok, s, m).
     if ok then Inr (Some new, s, m)
     else
     bnd (cc_list_size new s) (\<lambda>k.
     bnd (cc_list_first new s) (\<lambda>j.
     bnd (free_loop (Suc k) new j s) (\<lambda>s.
     bnd (cc_list_is_placeholder new s) (\<lambda>b.
     if b then Inr (None, s, m) else bnd (free_hdr new s) (\<lambda>s. Inr (None, s, m)))))))))"

fun clear_loop :: "nat \<Rightarrow> nat \<Rightarrow> 'a dtor \<Rightarrow> 'a lstore \<Rightarrow> mem \<Rightarrow> ('a lstore \<times> mem) res" where
  "clear_loop 0 cntr el_dtor s m = Inl No_fuel"
| "clear_loop (Suc fuel) cntr el_dtor s m =
     bnd (cc_list_first cntr s) (\<lambda>i.
     bnd (cc_list_end cntr s) (\<lambda>e.
     if i = e then Inr (s, m)
     else bnd (cc_list_erase cntr i el_dtor s m) (\<lambda>(_, s, m). clear_loop fuel cntr el_dtor s m)))"

definition cc_list_clear :: "nat \<Rightarrow> 'a dtor \<Rightarrow> 'a lstore \<Rightarrow> mem \<Rightarrow> ('a lstore \<times> mem) res" where
  "cc_list_clear cntr el_dtor s m = bnd (cc_list_size cntr s) (\<lambda>k. clear_loop (Suc k) cntr el_dtor s m)"

definition cc_list_cleanup :: "nat \<Rightarrow> 'a dtor \<Rightarrow> 'a lstore \<Rightarrow> mem \<Rightarrow> ('a lstore \<times> mem) res" where
  "cc_list_cleanup cntr el_dtor s m =
     bnd (cc_list_clear cntr el_dtor s m) (\<lambda>(s, m).
     bnd (cc_list_is_placeholder cntr s) (\<lambda>b.
     if b then Inr (s, m) else bnd (free_hdr cntr s) (\<lambda>s. Inr (s, m))))"

text \<open>The macro \<^verbatim>\<open>cc_for_each\<close>, with a body that collects the elements.\<close>

fun for_each_loop :: "nat \<Rightarrow> nat \<Rightarrow> lnode \<Rightarrow> 'a lstore \<Rightarrow> 'a list res" where
  "for_each_loop 0 cntr i s = Inl No_fuel"
| "for_each_loop (Suc fuel) cntr i s =
     bnd (cc_list_end cntr s) (\<lambda>e.
     if i = e then Inr []
     else bnd (get_el i s) (\<lambda>x.
          bnd (cc_list_next cntr i s) (\<lambda>i.
          bnd (for_each_loop fuel cntr i s) (\<lambda>xs. Inr (x # xs)))))"

definition cc_for_each :: "nat \<Rightarrow> 'a lstore \<Rightarrow> 'a list res" where
  "cc_for_each cntr s =
     bnd (cc_list_size cntr s) (\<lambda>k. bnd (cc_list_first cntr s) (\<lambda>i. for_each_loop (Suc k) cntr i s))"

end
