(* ===== verification/StringView.thy ===== *)
theory StringView
  imports Memory "HOL-Library.Word"
begin

text \<open>
  The \<^verbatim>\<open>string_view_t\<close> half of \<^verbatim>\<open>util/string_t.c\<close>: a pointer and a length, without
  ownership. Construction, comparison, hashing, sub-views and the copy into a character
  buffer, together with what each of them means for the bytes the view shows.
\<close>

section \<open>The string functions of the C library\<close>

text \<open>The bytes from a pointer to the end of its object.\<close>

definition tail_bytes :: "mem \<Rightarrow> ptr \<Rightarrow> char list res" where
  "tail_bytes m p =
     (case p of
        NULL \<Rightarrow> Inl Null_deref
      | Ptr b i \<Rightarrow>
          (case block m b of
             None \<Rightarrow> Inl Dangling
           | Some bs \<Rightarrow> if i \<le> length bs then Inr (drop i bs) else Inl Out_of_bounds))"

definition c_strlen :: "mem \<Rightarrow> ptr \<Rightarrow> nat res" where
  "c_strlen m p =
     bnd (tail_bytes m p)
         (\<lambda>bs. if NUL \<in> set bs then Inr (length (cstr bs)) else Inl Out_of_bounds)"

text \<open>
  \<^verbatim>\<open>strncmp\<close> promises the sign of the first difference only, bytes compared as unsigned;
  the model returns that sign.
\<close>

fun strncmp_bytes :: "nat \<Rightarrow> char list \<Rightarrow> char list \<Rightarrow> int res" where
  "strncmp_bytes 0 xs ys = Inr 0"
| "strncmp_bytes (Suc n) (x # xs) (y # ys) =
     (if x = y then (if x = NUL then Inr 0 else strncmp_bytes n xs ys)
      else Inr (if (of_char x :: nat) < of_char y then - 1 else 1))"
| "strncmp_bytes (Suc n) _ _ = Inl Out_of_bounds"

definition c_strncmp :: "mem \<Rightarrow> ptr \<Rightarrow> ptr \<Rightarrow> nat \<Rightarrow> int res" where
  "c_strncmp m p q n =
     bnd (tail_bytes m p) (\<lambda>xs. bnd (tail_bytes m q) (\<lambda>ys. strncmp_bytes n xs ys))"

lemma tail_bytes_load:
  assumes "load_bytes m p n = Inr xs" and "0 < n"
  obtains zs where "tail_bytes m p = Inr (xs @ zs)"
proof -
  from assms obtain b i bs where p: "p = Ptr b i" "block m b = Some bs" "i + n \<le> length bs"
      "xs = take n (drop i bs)"
    by (cases p) (auto simp: load_bytes_def split: option.splits if_splits)
  then have "tail_bytes m p = Inr (xs @ drop n (drop i bs))"
    by (simp add: tail_bytes_def del: drop_drop)
  then show ?thesis by (rule that)
qed

lemma strncmp_bytes_append:
  "n \<le> length xs \<Longrightarrow> n \<le> length ys \<Longrightarrow>
    strncmp_bytes n (xs @ us) (ys @ vs) = strncmp_bytes n xs ys"
  by (induction n xs ys rule: strncmp_bytes.induct) auto

lemma of_char_eq_iff [simp]: "(of_char x :: nat) = of_char y \<longleftrightarrow> x = y"
  by (rule of_char_eq_iff)

text \<open>Comparison up to a NUL: zero exactly when the C strings in front agree.\<close>

lemma strncmp_bytes_zero:
  assumes "n \<le> length xs" and "n \<le> length ys"
  shows "\<exists>c. strncmp_bytes n xs ys = Inr c \<and> (c = 0 \<longleftrightarrow> cstr (take n xs) = cstr (take n ys))"
  using assms by (induction n xs ys rule: strncmp_bytes.induct) auto

text \<open>On equally many bytes without NUL its sign is the lexicographic order.\<close>

lemma strncmp_bytes_less:
  assumes "length xs = n" and "length ys = n" and "NUL \<notin> set xs" and "NUL \<notin> set ys"
  shows "\<exists>c. strncmp_bytes n xs ys = Inr c \<and>
           (c < 0 \<longleftrightarrow> ord_class.lexordp (map of_char xs) (map of_char ys :: nat list))"
  using assms by (induction n xs ys rule: strncmp_bytes.induct) (auto simp: linorder_neq_iff)

section \<open>Views\<close>

record string_view_t =
  sv_data :: ptr
  sv_len :: size_t

abbreviation lit :: "string \<Rightarrow> ptr" where
  "lit s \<equiv> Ptr (Lit s) 0"

text \<open>The bytes a view shows.\<close>

definition view_bytes :: "mem \<Rightarrow> string_view_t \<Rightarrow> char list res" where
  "view_bytes m sv = load_bytes m (sv_data sv) (sv_len sv)"

definition string_view_from_parts :: "ptr \<Rightarrow> size_t \<Rightarrow> string_view_t" where
  "string_view_from_parts p len = \<lparr>sv_data = p, sv_len = (if p = NULL then 0 else len)\<rparr>"

definition string_view_from_cstr :: "mem \<Rightarrow> ptr \<Rightarrow> string_view_t res" where
  "string_view_from_cstr m p =
     (if p = NULL then Inr (string_view_from_parts NULL 0)
      else bnd (c_strlen m p) (\<lambda>n. Inr (string_view_from_parts p n)))"

definition string_view_len :: "string_view_t \<Rightarrow> size_t" where
  "string_view_len sv = sv_len sv"

definition string_view_empty :: "string_view_t \<Rightarrow> bool" where
  "string_view_empty sv \<longleftrightarrow> string_view_len sv = 0"

definition string_view_cstr :: "string_view_t \<Rightarrow> ptr" where
  "string_view_cstr sv = sv_data sv"

definition string_view_compare :: "mem \<Rightarrow> string_view_t \<Rightarrow> string_view_t \<Rightarrow> int res" where
  "string_view_compare m lhs rhs =
     (let llen = string_view_len lhs;
          rlen = string_view_len rhs;
          minlen = (if llen < rlen then llen else rlen)
      in bnd (if 0 < minlen then c_strncmp m (sv_data lhs) (sv_data rhs) minlen else Inr 0)
           (\<lambda>cmp. if cmp \<noteq> 0 then Inr cmp else Inr (to_int32 (sz_sub llen rlen))))"

definition string_view_equal :: "mem \<Rightarrow> string_view_t \<Rightarrow> string_view_t \<Rightarrow> bool res" where
  "string_view_equal m lhs rhs = bnd (string_view_compare m lhs rhs) (\<lambda>c. Inr (c = 0))"

definition string_view_compare_cstr :: "mem \<Rightarrow> string_view_t \<Rightarrow> ptr \<Rightarrow> int res" where
  "string_view_compare_cstr m lhs p =
     bnd (string_view_from_cstr m p) (\<lambda>rhs. string_view_compare m lhs rhs)"

definition string_view_to_buf ::
  "string_view_t \<Rightarrow> ptr \<Rightarrow> size_t \<Rightarrow> mem \<Rightarrow> (bool \<times> mem) res" where
  "string_view_to_buf sv buf buf_len m =
     (let cpy_len = string_view_len sv in
      if cpy_len > buf_len
      then if buf_len < 1 then Inr (False, m)
           else bnd (memcpy buf (string_view_cstr sv) (buf_len - 1) m) (\<lambda>m.
                bnd (store_bytes m (ptr_add buf (buf_len - 1)) [NUL]) (\<lambda>m.
                Inr (False, m)))
      else bnd (memcpy buf (string_view_cstr sv) cpy_len m) (\<lambda>m.
           bnd (store_bytes m (ptr_add buf cpy_len) [NUL]) (\<lambda>m.
           Inr (True, m))))"

text \<open>
  The hash loop reads byte after byte; a \<^verbatim>\<open>char\<close> is signed on the target and is
  sign-extended to 64 bits before it is added.
\<close>

definition char_to_size :: "char \<Rightarrow> 64 word" where
  "char_to_size c = (let k = (of_char c :: int) in word_of_int (if k < 128 then k else k - 256))"

definition hash_step :: "64 word \<Rightarrow> char \<Rightarrow> 64 word" where
  "hash_step h c = (push_bit 5 h + h) + char_to_size c"

fun hash_loop :: "mem \<Rightarrow> ptr \<Rightarrow> nat \<Rightarrow> nat \<Rightarrow> 64 word \<Rightarrow> 64 word res" where
  "hash_loop m p i 0 h = Inr h"
| "hash_loop m p i (Suc n) h =
     bnd (load_byte m p i) (\<lambda>c. hash_loop m p (Suc i) n (hash_step h c))"

definition string_view_hash :: "mem \<Rightarrow> string_view_t \<Rightarrow> 64 word res" where
  "string_view_hash m sv = hash_loop m (string_view_cstr sv) 0 (string_view_len sv) 5381"

definition string_view_substr ::
  "mem \<Rightarrow> string_view_t \<Rightarrow> size_t \<Rightarrow> size_t \<Rightarrow> string_view_t res" where
  "string_view_substr m sv pos len =
     (let sv_len = string_view_len sv in
      if pos \<ge> sv_len then string_view_from_cstr m (lit '''')
      else let max_len = sz_sub sv_len pos;
               sub_len = (if len < max_len then len else max_len)
           in Inr (string_view_from_parts (ptr_add (string_view_cstr sv) pos) sub_len))"

lemmas sv_defs = string_view_len_def string_view_empty_def string_view_cstr_def

section \<open>Construction\<close>

lemma c_strlen_lit: "NUL \<notin> set s \<Longrightarrow> c_strlen m (lit s) = Inr (length s)"
  by (simp add: c_strlen_def tail_bytes_def cstr_append_NUL)

lemma string_view_from_cstr_lit:
  "NUL \<notin> set s \<Longrightarrow> string_view_from_cstr m (lit s) = Inr \<lparr>sv_data = lit s, sv_len = length s\<rparr>"
  by (simp add: string_view_from_cstr_def string_view_from_parts_def c_strlen_lit)

lemma view_bytes_lit [simp]:
  "view_bytes m \<lparr>sv_data = lit s, sv_len = length s\<rparr> = Inr s"
  by (simp add: view_bytes_def load_bytes_def)

lemma view_bytes_length: "view_bytes m sv = Inr bs \<Longrightarrow> sv_len sv = length bs"
  by (simp add: view_bytes_def load_bytes_length)

lemma view_from_cstr_bytes:
  assumes "block m b = Some bs" and "i \<le> length bs" and "NUL \<in> set (drop i bs)"
  shows "\<exists>sv. string_view_from_cstr m (Ptr b i) = Inr sv \<and> view_bytes m sv = Inr (cstr (drop i bs))"
proof -
  have "length (cstr (drop i bs)) \<le> length (drop i bs)" by (rule length_cstr_le)
  then have le: "i + length (cstr (drop i bs)) \<le> length bs" using assms(2) by simp
  have "take (length (cstr xs)) xs = cstr xs" for xs
    by (induction xs) auto
  with le assms show ?thesis
    by (auto simp: string_view_from_cstr_def c_strlen_def tail_bytes_def string_view_from_parts_def
        view_bytes_def load_bytes_def)
qed

text \<open>A view that reads nothing of an object.\<close>

definition view_off :: "string_view_t \<Rightarrow> base \<Rightarrow> bool" where
  "view_off sv b \<longleftrightarrow> sv_len sv = 0 \<or> (case sv_data sv of NULL \<Rightarrow> True | Ptr b' _ \<Rightarrow> b' \<noteq> b)"

lemma view_off_simps [simp]:
  "view_off \<lparr>sv_data = p, sv_len = 0\<rparr> b"
  "view_off \<lparr>sv_data = NULL, sv_len = n\<rparr> b"
  "view_off \<lparr>sv_data = Ptr (Lit t) i, sv_len = n\<rparr> (Heap k)"
  "view_off \<lparr>sv_data = Ptr (Lit t) i, sv_len = n\<rparr> (Buf k)"
  by (simp_all add: view_off_def)

lemma frame_view:
  assumes "frame B m m'" and "view_bytes m sv = Inr bs" and "\<And>b. b \<in> B \<Longrightarrow> view_off sv b"
  shows "view_bytes m' sv = Inr bs"
  using assms(1,2) unfolding view_bytes_def
proof (rule frame_load)
  fix b i assume "sv_data sv = Ptr b i" "0 < sv_len sv"
  then have "\<not> view_off sv b" by (simp add: view_off_def)
  with assms(3) show "b \<notin> B" by blast
qed

text \<open>A view of live bytes reads nothing of an object that does not exist yet.\<close>

lemma view_off_fresh:
  "view_bytes m sv = Inr bs \<Longrightarrow> blocks m b = None \<Longrightarrow> \<not> is_lit b \<Longrightarrow> view_off sv b"
  by (auto simp: view_off_def view_bytes_def load_bytes_def block_obj split: ptr.splits if_splits)

section \<open>Sub-views\<close>

lemma string_view_substr_eq:
  assumes "sv_len sv < SIZE_MOD" and "sv_data sv \<noteq> NULL"
  shows "string_view_substr m sv pos len =
     Inr (if sv_len sv \<le> pos then \<lparr>sv_data = lit '''', sv_len = 0\<rparr>
          else \<lparr>sv_data = ptr_add (sv_data sv) pos, sv_len = min len (sv_len sv - pos)\<rparr>)"
  using assms
  by (cases "sv_data sv")
    (simp_all add: string_view_substr_def sv_defs string_view_from_cstr_lit Let_def
      string_view_from_parts_def min_def)

lemma string_view_substr_bytes:
  assumes "view_bytes m sv = Inr bs" and "sv_len sv < SIZE_MOD"
  shows "\<exists>v. string_view_substr m sv pos len = Inr v \<and>
             view_bytes m v = Inr (take len (drop pos bs)) \<and> sv_len v \<le> sv_len sv"
proof (cases "sv_len sv \<le> pos")
  case True
  with view_bytes_length [OF assms(1)] show ?thesis
    by (simp add: string_view_substr_def sv_defs string_view_from_cstr_lit view_bytes_def)
next
  case False
  then have pos: "pos < sv_len sv" by simp
  have nn: "sv_data sv \<noteq> NULL"
    using assms(1) pos by (auto simp: view_bytes_def load_bytes_def split: if_splits)
  have "load_bytes m (ptr_add (sv_data sv) pos) (min len (sv_len sv - pos)) =
      Inr (take (min len (sv_len sv - pos)) (drop pos bs))"
    using assms(1) pos unfolding view_bytes_def by (intro load_bytes_sub) auto
  moreover have "take (min len (sv_len sv - pos)) (drop pos bs) = take len (drop pos bs)"
    using view_bytes_length [OF assms(1)] by (simp add: min_def)
  ultimately show ?thesis
    using string_view_substr_eq [OF assms(2) nn] pos by (simp add: view_bytes_def)
qed

section \<open>Comparison\<close>

lemma string_view_compare_zero:
  assumes "view_bytes m l = Inr xs" and "view_bytes m r = Inr ys"
  shows "\<exists>c. string_view_compare m l r = Inr c \<and>
     (c = 0 \<longleftrightarrow> cstr (take (length ys) xs) = cstr (take (length xs) ys) \<and>
       to_int32 (sz_sub (length xs) (length ys)) = 0)"
proof -
  define n where "n = min (length xs) (length ys)"
  note len = view_bytes_length [OF assms(1)] view_bytes_length [OF assms(2)]
  have nn: "(if length xs < length ys then length xs else length ys) = n" by (simp add: n_def)
  have t: "take (length ys) xs = take n xs" "take (length xs) ys = take n ys"
    by (simp_all add: n_def min_def)
  obtain c where c: "(if 0 < n then c_strncmp m (sv_data l) (sv_data r) n else Inr 0) = Inr c"
      "c = 0 \<longleftrightarrow> cstr (take n xs) = cstr (take n ys)"
  proof (cases "0 < n")
    case True
    then have "0 < sv_len l" "0 < sv_len r" by (auto simp: n_def len)
    with assms obtain us vs where "tail_bytes m (sv_data l) = Inr (xs @ us)"
        "tail_bytes m (sv_data r) = Inr (ys @ vs)"
      unfolding view_bytes_def by (metis tail_bytes_load)
    moreover have "n \<le> length xs" "n \<le> length ys" by (simp_all add: n_def)
    ultimately show ?thesis
      using that True strncmp_bytes_zero [of n xs ys]
      by (auto simp: c_strncmp_def strncmp_bytes_append)
  qed (use that in auto)
  show ?thesis
    using c by (auto simp: string_view_compare_def sv_defs Let_def len nn t)
qed

text \<open>Views of fewer than $2^{31}$ bytes: equal length, and the same bytes up to a NUL.\<close>

lemma string_view_compare_zero_iff:
  assumes "view_bytes m l = Inr xs" and "view_bytes m r = Inr ys"
    and "length xs < 2147483648" and "length ys < 2147483648"
  shows "\<exists>c. string_view_compare m l r = Inr c \<and>
     (c = 0 \<longleftrightarrow> length xs = length ys \<and> cstr xs = cstr ys)"
proof -
  have z: "to_int32 (sz_sub (length xs) (length ys)) = 0 \<longleftrightarrow> length xs = length ys"
    using assms(3,4) by (rule to_int32_sub_eq_0_iff)
  from string_view_compare_zero [OF assms(1,2)] show ?thesis
    unfolding z by auto
qed

lemma string_view_compare_lit:
  assumes "view_bytes m l = Inr xs" and "NUL \<notin> set s"
    and "length xs < 2147483648" and "length s < 2147483648"
  shows "\<exists>c. string_view_compare_cstr m l (lit s) = Inr c \<and> (c = 0 \<longleftrightarrow> xs = s)"
proof -
  have eq: "length xs = length s \<and> cstr xs = cstr s \<longleftrightarrow> xs = s"
  proof
    assume a: "length xs = length s \<and> cstr xs = cstr s"
    have "length (cstr xs) = length xs \<Longrightarrow> cstr xs = xs"
      by (metis cstr_def takeWhile_eq_take take_all order_refl)
    with a assms(2) show "xs = s" by (simp add: cstr_id)
  qed simp
  show ?thesis
    using string_view_compare_zero_iff [OF assms(1) view_bytes_lit assms(3,4)] assms(2) eq
    by (simp add: string_view_compare_cstr_def string_view_from_cstr_lit)
qed

section \<open>Hashing\<close>

lemma hash_loop_bytes:
  assumes "load_bytes m p len = Inr bs" and "i + n \<le> len"
  shows "hash_loop m p i n h = Inr (foldl hash_step h (take n (drop i bs)))"
  using assms(2)
proof (induction n arbitrary: i h)
  case (Suc n)
  have "length bs = len" using assms(1) by (rule load_bytes_length)
  with Suc.prems have "take (Suc n) (drop i bs) = bs ! i # take n (drop (Suc i) bs)"
    by (simp add: Cons_nth_drop_Suc [symmetric])
  with Suc.prems Suc.IH [of "Suc i"] load_byte_nth [OF assms(1), of i] show ?case by simp
qed simp

lemma string_view_hash_bytes:
  "view_bytes m sv = Inr bs \<Longrightarrow> string_view_hash m sv = Inr (foldl hash_step 5381 bs)"
  using hash_loop_bytes [of m "sv_data sv" "sv_len sv" bs 0 "sv_len sv" 5381]
  by (simp add: string_view_hash_def sv_defs view_bytes_def load_bytes_length)

end
