(* ===== verification/StringT.thy ===== *)
theory StringT
  imports StringView
begin

text \<open>
  The owning string \<^verbatim>\<open>string_t\<close> of \<^verbatim>\<open>util/string_t.c\<close>: a small buffer of 16
  bytes inside the struct, replaced by a block of the allocator when the text outgrows it.
  This theory holds the operations, each translated with its guards, assertions and early
  returns; \<open>StringTSpec\<close> proves what they do.

  A struct is passed in and returned by value next to the memory; its embedded buffer is an
  object of the memory, named by the field \<open>str_buf\<close>, so that a view into the small buffer
  is a pointer like any other. The functions take the address of a struct only, which is
  never null, and do not set \<^verbatim>\<open>errno\<close> in the model.
\<close>

unbundle bit_operations_syntax

abbreviation STR_SMALL_BUF_SIZE :: nat where
  "STR_SMALL_BUF_SIZE \<equiv> 16"

record string_t =
  str_buf :: nat      \<comment> \<open>the object \<^verbatim>\<open>small_buf\<close>\<close>
  str_data :: ptr
  str_size :: size_t  \<comment> \<open>length with the terminating NUL, or 0\<close>
  str_cap :: size_t   \<comment> \<open>capacity, 0 while the small buffer is used\<close>

abbreviation small_buf :: "string_t \<Rightarrow> ptr" where
  "small_buf s \<equiv> Ptr (Buf (str_buf s)) 0"

section \<open>Helpers\<close>

text \<open>\<^verbatim>\<open>__builtin_clzl\<close>: leading zeros of a nonzero 64-bit number.\<close>

fun bit_len :: "nat \<Rightarrow> nat" where
  "bit_len n = (if n = 0 then 0 else Suc (bit_len (n div 2)))"

declare bit_len.simps [simp del]

definition builtin_clzl :: "size_t \<Rightarrow> nat" where
  "builtin_clzl n = 64 - bit_len n"

text \<open>
  The literal \<^verbatim>\<open>1\<close> that is shifted is an \<^verbatim>\<open>int\<close> of 32 bits: a shift by 31 or
  more has no defined result.
\<close>

definition next_capacity :: "size_t \<Rightarrow> size_t res" where
  "next_capacity n =
     (if n = 0 then Inr 1
      else if n AND (n - 1) = 0 then Inr n
      else let bits = 8 * 8; k = bits - builtin_clzl n
           in if k < 31 then Inr (push_bit k 1) else Inl Shift_overflow)"

definition use_sbuf :: "mem \<Rightarrow> string_t \<Rightarrow> bool res" where
  "use_sbuf m s =
     (if str_data s = small_buf s
      then bnd (c_assert (ndebug m) (str_cap s = 0)) (\<lambda>_. Inr True)
      else Inr False)"

definition cpy_smbuf2data :: "string_t \<Rightarrow> size_t \<Rightarrow> mem \<Rightarrow> (bool \<times> string_t \<times> mem) res" where
  "cpy_smbuf2data s new_cap m =
     bnd (c_assert (ndebug m) (str_cap s = 0)) (\<lambda>_.
     bnd (c_assert (ndebug m) (str_data s = small_buf s)) (\<lambda>_.
     bnd (c_assert (ndebug m) (new_cap \<noteq> 0)) (\<lambda>_.
     (case malloc new_cap m of (p, m) \<Rightarrow>
        if p = NULL then Inr (False, s\<lparr>str_data := small_buf s\<rparr>, m)
        else bnd (memcpy p (small_buf s) (str_size s) m) (\<lambda>m.
             Inr (True, s\<lparr>str_data := p, str_cap := new_cap\<rparr>, m))))))"

definition cpy_sv2str ::
  "string_t \<Rightarrow> string_view_t \<Rightarrow> int \<Rightarrow> mem \<Rightarrow> (string_t \<times> mem) res" where
  "cpy_sv2str dest src offset m =
     (if offset < 0 then Inl Out_of_bounds
      else let off = nat offset; endp = sz_add off (sv_len src) in
        bnd (memcpy (ptr_add (str_data dest) off) (sv_data src) (sv_len src) m) (\<lambda>m.
        bnd (store_bytes m (ptr_add (str_data dest) endp) [NUL]) (\<lambda>m.
        Inr (dest\<lparr>str_size := sz_add endp 1\<rparr>, m))))"

section \<open>Observers\<close>

definition string_cstr :: "string_t \<Rightarrow> ptr" where
  "string_cstr s = str_data s"

definition string_len :: "string_t \<Rightarrow> size_t" where
  "string_len s = (if str_size s = 0 then 0 else str_size s - 1)"

definition string_empty :: "string_t \<Rightarrow> bool" where
  "string_empty s \<longleftrightarrow> string_len s = 0"

definition string_view_from_string :: "string_t \<Rightarrow> string_view_t" where
  "string_view_from_string s =
     (let len = (if str_size s \<noteq> 0 then str_size s - 1 else 0)
      in string_view_from_parts (str_data s) len)"

definition string_subview :: "mem \<Rightarrow> string_t \<Rightarrow> size_t \<Rightarrow> size_t \<Rightarrow> string_view_t res" where
  "string_subview m s pos len = string_view_substr m (string_view_from_string s) pos len"

definition string_compare :: "mem \<Rightarrow> string_t \<Rightarrow> string_t \<Rightarrow> int res" where
  "string_compare m lhs rhs =
     string_view_compare m (string_view_from_string lhs) (string_view_from_string rhs)"

definition string_compare_cstr :: "mem \<Rightarrow> string_t \<Rightarrow> ptr \<Rightarrow> int res" where
  "string_compare_cstr m lhs p =
     bnd (string_view_from_cstr m p) (\<lambda>rhs. string_view_compare m (string_view_from_string lhs) rhs)"

section \<open>Initialisation and release\<close>

definition string_init :: "string_t \<Rightarrow> mem \<Rightarrow> (string_t \<times> mem) res" where
  "string_init s m =
     bnd (memset (small_buf s) NUL STR_SMALL_BUF_SIZE m) (\<lambda>m.
     Inr (s\<lparr>str_data := small_buf s, str_size := 0, str_cap := 0\<rparr>, m))"

definition string_init_from_string_view ::
  "string_t \<Rightarrow> string_view_t \<Rightarrow> mem \<Rightarrow> (bool \<times> string_t \<times> mem) res" where
  "string_init_from_string_view s sv m =
     bnd (string_init s m) (\<lambda>(s, m).
     if string_view_cstr sv = NULL
     then bnd (c_assert (ndebug m) (string_view_len sv = 0)) (\<lambda>_. Inr (True, s, m))
     else if string_view_len sv < STR_SMALL_BUF_SIZE
     then bnd (cpy_sv2str (s\<lparr>str_data := small_buf s\<rparr>) sv 0 m) (\<lambda>(s, m). Inr (True, s, m))
     else bnd (next_capacity (sz_add (string_view_len sv) 1)) (\<lambda>new_capacity.
          (case malloc new_capacity m of (p, m) \<Rightarrow>
             if p = NULL then Inr (False, s\<lparr>str_data := NULL\<rparr>, m)
             else bnd (cpy_sv2str (s\<lparr>str_data := p\<rparr>) sv 0 m) (\<lambda>(s, m).
                  Inr (True, s\<lparr>str_cap := new_capacity\<rparr>, m)))))"

definition string_init_from_cstr ::
  "string_t \<Rightarrow> ptr \<Rightarrow> mem \<Rightarrow> (bool \<times> string_t \<times> mem) res" where
  "string_init_from_cstr s p m =
     bnd (string_view_from_cstr m p) (\<lambda>sv. string_init_from_string_view s sv m)"

definition string_init_from_parts ::
  "string_t \<Rightarrow> ptr \<Rightarrow> size_t \<Rightarrow> mem \<Rightarrow> (bool \<times> string_t \<times> mem) res" where
  "string_init_from_parts s p len m =
     (if p = NULL \<and> len \<noteq> 0 then Inr (False, s, m)
      else string_init_from_string_view s (string_view_from_parts p len) m)"

definition string_destroy :: "string_t \<Rightarrow> mem \<Rightarrow> mem res" where
  "string_destroy s m =
     (if str_data s = small_buf s
      then bnd (c_assert (ndebug m) (str_cap s = 0)) (\<lambda>_. Inr m)
      else mfree (str_data s) m)"

definition string_take_ownership :: "string_t \<Rightarrow> ptr \<Rightarrow> size_t \<Rightarrow> string_t" where
  "string_take_ownership s p len =
     (let size = sz_add len 1 in s\<lparr>str_data := p, str_size := size, str_cap := size\<rparr>)"

definition string_clear :: "string_t \<Rightarrow> mem \<Rightarrow> (string_t \<times> mem) res" where
  "string_clear s m =
     (let s = s\<lparr>str_size := 0\<rparr> in
      bnd (use_sbuf m s) (\<lambda>small.
      if small then Inr (s, m)
      else bnd (mfree (str_data s) m) (\<lambda>m.
           Inr (s\<lparr>str_cap := 0, str_data := small_buf s\<rparr>, m))))"

section \<open>Growing and shrinking\<close>

definition string_reserve :: "string_t \<Rightarrow> size_t \<Rightarrow> mem \<Rightarrow> (bool \<times> string_t \<times> mem) res" where
  "string_reserve s capacity m =
     bnd (c_assert (ndebug m) (str_data s \<noteq> NULL)) (\<lambda>_.
     if capacity \<le> str_size s then Inr (False, s, m)
     else if str_cap s \<ge> capacity then Inr (True, s, m)
     else bnd (next_capacity capacity) (\<lambda>capacity.
          bnd (use_sbuf m s) (\<lambda>small.
          if small then cpy_smbuf2data s capacity m
          else bnd (realloc (str_data s) capacity m) (\<lambda>(p, m).
               if p = NULL then Inr (False, s, m)
               else Inr (True, s\<lparr>str_data := p, str_cap := capacity\<rparr>, m)))))"

text \<open>The zero fill of \<^verbatim>\<open>string_resize\<close>: from the old size up to the new terminator.\<close>

definition resize_fill :: "string_t \<Rightarrow> size_t \<Rightarrow> mem \<Rightarrow> mem res" where
  "resize_fill s new_len m =
     memset (ptr_add (str_data s) (str_size s)) NUL (sz_add (sz_sub new_len (str_size s)) 1) m"

definition string_resize :: "string_t \<Rightarrow> size_t \<Rightarrow> mem \<Rightarrow> (bool \<times> string_t \<times> mem) res" where
  "string_resize s new_len m =
     bnd (c_assert (ndebug m) (str_data s \<noteq> NULL)) (\<lambda>_.
     if new_len = 0
     then bnd (string_clear s m) (\<lambda>(s, m). Inr (True, s, m))
     else if new_len < str_size s
     then bnd (store_bytes m (ptr_add (str_data s) new_len) [NUL]) (\<lambda>m.
          Inr (True, s\<lparr>str_size := sz_add new_len 1\<rparr>, m))
     else if new_len < str_cap s
     then bnd (resize_fill s new_len m) (\<lambda>m.
          bnd (store_bytes m (ptr_add (str_data s) new_len) [NUL]) (\<lambda>m.
          Inr (True, s\<lparr>str_size := sz_add new_len 1\<rparr>, m)))
     else bnd (use_sbuf m s) (\<lambda>small.
       if small
       then bnd (c_assert (ndebug m) (str_data s = small_buf s)) (\<lambda>_.
            if new_len < STR_SMALL_BUF_SIZE
            then bnd (resize_fill s new_len m) (\<lambda>m.
                 bnd (store_bytes m (ptr_add (str_data s) new_len) [NUL]) (\<lambda>m.
                 Inr (True, s\<lparr>str_size := sz_add new_len 1\<rparr>, m)))
            else bnd (next_capacity (sz_add new_len 1)) (\<lambda>capacity.
                 bnd (cpy_smbuf2data s capacity m) (\<lambda>(ok, s, m).
                 if \<not> ok then Inr (False, s, m)
                 else bnd (resize_fill s new_len m) (\<lambda>m.
                      bnd (store_bytes m (ptr_add (str_data s) new_len) [NUL]) (\<lambda>m.
                      Inr (True, s\<lparr>str_size := sz_add new_len 1, str_cap := capacity\<rparr>, m))))))
       else bnd (next_capacity (sz_add new_len 1)) (\<lambda>capacity.
            bnd (realloc (str_data s) capacity m) (\<lambda>(p, m).
            if p = NULL then Inr (False, s, m)
            else let s = s\<lparr>str_data := p\<rparr> in
                 bnd (resize_fill s new_len m) (\<lambda>m.
                 Inr (True, s\<lparr>str_size := sz_add new_len 1, str_cap := capacity\<rparr>, m))))))"

section \<open>Assignment\<close>

definition string_assign_view ::
  "string_t \<Rightarrow> string_view_t \<Rightarrow> mem \<Rightarrow> (bool \<times> string_t \<times> mem) res" where
  "string_assign_view s sv m =
     bnd (c_assert (ndebug m) (str_data s \<noteq> NULL)) (\<lambda>_.
     bnd (next_capacity (sz_add (string_view_len sv) 1)) (\<lambda>new_capacity.
     if sv_data sv = NULL
     then bnd (c_assert (ndebug m) (sv_len sv = 0)) (\<lambda>_.
          bnd (string_clear s m) (\<lambda>(s, m). Inr (True, s, m)))
     else bnd (use_sbuf m s) (\<lambda>small.
       if small
       then if string_view_len sv < STR_SMALL_BUF_SIZE
            then bnd (cpy_sv2str s sv 0 m) (\<lambda>(s, m). Inr (True, s, m))
            else (case malloc new_capacity m of (p, m) \<Rightarrow>
                    if p = NULL then Inr (False, s, m)
                    else bnd (cpy_sv2str (s\<lparr>str_data := p\<rparr>) sv 0 m) (\<lambda>(s, m).
                         bnd (memset (small_buf s) NUL STR_SMALL_BUF_SIZE m) (\<lambda>m.
                         Inr (True, s\<lparr>str_cap := new_capacity\<rparr>, m))))
       else if string_view_len sv < str_cap s
       then bnd (cpy_sv2str s sv 0 m) (\<lambda>(s, m). Inr (True, s, m))
       else bnd (realloc (str_data s) new_capacity m) (\<lambda>(p, m).
            if p = NULL then Inr (False, s, m)
            else bnd (store_bytes m (ptr_add p (string_view_len sv)) [NUL]) (\<lambda>m.
                 Inr (True, s\<lparr>str_data := p, str_size := sz_add (string_view_len sv) 1,
                             str_cap := new_capacity\<rparr>, m))))))"

definition string_assign :: "string_t \<Rightarrow> ptr \<Rightarrow> mem \<Rightarrow> (bool \<times> string_t \<times> mem) res" where
  "string_assign s p m =
     bnd (string_view_from_cstr m p) (\<lambda>sv. string_assign_view s sv m)"

section \<open>Appending\<close>

definition string_append_view ::
  "string_t \<Rightarrow> string_view_t \<Rightarrow> mem \<Rightarrow> (bool \<times> string_t \<times> mem) res" where
  "string_append_view s sv m =
     (let old_len = string_len s;
          new_size = sz_add (sz_add (string_view_len sv) old_len) 1 in
      bnd (next_capacity new_size) (\<lambda>new_capacity.
      bnd (use_sbuf m s) (\<lambda>small.
      if small
      then bnd (cpy_smbuf2data s new_capacity m) (\<lambda>(ok, s, m).
           if \<not> ok then Inr (False, s, m)
           else bnd (cpy_sv2str s sv (to_int32 old_len) m) (\<lambda>(s, m).
                Inr (True, s\<lparr>str_cap := new_capacity\<rparr>, m)))
      else bnd (realloc (str_data s) new_capacity m) (\<lambda>(p, m).
           if p = NULL then Inr (False, s, m)
           else bnd (cpy_sv2str (s\<lparr>str_data := p\<rparr>) sv (to_int32 old_len) m) (\<lambda>(s, m).
                Inr (True, s\<lparr>str_cap := new_capacity\<rparr>, m))))))"

definition string_append_cstr :: "string_t \<Rightarrow> ptr \<Rightarrow> mem \<Rightarrow> (bool \<times> string_t \<times> mem) res" where
  "string_append_cstr s p m =
     (if p = NULL then Inr (False, s, m)
      else bnd (string_view_from_cstr m p) (\<lambda>sv. string_append_view s sv m))"

definition string_append :: "string_t \<Rightarrow> ptr \<Rightarrow> mem \<Rightarrow> (bool \<times> string_t \<times> mem) res" where
  "string_append s p m =
     bnd (string_view_from_cstr m p) (\<lambda>sv. string_append_view s sv m)"

definition string_append_string ::
  "string_t \<Rightarrow> string_t \<Rightarrow> mem \<Rightarrow> (bool \<times> string_t \<times> mem) res" where
  "string_append_string s append_s m = string_append_view s (string_view_from_string append_s) m"

definition string_append_parts ::
  "string_t \<Rightarrow> ptr \<Rightarrow> size_t \<Rightarrow> mem \<Rightarrow> (bool \<times> string_t \<times> mem) res" where
  "string_append_parts s p len m =
     (if p = NULL \<and> len > 0 then Inr (False, s, m)
      else string_append_view s (string_view_from_parts p len) m)"

text \<open>
  \<^verbatim>\<open>string_push_back\<close> takes the address of its parameter \<^verbatim>\<open>ch\<close>, an object of one
  byte that ends with the call, and reports success whatever the append did.
\<close>

definition string_push_back :: "string_t \<Rightarrow> char \<Rightarrow> mem \<Rightarrow> (bool \<times> string_t \<times> mem) res" where
  "string_push_back s ch m =
     (case new_buf 1 m of (b, m) \<Rightarrow>
        bnd (store_bytes m (Ptr (Buf b) 0) [ch]) (\<lambda>m.
        bnd (string_append_view s (string_view_from_parts (Ptr (Buf b) 0) 1) m) (\<lambda>(_, s, m).
        Inr (True, s, drop_buf b m))))"

definition string_substr ::
  "string_t \<Rightarrow> string_t \<Rightarrow> size_t \<Rightarrow> size_t \<Rightarrow> mem \<Rightarrow> (bool \<times> string_t \<times> mem) res" where
  "string_substr str substr pos len m =
     bnd (string_subview m str pos len) (\<lambda>sv.
     bnd (string_clear substr m) (\<lambda>(substr, m).
     string_init_from_string_view substr sv m))"

section \<open>Numbers\<close>

text \<open>The decimal form of a number, what \<^verbatim>\<open>printf\<close> writes for \<^verbatim>\<open>%d\<close> and
  \<^verbatim>\<open>%zu\<close>.\<close>

definition digit_char :: "nat \<Rightarrow> char" where
  "digit_char k = char_of (48 + k)"

fun dec_nat :: "nat \<Rightarrow> string" where
  "dec_nat n = (if n < 10 then [digit_char n] else dec_nat (n div 10) @ [digit_char (n mod 10)])"

declare dec_nat.simps [simp del]

definition dec_int :: "int \<Rightarrow> string" where
  "dec_int d = (if d < 0 then CHR ''-'' # dec_nat (nat (- d)) else dec_nat (nat d))"

text \<open>The loop that counts the digits.\<close>

fun digits_loop :: "nat \<Rightarrow> size_t \<Rightarrow> size_t" where
  "digits_loop num buf_len =
     (if num > 0 then digits_loop (num div 10) (Suc buf_len) else buf_len)"

declare digits_loop.simps [simp del]

definition INT_MIN :: int where
  "INT_MIN = - 2147483648"

text \<open>\<^verbatim>\<open>snprintf(buf, n, ...)\<close>: at most \<open>n - 1\<close> bytes of the text and a NUL.\<close>

definition c_snprintf :: "ptr \<Rightarrow> size_t \<Rightarrow> string \<Rightarrow> mem \<Rightarrow> mem res" where
  "c_snprintf p n text m = (if n = 0 then Inr m else store_bytes m p (take (n - 1) text @ [NUL]))"

definition int_to_string_t :: "string_t \<Rightarrow> int \<Rightarrow> mem \<Rightarrow> (bool \<times> string_t \<times> mem) res" where
  "int_to_string_t s d m =
     (if d = 0 then string_init_from_cstr s (lit ''0'') m
      else if d = INT_MIN then Inl Signed_overflow
      else
        let num = nat (if d < 0 then - d else d);
            buf_len = digits_loop num 1;
            buf_len = (if d < 0 then buf_len + 1 else buf_len)
        in (case new_buf buf_len m of (b, m) \<Rightarrow>
              bnd (c_snprintf (Ptr (Buf b) 0) buf_len (dec_int d) m) (\<lambda>m.
              bnd (string_init_from_cstr s (Ptr (Buf b) 0) m) (\<lambda>(ok, s, m).
              Inr (ok, s, drop_buf b m)))))"

end
