(* ===== verification/StringTSpec.thy ===== *)
theory StringTSpec
  imports StringT
begin

text \<open>
  What the operations of \<^verbatim>\<open>string_t\<close> do: the representation relation between a struct
  and the text it holds, and one correctness lemma per operation and storage class, each with
  the objects it may touch (\<open>frame\<close>).
\<close>

section \<open>The capacity computation\<close>

lemma bit_len_bounds: "0 < n \<Longrightarrow> 2 ^ (bit_len n - 1) \<le> n \<and> n < 2 ^ bit_len n \<and> 0 < bit_len n"
proof (induction n rule: bit_len.induct)
  case (1 n)
  show ?case
  proof (cases "n = 1")
    case True
    then show ?thesis by (simp add: bit_len.simps)
  next
    case False
    with 1 have IH: "2 ^ (bit_len (n div 2) - 1) \<le> n div 2" "n div 2 < 2 ^ bit_len (n div 2)"
        "0 < bit_len (n div 2)" by auto
    from "1.prems" have b: "bit_len n = Suc (bit_len (n div 2))" by (subst bit_len.simps) simp
    from IH(3) obtain j where j: "bit_len (n div 2) = Suc j" by (cases "bit_len (n div 2)") auto
    have "2 ^ j \<le> n div 2" "n div 2 < 2 * 2 ^ j" using IH j by simp_all
    then show ?thesis by (simp add: b j) linarith
  qed
qed

lemma bit_len_le: "0 < n \<Longrightarrow> n < 2 ^ k \<Longrightarrow> bit_len n \<le> k"
proof -
  assume a: "0 < n" "n < 2 ^ k"
  then have "(2::nat) ^ (bit_len n - 1) < 2 ^ k" using bit_len_bounds [of n] by linarith
  then have "bit_len n - 1 < k" by simp
  then show ?thesis by simp
qed

lemma bit_len_ge: "2 ^ k \<le> n \<Longrightarrow> k < bit_len n"
proof -
  assume a: "2 ^ k \<le> n"
  then have "0 < n" by (meson less_le_trans zero_less_numeral zero_less_power)
  with a bit_len_bounds [of n] have "(2::nat) ^ k < 2 ^ bit_len n" by linarith
  then show ?thesis by simp
qed

text \<open>The bit trick \<^verbatim>\<open>n & (n - 1)\<close> recognises the powers of two.\<close>

lemma and_pred_eq_0_iff: "0 < n \<Longrightarrow> n AND (n - 1) = 0 \<longleftrightarrow> (\<exists>k. n = 2 ^ k)" for n :: nat
proof (induction n rule: less_induct)
  case (less n)
  show ?case
  proof (cases "even n")
    case False
    then obtain q where q: "n = 2 * q + 1" by (blast elim: oddE)
    have "n AND (n - 1) = 2 * q"
      by (subst and_nat_unfold) (simp add: q)
    moreover have "(\<exists>k. n = 2 ^ k) \<longleftrightarrow> q = 0"
    proof
      assume "\<exists>k. n = 2 ^ k"
      then obtain k where k: "n = 2 ^ k" ..
      with False have "k = 0" by (cases k) auto
      with k q show "q = 0" by simp
    next
      assume "q = 0"
      then show "\<exists>k. n = 2 ^ k" by (auto simp: q intro: exI [of _ 0])
    qed
    ultimately show ?thesis by simp
  next
    case True
    then obtain q where q: "n = 2 * q" ..
    with less.prems have "0 < q" "q < n" by simp_all
    then have "(n - 1) mod 2 = 1" "(n - 1) div 2 = q - 1" by (simp_all add: q) presburger+
    then have "n AND (n - 1) = 2 * (q AND (q - 1))"
      using \<open>0 < q\<close> by (subst and_nat_unfold) (simp add: q)
    moreover have "(\<exists>k. n = 2 ^ k) \<longleftrightarrow> (\<exists>k. q = 2 ^ k)"
    proof
      assume "\<exists>k. n = 2 ^ k"
      then obtain k where k: "n = 2 ^ k" ..
      with \<open>0 < q\<close> show "\<exists>k. q = 2 ^ k" by (cases k) (auto simp: q)
    next
      assume "\<exists>k. q = 2 ^ k"
      then obtain k where "q = 2 ^ k" ..
      then have "n = 2 ^ Suc k" by (simp add: q)
      then show "\<exists>k. n = 2 ^ k" ..
    qed
    ultimately show ?thesis using less.IH [OF \<open>q < n\<close> \<open>0 < q\<close>] by simp
  qed
qed

lemma clzl_bits: "bit_len n \<le> 64 \<Longrightarrow> 64 - builtin_clzl n = bit_len n"
  by (simp add: builtin_clzl_def)

lemma next_capacity_least:
  assumes "0 < n" and "n \<le> MAX_LEN"
  obtains k where "next_capacity n = Inr (2 ^ k)" and "n \<le> 2 ^ k" and "2 ^ k < 2 * n"
proof (cases "n AND (n - 1) = 0")
  case True
  with and_pred_eq_0_iff [OF assms(1)] obtain k where "n = 2 ^ k" by blast
  with True assms(1) show ?thesis by (intro that [of k]) (simp_all add: next_capacity_def)
next
  case False
  then have nex: "\<nexists>k. n = 2 ^ k" by (simp only: and_pred_eq_0_iff [OF assms(1)] simp_thms)
  then have "n \<noteq> 2 ^ 30" by metis
  with assms(2) have "n < 2 ^ 30" by simp
  with assms(1) have le: "bit_len n \<le> 30" by (rule bit_len_le)
  note b = bit_len_bounds [OF assms(1)]
  have "(2::nat) ^ bit_len n = 2 * 2 ^ (bit_len n - 1)" using b by (cases "bit_len n") auto
  moreover have "n \<noteq> 2 ^ (bit_len n - 1)" using nex by metis
  ultimately have "2 ^ bit_len n < 2 * n" using b by linarith
  with False b le assms(1) show ?thesis
    by (intro that [of "bit_len n"]) (simp_all add: next_capacity_def clzl_bits)
qed

lemma next_capacity_ok:
  assumes "0 < n" and "n \<le> MAX_LEN"
  obtains c where "next_capacity n = Inr c" and "n \<le> c" and "c < 2 * n" and "0 < c"
  using next_capacity_least [OF assms] assms(1) by (metis gr0I zero_less_numeral zero_less_power)

lemma next_capacity_Suc:
  "n < MAX_LEN \<Longrightarrow> \<exists>c. next_capacity (Suc n) = Inr c \<and> Suc n \<le> c \<and> c < 2 * Suc n"
  by (rule next_capacity_ok [of "Suc n"]) auto

lemma next_capacity_overflows:
  assumes "MAX_LEN < n" and "n < SIZE_MOD" and "\<nexists>k. n = 2 ^ k"
  shows "next_capacity n = Inl Shift_overflow"
proof -
  have "2 ^ 30 \<le> n" "n < 2 ^ 64" using assms(1,2) by simp_all
  then have "30 < bit_len n" "bit_len n \<le> 64"
    by (auto intro: bit_len_ge bit_len_le)
  with assms(1,3) show ?thesis
    using and_pred_eq_0_iff [of n] by (simp add: next_capacity_def clzl_bits)
qed

section \<open>Representation\<close>

text \<open>
  \<open>str_rep m s cs\<close>: in memory \<open>m\<close> the struct \<open>s\<close> is in order and holds the text
  \<open>cs\<close>. A struct filled with zero bytes, as \<^verbatim>\<open>calloc\<close> leaves it, counts as an
  empty string: \<^verbatim>\<open>http_parse_ctx_new\<close> relies on that.
\<close>

definition terminated :: "nat \<Rightarrow> char list \<Rightarrow> bool" where
  "terminated n bs \<longleftrightarrow> (0 < n \<longrightarrow> bs ! (n - 1) = NUL)"

definition has_sbuf :: "mem \<Rightarrow> nat \<Rightarrow> bool" where
  "has_sbuf m b \<longleftrightarrow> (case blocks m (Buf b) of None \<Rightarrow> False | Some sb \<Rightarrow> length sb = STR_SMALL_BUF_SIZE)"

inductive str_rep :: "mem \<Rightarrow> string_t \<Rightarrow> char list \<Rightarrow> bool" for m where
  zeroed: "has_sbuf m b \<Longrightarrow>
     str_rep m \<lparr>str_buf = b, str_data = NULL, str_size = 0, str_cap = 0\<rparr> []"
| small: "blocks m (Buf b) = Some bs \<Longrightarrow> length bs = STR_SMALL_BUF_SIZE \<Longrightarrow>
     n \<le> STR_SMALL_BUF_SIZE \<Longrightarrow> terminated n bs \<Longrightarrow>
     str_rep m \<lparr>str_buf = b, str_data = Ptr (Buf b) 0, str_size = n, str_cap = 0\<rparr> (take (n - Suc 0) bs)"
| heap: "has_sbuf m b \<Longrightarrow> blocks m (Heap k) = Some bs \<Longrightarrow> 0 < cap \<Longrightarrow> cap \<le> length bs \<Longrightarrow>
     n \<le> cap \<Longrightarrow> terminated n bs \<Longrightarrow>
     str_rep m \<lparr>str_buf = b, str_data = Ptr (Heap k) 0, str_size = n, str_cap = cap\<rparr> (take (n - Suc 0) bs)"

text \<open>The objects a string owns.\<close>

definition footprint :: "string_t \<Rightarrow> base set" where
  "footprint s =
     {Buf (str_buf s)} \<union> (case str_data s of NULL \<Rightarrow> {} | Ptr b _ \<Rightarrow> {b})"

definition view_apart :: "string_view_t \<Rightarrow> string_t \<Rightarrow> bool" where
  "view_apart sv s \<longleftrightarrow> (\<forall>b \<in> footprint s. view_off sv b)"

lemma footprint_simps [simp]:
  "footprint \<lparr>str_buf = b, str_data = NULL, str_size = n, str_cap = c\<rparr> = {Buf b}"
  "footprint \<lparr>str_buf = b, str_data = Ptr x i, str_size = n, str_cap = c\<rparr> = {Buf b, x}"
  by (auto simp: footprint_def)

lemma view_apart_lit [simp]: "str_rep m s cs \<Longrightarrow> view_apart \<lparr>sv_data = lit t, sv_len = n\<rparr> s"
  by (auto simp: view_apart_def elim!: str_rep.cases)

lemma str_rep_sbuf: "str_rep m s cs \<Longrightarrow> has_sbuf m (str_buf s)"
  by (auto simp: has_sbuf_def elim!: str_rep.cases)

text \<open>The text and the size field.\<close>

lemma str_rep_len:
  assumes "str_rep m s cs"
  shows "string_len s = length cs" and "str_size s = 0 \<or> str_size s = Suc (length cs)"
  using assms by (auto simp: string_len_def elim!: str_rep.cases)

lemma string_empty_iff: "str_rep m s cs \<Longrightarrow> string_empty s \<longleftrightarrow> cs = []"
  by (simp add: string_empty_def str_rep_len)

text \<open>The view of a string shows its text.\<close>

lemma view_from_string:
  assumes "str_rep m s cs"
  shows "view_bytes m (string_view_from_string s) = Inr cs"
    and "sv_len (string_view_from_string s) = length cs"
  using assms
  by (auto simp: string_view_from_string_def string_view_from_parts_def view_bytes_def
      load_bytes_def Let_def elim!: str_rep.cases)

text \<open>A non-empty size means that \<^verbatim>\<open>string_cstr\<close> is a proper C string.\<close>

lemma string_cstr_terminated:
  assumes "str_rep m s cs" and "str_size s \<noteq> 0"
  shows "load_byte m (string_cstr s) (length cs) = Inr NUL"
  using assms
  by (auto simp: string_cstr_def load_byte_def terminated_def elim!: str_rep.cases)

text \<open>Changes elsewhere do not disturb a string.\<close>

lemma has_sbuf_frame: "has_sbuf m b \<Longrightarrow> frame B m m' \<Longrightarrow> Buf b \<notin> B \<Longrightarrow> has_sbuf m' b"
  by (auto simp: has_sbuf_def dest: frame_blocks split: option.splits)

lemma str_rep_frame:
  assumes "str_rep m s cs" and "frame B m m'" and "B \<inter> footprint s = {}"
  shows "str_rep m' s cs"
  using assms(1)
proof cases
  case (zeroed b)
  with assms(2,3) show ?thesis by (auto intro!: str_rep.zeroed intro: has_sbuf_frame)
next
  case (small b bs n)
  with assms(2,3) have "blocks m' (Buf b) = Some bs" by (auto intro: frame_blocks)
  with small show ?thesis by (simp add: str_rep.small)
next
  case (heap b k bs cap n)
  with assms(2,3) have "blocks m' (Heap k) = Some bs" "has_sbuf m' b"
    by (auto intro: frame_blocks has_sbuf_frame)
  with heap show ?thesis by (simp add: str_rep.heap)
qed

lemma str_rep_footprint_used: "str_rep m s cs \<Longrightarrow> b \<in> footprint s \<Longrightarrow> blocks m b \<noteq> None"
  by (auto simp: has_sbuf_def split: option.splits elim!: str_rep.cases)

section \<open>Copying a view into a string\<close>

lemma memcpy_view:
  assumes "view_bytes m sv = Inr bs" and "blocks m b = Some old" and "\<not> is_lit b"
    and "i + length bs \<le> length old" and "view_off sv b"
  shows "memcpy (Ptr b i) (sv_data sv) (sv_len sv) m =
    Inr (m\<lparr>blocks := (blocks m)(b := Some (take i old @ bs @ drop (i + length bs) old))\<rparr>)"
proof -
  have "\<not> overlaps (Ptr b i) (sv_data sv) (sv_len sv)"
    using assms(5) by (cases "sv_data sv") (auto simp: overlaps_def view_off_def)
  with assms(1) show ?thesis
    using store_bytes_obj [OF assms(2-4)] by (simp add: memcpy_def view_bytes_def)
qed

lemma cpy_sv2str_obj:
  assumes "view_bytes m sv = Inr bs" and "str_data s = Ptr b 0"
    and "blocks m b = Some old" and "\<not> is_lit b" and "off + length bs < length old"
    and "off + length bs < MAX_LEN" and "view_off sv b"
  shows "cpy_sv2str s sv (int off) m =
    Inr (s\<lparr>str_size := Suc (off + length bs)\<rparr>,
         m\<lparr>blocks := (blocks m)
             (b := Some (take off old @ bs @ NUL # drop (Suc (off + length bs)) old))\<rparr>)"
proof -
  note len = view_bytes_length [OF assms(1)]
  let ?old = "take off old @ bs @ drop (off + length bs) old"
  let ?m = "m\<lparr>blocks := (blocks m)(b := Some ?old)\<rparr>"
  have 1: "memcpy (Ptr b off) (sv_data sv) (sv_len sv) m = Inr ?m"
    using assms by (intro memcpy_view) auto
  have tk: "take (off + length bs) ?old @ [NUL] @ drop (off + length bs + length [NUL]) ?old =
      take off old @ bs @ NUL # drop (Suc (off + length bs)) old"
    using assms(5) by simp
  have "store_bytes ?m (Ptr b (off + length bs)) [NUL] =
     Inr (?m\<lparr>blocks := (blocks ?m)(b := Some (take (off + length bs) ?old @ [NUL] @
          drop (off + length bs + length [NUL]) ?old))\<rparr>)"
    using assms(4,5) by (intro store_bytes_obj) simp_all
  then have 2: "store_bytes ?m (Ptr b (off + length bs)) [NUL] =
     Inr (m\<lparr>blocks := (blocks m)
             (b := Some (take off old @ bs @ NUL # drop (Suc (off + length bs)) old))\<rparr>)"
    unfolding tk by simp
  show ?thesis
    using 1 2 assms(2,6) by (simp add: cpy_sv2str_def len Let_def)
qed

text \<open>The copy behind a text already there, into a block of the allocator.\<close>

lemma cpy_appends:
  assumes "view_bytes m sv = Inr bs" and "blocks m (Heap k) = Some nb" and "has_sbuf m b"
    and "take (length cs) nb = cs" and "length cs + length bs < cap" and "cap \<le> length nb"
    and "length cs + length bs < MAX_LEN" and "view_off sv (Heap k)"
  obtains nb' where
    "cpy_sv2str \<lparr>str_buf = b, str_data = Ptr (Heap k) 0, str_size = n, str_cap = c\<rparr> sv
       (int (length cs)) m =
     Inr (\<lparr>str_buf = b, str_data = Ptr (Heap k) 0, str_size = Suc (length (cs @ bs)), str_cap = c\<rparr>,
          m\<lparr>blocks := (blocks m)(Heap k := Some nb')\<rparr>)"
    and "str_rep (m\<lparr>blocks := (blocks m)(Heap k := Some nb')\<rparr>)
       \<lparr>str_buf = b, str_data = Ptr (Heap k) 0, str_size = Suc (length (cs @ bs)), str_cap = cap\<rparr>
       (cs @ bs)"
proof
  let ?nb = "take (length cs) nb @ bs @ NUL # drop (Suc (length cs + length bs)) nb"
  show "cpy_sv2str \<lparr>str_buf = b, str_data = Ptr (Heap k) 0, str_size = n, str_cap = c\<rparr> sv
       (int (length cs)) m =
     Inr (\<lparr>str_buf = b, str_data = Ptr (Heap k) 0, str_size = Suc (length (cs @ bs)), str_cap = c\<rparr>,
          m\<lparr>blocks := (blocks m)(Heap k := Some ?nb)\<rparr>)"
    using assms by (subst cpy_sv2str_obj) auto
  have "terminated (Suc (length (cs @ bs))) ?nb"
    by (simp add: terminated_def assms(4) nth_append)
  moreover have "has_sbuf (m\<lparr>blocks := (blocks m)(Heap k := Some ?nb)\<rparr>) b"
    using assms(3) by (simp add: has_sbuf_def)
  ultimately have "str_rep (m\<lparr>blocks := (blocks m)(Heap k := Some ?nb)\<rparr>)
       \<lparr>str_buf = b, str_data = Ptr (Heap k) 0, str_size = Suc (length (cs @ bs)), str_cap = cap\<rparr>
       (take (Suc (length (cs @ bs)) - Suc 0) ?nb)"
    using assms(5,6) by (intro str_rep.heap) auto
  also have "take (Suc (length (cs @ bs)) - Suc 0) ?nb = cs @ bs"
    by (simp add: assms(4))
  finally show "str_rep (m\<lparr>blocks := (blocks m)(Heap k := Some ?nb)\<rparr>)
       \<lparr>str_buf = b, str_data = Ptr (Heap k) 0, str_size = Suc (length (cs @ bs)), str_cap = cap\<rparr>
       (cs @ bs)" .
qed

section \<open>Initialisation\<close>

lemma string_init_eq:
  assumes "has_sbuf m (str_buf s)"
  shows "string_init s m =
    Inr (\<lparr>str_buf = str_buf s, str_data = small_buf s, str_size = 0, str_cap = 0\<rparr>,
         m\<lparr>blocks := (blocks m)(Buf (str_buf s) := Some (replicate 16 NUL))\<rparr>)"
proof -
  from assms obtain sb where "blocks m (Buf (str_buf s)) = Some sb" "length sb = 16"
    by (auto simp: has_sbuf_def split: option.splits)
  then show ?thesis
    by (simp add: string_init_def memset_def store_bytes_obj)
qed

lemma string_init_rep:
  assumes "wf_mem m" and "has_sbuf m (str_buf s)"
  shows "\<exists>s' m'. string_init s m = Inr (s', m') \<and> str_rep m' s' [] \<and> str_buf s' = str_buf s \<and>
           footprint s' = {Buf (str_buf s)} \<and> frame {Buf (str_buf s)} m m' \<and> brk m' = brk m"
proof -
  let ?m = "m\<lparr>blocks := (blocks m)(Buf (str_buf s) := Some (replicate 16 NUL))\<rparr>"
  have "str_rep ?m \<lparr>str_buf = str_buf s, str_data = small_buf s, str_size = 0, str_cap = 0\<rparr>
      (take (0 - Suc 0) (replicate 16 NUL))"
    by (rule str_rep.small) (simp_all add: terminated_def)
  moreover have "frame {Buf (str_buf s)} m ?m"
    using assms by (intro frame_update) (auto simp: has_sbuf_def split: option.splits)
  ultimately show ?thesis by (simp add: string_init_eq [OF assms(2)])
qed

lemma view_bytes_NULL: "view_bytes m sv = Inr bs \<Longrightarrow> sv_data sv = NULL \<Longrightarrow> bs = [] \<and> sv_len sv = 0"
  by (auto simp: view_bytes_def load_bytes_def split: if_splits)

text \<open>A copy into the small buffer.\<close>

lemma cpy_small:
  assumes "wf_mem m" and "has_sbuf m b" and "view_bytes m sv = Inr bs"
    and "length bs < STR_SMALL_BUF_SIZE" and "view_off sv (Buf b)"
  obtains m' where
    "cpy_sv2str \<lparr>str_buf = b, str_data = Ptr (Buf b) 0, str_size = n, str_cap = 0\<rparr> sv 0 m =
       Inr (\<lparr>str_buf = b, str_data = Ptr (Buf b) 0, str_size = Suc (length bs), str_cap = 0\<rparr>, m')"
    and "str_rep m' \<lparr>str_buf = b, str_data = Ptr (Buf b) 0, str_size = Suc (length bs), str_cap = 0\<rparr> bs"
    and "frame {Buf b} m m'" and "brk m' = brk m"
proof -
  from assms(2) obtain old where old: "blocks m (Buf b) = Some old" "length old = 16"
    by (auto simp: has_sbuf_def split: option.splits)
  let ?nb = "bs @ NUL # drop (Suc (length bs)) old"
  let ?m = "m\<lparr>blocks := (blocks m)(Buf b := Some ?nb)\<rparr>"
  let ?s = "\<lparr>str_buf = b, str_data = Ptr (Buf b) 0, str_size = Suc (length bs), str_cap = 0\<rparr>"
  have 1: "cpy_sv2str \<lparr>str_buf = b, str_data = Ptr (Buf b) 0, str_size = n, str_cap = 0\<rparr> sv 0 m =
      Inr (?s, ?m)"
    using cpy_sv2str_obj [of m sv bs _ "Buf b" old 0] assms(3-5) old by simp
  have "str_rep ?m ?s (take (Suc (length bs) - Suc 0) ?nb)"
    using assms(4) old by (intro str_rep.small) (auto simp: terminated_def nth_append)
  then have 2: "str_rep ?m ?s bs" by simp
  have 3: "frame {Buf b} m ?m" using assms(1) old by (intro frame_update) auto
  from 1 2 3 show thesis by (rule that) simp
qed

lemma string_init_from_string_view_ok:
  assumes "wf_mem m" and "has_sbuf m (str_buf s)" and "view_bytes m sv = Inr bs"
    and "length bs < MAX_LEN" and "view_off sv (Buf (str_buf s))"
    and "length bs < STR_SMALL_BUF_SIZE \<or> avail m (brk m)"
  shows "\<exists>s' m'. string_init_from_string_view s sv m = Inr (True, s', m') \<and> str_rep m' s' bs \<and>
     str_buf s' = str_buf s \<and> footprint s' \<subseteq> {Buf (str_buf s), Heap (brk m)} \<and>
     frame {Buf (str_buf s)} m m' \<and> brk m' \<le> Suc (brk m)"
proof -
  let ?b = "str_buf s"
  let ?s0 = "\<lparr>str_buf = ?b, str_data = Ptr (Buf ?b) 0, str_size = 0, str_cap = 0\<rparr>"
  from string_init_rep [OF assms(1,2)] obtain m1 where
    i: "string_init s m = Inr (?s0, m1)" "str_rep m1 ?s0 []" "frame {Buf ?b} m m1" "brk m1 = brk m"
    using string_init_eq [OF assms(2)] by auto
  have v: "view_bytes m1 sv = Inr bs"
    using i(3) assms(3) by (rule frame_view) (use assms(5) in simp)
  have wf: "wf_mem m1" using i(3) by (rule frame_wf)
  have sb: "has_sbuf m1 ?b" using str_rep_sbuf [OF i(2)] by simp
  note len = view_bytes_length [OF v]
  show ?thesis
  proof (cases "sv_data sv = NULL")
    case True
    with view_bytes_NULL [OF v] i show ?thesis
      by (auto simp: string_init_from_string_view_def sv_defs)
  next
    case nn: False
    show ?thesis
    proof (cases "length bs < STR_SMALL_BUF_SIZE")
      case True
      from cpy_small [OF wf sb v True assms(5), of 0] obtain m2 where
        c: "cpy_sv2str ?s0 sv 0 m1 = Inr (?s0\<lparr>str_size := Suc (length bs)\<rparr>, m2)"
          "str_rep m2 (?s0\<lparr>str_size := Suc (length bs)\<rparr>) bs" "frame {Buf ?b} m1 m2" "brk m2 = brk m1"
        by auto
      have "frame {Buf ?b} m m2" using i(3) c(3) by (rule frame_trans) simp
      with nn True c i show ?thesis
        by (auto simp: string_init_from_string_view_def sv_defs len)
    next
      case False
      from next_capacity_Suc [OF assms(4)] obtain cap where
        cap: "next_capacity (Suc (length bs)) = Inr cap" "Suc (length bs) \<le> cap" by blast
      let ?k = "brk m1"
      let ?nb = "map (junk m1 ?k) [0..<cap]"
      let ?m2 = "m1\<lparr>blocks := (blocks m1)(Heap ?k := Some ?nb), brk := Suc ?k\<rparr>"
      have av: "avail m1 ?k" using False assms(6) i by (simp add: frame_env [OF i(3)])
      have f2: "frame {} m1 ?m2" using wf by (intro frame_alloc) auto
      have v2: "view_bytes ?m2 sv = Inr bs" using f2 v by (rule frame_view) simp
      have off: "view_off sv (Heap ?k)" using v wf by (intro view_off_fresh) auto
      have b2: "blocks ?m2 (Heap ?k) = Some ?nb" by simp
      have sb2: "has_sbuf ?m2 ?b" using sb f2 by (rule has_sbuf_frame) simp
      from cpy_appends [OF v2 b2 sb2, of "[]" cap 0 0] off cap(2) assms(4) obtain nb' where
        c: "cpy_sv2str \<lparr>str_buf = ?b, str_data = Ptr (Heap ?k) 0, str_size = 0, str_cap = 0\<rparr> sv 0 ?m2 =
            Inr (\<lparr>str_buf = ?b, str_data = Ptr (Heap ?k) 0, str_size = Suc (length bs), str_cap = 0\<rparr>,
              ?m2\<lparr>blocks := (blocks ?m2)(Heap ?k := Some nb')\<rparr>)"
          "str_rep (?m2\<lparr>blocks := (blocks ?m2)(Heap ?k := Some nb')\<rparr>)
            \<lparr>str_buf = ?b, str_data = Ptr (Heap ?k) 0, str_size = Suc (length bs), str_cap = cap\<rparr> bs"
        by auto
      have "frame {Buf ?b} m ?m2" using i(3) f2 by (rule frame_trans) simp
      then have "frame {Buf ?b} m (?m2\<lparr>blocks := (blocks ?m2)(Heap ?k := Some nb')\<rparr>)"
        using assms(1) i(4) by (intro frame_fresh_update) auto
      with nn False c cap i av assms(4) show ?thesis
        by (simp add: string_init_from_string_view_def sv_defs len malloc_ok)
    qed
  qed
qed

text \<open>
  When the allocation fails the initialiser reports it and leaves a struct without data; no
  other object changed.
\<close>

lemma string_init_from_string_view_fails:
  assumes "wf_mem m" and "has_sbuf m (str_buf s)" and "view_bytes m sv = Inr bs"
    and "length bs < MAX_LEN" and "view_off sv (Buf (str_buf s))"
    and "STR_SMALL_BUF_SIZE \<le> length bs" and "\<not> avail m (brk m)"
  shows "\<exists>s' m'. string_init_from_string_view s sv m = Inr (False, s', m') \<and> str_rep m' s' [] \<and>
     str_data s' = NULL \<and> str_buf s' = str_buf s \<and> frame {Buf (str_buf s)} m m' \<and> brk m' = Suc (brk m)"
proof -
  let ?b = "str_buf s"
  let ?s0 = "\<lparr>str_buf = ?b, str_data = Ptr (Buf ?b) 0, str_size = 0, str_cap = 0\<rparr>"
  from string_init_rep [OF assms(1,2)] obtain m1 where
    i: "string_init s m = Inr (?s0, m1)" "str_rep m1 ?s0 []" "frame {Buf ?b} m m1" "brk m1 = brk m"
    using string_init_eq [OF assms(2)] by auto
  have wf: "wf_mem m1" using i(3) by (rule frame_wf)
  let ?m2 = "m1\<lparr>brk := Suc (brk m1)\<rparr>"
  note len = view_bytes_length [OF assms(3)]
  have nn: "sv_data sv \<noteq> NULL" using view_bytes_NULL [OF assms(3)] assms(6) by auto
  from next_capacity_Suc [OF assms(4)] obtain cap where
    cap: "next_capacity (Suc (length bs)) = Inr cap" by blast
  have na: "\<not> avail m1 (brk m1)" using assms(7) i by (simp add: frame_env [OF i(3)])
  have "has_sbuf ?m2 ?b" using str_rep_sbuf [OF i(2)] by (simp add: has_sbuf_def)
  then have "str_rep ?m2 (?s0\<lparr>str_data := NULL\<rparr>) []" by (simp add: str_rep.zeroed)
  moreover have "frame {Buf ?b} m ?m2"
    using i(3) frame_brk [OF wf, of "{Buf ?b}"] by (rule frame_trans) simp
  ultimately show ?thesis
    using nn cap na i assms(4,6)
    by (simp add: string_init_from_string_view_def sv_defs len malloc_fails)
qed

section \<open>Growing the storage\<close>

lemma cpy_smbuf2data_ok:
  assumes "wf_mem m" and "blocks m (Buf b) = Some sb" and "length sb = STR_SMALL_BUF_SIZE"
    and "n \<le> STR_SMALL_BUF_SIZE" and "n \<le> cap" and "0 < cap" and "avail m (brk m)"
  obtains nb m' where
    "cpy_smbuf2data \<lparr>str_buf = b, str_data = Ptr (Buf b) 0, str_size = n, str_cap = 0\<rparr> cap m =
       Inr (True, \<lparr>str_buf = b, str_data = Ptr (Heap (brk m)) 0, str_size = n, str_cap = cap\<rparr>, m')"
    and "blocks m' (Heap (brk m)) = Some nb" and "length nb = cap" and "take n nb = take n sb"
    and "frame {} m m'" and "brk m' = Suc (brk m)"
proof -
  let ?k = "brk m"
  let ?jk = "map (junk m ?k) [0..<cap]"
  let ?m1 = "m\<lparr>blocks := (blocks m)(Heap ?k := Some ?jk), brk := Suc ?k\<rparr>"
  let ?sv = "\<lparr>sv_data = Ptr (Buf b) 0, sv_len = n\<rparr>"
  let ?nb = "take n sb @ drop n ?jk"
  let ?m2 = "?m1\<lparr>blocks := (blocks ?m1)(Heap ?k := Some ?nb)\<rparr>"
  have f: "frame {} m ?m1" using assms(1) by (intro frame_alloc) auto
  have v: "view_bytes ?m1 ?sv = Inr (take n sb)"
    using assms(2-4) by (simp add: view_bytes_def load_bytes_def)
  have b1: "blocks ?m1 (Heap ?k) = Some ?jk" by simp
  have lt: "length (take n sb) = n" using assms(3,4) by simp
  have off: "view_off ?sv (Heap ?k)" by (simp add: view_off_def)
  have "memcpy (Ptr (Heap ?k) 0) (Ptr (Buf b) 0) n ?m1 = Inr ?m2"
    using memcpy_view [OF v b1 _ _ off, of 0, unfolded lt] assms(5) by simp
  then have 1: "cpy_smbuf2data \<lparr>str_buf = b, str_data = Ptr (Buf b) 0, str_size = n, str_cap = 0\<rparr> cap m =
       Inr (True, \<lparr>str_buf = b, str_data = Ptr (Heap ?k) 0, str_size = n, str_cap = cap\<rparr>, ?m2)"
    using assms(6,7) by (simp add: cpy_smbuf2data_def malloc_ok)
  have 2: "frame {} m ?m2" using f assms(1) by (intro frame_fresh_update) auto
  have 3: "blocks ?m2 (Heap ?k) = Some ?nb" by simp
  show ?thesis by (rule that [OF 1 3 _ _ 2]) (use assms(5) lt in auto)
qed

lemma cpy_smbuf2data_fails:
  assumes "0 < cap" and "\<not> avail m (brk m)"
  shows "cpy_smbuf2data \<lparr>str_buf = b, str_data = Ptr (Buf b) 0, str_size = n, str_cap = 0\<rparr> cap m =
       Inr (False, \<lparr>str_buf = b, str_data = Ptr (Buf b) 0, str_size = n, str_cap = 0\<rparr>,
            m\<lparr>brk := Suc (brk m)\<rparr>)"
  using assms by (simp add: cpy_smbuf2data_def malloc_fails)

lemma realloc_heap_ok:
  assumes "wf_mem m" and "blocks m (Heap j) = Some old" and "avail m (brk m)"
  obtains nb m' where "realloc (Ptr (Heap j) 0) cap m = Inr (Ptr (Heap (brk m)) 0, m')"
    and "blocks m' (Heap (brk m)) = Some nb" and "length nb = cap"
    and "\<And>n. n \<le> cap \<Longrightarrow> n \<le> length old \<Longrightarrow> take n nb = take n old"
    and "frame {Heap j} m m'" and "brk m' = Suc (brk m)" and "blocks m' (Heap j) = None"
proof -
  let ?k = "brk m"
  let ?nb = "take cap old @ map (junk m ?k) [length old..<cap]"
  let ?m = "m\<lparr>blocks := (blocks m)(Heap j := None, Heap ?k := Some ?nb), brk := Suc ?k\<rparr>"
  have ne: "j \<noteq> ?k" using wf_mem_used(1) [OF assms(1,2)] by simp
  have "realloc (Ptr (Heap j) 0) cap m = Inr (Ptr (Heap ?k) 0, ?m)"
    using assms by (simp add: realloc_def Let_def)
  moreover have "blocks ?m (Heap ?k) = Some ?nb" "length ?nb = cap" by auto
  moreover have "\<And>n. n \<le> cap \<Longrightarrow> n \<le> length old \<Longrightarrow> take n ?nb = take n old"
    by (simp add: min_def)
  moreover have "frame {Heap j} m ?m" using assms(1) by (auto simp: frame_def wf_mem_def)
  ultimately show ?thesis by (rule that) (use ne in simp_all)
qed

lemma realloc_heap_fails:
  "blocks m (Heap j) = Some old \<Longrightarrow> \<not> avail m (brk m) \<Longrightarrow>
     realloc (Ptr (Heap j) 0) cap m = Inr (NULL, m\<lparr>brk := Suc (brk m)\<rparr>)"
  by (simp add: realloc_def Let_def)

section \<open>Appending\<close>

text \<open>
  Appending a view that does not look into the string's own block adds its bytes; the text
  moves to a fresh block in every case, and only the string's own objects change.
\<close>

definition append_outcome ::
  "mem \<Rightarrow> string_t \<Rightarrow> char list \<Rightarrow> (bool \<times> string_t \<times> mem) res \<Rightarrow> bool" where
  "append_outcome m s cs r \<longleftrightarrow>
     (\<exists>s' m'. r = Inr (True, s', m') \<and> str_rep m' s' cs \<and> str_buf s' = str_buf s \<and>
        str_data s' = Ptr (Heap (brk m)) 0 \<and> str_size s' = Suc (length cs) \<and>
        frame (footprint s) m m' \<and> brk m' = Suc (brk m) \<and>
        (\<forall>k i. str_data s = Ptr (Heap k) i \<longrightarrow> blocks m' (Heap k) = None))"

lemma append_finish:
  assumes "wf_mem m" and "frame B m m2" and "blocks m2 (Heap (brk m)) = Some nb"
    and "length nb = cap" and "take (length cs) nb = cs" and "has_sbuf m2 b"
    and "view_bytes m2 sv = Inr bs" and "view_off sv (Heap (brk m))"
    and "length cs + length bs < cap" and "length cs + length bs < MAX_LEN"
  obtains m3 where
    "cpy_sv2str \<lparr>str_buf = b, str_data = Ptr (Heap (brk m)) 0, str_size = n, str_cap = c\<rparr> sv
       (to_int32 (length cs)) m2 =
     Inr (\<lparr>str_buf = b, str_data = Ptr (Heap (brk m)) 0, str_size = Suc (length (cs @ bs)), str_cap = c\<rparr>, m3)"
    and "str_rep m3 \<lparr>str_buf = b, str_data = Ptr (Heap (brk m)) 0,
       str_size = Suc (length (cs @ bs)), str_cap = cap\<rparr> (cs @ bs)"
    and "frame B m m3" and "brk m3 = brk m2" and "\<forall>b. blocks m2 b = None \<longrightarrow> blocks m3 b = None"
proof -
  obtain nb' where
    "cpy_sv2str \<lparr>str_buf = b, str_data = Ptr (Heap (brk m)) 0, str_size = n, str_cap = c\<rparr> sv
       (int (length cs)) m2 =
     Inr (\<lparr>str_buf = b, str_data = Ptr (Heap (brk m)) 0, str_size = Suc (length (cs @ bs)), str_cap = c\<rparr>,
          m2\<lparr>blocks := (blocks m2)(Heap (brk m) := Some nb')\<rparr>)"
    "str_rep (m2\<lparr>blocks := (blocks m2)(Heap (brk m) := Some nb')\<rparr>) \<lparr>str_buf = b,
       str_data = Ptr (Heap (brk m)) 0, str_size = Suc (length (cs @ bs)), str_cap = cap\<rparr> (cs @ bs)"
    by (rule cpy_appends [OF assms(7,3,6,5,9) _ assms(10,8), of n c]) (use assms(4) in auto)
  moreover have "frame B m (m2\<lparr>blocks := (blocks m2)(Heap (brk m) := Some nb')\<rparr>)"
    using assms(1-3) by (intro frame_fresh_update) auto
  ultimately show ?thesis using assms(3,10)
    by (intro that [of "m2\<lparr>blocks := (blocks m2)(Heap (brk m) := Some nb')\<rparr>"]) auto
qed

lemma string_append_view_ok:
  assumes rep: "str_rep m s cs" and wf: "wf_mem m" and v: "view_bytes m sv = Inr bs"
    and apart: "str_data s \<noteq> small_buf s \<Longrightarrow> view_apart sv s"
    and len: "length cs + length bs < MAX_LEN" and av: "avail m (brk m)"
  shows "append_outcome m s (cs @ bs) (string_append_view s sv m)"
proof -
  note svl = view_bytes_length [OF v]
  note sl = str_rep_len(1) [OF rep]
  from next_capacity_Suc [OF len] obtain cap where
    cap: "next_capacity (Suc (length bs + length cs)) = Inr cap" "Suc (length cs + length bs) \<le> cap"
    by (auto simp: add.commute)
  have off: "view_off sv (Heap (brk m))" using v wf by (intro view_off_fresh) auto
  from rep show ?thesis
  proof cases
    case (zeroed b)
    let ?jk = "map (junk m (brk m)) [0..<cap]"
    let ?m2 = "m\<lparr>blocks := (blocks m)(Heap (brk m) := Some ?jk), brk := Suc (brk m)\<rparr>"
    have f: "frame (footprint s) m ?m2" "frame {} m ?m2" using wf by (auto intro: frame_alloc)
    have b2: "blocks ?m2 (Heap (brk m)) = Some ?jk" by simp
    have s2: "has_sbuf ?m2 b" using zeroed(3) f(2) by (rule has_sbuf_frame) simp
    have v2: "view_bytes ?m2 sv = Inr bs" using f(2) v by (rule frame_view) simp
    obtain m3 where "cpy_sv2str \<lparr>str_buf = b, str_data = Ptr (Heap (brk m)) 0, str_size = 0, str_cap = 0\<rparr> sv
       (to_int32 (length cs)) ?m2 =
     Inr (\<lparr>str_buf = b, str_data = Ptr (Heap (brk m)) 0, str_size = Suc (length (cs @ bs)), str_cap = 0\<rparr>, m3)"
      "str_rep m3 \<lparr>str_buf = b, str_data = Ptr (Heap (brk m)) 0,
         str_size = Suc (length (cs @ bs)), str_cap = cap\<rparr> (cs @ bs)"
      "frame (footprint s) m m3" "brk m3 = brk ?m2"
      by (rule append_finish [OF wf f(1) b2 _ _ s2 v2 off, of cap cs 0 0]) (use zeroed cap len in auto)
    with zeroed show ?thesis
      using cap len sl av
      by (simp add: append_outcome_def string_append_view_def sv_defs svl Let_def use_sbuf_def
          realloc_def malloc_ok)
  next
    case (small b sb n)
    have cs: "length cs = n - Suc 0" "take (length cs) sb = cs"
      using small by (auto simp: min_def)
    then have ncap: "n \<le> cap" using cap(2) by linarith
    obtain nb m2 where c:
      "cpy_smbuf2data \<lparr>str_buf = b, str_data = Ptr (Buf b) 0, str_size = n, str_cap = 0\<rparr> cap m =
         Inr (True, \<lparr>str_buf = b, str_data = Ptr (Heap (brk m)) 0, str_size = n, str_cap = cap\<rparr>, m2)"
      "blocks m2 (Heap (brk m)) = Some nb" "length nb = cap" "take n nb = take n sb"
      "frame {} m m2" "brk m2 = Suc (brk m)"
      by (rule cpy_smbuf2data_ok [OF wf small(3-5) ncap _ av]) (use cap in auto)
    have f: "frame (footprint s) m m2" using c(5) by (rule frame_mono) simp
    have nb: "take (length cs) nb = cs"
      using c(4) cs by (metis diff_le_self take_take min.absorb1 One_nat_def)
    have s2: "has_sbuf m2 b" by (rule has_sbuf_frame [OF _ c(5)]) (use small in \<open>auto simp: has_sbuf_def\<close>)
    have v2: "view_bytes m2 sv = Inr bs" using c(5) v by (rule frame_view) simp
    obtain m3 where "cpy_sv2str \<lparr>str_buf = b, str_data = Ptr (Heap (brk m)) 0, str_size = n, str_cap = cap\<rparr> sv
       (to_int32 (length cs)) m2 =
     Inr (\<lparr>str_buf = b, str_data = Ptr (Heap (brk m)) 0, str_size = Suc (length (cs @ bs)), str_cap = cap\<rparr>, m3)"
      "str_rep m3 \<lparr>str_buf = b, str_data = Ptr (Heap (brk m)) 0,
         str_size = Suc (length (cs @ bs)), str_cap = cap\<rparr> (cs @ bs)"
      "frame (footprint s) m m3" "brk m3 = brk m2"
      by (rule append_finish [OF wf f c(2,3) nb s2 v2 off, of n cap]) (use cap len in auto)
    with small(1) c(1,6) show ?thesis
      using cap len sl
      by (simp add: append_outcome_def string_append_view_def sv_defs svl Let_def use_sbuf_def)
  next
    case (heap b k bs0 c0 n)
    have cs: "length cs = n - Suc 0" "take (length cs) bs0 = cs" "length cs \<le> cap" "length cs \<le> length bs0"
      using heap cap by (auto simp: min_def)
    obtain nb m2 where c:
      "realloc (Ptr (Heap k) 0) cap m = Inr (Ptr (Heap (brk m)) 0, m2)"
      "blocks m2 (Heap (brk m)) = Some nb" "length nb = cap"
      "\<And>n. n \<le> cap \<Longrightarrow> n \<le> length bs0 \<Longrightarrow> take n nb = take n bs0"
      "frame {Heap k} m m2" "brk m2 = Suc (brk m)" "blocks m2 (Heap k) = None"
      by (rule realloc_heap_ok [OF wf heap(4) av]) auto
    have f: "frame (footprint s) m m2" using c(5) by (rule frame_mono) (simp add: heap(1))
    have nb: "take (length cs) nb = cs" by (rule trans [OF c(4) [OF cs(3,4)] cs(2)])
    have s2: "has_sbuf m2 b" using heap(3) c(5) by (rule has_sbuf_frame) simp
    have "view_off sv (Heap k)" using apart heap(1) by (simp add: view_apart_def)
    then have v2: "view_bytes m2 sv = Inr bs" by (intro frame_view [OF c(5) v]) simp
    obtain m3 where "cpy_sv2str \<lparr>str_buf = b, str_data = Ptr (Heap (brk m)) 0, str_size = n, str_cap = c0\<rparr> sv
       (to_int32 (length cs)) m2 =
     Inr (\<lparr>str_buf = b, str_data = Ptr (Heap (brk m)) 0, str_size = Suc (length (cs @ bs)), str_cap = c0\<rparr>, m3)"
      "str_rep m3 \<lparr>str_buf = b, str_data = Ptr (Heap (brk m)) 0,
         str_size = Suc (length (cs @ bs)), str_cap = cap\<rparr> (cs @ bs)"
      "frame (footprint s) m m3" "brk m3 = brk m2" "\<forall>b. blocks m2 b = None \<longrightarrow> blocks m3 b = None"
      by (rule append_finish [OF wf f c(2,3) nb s2 v2 off, of n c0]) (use cap len in auto)
    with heap(1) c(1,6,7) show ?thesis
      using cap len sl
      by (simp add: append_outcome_def string_append_view_def sv_defs svl Let_def use_sbuf_def)
  qed
qed

lemma string_append_view_fails:
  assumes rep: "str_rep m s cs" and v: "view_bytes m sv = Inr bs"
    and len: "length cs + length bs < MAX_LEN" and na: "\<not> avail m (brk m)"
  shows "string_append_view s sv m = Inr (False, s, m\<lparr>brk := Suc (brk m)\<rparr>)"
proof -
  note svl = view_bytes_length [OF v]
  note sl = str_rep_len(1) [OF rep]
  from next_capacity_Suc [OF len] obtain cap where
    cap: "next_capacity (Suc (length bs + length cs)) = Inr cap" "0 < cap"
    by (auto simp: add.commute)
  from rep show ?thesis
  proof cases
    case (zeroed b)
    with cap na len sl show ?thesis
      by (simp add: string_append_view_def sv_defs svl Let_def use_sbuf_def realloc_def malloc_fails)
  next
    case (small b sb n)
    with cap na len sl show ?thesis
      by (simp add: string_append_view_def sv_defs svl Let_def use_sbuf_def cpy_smbuf2data_fails
          del: length_take)
  next
    case (heap b k bs0 c0 n)
    with cap na len sl show ?thesis
      by (simp add: string_append_view_def sv_defs svl Let_def use_sbuf_def realloc_heap_fails
          del: length_take)
  qed
qed

text \<open>
  A string whose text is in a block of the allocator cannot be appended to itself: the view of
  its own text dangles once \<^verbatim>\<open>realloc\<close> has moved the block.
\<close>

lemma append_self_dangles:
  assumes rep: "str_rep m s cs" and wf: "wf_mem m" and "str_data s = Ptr (Heap k) 0"
    and "cs \<noteq> []" and len: "2 * length cs < MAX_LEN" and av: "avail m (brk m)"
  shows "string_append_string s s m = Inl Dangling"
proof -
  note v = view_from_string [OF rep]
  note sl = str_rep_len(1) [OF rep]
  from next_capacity_Suc [of "length cs + length cs"] len obtain cap where
    cap: "next_capacity (Suc (length cs + length cs)) = Inr cap" by auto
  from rep assms(3) obtain bs where b: "blocks m (Heap k) = Some bs"
    by cases auto
  obtain m2 where
    r: "realloc (Ptr (Heap k) 0) cap m = Inr (Ptr (Heap (brk m)) 0, m2)" "blocks m2 (Heap k) = None"
    by (rule realloc_heap_ok [OF wf b av])
  have d: "sv_data (string_view_from_string s) = Ptr (Heap k) 0"
    using assms(3) by (simp add: string_view_from_string_def string_view_from_parts_def Let_def)
  have "cpy_sv2str (s\<lparr>str_data := Ptr (Heap (brk m)) 0\<rparr>) (string_view_from_string s)
      (to_int32 (length cs)) m2 = Inl Dangling"
    using r(2) d v(2) assms(4) len by (simp add: cpy_sv2str_def memcpy_def load_bytes_def)
  with cap r(1) assms(3) len show ?thesis
    by (simp add: string_append_string_def string_append_view_def sv_defs v(2) sl Let_def use_sbuf_def)
qed

section \<open>Operations as steps\<close>

text \<open>
  \<open>str_step m s m' s' cs'\<close>: an operation took the string \<open>s\<close> to \<open>s'\<close>, which now
  holds \<open>cs'\<close>, and touched no object outside the old string but fresh ones.
\<close>

definition str_step :: "mem \<Rightarrow> string_t \<Rightarrow> mem \<Rightarrow> string_t \<Rightarrow> char list \<Rightarrow> bool" where
  "str_step m s m' s' cs' \<longleftrightarrow>
     str_rep m' s' cs' \<and> str_buf s' = str_buf s \<and> frame (footprint s) m m' \<and>
     (\<forall>b \<in> footprint s'. b \<in> footprint s \<or> blocks m b = None) \<and>
     (str_data s \<noteq> NULL \<longrightarrow> str_data s' \<noteq> NULL)"

lemma str_stepD:
  assumes "str_step m s m' s' cs'"
  shows "str_rep m' s' cs'" "str_buf s' = str_buf s" "frame (footprint s) m m'" "wf_mem m'"
  using assms by (auto simp: str_step_def dest: frame_wf)

lemma str_step_footprint:
  "str_step m s m' s' cs' \<Longrightarrow> b \<in> footprint s' \<Longrightarrow> b \<in> footprint s \<or> blocks m b = None"
  by (simp add: str_step_def)

lemma str_step_refl: "str_rep m s cs \<Longrightarrow> wf_mem m \<Longrightarrow> str_step m s m s cs"
  by (simp add: str_step_def)

lemma str_step_trans:
  assumes "str_step m s m' s' cs'" and "str_step m' s' m'' s'' cs''"
  shows "str_step m s m'' s'' cs''"
proof -
  note 1 = assms(1) [unfolded str_step_def] and 2 = assms(2) [unfolded str_step_def]
  have f: "frame (footprint s) m m'" using 1 by simp
  have "frame (footprint s) m m''"
    by (rule frame_trans [of _ m m' "footprint s'"]) (use 1 2 in auto)
  moreover have "b \<in> footprint s \<or> blocks m b = None" if "b \<in> footprint s''" for b
  proof -
    from that 2 have "b \<in> footprint s' \<or> blocks m' b = None" by simp
    then show ?thesis using 1 frame_None [OF f, of b] by auto
  qed
  ultimately show ?thesis using 1 2 by (auto simp: str_step_def)
qed

lemma append_outcome_step:
  assumes "append_outcome m s cs r" and "wf_mem m"
  shows "\<exists>s' m'. r = Inr (True, s', m') \<and> str_step m s m' s' cs"
proof -
  from assms(1) obtain s' m' where r: "r = Inr (True, s', m')" "str_rep m' s' cs" "str_buf s' = str_buf s"
      "str_data s' = Ptr (Heap (brk m)) 0" "frame (footprint s) m m'"
    by (auto simp: append_outcome_def)
  have "footprint s' = {Buf (str_buf s), Heap (brk m)}" using r(3,4) by (auto simp: footprint_def)
  with r assms(2) show ?thesis by (auto simp: str_step_def footprint_def)
qed

lemma str_step_brk: "str_rep m s cs \<Longrightarrow> wf_mem m \<Longrightarrow> str_step m s (m\<lparr>brk := Suc (brk m)\<rparr>) s cs"
  unfolding str_step_def
  by (auto intro: frame_brk str_rep_frame [of m s cs "{}"])

lemma string_append_view_step:
  assumes "str_rep m s cs" and "wf_mem m" and "view_bytes m sv = Inr bs"
    and "str_data s \<noteq> small_buf s \<Longrightarrow> view_apart sv s" and "length cs + length bs < MAX_LEN"
  shows "\<exists>ok s' m'. string_append_view s sv m = Inr (ok, s', m') \<and> ok = avail m (brk m) \<and>
           str_step m s m' s' (if ok then cs @ bs else cs)"
proof (cases "avail m (brk m)")
  case True
  with string_append_view_ok [OF assms(1-5)] show ?thesis
    using append_outcome_step assms(2) by fastforce
next
  case False
  with string_append_view_fails [OF assms(1,3,5)] assms(1,2) show ?thesis
    by (auto intro: str_step_brk)
qed

section \<open>Clearing and releasing\<close>

lemma string_clear_step:
  assumes "str_rep m s cs" and "wf_mem m"
  shows "\<exists>s' m'. string_clear s m = Inr (s', m') \<and> str_step m s m' s' [] \<and>
     str_data s' = small_buf s \<and> (\<forall>k i. str_data s = Ptr (Heap k) i \<longrightarrow> blocks m' (Heap k) = None)"
  using assms(1)
proof cases
  case (zeroed b)
  then obtain sb where sb: "blocks m (Buf b) = Some sb" "length sb = 16"
    by (auto simp: has_sbuf_def split: option.splits)
  have "str_rep m \<lparr>str_buf = b, str_data = Ptr (Buf b) 0, str_size = 0, str_cap = 0\<rparr> (take (0 - Suc 0) sb)"
    using sb by (intro str_rep.small) (auto simp: terminated_def)
  with zeroed assms(2) show ?thesis
    by (simp add: string_clear_def use_sbuf_def mfree_def str_step_def)
next
  case (small b sb n)
  have "str_rep m \<lparr>str_buf = b, str_data = Ptr (Buf b) 0, str_size = 0, str_cap = 0\<rparr> (take (0 - Suc 0) sb)"
    using small by (intro str_rep.small) (auto simp: terminated_def)
  with small assms(2) show ?thesis
    by (simp add: string_clear_def use_sbuf_def str_step_def)
next
  case (heap b k bs c n)
  let ?m = "m\<lparr>blocks := (blocks m)(Heap k := None)\<rparr>"
  from heap obtain sb where sb: "blocks m (Buf b) = Some sb" "length sb = 16"
    by (auto simp: has_sbuf_def split: option.splits)
  have "str_rep ?m \<lparr>str_buf = b, str_data = Ptr (Buf b) 0, str_size = 0, str_cap = 0\<rparr> (take (0 - Suc 0) sb)"
    using sb by (intro str_rep.small) (auto simp: terminated_def)
  moreover have "frame {Buf b, Heap k} m ?m" using assms(2) heap by (intro frame_update) auto
  ultimately show ?thesis using heap
    by (simp add: string_clear_def use_sbuf_def mfree_def str_step_def)
qed

text \<open>\<^verbatim>\<open>string_destroy\<close> frees the block, if there is one, and nothing else.\<close>

lemma string_destroy_frees:
  assumes "str_rep m s cs"
  shows "string_destroy s m =
     Inr (case str_data s of Ptr (Heap k) _ \<Rightarrow> m\<lparr>blocks := (blocks m)(Heap k := None)\<rparr> | _ \<Rightarrow> m)"
  using assms by cases (auto simp: string_destroy_def mfree_def)

lemma string_destroy_twice:
  assumes "str_rep m s cs" and "str_data s = Ptr (Heap k) i"
  shows "bnd (string_destroy s m) (string_destroy s) = Inl Dangling"
  using assms by cases (auto simp: string_destroy_def mfree_def)

section \<open>Reserving and resizing\<close>

lemma terminated_take: "terminated n xs \<Longrightarrow> take n ys = take n xs \<Longrightarrow> terminated n ys"
  unfolding terminated_def by (metis diff_less nth_take zero_less_one)

lemma take_less_eq: "take n ys = take n xs \<Longrightarrow> k \<le> n \<Longrightarrow> take k ys = take k xs"
  by (metis min.absorb1 take_take)

lemma string_reserve_step:
  assumes "str_rep m s cs" and "wf_mem m" and "str_data s \<noteq> NULL" and "capacity \<le> MAX_LEN"
  shows "\<exists>ok s' m'. string_reserve s capacity m = Inr (ok, s', m') \<and> str_step m s m' s' cs \<and>
     (ok \<longrightarrow> str_size s < capacity \<and> capacity \<le> str_cap s') \<and>
     (\<not> ok \<longrightarrow> s' = s \<and> (capacity \<le> str_size s \<or> \<not> avail m (brk m)))"
proof (cases "capacity \<le> str_size s")
  case True
  with assms show ?thesis by (auto simp: string_reserve_def intro: str_step_refl)
next
  case gt: False
  show ?thesis
  proof (cases "capacity \<le> str_cap s")
    case True
    with gt assms show ?thesis by (auto simp: string_reserve_def intro: str_step_refl)
  next
    case ge: False
    obtain cap where cap: "next_capacity capacity = Inr cap" "capacity \<le> cap" "0 < cap"
      by (rule next_capacity_ok [of capacity]) (use gt assms(4) in auto)
    show ?thesis
    proof (cases "avail m (brk m)")
      case na: False
      have st: "str_step m s (m\<lparr>brk := Suc (brk m)\<rparr>) s cs" using assms(1,2) by (rule str_step_brk)
      from assms(1) have "string_reserve s capacity m = Inr (False, s, m\<lparr>brk := Suc (brk m)\<rparr>)"
      proof cases
        case (small b sb n)
        with gt ge cap na show ?thesis
          by (simp add: string_reserve_def use_sbuf_def cpy_smbuf2data_fails)
      next
        case (heap b k bs c n)
        with gt ge cap na show ?thesis
          by (simp add: string_reserve_def use_sbuf_def realloc_heap_fails)
      qed (use assms(3) in simp)
      with st na show ?thesis by blast
    next
      case av: True
      from assms(1) show ?thesis
      proof cases
        case (small b sb n)
        obtain nb m2 where c:
          "cpy_smbuf2data \<lparr>str_buf = b, str_data = Ptr (Buf b) 0, str_size = n, str_cap = 0\<rparr> cap m =
             Inr (True, \<lparr>str_buf = b, str_data = Ptr (Heap (brk m)) 0, str_size = n, str_cap = cap\<rparr>, m2)"
          "blocks m2 (Heap (brk m)) = Some nb" "length nb = cap" "take n nb = take n sb"
          "frame {} m m2" "brk m2 = Suc (brk m)"
          by (rule cpy_smbuf2data_ok [OF assms(2) small(3-5), of cap]) (use gt small cap av in auto)
        have s2: "has_sbuf m2 b" by (rule has_sbuf_frame [OF _ c(5)]) (use small in \<open>auto simp: has_sbuf_def\<close>)
        have "str_rep m2 \<lparr>str_buf = b, str_data = Ptr (Heap (brk m)) 0, str_size = n, str_cap = cap\<rparr>
            (take (n - Suc 0) nb)"
          using s2 c(2,3) cap gt small terminated_take [OF small(6) c(4)] by (intro str_rep.heap) auto
        also have "take (n - Suc 0) nb = cs" unfolding small(2) by (rule take_less_eq [OF c(4)]) simp
        finally have "str_step m s m2 \<lparr>str_buf = b, str_data = Ptr (Heap (brk m)) 0, str_size = n, str_cap = cap\<rparr> cs"
          using small(1) c(5) assms(2) by (auto simp: str_step_def intro: frame_mono)
        with small(1) gt ge cap c(1) show ?thesis
          by (auto simp: string_reserve_def use_sbuf_def)
      next
        case (heap b k bs c0 n)
        obtain nb m2 where c:
          "realloc (Ptr (Heap k) 0) cap m = Inr (Ptr (Heap (brk m)) 0, m2)"
          "blocks m2 (Heap (brk m)) = Some nb" "length nb = cap"
          "\<And>n. n \<le> cap \<Longrightarrow> n \<le> length bs \<Longrightarrow> take n nb = take n bs"
          "frame {Heap k} m m2" "brk m2 = Suc (brk m)"
          by (rule realloc_heap_ok [OF assms(2) heap(4) av]) auto
        have tk: "take n nb = take n bs" by (rule c(4)) (use gt heap cap in auto)
        have s2: "has_sbuf m2 b" using heap(3) c(5) by (rule has_sbuf_frame) simp
        have "str_rep m2 \<lparr>str_buf = b, str_data = Ptr (Heap (brk m)) 0, str_size = n, str_cap = cap\<rparr>
            (take (n - Suc 0) nb)"
          using s2 c(2,3) cap gt heap terminated_take [OF heap(8) tk] by (intro str_rep.heap) auto
        also have "take (n - Suc 0) nb = cs" unfolding heap(2) by (rule take_less_eq [OF tk]) simp
        finally have "str_step m s m2 \<lparr>str_buf = b, str_data = Ptr (Heap (brk m)) 0, str_size = n, str_cap = cap\<rparr> cs"
          using heap(1) c(5) assms(2) by (auto simp: str_step_def intro: frame_mono)
        with heap(1) gt ge cap c(1) show ?thesis
          by (auto simp: string_reserve_def use_sbuf_def)
      qed (use assms(3) in simp)
    qed
  qed
qed

text \<open>What \<^verbatim>\<open>string_resize\<close> makes of a text: cut off, or filled up with NUL.\<close>

definition resized :: "nat \<Rightarrow> char list \<Rightarrow> char list" where
  "resized n cs = take n cs @ replicate (n - length cs) NUL"

lemma length_resized [simp]: "length (resized n cs) = n"
  by (simp add: resized_def)

text \<open>The zero fill, behind the old text of a block.\<close>

lemma resize_fill_obj:
  assumes "blocks m b = Some old" and "\<not> is_lit b" and "n \<le> l" and "l < length old"
    and "l < MAX_LEN" and "terminated n old"
  obtains nb where
    "resize_fill \<lparr>str_buf = x, str_data = Ptr b 0, str_size = n, str_cap = c\<rparr> l m =
       Inr (m\<lparr>blocks := (blocks m)(b := Some nb)\<rparr>)"
    and "length nb = length old" and "nb ! l = NUL"
    and "take l nb = resized l (take (n - Suc 0) old)"
proof -
  let ?nb = "take n old @ replicate (l - n + 1) NUL @ drop (n + length (replicate (l - n + 1) NUL)) old"
  have "store_bytes m (Ptr b n) (replicate (l - n + 1) NUL) = Inr (m\<lparr>blocks := (blocks m)(b := Some ?nb)\<rparr>)"
    using assms(1,2) by (rule store_bytes_obj) (use assms(3,4) in simp)
  then have 1: "resize_fill \<lparr>str_buf = x, str_data = Ptr b 0, str_size = n, str_cap = c\<rparr> l m =
       Inr (m\<lparr>blocks := (blocks m)(b := Some ?nb)\<rparr>)"
    using assms(3,5) by (simp add: resize_fill_def memset_def)
  have len: "length ?nb = length old" using assms(3,4) by simp
  have lt: "length (take n old) = n" using assms(3,4) by simp
  have nth: "?nb ! l = NUL" using assms(3,4) lt by (simp add: nth_append del: replicate.simps)
  have "take l ?nb = take n old @ replicate (l - n) NUL"
    using assms(3) lt by (simp del: replicate.simps)
  also have "\<dots> = resized l (take (n - Suc 0) old)"
  proof (cases n)
    case 0
    then show ?thesis by (simp add: resized_def)
  next
    case (Suc k)
    have "take n old = take k old @ [NUL]"
      using Suc assms(3,4,6) by (simp add: take_Suc_conv_app_nth terminated_def)
    moreover have "replicate (l - k) NUL = NUL # replicate (l - n) NUL"
      using Suc assms(3) by (metis Suc_diff_Suc Suc_le_lessD replicate_Suc)
    ultimately show ?thesis using Suc assms(3,4) by (simp add: resized_def min_def)
  qed
  finally show ?thesis by (rule that [OF 1 len nth])
qed

lemma resize_finish:
  assumes "blocks m b = Some old" and "\<not> is_lit b" and "n \<le> l" and "l < length old"
    and "l < MAX_LEN" and "terminated n old" and "take (n - Suc 0) old = cs"
  obtains nb where
    "store_bytes (m\<lparr>blocks := (blocks m)(b := Some nb)\<rparr>) (Ptr b l) [NUL] =
       Inr (m\<lparr>blocks := (blocks m)(b := Some nb)\<rparr>)"
    and "resize_fill \<lparr>str_buf = x, str_data = Ptr b 0, str_size = n, str_cap = c\<rparr> l m =
       Inr (m\<lparr>blocks := (blocks m)(b := Some nb)\<rparr>)"
    and "length nb = length old" and "terminated (Suc l) nb" and "take l nb = resized l cs"
proof -
  obtain nb where nb: "resize_fill \<lparr>str_buf = x, str_data = Ptr b 0, str_size = n, str_cap = c\<rparr> l m =
       Inr (m\<lparr>blocks := (blocks m)(b := Some nb)\<rparr>)"
      "length nb = length old" "nb ! l = NUL" "take l nb = resized l (take (n - Suc 0) old)"
    using resize_fill_obj [OF assms(1-6)] by metis
  let ?m = "m\<lparr>blocks := (blocks m)(b := Some nb)\<rparr>"
  have "store_bytes ?m (Ptr b l) [NUL] =
     Inr (?m\<lparr>blocks := (blocks ?m)(b := Some (take l nb @ [NUL] @ drop (l + length [NUL]) nb))\<rparr>)"
    using assms(2,4) nb(2) by (intro store_bytes_obj) simp_all
  moreover have tk: "take l nb @ [NUL] @ drop (l + length [NUL]) nb = nb"
    using id_take_nth_drop [of l nb, symmetric] assms(4) nb(2,3) by simp
  ultimately have "store_bytes ?m (Ptr b l) [NUL] = Inr ?m" unfolding tk by simp
  with nb assms(7) show ?thesis by (intro that [of nb]) (simp_all add: terminated_def)
qed

lemma str_step_heap:
  assumes "wf_mem m" and "frame (footprint s) m m'" and "str_buf s = b" and "has_sbuf m' b"
    and "blocks m' (Heap k) = Some nb" and "0 < cap" and "cap \<le> length nb" and "l < cap"
    and "terminated (Suc l) nb" and "Heap k \<in> footprint s \<or> blocks m (Heap k) = None"
  shows "str_step m s m' \<lparr>str_buf = b, str_data = Ptr (Heap k) 0, str_size = Suc l, str_cap = cap\<rparr> (take l nb)"
proof -
  have "str_rep m' \<lparr>str_buf = b, str_data = Ptr (Heap k) 0, str_size = Suc l, str_cap = cap\<rparr>
      (take (Suc l - Suc 0) nb)"
    using assms by (intro str_rep.heap) auto
  with assms show ?thesis by (auto simp: str_step_def footprint_def)
qed

lemma str_step_small:
  assumes "wf_mem m" and "frame (footprint s) m m'" and "str_buf s = b"
    and "blocks m' (Buf b) = Some nb" and "length nb = STR_SMALL_BUF_SIZE" and "l < STR_SMALL_BUF_SIZE"
    and "terminated (Suc l) nb"
  shows "str_step m s m' \<lparr>str_buf = b, str_data = Ptr (Buf b) 0, str_size = Suc l, str_cap = 0\<rparr> (take l nb)"
proof -
  have "str_rep m' \<lparr>str_buf = b, str_data = Ptr (Buf b) 0, str_size = Suc l, str_cap = 0\<rparr>
      (take (Suc l - Suc 0) nb)"
    using assms by (intro str_rep.small) auto
  with assms show ?thesis by (auto simp: str_step_def footprint_def)
qed

text \<open>Cutting off: one byte of the block changes.\<close>

lemma resize_cut:
  assumes "blocks m b = Some old" and "\<not> is_lit b" and "l < n" and "n \<le> length old"
    and "cs = take (n - Suc 0) old"
  obtains nb where "store_bytes m (Ptr b l) [NUL] = Inr (m\<lparr>blocks := (blocks m)(b := Some nb)\<rparr>)"
    and "length nb = length old" and "terminated (Suc l) nb" and "take l nb = resized l cs"
proof -
  let ?nb = "take l old @ [NUL] @ drop (l + length [NUL]) old"
  have "store_bytes m (Ptr b l) [NUL] = Inr (m\<lparr>blocks := (blocks m)(b := Some ?nb)\<rparr>)"
    using assms by (intro store_bytes_obj) auto
  moreover have "length ?nb = length old" using assms by simp
  moreover have "terminated (Suc l) ?nb" using assms by (simp add: terminated_def nth_append)
  moreover have "take l ?nb = resized l cs" using assms
    by (simp add: resized_def min_def) linarith
  ultimately show ?thesis by (rule that)
qed

lemma string_resize_step:
  assumes rep: "str_rep m s cs" and wf: "wf_mem m" and nn: "str_data s \<noteq> NULL" and l: "l < MAX_LEN"
  shows "\<exists>ok s' m'. string_resize s l m = Inr (ok, s', m') \<and>
     str_step m s m' s' (if ok then resized l cs else cs) \<and> (ok \<or> \<not> avail m (brk m))"
proof (cases "l = 0")
  case True
  from string_clear_step [OF rep wf] obtain s' m' where
    "string_clear s m = Inr (s', m')" "str_step m s m' s' []" by auto
  with True nn show ?thesis by (auto simp: string_resize_def resized_def)
next
  case l0: False
  from next_capacity_Suc [OF l] obtain cap where cap: "next_capacity (Suc l) = Inr cap" "Suc l \<le> cap" by blast
  from rep show ?thesis
  proof cases
    case (small b sb n)
    consider "l < n" | "n \<le> l" "l < STR_SMALL_BUF_SIZE" | "STR_SMALL_BUF_SIZE \<le> l" "n \<le> l"
      using small(5) by linarith
    then show ?thesis
    proof cases
      case 1
      obtain nb where c: "store_bytes m (Ptr (Buf b) l) [NUL] = Inr (m\<lparr>blocks := (blocks m)(Buf b := Some nb)\<rparr>)"
          "length nb = length sb" "terminated (Suc l) nb" "take l nb = resized l cs"
        by (rule resize_cut [OF small(3) _ 1 _ small(2)]) (use small in auto)
      let ?m = "m\<lparr>blocks := (blocks m)(Buf b := Some nb)\<rparr>"
      have "frame (footprint s) m ?m" using wf small by (intro frame_update) auto
      then have "str_step m s ?m \<lparr>str_buf = b, str_data = Ptr (Buf b) 0, str_size = Suc l, str_cap = 0\<rparr> (take l nb)"
        by (rule str_step_small [OF wf]) (use small c 1 in auto)
      with c 1 l l0 small(1) show ?thesis by (auto simp: string_resize_def)
    next
      case 2
      obtain nb where c: "store_bytes (m\<lparr>blocks := (blocks m)(Buf b := Some nb)\<rparr>) (Ptr (Buf b) l) [NUL] =
            Inr (m\<lparr>blocks := (blocks m)(Buf b := Some nb)\<rparr>)"
          "resize_fill s l m = Inr (m\<lparr>blocks := (blocks m)(Buf b := Some nb)\<rparr>)"
          "length nb = length sb" "terminated (Suc l) nb" "take l nb = resized l cs"
        unfolding small(1)
        by (rule resize_finish [OF small(3) _ 2(1) _ l small(6) small(2) [symmetric], of b 0])
           (use small 2 in auto)
      let ?m = "m\<lparr>blocks := (blocks m)(Buf b := Some nb)\<rparr>"
      have "frame (footprint s) m ?m" using wf small by (intro frame_update) auto
      then have "str_step m s ?m \<lparr>str_buf = b, str_data = Ptr (Buf b) 0, str_size = Suc l, str_cap = 0\<rparr> (take l nb)"
        by (rule str_step_small [OF wf]) (use small c 2 in auto)
      moreover have "string_resize s l m =
          Inr (True, \<lparr>str_buf = b, str_data = Ptr (Buf b) 0, str_size = Suc l, str_cap = 0\<rparr>, ?m)"
        using c(1,2) 2 l l0 unfolding small(1) by (simp add: string_resize_def use_sbuf_def)
      ultimately show ?thesis using c(5) by auto
    next
      case 3
      show ?thesis
      proof (cases "avail m (brk m)")
        case False
        have "string_resize s l m = Inr (False, s, m\<lparr>brk := Suc (brk m)\<rparr>)"
          using 3 l l0 cap False unfolding small(1)
          by (simp add: string_resize_def use_sbuf_def cpy_smbuf2data_fails)
        with str_step_brk [OF rep wf] False show ?thesis by auto
      next
        case av: True
        obtain nb m2 where c:
          "cpy_smbuf2data \<lparr>str_buf = b, str_data = Ptr (Buf b) 0, str_size = n, str_cap = 0\<rparr> cap m =
             Inr (True, \<lparr>str_buf = b, str_data = Ptr (Heap (brk m)) 0, str_size = n, str_cap = cap\<rparr>, m2)"
          "blocks m2 (Heap (brk m)) = Some nb" "length nb = cap" "take n nb = take n sb"
          "frame {} m m2" "brk m2 = Suc (brk m)"
          by (rule cpy_smbuf2data_ok [OF wf small(3-5), of cap]) (use 3 cap av in auto)
        have t0: "take (n - Suc 0) nb = cs" unfolding small(2) by (rule take_less_eq [OF c(4)]) simp
        obtain nb2 where d:
          "store_bytes (m2\<lparr>blocks := (blocks m2)(Heap (brk m) := Some nb2)\<rparr>) (Ptr (Heap (brk m)) l) [NUL] =
            Inr (m2\<lparr>blocks := (blocks m2)(Heap (brk m) := Some nb2)\<rparr>)"
          "resize_fill \<lparr>str_buf = b, str_data = Ptr (Heap (brk m)) 0, str_size = n, str_cap = cap\<rparr> l m2 =
            Inr (m2\<lparr>blocks := (blocks m2)(Heap (brk m) := Some nb2)\<rparr>)"
          "length nb2 = length nb" "terminated (Suc l) nb2" "take l nb2 = resized l cs"
          by (rule resize_finish [OF c(2) _ 3(2) _ l terminated_take [OF small(6) c(4)] t0, of b cap])
             (use cap c(3) in auto)
        let ?m = "m2\<lparr>blocks := (blocks m2)(Heap (brk m) := Some nb2)\<rparr>"
        have "frame (footprint s) m m2" using c(5) by (rule frame_mono) simp
        then have f: "frame (footprint s) m ?m" using wf c(2) by (intro frame_fresh_update) auto
        have "has_sbuf ?m b" using small has_sbuf_frame [OF _ c(5), of b] by (simp add: has_sbuf_def)
        then have "str_step m s ?m
            \<lparr>str_buf = b, str_data = Ptr (Heap (brk m)) 0, str_size = Suc l, str_cap = cap\<rparr> (take l nb2)"
          by (intro str_step_heap [OF wf f]) (use small(1) wf cap c(3) d in auto)
        moreover have "string_resize s l m =
          Inr (True, \<lparr>str_buf = b, str_data = Ptr (Heap (brk m)) 0, str_size = Suc l, str_cap = cap\<rparr>, ?m)"
          using c(1) d(1,2) 3 l l0 cap unfolding small(1) by (simp add: string_resize_def use_sbuf_def)
        ultimately show ?thesis using d(5) by auto
      qed
    qed
  next
    case (heap b k bs c0 n)
    consider "l < n" | "n \<le> l" "l < c0" | "c0 \<le> l" "n \<le> l" using heap(7) by linarith
    then show ?thesis
    proof cases
      case 1
      obtain nb where c: "store_bytes m (Ptr (Heap k) l) [NUL] = Inr (m\<lparr>blocks := (blocks m)(Heap k := Some nb)\<rparr>)"
          "length nb = length bs" "terminated (Suc l) nb" "take l nb = resized l cs"
        by (rule resize_cut [OF heap(4) _ 1 _ heap(2)]) (use heap in auto)
      let ?m = "m\<lparr>blocks := (blocks m)(Heap k := Some nb)\<rparr>"
      have f: "frame (footprint s) m ?m" using wf heap by (intro frame_update) auto
      have "has_sbuf ?m b" using heap(3) by (simp add: has_sbuf_def)
      then have "str_step m s ?m \<lparr>str_buf = b, str_data = Ptr (Heap k) 0, str_size = Suc l, str_cap = c0\<rparr> (take l nb)"
        by (intro str_step_heap [OF wf f]) (use heap c 1 in auto)
      with c 1 l l0 heap(1) show ?thesis by (auto simp: string_resize_def)
    next
      case 2
      obtain nb where c: "store_bytes (m\<lparr>blocks := (blocks m)(Heap k := Some nb)\<rparr>) (Ptr (Heap k) l) [NUL] =
            Inr (m\<lparr>blocks := (blocks m)(Heap k := Some nb)\<rparr>)"
          "resize_fill s l m = Inr (m\<lparr>blocks := (blocks m)(Heap k := Some nb)\<rparr>)"
          "length nb = length bs" "terminated (Suc l) nb" "take l nb = resized l cs"
        unfolding heap(1)
        by (rule resize_finish [OF heap(4) _ 2(1) _ l heap(8) heap(2) [symmetric], of b c0])
           (use heap 2 in auto)
      let ?m = "m\<lparr>blocks := (blocks m)(Heap k := Some nb)\<rparr>"
      have f: "frame (footprint s) m ?m" using wf heap by (intro frame_update) auto
      have "has_sbuf ?m b" using heap(3) by (simp add: has_sbuf_def)
      then have "str_step m s ?m \<lparr>str_buf = b, str_data = Ptr (Heap k) 0, str_size = Suc l, str_cap = c0\<rparr> (take l nb)"
        by (intro str_step_heap [OF wf f]) (use heap c 2 in auto)
      moreover have "string_resize s l m =
          Inr (True, \<lparr>str_buf = b, str_data = Ptr (Heap k) 0, str_size = Suc l, str_cap = c0\<rparr>, ?m)"
        using c(1,2) 2 l l0 unfolding heap(1) by (simp add: string_resize_def)
      ultimately show ?thesis using c(5) by auto
    next
      case 3
      show ?thesis
      proof (cases "avail m (brk m)")
        case False
        have "string_resize s l m = Inr (False, s, m\<lparr>brk := Suc (brk m)\<rparr>)"
          using 3 l l0 cap False heap(4) unfolding heap(1)
          by (simp add: string_resize_def use_sbuf_def realloc_heap_fails)
        with str_step_brk [OF rep wf] False show ?thesis by auto
      next
        case av: True
        obtain nb m2 where c:
          "realloc (Ptr (Heap k) 0) cap m = Inr (Ptr (Heap (brk m)) 0, m2)"
          "blocks m2 (Heap (brk m)) = Some nb" "length nb = cap"
          "\<And>n. n \<le> cap \<Longrightarrow> n \<le> length bs \<Longrightarrow> take n nb = take n bs"
          "frame {Heap k} m m2" "brk m2 = Suc (brk m)"
          by (rule realloc_heap_ok [OF wf heap(4) av]) auto
        have tk: "take n nb = take n bs" by (rule c(4)) (use 3 heap cap in auto)
        have t0: "take (n - Suc 0) nb = cs" unfolding heap(2) by (rule take_less_eq [OF tk]) simp
        obtain nb2 where d:
          "resize_fill \<lparr>str_buf = b, str_data = Ptr (Heap (brk m)) 0, str_size = n, str_cap = c0\<rparr> l m2 =
            Inr (m2\<lparr>blocks := (blocks m2)(Heap (brk m) := Some nb2)\<rparr>)"
          "length nb2 = length nb" "terminated (Suc l) nb2" "take l nb2 = resized l cs"
          by (rule resize_finish [OF c(2) _ 3(2) _ l terminated_take [OF heap(8) tk] t0, of b c0])
             (use cap c(3) in auto)
        let ?m = "m2\<lparr>blocks := (blocks m2)(Heap (brk m) := Some nb2)\<rparr>"
        have "frame (footprint s) m m2" using c(5) by (rule frame_mono) (simp add: heap(1))
        then have f: "frame (footprint s) m ?m" using wf c(2) by (intro frame_fresh_update) auto
        have "has_sbuf ?m b" using has_sbuf_frame [OF heap(3) c(5)] by (simp add: has_sbuf_def)
        then have "str_step m s ?m
            \<lparr>str_buf = b, str_data = Ptr (Heap (brk m)) 0, str_size = Suc l, str_cap = cap\<rparr> (take l nb2)"
          by (intro str_step_heap [OF wf f]) (use heap(1) wf cap c(3) d in auto)
        moreover have "string_resize s l m =
          Inr (True, \<lparr>str_buf = b, str_data = Ptr (Heap (brk m)) 0, str_size = Suc l, str_cap = cap\<rparr>, ?m)"
          using c(1) d(1) 3 l l0 cap unfolding heap(1) by (simp add: string_resize_def use_sbuf_def)
        ultimately show ?thesis using d(4) by auto
      qed
    qed
  qed (use nn in simp)
qed

section \<open>Assigning\<close>

text \<open>
  Assignment where the text fits the block the string has, or the string is still in its small
  buffer: the string then holds the bytes of the view.
\<close>

lemma string_assign_view_step:
  assumes rep: "str_rep m s cs" and wf: "wf_mem m" and v: "view_bytes m sv = Inr bs"
    and nn: "str_data s \<noteq> NULL" "sv_data sv \<noteq> NULL" and apart: "view_apart sv s"
    and len: "length bs < MAX_LEN" and fits: "str_data s = small_buf s \<or> length bs < str_cap s"
  shows "\<exists>ok s' m'. string_assign_view s sv m = Inr (ok, s', m') \<and>
     str_step m s m' s' (if ok then bs else cs) \<and> (ok \<or> \<not> avail m (brk m))"
proof -
  note svl = view_bytes_length [OF v]
  from next_capacity_Suc [OF len] obtain cap where
    cap: "next_capacity (Suc (length bs)) = Inr cap" "Suc (length bs) \<le> cap" by blast
  from rep show ?thesis
  proof cases
    case (small b sb n)
    have off: "view_off sv (Buf b)" using apart small(1) by (simp add: view_apart_def)
    have sbuf: "has_sbuf m b" using small by (simp add: has_sbuf_def)
    show ?thesis
    proof (cases "length bs < STR_SMALL_BUF_SIZE")
      case True
      from cpy_small [OF wf sbuf v True off, of n] obtain m' where
        c: "cpy_sv2str s sv 0 m =
            Inr (\<lparr>str_buf = b, str_data = Ptr (Buf b) 0, str_size = Suc (length bs), str_cap = 0\<rparr>, m')"
          "str_rep m' \<lparr>str_buf = b, str_data = Ptr (Buf b) 0, str_size = Suc (length bs), str_cap = 0\<rparr> bs"
          "frame {Buf b} m m'" unfolding small(1) by blast
      have "str_step m s m' \<lparr>str_buf = b, str_data = Ptr (Buf b) 0, str_size = Suc (length bs), str_cap = 0\<rparr> bs"
        using c(2,3) by (simp add: str_step_def small(1))
      with True c(1) nn cap len show ?thesis
        by (auto simp: string_assign_view_def sv_defs svl use_sbuf_def small(1))
    next
      case big: False
      show ?thesis
      proof (cases "avail m (brk m)")
        case False
        have "string_assign_view s sv m = Inr (False, s, m\<lparr>brk := Suc (brk m)\<rparr>)"
          using big nn cap len False
          by (simp add: string_assign_view_def sv_defs svl use_sbuf_def small(1) malloc_fails)
        with str_step_brk [OF rep wf] False show ?thesis by auto
      next
        case av: True
        let ?k = "brk m"
        let ?jk = "map (junk m ?k) [0..<cap]"
        let ?m2 = "m\<lparr>blocks := (blocks m)(Heap ?k := Some ?jk), brk := Suc ?k\<rparr>"
        have f2: "frame {} m ?m2" using wf by (intro frame_alloc) auto
        have v2: "view_bytes ?m2 sv = Inr bs" using f2 v by (rule frame_view) simp
        have off2: "view_off sv (Heap ?k)" using v wf by (intro view_off_fresh) auto
        have b2: "blocks ?m2 (Heap ?k) = Some ?jk" by simp
        have s2: "has_sbuf ?m2 b" using sbuf f2 by (rule has_sbuf_frame) simp
        from cpy_appends [OF v2 b2 s2, of "[]" cap n 0] off2 cap(2) len obtain nb' where
          c: "cpy_sv2str \<lparr>str_buf = b, str_data = Ptr (Heap ?k) 0, str_size = n, str_cap = 0\<rparr> sv 0 ?m2 =
              Inr (\<lparr>str_buf = b, str_data = Ptr (Heap ?k) 0, str_size = Suc (length bs), str_cap = 0\<rparr>,
                ?m2\<lparr>blocks := (blocks ?m2)(Heap ?k := Some nb')\<rparr>)"
            "str_rep (?m2\<lparr>blocks := (blocks ?m2)(Heap ?k := Some nb')\<rparr>)
              \<lparr>str_buf = b, str_data = Ptr (Heap ?k) 0, str_size = Suc (length bs), str_cap = cap\<rparr> bs"
          by auto
        let ?m3 = "?m2\<lparr>blocks := (blocks ?m2)(Heap ?k := Some nb')\<rparr>"
        let ?s = "\<lparr>str_buf = b, str_data = Ptr (Heap ?k) 0, str_size = Suc (length bs), str_cap = cap\<rparr>"
        have f3: "frame {} m ?m3" using f2 wf by (intro frame_fresh_update) auto
        let ?m4 = "?m3\<lparr>blocks := (blocks ?m3)(Buf b := Some (replicate 16 NUL @ drop (0 + length (replicate 16 NUL)) sb))\<rparr>"
        have b3: "blocks ?m3 (Buf b) = Some sb" using small(3) by simp
        have "store_bytes ?m3 (Ptr (Buf b) 0) (replicate 16 NUL) =
            Inr (?m3\<lparr>blocks := (blocks ?m3)(Buf b := Some (take 0 sb @ replicate 16 NUL @ drop (0 + length (replicate 16 NUL)) sb))\<rparr>)"
          using b3 by (rule store_bytes_obj) (use small(4) in simp_all)
        then have ms: "memset (Ptr (Buf b) 0) NUL STR_SMALL_BUF_SIZE ?m3 = Inr ?m4"
          by (simp add: memset_def)
        have "has_sbuf ?m4 b" using small(4) by (simp add: has_sbuf_def)
        moreover from c(2) obtain k' where "length nb' \<ge> cap" "0 < cap" "terminated (Suc (length bs)) nb'"
            "Suc (length bs) \<le> cap" "take (Suc (length bs) - Suc 0) nb' = bs"
          by cases auto
        ultimately have r4: "str_rep ?m4 ?s bs" using str_rep.heap [of ?m4 b ?k nb' cap "Suc (length bs)"] by auto
        have f34: "frame {Buf b} ?m3 ?m4" using frame_wf [OF f3] b3 by (intro frame_update) simp_all
        have "frame {Buf b} m ?m4" by (rule frame_trans [OF frame_mono [OF f3] f34]) simp_all
        then have "str_step m s ?m4 ?s bs" using r4 wf small(1) by (auto simp: str_step_def)
        moreover have "string_assign_view s sv m = Inr (True, ?s, ?m4)"
          using c(1) ms big nn cap len av
          by (simp add: string_assign_view_def sv_defs svl use_sbuf_def small(1) malloc_ok)
        ultimately show ?thesis by auto
      qed
    qed
  next
    case (heap b k bs0 c0 n)
    have off: "view_off sv (Heap k)" using apart heap(1) by (simp add: view_apart_def)
    have lc: "length bs < c0" using fits heap(1) by simp
    let ?nb = "bs @ NUL # drop (Suc (length bs)) bs0"
    let ?m = "m\<lparr>blocks := (blocks m)(Heap k := Some ?nb)\<rparr>"
    have c: "cpy_sv2str s sv 0 m = Inr (s\<lparr>str_size := Suc (length bs)\<rparr>, ?m)"
      using cpy_sv2str_obj [of m sv bs s "Heap k" bs0 0] v heap(1,4,6) lc len off by simp
    have "frame (footprint s) m ?m" using wf heap by (intro frame_update) auto
    moreover have "has_sbuf ?m b" using heap(3) by (simp add: has_sbuf_def)
    ultimately have "str_step m s ?m
        \<lparr>str_buf = b, str_data = Ptr (Heap k) 0, str_size = Suc (length bs), str_cap = c0\<rparr> (take (length bs) ?nb)"
      using wf heap lc by (intro str_step_heap) (auto simp: terminated_def nth_append)
    with c nn cap len lc show ?thesis
      by (auto simp: string_assign_view_def sv_defs svl use_sbuf_def heap(1))
  qed (use nn in simp)
qed

text \<open>
  Assignment of a text that needs a larger block: the block is reallocated, the size and the
  terminator are set, and the bytes of the view are never copied. The string goes on holding
  its old text, followed by what the allocator left in the block.
\<close>

lemma string_assign_view_realloc:
  assumes rep: "str_rep m s cs" and wf: "wf_mem m" and v: "view_bytes m sv = Inr bs"
    and h: "str_data s = Ptr (Heap k) 0" and nn: "sv_data sv \<noteq> NULL"
    and len: "length bs < MAX_LEN" and big: "str_cap s \<le> length bs" and av: "avail m (brk m)"
  shows "\<exists>s' m' rest. string_assign_view s sv m = Inr (True, s', m') \<and>
     str_step m s m' s' (cs @ rest) \<and> length (cs @ rest) = length bs"
proof -
  note svl = view_bytes_length [OF v]
  from next_capacity_Suc [OF len] obtain cap where
    cap: "next_capacity (Suc (length bs)) = Inr cap" "Suc (length bs) \<le> cap" by blast
  from rep h obtain b bs0 c0 n where
    heap: "s = \<lparr>str_buf = b, str_data = Ptr (Heap k) 0, str_size = n, str_cap = c0\<rparr>"
      "cs = take (n - Suc 0) bs0" "has_sbuf m b" "blocks m (Heap k) = Some bs0" "0 < c0"
      "c0 \<le> length bs0" "n \<le> c0" "terminated n bs0"
    by cases auto
  obtain nb m2 where c:
    "realloc (Ptr (Heap k) 0) cap m = Inr (Ptr (Heap (brk m)) 0, m2)"
    "blocks m2 (Heap (brk m)) = Some nb" "length nb = cap"
    "\<And>n. n \<le> cap \<Longrightarrow> n \<le> length bs0 \<Longrightarrow> take n nb = take n bs0"
    "frame {Heap k} m m2" "brk m2 = Suc (brk m)"
    by (rule realloc_heap_ok [OF wf heap(4) av]) auto
  let ?l = "length bs"
  let ?nb = "take ?l nb @ [NUL] @ drop (?l + length [NUL]) nb"
  let ?m = "m2\<lparr>blocks := (blocks m2)(Heap (brk m) := Some ?nb)\<rparr>"
  have st: "store_bytes m2 (Ptr (Heap (brk m)) ?l) [NUL] = Inr ?m"
    using c(2) by (rule store_bytes_obj) (use c(3) cap(2) in simp_all)
  have lc: "length cs \<le> ?l" using heap big by simp
  have le: "n - Suc 0 \<le> length bs0" using heap(6,7) by linarith
  then have lcs: "length cs = n - Suc 0" by (simp add: heap(2))
  have "n - Suc 0 \<le> cap" using heap(7) cap(2) big by (simp add: heap(1))
  then have tk: "take (length cs) nb = cs" unfolding lcs using c(4) le by (simp add: heap(2))
  have "frame (footprint s) m m2" using c(5) by (rule frame_mono) (simp add: heap(1))
  then have f: "frame (footprint s) m ?m" using wf c(2) by (intro frame_fresh_update) auto
  have "has_sbuf ?m b" using has_sbuf_frame [OF heap(3) c(5)] by (simp add: has_sbuf_def)
  then have "str_step m s ?m
      \<lparr>str_buf = b, str_data = Ptr (Heap (brk m)) 0, str_size = Suc ?l, str_cap = cap\<rparr> (take ?l ?nb)"
    by (intro str_step_heap [OF wf f])
      (use heap(1) wf cap c(3) in \<open>auto simp: terminated_def nth_append\<close>)
  moreover have "take ?l ?nb = cs @ drop (length cs) (take ?l nb)"
  proof -
    have "take ?l ?nb = take ?l nb" using c(3) cap(2) by simp
    also have "\<dots> = take (length cs) (take ?l nb) @ drop (length cs) (take ?l nb)"
      by (rule append_take_drop_id [symmetric])
    also have "take (length cs) (take ?l nb) = cs"
      using lc by (subst take_take) (simp only: min.absorb1 tk)
    finally show ?thesis .
  qed
  moreover have "length (cs @ drop (length cs) (take ?l nb)) = ?l" using lc c(3) cap(2) by simp
  moreover have "string_assign_view s sv m = Inr (True,
      \<lparr>str_buf = b, str_data = Ptr (Heap (brk m)) 0, str_size = Suc ?l, str_cap = cap\<rparr>, ?m)"
    using c(1) st cap nn len big by (simp add: string_assign_view_def sv_defs svl use_sbuf_def heap(1))
  ultimately show ?thesis by metis
qed

end
