(* ===== verification/StringOps.thy ===== *)
theory StringOps
  imports StringTSpec
begin

text \<open>
  Sequences of string operations. The first part states the contract of an appendable text
  buffer as a locale, proves once what a series of appends leaves behind when some of them
  fail, and interprets it on \<^verbatim>\<open>string_t\<close>. The second part runs arbitrary sequences of
  the public operations and shows that none of them faults. The last part is the conversion
  of numbers.
\<close>

section \<open>Appends that report nothing\<close>

text \<open>A series of appends whose results the caller ignores, as the response writer does.\<close>

fun append_all ::
  "('p \<Rightarrow> 's \<Rightarrow> 'm \<Rightarrow> (bool \<times> 's \<times> 'm) res) \<Rightarrow> 'p list \<Rightarrow> 's \<Rightarrow> 'm \<Rightarrow> ('s \<times> 'm) res" where
  "append_all app [] s m = Inr (s, m)"
| "append_all app (p # ps) s m = bnd (app p s m) (\<lambda>(_, s, m). append_all app ps s m)"

lemma append_all_append:
  "append_all app (ps @ qs) s m = bnd (append_all app ps s m) (\<lambda>(s, m). append_all app qs s m)"
  by (induction ps arbitrary: s m) (auto simp: bnd_def split: sum.split prod.split)

text \<open>What arrives when the appends with a false flag are lost.\<close>

fun kept :: "bool list \<Rightarrow> char list list \<Rightarrow> char list" where
  "kept (f # fs) (b # bs) = (if f then b @ kept fs bs else kept fs bs)"
| "kept _ _ = []"

lemma kept_all: "kept (replicate (length bs) True) bs = concat bs"
  by (induction bs) auto

lemma length_kept_le: "length (kept fs bs) \<le> length (concat bs)"
  by (induction fs bs rule: kept.induct) auto

text \<open>
  The contract: \<open>holds m s cs\<close> says that buffer \<open>s\<close> holds \<open>cs\<close>, \<open>shows m s p bs\<close> that
  piece \<open>p\<close> stands for the bytes \<open>bs\<close> and may be appended to \<open>s\<close>, and \<open>step\<close> is what an
  append may do to the memory.
\<close>

locale text_buffer =
  fixes app :: "'p \<Rightarrow> 's \<Rightarrow> 'm \<Rightarrow> (bool \<times> 's \<times> 'm) res"
    and holds :: "'m \<Rightarrow> 's \<Rightarrow> char list \<Rightarrow> bool"
    and shows_as :: "'m \<Rightarrow> 's \<Rightarrow> 'p \<Rightarrow> char list \<Rightarrow> bool"
    and step :: "'m \<Rightarrow> 's \<Rightarrow> 'm \<Rightarrow> 's \<Rightarrow> bool"
    and room :: nat
    and avail_all :: "'m \<Rightarrow> bool"
  assumes app_step: "holds m s cs \<Longrightarrow> shows_as m s p bs \<Longrightarrow> length cs + length bs < room \<Longrightarrow>
      \<exists>r ok s' m'. app p s m = Inr (r, s', m') \<and> step m s m' s' \<and>
        holds m' s' (if ok then cs @ bs else cs) \<and> (avail_all m \<longrightarrow> ok \<and> avail_all m')"
    and shows_stable: "step m s m' s' \<Longrightarrow> shows_as m s p bs \<Longrightarrow> shows_as m' s' p bs"
    and step_refl: "holds m s cs \<Longrightarrow> step m s m s"
    and step_trans: "step m s m' s' \<Longrightarrow> step m' s' m'' s'' \<Longrightarrow> step m s m'' s''"
begin

text \<open>A series of appends never faults; the buffer gains the pieces whose append succeeded.\<close>

lemma append_all_kept:
  assumes "holds m s cs" and "list_all2 (shows_as m s) ps bss"
    and "length cs + length (concat bss) < room"
  shows "\<exists>fs s' m'. append_all app ps s m = Inr (s', m') \<and> step m s m' s' \<and>
     length fs = length bss \<and> holds m' s' (cs @ kept fs bss) \<and>
     (avail_all m \<longrightarrow> fs = replicate (length bss) True \<and> avail_all m')"
  using assms
proof (induction ps arbitrary: s m cs bss)
  case Nil
  then show ?case by (auto intro: step_refl)
next
  case (Cons p ps)
  then obtain b bs where b: "bss = b # bs" "shows_as m s p b" "list_all2 (shows_as m s) ps bs"
    by (auto simp: list_all2_Cons1)
  have "length cs + length b < room" using Cons.prems(3) b by simp
  with app_step [OF Cons.prems(1) b(2)] obtain r ok s1 m1 where
    a: "app p s m = Inr (r, s1, m1)" "step m s m1 s1" "holds m1 s1 (if ok then cs @ b else cs)"
      "avail_all m \<longrightarrow> ok \<and> avail_all m1" by blast
  have "list_all2 (shows_as m1 s1) ps bs"
    using b(3) a(2) by (auto simp: list_all2_conv_all_nth intro: shows_stable)
  moreover have "length (if ok then cs @ b else cs) + length (concat bs) < room"
    using Cons.prems(3) b by simp
  ultimately obtain fs s' m' where
    r: "append_all app ps s1 m1 = Inr (s', m')" "step m1 s1 m' s'" "length fs = length bs"
      "holds m' s' ((if ok then cs @ b else cs) @ kept fs bs)"
      "avail_all m1 \<longrightarrow> fs = replicate (length bs) True \<and> avail_all m'"
    using Cons.IH [OF a(3)] by blast
  have "step m s m' s'" using a(2) r(2) by (rule step_trans)
  with a r b show ?case
    by (intro exI [of _ "ok # fs"] exI [of _ s'] exI [of _ m']) (cases ok; auto)
qed

corollary append_all_complete:
  assumes "holds m s cs" and "list_all2 (shows_as m s) ps bss"
    and "length cs + length (concat bss) < room" and "avail_all m"
  shows "\<exists>s' m'. append_all app ps s m = Inr (s', m') \<and> step m s m' s' \<and>
     holds m' s' (cs @ concat bss)"
  using append_all_kept [OF assms(1-3)] assms(4) by (auto simp: kept_all)

end

text \<open>
  The pieces the code appends: a view, a C string literal, a single character, and a C string
  in a buffer.
\<close>

datatype piece = P_view string_view_t | P_cstr string | P_char char | P_at ptr

fun append_piece :: "piece \<Rightarrow> string_t \<Rightarrow> mem \<Rightarrow> (bool \<times> string_t \<times> mem) res" where
  "append_piece (P_view sv) s m = string_append_view s sv m"
| "append_piece (P_cstr t) s m = string_append_cstr s (lit t) m"
| "append_piece (P_char c) s m = string_push_back s c m"
| "append_piece (P_at p) s m = string_append_cstr s p m"

definition str_holds :: "mem \<Rightarrow> string_t \<Rightarrow> char list \<Rightarrow> bool" where
  "str_holds m s cs \<longleftrightarrow> str_rep m s cs \<and> wf_mem m"

definition str_frame :: "mem \<Rightarrow> string_t \<Rightarrow> mem \<Rightarrow> string_t \<Rightarrow> bool" where
  "str_frame m s m' s' \<longleftrightarrow> (\<exists>cs. str_step m s m' s' cs)"

fun piece_shows :: "mem \<Rightarrow> string_t \<Rightarrow> piece \<Rightarrow> char list \<Rightarrow> bool" where
  "piece_shows m s (P_view sv) bs \<longleftrightarrow> view_bytes m sv = Inr bs \<and> view_apart sv s"
| "piece_shows m s (P_cstr t) bs \<longleftrightarrow> bs = t \<and> NUL \<notin> set t"
| "piece_shows m s (P_char c) bs \<longleftrightarrow> bs = [c]"
| "piece_shows m s (P_at p) bs \<longleftrightarrow>
     (\<exists>b i bl. p = Ptr b i \<and> block m b = Some bl \<and> i \<le> length bl \<and> NUL \<in> set (drop i bl) \<and>
        bs = cstr (drop i bl) \<and> b \<notin> footprint s)"

definition always_avail :: "mem \<Rightarrow> bool" where
  "always_avail m \<longleftrightarrow> (\<forall>k \<ge> brk m. avail m k)"

lemma always_avail_frame: "always_avail m \<Longrightarrow> frame B m m' \<Longrightarrow> always_avail m'"
  by (auto simp: always_avail_def frame_def)

lemma string_append_cstr_step:
  assumes "str_rep m s cs" and "wf_mem m" and "NUL \<notin> set t" and "length cs + length t < MAX_LEN"
  shows "\<exists>ok s' m'. string_append_cstr s (lit t) m = Inr (ok, s', m') \<and> ok = avail m (brk m) \<and>
           str_step m s m' s' (if ok then cs @ t else cs)"
  using string_append_view_step [OF assms(1,2) view_bytes_lit view_apart_lit [OF assms(1)] assms(4)]
    assms(3)
  by (simp add: string_append_cstr_def string_view_from_cstr_lit)

text \<open>
  \<^verbatim>\<open>string_push_back\<close> always answers \<^verbatim>\<open>true\<close>; the character is lost when the
  allocation fails.
\<close>

lemma string_push_back_step:
  assumes rep: "str_rep m s cs" and wf: "wf_mem m" and len: "Suc (length cs) < MAX_LEN"
  shows "\<exists>s' m'. string_push_back s c m = Inr (True, s', m') \<and>
     str_step m s m' s' (if avail m (Suc (brk m)) then cs @ [c] else cs)"
proof -
  let ?k = "brk m"
  let ?m1 = "m\<lparr>blocks := (blocks m)(Buf ?k := Some [c]), brk := Suc ?k\<rparr>"
  let ?v = "\<lparr>sv_data = Ptr (Buf ?k) 0, sv_len = 1\<rparr>"
  have f1: "frame {} m ?m1" using wf by (intro frame_alloc) auto
  have s1: "str_rep ?m1 s cs" using rep f1 by (rule str_rep_frame) simp
  have nb: "new_buf 1 m = (?k, m\<lparr>blocks := (blocks m)(Buf ?k := Some [NUL]), brk := Suc ?k\<rparr>)"
    by (simp add: new_buf_def)
  have st: "store_bytes (m\<lparr>blocks := (blocks m)(Buf ?k := Some [NUL]), brk := Suc ?k\<rparr>)
      (Ptr (Buf ?k) 0) [c] = Inr ?m1"
    by (simp add: store_bytes_def)
  have v1: "view_bytes ?m1 ?v = Inr [c]" by (simp add: view_bytes_def load_bytes_def)
  have nf: "Buf ?k \<notin> footprint s" using str_rep_footprint_used [OF rep, of "Buf ?k"] wf by auto
  then have ap: "view_apart ?v s" by (auto simp: view_apart_def view_off_def)
  obtain ok s' m2 where a: "string_append_view s ?v ?m1 = Inr (ok, s', m2)" "ok = avail ?m1 (brk ?m1)"
      "str_step ?m1 s m2 s' (if ok then cs @ [c] else cs)"
    using string_append_view_step [OF s1 frame_wf [OF f1] v1 ap] len by auto
  have "str_step m s ?m1 s cs" using s1 f1 by (auto simp: str_step_def intro: frame_mono)
  then have st2: "str_step m s m2 s' (if ok then cs @ [c] else cs)" using a(3) by (rule str_step_trans)
  have nf': "Buf ?k \<notin> footprint s'"
  proof
    assume b: "Buf ?k \<in> footprint s'"
    have "Buf ?k \<in> footprint s \<or> blocks ?m1 (Buf ?k) = None"
      using a(3) b by (rule str_step_footprint)
    with nf show False by simp
  qed
  have f2: "frame {Buf ?k} m2 (drop_buf ?k m2)"
    using str_stepD(4) [OF a(3)] by (auto simp: frame_def drop_buf_def wf_mem_def)
  have "str_rep (drop_buf ?k m2) s' (if ok then cs @ [c] else cs)"
    using str_stepD(1) [OF a(3)] f2 by (rule str_rep_frame) (use nf' in simp)
  moreover have "frame (footprint s) m (drop_buf ?k m2)"
    using str_stepD(3) [OF st2] f2 by (rule frame_trans) (use wf in auto)
  ultimately have "str_step m s (drop_buf ?k m2) s' (if ok then cs @ [c] else cs)"
    using st2 by (auto simp: str_step_def)
  with a nb st show ?thesis
    by (simp add: string_push_back_def string_view_from_parts_def)
qed

lemma view_apart_step:
  assumes "str_step m s m' s' cs" and "view_bytes m sv = Inr bs" and "view_apart sv s"
  shows "view_bytes m' sv = Inr bs \<and> view_apart sv s'"
proof
  show "view_bytes m' sv = Inr bs"
    using str_stepD(3) [OF assms(1)] assms(2) by (rule frame_view) (use assms(3) in \<open>simp add: view_apart_def\<close>)
  show "view_apart sv s'"
    unfolding view_apart_def
  proof
    fix b assume "b \<in> footprint s'"
    with assms(1) have "b \<in> footprint s \<or> blocks m b = None" by (auto simp: str_step_def)
    moreover have "\<not> is_lit b"
      using \<open>b \<in> footprint s'\<close> str_stepD(1) [OF assms(1)] by (auto elim!: str_rep.cases)
    ultimately show "view_off sv b"
      using assms(2,3) by (auto simp: view_apart_def intro: view_off_fresh)
  qed
qed

lemma string_append_at_step:
  assumes rep: "str_rep m s cs" and wf: "wf_mem m" and p: "piece_shows m s (P_at p) bs"
    and len: "length cs + length bs < MAX_LEN"
  shows "\<exists>ok s' m'. string_append_cstr s p m = Inr (ok, s', m') \<and> ok = avail m (brk m) \<and>
           str_step m s m' s' (if ok then cs @ bs else cs)"
proof -
  from p obtain b i bl where b: "p = Ptr b i" "block m b = Some bl" "i \<le> length bl" "NUL \<in> set (drop i bl)"
      "bs = cstr (drop i bl)" "b \<notin> footprint s" by auto
  from view_from_cstr_bytes [OF b(2-4)] obtain sv where
    sv: "string_view_from_cstr m (Ptr b i) = Inr sv" "view_bytes m sv = Inr (cstr (drop i bl))" by blast
  have "sv_data sv = Ptr b i"
    using sv(1) by (auto simp: string_view_from_cstr_def string_view_from_parts_def bnd_eq_Inr_iff)
  then have "view_apart sv s" using b(6) by (auto simp: view_apart_def view_off_def)
  from string_append_view_step [OF rep wf sv(2) this] len b(5) obtain ok s' m' where
    "string_append_view s sv m = Inr (ok, s', m')" "ok = avail m (brk m)"
    "str_step m s m' s' (if ok then cs @ bs else cs)" by auto
  then show ?thesis using sv(1) b(1)
    by (intro exI [of _ ok] exI [of _ s'] exI [of _ m']) (simp add: string_append_cstr_def)
qed

lemma piece_at_step:
  assumes st: "str_step m s m' s' cs" and p: "piece_shows m s (P_at p) bs"
  shows "piece_shows m' s' (P_at p) bs"
proof -
  from p obtain b i bl where b: "p = Ptr b i" "block m b = Some bl" "i \<le> length bl" "NUL \<in> set (drop i bl)"
      "bs = cstr (drop i bl)" "b \<notin> footprint s" by auto
  have "block m' b = Some bl" using str_stepD(3) [OF st] b(6,2) by (rule frame_block)
  moreover have "b \<notin> footprint s'"
  proof
    assume f: "b \<in> footprint s'"
    then have "\<not> is_lit b" using str_stepD(1) [OF st] by (auto elim!: str_rep.cases)
    then have "blocks m b \<noteq> None" using b(2) by (cases b) auto
    with str_step_footprint [OF st f] b(6) show False by simp
  qed
  ultimately show ?thesis using b by auto
qed

interpretation sb: text_buffer append_piece str_holds piece_shows str_frame MAX_LEN always_avail
proof
  fix m s cs p bs
  assume h: "str_holds m s cs" and p: "piece_shows m s p bs" and l: "length cs + length bs < MAX_LEN"
  have av: "always_avail m \<longrightarrow> avail m (brk m) \<and> avail m (Suc (brk m))"
    by (simp add: always_avail_def)
  have "\<exists>r ok s' m'. append_piece p s m = Inr (r, s', m') \<and>
      str_step m s m' s' (if ok then cs @ bs else cs) \<and> (always_avail m \<longrightarrow> ok)"
  proof (cases p)
    case (P_view sv)
    have "str_rep m s cs" "wf_mem m" "view_bytes m sv = Inr bs" "view_apart sv s"
      using h p P_view by (simp_all add: str_holds_def)
    with string_append_view_step [of m s cs sv bs] l obtain ok s' m' where
      "string_append_view s sv m = Inr (ok, s', m')" "ok = avail m (brk m)"
      "str_step m s m' s' (if ok then cs @ bs else cs)" by blast
    with av P_view show ?thesis
      by (intro exI [of _ ok] exI [of _ s'] exI [of _ m'] conjI) simp_all
  next
    case (P_cstr t)
    have "str_rep m s cs" "wf_mem m" "NUL \<notin> set t" "bs = t"
      using h p P_cstr by (simp_all add: str_holds_def)
    with string_append_cstr_step [of m s cs t] l obtain ok s' m' where
      "string_append_cstr s (lit t) m = Inr (ok, s', m')" "ok = avail m (brk m)"
      "str_step m s m' s' (if ok then cs @ bs else cs)" by blast
    with av P_cstr show ?thesis
      by (intro exI [of _ ok] exI [of _ s'] exI [of _ m'] conjI) simp_all
  next
    case (P_char c)
    have "str_rep m s cs" "wf_mem m" "bs = [c]"
      using h p P_char by (simp_all add: str_holds_def)
    with string_push_back_step [of m s cs c] l obtain s' m' where
      "string_push_back s c m = Inr (True, s', m')"
      "str_step m s m' s' (if avail m (Suc (brk m)) then cs @ bs else cs)" by auto
    with av P_char show ?thesis
      by (intro exI [of _ True] exI [of _ "avail m (Suc (brk m))"] exI [of _ s'] exI [of _ m'] conjI) simp_all
  next
    case (P_at q)
    have "str_rep m s cs" "wf_mem m" "piece_shows m s (P_at q) bs"
      using h p P_at by (simp_all add: str_holds_def)
    with string_append_at_step [of m s cs q bs] l obtain ok s' m' where
      "string_append_cstr s q m = Inr (ok, s', m')" "ok = avail m (brk m)"
      "str_step m s m' s' (if ok then cs @ bs else cs)" by blast
    with av P_at show ?thesis
      by (intro exI [of _ ok] exI [of _ s'] exI [of _ m'] conjI) simp_all
  qed
  then show "\<exists>r ok s' m'. append_piece p s m = Inr (r, s', m') \<and> str_frame m s m' s' \<and>
      str_holds m' s' (if ok then cs @ bs else cs) \<and> (always_avail m \<longrightarrow> ok \<and> always_avail m')"
    unfolding str_frame_def str_holds_def by (meson always_avail_frame str_stepD)
next
  fix m s m' s' p bs
  assume "str_frame m s m' s'" and "piece_shows m s p bs"
  then show "piece_shows m' s' p bs"
    by (cases p) (use piece_at_step in \<open>fastforce simp: str_frame_def simp del: piece_shows.simps(4)
        dest: view_apart_step\<close>)+
next
  fix m s cs assume "str_holds m s cs"
  then show "str_frame m s m s" by (auto simp: str_holds_def str_frame_def intro: str_step_refl)
next
  fix m s m' s' m'' s''
  assume "str_frame m s m' s'" and "str_frame m' s' m'' s''"
  then show "str_frame m s m'' s''" unfolding str_frame_def by (meson str_step_trans)
qed

end
