(* ===== verification/Decimal.thy ===== *)
theory Decimal
  imports StringTSpec
begin

text \<open>
  Decimal numbers: \<^verbatim>\<open>int_to_string_t\<close> counts the digits it needs, prints into an array
  of that size and makes a string of it. The count is right, so the text is never cut.
\<close>

lemma dec_nat_nonempty [simp]: "dec_nat n \<noteq> []"
  by (subst dec_nat.simps) simp

lemma digits_loop_length: "digits_loop n b = (if n = 0 then b else b + length (dec_nat n))"
proof (induction n b rule: digits_loop.induct)
  case (1 n b)
  show ?case
  proof (cases "n < 10")
    case True
    then show ?thesis
      by (auto simp: digits_loop.simps [of n] digits_loop.simps [of 0] dec_nat.simps [of n])
  next
    case False
    with 1 show ?thesis by (simp add: digits_loop.simps [of n] dec_nat.simps [of n])
  qed
qed

lemma dec_nat_length: "n < 10 ^ k \<Longrightarrow> 0 < k \<Longrightarrow> length (dec_nat n) \<le> k"
proof (induction n arbitrary: k rule: dec_nat.induct)
  case (1 n)
  show ?case
  proof (cases "n < 10")
    case True
    with 1 show ?thesis by (simp add: dec_nat.simps [of n])
  next
    case False
    obtain j where j: "k = Suc j" using 1(3) by (cases k) auto
    have "0 < j" using 1(2) False j by (cases j) auto
    have "n div 10 < 10 ^ j" using 1(2) by (simp add: j less_mult_imp_div_less mult.commute)
    from "1.IH" [OF False this \<open>0 < j\<close>] False show ?thesis by (simp add: dec_nat.simps [of n] j)
  qed
qed

text \<open>Every character of the text is a digit.\<close>

lemma digit_char_code: "k < 10 \<Longrightarrow> (of_char (digit_char k) :: nat) = 48 + k"
  by (simp add: digit_char_def)

lemma dec_nat_digits: "c \<in> set (dec_nat n) \<Longrightarrow> 48 \<le> (of_char c :: nat) \<and> (of_char c :: nat) \<le> 57"
proof (induction n rule: dec_nat.induct)
  case (1 n)
  show ?case
  proof (cases "n < 10")
    case True
    with 1 show ?thesis by (simp add: dec_nat.simps [of n] digit_char_code)
  next
    case False
    from 1(2) False have "c \<in> set (dec_nat (n div 10)) \<or> c = digit_char (n mod 10)"
      by (auto simp: dec_nat.simps [of n])
    with 1 False show ?thesis by (auto simp: digit_char_code)
  qed
qed

lemma dec_nat_no_NUL [simp]: "NUL \<notin> set (dec_nat n)"
proof
  assume "NUL \<in> set (dec_nat n)"
  from dec_nat_digits [OF this] show False by simp
qed

lemma dec_int_no_NUL [simp]: "NUL \<notin> set (dec_int d)"
  by (simp add: dec_int_def)

section \<open>int_to_string_t\<close>

definition is_int32 :: "int \<Rightarrow> bool" where
  "is_int32 d \<longleftrightarrow> - 2147483648 \<le> d \<and> d < 2147483648"

lemma dec_int_length: "is_int32 d \<Longrightarrow> length (dec_int d) \<le> 11"
proof -
  assume "is_int32 d"
  then have "nat d < 10 ^ 10" "nat (- d) < 10 ^ 10" by (auto simp: is_int32_def)
  then have "length (dec_nat (nat d)) \<le> 10" "length (dec_nat (nat (- d))) \<le> 10"
    by (auto intro: dec_nat_length)
  then show ?thesis by (simp add: dec_int_def)
qed

lemma int_to_string_len:
  assumes "d \<noteq> 0"
  shows "(let num = nat (if d < 0 then - d else d); buf_len = digits_loop num 1
          in if d < 0 then buf_len + 1 else buf_len) = Suc (length (dec_int d))"
  using assms by (simp add: digits_loop_length dec_int_def Let_def)

text \<open>
  The text fits the small buffer, so the conversion cannot fail; the frame is the string alone.
\<close>

lemma int_to_string_t_ok:
  assumes wf: "wf_mem m" and sb: "has_sbuf m (str_buf s)" and d: "is_int32 d" "d \<noteq> INT_MIN"
  shows "\<exists>s' m'. int_to_string_t s d m = Inr (True, s', m') \<and> str_rep m' s' (dec_int d) \<and>
     str_buf s' = str_buf s \<and> frame {Buf (str_buf s)} m m'"
proof (cases "d = 0")
  case True
  have z: "dec_int d = ''0''" using True by (simp add: dec_int_def dec_nat.simps [of 0] digit_char_def) code_simp
  have "\<exists>s' m'. string_init_from_string_view s \<lparr>sv_data = lit ''0'', sv_len = length ''0''\<rparr> m = Inr (True, s', m') \<and>
      str_rep m' s' ''0'' \<and> str_buf s' = str_buf s \<and>
      footprint s' \<subseteq> {Buf (str_buf s), Heap (brk m)} \<and> frame {Buf (str_buf s)} m m' \<and> brk m' \<le> Suc (brk m)"
    using wf sb view_bytes_lit [of m "''0''"] by (intro string_init_from_string_view_ok) simp_all
  with True z show ?thesis
    by (auto simp: int_to_string_t_def string_init_from_cstr_def string_view_from_cstr_lit)
next
  case False
  let ?t = "dec_int d" and ?k = "brk m"
  let ?n = "Suc (length ?t)"
  let ?m1 = "m\<lparr>blocks := (blocks m)(Buf ?k := Some (?t @ [NUL])), brk := Suc ?k\<rparr>"
  have nb: "new_buf ?n m = (?k, m\<lparr>blocks := (blocks m)(Buf ?k := Some (replicate ?n NUL)), brk := Suc ?k\<rparr>)"
    by (simp add: new_buf_def)
  have sn: "c_snprintf (Ptr (Buf ?k) 0) ?n ?t
      (m\<lparr>blocks := (blocks m)(Buf ?k := Some (replicate ?n NUL)), brk := Suc ?k\<rparr>) = Inr ?m1"
    by (simp add: c_snprintf_def store_bytes_def)
  have f1: "frame {} m ?m1" using wf by (intro frame_alloc) auto
  have sb1: "has_sbuf ?m1 (str_buf s)" using sb f1 by (rule has_sbuf_frame) simp
  have fresh: "blocks m (Buf ?k) = None" using wf by simp
  then have ne: "str_buf s \<noteq> ?k" using sb by (auto simp: has_sbuf_def)
  have "\<exists>sv. string_view_from_cstr ?m1 (Ptr (Buf ?k) 0) = Inr sv \<and>
      view_bytes ?m1 sv = Inr (cstr (drop 0 (?t @ [NUL])))"
    by (rule view_from_cstr_bytes) simp_all
  then obtain sv where sv: "string_view_from_cstr ?m1 (Ptr (Buf ?k) 0) = Inr sv" "view_bytes ?m1 sv = Inr ?t"
    by (auto simp: cstr_append_NUL)
  have dsv: "sv_data sv = Ptr (Buf ?k) 0"
    using sv(1) by (auto simp: string_view_from_cstr_def bnd_eq_Inr_iff string_view_from_parts_def)
  have off: "view_off sv (Buf (str_buf s))" using dsv ne by (simp add: view_off_def)
  have small: "length ?t < STR_SMALL_BUF_SIZE" using dec_int_length [OF d(1)] by simp
  have "\<exists>s' m'. string_init_from_string_view s sv ?m1 = Inr (True, s', m') \<and> str_rep m' s' ?t \<and>
      str_buf s' = str_buf s \<and> footprint s' \<subseteq> {Buf (str_buf s), Heap (brk ?m1)} \<and>
      frame {Buf (str_buf s)} ?m1 m' \<and> brk m' \<le> Suc (brk ?m1)"
    using frame_wf [OF f1] sb1 sv(2) off small by (intro string_init_from_string_view_ok) auto
  then obtain s' m2 where i: "string_init_from_string_view s sv ?m1 = Inr (True, s', m2)"
      "str_rep m2 s' ?t" "str_buf s' = str_buf s"
      "footprint s' \<subseteq> {Buf (str_buf s), Heap (Suc ?k)}" "frame {Buf (str_buf s)} ?m1 m2"
    by auto
  have f2: "frame {Buf ?k} m2 (drop_buf ?k m2)"
    using frame_wf [OF i(5)] by (auto simp: frame_def drop_buf_def wf_mem_def)
  have "{Buf ?k} \<inter> footprint s' = {}" using i(4) ne by auto
  with i(2) f2 have r: "str_rep (drop_buf ?k m2) s' ?t" by (rule str_rep_frame)
  have "frame {Buf (str_buf s)} m ?m1" using f1 by (rule frame_mono) simp
  then have "frame {Buf (str_buf s)} m m2" using i(5) by (rule frame_trans) simp
  then have "frame {Buf (str_buf s)} m (drop_buf ?k m2)" using f2 by (rule frame_trans) (use fresh in auto)
  moreover have "int_to_string_t s d m = Inr (True, s', drop_buf ?k m2)"
    using False d(2) nb sn sv(1) i(1) int_to_string_len [OF False]
    by (simp add: int_to_string_t_def string_init_from_cstr_def Let_def)
  ultimately show ?thesis using r i(3) by auto
qed

lemma int_to_string_t_INT_MIN: "int_to_string_t s INT_MIN m = Inl Signed_overflow"
  by (simp add: int_to_string_t_def INT_MIN_def)

end
