(* ===== verification/StringProps.thy ===== *)
theory StringProps
  imports StringOps Decimal
begin

text \<open>
  What the string module promises, and where the code breaks the promise: the properties of
  \<^verbatim>\<open>util/string_t.c\<close>, each with an example on a small concrete memory.
\<close>

section \<open>Small memories for examples\<close>

definition empty_mem :: mem where
  "empty_mem = \<lparr>blocks = (\<lambda>_. None), brk = 0, avail = (\<lambda>_. True), junk = (\<lambda>_ _. NUL), ndebug = False\<rparr>"

lemma empty_mem_simps [simp]:
  "wf_mem empty_mem" "always_avail empty_mem" "\<not> ndebug empty_mem" "avail empty_mem k" "brk empty_mem = 0"
  by (simp_all add: empty_mem_def wf_mem_def always_avail_def)

text \<open>A string fresh from \<^verbatim>\<open>string_init\<close>, and one whose text \<open>cs\<close> is on the heap.\<close>

definition small_mem :: mem where
  "small_mem = empty_mem\<lparr>blocks := [Buf 0 \<mapsto> replicate 16 NUL], brk := 1\<rparr>"

definition small_string :: string_t where
  "small_string = \<lparr>str_buf = 0, str_data = Ptr (Buf 0) 0, str_size = 0, str_cap = 0\<rparr>"

definition heap_mem :: "char list \<Rightarrow> mem" where
  "heap_mem cs = empty_mem\<lparr>blocks := [Buf 0 \<mapsto> replicate 16 NUL, Heap 1 \<mapsto> cs @ [NUL]], brk := 2\<rparr>"

definition heap_string :: "char list \<Rightarrow> string_t" where
  "heap_string cs = \<lparr>str_buf = 0, str_data = Ptr (Heap 1) 0, str_size = Suc (length cs), str_cap = Suc (length cs)\<rparr>"

lemma small_string_rep: "str_rep small_mem small_string []"
  using str_rep.small [of small_mem 0 "replicate 16 NUL" 0]
  by (simp add: small_mem_def small_string_def terminated_def)

lemma heap_string_rep: "str_rep (heap_mem cs) (heap_string cs) cs"
  using str_rep.heap [of "heap_mem cs" 0 1 "cs @ [NUL]" "Suc (length cs)" "Suc (length cs)"]
  by (simp add: heap_mem_def heap_string_def terminated_def has_sbuf_def)

lemma example_mem_simps [simp]:
  "wf_mem small_mem" "always_avail small_mem" "avail small_mem k" "wf_mem (heap_mem cs)"
  "always_avail (heap_mem cs)" "avail (heap_mem cs) k"
  "str_data small_string = Ptr (Buf 0) 0" "str_data (heap_string cs) = Ptr (Heap 1) 0"
  "str_cap (heap_string cs) = Suc (length cs)"
  by (auto simp: small_mem_def heap_mem_def small_string_def heap_string_def wf_mem_def
      empty_mem_def always_avail_def)

section \<open>Sequences of operations\<close>

datatype string_op =
  Op_append "char list" | Op_push char | Op_clear | Op_resize nat | Op_reserve nat

text \<open>A call of the module; the caller drops the flag it returns.\<close>

definition drop_flag :: "(bool \<times> string_t \<times> mem) res \<Rightarrow> (string_t \<times> mem) res" where
  "drop_flag r = bnd r (\<lambda>(_, s, m). Inr (s, m))"

fun string_do :: "string_op \<Rightarrow> string_t \<Rightarrow> mem \<Rightarrow> (string_t \<times> mem) res" where
  "string_do (Op_append bs) s m = drop_flag (string_append_view s \<lparr>sv_data = lit bs, sv_len = length bs\<rparr> m)"
| "string_do (Op_push c) s m = drop_flag (string_push_back s c m)"
| "string_do Op_clear s m = string_clear s m"
| "string_do (Op_resize n) s m = drop_flag (string_resize s n m)"
| "string_do (Op_reserve n) s m = drop_flag (string_reserve s n m)"

fun string_do_all :: "string_op list \<Rightarrow> string_t \<Rightarrow> mem \<Rightarrow> (string_t \<times> mem) res" where
  "string_do_all [] s m = Inr (s, m)"
| "string_do_all (p # ps) s m = bnd (string_do p s m) (\<lambda>(s, m). string_do_all ps s m)"

text \<open>The abstract string: a list of bytes.\<close>

fun abs_op :: "string_op \<Rightarrow> char list \<Rightarrow> char list" where
  "abs_op (Op_append bs) cs = cs @ bs"
| "abs_op (Op_push c) cs = cs @ [c]"
| "abs_op Op_clear cs = []"
| "abs_op (Op_resize n) cs = resized n cs"
| "abs_op (Op_reserve n) cs = cs"

text \<open>The sizes stay below the limit of the capacity computation.\<close>

fun ops_fit :: "string_op list \<Rightarrow> char list \<Rightarrow> bool" where
  "ops_fit [] cs \<longleftrightarrow> True"
| "ops_fit (p # ps) cs \<longleftrightarrow>
     length (abs_op p cs) < MAX_LEN \<and> (case p of Op_reserve n \<Rightarrow> n \<le> MAX_LEN | _ \<Rightarrow> True) \<and>
     ops_fit ps (abs_op p cs)"

lemma string_do_step:
  assumes rep: "str_rep m s cs" and wf: "wf_mem m" and nn: "str_data s \<noteq> NULL" and av: "always_avail m"
    and fit: "ops_fit [p] cs"
  shows "\<exists>s' m'. string_do p s m = Inr (s', m') \<and> str_step m s m' s' (abs_op p cs)"
proof -
  have a: "avail m (brk m)" "avail m (Suc (brk m))" using av by (simp_all add: always_avail_def)
  show ?thesis
  proof (cases p)
    case (Op_append bs)
    with string_append_view_step [OF rep wf view_bytes_lit view_apart_lit [OF rep], of bs] fit a
    show ?thesis by (auto simp: drop_flag_def)
  next
    case (Op_push c)
    with string_push_back_step [OF rep wf, of c] fit a show ?thesis by (auto simp: drop_flag_def)
  next
    case Op_clear
    with string_clear_step [OF rep wf] show ?thesis by auto
  next
    case (Op_resize n)
    with string_resize_step [OF rep wf nn, of n] fit a show ?thesis by (fastforce simp: drop_flag_def)
  next
    case (Op_reserve n)
    with string_reserve_step [OF rep wf nn, of n] fit show ?thesis by (fastforce simp: drop_flag_def)
  qed
qed



section \<open>Capacities\<close>

text \<open>
  C28: The capacity chosen for a size is the least power of two that is large enough, up to
  2 to the 30; above that the computation shifts a 32 bit one out of its range.
\<close>

theorem next_capacity_spec:
  assumes "0 < n" and "n < SIZE_MOD"
  shows "if n \<le> MAX_LEN then \<exists>k. next_capacity n = Inr (2 ^ k) \<and> n \<le> 2 ^ k \<and> 2 ^ k < 2 * n
     else (\<exists>k. n = 2 ^ k) \<or> next_capacity n = Inl Shift_overflow"
proof (cases "n \<le> MAX_LEN")
  case True
  with next_capacity_least [OF assms(1)] show ?thesis by (metis (full_types))
next
  case False
  with next_capacity_overflows [of n] assms(2) show ?thesis by auto
qed

lemma next_capacity_spec_witness:
  "if (17::nat) \<le> MAX_LEN then \<exists>k. next_capacity 17 = Inr (2 ^ k) \<and> 17 \<le> (2::nat) ^ k \<and> (2::nat) ^ k < 2 * 17
     else (\<exists>k. (17::nat) = 2 ^ k) \<or> next_capacity 17 = Inl Shift_overflow"
  by (rule next_capacity_spec) simp_all

section \<open>Assigning\<close>

text \<open>
  A view assigned to a string that has room for it replaces the text; the string stays in
  order, and when the assignment answers false the text is as before.
\<close>

theorem string_assign_in_place:
  assumes "str_rep m s cs" and "wf_mem m" and "view_bytes m sv = Inr bs"
    and "str_data s \<noteq> NULL" and "sv_data sv \<noteq> NULL" and "view_apart sv s"
    and "length bs < MAX_LEN" and "str_data s = small_buf s \<or> length bs < str_cap s"
  shows "\<exists>ok s' m'. string_assign_view s sv m = Inr (ok, s', m') \<and>
     str_rep m' s' (if ok then bs else cs) \<and> frame (footprint s) m m' \<and> (ok \<or> \<not> avail m (brk m))"
proof -
  from string_assign_view_step [OF assms] obtain ok s' m' where
    "string_assign_view s sv m = Inr (ok, s', m')" "str_step m s m' s' (if ok then bs else cs)"
    "ok \<or> \<not> avail m (brk m)" by blast
  then show ?thesis by (intro exI [of _ ok] exI [of _ s'] exI [of _ m']) (simp add: str_step_def)
qed

lemma string_assign_in_place_witness:
  "\<exists>ok s' m'. string_assign_view (heap_string ''abcdef'') \<lparr>sv_data = lit ''xy'', sv_len = length ''xy''\<rparr>
       (heap_mem ''abcdef'') = Inr (ok, s', m') \<and>
     str_rep m' s' (if ok then ''xy'' else ''abcdef'') \<and>
     frame (footprint (heap_string ''abcdef'')) (heap_mem ''abcdef'') m' \<and>
     (ok \<or> \<not> avail (heap_mem ''abcdef'') (brk (heap_mem ''abcdef'')))"
  by (rule string_assign_in_place [OF heap_string_rep])
    (simp_all only: view_bytes_lit view_apart_lit [OF heap_string_rep], simp_all)

text \<open>
  A view longer than the heap capacity is not assigned: the call answers true, but the
  string still starts with its whole old text, followed by bytes from the allocator up to
  the new length. The branch that reallocates never copies the view.
\<close>

theorem string_assign_keeps_old_text:
  assumes "str_rep m s cs" and "wf_mem m" and "view_bytes m sv = Inr bs"
    and "str_data s = Ptr (Heap k) 0" and "sv_data sv \<noteq> NULL"
    and "length bs < MAX_LEN" and "str_cap s \<le> length bs" and "avail m (brk m)"
  shows "\<exists>s' m' rest. string_assign_view s sv m = Inr (True, s', m') \<and>
     str_rep m' s' (cs @ rest) \<and> length (cs @ rest) = length bs"
  using string_assign_view_realloc [OF assms] by (auto dest: str_stepD)

lemma string_assign_keeps_old_text_witness:
  "\<exists>s' m' rest. string_assign_view (heap_string ''abc'') \<lparr>sv_data = lit ''longer'', sv_len = length ''longer''\<rparr>
       (heap_mem ''abc'') = Inr (True, s', m') \<and>
     str_rep m' s' (''abc'' @ rest) \<and> length (''abc'' @ rest) = length ''longer''"
  by (rule string_assign_keeps_old_text [OF heap_string_rep, where k = 1])
    (simp_all only: view_bytes_lit, simp_all)

section \<open>Objects and their life\<close>

text \<open>
  Appending a string to itself reads freed memory as soon as its text is on the heap: the
  view of the argument points into the block that the reallocation gives back.
\<close>

theorem append_string_to_itself:
  assumes "str_rep m s cs" and "wf_mem m" and "str_data s = Ptr (Heap k) 0"
    and "cs \<noteq> []" and "2 * length cs < MAX_LEN" and "avail m (brk m)"
  shows "string_append_string s s m = Inl Dangling"
  using assms by (rule append_self_dangles)

lemma append_string_to_itself_witness:
  "string_append_string (heap_string ''ab'') (heap_string ''ab'') (heap_mem ''ab'') = Inl Dangling"
  by (rule append_string_to_itself [OF heap_string_rep, where k = 1]) simp_all

text \<open>
  Destroying a string gives its heap block back and nothing else, and leaves the struct as
  it was: destroying it again is a double free.
\<close>

theorem string_destroy_once:
  assumes "str_rep m s cs" and "str_data s = Ptr (Heap k) i"
  shows "string_destroy s m = Inr (m\<lparr>blocks := (blocks m)(Heap k := None)\<rparr>) \<and>
     bnd (string_destroy s m) (string_destroy s) = Inl Dangling"
  using string_destroy_frees [OF assms(1), of] string_destroy_twice [OF assms] assms(2) by simp

lemma string_destroy_once_witness:
  "string_destroy (heap_string ''ab'') (heap_mem ''ab'') =
     Inr ((heap_mem ''ab'')\<lparr>blocks := (blocks (heap_mem ''ab''))(Heap 1 := None)\<rparr>) \<and>
   bnd (string_destroy (heap_string ''ab'') (heap_mem ''ab'')) (string_destroy (heap_string ''ab'')) = Inl Dangling"
  by (rule string_destroy_once [OF heap_string_rep, where i = 0]) simp

section \<open>Comparing and hashing views\<close>

text \<open>
  Two views below 2 to the 31 bytes compare as equal exactly when they have the same
  length and the same bytes up to the first NUL: behind a NUL the bytes do not count, so
  views that compare as equal may differ. The hash depends on every byte.
\<close>

theorem string_view_equal_iff:
  assumes "view_bytes m l = Inr xs" and "view_bytes m r = Inr ys"
    and "length xs < 2147483648" and "length ys < 2147483648"
  shows "string_view_equal m l r = Inr (length xs = length ys \<and> cstr xs = cstr ys) \<and>
     string_view_hash m l = Inr (foldl hash_step 5381 xs)"
proof -
  obtain c where "string_view_compare m l r = Inr c" "c = 0 \<longleftrightarrow> length xs = length ys \<and> cstr xs = cstr ys"
    using string_view_compare_zero_iff [OF assms] by blast
  then show ?thesis using string_view_hash_bytes [OF assms(1)] by (simp add: string_view_equal_def)
qed

text \<open>Equal keys with different hashes, as a hash table must not see them.\<close>

lemma string_view_equal_iff_witness:
  "let l = \<lparr>sv_data = lit [CHR ''a'', NUL, CHR ''b''], sv_len = length [CHR ''a'', NUL, CHR ''b'']\<rparr>;
       r = \<lparr>sv_data = lit [CHR ''a'', NUL, CHR ''c''], sv_len = length [CHR ''a'', NUL, CHR ''c'']\<rparr>
   in string_view_equal empty_mem l r = Inr True \<and> string_view_hash empty_mem l \<noteq> string_view_hash empty_mem r"
proof -
  let ?x = "[CHR ''a'', NUL, CHR ''b'']" and ?y = "[CHR ''a'', NUL, CHR ''c'']"
  have "foldl hash_step 5381 ?x \<noteq> foldl hash_step 5381 ?y"
    by (simp add: hash_step_def char_to_size_def)
  then show ?thesis
    using string_view_equal_iff [OF view_bytes_lit view_bytes_lit, of ?x ?y empty_mem]
      string_view_hash_bytes [OF view_bytes_lit, of empty_mem ?y]
    by (simp add: Let_def)
qed

lemma string_view_to_buf_cases:
  assumes "view_bytes m sv = Inr bs" and "blocks m (Buf b) = Some old" and "view_off sv (Buf b)"
  shows "length bs < length old \<Longrightarrow> string_view_to_buf sv (Ptr (Buf b) 0) (length old) m =
       Inr (True, m\<lparr>blocks := (blocks m)(Buf b := Some (bs @ NUL # drop (Suc (length bs)) old))\<rparr>)"
    and "length bs = length old \<Longrightarrow> string_view_to_buf sv (Ptr (Buf b) 0) (length old) m = Inl Out_of_bounds"
proof -
  note l = view_bytes_length [OF assms(1)]
  have c: "memcpy (Ptr (Buf b) 0) (sv_data sv) (sv_len sv) m =
      Inr (m\<lparr>blocks := (blocks m)(Buf b := Some (bs @ drop (length bs) old))\<rparr>)" if "length bs \<le> length old"
    using memcpy_view [OF assms(1,2) _ _ assms(3), of 0] that by simp
  show "string_view_to_buf sv (Ptr (Buf b) 0) (length old) m =
       Inr (True, m\<lparr>blocks := (blocks m)(Buf b := Some (bs @ NUL # drop (Suc (length bs)) old))\<rparr>)"
    if "length bs < length old"
    using c l that by (simp add: string_view_to_buf_def sv_defs store_bytes_def ptr_add_def Let_def drop_Suc tl_drop)
  show "string_view_to_buf sv (Ptr (Buf b) 0) (length old) m = Inl Out_of_bounds" if "length bs = length old"
    using c l that by (simp add: string_view_to_buf_def sv_defs store_bytes_def ptr_add_def Let_def)
qed

text \<open>
  Copying a view into a buffer of exactly its length writes the terminating NUL one byte
  behind the buffer; a buffer that is larger by one receives the text and the NUL.
\<close>

theorem string_view_to_buf_bounds:
  assumes "view_bytes m sv = Inr bs" and "blocks m (Buf b) = Some old" and "view_off sv (Buf b)"
  shows "if length bs < length old
     then string_view_to_buf sv (Ptr (Buf b) 0) (length old) m =
       Inr (True, m\<lparr>blocks := (blocks m)(Buf b := Some (bs @ NUL # drop (Suc (length bs)) old))\<rparr>)
     else length bs = length old \<longrightarrow> string_view_to_buf sv (Ptr (Buf b) 0) (length old) m = Inl Out_of_bounds"
  using string_view_to_buf_cases [OF assms] by simp

lemma string_view_to_buf_bounds_witness:
  "string_view_to_buf \<lparr>sv_data = lit (replicate 16 CHR ''x''), sv_len = 16\<rparr> (Ptr (Buf 0) 0) 16 small_mem = Inl Out_of_bounds"
  using string_view_to_buf_bounds [of small_mem "\<lparr>sv_data = lit (replicate 16 CHR ''x''), sv_len = 16\<rparr>"
      "replicate 16 CHR ''x''" 0 "replicate 16 NUL"]
  by (simp add: view_bytes_def load_bytes_def small_mem_def)

section \<open>Numbers\<close>

text \<open>
  A number becomes its decimal form, sign included, for every 32 bit value but the least
  one, whose negation overflows.
\<close>

theorem int_to_string_decimal:
  assumes "wf_mem m" and "has_sbuf m (str_buf s)" and "is_int32 d"
  shows "if d = INT_MIN then int_to_string_t s d m = Inl Signed_overflow
     else \<exists>s' m'. int_to_string_t s d m = Inr (True, s', m') \<and> str_rep m' s' (dec_int d)"
  using int_to_string_t_ok [OF assms] int_to_string_t_INT_MIN by auto

lemma int_to_string_decimal_witness:
  "if (- 17::int) = INT_MIN then int_to_string_t small_string (- 17) small_mem = Inl Signed_overflow
   else \<exists>s' m'. int_to_string_t small_string (- 17) small_mem = Inr (True, s', m') \<and> str_rep m' s' (dec_int (- 17))"
  by (rule int_to_string_decimal)
    (use str_rep_sbuf [OF small_string_rep] in \<open>simp_all add: is_int32_def\<close>)

end
