(* ===== verification/CcListProps.thy ===== *)
theory CcListProps
  imports CcList StringProps
begin

text \<open>
  The list of the container library as a list: when a header and its nodes represent a sequence of
  elements, and what every operation does to it.
\<close>

section \<open>Chains of nodes\<close>

definition nxt :: "'a lstore \<Rightarrow> lnode \<Rightarrow> lnode option" where
  "nxt s n = map_option next_node (list_nodes s n)"

definition prv :: "'a lstore \<Rightarrow> lnode \<Rightarrow> lnode option" where
  "prv s n = map_option prev_node (list_nodes s n)"

fun linked :: "'a lstore \<Rightarrow> lnode list \<Rightarrow> bool" where
  "linked s (x # y # zs) \<longleftrightarrow> nxt s x = Some y \<and> prv s y = Some x \<and> linked s (y # zs)"
| "linked s _ \<longleftrightarrow> True"

lemma linked_append: "linked s (xs @ y # zs) \<longleftrightarrow> linked s (xs @ [y]) \<and> linked s (y # zs)"
proof (induction xs)
  case (Cons x xs)
  then show ?case by (cases xs) auto
qed simp

lemma linked_cong:
  "(\<And>x. x \<in> set (butlast zs) \<Longrightarrow> nxt s' x = nxt s x) \<Longrightarrow> (\<And>x. x \<in> set (tl zs) \<Longrightarrow> prv s' x = prv s x) \<Longrightarrow>
     linked s zs \<Longrightarrow> linked s' zs"
  by (induction s zs rule: linked.induct) auto

text \<open>A node comes in between two neighbours, or leaves.\<close>

lemma linked_insert:
  assumes l: "linked s (A @ p # q # B)" and d: "distinct (A @ p # n # q # B)"
    and n: "nxt s' n = Some q" "prv s' n = Some p"
    and pq: "nxt s' p = Some n" "prv s' p = prv s p" "prv s' q = Some n" "nxt s' q = nxt s q"
    and o: "\<And>x. x \<notin> {p, q, n} \<Longrightarrow> nxt s' x = nxt s x \<and> prv s' x = prv s x"
  shows "linked s' (A @ p # n # q # B)"
proof -
  have 1: "linked s (A @ [p])" "linked s (p # q # B)" using l linked_append [of s A p "q # B"] by simp_all
  then have 2: "linked s (q # B)" by simp
  have "linked s' (A @ [p])"
  proof (rule linked_cong [OF _ _ 1(1)])
    fix x assume "x \<in> set (butlast (A @ [p]))"
    then show "nxt s' x = nxt s x" using d o [of x] by auto
  next
    fix x assume "x \<in> set (tl (A @ [p]))"
    then have "x \<in> set (A @ [p])" by (rule list.set_sel(2) [rotated]) simp
    then show "prv s' x = prv s x" using d o [of x] pq(2) by auto
  qed
  moreover have "linked s' (q # B)"
  proof (rule linked_cong [OF _ _ 2])
    fix x assume "x \<in> set (butlast (q # B))"
    then have "x \<in> set (q # B)" by (rule in_set_butlastD)
    then show "nxt s' x = nxt s x" using d o [of x] pq(4) by auto
  next
    fix x assume "x \<in> set (tl (q # B))"
    then show "prv s' x = prv s x" using d o [of x] by auto
  qed
  ultimately show ?thesis using n pq linked_append [of s' A p "n # q # B"] by simp
qed

lemma linked_remove:
  assumes l: "linked s (A @ p # n # q # B)" and d: "distinct (A @ p # n # q # B)"
    and pq: "nxt s' p = Some q" "prv s' p = prv s p" "prv s' q = Some p" "nxt s' q = nxt s q"
    and o: "\<And>x. x \<notin> {p, q, n} \<Longrightarrow> nxt s' x = nxt s x \<and> prv s' x = prv s x"
  shows "linked s' (A @ p # q # B)"
proof -
  have 1: "linked s (A @ [p])" "linked s (p # n # q # B)" using l linked_append [of s A p "n # q # B"] by simp_all
  then have 2: "linked s (q # B)" by simp
  have "linked s' (A @ [p])"
  proof (rule linked_cong [OF _ _ 1(1)])
    fix x assume "x \<in> set (butlast (A @ [p]))"
    then show "nxt s' x = nxt s x" using d o [of x] by auto
  next
    fix x assume "x \<in> set (tl (A @ [p]))"
    then have "x \<in> set (A @ [p])" by (rule list.set_sel(2) [rotated]) simp
    then show "prv s' x = prv s x" using d o [of x] pq(2) by auto
  qed
  moreover have "linked s' (q # B)"
  proof (rule linked_cong [OF _ _ 2])
    fix x assume "x \<in> set (butlast (q # B))"
    then have "x \<in> set (q # B)" by (rule in_set_butlastD)
    then show "nxt s' x = nxt s x" using d o [of x] pq(4) by auto
  next
    fix x assume "x \<in> set (tl (q # B))"
    then show "prv s' x = prv s x" using d o [of x] by auto
  qed
  ultimately show ?thesis using pq linked_append [of s' A p "q # B"] by simp
qed

section \<open>Lists\<close>

definition chain :: "nat \<Rightarrow> nat list \<Rightarrow> lnode list" where
  "chain h ns = L_rend h # map L_node ns @ [L_end h]"

definition is_placeholder :: "'a lstore \<Rightarrow> nat \<Rightarrow> bool" where
  "is_placeholder s ph \<longleftrightarrow> list_const s ph \<and> list_sizes s ph = Some 0 \<and>
     list_nodes s (L_rend ph) = Some \<lparr>prev_node = L_rend ph, next_node = L_end ph\<rparr> \<and>
     list_nodes s (L_end ph) = Some \<lparr>prev_node = L_rend ph, next_node = L_end ph\<rparr>"

text \<open>Header \<open>h\<close>, which belongs to placeholder \<open>ph\<close>, with its nodes and their elements.\<close>

definition list_rep :: "'a lstore \<Rightarrow> nat \<Rightarrow> nat \<Rightarrow> nat list \<Rightarrow> 'a list \<Rightarrow> bool" where
  "list_rep s h ph ns xs \<longleftrightarrow> is_placeholder s ph \<and> distinct ns \<and> map (list_els s) ns = map Some xs \<and>
     length ns < SIZE_MOD \<and>
     (if h = ph then ns = []
      else \<not> list_const s h \<and> list_sizes s h = Some (length ns) \<and>
        prv s (L_rend h) = Some (L_rend ph) \<and> nxt s (L_end h) = Some (L_end ph) \<and> linked s (chain h ns))"

lemma list_rep_length: "list_rep s h ph ns xs \<Longrightarrow> length xs = length ns"
  unfolding list_rep_def by (metis length_map)

lemma distinct_chain: "distinct ns \<Longrightarrow> distinct (chain h ns)"
  by (auto simp: chain_def distinct_map inj_on_def)

text \<open>The iterator of a position; the last one is the end of the placeholder.\<close>

definition itr_of :: "nat \<Rightarrow> nat list \<Rightarrow> nat \<Rightarrow> lnode" where
  "itr_of ph ns i = (if i < length ns then L_node (ns ! i) else L_end ph)"

lemma linked_nth:
  "linked s zs \<Longrightarrow> Suc i < length zs \<Longrightarrow> nxt s (zs ! i) = Some (zs ! Suc i) \<and> prv s (zs ! Suc i) = Some (zs ! i)"
proof (induction s zs arbitrary: i rule: linked.induct)
  case (1 s x y zs)
  then show ?case by (cases i) auto
qed auto

lemma chain_nth:
  "chain h ns ! 0 = L_rend h" "i < length ns \<Longrightarrow> chain h ns ! Suc i = L_node (ns ! i)"
  "chain h ns ! Suc (length ns) = L_end h" "length (chain h ns) = length ns + 2"
  by (simp_all add: chain_def nth_append)

lemma list_ends:
  assumes "list_rep s h ph ns xs"
  shows "cc_list_r_end h s = Inr (L_rend ph)" and "cc_list_end h s = Inr (L_end ph)"
    and "cc_list_is_placeholder h s = Inr (h = ph)" and "cc_list_size h s = Inr (length xs)"
  using assms list_rep_length [OF assms]
  by (auto simp: list_rep_def is_placeholder_def cc_list_r_end_def cc_list_end_def cc_list_is_placeholder_def
      cc_list_size_def get_node_def prv_def nxt_def split: if_splits)

text \<open>Iteration goes through the elements in order, in both directions.\<close>

lemma list_next_at:
  assumes "list_rep s h ph ns xs" and "i < length ns"
  shows "cc_list_next h (itr_of ph ns i) s = Inr (itr_of ph ns (Suc i))"
proof -
  have h: "h \<noteq> ph" "linked s (chain h ns)" "nxt s (L_end h) = Some (L_end ph)"
    using assms by (auto simp: list_rep_def split: if_splits)
  have "nxt s (chain h ns ! Suc i) = Some (chain h ns ! Suc (Suc i))"
    using linked_nth [OF h(2), of "Suc i"] assms(2) by (simp add: chain_nth)
  moreover have "chain h ns ! Suc (Suc i) = (if Suc i < length ns then L_node (ns ! Suc i) else L_end h)"
    using assms(2) chain_nth(2) [of "Suc i" ns h] chain_nth(3) [of h ns] by (cases "Suc i < length ns") (auto simp: not_less le_Suc_eq Suc_le_eq)
  ultimately have "nxt s (L_node (ns ! i)) = Some (if Suc i < length ns then L_node (ns ! Suc i) else L_end h)"
    using assms(2) by (simp add: chain_nth)
  then show ?thesis
    using list_ends(1) [OF assms(1)] h(3) assms(2)
    by (auto simp: cc_list_next_def itr_of_def get_node_def nxt_def split: if_splits)
qed

lemma list_first_at:
  assumes "list_rep s h ph ns xs"
  shows "cc_list_first h s = Inr (itr_of ph ns 0)"
proof (cases "h = ph")
  case True
  then show ?thesis using assms
    by (auto simp: list_rep_def is_placeholder_def cc_list_first_def cc_list_next_def cc_list_r_end_def get_node_def itr_of_def)
next
  case False
  then have h: "linked s (chain h ns)" "nxt s (L_end h) = Some (L_end ph)" using assms by (auto simp: list_rep_def)
  have "nxt s (L_rend h) = Some (chain h ns ! Suc 0)"
    using linked_nth [OF h(1), of 0] by (simp add: chain_nth(1,4))
  moreover have "chain h ns ! Suc 0 = (if 0 < length ns then L_node (ns ! 0) else L_end h)"
    by (cases ns) (simp_all add: chain_def)
  ultimately show ?thesis
    using list_ends(1) [OF assms] h(2) False
    by (auto simp: cc_list_first_def cc_list_next_def itr_of_def get_node_def nxt_def split: if_splits)
qed

lemma chain_split:
  assumes "i \<le> length ns"
  obtains A B where "chain h ns = A @ chain h ns ! i # chain h ns ! Suc i # B"
    and "\<And>n. chain h (take i ns @ n # drop i ns) = A @ chain h ns ! i # L_node n # chain h ns ! Suc i # B"
proof -
  let ?L = "L_rend h # map L_node (take i ns)" and ?R = "map L_node (drop i ns) @ [L_end h]"
  have c: "chain h ns = ?L @ ?R" by (simp add: chain_def flip: map_append append_assoc)
  obtain A p where A: "?L = A @ [p]" using rev_exhaust [of ?L] by auto
  obtain q B where B: "?R = q # B" by (cases ?R) auto
  have "length A = i" using arg_cong [OF A, of length] assms by simp
  then have pq: "chain h ns ! i = p" "chain h ns ! Suc i = q" unfolding c A B by (simp_all add: nth_append)
  have "chain h (take i ns @ n # drop i ns) = A @ p # L_node n # q # B" for n
  proof -
    have "chain h (take i ns @ n # drop i ns) = ?L @ L_node n # ?R" by (simp add: chain_def)
    also have "\<dots> = A @ p # L_node n # q # B" unfolding A B by simp
    finally show ?thesis .
  qed
  then show thesis using that [of A B] c A B pq by simp
qed

text \<open>What a list with a header gives at a position.\<close>

lemma list_neighbours:
  assumes rep: "list_rep s h ph ns xs" and h: "h \<noteq> ph" and i: "i \<le> length ns"
  obtains hp hq where "list_nodes s (chain h ns ! i) = Some hp" and "list_nodes s (chain h ns ! Suc i) = Some hq"
    and "next_node hp = chain h ns ! Suc i" and "prev_node hq = chain h ns ! i"
    and "\<not> read_only_node s (chain h ns ! i)" and "\<not> read_only_node s (chain h ns ! Suc i)"
proof -
  have l: "linked s (chain h ns)" "\<not> list_const s h" using rep h by (simp_all add: list_rep_def)
  have len: "Suc i < length (chain h ns)" using i by (simp add: chain_nth(4))
  from linked_nth [OF l(1) len] obtain hp hq where 1: "list_nodes s (chain h ns ! i) = Some hp"
    "list_nodes s (chain h ns ! Suc i) = Some hq" "next_node hp = chain h ns ! Suc i" "prev_node hq = chain h ns ! i"
    by (auto simp: nxt_def prv_def)
  have ro: "\<not> read_only_node s x" if "x \<in> set (chain h ns)" for x using that l(2) by (auto simp: chain_def)
  show thesis by (rule that [OF 1]) (use len ro nth_mem [of _ "chain h ns"] in auto)
qed

section \<open>Insertion\<close>

text \<open>Numbers that are not given away yet name nothing.\<close>

definition fresh_list :: "'a lstore \<Rightarrow> mem \<Rightarrow> bool" where
  "fresh_list s m \<longleftrightarrow> (\<forall>k \<ge> brk m. list_nodes s (L_node k) = None \<and> list_els s k = None \<and> list_sizes s k = None)"

lemma fresh_hdr: "fresh_list s m \<Longrightarrow> list_sizes s h = Some k \<Longrightarrow> h < brk m"
  by (rule ccontr) (simp add: fresh_list_def)

lemma local_itr_at:
  assumes "list_rep s h ph ns xs" and "h \<noteq> ph" and "i \<le> length ns"
  shows "local_itr h (itr_of ph ns i) s = Inr (chain h ns ! Suc i)"
    and "local_itr h (chain h ns ! Suc i) s = Inr (chain h ns ! Suc i)"
  using list_ends [OF assms(1)] assms(2,3) chain_nth(2) [of i ns h] chain_nth(3) [of h ns]
  by (auto simp: local_itr_def itr_of_def le_less)

lemma attach_at:
  assumes rep: "list_rep s h ph ns xs" and h: "h \<noteq> ph" and i: "i \<le> length ns"
    and n: "list_nodes s (L_node n) \<noteq> None" "n \<notin> set ns"
  obtains s' hp hq where "cc_list_attach h (itr_of ph ns i) (L_node n) s = Inr s'"
    and "cc_list_attach h (chain h ns ! Suc i) (L_node n) s = Inr s'"
    and "list_nodes s (chain h ns ! i) = Some hp" and "list_nodes s (chain h ns ! Suc i) = Some hq"
    and "s' = s\<lparr>list_nodes := (list_nodes s)
        (L_node n := Some \<lparr>prev_node = chain h ns ! i, next_node = chain h ns ! Suc i\<rparr>,
         chain h ns ! Suc i := Some (hq\<lparr>prev_node := L_node n\<rparr>), chain h ns ! i := Some (hp\<lparr>next_node := L_node n\<rparr>))\<rparr>"
proof -
  let ?p = "chain h ns ! i" and ?q = "chain h ns ! Suc i"
  obtain hp hq where 1: "list_nodes s ?p = Some hp" "list_nodes s ?q = Some hq" "next_node hp = ?q" "prev_node hq = ?p"
    "\<not> read_only_node s ?p" "\<not> read_only_node s ?q" by (rule list_neighbours [OF rep h i])
  have d: "distinct (chain h ns)" using rep distinct_chain by (simp add: list_rep_def)
  have len: "Suc i < length (chain h ns)" using i by (simp add: chain_nth(4))
  have pq: "?p \<noteq> ?q" using nth_eq_iff_index_eq [OF d, of i "Suc i"] len by simp
  have "L_node n \<notin> set (chain h ns)" using n(2) by (auto simp: chain_def)
  then have np: "L_node n \<noteq> ?p" "L_node n \<noteq> ?q" using nth_mem [of _ "chain h ns"] len by auto
  note lo = local_itr_at [OF rep h i]
  obtain hn where hn: "list_nodes s (L_node n) = Some hn" using n(1) by auto
  let ?s = "s\<lparr>list_nodes := (list_nodes s)(L_node n := Some \<lparr>prev_node = ?p, next_node = ?q\<rparr>,
         ?q := Some (hq\<lparr>prev_node := L_node n\<rparr>), ?p := Some (hp\<lparr>next_node := L_node n\<rparr>))\<rparr>"
  have ro: "read_only_node (s\<lparr>list_nodes := f\<rparr>) x = read_only_node s x" for f x by (cases x) simp_all
  have a: "cc_list_attach h itr (L_node n) s = Inr ?s" if "local_itr h itr s = Inr ?q" for itr
    using that 1 hn pq np
    by (simp add: cc_list_attach_def set_next_def set_prev_def get_node_def put_node_def ro fun_upd_twist)
      (cases hn; simp)
  show thesis by (rule that [OF a [OF lo(1)] a [OF lo(2)] 1(1,2) refl])
qed

lemma distinct_insert_at: "distinct ns \<Longrightarrow> n \<notin> set ns \<Longrightarrow> distinct (take i ns @ n # drop i ns)"
  using set_take_disj_set_drop_if_distinct [of ns i i] by (auto dest: in_set_takeD in_set_dropD)

lemma chain_ends:
  assumes "distinct ns" and "i \<le> length ns"
  shows "chain h ns ! Suc i \<noteq> L_rend h" and "chain h ns ! i \<noteq> L_end h"
proof -
  note d = nth_eq_iff_index_eq [OF distinct_chain [OF assms(1), of h]]
  show "chain h ns ! Suc i \<noteq> L_rend h" using d [of "Suc i" 0] assms(2) by (simp add: chain_nth)
  show "chain h ns ! i \<noteq> L_end h" using d [of i "Suc (length ns)"] assms(2) by (simp add: chain_nth)
qed

lemma attached:
  assumes rep: "list_rep s h ph ns xs" and h: "h \<noteq> ph" and i: "i \<le> length ns"
    and n: "list_nodes s (L_node n) \<noteq> None" "n \<notin> set ns" and el: "list_els s n = Some x"
    and len: "Suc (length ns) < SIZE_MOD"
  obtains s' where "cc_list_attach h (itr_of ph ns i) (L_node n) s = Inr s'"
    and "cc_list_attach h (chain h ns ! Suc i) (L_node n) s = Inr s'"
    and "list_els s' = list_els s" and "list_sizes s' = list_sizes s" and "list_const s' = list_const s"
    and "\<And>k. list_nodes s k = None \<Longrightarrow> list_nodes s' k = None"
    and "list_rep (s'\<lparr>list_sizes := (list_sizes s')(h := Some (Suc (length ns)))\<rparr>) h ph
       (take i ns @ n # drop i ns) (take i xs @ x # drop i xs)"
proof -
  let ?p = "chain h ns ! i" and ?q = "chain h ns ! Suc i"
  obtain s' hp hq where a: "cc_list_attach h (itr_of ph ns i) (L_node n) s = Inr s'"
    "cc_list_attach h (chain h ns ! Suc i) (L_node n) s = Inr s'"
    "list_nodes s ?p = Some hp" "list_nodes s ?q = Some hq"
    "s' = s\<lparr>list_nodes := (list_nodes s)(L_node n := Some \<lparr>prev_node = ?p, next_node = ?q\<rparr>,
         ?q := Some (hq\<lparr>prev_node := L_node n\<rparr>), ?p := Some (hp\<lparr>next_node := L_node n\<rparr>))\<rparr>"
    by (rule attach_at [OF rep h i n])
  obtain A B where c: "chain h ns = A @ ?p # ?q # B"
    "\<And>n. chain h (take i ns @ n # drop i ns) = A @ ?p # L_node n # ?q # B" by (rule chain_split [OF i, of h]) (rule that)
  have "distinct ns" using rep by (simp add: list_rep_def)
  then have dn: "distinct (take i ns @ n # drop i ns)" using n(2) by (rule distinct_insert_at)
  have d: "distinct (A @ ?p # L_node n # ?q # B)" using distinct_chain [OF dn, of h] unfolding c(2) .
  have l: "linked s (A @ ?p # ?q # B)" using rep h c(1) by (simp add: list_rep_def)
  let ?t = "s'\<lparr>list_sizes := (list_sizes s')(h := Some (Suc (length ns)))\<rparr>"
  have pq: "?p \<noteq> ?q" "L_node n \<noteq> ?p" "L_node n \<noteq> ?q" using d by auto
  have "linked ?t (A @ ?p # L_node n # ?q # B)"
    by (rule linked_insert [OF l d]) (use a(3-5) pq in \<open>simp_all add: nxt_def prv_def\<close>)
  then have l': "linked ?t (chain h (take i ns @ n # drop i ns))" unfolding c(2) .
  have in_chain: "?p \<in> set (chain h ns)" "?q \<in> set (chain h ns)" using i by (simp_all add: chain_nth(4))
  have phn: "L_rend ph \<noteq> ?p" "L_rend ph \<noteq> ?q" "L_end ph \<noteq> ?p" "L_end ph \<noteq> ?q"
    using in_chain h by (auto simp: chain_def)
  note q = chain_ends(1) [OF \<open>distinct ns\<close> i, of h] and p = chain_ends(2) [OF \<open>distinct ns\<close> i, of h]
  have ph: "is_placeholder ?t ph" using rep h phn by (simp add: list_rep_def is_placeholder_def a(5))
  have ends: "prv ?t (L_rend h) = Some (L_rend ph)" "nxt ?t (L_end h) = Some (L_end ph)"
    using rep h p q a(3,4) unfolding a(5) by (auto simp: list_rep_def prv_def nxt_def)
  have me: "map (list_els s) ns = map Some xs" using rep by (simp add: list_rep_def)
  have els: "map (list_els s) (take i ns @ n # drop i ns) = map Some (take i xs @ x # drop i xs)"
    using el arg_cong [OF me, of "take i"] arg_cong [OF me, of "drop i"] by (simp add: take_map drop_map)
  have "list_rep ?t h ph (take i ns @ n # drop i ns) (take i xs @ x # drop i xs)"
    using rep h ph dn els l' ends len i by (simp add: list_rep_def a(5))
  moreover have "list_nodes s' k = None" if "list_nodes s k = None" for k
    using that n(1) a(3,4) unfolding a(5) by auto
  ultimately show thesis by (intro that [OF a(1,2)]) (simp_all add: a(5))
qed

text \<open>A list gets its header, or stays a placeholder.\<close>

lemma with_hdr_cases:
  assumes rep: "list_rep s h ph ns xs" and fr: "fresh_list s m"
  obtains (refused) m' where "with_hdr h s m = Inr (None, s, m')" and "h = ph" and "\<not> avail m (brk m)"
    and "brk m \<le> brk m'"
  | (made) h' s' m' where "with_hdr h s m = Inr (Some h', s', m')" and "h' \<noteq> ph" and "list_rep s' h' ph ns xs"
    and "fresh_list s' m'" and "h \<noteq> ph \<longrightarrow> h' = h \<and> s' = s" and "h = ph \<longrightarrow> h' = brk m" and "mem_ahead m m'"
proof (cases "h = ph")
  case False
  then show thesis using rep fr list_ends(3) [OF rep]
    by (intro made [of h s m]) (simp_all add: with_hdr_def)
next
  case True
  then have ns: "ns = []" "xs = []" using rep list_rep_length [OF rep] by (auto simp: list_rep_def)
  have p: "cc_list_is_placeholder h s = Inr True" using list_ends(3) [OF rep] True by simp
  have ps: "is_placeholder s ph" using rep by (simp add: list_rep_def)
  then have n: "brk m \<noteq> ph" using fr by (auto simp: is_placeholder_def fresh_list_def)
  show thesis
  proof (cases "avail m (brk m)")
    case False
    then show thesis using p True
      by (intro refused [of "m\<lparr>brk := Suc (brk m)\<rparr>"])
        (simp_all add: with_hdr_def cc_list_alloc_hdr_def alloc_request_def Let_def)
  next
    case av: True
    obtain s' where s': "with_hdr h s m = Inr (Some (brk m), s', m\<lparr>brk := Suc (brk m)\<rparr>)"
      "s' = s\<lparr>list_nodes := (list_nodes s)
            (L_rend (brk m) := Some \<lparr>prev_node = L_rend h, next_node = L_end (brk m)\<rparr>,
             L_end (brk m) := Some \<lparr>prev_node = L_rend (brk m), next_node = L_end h\<rparr>),
          list_sizes := (list_sizes s)(brk m := Some 0), list_const := (list_const s)(brk m := False)\<rparr>"
      using p av by (simp add: with_hdr_def cc_list_alloc_hdr_def alloc_request_def Let_def)
    have "list_rep s' (brk m) ph ns xs"
      using ps n True unfolding s'(2) ns
      by (simp add: list_rep_def is_placeholder_def prv_def nxt_def chain_def)
    moreover have "fresh_list s' (m\<lparr>brk := Suc (brk m)\<rparr>)" using fr unfolding s'(2) by (simp add: fresh_list_def)
    moreover have "mem_ahead m (m\<lparr>brk := Suc (brk m)\<rparr>)" using mem_ahead_alloc [of m] by (simp add: alloc_request_def)
    ultimately show thesis using n True s'(1) by (intro made) simp_all
  qed
qed

text \<open>An insertion puts the element at its position, or changes nothing but the allocator.\<close>

lemma list_insert_at:
  assumes rep: "list_rep s h ph ns xs" and fr: "fresh_list s m" and i: "i \<le> length ns" and len: "Suc (length ns) < SIZE_MOD"
  obtains (refused) h' s' m' where "cc_list_insert h x (itr_of ph ns i) s m = Inr (h', None, s', m')"
    and "list_rep s' h' ph ns xs" and "fresh_list s' m'" and "\<exists>k \<ge> brk m. \<not> avail m k"
  | (inserted) h' n s' m' where "cc_list_insert h x (itr_of ph ns i) s m = Inr (h', Some (L_node n), s', m')"
    and "list_rep s' h' ph (take i ns @ n # drop i ns) (take i xs @ x # drop i xs)" and "fresh_list s' m'" and "n \<notin> set ns"
    and "mem_ahead m m'"
  using rep fr
proof (cases rule: with_hdr_cases)
  case r: (refused m')
  then have "cc_list_insert h x (itr_of ph ns i) s m = Inr (h, None, s, m')" by (simp add: cc_list_insert_def)
  moreover have "fresh_list s m'" using fr r(4) by (auto simp: fresh_list_def)
  ultimately show thesis using refused rep r(3) by blast
next
  case (made h1 s1 m1)
  have br: "brk m \<le> brk m1" "avail m1 = avail m" using made(7) by (simp_all add: mem_ahead_def)
  let ?m2 = "m1\<lparr>brk := Suc (brk m1)\<rparr>"
  show thesis
  proof (cases "avail m1 (brk m1)")
    case False
    then have "cc_list_insert h x (itr_of ph ns i) s m = Inr (h1, None, s1, ?m2)"
      using made(1) by (simp add: cc_list_insert_def alloc_request_def)
    moreover have "fresh_list s1 ?m2" using made(4) by (simp add: fresh_list_def)
    ultimately show thesis using refused made(3) False br by auto
  next
    case True
    let ?n = "brk m1"
    let ?s = "s1\<lparr>list_nodes := (list_nodes s1)(L_node ?n := Some \<lparr>prev_node = L_node ?n, next_node = L_node ?n\<rparr>),
                  list_els := (list_els s1)(?n := Some x)\<rparr>"
    have nn: "?n \<notin> set ns"
    proof
      assume "?n \<in> set ns"
      then have "list_els s1 ?n \<in> set (map Some xs)" using made(3) unfolding list_rep_def by (metis image_eqI list.set_map)
      then show False using made(4) by (auto simp: fresh_list_def)
    qed
    have rep': "list_rep ?s h1 ph ns xs"
    proof -
      have "map (list_els ?s) ns = map (list_els s1) ns" by (rule map_cong) (use nn in auto)
      also have "\<dots> = map Some xs" using made(3) by (simp add: list_rep_def)
      finally have "map (list_els ?s) ns = map Some xs" .
      moreover have "linked ?s (chain h1 ns)" if "linked s1 (chain h1 ns)"
        by (rule linked_cong [OF _ _ that])
          (use nn in \<open>auto simp: chain_def nxt_def prv_def dest!: in_set_butlastD\<close>)
      ultimately show ?thesis using made(2,3) by (auto simp: list_rep_def is_placeholder_def prv_def nxt_def)
    qed
    have nd: "list_nodes ?s (L_node ?n) \<noteq> None" "list_els ?s ?n = Some x" by simp_all
    obtain s2 where 2: "cc_list_attach h1 (itr_of ph ns i) (L_node ?n) ?s = Inr s2"
      "cc_list_attach h1 (chain h1 ns ! Suc i) (L_node ?n) ?s = Inr s2" "list_els s2 = list_els ?s"
      "list_sizes s2 = list_sizes ?s" "list_const s2 = list_const ?s" "\<And>k. list_nodes ?s k = None \<Longrightarrow> list_nodes s2 k = None"
      "list_rep (s2\<lparr>list_sizes := (list_sizes s2)(h1 := Some (Suc (length ns)))\<rparr>) h1 ph
         (take i ns @ ?n # drop i ns) (take i xs @ x # drop i xs)"
      by (rule attached [OF rep' made(2) i nd(1) nn nd(2) len]) (rule that)
    let ?t = "s2\<lparr>list_sizes := (list_sizes s2)(h1 := Some (Suc (length ns)))\<rparr>"
    have "list_sizes s1 h1 = Some (length ns)" "\<not> list_const s1 h1" using made(2,3) by (simp_all add: list_rep_def)
    then have sz: "add_size s2 h1 (\<lambda>k. sz_add k 1) = Inr ?t" using len by (simp add: add_size_def 2(4,5))
    have "cc_list_insert h x (itr_of ph ns i) s m = Inr (h1, Some (L_node ?n), ?t, ?m2)"
      using made(1) True local_itr_at(1) [OF rep' made(2) i] 2(2) sz
      by (simp add: cc_list_insert_def alloc_request_def Let_def)
    moreover have "fresh_list ?t ?m2"
    proof -
      have "list_sizes s1 h1 \<noteq> None" using made(2,3) by (simp add: list_rep_def)
      then have "h1 < brk m1" using made(4) by (meson fresh_list_def not_le)
      then show ?thesis using made(4) 2(3,4) 2(6) by (auto simp: fresh_list_def)
    qed
    moreover have "mem_ahead m ?m2" using made(7) by (simp add: mem_ahead_def)
    ultimately show thesis using inserted 2(7) nn by blast
  qed
qed

section \<open>Removal\<close>

text \<open>A node and its neighbours in the chain.\<close>

lemma node_at:
  assumes rep: "list_rep s h ph ns xs" and i: "i < length ns"
  obtains hp hq where "h \<noteq> ph"
    and "list_nodes s (L_node (ns ! i)) = Some \<lparr>prev_node = chain h ns ! i, next_node = chain h ns ! Suc (Suc i)\<rparr>"
    and "list_nodes s (chain h ns ! i) = Some hp" and "list_nodes s (chain h ns ! Suc (Suc i)) = Some hq"
    and "\<not> read_only_node s (chain h ns ! i)" and "\<not> read_only_node s (chain h ns ! Suc (Suc i))"
    and "distinct [chain h ns ! i, L_node (ns ! i), chain h ns ! Suc (Suc i)]"
proof -
  have h: "h \<noteq> ph" and d: "distinct ns" using rep i by (auto simp: list_rep_def)
  have j: "i \<le> length ns" "Suc i \<le> length ns" using i by simp_all
  obtain hp hn where 1: "list_nodes s (chain h ns ! i) = Some hp" "list_nodes s (chain h ns ! Suc i) = Some hn"
    "next_node hp = chain h ns ! Suc i" "prev_node hn = chain h ns ! i" "\<not> read_only_node s (chain h ns ! i)"
    by (rule list_neighbours [OF rep h j(1)]) (rule that)
  obtain hn' hq where 2: "list_nodes s (chain h ns ! Suc i) = Some hn'" "list_nodes s (chain h ns ! Suc (Suc i)) = Some hq"
    "next_node hn' = chain h ns ! Suc (Suc i)" "\<not> read_only_node s (chain h ns ! Suc (Suc i))"
    by (rule list_neighbours [OF rep h j(2)]) (rule that)
  have n: "chain h ns ! Suc i = L_node (ns ! i)" using i by (rule chain_nth(2))
  have hn: "hn = \<lparr>prev_node = chain h ns ! i, next_node = chain h ns ! Suc (Suc i)\<rparr>"
    using 1(2,4) 2(1,3) by (cases hn) simp
  have len: "Suc (Suc i) < length (chain h ns)" using i by (simp add: chain_nth(4))
  note e = nth_eq_iff_index_eq [OF distinct_chain [OF d, of h]]
  have "distinct [chain h ns ! i, L_node (ns ! i), chain h ns ! Suc (Suc i)]"
    using e [of i "Suc i"] e [of i "Suc (Suc i)"] e [of "Suc i" "Suc (Suc i)"] len by (simp add: n)
  then show thesis using 1(2) unfolding n hn by (intro that [OF h _ 1(1) 2(2) 1(5) 2(4)])
qed

lemma distinct_remove_at:
  assumes "distinct ns" and "i < length ns"
  shows "ns ! i \<notin> set (take i ns @ drop (Suc i) ns)" and "distinct (take i ns @ drop (Suc i) ns)"
proof -
  have "distinct (take i ns @ ns ! i # drop (Suc i) ns)" using assms by (simp add: id_take_nth_drop [symmetric])
  then show "ns ! i \<notin> set (take i ns @ drop (Suc i) ns)" "distinct (take i ns @ drop (Suc i) ns)" by auto
qed

text \<open>A state in which the node is bypassed represents the list without it.\<close>

lemma bypassed:
  assumes rep: "list_rep s h ph ns xs" and i: "i < length ns"
    and old: "list_nodes s (chain h ns ! i) = Some hp" "list_nodes s (chain h ns ! Suc (Suc i)) = Some hq"
    and new: "list_nodes s' (chain h ns ! i) = Some (hp\<lparr>next_node := chain h ns ! Suc (Suc i)\<rparr>)"
      "list_nodes s' (chain h ns ! Suc (Suc i)) = Some (hq\<lparr>prev_node := chain h ns ! i\<rparr>)"
    and same: "\<And>x. x \<notin> {chain h ns ! i, L_node (ns ! i), chain h ns ! Suc (Suc i)} \<Longrightarrow> list_nodes s' x = list_nodes s x"
    and els: "\<And>k. k \<noteq> ns ! i \<Longrightarrow> list_els s' k = list_els s k" and const: "list_const s' = list_const s"
    and sz: "list_sizes s' ph = list_sizes s ph" "list_sizes s' h = Some (length ns - 1)"
  shows "list_rep s' h ph (take i ns @ drop (Suc i) ns) (take i xs @ drop (Suc i) xs)"
proof -
  let ?ns = "take i ns @ drop (Suc i) ns" and ?n = "ns ! i" and ?p = "chain h ns ! i" and ?q = "chain h ns ! Suc (Suc i)"
  have d: "distinct ns" and h: "h \<noteq> ph" and me: "map (list_els s) ns = map Some xs" and ps: "is_placeholder s ph"
    and l: "linked s (chain h ns)" using rep i by (auto simp: list_rep_def split: if_splits)
  have i0: "i \<le> length ?ns" using i by simp
  have bk: "take i ?ns @ ?n # drop i ?ns = ns" using i by (simp add: id_take_nth_drop [symmetric])
  obtain A B where c: "chain h ?ns = A @ chain h ?ns ! i # chain h ?ns ! Suc i # B"
    "\<And>n. chain h (take i ?ns @ n # drop i ?ns) = A @ chain h ?ns ! i # L_node n # chain h ?ns ! Suc i # B"
    by (rule chain_split [OF i0, of h]) (rule that)
  have cn: "chain h ns = A @ chain h ?ns ! i # L_node ?n # chain h ?ns ! Suc i # B" using c(2) [of ?n] unfolding bk .
  have "length (A @ chain h ?ns ! i # chain h ?ns ! Suc i # B) = length (chain h ?ns)" by (simp only: c(1) [symmetric])
  have "chain h ns ! Suc i = L_node ?n" using i by (rule chain_nth(2))
  have la: "length A = i"
  proof -
    have "(A @ chain h ?ns ! i # L_node ?n # chain h ?ns ! Suc i # B) ! Suc (length A) = L_node ?n" by (simp add: nth_append)
    then have "chain h ns ! Suc (length A) = chain h ns ! Suc i" unfolding cn [symmetric] using i by (simp add: chain_nth(2))
    moreover have "Suc (length A) < length (chain h ns)" unfolding cn by simp
    moreover have "Suc i < length (chain h ns)" using i by (simp add: chain_nth(4))
    ultimately show ?thesis using nth_eq_iff_index_eq [OF distinct_chain [OF d, of h]] by blast
  qed
  have "chain h ns ! i = chain h ?ns ! i" "chain h ns ! Suc (Suc i) = chain h ?ns ! Suc i"
    by (subst cn, simp add: nth_append la)+
  then have cn: "chain h ns = A @ ?p # L_node ?n # ?q # B" and c0: "chain h ?ns = A @ ?p # ?q # B" using cn c(1) by simp_all
  have dd: "distinct (A @ ?p # L_node ?n # ?q # B)" using distinct_chain [OF d, of h] cn by simp
  have "linked s (A @ ?p # L_node ?n # ?q # B)" using l cn by simp
  then have "linked s' (A @ ?p # ?q # B)"
    by (rule linked_remove [OF _ dd]) (use old new same in \<open>simp_all add: nxt_def prv_def\<close>)
  then have l': "linked s' (chain h ?ns)" using c0 by simp
  have in_chain: "?p \<in> set (chain h ns)" "?q \<in> set (chain h ns)" using i by (simp_all add: chain_nth(4))
  have ps': "is_placeholder s' ph"
    using ps same [of "L_rend ph"] same [of "L_end ph"] in_chain h const sz(1) by (auto simp: is_placeholder_def chain_def)
  have "Suc i \<le> length ns" using i by simp
  note q = chain_ends(1) [OF d this, of h] and p = chain_ends(2) [OF d, of i h]
  have "prv s (L_rend h) = Some (L_rend ph)" "nxt s (L_end h) = Some (L_end ph)" using rep h by (simp_all add: list_rep_def)
  then have ends: "prv s' (L_rend h) = Some (L_rend ph)" "nxt s' (L_end h) = Some (L_end ph)"
    using old new same [of "L_rend h"] same [of "L_end h"] p q i
    by (cases "L_rend h = ?p"; cases "L_end h = ?q"; simp add: prv_def nxt_def; metis)+
  note nn = distinct_remove_at(1) [OF d i] and dn = distinct_remove_at(2) [OF d i]
  have "list_els s' k = list_els s k" if "k \<in> set ?ns" for k by (rule els) (use nn that in blast)
  then have "map (list_els s') ?ns = map (list_els s) ?ns" by (rule map_cong [OF refl])
  also have "\<dots> = map Some (take i xs @ drop (Suc i) xs)"
    using arg_cong [OF me, of "take i"] arg_cong [OF me, of "drop (Suc i)"] by (simp add: take_map drop_map)
  finally have me': "map (list_els s') ?ns = map Some (take i xs @ drop (Suc i) xs)" .
  have len: "length ?ns = length ns - 1" using i by simp
  have lt: "length ns - 1 < SIZE_MOD" using rep by (simp add: list_rep_def less_imp_diff_less)
  show ?thesis
    unfolding list_rep_def len using ps' dn me' l' ends h rep const sz(2) i lt by (simp add: list_rep_def)
qed

text \<open>The destructor of an element, if there is one.\<close>

definition dtor_run :: "'a dtor \<Rightarrow> 'a \<Rightarrow> mem \<Rightarrow> mem res" where
  "dtor_run el_dtor x m = (case el_dtor of None \<Rightarrow> Inr m | Some d \<Rightarrow> d x m)"

lemma erase_core:
  assumes "list_nodes s (L_node n) = Some \<lparr>prev_node = p, next_node = q\<rparr>" and "list_nodes s p = Some hp"
    and "list_nodes s q = Some hq" and "\<not> read_only_node s p" and "\<not> read_only_node s q"
    and "p \<noteq> L_node n" and "p \<noteq> q" and "L_node n \<noteq> q" and "list_els s n = Some x" and "dtor_run el_dtor x m = Inr m'"
    and "list_sizes s h = Some k" and "\<not> list_const s h"
    and s': "s' = s\<lparr>list_nodes := (list_nodes s)(p := Some (hp\<lparr>next_node := q\<rparr>), q := Some (hq\<lparr>prev_node := p\<rparr>), L_node n := None),
       list_els := (list_els s)(n := None), list_sizes := (list_sizes s)(h := Some (sz_sub k 1))\<rparr>"
  shows "cc_list_erase h (L_node n) el_dtor s m = Inr (if q = L_end h then next_node hq else q, s', m')"
proof -
  have ro: "read_only_node (s\<lparr>list_nodes := f\<rparr>) y = read_only_node s y" for f y by (cases y) simp_all
  have d: "destroy_el el_dtor (L_node n) (s\<lparr>list_nodes := f\<rparr>) m = Inr m'" for f
    using assms(9,10) by (auto simp: destroy_el_def dtor_run_def get_el_def split: option.splits)
  show ?thesis
    using assms(1-8,11,12) unfolding s'
    by (simp add: cc_list_erase_def set_next_def set_prev_def get_node_def put_node_def free_node_def add_size_def ro d Let_def)
qed

lemma list_erase_at:
  assumes rep: "list_rep s h ph ns xs" and i: "i < length ns" and dt: "dtor_run el_dtor (xs ! i) m = Inr m'"
  obtains s' where "cc_list_erase h (itr_of ph ns i) el_dtor s m = Inr (itr_of ph (take i ns @ drop (Suc i) ns) i, s', m')"
    and "list_rep s' h ph (take i ns @ drop (Suc i) ns) (take i xs @ drop (Suc i) xs)"
    and "list_nodes s' (L_node (ns ! i)) = None" and "fresh_list s m \<Longrightarrow> brk m \<le> brk m' \<Longrightarrow> fresh_list s' m'"
    and "\<And>k. list_nodes s (L_node k) = None \<Longrightarrow> list_nodes s' (L_node k) = None"
proof -
  let ?p = "chain h ns ! i" and ?n = "L_node (ns ! i)" and ?q = "chain h ns ! Suc (Suc i)"
  obtain hp hq where 1: "h \<noteq> ph" "list_nodes s ?n = Some \<lparr>prev_node = ?p, next_node = ?q\<rparr>" "list_nodes s ?p = Some hp"
    "list_nodes s ?q = Some hq" "\<not> read_only_node s ?p" "\<not> read_only_node s ?q" "distinct [?p, ?n, ?q]"
    by (rule node_at [OF rep i]) (rule that)
  let ?s2 = "s\<lparr>list_nodes := (list_nodes s)(?p := Some (hp\<lparr>next_node := ?q\<rparr>), ?q := Some (hq\<lparr>prev_node := ?p\<rparr>))\<rparr>"
  let ?s3 = "s\<lparr>list_nodes := (list_nodes ?s2)(?n := None), list_els := (list_els s)(ns ! i := None),
     list_sizes := (list_sizes s)(h := Some (length ns - 1))\<rparr>"
  have lx: "length xs = length ns" using rep by (rule list_rep_length)
  have x: "list_els s (ns ! i) = Some (xs ! i)"
    using rep i lx nth_map [of i ns "list_els s"] nth_map [of i xs Some] unfolding list_rep_def by metis
  have sz: "list_sizes s h = Some (length ns)" "\<not> list_const s h" "length ns < SIZE_MOD" "list_sizes s ph = Some 0"
    using rep 1(1) by (simp_all add: list_rep_def is_placeholder_def)
  have sub: "sz_sub (length ns) (Suc 0) = length ns - 1" using sz(3) i by (simp add: sz_sub_exact)
  have itr: "itr_of ph ns i = ?n" using i by (simp add: itr_of_def)
  have rep': "list_rep ?s3 h ph (take i ns @ drop (Suc i) ns) (take i xs @ drop (Suc i) xs)"
    by (rule bypassed [OF rep i 1(3,4)]) (use 1(1,7) in auto)
  have e: "next_node hq = L_end ph" if "?q = L_end h" using rep 1(1,4) that by (auto simp: list_rep_def nxt_def)
  have q: "?q = (if Suc i < length ns then L_node (ns ! Suc i) else L_end h)"
    using i chain_nth(2) [of "Suc i" ns h] chain_nth(3) [of h ns] by (cases "Suc i < length ns") (auto simp: not_less le_Suc_eq Suc_le_eq)
  have it: "itr_of ph (take i ns @ drop (Suc i) ns) i = (if Suc i < length ns then L_node (ns ! Suc i) else L_end ph)"
    using i by (auto simp: itr_of_def nth_append)
  have s3: "?s3 = s\<lparr>list_nodes := (list_nodes s)(?p := Some (hp\<lparr>next_node := ?q\<rparr>), ?q := Some (hq\<lparr>prev_node := ?p\<rparr>), ?n := None),
       list_els := (list_els s)(ns ! i := None), list_sizes := (list_sizes s)(h := Some (sz_sub (length ns) 1))\<rparr>"
    using sub by simp
  have ne: "?p \<noteq> ?n" "?p \<noteq> ?q" "?n \<noteq> ?q" using 1(7) by auto
  have "cc_list_erase h ?n el_dtor s m = Inr (if ?q = L_end h then next_node hq else ?q, ?s3, m')"
    by (rule erase_core [OF 1(2-6) ne x dt sz(1,2) s3])
  also have "(if ?q = L_end h then next_node hq else ?q) = itr_of ph (take i ns @ drop (Suc i) ns) i"
    unfolding it using e q by (cases "Suc i < length ns") auto
  finally have "cc_list_erase h ?n el_dtor s m = Inr (itr_of ph (take i ns @ drop (Suc i) ns) i, ?s3, m')" .
  then have er: "cc_list_erase h (itr_of ph ns i) el_dtor s m = Inr (itr_of ph (take i ns @ drop (Suc i) ns) i, ?s3, m')"
    unfolding itr .
  have none: "list_nodes ?s3 (L_node k) = None" if "list_nodes s (L_node k) = None" for k
    using that 1(3,4) by auto
  have "fresh_list ?s3 m'" if fr: "fresh_list s m" and le: "brk m \<le> brk m'"
  proof -
    have h: "h < brk m" by (rule fresh_hdr [OF fr sz(1)])
    show ?thesis
      unfolding fresh_list_def
    proof (intro allI impI)
      fix k assume "brk m' \<le> k"
      then have k: "brk m \<le> k" "k \<noteq> h" using le h by simp_all
      then have "list_nodes s (L_node k) = None" "list_els s k = None" "list_sizes s k = None" using fr by (simp_all add: fresh_list_def)
      with k(2) none show "list_nodes ?s3 (L_node k) = None \<and> list_els ?s3 k = None \<and> list_sizes ?s3 k = None" by simp
    qed
  qed
  then show thesis by (intro that [OF er rep' _ _ none]) simp_all
qed

section \<open>Whole lists\<close>

text \<open>The elements from an iterator on, as the macro \<^verbatim>\<open>cc_for_each\<close> visits them.\<close>

lemma for_each_from:
  assumes rep: "list_rep s h ph ns xs"
  shows "i \<le> length ns \<Longrightarrow> length ns - i < fuel \<Longrightarrow> for_each_loop fuel h (itr_of ph ns i) s = Inr (drop i xs)"
proof (induction fuel arbitrary: i)
  case (Suc fuel)
  have lx: "length xs = length ns" using rep by (rule list_rep_length)
  show ?case
  proof (cases "i < length ns")
    case True
    have "list_els s (ns ! i) = Some (xs ! i)"
      using rep True lx nth_map [of i ns "list_els s"] nth_map [of i xs Some] unfolding list_rep_def by metis
    moreover have "for_each_loop fuel h (itr_of ph ns (Suc i)) s = Inr (drop (Suc i) xs)"
      by (rule Suc.IH) (use Suc.prems True in simp_all)
    moreover have "drop i xs = xs ! i # drop (Suc i) xs" using True lx by (simp add: Cons_nth_drop_Suc)
    moreover have "itr_of ph ns i = L_node (ns ! i)" using True by (simp add: itr_of_def)
    ultimately show ?thesis using list_ends(2) [OF rep] list_next_at [OF rep True] by (simp add: get_el_def)
  next
    case False
    then show ?thesis using Suc.prems list_ends(2) [OF rep] lx by (simp add: itr_of_def)
  qed
qed simp

lemma for_each_list:
  assumes "list_rep s h ph ns xs"
  shows "cc_for_each h s = Inr xs"
  using for_each_from [OF assms, of 0 "Suc (length ns)"] list_first_at [OF assms] list_ends(4) [OF assms]
    list_rep_length [OF assms]
  by (simp add: cc_for_each_def del: for_each_loop.simps)

text \<open>Clearing ends, and gives every node back; cleaning up gives the header back as well.\<close>

lemma clear_loop_at:
  assumes "list_rep s h ph ns xs" and "length ns < fuel"
  shows "\<exists>s'. clear_loop fuel h None s m = Inr (s', m) \<and> list_rep s' h ph [] [] \<and> (fresh_list s m \<longrightarrow> fresh_list s' m) \<and>
     (\<forall>k. k \<in> set ns \<or> list_nodes s (L_node k) = None \<longrightarrow> list_nodes s' (L_node k) = None)"
  using assms
proof (induction fuel arbitrary: s ns xs)
  case (Suc fuel)
  note ends = list_first_at [OF Suc.prems(1)] list_ends(2) [OF Suc.prems(1)]
  show ?case
  proof (cases "ns = []")
    case True
    then have "xs = []" using list_rep_length [OF Suc.prems(1)] by simp
    with True ends Suc.prems(1) show ?thesis by (auto simp: itr_of_def)
  next
    case False
    then have i: "0 < length ns" by simp
    obtain s1 where 1: "cc_list_erase h (itr_of ph ns 0) None s m = Inr (itr_of ph (take 0 ns @ drop (Suc 0) ns) 0, s1, m)"
      "list_rep s1 h ph (take 0 ns @ drop (Suc 0) ns) (take 0 xs @ drop (Suc 0) xs)" "list_nodes s1 (L_node (ns ! 0)) = None"
      "fresh_list s m \<Longrightarrow> brk m \<le> brk m \<Longrightarrow> fresh_list s1 m"
      "\<And>k. list_nodes s (L_node k) = None \<Longrightarrow> list_nodes s1 (L_node k) = None"
      by (rule list_erase_at [OF Suc.prems(1) i, of None m m]) (simp add: dtor_run_def, rule that)
    have rep1: "list_rep s1 h ph (tl ns) (tl xs)" using 1(2) by (simp add: drop_Suc)
    obtain s' where s': "clear_loop fuel h None s1 m = Inr (s', m)" "list_rep s' h ph [] []" "fresh_list s1 m \<longrightarrow> fresh_list s' m"
      "\<forall>k. k \<in> set (tl ns) \<or> list_nodes s1 (L_node k) = None \<longrightarrow> list_nodes s' (L_node k) = None"
      using Suc.IH [OF rep1] Suc.prems(2) False by (cases ns) auto
    have ne: "itr_of ph ns 0 \<noteq> L_end ph" using i by (simp add: itr_of_def)
    have c: "clear_loop (Suc fuel) h None s m = Inr (s', m)" using ends ne 1(1) s'(1) by simp
    have "list_nodes s' (L_node k) = None" if "k \<in> set ns \<or> list_nodes s (L_node k) = None" for k
    proof -
      have "k = ns ! 0 \<or> k \<in> set (tl ns) \<or> list_nodes s (L_node k) = None" using that False by (cases ns) auto
      then show ?thesis using s'(4) 1(3,5) by (elim disjE) simp_all
    qed
    with c s'(2,3) 1(4) show ?thesis by blast
  qed
qed simp

lemma list_clear_at:
  assumes "list_rep s h ph ns xs"
  obtains s' where "cc_list_clear h None s m = Inr (s', m)" and "list_rep s' h ph [] []"
    and "\<And>k. k \<in> set ns \<Longrightarrow> list_nodes s' (L_node k) = None" and "fresh_list s m \<Longrightarrow> fresh_list s' m"
proof -
  have f: "length ns < Suc (length xs)" using list_rep_length [OF assms] by simp
  obtain s' where 1: "clear_loop (Suc (length xs)) h None s m = Inr (s', m)" "list_rep s' h ph [] []" "fresh_list s m \<longrightarrow> fresh_list s' m"
     "\<forall>k. k \<in> set ns \<or> list_nodes s (L_node k) = None \<longrightarrow> list_nodes s' (L_node k) = None"
    using clear_loop_at [OF assms f, of m] by blast
  have "cc_list_clear h None s m = Inr (s', m)" using 1(1) list_ends(4) [OF assms] by (simp add: cc_list_clear_def del: clear_loop.simps)
  then show thesis by (rule that [OF _ 1(2)]) (use 1(3,4) in simp_all)
qed

lemma list_cleanup_at:
  assumes rep: "list_rep s h ph ns xs"
  obtains s' where "cc_list_cleanup h None s m = Inr (s', m)" and "list_rep s' ph ph [] []"
    and "\<And>k. k \<in> set ns \<Longrightarrow> list_nodes s' (L_node k) = None"
    and "h \<noteq> ph \<Longrightarrow> list_nodes s' (L_rend h) = None \<and> list_nodes s' (L_end h) = None \<and> list_sizes s' h = None"
proof -
  obtain s1 where 1: "cc_list_clear h None s m = Inr (s1, m)" "list_rep s1 h ph [] []"
    "\<And>k. k \<in> set ns \<Longrightarrow> list_nodes s1 (L_node k) = None" by (rule list_clear_at [OF rep]) (rule that)
  note p = list_ends(3) [OF 1(2)]
  show thesis
  proof (cases "h = ph")
    case True
    then have "cc_list_cleanup h None s m = Inr (s1, m)" using 1(1) p by (simp add: cc_list_cleanup_def)
    then show thesis by (rule that) (use 1(2,3) True in simp_all)
  next
    case False
    let ?s = "s1\<lparr>list_nodes := (list_nodes s1)(L_rend h := None, L_end h := None), list_sizes := (list_sizes s1)(h := None)\<rparr>"
    have "list_sizes s1 h = Some 0" "\<not> list_const s1 h" using 1(2) False by (simp_all add: list_rep_def)
    then have "cc_list_cleanup h None s m = Inr (?s, m)"
      using 1(1) p False by (simp add: cc_list_cleanup_def free_hdr_def)
    then show thesis by (rule that) (use 1(2,3) False in \<open>simp_all add: list_rep_def is_placeholder_def\<close>)
  qed
qed

section \<open>Sequences of operations\<close>

text \<open>The operations, at positions; the iterator of a position is reached from the first.\<close>

datatype 'a list_op = List_push 'a | List_insert nat 'a | List_erase nat | List_clear

fun nth_itr :: "nat \<Rightarrow> nat \<Rightarrow> lnode \<Rightarrow> 'a lstore \<Rightarrow> lnode res" where
  "nth_itr 0 h i s = Inr i"
| "nth_itr (Suc k) h i s = bnd (cc_list_next h i s) (\<lambda>i. nth_itr k h i s)"

definition itr_at :: "nat \<Rightarrow> nat \<Rightarrow> 'a lstore \<Rightarrow> lnode res" where
  "itr_at k h s = bnd (cc_list_first h s) (\<lambda>i. nth_itr k h i s)"

fun run_list_op :: "'a list_op \<Rightarrow> nat \<times> 'a lstore \<times> mem \<Rightarrow> (nat \<times> 'a lstore \<times> mem) res" where
  "run_list_op (List_push x) (h, s, m) = bnd (cc_list_push h x s m) (\<lambda>(h, _, s, m). Inr (h, s, m))"
| "run_list_op (List_insert k x) (h, s, m) =
     bnd (itr_at k h s) (\<lambda>i. bnd (cc_list_insert h x i s m) (\<lambda>(h, _, s, m). Inr (h, s, m)))"
| "run_list_op (List_erase k) (h, s, m) =
     bnd (itr_at k h s) (\<lambda>i. bnd (cc_list_erase h i None s m) (\<lambda>(_, s, m). Inr (h, s, m)))"
| "run_list_op List_clear (h, s, m) = bnd (cc_list_clear h None s m) (\<lambda>(s, m). Inr (h, s, m))"

fun run_list_ops :: "'a list_op list \<Rightarrow> nat \<times> 'a lstore \<times> mem \<Rightarrow> (nat \<times> 'a lstore \<times> mem) res" where
  "run_list_ops [] z = Inr z"
| "run_list_ops (p # ps) z = bnd (run_list_op p z) (run_list_ops ps)"

text \<open>The same on lists; a position out of range is no operation.\<close>

fun spec_list_op :: "'a list_op \<Rightarrow> 'a list \<Rightarrow> 'a list option" where
  "spec_list_op (List_push x) xs = Some (xs @ [x])"
| "spec_list_op (List_insert k x) xs = (if k \<le> length xs then Some (take k xs @ x # drop k xs) else None)"
| "spec_list_op (List_erase k) xs = (if k < length xs then Some (take k xs @ drop (Suc k) xs) else None)"
| "spec_list_op List_clear xs = Some []"

fun spec_list_ops :: "'a list_op list \<Rightarrow> 'a list \<Rightarrow> 'a list option" where
  "spec_list_ops [] xs = Some xs"
| "spec_list_ops (p # ps) xs = (case spec_list_op p xs of None \<Rightarrow> None | Some xs \<Rightarrow> spec_list_ops ps xs)"

lemma nth_itr_at:
  "list_rep s h ph ns xs \<Longrightarrow> i + k \<le> length ns \<Longrightarrow> nth_itr k h (itr_of ph ns i) s = Inr (itr_of ph ns (i + k))"
proof (induction k arbitrary: i)
  case (Suc k)
  then have "cc_list_next h (itr_of ph ns i) s = Inr (itr_of ph ns (Suc i))" by (intro list_next_at) simp_all
  moreover have "nth_itr k h (itr_of ph ns (Suc i)) s = Inr (itr_of ph ns (Suc i + k))" using Suc by simp
  ultimately show ?case by simp
qed simp

lemma itr_at_rep: "list_rep s h ph ns xs \<Longrightarrow> k \<le> length ns \<Longrightarrow> itr_at k h s = Inr (itr_of ph ns k)"
  using list_first_at [of s h ph ns xs] nth_itr_at [of s h ph ns xs 0 k] by (simp add: itr_at_def)

lemma spec_list_op_length: "spec_list_op p xs = Some ys \<Longrightarrow> length ys \<le> Suc (length xs)"
  by (cases p) (auto split: if_splits)

lemma list_op_refines:
  assumes rep: "list_rep s h ph ns xs" and fr: "fresh_list s m" and av: "always_avail m" and len: "Suc (length xs) < SIZE_MOD"
    and sp: "spec_list_op p xs = Some ys"
  shows "\<exists>h' s' m' ns'. run_list_op p (h, s, m) = Inr (h', s', m') \<and> list_rep s' h' ph ns' ys \<and> fresh_list s' m' \<and> always_avail m'"
proof -
  have lx: "length xs = length ns" using rep by (rule list_rep_length)
  note e = list_ends(2) [OF rep]
  have ln: "Suc (length ns) < SIZE_MOD" using len lx by simp
  have ins: "\<exists>h' itr s' m' ns'. cc_list_insert h x (itr_of ph ns k) s m = Inr (h', itr, s', m') \<and>
      list_rep s' h' ph ns' (take k xs @ x # drop k xs) \<and> fresh_list s' m' \<and> always_avail m'" if k: "k \<le> length ns" for k x
    using rep fr k ln
  proof (cases rule: list_insert_at [where x = x, case_names refused inserted])
    case (refused h' s' m')
    then show ?thesis using av by (auto simp: always_avail_def)
  next
    case (inserted h' n s' m')
    then have "always_avail m'" using av by (auto simp: always_avail_def mem_ahead_def)
    with inserted show ?thesis by blast
  qed
  show ?thesis
  proof (cases p)
    case (List_push x)
    have "cc_list_push h x s m = cc_list_insert h x (itr_of ph ns (length ns)) s m"
      using e by (simp add: cc_list_push_def itr_of_def)
    with ins [of "length ns" x] List_push sp lx show ?thesis by fastforce
  next
    case (List_insert k x)
    then have k: "k \<le> length ns" "ys = take k xs @ x # drop k xs" using sp lx by (simp_all split: if_splits)
    with ins [OF k(1), of x] itr_at_rep [OF rep k(1)] List_insert show ?thesis by fastforce
  next
    case (List_erase k)
    then have k: "k < length ns" "ys = take k xs @ drop (Suc k) xs" using sp lx by (simp_all split: if_splits)
    obtain s' where "cc_list_erase h (itr_of ph ns k) None s m = Inr (itr_of ph (take k ns @ drop (Suc k) ns) k, s', m)"
      "list_rep s' h ph (take k ns @ drop (Suc k) ns) ys" "fresh_list s' m"
      by (rule list_erase_at [OF rep k(1), of None m m]) (simp_all add: dtor_run_def fr k(2))
    with itr_at_rep [OF rep less_imp_le [OF k(1)]] List_erase av show ?thesis by auto
  next
    case List_clear
    obtain s' where "cc_list_clear h None s m = Inr (s', m)" "list_rep s' h ph [] []" "fresh_list s' m"
      by (rule list_clear_at [OF rep, of m]) (simp_all add: fr)
    with List_clear sp av show ?thesis by auto
  qed
qed

lemma list_ops_at:
  "list_rep s h ph ns xs \<Longrightarrow> fresh_list s m \<Longrightarrow> always_avail m \<Longrightarrow> length xs + length ops < SIZE_MOD \<Longrightarrow>
     spec_list_ops ops xs = Some ys \<Longrightarrow>
     \<exists>h' s' m' ns'. run_list_ops ops (h, s, m) = Inr (h', s', m') \<and> list_rep s' h' ph ns' ys"
proof (induction ops arbitrary: h s m ns xs)
  case (Cons p ops)
  from Cons.prems(5) obtain zs where z: "spec_list_op p xs = Some zs" "spec_list_ops ops zs = Some ys"
    by (auto split: option.splits)
  have "Suc (length xs) < SIZE_MOD" using Cons.prems(4) by simp
  from list_op_refines [OF Cons.prems(1-3) this z(1)] obtain h1 s1 m1 ns1 where
    1: "run_list_op p (h, s, m) = Inr (h1, s1, m1)" "list_rep s1 h1 ph ns1 zs" "fresh_list s1 m1" "always_avail m1" by blast
  have "length zs + length ops < SIZE_MOD" using spec_list_op_length [OF z(1)] Cons.prems(4) by simp
  from Cons.IH [OF 1(2-4) this z(2)] 1(1) show ?case by simp
qed auto

text \<open>
  C32: Any sequence of insertions, removals and clears at positions in range does to the list - with its
  sentinels, its placeholder and its header that is made on the first insertion - what it does to a
  sequence of elements, without a fault: iterating over the result visits these elements in order, and
  their number is the size.
\<close>

theorem list_ops_refine:
  assumes "list_rep s h ph ns xs" and "fresh_list s m" and "always_avail m" and "length xs + length ops < SIZE_MOD"
    and "spec_list_ops ops xs = Some ys"
  shows "\<exists>h' s' m'. run_list_ops ops (h, s, m) = Inr (h', s', m') \<and> cc_for_each h' s' = Inr ys \<and>
     cc_list_size h' s' = Inr (length ys) \<and> (\<exists>ns'. list_rep s' h' ph ns' ys)"
proof -
  obtain h' s' m' ns' where "run_list_ops ops (h, s, m) = Inr (h', s', m')" "list_rep s' h' ph ns' ys"
    using list_ops_at [OF assms] by blast
  then show ?thesis using for_each_list [of s' h' ph ns' ys] list_ends(4) [of s' h' ph ns' ys] by auto
qed

definition empty_list :: "'a lstore" where
  "empty_list = cc_list_placeholder 0
     \<lparr>list_nodes = (\<lambda>_. None), list_els = (\<lambda>_. None), list_sizes = (\<lambda>_. None), list_const = (\<lambda>_. False)\<rparr>"

lemma empty_list_rep: "list_rep empty_list 0 0 [] []" "fresh_list empty_list (heap_mem cs)" "always_avail (heap_mem cs)"
  by (simp_all add: list_rep_def is_placeholder_def empty_list_def cc_list_placeholder_def fresh_list_def heap_mem_def)
    (simp add: always_avail_def empty_mem_def)

lemma list_ops_refine_witness:
  "\<exists>h s m. run_list_ops [List_push 1, List_push 2, List_insert 1 5, List_erase 0] (0, empty_list, heap_mem []) = Inr (h, s, m) \<and>
     cc_for_each h s = Inr [5, 2 :: nat]"
  using list_ops_refine [OF empty_list_rep, of "[List_push 1, List_push 2, List_insert 1 5, List_erase 0]" "[5, 2 :: nat]" "[]"]
  by auto

section \<open>Splicing an element before itself\<close>

lemma sizes_irrelevant:
  "cc_list_end h (s\<lparr>list_sizes := z\<rparr>) = cc_list_end h s" "cc_list_next h i (s\<lparr>list_sizes := z\<rparr>) = cc_list_next h i s"
  "get_el i (s\<lparr>list_sizes := z\<rparr>) = get_el i s" "cc_list_first h (s\<lparr>list_sizes := z\<rparr>) = cc_list_first h s"
proof -
  have g: "get_node (s\<lparr>list_sizes := z\<rparr>) n = get_node s n" for n by (simp add: get_node_def)
  show "cc_list_end h (s\<lparr>list_sizes := z\<rparr>) = cc_list_end h s" "get_el i (s\<lparr>list_sizes := z\<rparr>) = get_el i s"
    by (simp_all add: cc_list_end_def g get_el_def split: lnode.split)
  show n: "cc_list_next h i (s\<lparr>list_sizes := z\<rparr>) = cc_list_next h i s" for i
    by (simp add: cc_list_next_def cc_list_r_end_def g cong: if_cong)
  show "cc_list_first h (s\<lparr>list_sizes := z\<rparr>) = cc_list_first h s" by (simp add: cc_list_first_def n)
qed

lemma for_each_loop_sizes: "for_each_loop fuel h i (s\<lparr>list_sizes := z\<rparr>) = for_each_loop fuel h i s"
  by (induction fuel arbitrary: i) (simp_all add: sizes_irrelevant cong: if_cong)

lemma splice_core:
  assumes "list_nodes s (L_node n) = Some \<lparr>prev_node = p, next_node = q\<rparr>" and "list_nodes s p = Some hp"
    and "list_nodes s q = Some hq" and "\<not> read_only_node s p" and "\<not> read_only_node s q"
    and "p \<noteq> L_node n" and "p \<noteq> q" and "L_node n \<noteq> q" and w: "with_hdr h s m = Inr (Some h, s, m)"
    and s2: "s2 = s\<lparr>list_nodes := (list_nodes s)(p := Some (hp\<lparr>next_node := q\<rparr>), q := Some (hq\<lparr>prev_node := p\<rparr>))\<rparr>"
    and lo: "local_itr h (L_node n) s2 = Inr (L_node n)"
    and "list_sizes s h = Some k" and "\<not> list_const s h" and "0 < k" and "k < SIZE_MOD"
  shows "cc_list_splice h (L_node n) h (L_node n) s m = Inr (h, True,
     s2\<lparr>list_nodes := (list_nodes s2)(L_node n := Some \<lparr>prev_node = L_node n, next_node = L_node n\<rparr>),
        list_sizes := (list_sizes s2)(h := Some k)\<rparr>, m)"
proof -
  have ro: "read_only_node (s\<lparr>list_nodes := f\<rparr>) y = read_only_node s y" for f y by (cases y) simp_all
  have n2: "list_nodes s2 (L_node n) = Some \<lparr>prev_node = p, next_node = q\<rparr>" using assms(1,6,8) by (simp add: s2)
  have at: "cc_list_attach h (L_node n) (L_node n) s2 =
      Inr (s2\<lparr>list_nodes := (list_nodes s2)(L_node n := Some \<lparr>prev_node = L_node n, next_node = L_node n\<rparr>)\<rparr>)"
    using n2 lo by (simp add: cc_list_attach_def set_next_def set_prev_def get_node_def put_node_def)
  have k: "sz_add (sz_sub k (Suc 0)) (Suc 0) = k" using assms(14,15) by (simp add: sz_sub_exact)
  let ?s1 = "s\<lparr>list_nodes := (list_nodes s)(p := Some (hp\<lparr>next_node := q\<rparr>))\<rparr>"
  have u: "set_next s p q = Inr ?s1" "get_node ?s1 (L_node n) = Inr \<lparr>prev_node = p, next_node = q\<rparr>" "set_prev ?s1 q p = Inr s2"
    using assms(1-8) unfolding s2 by (simp_all add: set_next_def set_prev_def get_node_def put_node_def ro)
  have g: "get_node s (L_node n) = Inr \<lparr>prev_node = p, next_node = q\<rparr>" using assms(1) by (simp add: get_node_def)
  show ?thesis
    using w g u at assms(12,13) k by (simp add: cc_list_splice_def add_size_def) (simp add: s2)
qed

text \<open>
  Moving an element in front of itself, which should change nothing, takes it out of the list: its
  node points to itself from then on, the size is not changed, and iteration leaves the element out.
\<close>

theorem splice_before_itself:
  assumes "list_rep s h ph ns xs" and "i < length ns"
  shows "\<exists>s'. cc_list_splice h (itr_of ph ns i) h (itr_of ph ns i) s m = Inr (h, True, s', m) \<and>
     cc_list_size h s' = Inr (length xs) \<and> cc_for_each h s' = Inr (take i xs @ drop (Suc i) xs)"
proof -
  let ?n = "ns ! i" and ?p = "chain h ns ! i" and ?q = "chain h ns ! Suc (Suc i)"
  have lx: "length xs = length ns" using assms(1) by (rule list_rep_length)
  obtain hp hq where 1: "h \<noteq> ph" "list_nodes s (L_node ?n) = Some \<lparr>prev_node = ?p, next_node = ?q\<rparr>" "list_nodes s ?p = Some hp"
    "list_nodes s ?q = Some hq" "\<not> read_only_node s ?p" "\<not> read_only_node s ?q" "distinct [?p, L_node ?n, ?q]"
    by (rule node_at [OF assms]) (rule that)
  let ?s2 = "s\<lparr>list_nodes := (list_nodes s)(?p := Some (hp\<lparr>next_node := ?q\<rparr>), ?q := Some (hq\<lparr>prev_node := ?p\<rparr>))\<rparr>"
  let ?s3 = "?s2\<lparr>list_nodes := (list_nodes ?s2)(L_node ?n := Some \<lparr>prev_node = L_node ?n, next_node = L_node ?n\<rparr>),
     list_sizes := (list_sizes ?s2)(h := Some (length ns))\<rparr>"
  let ?r = "\<lambda>s'. list_rep (s'\<lparr>list_sizes := (list_sizes s)(h := Some (length ns - 1))\<rparr>) h ph
     (take i ns @ drop (Suc i) ns) (take i xs @ drop (Suc i) xs)"
  have ne: "?p \<noteq> L_node ?n" "?p \<noteq> ?q" "L_node ?n \<noteq> ?q" using 1(7) by auto
  have r2: "?r ?s2" by (rule bypassed [OF assms 1(3,4)]) (use 1(1) ne in auto)
  have r3: "?r ?s3" by (rule bypassed [OF assms 1(3,4)]) (use 1(1) ne in auto)
  have sz: "list_sizes s h = Some (length ns)" "\<not> list_const s h" "length ns < SIZE_MOD" "0 < length ns"
    using assms 1(1) by (auto simp: list_rep_def)
  have w: "with_hdr h s m = Inr (Some h, s, m)" using list_ends(3) [OF assms(1)] 1(1) by (simp add: with_hdr_def)
  have lo: "local_itr h (L_node ?n) ?s2 = Inr (L_node ?n)"
    using list_ends(1,2) [OF r2] by (simp add: local_itr_def cc_list_r_end_def cc_list_end_def get_node_def)
  have sp: "cc_list_splice h (L_node ?n) h (L_node ?n) s m = Inr (h, True, ?s3, m)"
    by (rule splice_core [OF 1(2-6) ne w refl lo sz(1,2,4,3)])
  have len: "length (take i ns @ drop (Suc i) ns) - 0 < Suc (length ns)" using assms(2) by simp
  have "for_each_loop (Suc (length ns)) h (itr_of ph (take i ns @ drop (Suc i) ns) 0) ?s3 = Inr (take i xs @ drop (Suc i) xs)"
    using for_each_from [OF r3 _ len] by (simp add: for_each_loop_sizes del: for_each_loop.simps)
  moreover have "cc_list_first h ?s3 = Inr (itr_of ph (take i ns @ drop (Suc i) ns) 0)"
    using list_first_at [OF r3] by (simp only: sizes_irrelevant)
  ultimately have "cc_for_each h ?s3 = Inr (take i xs @ drop (Suc i) xs)"
    by (simp add: cc_for_each_def cc_list_size_def del: for_each_loop.simps)
  moreover have "cc_list_size h ?s3 = Inr (length xs)" using lx by (simp add: cc_list_size_def)
  moreover have "itr_of ph ns i = L_node ?n" using assms(2) by (simp add: itr_of_def)
  ultimately show ?thesis using sp by auto
qed

lemma splice_before_itself_witness:
  "\<exists>h s m itr s'. run_list_ops [List_push 7, List_push 8] (0, empty_list, heap_mem []) = Inr (h, s, m) \<and>
     cc_for_each h s = Inr [7, 8 :: nat] \<and> cc_list_splice h itr h itr s m = Inr (h, True, s', m) \<and>
     cc_list_size h s' = Inr 2 \<and> cc_for_each h s' = Inr [8]"
proof -
  obtain h s m ns where 1: "run_list_ops [List_push 7, List_push 8] (0, empty_list, heap_mem []) = Inr (h, s, m)"
    "list_rep s h 0 ns [7, 8 :: nat]"
    using list_ops_at [OF empty_list_rep, of "[List_push 7, List_push 8]" "[7, 8 :: nat]" "[]"] by auto
  have "0 < length ns" using list_rep_length [OF 1(2)] by auto
  from splice_before_itself [OF 1(2) this, of m] 1 for_each_list [OF 1(2)] show ?thesis by fastforce
qed

end
