(* ===== verification/CcHash.thy ===== *)
theory CcHash
  imports StringProps
begin

text \<open>
  The hash functions of the container library (\<^verbatim>\<open>extern/cc/include/cc.h\<close>): the mixer for
  integers, and \<^verbatim>\<open>cc_wyhash\<close> for strings, whose wide multiplication has two forms in the source -
  with a type of 128 bits, and in pieces of 32 bits. Words are machine words; reads go through the
  checked memory.
\<close>

unbundle bit_operations_syntax

section \<open>Integers\<close>

definition cc_hash_uint64 :: "64 word \<Rightarrow> 64 word" where
  "cc_hash_uint64 val =
     (let val = val XOR drop_bit 23 val;
          val = val * 0x2127599BF4325C37;
          val = val XOR drop_bit 47 val
      in val)"

text \<open>The comparison of integers, for equality and in three ways.\<close>

definition cc_cmpr_three_way :: "int \<Rightarrow> int \<Rightarrow> int" where
  "cc_cmpr_three_way x y = of_bool (x > y) - of_bool (x < y)"

definition cc_cmpr_equal :: "int \<Rightarrow> int \<Rightarrow> bool" where
  "cc_cmpr_equal x y \<longleftrightarrow> x = y"

section \<open>Wide multiplication\<close>

text \<open>The low and the high half of a product: \<^verbatim>\<open>__uint128_t\<close>.\<close>

definition cc_wymum :: "64 word \<Rightarrow> 64 word \<Rightarrow> 64 word \<times> 64 word" where
  "cc_wymum a b = (let r = ucast a * ucast b :: 128 word in (ucast r, ucast (drop_bit 64 r)))"

text \<open>The form for targets without such a type. A comparison is 0 or 1.\<close>

definition cc_wymum_portable :: "64 word \<Rightarrow> 64 word \<Rightarrow> 64 word \<times> 64 word" where
  "cc_wymum_portable a b =
     (let ha = drop_bit 32 a; hb = drop_bit 32 b;
          la = ucast (ucast a :: 32 word); lb = ucast (ucast b :: 32 word);
          rh = ha * hb; rm0 = ha * lb; rm1 = hb * la; rl = la * lb;
          t = rl + push_bit 32 rm0;
          c = of_bool (t < rl);
          lo = t + push_bit 32 rm1;
          c = c + of_bool (lo < t);
          hi = rh + drop_bit 32 rm0 + drop_bit 32 rm1 + c
      in (lo, hi))"

definition cc_wymix :: "64 word \<Rightarrow> 64 word \<Rightarrow> 64 word" where
  "cc_wymix a b = (case cc_wymum a b of (a, b) \<Rightarrow> a XOR b)"

section \<open>Strings\<close>

text \<open>Bytes as a number, the least significant first: \<^verbatim>\<open>memcpy\<close> into an integer on a little-endian target.\<close>

fun le_bytes :: "char list \<Rightarrow> nat" where
  "le_bytes [] = 0"
| "le_bytes (c # cs) = of_char c + 256 * le_bytes cs"

definition cc_wyr8 :: "mem \<Rightarrow> ptr \<Rightarrow> 64 word res" where
  "cc_wyr8 m p = bnd (load_bytes m p 8) (\<lambda>bs. Inr (word_of_nat (le_bytes bs)))"

definition cc_wyr4 :: "mem \<Rightarrow> ptr \<Rightarrow> 64 word res" where
  "cc_wyr4 m p = bnd (load_bytes m p 4) (\<lambda>bs. Inr (word_of_nat (le_bytes bs)))"

definition cc_wyr3 :: "mem \<Rightarrow> ptr \<Rightarrow> nat \<Rightarrow> 64 word res" where
  "cc_wyr3 m p k =
     bnd (load_byte m p 0) (\<lambda>x.
     bnd (load_byte m p (drop_bit 1 k)) (\<lambda>y.
     bnd (load_byte m p (k - 1)) (\<lambda>z.
     Inr (push_bit 16 (word_of_nat (of_char x)) OR push_bit 8 (word_of_nat (of_char y)) OR word_of_nat (of_char z)))))"

definition wy_s0 :: "64 word" where "wy_s0 = 0x8BB84B93962EACC9"
definition wy_s1 :: "64 word" where "wy_s1 = 0x4B33A62ED433D4A3"
definition wy_s2 :: "64 word" where "wy_s2 = 0x4D5A2DA51DE1AA47"
definition wy_s3 :: "64 word" where "wy_s3 = 0x2D358DCCAA6C78A5"

text \<open>The loop over 48 bytes, with three seeds; \<open>k\<close> is how far \<^verbatim>\<open>p\<close> has moved.\<close>

function wy_loop48 :: "mem \<Rightarrow> ptr \<Rightarrow> nat \<Rightarrow> nat \<Rightarrow> 64 word \<times> 64 word \<times> 64 word \<Rightarrow>
    (nat \<times> nat \<times> 64 word \<times> 64 word \<times> 64 word) res" where
  "wy_loop48 m p k i (seed, see1, see2) =
     (if i < 48 then Inr (k, i, seed, see1, see2)
      else
        bnd (cc_wyr8 m (ptr_add p k)) (\<lambda>x0.
        bnd (cc_wyr8 m (ptr_add p (k + 8))) (\<lambda>x1.
        bnd (cc_wyr8 m (ptr_add p (k + 16))) (\<lambda>x2.
        bnd (cc_wyr8 m (ptr_add p (k + 24))) (\<lambda>x3.
        bnd (cc_wyr8 m (ptr_add p (k + 32))) (\<lambda>x4.
        bnd (cc_wyr8 m (ptr_add p (k + 40))) (\<lambda>x5.
        wy_loop48 m p (k + 48) (i - 48)
          (cc_wymix (x0 XOR wy_s0) (x1 XOR seed), cc_wymix (x2 XOR wy_s1) (x3 XOR see1),
           cc_wymix (x4 XOR wy_s2) (x5 XOR see2)))))))))"
  by pat_completeness auto
termination by (relation "measure (\<lambda>(m, p, k, i, s). i)") auto

declare wy_loop48.simps [simp del]

function wy_loop16 :: "mem \<Rightarrow> ptr \<Rightarrow> nat \<Rightarrow> nat \<Rightarrow> 64 word \<Rightarrow> (nat \<times> nat \<times> 64 word) res" where
  "wy_loop16 m p k i seed =
     (if i \<le> 16 then Inr (k, i, seed)
      else
        bnd (cc_wyr8 m (ptr_add p k)) (\<lambda>x0.
        bnd (cc_wyr8 m (ptr_add p (k + 8))) (\<lambda>x1.
        wy_loop16 m p (k + 16) (i - 16) (cc_wymix (x0 XOR wy_s0) (x1 XOR seed)))))"
  by pat_completeness auto
termination by (relation "measure (\<lambda>(m, p, k, i, s). i)") auto

declare wy_loop16.simps [simp del]

text \<open>The last two words are read backwards from the end, possibly from bytes that were read before.\<close>

definition cc_wyhash :: "mem \<Rightarrow> ptr \<Rightarrow> nat \<Rightarrow> 64 word res" where
  "cc_wyhash m p len =
     (let seed = 0xCA813BF4C7ABF0A9 in
      bnd (if len \<le> 16
           then if len \<ge> 4
             then let h = push_bit 2 (drop_bit 3 len) in
               bnd (cc_wyr4 m p) (\<lambda>a0.
               bnd (cc_wyr4 m (ptr_add p h)) (\<lambda>a1.
               bnd (cc_wyr4 m (ptr_add p (len - 4))) (\<lambda>b0.
               bnd (cc_wyr4 m (ptr_add p (len - 4 - h))) (\<lambda>b1.
               Inr (push_bit 32 a0 OR a1, push_bit 32 b0 OR b1, seed)))))
             else if len > 0 then bnd (cc_wyr3 m p len) (\<lambda>a. Inr (a, 0, seed))
             else Inr (0, 0, seed)
           else
             bnd (if len \<ge> 48
                  then bnd (wy_loop48 m p 0 len (seed, seed, seed)) (\<lambda>(k, i, seed, see1, see2).
                       Inr (k, i, seed XOR (see1 XOR see2)))
                  else Inr (0, len, seed)) (\<lambda>(k, i, seed).
             bnd (wy_loop16 m p k i seed) (\<lambda>(k, i, seed).
             bnd (cc_wyr8 m (ptr_add p (k + i - 16))) (\<lambda>a.
             bnd (cc_wyr8 m (ptr_add p (k + i - 8))) (\<lambda>b.
             Inr (a, b, seed))))))
        (\<lambda>(a, b, seed).
         case cc_wymum (a XOR wy_s0) (b XOR seed) of (a, b) \<Rightarrow>
           Inr (cc_wymix (a XOR wy_s3 XOR word_of_nat len) (b XOR wy_s0))))"

section \<open>The mixer loses nothing\<close>

lemma drop_bit_all: "64 \<le> n \<Longrightarrow> drop_bit n x = 0" for x :: "64 word"
  by (rule bit_word_eqI) (simp add: bit_simps)

lemma xorshift_23: "(x XOR drop_bit 23 x) XOR drop_bit 23 (x XOR drop_bit 23 x) XOR drop_bit 46 (x XOR drop_bit 23 x) = x"
  for x :: "64 word"
  by (simp add: drop_bit_all ac_simps)

lemma xorshift_47: "(x XOR drop_bit 47 x) XOR drop_bit 47 (x XOR drop_bit 47 x) = x" for x :: "64 word"
  by (simp add: drop_bit_all ac_simps)

text \<open>The multiplier is odd, so it has an inverse.\<close>

lemma mixer_inverse: "0x2127599BF4325C37 * 11654453480509151623 = (1 :: 64 word)"
  by simp

text \<open>
  The mixer for integers is injective: two numbers of 64 bits never have the same hash, so all
  collisions of a table come from cutting the hash to its size.
\<close>

theorem hash_uint64_inj: "cc_hash_uint64 x = cc_hash_uint64 y \<longleftrightarrow> x = y"
proof
  let ?f = "\<lambda>x :: 64 word. x XOR drop_bit 23 x" and ?g = "\<lambda>x :: 64 word. x XOR drop_bit 47 x"
  let ?c = "0x2127599BF4325C37 :: 64 word"
  assume "cc_hash_uint64 x = cc_hash_uint64 y"
  then have "?g (?f x * ?c) = ?g (?f y * ?c)" by (simp add: cc_hash_uint64_def Let_def)
  then have "?f x * ?c = ?f y * ?c" by (metis xorshift_47)
  then have "?f x * (?c * 11654453480509151623) = ?f y * (?c * 11654453480509151623)" by (simp only: mult.assoc [symmetric])
  then have "?f x = ?f y" unfolding mixer_inverse by simp
  then show "x = y" by (metis xorshift_23)
qed simp

section \<open>The portable product\<close>

lemma unat_halves:
  "unat (drop_bit 32 x) = unat x div 2 ^ 32" "unat (ucast (ucast x :: 32 word) :: 64 word) = unat x mod 2 ^ 32"
  "unat (push_bit 32 x) = 2 ^ 32 * (unat x mod 2 ^ 32)"
  for x :: "64 word"
  subgoal by (simp add: drop_bit_eq_div unat_div)
  subgoal by (simp add: unsigned_ucast_eq take_bit_eq_mod unat_mod)
  subgoal by (simp only: unsigned_push_bit_eq take_bit_push_bit) (simp add: push_bit_eq_mult take_bit_eq_mod)
  done

lemma unat_mult_exact: "unat x * unat y < 2 ^ 64 \<Longrightarrow> unat (x * y) = unat x * unat y" for x y :: "64 word"
  by (simp add: unat_word_ariths)

lemma carry: "unat x + unat y = unat (x + y) + 2 ^ 64 * of_bool (x + y < x)" for x y :: "64 word"
  using unsigned_less [of x, where ?'a = nat] unsigned_less [of y, where ?'a = nat]
  by (auto simp: unat_plus_if_size word_less_nat_alt word_size split: if_splits)

lemma unat_add_exact: "unat x + unat y < 2 ^ 64 \<Longrightarrow> unat (x + y) = unat x + unat y" for x y :: "64 word"
  by (simp add: unat_word_ariths)

text \<open>Both forms give the product of the numbers.\<close>

lemma wymum_product:
  "unat (snd (cc_wymum a b)) * 2 ^ 64 + unat (fst (cc_wymum a b)) = unat a * unat b"
proof -
  have "unat a * unat b < 2 ^ 64 * 2 ^ 64"
    using unsigned_less [of a, where ?'a = nat] unsigned_less [of b, where ?'a = nat] by (intro mult_strict_mono) simp_all
  moreover have "unat (ucast x :: 128 word) = unat x" for x :: "64 word"
    using unsigned_less [of x, where ?'a = nat] by (simp add: unsigned_ucast_eq take_bit_nat_eq_self)
  ultimately have r: "unat (ucast a * ucast b :: 128 word) = unat a * unat b" by (simp add: unat_word_ariths)
  have "unat (ucast (drop_bit 64 r) :: 64 word) = unat r div 2 ^ 64" "unat (ucast r :: 64 word) = unat r mod 2 ^ 64" for r :: "128 word"
    using unsigned_less [of r, where ?'a = nat]
    by (simp_all add: unsigned_ucast_eq take_bit_eq_mod drop_bit_eq_div unat_div less_mult_imp_div_less)
  then show ?thesis unfolding cc_wymum_def Let_def by (simp add: r)
qed

lemma portable_product:
  "unat (snd (cc_wymum_portable a b)) * 2 ^ 64 + unat (fst (cc_wymum_portable a b)) = unat a * unat b"
proof -
  define ha hb la lb where w: "ha = drop_bit 32 a" "hb = drop_bit 32 b" "la = (ucast (ucast a :: 32 word) :: 64 word)"
    "lb = (ucast (ucast b :: 32 word) :: 64 word)"
  define t lo where tl: "t = la * lb + push_bit 32 (ha * lb)" "lo = t + push_bit 32 (hb * la)"
  define c1 c2 :: nat where c: "c1 = of_bool (t < la * lb)" "c2 = of_bool (lo < t)"
  let ?M = "2 ^ 32 :: nat"
  have le: "unat x * unat y < 2 ^ 64" if "unat x < ?M" "unat y < ?M" for x y :: "64 word"
  proof -
    have "unat x * unat y < ?M * ?M" using that by (intro mult_strict_mono) simp_all
    then show ?thesis by simp
  qed
  have h: "unat ha < ?M" "unat hb < ?M" "unat la < ?M" "unat lb < ?M"
    using unsigned_less [of a, where ?'a = nat] unsigned_less [of b, where ?'a = nat]
    by (simp_all add: w unat_halves less_mult_imp_div_less)
  note p = unat_mult_exact [OF le [OF h(1,2)]] unat_mult_exact [OF le [OF h(1,4)]]
    unat_mult_exact [OF le [OF h(2,3)]] unat_mult_exact [OF le [OF h(3,4)]]
  have A: "unat a = unat ha * ?M + unat la" and B: "unat b = unat hb * ?M + unat lb"
    by (simp_all add: w unat_halves)
  have t: "unat la * unat lb + ?M * (unat ha * unat lb mod ?M) = unat t + 2 ^ 64 * c1"
    using carry [of "la * lb" "push_bit 32 (ha * lb)"] by (simp only: tl c p unat_halves)
  have lo: "unat t + ?M * (unat hb * unat la mod ?M) = unat lo + 2 ^ 64 * c2"
    using carry [of t "push_bit 32 (hb * la)"] by (simp only: tl c p unat_halves)
  let ?S = "unat ha * unat hb + unat ha * unat lb div ?M + unat hb * unat la div ?M + (c1 + c2)"
  have d: "?M * u = 2 ^ 64 * (u div ?M) + ?M * (u mod ?M)" for u :: nat
  proof -
    have "?M * u = ?M * (?M * (u div ?M) + u mod ?M)" by simp
    then show ?thesis unfolding distrib_left by simp
  qed
  have S: "unat a * unat b = ?S * 2 ^ 64 + unat lo"
  proof -
    have "unat a * unat b = unat ha * unat hb * 2 ^ 64 + ?M * (unat ha * unat lb) + ?M * (unat hb * unat la) + unat la * unat lb"
      unfolding A B by (simp add: algebra_simps)
    also have "\<dots> = unat ha * unat hb * 2 ^ 64 + 2 ^ 64 * (unat ha * unat lb div ?M) + 2 ^ 64 * (unat hb * unat la div ?M) +
        (unat la * unat lb + ?M * (unat ha * unat lb mod ?M)) + ?M * (unat hb * unat la mod ?M)"
      unfolding d [of "unat ha * unat lb"] d [of "unat hb * unat la"] by simp
    also have "\<dots> = ?S * 2 ^ 64 + unat lo" unfolding t using lo by (simp add: algebra_simps)
    finally show ?thesis .
  qed
  have "unat a * unat b < 2 ^ 64 * 2 ^ 64"
    using unsigned_less [of a, where ?'a = nat] unsigned_less [of b, where ?'a = nat] by (intro mult_strict_mono) simp_all
  then have "?S * 2 ^ 64 < 2 ^ 64 * 2 ^ 64" unfolding S by simp
  then have small: "?S < 2 ^ 64" by simp
  let ?c = "of_bool (t < la * lb) + of_bool (lo < t) :: 64 word"
  have "unat ?c = c1 + c2" by (simp add: c)
  then have hi: "unat (ha * hb + drop_bit 32 (ha * lb) + drop_bit 32 (hb * la) + ?c) = ?S"
    using small by (simp add: unat_add_exact unat_halves(1) p)
  have "fst (cc_wymum_portable a b) = lo" "snd (cc_wymum_portable a b) = ha * hb + drop_bit 32 (ha * lb) + drop_bit 32 (hb * la) + ?c"
    by (simp_all only: cc_wymum_portable_def Let_def w tl fst_conv snd_conv)
  then show ?thesis by (simp only: hi S)
qed

text \<open>
  C37: The two forms of the wide multiplication agree: the one in pieces of 32 bits, with its carries,
  delivers both halves of the product of 128 bits.
\<close>

theorem wymum_portable_eq: "cc_wymum_portable a b = cc_wymum a b"
proof -
  let ?p = "cc_wymum_portable a b" and ?q = "cc_wymum a b"
  have e: "unat (snd ?p) * 2 ^ 64 + unat (fst ?p) = unat (snd ?q) * 2 ^ 64 + unat (fst ?q)"
    unfolding portable_product wymum_product ..
  have l: "unat (fst ?p) < 2 ^ 64" "unat (fst ?q) < 2 ^ 64"
    using unsigned_less [of "fst ?p", where ?'a = nat] unsigned_less [of "fst ?q", where ?'a = nat] by simp_all
  have "unat (fst ?p) = (unat (snd ?p) * 2 ^ 64 + unat (fst ?p)) mod 2 ^ 64" using l(1) by simp
  also have "\<dots> = unat (fst ?q)" unfolding e using l(2) by simp
  finally have f: "fst ?p = fst ?q" unfolding word_unat_eq_iff .
  with e have "snd ?p = snd ?q" unfolding word_unat_eq_iff by simp
  with f show ?thesis by (rule prod_eqI)
qed

section \<open>The reads of the string hash\<close>

text \<open>Reads of a part of the bytes.\<close>

lemma wyr8_at:
  assumes "load_bytes m p len = Inr bs" and "k + 8 \<le> len"
  shows "cc_wyr8 m (ptr_add p k) = Inr (word_of_nat (le_bytes (take 8 (drop k bs))))"
  using load_bytes_sub [OF assms] by (simp add: cc_wyr8_def)

lemma wyr4_at:
  assumes "load_bytes m p len = Inr bs" and "k + 4 \<le> len"
  shows "cc_wyr4 m (ptr_add p k) = Inr (word_of_nat (le_bytes (take 4 (drop k bs))))"
  using load_bytes_sub [OF assms] by (simp add: cc_wyr4_def)

lemma wyr3_at:
  assumes "load_bytes m p len = Inr bs" and "0 < len"
  shows "cc_wyr3 m p len = Inr (push_bit 16 (word_of_nat (of_char (bs ! 0))) OR
    push_bit 8 (word_of_nat (of_char (bs ! (len div 2)))) OR word_of_nat (of_char (bs ! (len - 1))))"
  using load_byte_nth [OF assms(1), of 0] load_byte_nth [OF assms(1), of "len div 2"] load_byte_nth [OF assms(1), of "len - 1"] assms(2)
  by (simp add: cc_wyr3_def drop_bit_eq_div)

lemma wy_loop48_at:
  assumes "load_bytes m p len = Inr bs" and "load_bytes m' p' len = Inr bs" and "k + i = len"
  shows "\<exists>k' i' s'. wy_loop48 m p k i s = Inr (k', i', s') \<and> wy_loop48 m' p' k i s = Inr (k', i', s') \<and> k' + i' = len"
  using assms(3)
proof (induction i arbitrary: k s rule: less_induct)
  case (less i)
  obtain x y z where s: "s = (x, y, z)" by (cases s)
  show ?case
  proof (cases "i < 48")
    case True
    with less.prems s show ?thesis by (simp add: wy_loop48.simps)
  next
    case False
    let ?w = "\<lambda>j. word_of_nat (le_bytes (take 8 (drop (k + j) bs))) :: 64 word"
    let ?s = "(cc_wymix (?w 0 XOR wy_s0) (?w 8 XOR x), cc_wymix (?w 16 XOR wy_s1) (?w 24 XOR y),
           cc_wymix (?w 32 XOR wy_s2) (?w 40 XOR z))"
    have r: "cc_wyr8 m (ptr_add p (k + j)) = Inr (?w j)" "cc_wyr8 m' (ptr_add p' (k + j)) = Inr (?w j)" if "j \<le> 40" for j
      using wyr8_at [OF assms(1), of "k + j"] wyr8_at [OF assms(2), of "k + j"] less.prems False that by simp_all
    have "wy_loop48 m p k i s = wy_loop48 m p (k + 48) (i - 48) ?s" "wy_loop48 m' p' k i s = wy_loop48 m' p' (k + 48) (i - 48) ?s"
      using False r [of 0] r [of 8] r [of 16] r [of 24] r [of 32] r [of 40]
      by (simp_all add: s wy_loop48.simps [where i = i])
    with less.IH [of "i - 48" "k + 48" ?s] less.prems False show ?thesis by simp
  qed
qed

lemma wy_loop16_at:
  assumes "load_bytes m p len = Inr bs" and "load_bytes m' p' len = Inr bs" and "k + i = len" and "16 < len"
  shows "\<exists>k' i' s'. wy_loop16 m p k i s = Inr (k', i', s') \<and> wy_loop16 m' p' k i s = Inr (k', i', s') \<and> k' + i' = len"
  using assms(3)
proof (induction i arbitrary: k s rule: less_induct)
  case (less i)
  show ?case
  proof (cases "i \<le> 16")
    case True
    with less.prems show ?thesis by (simp add: wy_loop16.simps)
  next
    case False
    let ?w = "\<lambda>j. word_of_nat (le_bytes (take 8 (drop (k + j) bs))) :: 64 word"
    let ?s = "cc_wymix (?w 0 XOR wy_s0) (?w 8 XOR s)"
    have r: "cc_wyr8 m (ptr_add p (k + j)) = Inr (?w j)" "cc_wyr8 m' (ptr_add p' (k + j)) = Inr (?w j)" if "j \<le> 8" for j
      using wyr8_at [OF assms(1), of "k + j"] wyr8_at [OF assms(2), of "k + j"] less.prems False that by simp_all
    have "wy_loop16 m p k i s = wy_loop16 m p (k + 16) (i - 16) ?s" "wy_loop16 m' p' k i s = wy_loop16 m' p' (k + 16) (i - 16) ?s"
      using False r [of 0] r [of 8] by (simp_all add: wy_loop16.simps [where i = i])
    with less.IH [of "i - 16" "k + 16" ?s] less.prems False show ?thesis by simp
  qed
qed

lemma wyhash_short:
  assumes "load_bytes m p len = Inr bs" and "load_bytes m' p' len = Inr bs" and "len \<le> 16"
  shows "\<exists>h. cc_wyhash m p len = Inr h \<and> cc_wyhash m' p' len = Inr h"
proof -
  consider "len = 0" | "0 < len" "len < 4" | "4 \<le> len" "len \<le> 16" using assms(3) by linarith
  then show ?thesis
  proof cases
    case 1
    then show ?thesis by (simp add: cc_wyhash_def Let_def split: prod.split)
  next
    case 2
    then show ?thesis using wyr3_at [OF assms(1)] wyr3_at [OF assms(2)] by (simp add: cc_wyhash_def Let_def split: prod.split)
  next
    case 3
    let ?h = "push_bit 2 (drop_bit 3 len)"
    have "len div 8 * 4 + 4 \<le> len" using 3 by (cases "len < 8") auto
    then have h: "?h + 4 \<le> len" "len - 4 - ?h + 4 \<le> len" using 3 by (simp_all add: push_bit_eq_mult drop_bit_eq_div)
    have "\<exists>x. cc_wyr4 m (ptr_add p k) = Inr x \<and> cc_wyr4 m' (ptr_add p' k) = Inr x" if "k + 4 \<le> len" for k
      using wyr4_at [OF assms(1) that] wyr4_at [OF assms(2) that] by simp
    from this [of 0] this [OF h(1)] this [of "len - 4"] this [OF h(2)] 3 show ?thesis
      by (auto simp: cc_wyhash_def Let_def split: prod.split)
  qed
qed

lemma wyhash_long:
  assumes "load_bytes m p len = Inr bs" and "load_bytes m' p' len = Inr bs" and 16: "16 < len"
  shows "\<exists>h. cc_wyhash m p len = Inr h \<and> cc_wyhash m' p' len = Inr h"
proof -
  let ?seed = "0xCA813BF4C7ABF0A9 :: 64 word"
  let ?a = "\<lambda>m p. if len \<ge> 48 then bnd (wy_loop48 m p 0 len (?seed, ?seed, ?seed)) (\<lambda>(k, i, seed, see1, see2).
                     Inr (k, i, seed XOR (see1 XOR see2))) else Inr (0, len, ?seed)"
  have "\<exists>k i s. ?a m p = Inr (k, i, s) \<and> ?a m' p' = Inr (k, i, s) \<and> k + i = len"
  proof (cases "48 \<le> len")
    case True
    have "0 + len = len" by simp
    from wy_loop48_at [OF assms(1,2) this, of "(?seed, ?seed, ?seed)"] obtain k i s1 s2 s3 where
      "wy_loop48 m p 0 len (?seed, ?seed, ?seed) = Inr (k, i, s1, s2, s3)"
      "wy_loop48 m' p' 0 len (?seed, ?seed, ?seed) = Inr (k, i, s1, s2, s3)" "k + i = len" by (metis prod_cases3)
    with True show ?thesis by (simp only: if_True bnd_simps prod.case) blast
  qed simp
  then obtain k i s where a: "?a m p = Inr (k, i, s)" "?a m' p' = Inr (k, i, s)" "k + i = len" by (elim exE conjE)
  obtain k2 i2 s2 where b: "wy_loop16 m p k i s = Inr (k2, i2, s2)" "wy_loop16 m' p' k i s = Inr (k2, i2, s2)" "k2 + i2 = len"
    using wy_loop16_at [OF assms(1,2) a(3) 16, of s] by blast
  have "\<exists>x. cc_wyr8 m (ptr_add p j) = Inr x \<and> cc_wyr8 m' (ptr_add p' j) = Inr x" if "j + 8 \<le> len" for j
    using wyr8_at [OF assms(1) that] wyr8_at [OF assms(2) that] by simp
  from this [of "len - 16"] this [of "len - 8"] 16 obtain x y where
    x: "cc_wyr8 m (ptr_add p (len - 16)) = Inr x" "cc_wyr8 m' (ptr_add p' (len - 16)) = Inr x" and
    y: "cc_wyr8 m (ptr_add p (len - 8)) = Inr y" "cc_wyr8 m' (ptr_add p' (len - 8)) = Inr y" by auto
  have "\<not> len \<le> 16" using 16 by simp
  then have w: "cc_wyhash m p len = (case cc_wymum (x XOR wy_s0) (y XOR s2) of (a, b) \<Rightarrow>
      Inr (cc_wymix (a XOR wy_s3 XOR word_of_nat len) (b XOR wy_s0)))"
    if "?a m p = Inr (k, i, s)" "wy_loop16 m p k i s = Inr (k2, i2, s2)" "cc_wyr8 m (ptr_add p (len - 16)) = Inr x"
      "cc_wyr8 m (ptr_add p (len - 8)) = Inr y" for m p
    unfolding cc_wyhash_def Let_def by (simp only: that b(3) if_False bnd_simps prod.case)
  show ?thesis unfolding w [OF a(1) b(1) x(1) y(1)] w [OF a(2) b(2) x(2) y(2)] by (simp split: prod.split)
qed

text \<open>
  C38: The string hash stays inside its string, whatever the length: none of its reads - the overlapping ones
  of a short string, the loops, the two words read back from the end - leaves the bytes it is given, and
  its value depends on them alone, not on where they lie or what follows them.
\<close>

theorem wyhash_of_bytes:
  assumes "load_bytes m p len = Inr bs" and "load_bytes m' p' len = Inr bs"
  shows "\<exists>h. cc_wyhash m p len = Inr h \<and> cc_wyhash m' p' len = Inr h"
proof (cases "len \<le> 16")
  case True
  with assms show ?thesis by (rule wyhash_short)
next
  case False
  then have "16 < len" by simp
  with assms show ?thesis by (rule wyhash_long)
qed

lemma wyhash_of_bytes_witness:
  "\<exists>h. cc_wyhash empty_mem (lit ''convenient containers'') 21 = Inr h \<and> cc_wyhash empty_mem (lit ''convenient containersXYZ'') 21 = Inr h"
  by (rule wyhash_of_bytes [where bs = "''convenient containers''"]) (simp_all add: load_bytes_def)

end
