(* ===== verification/CcStr.thy ===== *)
theory CcStr
  imports CcHash
begin

text \<open>
  The string of the container library (\<^verbatim>\<open>extern/cc/include/cc.h\<close>): a dynamic array of
  characters of one, two or four bytes that ends in a terminator, with insertion of formatted
  values, comparison and hashing. \<open>w\<close> is \<^verbatim>\<open>el_size\<close>, the size of a character.

  The elements are bytes of the checked memory. The header and the elements are one block of the
  allocator: the block is kept with the 24 bytes of the header in front, whose fields are the record
  \<open>cc_str\<close>. A handle belongs to one variable, the one the macros update; copies of a handle are
  values that still name the old block.
\<close>

section \<open>The header\<close>

record cc_str =
  cs_hdr :: ptr
  cs_size :: size_t
  cs_cap :: size_t
  cs_data :: ptr

text \<open>\<^verbatim>\<open>sizeof(cc_str_hdr_ty)\<close>: two sizes and a pointer.\<close>

abbreviation HDR :: nat where "HDR \<equiv> 24"

text \<open>A product of \<^verbatim>\<open>size_t\<close>.\<close>

definition sz_mul :: "size_t \<Rightarrow> size_t \<Rightarrow> size_t" where
  "sz_mul a b = (a * b) mod SIZE_MOD"

lemma sz_mul_exact [simp]: "a * b < SIZE_MOD \<Longrightarrow> sz_mul a b = a * b"
  by (simp add: sz_mul_def)

text \<open>
  The placeholder of strings without storage; its data is an empty literal of the type, which holds
  the terminator of \<open>w\<close> bytes.
\<close>

definition cc_str_placeholder :: "nat \<Rightarrow> cc_str" where
  "cc_str_placeholder w = \<lparr>cs_hdr = lit [], cs_size = 0, cs_cap = 0, cs_data = lit (replicate (w - 1) NUL)\<rparr>"

definition cc_str_size :: "cc_str \<Rightarrow> size_t" where
  "cc_str_size s = cs_size s"

definition cc_str_cap :: "cc_str \<Rightarrow> size_t" where
  "cc_str_cap s = cs_cap s"

definition cc_str_is_placeholder :: "cc_str \<Rightarrow> bool" where
  "cc_str_is_placeholder s \<longleftrightarrow> cs_cap s = 0"

definition cc_str_get :: "nat \<Rightarrow> cc_str \<Rightarrow> size_t \<Rightarrow> ptr" where
  "cc_str_get w s key = ptr_add (cs_data s) (sz_mul w key)"

section \<open>Growing\<close>

text \<open>
  The size of the block is computed in \<^verbatim>\<open>size_t\<close> and wraps around. The stores into the new
  header need its 24 bytes.
\<close>

definition cc_str_reserve :: "nat \<Rightarrow> cc_str \<Rightarrow> size_t \<Rightarrow> mem \<Rightarrow> (bool \<times> cc_str \<times> mem) res" where
  "cc_str_reserve w s n m =
     (if cc_str_cap s \<ge> n then Inr (True, s, m)
      else let is_placeholder = cc_str_is_placeholder s in
        bnd (realloc (if is_placeholder then NULL else cs_hdr s) (sz_add (sz_add HDR (sz_mul w n)) w) m) (\<lambda>(new, m).
        if new = NULL then Inr (False, s, m)
        else bnd (load_bytes m new HDR) (\<lambda>_.
          let s = s\<lparr>cs_hdr := new, cs_data := ptr_add new HDR\<rparr> in
          if is_placeholder
          then bnd (memset (cs_data s) NUL w m) (\<lambda>m. Inr (True, s\<lparr>cs_size := 0, cs_cap := n\<rparr>, m))
          else Inr (True, s\<lparr>cs_cap := n\<rparr>, m))))"

text \<open>
  The loop that doubles the capacity. A capacity that has wrapped around to zero stays zero, and
  the loop never ends; 64 doublings show it.
\<close>

fun cs_grow :: "nat \<Rightarrow> size_t \<Rightarrow> size_t \<Rightarrow> size_t res" where
  "cs_grow 0 cap n = Inl No_fuel"
| "cs_grow (Suc fuel) cap n = (if cap < n then cs_grow fuel (sz_mul cap 2) n else Inr cap)"

definition cs_make_room :: "nat \<Rightarrow> cc_str \<Rightarrow> size_t \<Rightarrow> mem \<Rightarrow> (bool \<times> cc_str \<times> mem) res" where
  "cs_make_room w s n m =
     (if sz_add (cc_str_size s) n > cc_str_cap s
      then bnd (cs_grow 65 (if cc_str_cap s = 0 then 2 else cc_str_cap s) (sz_add (cc_str_size s) n))
             (\<lambda>cap. cc_str_reserve w s cap m)
      else Inr (True, s, m))"

section \<open>Insertion\<close>

definition memmove :: "ptr \<Rightarrow> ptr \<Rightarrow> nat \<Rightarrow> mem \<Rightarrow> mem res" where
  "memmove d s n m = bnd (load_bytes m s n) (\<lambda>bs. store_bytes m d bs)"

text \<open>The pointer-iterator of the result is null when nothing was inserted.\<close>

definition cc_str_insert_n ::
  "nat \<Rightarrow> cc_str \<Rightarrow> size_t \<Rightarrow> ptr \<Rightarrow> size_t \<Rightarrow> mem \<Rightarrow> (ptr \<times> cc_str \<times> mem) res" where
  "cc_str_insert_n w s index els n m =
     (if n = 0 then Inr (NULL, s, m)
      else bnd (cs_make_room w s n m) (\<lambda>(ok, s, m).
        if \<not> ok then Inr (NULL, s, m)
        else let new_els = ptr_add (cs_data s) (sz_mul w index) in
          bnd (memmove (ptr_add new_els (sz_mul n w)) new_els (sz_add (sz_mul w (sz_sub (cs_size s) index)) w) m) (\<lambda>m.
          bnd (memcpy new_els els (sz_mul w n) m) (\<lambda>m.
          Inr (new_els, s\<lparr>cs_size := sz_add (cs_size s) n\<rparr>, m)))))"

definition cc_str_insert :: "nat \<Rightarrow> cc_str \<Rightarrow> ptr \<Rightarrow> size_t \<Rightarrow> mem \<Rightarrow> (ptr \<times> cc_str \<times> mem) res" where
  "cc_str_insert w s el key m = cc_str_insert_n w s key el 1 m"

definition cc_str_push_n :: "nat \<Rightarrow> cc_str \<Rightarrow> ptr \<Rightarrow> size_t \<Rightarrow> mem \<Rightarrow> (ptr \<times> cc_str \<times> mem) res" where
  "cc_str_push_n w s els n m = cc_str_insert_n w s (cc_str_size s) els n m"

definition cc_str_push :: "nat \<Rightarrow> cc_str \<Rightarrow> ptr \<Rightarrow> mem \<Rightarrow> (ptr \<times> cc_str \<times> mem) res" where
  "cc_str_push w s el m = cc_str_push_n w s el 1 m"

section \<open>Removal and resizing\<close>

definition cc_str_erase_n ::
  "nat \<Rightarrow> cc_str \<Rightarrow> size_t \<Rightarrow> size_t \<Rightarrow> mem \<Rightarrow> (ptr \<times> cc_str \<times> mem) res" where
  "cc_str_erase_n w s index n m =
     (if n = 0 then Inr (ptr_add (cs_data s) (sz_mul w index), s, m)
      else
        bnd (memmove (ptr_add (cs_data s) (sz_mul w index)) (ptr_add (cs_data s) (sz_mul w (sz_add index n)))
               (sz_add (sz_mul (sz_sub (sz_sub (cs_size s) n) index) w) w) m) (\<lambda>m.
        Inr (ptr_add (cs_data s) (sz_mul w index), s\<lparr>cs_size := sz_sub (cs_size s) n\<rparr>, m)))"

definition cc_str_erase :: "nat \<Rightarrow> cc_str \<Rightarrow> size_t \<Rightarrow> mem \<Rightarrow> (ptr \<times> cc_str \<times> mem) res" where
  "cc_str_erase w s key m = cc_str_erase_n w s key 1 m"

text \<open>The loop of copies of the fill character, with the place behind the last one.\<close>

fun cs_fill_loop :: "nat \<Rightarrow> nat \<Rightarrow> ptr \<Rightarrow> ptr \<Rightarrow> mem \<Rightarrow> (ptr \<times> mem) res" where
  "cs_fill_loop w 0 new_el fill_el m = Inr (new_el, m)"
| "cs_fill_loop w (Suc k) new_el fill_el m =
     bnd (memcpy new_el fill_el w m) (\<lambda>m. cs_fill_loop w k (ptr_add new_el w) fill_el m)"

definition cc_str_resize :: "nat \<Rightarrow> cc_str \<Rightarrow> size_t \<Rightarrow> ptr \<Rightarrow> mem \<Rightarrow> (bool \<times> cc_str \<times> mem) res" where
  "cc_str_resize w s n fill_el m =
     (if n = cc_str_size s then Inr (True, s, m)
      else if n < cc_str_size s
      then bnd (cc_str_erase_n w s n (cc_str_size s - n) m) (\<lambda>(_, s, m). Inr (True, s, m))
      else bnd (cc_str_reserve w s n m) (\<lambda>(ok, s, m).
        if \<not> ok then Inr (False, s, m)
        else bnd (cs_fill_loop w (n - cs_size s) (ptr_add (cs_data s) (sz_mul w (cc_str_size s))) fill_el m) (\<lambda>(new_el, m).
             bnd (memset new_el NUL w m) (\<lambda>m.
             Inr (True, s\<lparr>cs_size := n\<rparr>, m)))))"

definition cc_str_clear :: "nat \<Rightarrow> cc_str \<Rightarrow> mem \<Rightarrow> (cc_str \<times> mem) res" where
  "cc_str_clear w s m =
     (if \<not> cc_str_is_placeholder s
      then bnd (memset (cs_data s) NUL w m) (\<lambda>m. Inr (s\<lparr>cs_size := 0\<rparr>, m))
      else Inr (s, m))"

definition cc_str_shrink :: "nat \<Rightarrow> cc_str \<Rightarrow> mem \<Rightarrow> (bool \<times> cc_str \<times> mem) res" where
  "cc_str_shrink w s m =
     (if cc_str_size s = cc_str_cap s then Inr (True, s, m)
      else if cc_str_size s = 0
      then bnd (mfree (cs_hdr s) m) (\<lambda>m. Inr (True, cc_str_placeholder w, m))
      else bnd (realloc (cs_hdr s) (sz_add (sz_add HDR (sz_mul w (cc_str_size s))) w) m) (\<lambda>(new, m).
        if new = NULL then Inr (False, s, m)
        else Inr (True, s\<lparr>cs_hdr := new, cs_cap := cs_size s, cs_data := ptr_add new HDR\<rparr>, m)))"

text \<open>The copy, or \<open>None\<close> for the null pointer.\<close>

definition cc_str_init_clone :: "nat \<Rightarrow> cc_str \<Rightarrow> mem \<Rightarrow> (cc_str option \<times> mem) res" where
  "cc_str_init_clone w src m =
     (if cc_str_size src = 0 then Inr (Some (cc_str_placeholder w), m)
      else bnd (cc_str_reserve w (cc_str_placeholder w) (cc_str_size src) m) (\<lambda>(ok, s, m).
        if \<not> ok then Inr (None, m)
        else bnd (memcpy (cs_data s) (cs_data src) (sz_add (sz_mul w (cc_str_size src)) w) m) (\<lambda>m.
             Inr (Some (s\<lparr>cs_size := cc_str_size src\<rparr>), m))))"

definition cc_str_cleanup :: "cc_str \<Rightarrow> mem \<Rightarrow> mem res" where
  "cc_str_cleanup s m = (if \<not> cc_str_is_placeholder s then mfree (cs_hdr s) m else Inr m)"

section \<open>Pointer-iterators\<close>

definition cc_str_end :: "nat \<Rightarrow> cc_str \<Rightarrow> ptr" where
  "cc_str_end w s = ptr_add (cs_data s) (sz_mul w (cc_str_size s))"

definition cc_str_next :: "nat \<Rightarrow> ptr \<Rightarrow> ptr" where
  "cc_str_next w itr = ptr_add itr w"

definition cc_str_first :: "cc_str \<Rightarrow> ptr" where
  "cc_str_first s = cs_data s"

text \<open>The size of an empty string wraps around: the pointer is none into the string.\<close>

definition cc_str_last :: "nat \<Rightarrow> cc_str \<Rightarrow> ptr" where
  "cc_str_last w s = ptr_add (cs_data s) (sz_mul w (sz_sub (cc_str_size s) 1))"

section \<open>C strings\<close>

text \<open>The characters in front of the terminator, counted in the bytes from a pointer on.\<close>

function el_scan :: "nat \<Rightarrow> char list \<Rightarrow> nat res" where
  "el_scan w bs =
     (if w = 0 \<or> length bs < w then Inl Out_of_bounds
      else if take w bs = replicate w NUL then Inr 0
      else bnd (el_scan w (drop w bs)) (\<lambda>n. Inr (Suc n)))"
  by pat_completeness auto
termination by (relation "measure (\<lambda>(w, bs). length bs)") auto

declare el_scan.simps [simp del]

definition cc_strlen_char16 :: "mem \<Rightarrow> ptr \<Rightarrow> nat res" where
  "cc_strlen_char16 m p = bnd (tail_bytes m p) (el_scan 2)"

definition cc_strlen_char32 :: "mem \<Rightarrow> ptr \<Rightarrow> nat res" where
  "cc_strlen_char32 m p = bnd (tail_bytes m p) (el_scan 4)"

text \<open>A string of its own from a C string; all three use the placeholder of \<^verbatim>\<open>char\<close>.\<close>

definition cs_from_cstring :: "nat \<Rightarrow> nat \<Rightarrow> ptr \<Rightarrow> mem \<Rightarrow> (cc_str option \<times> mem) res" where
  "cs_from_cstring w n p m =
     (if n = 0 then Inr (Some (cc_str_placeholder 1), m)
      else bnd (realloc NULL (HDR + w * n + w) m) (\<lambda>(hdr, m).
        if hdr = NULL then Inr (None, m)
        else bnd (memcpy (ptr_add hdr HDR) p (w * n + w) m) (\<lambda>m.
             Inr (Some \<lparr>cs_hdr = hdr, cs_size = n, cs_cap = n, cs_data = ptr_add hdr HDR\<rparr>, m))))"

definition cc_cstring_to_str_char8 :: "ptr \<Rightarrow> mem \<Rightarrow> (cc_str option \<times> mem) res" where
  "cc_cstring_to_str_char8 p m = bnd (c_strlen m p) (\<lambda>n. cs_from_cstring 1 n p m)"

definition cc_cstring_to_str_char16 :: "ptr \<Rightarrow> mem \<Rightarrow> (cc_str option \<times> mem) res" where
  "cc_cstring_to_str_char16 p m = bnd (cc_strlen_char16 m p) (\<lambda>n. cs_from_cstring 2 n p m)"

definition cc_cstring_to_str_char32 :: "ptr \<Rightarrow> mem \<Rightarrow> (cc_str option \<times> mem) res" where
  "cc_cstring_to_str_char32 p m = bnd (cc_strlen_char32 m p) (\<lambda>n. cs_from_cstring 4 n p m)"

text \<open>A temporary string around a C string: the header \<open>hdr\<close> is an object of the caller.\<close>

definition cs_temp :: "ptr \<Rightarrow> nat \<Rightarrow> ptr \<Rightarrow> cc_str" where
  "cs_temp hdr n p = \<lparr>cs_hdr = hdr, cs_size = n, cs_cap = n, cs_data = p\<rparr>"

definition cc_cstring_to_temp_str_char8 :: "mem \<Rightarrow> ptr \<Rightarrow> ptr \<Rightarrow> cc_str res" where
  "cc_cstring_to_temp_str_char8 m p hdr = bnd (c_strlen m p) (\<lambda>n. Inr (cs_temp hdr n p))"

definition cc_cstring_to_temp_str_char16 :: "mem \<Rightarrow> ptr \<Rightarrow> ptr \<Rightarrow> cc_str res" where
  "cc_cstring_to_temp_str_char16 m p hdr = bnd (cc_strlen_char16 m p) (\<lambda>n. Inr (cs_temp hdr n p))"

definition cc_cstring_to_temp_str_char32 :: "mem \<Rightarrow> ptr \<Rightarrow> ptr \<Rightarrow> cc_str res" where
  "cc_cstring_to_temp_str_char32 m p hdr = bnd (cc_strlen_char32 m p) (\<lambda>n. Inr (cs_temp hdr n p))"

section \<open>Comparison and hashing\<close>

definition c_strcmp :: "mem \<Rightarrow> ptr \<Rightarrow> ptr \<Rightarrow> int res" where
  "c_strcmp m p q =
     bnd (tail_bytes m p) (\<lambda>xs. bnd (tail_bytes m q) (\<lambda>ys. strncmp_bytes (Suc (length xs)) xs ys))"

definition cc_cmpr_cstring_three_way :: "mem \<Rightarrow> ptr \<Rightarrow> ptr \<Rightarrow> int res" where
  "cc_cmpr_cstring_three_way m p q = c_strcmp m p q"

definition cc_cmpr_cstring_equal :: "mem \<Rightarrow> ptr \<Rightarrow> ptr \<Rightarrow> bool res" where
  "cc_cmpr_cstring_equal m p q = bnd (c_strcmp m p q) (\<lambda>d. Inr (d = 0))"

definition cc_hash_cstring :: "mem \<Rightarrow> ptr \<Rightarrow> 64 word res" where
  "cc_hash_cstring m p = bnd (c_strlen m p) (\<lambda>n. cc_wyhash m p n)"

text \<open>The same for the three types of one byte.\<close>

definition cc_cmpr_str_char_three_way :: "mem \<Rightarrow> cc_str \<Rightarrow> cc_str \<Rightarrow> int res" where
  "cc_cmpr_str_char_three_way m s t = c_strcmp m (cc_str_first s) (cc_str_first t)"

text \<open>The loop over characters that are unsigned numbers.\<close>

function el_cmp :: "nat \<Rightarrow> char list \<Rightarrow> char list \<Rightarrow> int res" where
  "el_cmp w xs ys =
     (if w = 0 \<or> length xs < w \<or> length ys < w then Inl Out_of_bounds
      else let x = le_bytes (take w xs); y = le_bytes (take w ys) in
        if x < y then Inr (- 1) else if x > y then Inr 1 else if x = 0 then Inr 0
        else el_cmp w (drop w xs) (drop w ys))"
  by pat_completeness auto
termination by (relation "measure (\<lambda>(w, xs, ys). length xs)") auto

declare el_cmp.simps [simp del]

definition cc_cmpr_str_char16_three_way :: "mem \<Rightarrow> cc_str \<Rightarrow> cc_str \<Rightarrow> int res" where
  "cc_cmpr_str_char16_three_way m s t =
     bnd (tail_bytes m (cc_str_first s)) (\<lambda>xs. bnd (tail_bytes m (cc_str_first t)) (\<lambda>ys. el_cmp 2 xs ys))"

definition cc_cmpr_str_char32_three_way :: "mem \<Rightarrow> cc_str \<Rightarrow> cc_str \<Rightarrow> int res" where
  "cc_cmpr_str_char32_three_way m s t =
     bnd (tail_bytes m (cc_str_first s)) (\<lambda>xs. bnd (tail_bytes m (cc_str_first t)) (\<lambda>ys. el_cmp 4 xs ys))"

definition memcmp_eq :: "mem \<Rightarrow> ptr \<Rightarrow> ptr \<Rightarrow> nat \<Rightarrow> bool res" where
  "memcmp_eq m p q n = bnd (load_bytes m p n) (\<lambda>xs. bnd (load_bytes m q n) (\<lambda>ys. Inr (xs = ys)))"

text \<open>
  Six functions with one text, for the types of one byte and for \<^verbatim>\<open>char16_t\<close> and
  \<^verbatim>\<open>char32_t\<close> alike: the number of bytes compared is the number of characters.
\<close>

definition cc_cmpr_str_char_equal :: "mem \<Rightarrow> cc_str \<Rightarrow> cc_str \<Rightarrow> bool res" where
  "cc_cmpr_str_char_equal m s t =
     (if cc_str_size s \<noteq> cc_str_size t then Inr False
      else memcmp_eq m (cc_str_first s) (cc_str_first t) (cc_str_size s))"

definition cc_cmpr_str_char16_equal :: "mem \<Rightarrow> cc_str \<Rightarrow> cc_str \<Rightarrow> bool res" where
  "cc_cmpr_str_char16_equal m s t =
     (if cc_str_size s \<noteq> cc_str_size t then Inr False
      else memcmp_eq m (cc_str_first s) (cc_str_first t) (cc_str_size s))"

definition cc_cmpr_str_char32_equal :: "mem \<Rightarrow> cc_str \<Rightarrow> cc_str \<Rightarrow> bool res" where
  "cc_cmpr_str_char32_equal m s t =
     (if cc_str_size s \<noteq> cc_str_size t then Inr False
      else memcmp_eq m (cc_str_first s) (cc_str_first t) (cc_str_size s))"

definition cc_hash_str_char :: "mem \<Rightarrow> cc_str \<Rightarrow> 64 word res" where
  "cc_hash_str_char m s = cc_wyhash m (cc_str_first s) (cc_str_size s)"

definition cc_hash_str_char16 :: "mem \<Rightarrow> cc_str \<Rightarrow> 64 word res" where
  "cc_hash_str_char16 m s = cc_wyhash m (cc_str_first s) (sz_mul (cc_str_size s) 2)"

definition cc_hash_str_char32 :: "mem \<Rightarrow> cc_str \<Rightarrow> 64 word res" where
  "cc_hash_str_char32 m s = cc_wyhash m (cc_str_first s) (sz_mul (cc_str_size s) 4)"

end
