(* ===== verification/CcStrFmt.thy ===== *)
theory CcStrFmt
  imports CcStr
begin

text \<open>
  Formatted insertion into strings of the container library (\<^verbatim>\<open>extern/cc/include/cc.h\<close>):
  the arguments are wrapped into tagged values, counted, the string grows once, and they are
  printed into its buffer. An array of arguments whose last one carries \<^verbatim>\<open>is_final\<close> is
  a list, and the field \<^verbatim>\<open>formatted_length\<close> the list the first pass returns.
\<close>

section \<open>Arguments\<close>

text \<open>Numbers are the words the union holds; a floating-point number is its 64 bits.\<close>

datatype cc_wrapped_str_fmt_arg =
    Unsigned_integer "64 word"
  | Integer "64 word"
  | Floating "64 word"
  | C_string ptr
  | Str cc_str
  | Void_pointer ptr
  | Mode_integer_dec int
  | Mode_integer_hex int
  | Mode_integer_oct int
  | Mode_floating_dec int
  | Mode_floating_hex int
  | Mode_floating_sci int
  | Mode_floating_shortest int

text \<open>A character is a signed number.\<close>

definition cc_wrap_str_fmt_arg_char :: "8 word \<Rightarrow> cc_wrapped_str_fmt_arg" where
  "cc_wrap_str_fmt_arg_char arg = Integer (scast arg)"

definition cc_wrap_str_fmt_arg_unsigned_integer :: "64 word \<Rightarrow> cc_wrapped_str_fmt_arg" where
  "cc_wrap_str_fmt_arg_unsigned_integer arg = Unsigned_integer arg"

definition cc_wrap_str_fmt_arg_integer :: "64 word \<Rightarrow> cc_wrapped_str_fmt_arg" where
  "cc_wrap_str_fmt_arg_integer arg = Integer arg"

definition cc_wrap_str_fmt_arg_floating :: "64 word \<Rightarrow> cc_wrapped_str_fmt_arg" where
  "cc_wrap_str_fmt_arg_floating arg = Floating arg"

definition cc_wrap_str_fmt_arg_cstring :: "ptr \<Rightarrow> cc_wrapped_str_fmt_arg" where
  "cc_wrap_str_fmt_arg_cstring arg = C_string arg"

definition cc_wrap_str_fmt_arg_str :: "cc_str \<Rightarrow> cc_wrapped_str_fmt_arg" where
  "cc_wrap_str_fmt_arg_str arg = Str arg"

definition cc_wrap_str_fmt_arg_void_pointer :: "ptr \<Rightarrow> cc_wrapped_str_fmt_arg" where
  "cc_wrap_str_fmt_arg_void_pointer arg = Void_pointer arg"

definition cc_integer_dec :: "int \<Rightarrow> cc_wrapped_str_fmt_arg" where
  "cc_integer_dec min_digits = Mode_integer_dec min_digits"

definition cc_integer_hex :: "int \<Rightarrow> cc_wrapped_str_fmt_arg" where
  "cc_integer_hex min_digits = Mode_integer_hex min_digits"

definition cc_integer_oct :: "int \<Rightarrow> cc_wrapped_str_fmt_arg" where
  "cc_integer_oct min_digits = Mode_integer_oct min_digits"

definition cc_float_dec :: "int \<Rightarrow> cc_wrapped_str_fmt_arg" where
  "cc_float_dec precision = Mode_floating_dec precision"

definition cc_float_hex :: "int \<Rightarrow> cc_wrapped_str_fmt_arg" where
  "cc_float_hex precision = Mode_floating_hex precision"

definition cc_float_sci :: "int \<Rightarrow> cc_wrapped_str_fmt_arg" where
  "cc_float_sci precision = Mode_floating_sci precision"

definition cc_float_shortest :: "int \<Rightarrow> cc_wrapped_str_fmt_arg" where
  "cc_float_shortest significant_digits = Mode_floating_shortest significant_digits"

section \<open>Modes and texts\<close>

datatype integer_mode = Int_dec | Int_hex | Int_oct

datatype floating_mode = Flt_dec | Flt_hex | Flt_sci | Flt_shortest

record fmt_modes =
  integer_mode :: integer_mode
  integer_min_digits :: int
  floating_mode :: floating_mode
  floating_precision :: int

definition fmt_modes_init :: fmt_modes where
  "fmt_modes_init = \<lparr>integer_mode = Int_dec, integer_min_digits = 1, floating_mode = Flt_dec, floating_precision = 2\<rparr>"

fun set_mode :: "cc_wrapped_str_fmt_arg \<Rightarrow> fmt_modes \<Rightarrow> fmt_modes" where
  "set_mode (Mode_integer_dec d) st = st\<lparr>integer_mode := Int_dec, integer_min_digits := d\<rparr>"
| "set_mode (Mode_integer_hex d) st = st\<lparr>integer_mode := Int_hex, integer_min_digits := d\<rparr>"
| "set_mode (Mode_integer_oct d) st = st\<lparr>integer_mode := Int_oct, integer_min_digits := d\<rparr>"
| "set_mode (Mode_floating_dec d) st = st\<lparr>floating_mode := Flt_dec, floating_precision := d\<rparr>"
| "set_mode (Mode_floating_hex d) st = st\<lparr>floating_mode := Flt_hex, floating_precision := d\<rparr>"
| "set_mode (Mode_floating_sci d) st = st\<lparr>floating_mode := Flt_sci, floating_precision := d\<rparr>"
| "set_mode (Mode_floating_shortest d) st = st\<lparr>floating_mode := Flt_shortest, floating_precision := d\<rparr>"
| "set_mode _ st = st"

text \<open>
  What \<^verbatim>\<open>snprintf\<close> prints: numbers by the standard, with at least as many digits as the
  precision says (nothing for zero without digits; a negative precision counts as none, which is
  one digit). The texts of floating-point numbers and of pointers depend on the implementation of
  the C library, and are the parameters \<open>float_text\<close> and \<open>pointer_text\<close>.
\<close>

record print_env =
  float_text :: "floating_mode \<Rightarrow> int \<Rightarrow> 64 word \<Rightarrow> string"
  pointer_text :: "ptr \<Rightarrow> string"

definition num_char :: "nat \<Rightarrow> char" where
  "num_char d = ''0123456789abcdef'' ! d"

fun num_text :: "nat \<Rightarrow> nat \<Rightarrow> string" where
  "num_text b n = (if n = 0 \<or> b < 2 then [] else num_text b (n div b) @ [num_char (n mod b)])"

declare num_text.simps [simp del]

definition unsigned_text :: "nat \<Rightarrow> int \<Rightarrow> nat \<Rightarrow> string" where
  "unsigned_text b min_digits n =
     (let t = num_text b n; d = (if min_digits < 0 then 1 else nat min_digits)
      in replicate (d - length t) CHR ''0'' @ t)"

definition signed_text :: "int \<Rightarrow> int \<Rightarrow> string" where
  "signed_text min_digits i =
     (if i < 0 then CHR ''-'' # unsigned_text 10 min_digits (nat (- i)) else unsigned_text 10 min_digits (nat i))"

definition radix :: "integer_mode \<Rightarrow> nat" where
  "radix md = (case md of Int_dec \<Rightarrow> 10 | Int_hex \<Rightarrow> 16 | Int_oct \<Rightarrow> 8)"

fun printed :: "print_env \<Rightarrow> fmt_modes \<Rightarrow> cc_wrapped_str_fmt_arg \<Rightarrow> string" where
  "printed env st (Unsigned_integer i) = unsigned_text (radix (integer_mode st)) (integer_min_digits st) (unat i)"
| "printed env st (Integer i) =
     (if integer_mode st = Int_dec then signed_text (integer_min_digits st) (sint i)
      else unsigned_text (radix (integer_mode st)) (integer_min_digits st) (unat i))"
| "printed env st (Floating f) = float_text env (floating_mode st) (floating_precision st) f"
| "printed env st (Void_pointer p) = pointer_text env p"
| "printed env st _ = []"

section \<open>Counting\<close>

abbreviation SIZE_MAX :: size_t where "SIZE_MAX \<equiv> 18446744073709551615"

text \<open>
  \<^verbatim>\<open>snprintf\<close> answers a negative number for a text longer than an \<^verbatim>\<open>int\<close> can
  count. Nothing printed is treated like an error.
\<close>

definition printed_length :: "string \<Rightarrow> size_t" where
  "printed_length t = (if 0 < length t \<and> length t \<le> 2147483647 then length t else SIZE_MAX)"

fun formatted_length :: "print_env \<Rightarrow> nat \<Rightarrow> fmt_modes \<Rightarrow> cc_wrapped_str_fmt_arg \<Rightarrow> mem \<Rightarrow> size_t res" where
  "formatted_length env w st (Unsigned_integer i) m = Inr (printed_length (printed env st (Unsigned_integer i)))"
| "formatted_length env w st (Integer i) m = Inr (printed_length (printed env st (Integer i)))"
| "formatted_length env w st (Floating f) m = Inr (printed_length (printed env st (Floating f)))"
| "formatted_length env w st (Void_pointer p) m = Inr (printed_length (printed env st (Void_pointer p)))"
| "formatted_length env w st (C_string p) m =
     (if w = 1 then c_strlen m p else if w = 2 then cc_strlen_char16 m p else cc_strlen_char32 m p)"
| "formatted_length env w st (Str s) m = Inr (cs_size s)"
| "formatted_length env w st _ m = Inr 0"

text \<open>The first pass: the length of every argument, and their sum.\<close>

fun fmt_count ::
  "print_env \<Rightarrow> nat \<Rightarrow> fmt_modes \<Rightarrow> cc_wrapped_str_fmt_arg list \<Rightarrow> size_t \<Rightarrow> mem \<Rightarrow> (size_t list \<times> size_t) res" where
  "fmt_count env w st [] tot m = Inr ([], tot)"
| "fmt_count env w st (a # as) tot m =
     bnd (formatted_length env w st a m) (\<lambda>n.
     bnd (fmt_count env w (set_mode a st) as (if n \<noteq> SIZE_MAX then sz_add tot n else tot) m) (\<lambda>(ns, tot).
     Inr (n # ns, tot)))"

section \<open>Printing\<close>

text \<open>
  A character is widened to one of two or four bytes with its sign. The loop runs from the last
  character to the first, so that it does not overwrite what it still has to read.
\<close>

definition widen :: "nat \<Rightarrow> char \<Rightarrow> char list" where
  "widen w c = c # replicate (w - 1) (if of_char c < (128 :: nat) then NUL else CHR 0xFF)"

fun cc_snprintf_fixup :: "nat \<Rightarrow> ptr \<Rightarrow> nat \<Rightarrow> mem \<Rightarrow> mem res" where
  "cc_snprintf_fixup w first_char 0 m = Inr m"
| "cc_snprintf_fixup w first_char (Suc k) m =
     bnd (load_byte m first_char k) (\<lambda>c.
     bnd (store_bytes m (ptr_add first_char (w * k)) (widen w c)) (\<lambda>m.
     cc_snprintf_fixup w first_char k m))"

definition cc_snprintf_fixup_char16 :: "ptr \<Rightarrow> nat \<Rightarrow> mem \<Rightarrow> mem res" where
  "cc_snprintf_fixup_char16 = cc_snprintf_fixup 2"

definition cc_snprintf_fixup_char32 :: "ptr \<Rightarrow> nat \<Rightarrow> mem \<Rightarrow> mem res" where
  "cc_snprintf_fixup_char32 = cc_snprintf_fixup 4"

text \<open>The text goes into the buffer with a terminator, whose place gets its old byte back.\<close>

definition fmt_print :: "nat \<Rightarrow> string \<Rightarrow> ptr \<Rightarrow> size_t \<Rightarrow> mem \<Rightarrow> mem res" where
  "fmt_print w t cursor n m =
     bnd (load_byte m cursor n) (\<lambda>overwritten_char.
     bnd (store_bytes m cursor (take n t @ [NUL])) (\<lambda>m.
     bnd (store_bytes m (ptr_add cursor n) [overwritten_char]) (\<lambda>m.
     if w = 2 then cc_snprintf_fixup_char16 cursor n m
     else if w = 4 then cc_snprintf_fixup_char32 cursor n m
     else Inr m)))"

text \<open>The second pass. A string is read behind its header, wherever its data pointer points.\<close>

fun fmt_insert_arg ::
  "print_env \<Rightarrow> nat \<Rightarrow> fmt_modes \<Rightarrow> cc_wrapped_str_fmt_arg \<Rightarrow> size_t \<Rightarrow> ptr \<Rightarrow> mem \<Rightarrow> (ptr \<times> mem) res" where
  "fmt_insert_arg env w st (C_string p) n cursor m =
     bnd (memcpy cursor p (sz_mul n w) m) (\<lambda>m. Inr (ptr_add cursor (sz_mul n w), m))"
| "fmt_insert_arg env w st (Str s) n cursor m =
     bnd (memcpy cursor (ptr_add (cs_hdr s) HDR) (sz_mul n w) m) (\<lambda>m. Inr (ptr_add cursor (sz_mul n w), m))"
| "fmt_insert_arg env w st (Unsigned_integer i) n cursor m =
     bnd (fmt_print w (printed env st (Unsigned_integer i)) cursor n m) (\<lambda>m. Inr (ptr_add cursor (sz_mul n w), m))"
| "fmt_insert_arg env w st (Integer i) n cursor m =
     bnd (fmt_print w (printed env st (Integer i)) cursor n m) (\<lambda>m. Inr (ptr_add cursor (sz_mul n w), m))"
| "fmt_insert_arg env w st (Floating f) n cursor m =
     bnd (fmt_print w (printed env st (Floating f)) cursor n m) (\<lambda>m. Inr (ptr_add cursor (sz_mul n w), m))"
| "fmt_insert_arg env w st (Void_pointer p) n cursor m =
     bnd (fmt_print w (printed env st (Void_pointer p)) cursor n m) (\<lambda>m. Inr (ptr_add cursor (sz_mul n w), m))"
| "fmt_insert_arg env w st _ n cursor m = Inr (cursor, m)"

fun fmt_insert ::
  "print_env \<Rightarrow> nat \<Rightarrow> fmt_modes \<Rightarrow> (cc_wrapped_str_fmt_arg \<times> size_t) list \<Rightarrow> ptr \<Rightarrow> mem \<Rightarrow> mem res" where
  "fmt_insert env w st [] cursor m = Inr m"
| "fmt_insert env w st ((a, n) # as) cursor m =
     (if n \<noteq> SIZE_MAX
      then bnd (fmt_insert_arg env w st a n cursor m) (\<lambda>(cursor, m). fmt_insert env w (set_mode a st) as cursor m)
      else fmt_insert env w st as cursor m)"

section \<open>Insertion\<close>

definition cc_str_insert_wrapped_fmt_args ::
  "print_env \<Rightarrow> nat \<Rightarrow> cc_str \<Rightarrow> cc_wrapped_str_fmt_arg list \<Rightarrow> size_t \<Rightarrow> mem \<Rightarrow> (ptr \<times> cc_str \<times> mem) res" where
  "cc_str_insert_wrapped_fmt_args env w s args index m =
     bnd (fmt_count env w fmt_modes_init args 0 m) (\<lambda>(lens, tot).
     bnd (cs_make_room w s tot m) (\<lambda>(ok, s, m).
     if \<not> ok then Inr (NULL, s, m)
     else let new_els = ptr_add (cs_data s) (sz_mul w index) in
       bnd (memmove (ptr_add new_els (sz_mul tot w)) new_els (sz_add (sz_mul w (sz_sub (cs_size s) index)) w) m) (\<lambda>m.
       bnd (fmt_insert env w fmt_modes_init (zip args lens) new_els m) (\<lambda>m.
       Inr (new_els, s\<lparr>cs_size := sz_add (cs_size s) tot\<rparr>, m)))))"

definition cc_str_push_fmt ::
  "print_env \<Rightarrow> nat \<Rightarrow> cc_str \<Rightarrow> cc_wrapped_str_fmt_arg list \<Rightarrow> mem \<Rightarrow> (ptr \<times> cc_str \<times> mem) res" where
  "cc_str_push_fmt env w s args m = cc_str_insert_wrapped_fmt_args env w s args (cc_str_size s) m"

definition cc_str_insert_fmt ::
  "print_env \<Rightarrow> nat \<Rightarrow> cc_str \<Rightarrow> cc_wrapped_str_fmt_arg list \<Rightarrow> size_t \<Rightarrow> mem \<Rightarrow> (ptr \<times> cc_str \<times> mem) res" where
  "cc_str_insert_fmt env w s args index m = cc_str_insert_wrapped_fmt_args env w s args index m"

end
