(* ===== verification/CcStrRep.thy ===== *)
theory CcStrRep
  imports CcStrFmt
begin

text \<open>
  The bytes of a string of the container library: what the header and the block stand for, and how
  every operation changes them, with its frame.
\<close>

section \<open>Representation\<close>

text \<open>The sizes of the three kinds of characters, and a bound below which no size wraps around.\<close>

definition el_ok :: "nat \<Rightarrow> bool" where
  "el_ok w \<longleftrightarrow> w = 1 \<or> w = 2 \<or> w = 4"

abbreviation CS_MAX :: nat where "CS_MAX \<equiv> 1152921504606846976"

lemma el_okE [elim]: "el_ok w \<Longrightarrow> (0 < w \<Longrightarrow> w \<le> 4 \<Longrightarrow> P) \<Longrightarrow> P"
  by (auto simp: el_ok_def)

text \<open>The bytes \<open>t\<close> of the string in memory, with the terminator and the free bytes behind.\<close>

inductive cs_rep :: "nat \<Rightarrow> mem \<Rightarrow> cc_str \<Rightarrow> char list \<Rightarrow> bool" where
  placeholder: "cs_rep w m (cc_str_placeholder w) []"
| heap: "blocks m (Heap k) = Some (h @ t @ replicate w NUL @ r) \<Longrightarrow> length h = HDR \<Longrightarrow> length t = w * n \<Longrightarrow>
    length r = w * (c - n) \<Longrightarrow> n \<le> c \<Longrightarrow> 0 < c \<Longrightarrow> c \<le> CS_MAX \<Longrightarrow>
    cs_rep w m \<lparr>cs_hdr = Ptr (Heap k) 0, cs_size = n, cs_cap = c, cs_data = Ptr (Heap k) HDR\<rparr> t"

definition cs_base :: "cc_str \<Rightarrow> base set" where
  "cs_base s = (case cs_hdr s of Ptr (Heap k) i \<Rightarrow> {Heap k} | _ \<Rightarrow> {})"

lemma cs_base_simps [simp]:
  "cs_base (cc_str_placeholder w) = {}"
  "cs_base \<lparr>cs_hdr = Ptr (Heap k) i, cs_size = n, cs_cap = c, cs_data = d\<rparr> = {Heap k}"
  by (simp_all add: cs_base_def cc_str_placeholder_def)

lemma placeholder_simps [simp]:
  "cs_size (cc_str_placeholder w) = 0" "cs_cap (cc_str_placeholder w) = 0" "cc_str_is_placeholder (cc_str_placeholder w)"
  "cs_data (cc_str_placeholder w) = lit (replicate (w - 1) NUL)"
  by (simp_all add: cc_str_placeholder_def cc_str_is_placeholder_def)

lemma cs_rep_length: "cs_rep w m s t \<Longrightarrow> length t = w * cs_size s"
  by (auto elim: cs_rep.cases)

lemma cs_rep_le_cap: "cs_rep w m s t \<Longrightarrow> cs_size s \<le> cs_cap s \<and> cs_cap s \<le> CS_MAX"
  by (auto elim: cs_rep.cases)

text \<open>Below the bound the arithmetic is exact.\<close>

lemma cs_exact:
  assumes "w \<le> 4" and "n \<le> CS_MAX"
  shows "sz_mul w n = w * n" "sz_mul n w = w * n" "sz_add (w * n) w = w * n + w"
    "sz_add (sz_add HDR (w * n)) w = HDR + w * n + w"
proof -
  have "w * n \<le> 4 * CS_MAX" using assms by (rule mult_le_mono)
  then show "sz_mul w n = w * n" "sz_mul n w = w * n" "sz_add (w * n) w = w * n + w"
    "sz_add (sz_add HDR (w * n)) w = HDR + w * n + w" using assms(1) by (simp_all add: sz_mul_def sz_add_def mult.commute)
qed

text \<open>What an operation leaves behind: the string with the bytes \<open>t\<close>, and every other object.\<close>

definition cs_after :: "nat \<Rightarrow> mem \<Rightarrow> cc_str \<Rightarrow> char list \<Rightarrow> mem \<Rightarrow> cc_str \<Rightarrow> bool" where
  "cs_after w m s t m' s' \<longleftrightarrow>
     cs_rep w m' s' t \<and> frame (cs_base s) m m' \<and> (\<forall>b \<in> cs_base s'. b \<in> cs_base s \<or> blocks m b = None)"

lemma cs_afterD:
  assumes "cs_after w m s t m' s'"
  shows "cs_rep w m' s' t" "frame (cs_base s) m m'" "wf_mem m'" "avail m' = avail m"
  using assms by (auto simp: cs_after_def frame_def)

lemma cs_after_refl: "wf_mem m \<Longrightarrow> cs_rep w m s t \<Longrightarrow> cs_after w m s t m s"
  by (simp add: cs_after_def)

lemma cs_after_trans:
  assumes "cs_after w m s t m1 s1" and "cs_after w m1 s1 t2 m2 s2"
  shows "cs_after w m s t2 m2 s2"
proof -
  have f: "frame (cs_base s) m m1" "frame (cs_base s1) m1 m2" and b: "\<And>b. b \<in> cs_base s1 \<Longrightarrow> b \<in> cs_base s \<or> blocks m b = None"
    using assms by (auto simp: cs_after_def)
  have "b \<in> cs_base s \<or> blocks m b = None" if "b \<in> cs_base s2" for b
  proof -
    from that assms(2) have "b \<in> cs_base s1 \<or> blocks m1 b = None" by (auto simp: cs_after_def)
    then show ?thesis
    proof
      assume "b \<in> cs_base s1"
      then show ?thesis by (rule b)
    next
      assume "blocks m1 b = None"
      then show ?thesis by (rule frame_None [OF f(1)])
    qed
  qed
  with frame_trans [OF f b] assms(2) show ?thesis by (simp add: cs_after_def)
qed

section \<open>Moves inside a block\<close>

lemma upd_simps [simp]:
  "blocks (m\<lparr>blocks := f\<rparr>) = f" "m\<lparr>blocks := f, blocks := g\<rparr> = m\<lparr>blocks := g\<rparr>"
  by simp_all

text \<open>Bytes move up and leave a gap; bytes move down over a part; a gap is filled.\<close>

lemma memmove_up:
  assumes "blocks m (Heap k) = Some (p @ y @ r)" and "e \<le> length r" and "y \<noteq> []" and "i = length p" and "j = length p + e"
    and "n = length y"
  shows "memmove (Ptr (Heap k) j) (Ptr (Heap k) i) n m =
    Inr (m\<lparr>blocks := (blocks m)(Heap k := Some (p @ take e (y @ r) @ y @ drop e r))\<rparr>)"
proof -
  have "load_bytes m (Ptr (Heap k) i) n = Inr y" using assms by (simp add: load_bytes_def)
  moreover have "store_bytes m (Ptr (Heap k) j) y =
    Inr (m\<lparr>blocks := (blocks m)(Heap k := Some (take j (p @ y @ r) @ y @ drop (j + length y) (p @ y @ r)))\<rparr>)"
    by (rule store_bytes_obj) (use assms in simp_all)
  ultimately show ?thesis using assms(2,4-) by (simp add: memmove_def)
qed

lemma memmove_down:
  assumes "blocks m (Heap k) = Some (p @ x @ y @ r)" and "y \<noteq> []" and "i = length p" and "j = length p + length x"
    and "n = length y"
  shows "memmove (Ptr (Heap k) i) (Ptr (Heap k) j) n m =
    Inr (m\<lparr>blocks := (blocks m)(Heap k := Some (p @ y @ drop (length y) (x @ y @ r)))\<rparr>)"
proof -
  have "load_bytes m (Ptr (Heap k) j) n = Inr y" using assms by (simp add: load_bytes_def)
  moreover have "store_bytes m (Ptr (Heap k) i) y =
    Inr (m\<lparr>blocks := (blocks m)(Heap k := Some (take i (p @ x @ y @ r) @ y @ drop (i + length y) (p @ x @ y @ r)))\<rparr>)"
    by (rule store_bytes_obj) (use assms in simp_all)
  ultimately show ?thesis using assms(3-) by (simp add: memmove_def)
qed

lemma store_gap:
  assumes "blocks m (Heap k) = Some (p @ g @ q)" and "length g = length x" and "i = length p"
  shows "store_bytes m (Ptr (Heap k) i) x = Inr (m\<lparr>blocks := (blocks m)(Heap k := Some (p @ x @ q))\<rparr>)"
proof -
  have "store_bytes m (Ptr (Heap k) i) x =
      Inr (m\<lparr>blocks := (blocks m)(Heap k := Some (take i (p @ g @ q) @ x @ drop (i + length x) (p @ g @ q)))\<rparr>)"
    by (rule store_bytes_obj) (use assms in simp_all)
  then show ?thesis using assms(2,3) by simp
qed

text \<open>A source outside the block.\<close>

definition outside :: "ptr \<Rightarrow> base set \<Rightarrow> bool" where
  "outside p B \<longleftrightarrow> (\<forall>b i. p = Ptr b i \<longrightarrow> b \<notin> B)"

lemma memcpy_gap:
  assumes "blocks m (Heap k) = Some (p @ g @ q)" and "load_bytes m src n = Inr x" and "outside src {Heap k}"
    and "length g = n" and "i = length p"
  shows "memcpy (Ptr (Heap k) i) src n m = Inr (m\<lparr>blocks := (blocks m)(Heap k := Some (p @ x @ q))\<rparr>)"
proof -
  have "\<not> overlaps (Ptr (Heap k) i) src n" using assms(3) by (auto simp: overlaps_def outside_def split: ptr.splits)
  then show ?thesis using assms load_bytes_length [OF assms(2)] by (simp add: memcpy_def store_gap)
qed

lemma load_outside:
  assumes "load_bytes m src n = Inr x" and "outside src {b}"
  shows "load_bytes (m\<lparr>blocks := (blocks m)(b := y)\<rparr>) src n = Inr x"
proof (cases src)
  case (Ptr c i)
  with assms have "c \<noteq> b" by (simp add: outside_def)
  then have "block (m\<lparr>blocks := (blocks m)(b := y)\<rparr>) c = block m c" by (cases c) simp_all
  with assms(1) Ptr show ?thesis by (auto simp: load_bytes_def split: option.splits if_splits)
qed (use assms in \<open>simp add: load_bytes_def split: if_splits\<close>)

text \<open>A source that does not share the block of the string survives a step of the string.\<close>

lemma outside_after:
  assumes a: "cs_after w m s t m' s'" and ld: "load_bytes m src n = Inr x" and n: "0 < n" and out: "outside src (cs_base s)"
  shows "load_bytes m' src n = Inr x" "outside src (cs_base s')"
proof -
  show "load_bytes m' src n = Inr x"
    by (rule frame_load [OF cs_afterD(2) [OF a] ld]) (use out in \<open>auto simp: outside_def\<close>)
  have "b \<notin> cs_base s'" if "src = Ptr b i" for b i
  proof
    assume b: "b \<in> cs_base s'"
    then have "b \<in> cs_base s \<or> blocks m b = None" using a by (auto simp: cs_after_def)
    with out that have "blocks m b = None" by (auto simp: outside_def)
    moreover have "block m b = blocks m b" using b by (cases b) (auto simp: cs_base_def split: ptr.splits base.splits)
    ultimately show False using ld n that by (simp add: load_bytes_def)
  qed
  then show "outside src (cs_base s')" by (simp add: outside_def)
qed

section \<open>Storage\<close>

lemma realloc_moves:
  assumes "blocks m (Heap j) = Some old" and "avail m (brk m)"
  shows "realloc (Ptr (Heap j) 0) n m = Inr (Ptr (Heap (brk m)) 0,
    m\<lparr>blocks := (blocks m)(Heap j := None, Heap (brk m) := Some (take n old @ map (junk m (brk m)) [length old..<n])),
      brk := Suc (brk m)\<rparr>)"
  using assms by (simp add: realloc_def Let_def)

lemma frame_realloc:
  assumes "wf_mem m" and "blocks m (Heap j) = Some old"
  shows "frame {Heap j} m (m\<lparr>blocks := (blocks m)(Heap j := None, Heap (brk m) := x), brk := Suc (brk m)\<rparr>)"
proof -
  have "j < brk m" using wf_mem_used(1) [OF assms] .
  then show ?thesis using assms by (auto simp: frame_def wf_mem_def)
qed

lemma cs_rep_brk: "cs_rep w m s t \<Longrightarrow> cs_rep w (m\<lparr>brk := b\<rparr>) s t"
  by (erule cs_rep.cases) (auto intro: cs_rep.intros)

lemma cs_reserve:
  assumes rep: "cs_rep w m s t" and wf: "wf_mem m" and w: "el_ok w" and n: "n \<le> CS_MAX"
  obtains ok s' m' where "cc_str_reserve w s n m = Inr (ok, s', m')" "cs_after w m s t m' s'" "ok \<Longrightarrow> n \<le> cs_cap s'"
    "avail m (brk m) \<Longrightarrow> ok" "cs_size s' = cs_size s" "\<not> ok \<Longrightarrow> s' = s" "n \<le> cs_cap s \<Longrightarrow> ok \<and> s' = s \<and> m' = m"
proof (cases "n \<le> cs_cap s")
  case True
  then have "cc_str_reserve w s n m = Inr (True, s, m)" by (simp add: cc_str_reserve_def cc_str_cap_def)
  then show ?thesis by (rule that [OF _ cs_after_refl [OF wf rep]]) (use True in simp_all)
next
  case False
  have W: "0 < w" "w \<le> 4" using w by auto
  have N: "sz_add (sz_add HDR (sz_mul w n)) w = HDR + w * n + w" using cs_exact [OF W(2) n] by simp
  show ?thesis
  proof (cases "avail m (brk m)")
    case no: False
    have A: "cc_str_reserve w s n m = Inr (False, s, m\<lparr>brk := Suc (brk m)\<rparr>)"
      using rep
    proof cases
      case placeholder
      with False no show ?thesis by (simp add: cc_str_reserve_def cc_str_cap_def realloc_def malloc_fails)
    next
      case (heap k h r l c)
      have "realloc (Ptr (Heap k) 0) x m = Inr (NULL, m\<lparr>brk := Suc (brk m)\<rparr>)" for x by (rule realloc_heap_fails [OF heap(2) no])
      with False heap(1,7) show ?thesis by (simp add: cc_str_reserve_def cc_str_cap_def cc_str_is_placeholder_def Let_def)
    qed
    have "cs_after w m s t (m\<lparr>brk := Suc (brk m)\<rparr>) s"
      using rep wf by (simp add: cs_after_def cs_rep_brk frame_brk)
    from A this show ?thesis by (rule that) (use False no in simp_all)
  next
    case av: True
    show ?thesis using rep
    proof cases
      case placeholder
      define j where "j = map (junk m (brk m)) [0..<HDR + w * n + w]"
      define x g y where xgy: "x = take HDR j" "g = take w (drop HDR j)" "y = drop w (drop HDR j)"
      have j: "j = x @ g @ y" by (simp only: xgy append_take_drop_id)
      have l: "length x = HDR" "length g = w" "length y = w * n" by (simp_all add: xgy j_def)
      let ?m = "m\<lparr>blocks := (blocks m)(Heap (brk m) := Some j), brk := Suc (brk m)\<rparr>"
      let ?s = "\<lparr>cs_hdr = Ptr (Heap (brk m)) 0, cs_size = 0, cs_cap = n, cs_data = Ptr (Heap (brk m)) HDR\<rparr>"
      let ?b = "x @ replicate w NUL @ y"
      have "store_bytes ?m (Ptr (Heap (brk m)) HDR) (replicate w NUL) = Inr (?m\<lparr>blocks := (blocks ?m)(Heap (brk m) := Some ?b)\<rparr>)"
        by (rule store_gap [where g = g]) (simp_all add: l j)
      then have st: "memset (Ptr (Heap (brk m)) HDR) NUL w ?m = Inr (m\<lparr>blocks := (blocks m)(Heap (brk m) := Some ?b), brk := Suc (brk m)\<rparr>)"
        by (simp add: memset_def)
      have ld: "load_bytes ?m (Ptr (Heap (brk m)) 0) HDR = Inr x" by (simp add: load_bytes_def l j)
      have re: "realloc NULL (HDR + w * n + w) m = Inr (Ptr (Heap (brk m)) 0, ?m)" by (simp add: realloc_def malloc_ok [OF av] j_def)
      have "0 < n" using False by simp
      with placeholder have A: "cc_str_reserve w s n m = Inr (True, ?s, m\<lparr>blocks := (blocks m)(Heap (brk m) := Some ?b), brk := Suc (brk m)\<rparr>)"
        by (simp add: cc_str_reserve_def cc_str_cap_def N re ld st)
      have B: "cs_rep w (m\<lparr>blocks := (blocks m)(Heap (brk m) := Some ?b), brk := Suc (brk m)\<rparr>) ?s []"
        by (rule cs_rep.heap [where h = x and r = y]) (use n \<open>0 < n\<close> l in simp_all)
      have "cs_after w m s t (m\<lparr>blocks := (blocks m)(Heap (brk m) := Some ?b), brk := Suc (brk m)\<rparr>) ?s"
        using B placeholder wf by (simp add: cs_after_def frame_alloc)
      from A this show ?thesis by (rule that) (use False placeholder in simp_all)
    next
      case (heap k h r l c)
      let ?J = "map (junk m (brk m)) [HDR + w * c + w..<HDR + w * n + w]"
      let ?s = "\<lparr>cs_hdr = Ptr (Heap (brk m)) 0, cs_size = l, cs_cap = n, cs_data = Ptr (Heap (brk m)) HDR\<rparr>"
      let ?b = "h @ t @ replicate w NUL @ r @ ?J"
      let ?m = "m\<lparr>blocks := (blocks m)(Heap k := None, Heap (brk m) := Some ?b), brk := Suc (brk m)\<rparr>"
      have c: "c \<le> n" using False heap by simp
      have len: "length (h @ t @ replicate w NUL @ r) = HDR + w * c + w"
        using heap by (simp flip: distrib_left)
      have tk: "take (HDR + w * n + w) (h @ t @ replicate w NUL @ r) = h @ t @ replicate w NUL @ r"
        by (rule take_all) (simp only: len, simp add: c)
      have "realloc (Ptr (Heap k) 0) (HDR + w * n + w) m = Inr (Ptr (Heap (brk m)) 0, ?m)"
        unfolding realloc_moves [OF heap(2) av] len tk by simp
      moreover have "load_bytes ?m (Ptr (Heap (brk m)) 0) HDR = Inr h" using heap by (simp add: load_bytes_def)
      ultimately have A: "cc_str_reserve w s n m = Inr (True, ?s, ?m)"
        using heap False av N by (simp add: cc_str_reserve_def cc_str_cap_def cc_str_is_placeholder_def Let_def)
      have B: "cs_rep w ?m ?s t"
      proof (rule cs_rep.heap [where h = h and r = "r @ ?J"])
        show "length (r @ ?J) = w * (n - l)" using heap c by (simp add: diff_mult_distrib2)
      qed (use heap c n in simp_all)
      have "frame {Heap k} m ?m" by (rule frame_realloc [OF wf heap(2)])
      with B heap(1) wf have "cs_after w m s t ?m ?s" by (simp add: cs_after_def)
      from A this show ?thesis by (rule that) (use False heap in simp_all)
    qed
  qed
qed

text \<open>Doubling ends at once below the bound, and does not overshoot.\<close>

lemma cs_grow_ok:
  "n \<le> cap * 2 ^ k \<Longrightarrow> n \<le> CS_MAX \<Longrightarrow> \<exists>c. cs_grow (Suc k) cap n = Inr c \<and> n \<le> c \<and> (c = cap \<or> c < 2 * n)"
proof (induction k arbitrary: cap)
  case (Suc k)
  show ?case
  proof (cases "cap < n")
    case True
    with Suc.prems(2) have e: "sz_mul cap 2 = cap * 2" by simp
    have "n \<le> cap * 2 * 2 ^ k" using Suc.prems(1) by simp
    from Suc.IH [OF this Suc.prems(2)] True show ?thesis unfolding cs_grow.simps(2) [of "Suc k"] e by auto
  qed simp
qed simp

abbreviation CS_HALF :: nat where "CS_HALF \<equiv> 576460752303423488"

lemma cs_make_room:
  assumes rep: "cs_rep w m s t" and wf: "wf_mem m" and w: "el_ok w" and n: "cs_size s + n \<le> CS_HALF"
  obtains ok s' m' where "cs_make_room w s n m = Inr (ok, s', m')" "cs_after w m s t m' s'"
    "ok \<Longrightarrow> cs_size s + n \<le> cs_cap s'" "avail m (brk m) \<Longrightarrow> ok" "cs_size s' = cs_size s" "\<not> ok \<Longrightarrow> s' = s"
    "cs_size s + n \<le> cs_cap s \<Longrightarrow> s' = s \<and> m' = m"
proof (cases "cs_size s + n \<le> cs_cap s")
  case True
  with n have "cs_make_room w s n m = Inr (True, s, m)" by (simp add: cs_make_room_def cc_str_size_def cc_str_cap_def)
  then show ?thesis by (rule that [OF _ cs_after_refl [OF wf rep]]) (use True in simp_all)
next
  case False
  define c0 where c0: "c0 = (if cs_cap s = 0 then 2 else cs_cap s)"
  have "cs_size s + n \<le> CS_MAX" using n by simp
  moreover have "cs_size s + n \<le> c0 * 2 ^ 64" using n by (auto simp: c0)
  ultimately obtain c where c: "cs_grow 65 c0 (cs_size s + n) = Inr c" "cs_size s + n \<le> c" "c = c0 \<or> c < 2 * (cs_size s + n)"
    using cs_grow_ok [of "cs_size s + n" c0 64] by auto
  have "c \<le> CS_MAX" using c(3) n cs_rep_le_cap [OF rep] by (auto simp: c0 split: if_splits)
  from cs_reserve [OF rep wf w this] obtain ok s' m' where r: "cc_str_reserve w s c m = Inr (ok, s', m')" "cs_after w m s t m' s'"
    "ok \<Longrightarrow> c \<le> cs_cap s'" "avail m (brk m) \<Longrightarrow> ok" "cs_size s' = cs_size s" "\<not> ok \<Longrightarrow> s' = s" by blast
  have "cs_make_room w s n m = Inr (ok, s', m')"
    unfolding cs_make_room_def cc_str_size_def cc_str_cap_def c0 [symmetric] using False n c(1) r(1) by simp
  then show ?thesis by (rule that [OF _ r(2)]) (use False c(2) r(3-6) in fastforce)+
qed

section \<open>Insertion\<close>

text \<open>The gap an insertion opens, and what it is to fill it.\<close>

lemma cs_gap:
  assumes rep: "cs_rep w m s t" and w: "el_ok w" and i: "i \<le> cs_size s" and n: "cs_size s + n \<le> cs_cap s" and c: "0 < cs_cap s"
  obtains k p g q where
    "cs_base s = {Heap k}" "ptr_add (cs_data s) (sz_mul w i) = Ptr (Heap k) (length p)" "length g = w * n" "q \<noteq> []" "w \<le> length q"
    "memmove (ptr_add (ptr_add (cs_data s) (sz_mul w i)) (sz_mul n w)) (ptr_add (cs_data s) (sz_mul w i))
       (sz_add (sz_mul w (sz_sub (cs_size s) i)) w) m = Inr (m\<lparr>blocks := (blocks m)(Heap k := Some (p @ g @ q))\<rparr>)"
    "\<And>m' x. blocks m' (Heap k) = Some (p @ x @ q) \<Longrightarrow> length x = w * n \<Longrightarrow>
       cs_rep w m' (s\<lparr>cs_size := sz_add (cs_size s) n\<rparr>) (take (w * i) t @ x @ drop (w * i) t)"
    "blocks m (Heap k) \<noteq> None"
  using rep
proof cases
  case (heap k h r l cap)
  let ?p = "h @ take (w * i) t" and ?y = "drop (w * i) t @ replicate w NUL"
  let ?g = "take (w * n) (?y @ r)" and ?q = "?y @ drop (w * n) r"
  have W: "0 < w" "w \<le> 4" using w by auto
  have le: "i \<le> l" "l + n \<le> cap" "cap \<le> CS_MAX" using heap i n by simp_all
  have wi: "w * i \<le> w * l" using le by simp
  have e: "sz_mul w i = w * i" "sz_mul n w = w * n" "sz_sub l i = l - i" "sz_add (sz_mul w (l - i)) w = w * (l - i) + w" "sz_add l n = l + n"
    using cs_exact [OF W(2), of i] cs_exact [OF W(2), of n] cs_exact [OF W(2), of "l - i"] le by simp_all
  have lp: "length ?p = HDR + w * i" using heap wi by simp
  have ly: "length ?y = w * (l - i) + w" using heap wi by (simp add: diff_mult_distrib2)
  have "w * n \<le> w * (cap - l)" using le by (intro mult_le_mono2) simp
  then have nr: "w * n \<le> length r" using heap by simp
  have b: "blocks m (Heap k) = Some (?p @ ?y @ r)" using heap by simp
  have "memmove (Ptr (Heap k) (length ?p + w * n)) (Ptr (Heap k) (length ?p)) (length ?y) m =
      Inr (m\<lparr>blocks := (blocks m)(Heap k := Some (?p @ ?g @ ?y @ drop (w * n) r))\<rparr>)"
    by (rule memmove_up [OF b nr]) (use W in simp_all)
  then have mv: "memmove (ptr_add (ptr_add (cs_data s) (sz_mul w i)) (sz_mul n w)) (ptr_add (cs_data s) (sz_mul w i))
       (sz_add (sz_mul w (sz_sub (cs_size s) i)) w) m = Inr (m\<lparr>blocks := (blocks m)(Heap k := Some (?p @ ?g @ ?q))\<rparr>)"
    unfolding ly lp using heap by (simp add: e add.assoc)
  show ?thesis
  proof (rule that [where p = ?p and g = ?g and q = ?q, OF _ _ _ _ _ mv])
    fix m' :: mem and x assume x: "blocks m' (Heap k) = Some (?p @ x @ ?q)" "length x = w * n"
    have "cs_rep w m' \<lparr>cs_hdr = Ptr (Heap k) 0, cs_size = l + n, cs_cap = cap, cs_data = Ptr (Heap k) HDR\<rparr> (take (w * i) t @ x @ drop (w * i) t)"
    proof (rule cs_rep.heap [where h = h and r = "drop (w * n) r"])
      show "length (take (w * i) t @ x @ drop (w * i) t) = w * (l + n)"
        unfolding length_append length_take length_drop heap(4) x(2) distrib_left using wi by arith
      show "length (drop (w * n) r) = w * (cap - (l + n))" using heap by (simp add: diff_mult_distrib2 distrib_left)
    qed (use heap le x in simp_all)
    then show "cs_rep w m' (s\<lparr>cs_size := sz_add (cs_size s) n\<rparr>) (take (w * i) t @ x @ drop (w * i) t)"
      using heap(1) by (simp add: e)
  next
    have "w * n \<le> length (?y @ r)" using nr unfolding length_append by arith
    then show "length ?g = w * n" by (simp only: length_take min.absorb2)
    show "w \<le> length ?q" by simp
  qed (use heap W lp b e in simp_all)
qed (use c in simp)

lemma cs_after_fill:
  assumes "wf_mem m" and "cs_base s = {Heap k}" and "blocks m (Heap k) \<noteq> None"
    and "cs_rep w (m\<lparr>blocks := (blocks m)(Heap k := x)\<rparr>) (s\<lparr>cs_size := n\<rparr>) t"
  shows "cs_after w m s t (m\<lparr>blocks := (blocks m)(Heap k := x)\<rparr>) (s\<lparr>cs_size := n\<rparr>)"
proof -
  have "cs_base (s\<lparr>cs_size := n\<rparr>) = cs_base s" by (simp add: cs_base_def)
  with assms show ?thesis by (simp add: cs_after_def frame_update)
qed

text \<open>Making room and moving the rest of the text away: what both kinds of insertion begin with.\<close>

lemma cs_room_gap:
  assumes rep: "cs_rep w m s t" and wf: "wf_mem m" and w: "el_ok w" and i: "i \<le> cs_size s" and n: "cs_size s + n \<le> CS_HALF"
    and c: "0 < cs_cap s \<or> 0 < n"
  obtains (refused) m1 where "cs_make_room w s n m = Inr (False, s, m1)" "cs_after w m s t m1 s" "\<not> avail m (brk m)"
  | (gap) s1 m1 k p g q where "cs_make_room w s n m = Inr (True, s1, m1)" "cs_after w m s t m1 s1" "cs_base s1 = {Heap k}"
      "ptr_add (cs_data s1) (sz_mul w i) = Ptr (Heap k) (length p)" "length g = w * n" "q \<noteq> []"
      "memmove (ptr_add (ptr_add (cs_data s1) (sz_mul w i)) (sz_mul n w)) (ptr_add (cs_data s1) (sz_mul w i))
         (sz_add (sz_mul w (sz_sub (cs_size s1) i)) w) m1 = Inr (m1\<lparr>blocks := (blocks m1)(Heap k := Some (p @ g @ q))\<rparr>)"
      "cs_size s1 = cs_size s"
      "\<And>x. length x = w * n \<Longrightarrow> cs_after w m s (take (w * i) t @ x @ drop (w * i) t)
         (m1\<lparr>blocks := (blocks m1)(Heap k := Some (p @ x @ q))\<rparr>) (s1\<lparr>cs_size := sz_add (cs_size s1) n\<rparr>)"
proof -
  obtain ok s1 m1 where r: "cs_make_room w s n m = Inr (ok, s1, m1)" "cs_after w m s t m1 s1"
    "ok \<Longrightarrow> cs_size s + n \<le> cs_cap s1" "avail m (brk m) \<Longrightarrow> ok" "cs_size s1 = cs_size s" "\<not> ok \<Longrightarrow> s1 = s"
    "cs_size s + n \<le> cs_cap s \<Longrightarrow> s1 = s \<and> m1 = m"
    by (rule cs_make_room [OF rep wf w n]) blast
  show thesis
  proof (cases ok)
    case False
    show thesis by (rule refused [of m1]) (use r False in auto)
  next
    case True
    have i1: "i \<le> cs_size s1" and n1: "cs_size s1 + n \<le> cs_cap s1" using i r(3,5) True by simp_all
    have c1: "0 < cs_cap s1"
    proof (cases "n = 0")
      case True
      then show ?thesis using c r(7) cs_rep_le_cap [OF rep] by auto
    qed (use n1 in simp)
    obtain k p g q where o: "cs_base s1 = {Heap k}" "ptr_add (cs_data s1) (sz_mul w i) = Ptr (Heap k) (length p)" "length g = w * n" "q \<noteq> []"
      "memmove (ptr_add (ptr_add (cs_data s1) (sz_mul w i)) (sz_mul n w)) (ptr_add (cs_data s1) (sz_mul w i))
         (sz_add (sz_mul w (sz_sub (cs_size s1) i)) w) m1 = Inr (m1\<lparr>blocks := (blocks m1)(Heap k := Some (p @ g @ q))\<rparr>)"
      "\<And>m' x. blocks m' (Heap k) = Some (p @ x @ q) \<Longrightarrow> length x = w * n \<Longrightarrow>
         cs_rep w m' (s1\<lparr>cs_size := sz_add (cs_size s1) n\<rparr>) (take (w * i) t @ x @ drop (w * i) t)"
      "blocks m1 (Heap k) \<noteq> None"
      by (rule cs_gap [OF cs_afterD(1) [OF r(2)] w i1 n1 c1]) blast
    have fill: "cs_after w m s (take (w * i) t @ x @ drop (w * i) t)
         (m1\<lparr>blocks := (blocks m1)(Heap k := Some (p @ x @ q))\<rparr>) (s1\<lparr>cs_size := sz_add (cs_size s1) n\<rparr>)" if "length x = w * n" for x
      by (rule cs_after_trans [OF r(2) cs_after_fill [OF cs_afterD(3) [OF r(2)] o(1,7) o(6)]]) (simp_all add: that)
    show thesis by (rule gap [OF _ r(2) o(1-5) r(5) fill]) (use r(1) True in simp_all)
  qed
qed

lemma cs_insert_n:
  assumes rep: "cs_rep w m s t" and wf: "wf_mem m" and w: "el_ok w" and i: "i \<le> cs_size s" and n: "cs_size s + n \<le> CS_HALF"
    and els: "load_bytes m els (w * n) = Inr xs" "outside els (cs_base s)"
  obtains p s' m' where "cc_str_insert_n w s i els n m = Inr (p, s', m')"
    "cs_after w m s (if p = NULL then t else take (w * i) t @ xs @ drop (w * i) t) m' s'" "avail m (brk m) \<Longrightarrow> 0 < n \<Longrightarrow> p \<noteq> NULL"
    "p = NULL \<Longrightarrow> s' = s"
proof (cases "n = 0")
  case True
  then have "cc_str_insert_n w s i els n m = Inr (NULL, s, m)" by (simp add: cc_str_insert_n_def)
  then show ?thesis by (rule that) (use True cs_after_refl [OF wf rep] in simp_all)
next
  case False
  then have "0 < cs_cap s \<or> 0 < n" by simp
  from rep wf w i n this show ?thesis
  proof (cases rule: cs_room_gap)
    case (refused m1)
    then have "cc_str_insert_n w s i els n m = Inr (NULL, s, m1)" using False by (simp add: cc_str_insert_n_def)
    then show ?thesis by (rule that) (use refused in simp_all)
  next
    case (gap s1 m1 k p g q)
    let ?m = "m1\<lparr>blocks := (blocks m1)(Heap k := Some (p @ g @ q))\<rparr>"
    have "0 < w * n" using False w by auto
    note out = outside_after [OF gap(2) els(1) this els(2), unfolded gap(3)]
    have ld: "load_bytes ?m els (w * n) = Inr xs" by (rule load_outside [OF out])
    have "w \<le> 4" "n \<le> CS_MAX" using w n by auto
    then have mn: "sz_mul w n = w * n" "sz_mul n w = w * n" by (rule cs_exact)+
    have cp: "memcpy (Ptr (Heap k) (length p)) els (w * n) ?m = Inr (m1\<lparr>blocks := (blocks m1)(Heap k := Some (p @ xs @ q))\<rparr>)"
      using memcpy_gap [of ?m k p g q els "w * n" xs "length p"] ld out(2) gap(5) by simp
    have "cc_str_insert_n w s i els n m = Inr (Ptr (Heap k) (length p), s1\<lparr>cs_size := sz_add (cs_size s1) n\<rparr>,
        m1\<lparr>blocks := (blocks m1)(Heap k := Some (p @ xs @ q))\<rparr>)"
      using False gap(1,4,7) cp mn by (simp add: cc_str_insert_n_def Let_def)
    then show ?thesis by (rule that) (use gap(9) [OF load_bytes_length [OF els(1)]] in simp_all)
  qed
qed

section \<open>Removal\<close>

lemma cs_erase_n:
  assumes rep: "cs_rep w m s t" and wf: "wf_mem m" and w: "el_ok w" and n: "i + n \<le> cs_size s"
  obtains p s' m' where "cc_str_erase_n w s i n m = Inr (p, s', m')"
    "cs_after w m s (take (w * i) t @ drop (w * (i + n)) t) m' s'" "brk m' = brk m" "cs_size s' = cs_size s - n"
proof (cases "n = 0")
  case True
  then have "cc_str_erase_n w s i n m = Inr (ptr_add (cs_data s) (sz_mul w i), s, m)" by (simp add: cc_str_erase_n_def)
  then show ?thesis by (rule that) (use True cs_after_refl [OF wf rep] in simp_all)
next
  case False
  show ?thesis using rep
  proof cases
    case placeholder
    with n False show ?thesis by simp
  next
    case (heap k h r l cap)
    let ?a = "take (w * i) t" and ?x = "take (w * n) (drop (w * i) t)" and ?b = "drop (w * (i + n)) t"
    let ?p = "h @ ?a" and ?y = "?b @ replicate w NUL"
    have W: "0 < w" "w \<le> 4" using w by auto
    have le: "i + n \<le> l" "l \<le> CS_MAX" using heap n by simp_all
    have wi: "w * (i + n) \<le> w * l" using le(1) by simp
    have e: "sz_mul w i = w * i" "sz_add i n = i + n" "sz_mul w (i + n) = w * i + w * n" "sz_sub l n = l - n" "sz_sub (l - n) i = l - n - i"
        "sz_add (sz_mul (l - n - i) w) w = w * (l - n - i) + w"
      using cs_exact [OF W(2), of i] cs_exact [OF W(2), of "i + n"] cs_exact [OF W(2), of "l - n - i"] le by (simp_all add: distrib_left)
    have "drop (w * n) (drop (w * i) t) = ?b" by (simp add: distrib_left add.commute)
    then have t: "t = ?a @ ?x @ ?b" using append_take_drop_id [of "w * n" "drop (w * i) t"] by simp
    have lp: "length ?p = HDR + w * i" using heap(3,4) wi unfolding distrib_left by simp
    have lx: "length ?x = w * n" using heap(4) wi unfolding distrib_left by simp
    have ly: "length ?y = w * (l - n - i) + w" using heap(4) wi by (simp add: diff_mult_distrib2 distrib_left)
    have b: "blocks m (Heap k) = Some (?p @ ?x @ ?y @ r)" using heap(2) t by (metis append.assoc)
    define q where "q = drop (length ?y) (?x @ ?y @ r)"
    have lq: "length q = length ?x + length r" unfolding q_def by (simp only: length_drop length_append)
    define B where "B = ?p @ ?y @ q"
    have "memmove (Ptr (Heap k) (length ?p)) (Ptr (Heap k) (length ?p + length ?x)) (length ?y) m =
        Inr (m\<lparr>blocks := (blocks m)(Heap k := Some B)\<rparr>)"
      unfolding B_def q_def by (rule memmove_down [OF b]) (use W in simp_all)
    then have mv: "memmove (Ptr (Heap k) (HDR + w * i)) (Ptr (Heap k) (HDR + (w * i + w * n))) (w * (l - n - i) + w) m =
        Inr (m\<lparr>blocks := (blocks m)(Heap k := Some B)\<rparr>)"
      unfolding ly lp lx add.assoc .
    have "cs_size s = l" "cs_data s = Ptr (Heap k) HDR" using heap(1) by simp_all
    then have A: "cc_str_erase_n w s i n m = Inr (Ptr (Heap k) (HDR + w * i), s\<lparr>cs_size := l - n\<rparr>,
        m\<lparr>blocks := (blocks m)(Heap k := Some B)\<rparr>)"
      using False unfolding cc_str_erase_n_def by (simp only: if_False e ptr_add_simps mv bnd_simps)
    have "cs_rep w (m\<lparr>blocks := (blocks m)(Heap k := Some B)\<rparr>)
        \<lparr>cs_hdr = Ptr (Heap k) 0, cs_size = l - n, cs_cap = cap, cs_data = Ptr (Heap k) HDR\<rparr> (?a @ ?b)"
    proof (rule cs_rep.heap [where h = h and r = q])
      show "length (?a @ ?b) = w * (l - n)"
        using heap(4) wi unfolding length_append length_take length_drop distrib_left diff_mult_distrib2 by simp
      have "cap - (l - n) = n + (cap - l)" using le heap(6) by simp
      then show "length q = w * (cap - (l - n))" unfolding lq lx heap(5) by (simp add: distrib_left)
    qed (use heap in \<open>simp_all add: B_def\<close>)
    then have "cs_rep w (m\<lparr>blocks := (blocks m)(Heap k := Some B)\<rparr>) (s\<lparr>cs_size := l - n\<rparr>) (?a @ ?b)"
      using heap(1) by simp
    from cs_after_fill [OF wf _ _ this] heap(1,2)
    have "cs_after w m s (?a @ ?b) (m\<lparr>blocks := (blocks m)(Heap k := Some B)\<rparr>) (s\<lparr>cs_size := l - n\<rparr>)" by simp
    from A this show ?thesis by (rule that) (use heap(1) in simp_all)
  qed
qed

section \<open>Resizing\<close>

text \<open>The loop of copies fills the places behind the text.\<close>

lemma fill_loop:
  assumes "blocks m (Heap k) = Some (p @ g @ q)" and "length g = w * n" and "load_bytes m el w = Inr xs" and "outside el {Heap k}"
  shows "cs_fill_loop w n (Ptr (Heap k) (length p)) el m =
    Inr (Ptr (Heap k) (length p + w * n), m\<lparr>blocks := (blocks m)(Heap k := Some (p @ concat (replicate n xs) @ q))\<rparr>)"
  using assms
proof (induction n arbitrary: p g m)
  case 0
  then show ?case by (simp add: fun_upd_idem)
next
  case (Suc n)
  let ?m = "m\<lparr>blocks := (blocks m)(Heap k := Some (p @ xs @ drop w g @ q))\<rparr>"
  have "blocks m (Heap k) = Some (p @ take w g @ drop w g @ q)" using Suc.prems(1) by simp
  then have c: "memcpy (Ptr (Heap k) (length p)) el w m = Inr ?m"
    by (rule memcpy_gap) (use Suc.prems in simp_all)
  have lx: "length xs = w" using load_bytes_length [OF Suc.prems(3)] .
  have "cs_fill_loop w n (Ptr (Heap k) (length (p @ xs))) el ?m =
    Inr (Ptr (Heap k) (length (p @ xs) + w * n), ?m\<lparr>blocks := (blocks ?m)(Heap k := Some ((p @ xs) @ concat (replicate n xs) @ q))\<rparr>)"
    by (rule Suc.IH [where g = "drop w g"]) (use Suc.prems load_outside [OF Suc.prems(3,4)] in simp_all)
  then have ih: "cs_fill_loop w n (Ptr (Heap k) (length p + w)) el ?m = Inr (Ptr (Heap k) (length p + w * Suc n),
      m\<lparr>blocks := (blocks m)(Heap k := Some (p @ concat (replicate (Suc n) xs) @ q))\<rparr>)"
    by (simp add: lx add.assoc)
  show ?case unfolding cs_fill_loop.simps c bnd_simps ptr_add_simps ih ..
qed

text \<open>The part of a resize behind the reservation: copies of the character, then the terminator.\<close>

lemma cs_fill_end:
  assumes rep: "cs_rep w m s t" and wf: "wf_mem m" and w: "el_ok w" and n: "cs_size s < n" "n \<le> cs_cap s"
    and ld: "load_bytes m el w = Inr xs" and el: "outside el (cs_base s)"
  obtains p m1 m2 where
    "cs_fill_loop w (n - cs_size s) (ptr_add (cs_data s) (sz_mul w (cs_size s))) el m = Inr (p, m1)" "memset p NUL w m1 = Inr m2"
    "cs_after w m s (t @ concat (replicate (n - cs_size s) xs)) m2 (s\<lparr>cs_size := n\<rparr>)"
  using rep
proof cases
  case (heap k h r l c)
  have W: "0 < w" "w \<le> 4" using w by auto
  have out: "outside el {Heap k}" using el heap(1) by simp
  have l: "l = cs_size s" "l < n" "n \<le> c" "l \<le> CS_MAX" using heap(1,7,8) n by simp_all
  define y g q where y: "y = replicate w NUL @ r" "g = take (w * (n - l)) y" "q = drop (w * (n - l)) y"
  have yl: "length y = w + w * (c - l)" using heap by (simp add: y)
  have nl: "w * (n - l) \<le> w * (c - l)" using l by (intro mult_le_mono2) simp
  have g: "length g = w * (n - l)" "length q = w + w * (c - n)"
    using yl nl l by (simp_all add: y(2,3) diff_mult_distrib2)
  have "g @ q = replicate w NUL @ r" by (simp only: y append_take_drop_id)
  with heap(2) have b: "blocks m (Heap k) = Some ((h @ t) @ g @ q)" by simp
  let ?f = "concat (replicate (n - l) xs)"
  let ?m = "m\<lparr>blocks := (blocks m)(Heap k := Some ((h @ t) @ ?f @ q))\<rparr>"
  have fl: "cs_fill_loop w (n - l) (Ptr (Heap k) (length (h @ t))) el m = Inr (Ptr (Heap k) (length (h @ t) + w * (n - l)), ?m)"
    by (rule fill_loop [OF b g(1) ld out])
  have lf: "length ?f = w * (n - l)" using load_bytes_length [OF ld] by (simp add: length_concat sum_list_replicate)
  have "\<exists>z q'. q = z @ q' \<and> length z = w" using g(2) by (intro exI [of _ "take w q"] exI [of _ "drop w q"]) simp
  then obtain z q' where q: "q = z @ q'" "length z = w" by blast
  let ?B = "h @ (t @ ?f) @ replicate w NUL @ q'"
  have "store_bytes ?m (Ptr (Heap k) (length (h @ t @ ?f))) (replicate w NUL) = Inr (m\<lparr>blocks := (blocks m)(Heap k := Some ?B)\<rparr>)"
    using store_gap [of ?m k "h @ t @ ?f" z q' "replicate w NUL" "length (h @ t @ ?f)"] q by simp
  then have ms: "memset (Ptr (Heap k) (length (h @ t) + w * (n - l))) NUL w ?m = Inr (m\<lparr>blocks := (blocks m)(Heap k := Some ?B)\<rparr>)"
    unfolding memset_def length_append lf add.assoc .
  have "sz_mul w l = w * l" by (rule cs_exact(1) [OF W(2) l(4)])
  then have dl: "ptr_add (cs_data s) (sz_mul w (cs_size s)) = Ptr (Heap k) (length (h @ t))" using heap(1,3,4) by simp
  have "cs_rep w (m\<lparr>blocks := (blocks m)(Heap k := Some ?B)\<rparr>)
      \<lparr>cs_hdr = Ptr (Heap k) 0, cs_size = n, cs_cap = c, cs_data = Ptr (Heap k) HDR\<rparr> (t @ ?f)"
  proof (rule cs_rep.heap [where h = h and r = q'])
    show "length (t @ ?f) = w * n" unfolding length_append lf heap(4) using l by (simp flip: distrib_left)
    show "length q' = w * (c - n)" using g(2) q by simp
  qed (use heap l in simp_all)
  then have "cs_rep w (m\<lparr>blocks := (blocks m)(Heap k := Some ?B)\<rparr>) (s\<lparr>cs_size := n\<rparr>) (t @ ?f)" using heap(1) by simp
  from cs_after_fill [OF wf _ _ this] heap(1,2)
  have "cs_after w m s (t @ ?f) (m\<lparr>blocks := (blocks m)(Heap k := Some ?B)\<rparr>) (s\<lparr>cs_size := n\<rparr>)" by simp
  with fl ms dl show ?thesis by (intro that) (simp_all add: l(1))
qed (use n in simp)

lemma cs_resize:
  assumes rep: "cs_rep w m s t" and wf: "wf_mem m" and w: "el_ok w" and n: "n \<le> CS_MAX"
    and el: "load_bytes m el w = Inr xs" "outside el (cs_base s)"
  obtains ok s' m' where "cc_str_resize w s n el m = Inr (ok, s', m')"
    "cs_after w m s (if ok then take (w * n) t @ concat (replicate (n - cs_size s) xs) else t) m' s'" "avail m (brk m) \<Longrightarrow> ok"
    "\<not> ok \<Longrightarrow> s' = s" "ok \<Longrightarrow> cs_size s' = n"
proof -
  consider "n = cs_size s" | "n < cs_size s" | "cs_size s < n" by linarith
  then show ?thesis
  proof cases
    case 1
    then have "cc_str_resize w s n el m = Inr (True, s, m)" by (simp add: cc_str_resize_def cc_str_size_def)
    then show ?thesis by (rule that) (use 1 cs_after_refl [OF wf rep] cs_rep_length [OF rep] in simp_all)
  next
    case 2
    have "n + (cs_size s - n) \<le> cs_size s" using 2 by simp
    from cs_erase_n [OF rep wf w this] obtain p s' m' where e: "cc_str_erase_n w s n (cs_size s - n) m = Inr (p, s', m')"
      "cs_after w m s (take (w * n) t @ drop (w * (n + (cs_size s - n))) t) m' s'" "cs_size s' = cs_size s - (cs_size s - n)" by blast
    have "cc_str_resize w s n el m = Inr (True, s', m')" using 2 e(1) by (simp add: cc_str_resize_def cc_str_size_def)
    then show ?thesis by (rule that) (use 2 e(2,3) cs_rep_length [OF rep] in simp_all)
  next
    case 3
    obtain ok s1 m1 where r: "cc_str_reserve w s n m = Inr (ok, s1, m1)" "cs_after w m s t m1 s1" "ok \<Longrightarrow> n \<le> cs_cap s1"
      "avail m (brk m) \<Longrightarrow> ok" "cs_size s1 = cs_size s" "\<not> ok \<Longrightarrow> s1 = s" using cs_reserve [OF rep wf w n] by metis
    show ?thesis
    proof (cases ok)
      case no: False
      have "cc_str_resize w s n el m = Inr (False, s1, m1)" using 3 r(1) no by (simp add: cc_str_resize_def cc_str_size_def)
      then show ?thesis by (rule that) (use no r in simp_all)
    next
      case True
      have s1: "cs_size s1 < n" "n \<le> cs_cap s1" using 3 r(3,5) True by simp_all
      have W: "0 < w" using w by auto
      note out = outside_after [OF r(2) el(1) W el(2)]
      obtain p m2 m3 where f: "cs_fill_loop w (n - cs_size s1) (ptr_add (cs_data s1) (sz_mul w (cs_size s1))) el m1 = Inr (p, m2)"
        "memset p NUL w m2 = Inr m3" "cs_after w m1 s1 (t @ concat (replicate (n - cs_size s1) xs)) m3 (s1\<lparr>cs_size := n\<rparr>)"
        by (rule cs_fill_end [OF cs_afterD(1) [OF r(2)] cs_afterD(3) [OF r(2)] w s1 out])
      have A: "cc_str_resize w s n el m = Inr (True, s1\<lparr>cs_size := n\<rparr>, m3)"
        using 3 r(1,5) True f(1,2) by (simp add: cc_str_resize_def cc_str_size_def)
      have "length t \<le> w * n" using cs_rep_length [OF rep] 3 by simp
      with cs_after_trans [OF r(2) f(3)] show ?thesis by (intro that [OF A]) (simp_all add: r(5))
    qed
  qed
qed

section \<open>Release, shrinking and copies\<close>

lemma cs_clear:
  assumes rep: "cs_rep w m s t" and wf: "wf_mem m"
  obtains s' m' where "cc_str_clear w s m = Inr (s', m')" "cs_after w m s [] m' s'" "brk m' = brk m" "cs_size s' = 0"
  using rep
proof cases
  case placeholder
  then have "cc_str_clear w s m = Inr (s, m)" by (simp add: cc_str_clear_def)
  then show ?thesis by (rule that) (use placeholder cs_after_refl [OF wf rep] in simp_all)
next
  case (heap k h r l c)
  define y z q where y: "y = t @ replicate w NUL @ r" "z = take w y" "q = drop w y"
  have zq: "z @ q = t @ replicate w NUL @ r" by (simp only: y append_take_drop_id)
  have "w * l \<le> w * c" using heap(6) by simp
  then have yl: "length y = w + w * c" unfolding y(1) length_append heap(4,5) diff_mult_distrib2 length_replicate by arith
  have b: "blocks m (Heap k) = Some (h @ z @ q)" using heap(2) zq by simp
  let ?m = "m\<lparr>blocks := (blocks m)(Heap k := Some (h @ replicate w NUL @ q))\<rparr>"
  have "memset (Ptr (Heap k) HDR) NUL w m = Inr ?m"
    unfolding memset_def by (rule store_gap [OF b]) (use yl heap(3) in \<open>simp_all add: y\<close>)
  then have A: "cc_str_clear w s m = Inr (s\<lparr>cs_size := 0\<rparr>, ?m)"
    using heap by (simp add: cc_str_clear_def cc_str_is_placeholder_def)
  have "cs_rep w ?m \<lparr>cs_hdr = Ptr (Heap k) 0, cs_size = 0, cs_cap = c, cs_data = Ptr (Heap k) HDR\<rparr> []"
    by (rule cs_rep.heap [where h = h and r = q]) (use heap yl in \<open>simp_all add: y\<close>)
  then have "cs_rep w ?m (s\<lparr>cs_size := 0\<rparr>) []" using heap(1) by simp
  from cs_after_fill [OF wf _ _ this] heap(1,2) have "cs_after w m s [] ?m (s\<lparr>cs_size := 0\<rparr>)" by simp
  from A this show ?thesis by (rule that) simp_all
qed

lemma cs_shrink:
  assumes rep: "cs_rep w m s t" and wf: "wf_mem m" and w: "el_ok w"
  obtains ok s' m' where "cc_str_shrink w s m = Inr (ok, s', m')" "cs_after w m s t m' s'" "avail m (brk m) \<Longrightarrow> ok"
    "\<not> ok \<Longrightarrow> s' = s" "ok \<Longrightarrow> cs_cap s' = cs_size s"
  using rep
proof cases
  case placeholder
  then have "cc_str_shrink w s m = Inr (True, s, m)" by (simp add: cc_str_shrink_def cc_str_size_def cc_str_cap_def)
  then show ?thesis by (rule that) (use placeholder cs_after_refl [OF wf rep] in simp_all)
next
  case (heap k h r l c)
  consider "l = c" | "l \<noteq> c" "l = 0" | "l < c" "0 < l" using heap(6) by linarith
  then show ?thesis
  proof cases
    case 1
    with heap(1) have "cc_str_shrink w s m = Inr (True, s, m)" by (simp add: cc_str_shrink_def cc_str_size_def cc_str_cap_def)
    then show ?thesis by (rule that) (use heap(1) 1 cs_after_refl [OF wf rep] in simp_all)
  next
    case 2
    let ?m = "m\<lparr>blocks := (blocks m)(Heap k := None)\<rparr>"
    have "mfree (Ptr (Heap k) 0) m = Inr ?m" using heap(2) by (simp add: mfree_def)
    with 2 heap(1) have A: "cc_str_shrink w s m = Inr (True, cc_str_placeholder w, ?m)"
      by (simp add: cc_str_shrink_def cc_str_size_def cc_str_cap_def)
    have "t = []" using heap(4) 2 by simp
    then have "cs_rep w ?m (cc_str_placeholder w) t" using cs_rep.placeholder by simp
    then have "cs_after w m s t ?m (cc_str_placeholder w)" using heap(1,2) wf by (simp add: cs_after_def frame_update)
    from A this show ?thesis by (rule that) (use heap(1) 2 in simp_all)
  next
    case 3
    have W: "0 < w" "w \<le> 4" using w by auto
    have "l \<le> CS_MAX" using heap by simp
    then have e: "sz_add (sz_add HDR (sz_mul w l)) w = HDR + w * l + w" using cs_exact [OF W(2)] by simp
    show ?thesis
    proof (cases "avail m (brk m)")
      case False
      have "realloc (Ptr (Heap k) 0) x m = Inr (NULL, m\<lparr>brk := Suc (brk m)\<rparr>)" for x by (rule realloc_heap_fails [OF heap(2) False])
      with 3 heap(1) have A: "cc_str_shrink w s m = Inr (False, s, m\<lparr>brk := Suc (brk m)\<rparr>)"
        by (simp add: cc_str_shrink_def cc_str_size_def cc_str_cap_def)
      have "cs_after w m s t (m\<lparr>brk := Suc (brk m)\<rparr>) s" using rep wf by (simp add: cs_after_def cs_rep_brk frame_brk)
      from A this show ?thesis by (rule that) (use False in simp_all)
    next
      case True
      let ?m = "m\<lparr>blocks := (blocks m)(Heap k := None, Heap (brk m) := Some (h @ t @ replicate w NUL)), brk := Suc (brk m)\<rparr>"
      let ?s = "\<lparr>cs_hdr = Ptr (Heap (brk m)) 0, cs_size = l, cs_cap = l, cs_data = Ptr (Heap (brk m)) HDR\<rparr>"
      have ln: "length (h @ t @ replicate w NUL) = HDR + w * l + w" using heap(3,4) by simp
      have tk: "take (HDR + w * l + w) (h @ t @ replicate w NUL @ r) = h @ t @ replicate w NUL"
        unfolding ln [symmetric] by simp
      have "[length (h @ t @ replicate w NUL @ r)..<HDR + w * l + w] = []" using ln by simp
      then have "realloc (Ptr (Heap k) 0) (HDR + w * l + w) m = Inr (Ptr (Heap (brk m)) 0, ?m)"
        unfolding realloc_moves [OF heap(2) True] tk by simp
      with 3 heap(1) have A: "cc_str_shrink w s m = Inr (True, ?s, ?m)"
        by (simp add: cc_str_shrink_def cc_str_size_def cc_str_cap_def e)
      have "cs_rep w ?m ?s t" by (rule cs_rep.heap [where h = h and r = "[]"]) (use heap 3 in simp_all)
      moreover have "frame {Heap k} m ?m" by (rule frame_realloc [OF wf heap(2)])
      ultimately have "cs_after w m s t ?m ?s" using heap(1) wf by (simp add: cs_after_def)
      from A this show ?thesis by (rule that) (use True heap(1) in simp_all)
    qed
  qed
qed

end
