(* ===== verification/CcStrProps.thy ===== *)
theory CcStrProps
  imports CcStrRep
begin

text \<open>
  Strings of the container library hold a sequence of bytes with a terminator behind it, and every
  operation does to it what its name says, or leaves it alone when the allocator refuses. The
  comparisons of wide characters and some boundary cases do not keep their promise.
\<close>

section \<open>Refinement\<close>

text \<open>The operations, with literals as the arrays of the caller, and what they do to the bytes.\<close>

datatype cs_op =
  Cs_push_n "char list" | Cs_insert_n nat "char list" | Cs_erase_n nat nat | Cs_resize nat "char list"
  | Cs_reserve nat | Cs_clear | Cs_shrink

fun cs_do :: "nat \<Rightarrow> cs_op \<Rightarrow> cc_str \<Rightarrow> mem \<Rightarrow> (bool \<times> cc_str \<times> mem) res" where
  "cs_do w (Cs_push_n xs) s m =
     bnd (cc_str_push_n w s (lit xs) (length xs div w) m) (\<lambda>(p, s, m). Inr (p \<noteq> NULL \<or> xs = [], s, m))"
| "cs_do w (Cs_insert_n i xs) s m =
     bnd (cc_str_insert_n w s i (lit xs) (length xs div w) m) (\<lambda>(p, s, m). Inr (p \<noteq> NULL \<or> xs = [], s, m))"
| "cs_do w (Cs_erase_n i n) s m = bnd (cc_str_erase_n w s i n m) (\<lambda>(p, s, m). Inr (True, s, m))"
| "cs_do w (Cs_resize n x) s m = cc_str_resize w s n (lit x) m"
| "cs_do w (Cs_reserve n) s m = cc_str_reserve w s n m"
| "cs_do w Cs_clear s m = bnd (cc_str_clear w s m) (\<lambda>(s, m). Inr (True, s, m))"
| "cs_do w Cs_shrink s m = cc_str_shrink w s m"

fun cs_spec :: "nat \<Rightarrow> cs_op \<Rightarrow> char list \<Rightarrow> char list" where
  "cs_spec w (Cs_push_n xs) t = t @ xs"
| "cs_spec w (Cs_insert_n i xs) t = take (w * i) t @ xs @ drop (w * i) t"
| "cs_spec w (Cs_erase_n i n) t = take (w * i) t @ drop (w * (i + n)) t"
| "cs_spec w (Cs_resize n x) t = take (w * n) t @ concat (replicate (n - length t div w) x)"
| "cs_spec w (Cs_reserve n) t = t"
| "cs_spec w Cs_clear t = []"
| "cs_spec w Cs_shrink t = t"

text \<open>Positions inside the string, and sizes below the bound.\<close>

fun cs_fits :: "nat \<Rightarrow> cs_op \<Rightarrow> char list \<Rightarrow> bool" where
  "cs_fits w (Cs_push_n xs) t \<longleftrightarrow> w dvd length xs \<and> length t div w + length xs div w \<le> CS_HALF"
| "cs_fits w (Cs_insert_n i xs) t \<longleftrightarrow> i \<le> length t div w \<and> w dvd length xs \<and> length t div w + length xs div w \<le> CS_HALF"
| "cs_fits w (Cs_erase_n i n) t \<longleftrightarrow> i + n \<le> length t div w"
| "cs_fits w (Cs_resize n x) t \<longleftrightarrow> n \<le> CS_MAX \<and> length x = w"
| "cs_fits w (Cs_reserve n) t \<longleftrightarrow> n \<le> CS_MAX"
| "cs_fits w Cs_clear t \<longleftrightarrow> True"
| "cs_fits w Cs_shrink t \<longleftrightarrow> True"

lemma load_lit [simp]: "load_bytes m (lit xs) (length xs) = Inr xs" "outside (lit xs) (cs_base s)"
  by (auto simp: load_bytes_def outside_def cs_base_def split: ptr.splits base.splits)

lemma cs_rep_size: "cs_rep w m s t \<Longrightarrow> 0 < w \<Longrightarrow> length t div w = cs_size s"
  using cs_rep_length by fastforce

lemma cs_insert_lit:
  assumes rep: "cs_rep w m s t" and wf: "wf_mem m" and w: "el_ok w" and i: "i \<le> cs_size s" and n: "cs_size s + length xs div w \<le> CS_HALF"
    and d: "w dvd length xs"
  shows "\<exists>p ok s' m'. cc_str_insert_n w s i (lit xs) (length xs div w) m = Inr (p, s', m') \<and> (ok \<longleftrightarrow> p \<noteq> NULL \<or> xs = []) \<and>
    cs_after w m s (if ok then take (w * i) t @ xs @ drop (w * i) t else t) m' s' \<and> (\<not> ok \<longrightarrow> s' = s) \<and> (avail m (brk m) \<longrightarrow> ok)"
proof -
  have "load_bytes m (lit xs) (w * (length xs div w)) = Inr xs" using d by simp
  from cs_insert_n [OF rep wf w i n this] obtain p s' m' where r: "cc_str_insert_n w s i (lit xs) (length xs div w) m = Inr (p, s', m')"
    "cs_after w m s (if p = NULL then t else take (w * i) t @ xs @ drop (w * i) t) m' s'"
    "avail m (brk m) \<Longrightarrow> 0 < length xs div w \<Longrightarrow> p \<noteq> NULL" "p = NULL \<Longrightarrow> s' = s" by (metis load_lit(2))
  have "xs = [] \<or> 0 < length xs div w" using d w by (auto simp: dvd_imp_le div_greater_zero_iff)
  then have "avail m (brk m) \<longrightarrow> p \<noteq> NULL \<or> xs = []" using r(3) by (elim disjE) simp_all
  moreover have "cs_after w m s (if p \<noteq> NULL \<or> xs = [] then take (w * i) t @ xs @ drop (w * i) t else t) m' s'"
    using r(2) by (cases "p = NULL"; cases "xs = []") simp_all
  ultimately show ?thesis using r(1,4) by (intro exI [of _ p] exI [of _ "p \<noteq> NULL \<or> xs = []"] exI [of _ s'] exI [of _ m']) auto
qed

text \<open>The outcome of an operation: it is done, or the string is left as it was.\<close>

definition cs_outcome :: "nat \<Rightarrow> cs_op \<Rightarrow> cc_str \<Rightarrow> mem \<Rightarrow> char list \<Rightarrow> bool" where
  "cs_outcome w p s m t \<longleftrightarrow> (\<exists>ok s' m'. cs_do w p s m = Inr (ok, s', m') \<and>
     cs_after w m s (if ok then cs_spec w p t else t) m' s' \<and> (ok \<or> s' = s) \<and> (avail m (brk m) \<longrightarrow> ok))"

lemma cs_outcomeI:
  assumes "cs_do w p s m = Inr (ok, s', m')" and "cs_after w m s (if ok then x else t) m' s'" and "cs_spec w p t = x"
    and "\<not> ok \<Longrightarrow> s' = s" and "avail m (brk m) \<Longrightarrow> ok"
  shows "cs_outcome w p s m t"
  unfolding cs_outcome_def using assms by blast

lemma insert_outcome:
  assumes rep: "cs_rep w m s t" and wf: "wf_mem m" and w: "el_ok w" and fits: "cs_fits w (Cs_insert_n i xs) t"
  shows "cs_outcome w (Cs_insert_n i xs) s m t"
proof -
  have "0 < w" using w by auto
  note sz = cs_rep_size [OF rep this]
  have f: "i \<le> cs_size s" "cs_size s + length xs div w \<le> CS_HALF" "w dvd length xs" using fits sz by simp_all
  from cs_insert_lit [OF rep wf w f] obtain q ok s' m' where q: "cc_str_insert_n w s i (lit xs) (length xs div w) m = Inr (q, s', m')"
    "ok \<longleftrightarrow> q \<noteq> NULL \<or> xs = []" "cs_after w m s (if ok then take (w * i) t @ xs @ drop (w * i) t else t) m' s'"
    "\<not> ok \<longrightarrow> s' = s" "avail m (brk m) \<longrightarrow> ok" by (elim exE conjE)
  have "cs_do w (Cs_insert_n i xs) s m = Inr (ok, s', m')" using q(1,2) by simp
  from this q(3) show ?thesis by (rule cs_outcomeI) (use q(4,5) in simp_all)
qed

lemma push_outcome:
  assumes "cs_rep w m s t" and "wf_mem m" and "el_ok w" and "cs_fits w (Cs_push_n xs) t"
  shows "cs_outcome w (Cs_push_n xs) s m t"
proof -
  have "0 < w" using assms(3) by auto
  note sz = cs_rep_size [OF assms(1) this] cs_rep_length [OF assms(1)]
  have "cs_outcome w (Cs_insert_n (cs_size s) xs) s m t" using assms sz by (intro insert_outcome) simp_all
  moreover have "cs_do w (Cs_push_n xs) s m = cs_do w (Cs_insert_n (cs_size s) xs) s m"
    "cs_spec w (Cs_push_n xs) t = cs_spec w (Cs_insert_n (cs_size s) xs) t"
    by (simp_all add: cc_str_push_n_def cc_str_size_def sz(2))
  ultimately show ?thesis by (simp only: cs_outcome_def)
qed

lemma resize_outcome:
  assumes rep: "cs_rep w m s t" and wf: "wf_mem m" and w: "el_ok w" and fits: "cs_fits w (Cs_resize n x) t"
  shows "cs_outcome w (Cs_resize n x) s m t"
proof -
  have "0 < w" using w by auto
  note sz = cs_rep_size [OF rep this]
  have n: "n \<le> CS_MAX" and x: "load_bytes m (lit x) w = Inr x" using fits load_lit(1) [of m x] by auto
  from cs_resize [OF rep wf w n x load_lit(2)] obtain ok s' m' where q: "cc_str_resize w s n (lit x) m = Inr (ok, s', m')"
    "cs_after w m s (if ok then take (w * n) t @ concat (replicate (n - cs_size s) x) else t) m' s'" "avail m (brk m) \<Longrightarrow> ok"
    "\<not> ok \<Longrightarrow> s' = s" by blast
  have "cs_do w (Cs_resize n x) s m = Inr (ok, s', m')" using q(1) by simp
  from this q(2) show ?thesis by (rule cs_outcomeI) (use q(3,4) sz in simp_all)
qed

lemma storage_outcome:
  assumes rep: "cs_rep w m s t" and wf: "wf_mem m" and w: "el_ok w" and p: "p = Cs_reserve n \<and> n \<le> CS_MAX \<or> p = Cs_shrink"
  shows "cs_outcome w p s m t"
proof -
  obtain ok s' m' where q: "cs_do w p s m = Inr (ok, s', m')" "cs_after w m s t m' s'" "avail m (brk m) \<Longrightarrow> ok" "\<not> ok \<Longrightarrow> s' = s"
    using p cs_reserve [OF rep wf w, of n] cs_shrink [OF rep wf w] by (elim disjE conjE) (simp_all, metis+)
  have "cs_after w m s (if ok then t else t) m' s'" using q(2) by simp
  with q(1) show ?thesis by (rule cs_outcomeI) (use p q(3,4) in auto)
qed

lemma removal_outcome:
  assumes rep: "cs_rep w m s t" and wf: "wf_mem m" and w: "el_ok w" and p: "p = Cs_erase_n i n \<and> cs_fits w p t \<or> p = Cs_clear"
  shows "cs_outcome w p s m t"
  using p
proof (elim disjE conjE)
  assume p: "p = Cs_erase_n i n" "cs_fits w p t"
  have "0 < w" using w by auto
  then have "i + n \<le> cs_size s" using p cs_rep_size [OF rep] by simp
  from cs_erase_n [OF rep wf w this] obtain q s' m' where q: "cc_str_erase_n w s i n m = Inr (q, s', m')"
    "cs_after w m s (take (w * i) t @ drop (w * (i + n)) t) m' s'" by blast
  then show ?thesis by (intro cs_outcomeI [where ok = True]) (simp_all add: p(1))
next
  assume p: "p = Cs_clear"
  obtain s' m' where "cc_str_clear w s m = Inr (s', m')" "cs_after w m s [] m' s'" using cs_clear [OF rep wf] by blast
  then show ?thesis by (intro cs_outcomeI [where ok = True]) (simp_all add: p)
qed

text \<open>
  C34: Every operation of a string does to its bytes what it does to a sequence, or, when the
  allocator refuses, leaves the string and its handle alone and says so; no other object changes.
\<close>

theorem str_op_refines:
  assumes "cs_rep w m s t" and "wf_mem m" and "el_ok w" and "cs_fits w p t"
  shows "\<exists>ok s' m'. cs_do w p s m = Inr (ok, s', m') \<and> cs_rep w m' s' (if ok then cs_spec w p t else t) \<and>
    frame (cs_base s) m m' \<and> (ok \<or> s' = s) \<and> (avail m (brk m) \<longrightarrow> ok)"
proof -
  have "cs_outcome w p s m t"
  proof (cases p)
    case (Cs_push_n xs)
    with assms show ?thesis by (simp only: push_outcome)
  next
    case (Cs_insert_n i xs)
    with assms show ?thesis by (simp only: insert_outcome)
  next
    case (Cs_resize n x)
    with assms show ?thesis by (simp only: resize_outcome)
  next
    case (Cs_reserve n)
    with assms show ?thesis by (intro storage_outcome) simp_all
  next
    case (Cs_erase_n i n)
    with assms show ?thesis by (intro removal_outcome) simp_all
  next
    case Cs_clear
    with assms show ?thesis by (intro removal_outcome) simp_all
  next
    case Cs_shrink
    with assms show ?thesis by (intro storage_outcome) simp_all
  qed
  then show ?thesis unfolding cs_outcome_def cs_after_def by blast
qed

lemma str_op_refines_witness:
  "\<exists>s m. cs_do 1 (Cs_push_n ''GET'') (cc_str_placeholder 1) empty_mem = Inr (True, s, m) \<and> cs_rep 1 m s ''GET''"
  using str_op_refines [OF cs_rep.placeholder, of empty_mem 1 "Cs_push_n ''GET''"] by (auto simp: el_ok_def)

section \<open>Comparison of wide characters\<close>

lemma cs_rep_load: "cs_rep w m s t \<Longrightarrow> n \<le> length t \<Longrightarrow> load_bytes m (cs_data s) n = Inr (take n t)"
  by (erule cs_rep.cases) (auto simp: load_bytes_def)

text \<open>
  C36: Two strings of \<^verbatim>\<open>char16_t\<close> of one length are taken for equal as soon as their
  first halves agree: the comparison counts characters where bytes are meant.
\<close>

theorem char16_equal_half:
  assumes "cs_rep 2 m s x" and "cs_rep 2 m u y"
  shows "cc_cmpr_str_char16_equal m s u =
    Inr (length x = length y \<and> take (length x div 2) x = take (length x div 2) y)"
proof (cases "cs_size s = cs_size u")
  case True
  then have l: "length x = 2 * cs_size s" "length y = 2 * cs_size s" using cs_rep_length [OF assms(1)] cs_rep_length [OF assms(2)] by simp_all
  have "load_bytes m (cs_data s) (cs_size s) = Inr (take (cs_size s) x)" "load_bytes m (cs_data u) (cs_size s) = Inr (take (cs_size s) y)"
    using cs_rep_load [OF assms(1)] cs_rep_load [OF assms(2)] l by simp_all
  with True l show ?thesis by (simp add: cc_cmpr_str_char16_equal_def cc_str_size_def cc_str_first_def memcmp_eq_def)
next
  case False
  then have "length x \<noteq> length y" using cs_rep_length [OF assms(1)] cs_rep_length [OF assms(2)] by simp
  with False show ?thesis by (simp add: cc_cmpr_str_char16_equal_def cc_str_size_def)
qed

text \<open>Two strings of the library that are told apart only by their second character.\<close>

definition two_strings :: mem where
  "two_strings = empty_mem\<lparr>blocks :=
     [Heap 0 \<mapsto> replicate HDR NUL @ [CHR ''o'', NUL, CHR ''k'', NUL] @ replicate 2 NUL,
      Heap 1 \<mapsto> replicate HDR NUL @ [CHR ''o'', NUL, CHR ''n'', NUL] @ replicate 2 NUL], brk := 2\<rparr>"

abbreviation heap_str :: "nat \<Rightarrow> nat \<Rightarrow> cc_str" where
  "heap_str k n \<equiv> \<lparr>cs_hdr = Ptr (Heap k) 0, cs_size = n, cs_cap = n, cs_data = Ptr (Heap k) HDR\<rparr>"

lemma char16_equal_half_witness:
  "\<exists>x y. x \<noteq> y \<and> cs_rep 2 two_strings (heap_str 0 2) x \<and> cs_rep 2 two_strings (heap_str 1 2) y \<and>
    cc_cmpr_str_char16_equal two_strings (heap_str 0 2) (heap_str 1 2) = Inr True"
proof -
  let ?x = "[CHR ''o'', NUL, CHR ''k'', NUL]" and ?y = "[CHR ''o'', NUL, CHR ''n'', NUL]"
  have x: "cs_rep 2 two_strings (heap_str 0 2) ?x" and y: "cs_rep 2 two_strings (heap_str 1 2) ?y"
    by (rule cs_rep.heap [where h = "replicate HDR NUL" and r = "[]"]; simp add: two_strings_def)+
  from char16_equal_half [OF x y] have "cc_cmpr_str_char16_equal two_strings (heap_str 0 2) (heap_str 1 2) = Inr True" by simp
  with x y show ?thesis by (intro exI [of _ ?x] exI [of _ ?y]) simp
qed

section \<open>Boundary cases\<close>

text \<open>The placeholder of one-byte characters has no terminator of two bytes.\<close>

lemma empty_char16_unterminated:
  assumes "cc_strlen_char16 m p = Inr 0"
  shows "\<exists>s. cc_cstring_to_str_char16 p m = Inr (Some s, m) \<and> cc_strlen_char16 m (cc_str_first s) = Inl Out_of_bounds"
  using assms by (simp add: cc_cstring_to_str_char16_def cs_from_cstring_def cc_strlen_char16_def cc_str_first_def tail_bytes_def el_scan.simps)

text \<open>
  A capacity near the bound of \<^verbatim>\<open>size_t\<close> wraps around in the size of the block: the
  request succeeds with a block of 28 bytes, and the first character pushed is written behind it.
\<close>

theorem reserve_wraps:
  assumes "avail m (brk m)"
  shows "\<exists>s m'. cc_str_reserve 4 (cc_str_placeholder 4) (2 ^ 62) m = Inr (True, s, m') \<and> cs_cap s = 2 ^ 62 \<and>
    cc_str_push 4 s el m' = Inl Out_of_bounds"
proof -
  let ?j = "map (junk m (brk m)) [0..<28]"
  have "realloc NULL 28 m = Inr (Ptr (Heap (brk m)) 0, m\<lparr>blocks := (blocks m)(Heap (brk m) := Some ?j), brk := Suc (brk m)\<rparr>)"
    by (simp add: realloc_def malloc_ok [OF assms])
  moreover have "sz_add (sz_add HDR (sz_mul 4 (2 ^ 62))) 4 = 28" by (simp add: sz_add_def sz_mul_def)
  ultimately show ?thesis
    by (simp add: cc_str_reserve_def cc_str_cap_def load_bytes_def memset_def store_bytes_def cc_str_push_def cc_str_push_n_def
        cc_str_insert_n_def cs_make_room_def cc_str_size_def memmove_def sz_mul_def del: upt_Suc)
qed

lemma reserve_wraps_witness:
  "\<exists>s m'. cc_str_reserve 4 (cc_str_placeholder 4) (2 ^ 62) empty_mem = Inr (True, s, m') \<and> cs_cap s = 2 ^ 62 \<and>
    cc_str_push 4 s (lit ''abc'') m' = Inl Out_of_bounds"
  by (rule reserve_wraps) simp

end
