(* ===== verification/CcStrFmtProps.thy ===== *)
theory CcStrFmtProps
  imports CcStrProps
begin

text \<open>
  Formatted insertion puts the texts of its arguments, one after the other, at the index; the
  number of characters counted first is the number printed. Only pushing nothing into a string
  without storage goes wrong.
\<close>

section \<open>Printing into a gap\<close>

lemma widen_length [simp]: "0 < w \<Longrightarrow> length (widen w c) = w"
  by (simp add: widen_def)

lemma widen_text_length [simp]: "0 < w \<Longrightarrow> length (concat (map (widen w) t)) = w * length t"
  by (induction t) simp_all

lemma widen_1 [simp]: "concat (map (widen (Suc 0)) t) = t"
  by (induction t) (simp_all add: widen_def)

text \<open>The characters spread from the last to the first; none is overwritten before it is read.\<close>

lemma fixup:
  assumes "0 < w"
  shows "blocks m (Heap k) = Some (p @ x) \<Longrightarrow> w * j \<le> length x \<Longrightarrow>
    cc_snprintf_fixup w (Ptr (Heap k) (length p)) j m =
      Inr (m\<lparr>blocks := (blocks m)(Heap k := Some (p @ concat (map (widen w) (take j x)) @ drop (w * j) x))\<rparr>)"
proof (induction j arbitrary: x m)
  case 0
  then show ?case by (simp add: fun_upd_idem)
next
  case (Suc j)
  have jw: "j \<le> w * j" using assms by simp
  have l: "w * j + w \<le> length x" using Suc.prems(2) by (simp add: add.commute)
  then have j: "j < length x" using jw assms by linarith
  let ?x = "take (w * j) x @ widen w (x ! j) @ drop (w * j + w) x"
  let ?m = "m\<lparr>blocks := (blocks m)(Heap k := Some (p @ ?x))\<rparr>"
  have ld: "load_byte m (Ptr (Heap k) (length p)) j = Inr (x ! j)" using Suc.prems(1) j by (simp add: load_byte_def nth_append)
  have "x = take (w * j) x @ take w (drop (w * j) x) @ drop w (drop (w * j) x)" by (simp only: append_take_drop_id)
  then have b: "blocks m (Heap k) = Some ((p @ take (w * j) x) @ take w (drop (w * j) x) @ drop (w * j + w) x)"
    using Suc.prems(1) by (simp add: add.commute)
  have lp: "length (p @ take (w * j) x) = length p + w * j" using l by simp
  have st: "store_bytes m (Ptr (Heap k) (length p + w * j)) (widen w (x ! j)) = Inr ?m"
    using store_gap [OF b, of "widen w (x ! j)" "length p + w * j"] l assms by simp
  have lt: "length (take (w * j) x) = w * j" using l by simp
  have t: "take j ?x = take j x" using jw lt by (simp add: min_def)
  have d: "drop (w * j) ?x = widen w (x ! j) @ drop (w * j + w) x" using lt by simp
  have "cc_snprintf_fixup w (Ptr (Heap k) (length p)) j ?m =
      Inr (?m\<lparr>blocks := (blocks ?m)(Heap k := Some (p @ concat (map (widen w) (take j ?x)) @ drop (w * j) ?x))\<rparr>)"
    by (rule Suc.IH) (use l lt in simp_all)
  then have "cc_snprintf_fixup w (Ptr (Heap k) (length p)) j ?m =
      Inr (m\<lparr>blocks := (blocks m)(Heap k := Some (p @ concat (map (widen w) (take (Suc j) x)) @ drop (w * Suc j) x))\<rparr>)"
    unfolding t d using j by (simp add: take_Suc_conv_app_nth add.commute)
  then show ?case by (simp only: cc_snprintf_fixup.simps ld bnd_simps ptr_add_simps st)
qed

lemma fmt_print:
  assumes b: "blocks m (Heap k) = Some (p @ g @ q)" and w: "el_ok w" and l: "w * length t \<le> length g" and q: "q \<noteq> []"
  shows "fmt_print w t (Ptr (Heap k) (length p)) (length t) m =
    Inr (m\<lparr>blocks := (blocks m)(Heap k := Some (p @ concat (map (widen w) t) @ drop (w * length t) g @ q))\<rparr>)"
proof -
  have W: "0 < w" using w by auto
  let ?n = "length t" and ?y = "g @ q"
  have "?n \<le> w * ?n" using W by simp
  then have ng: "?n \<le> length g" using l by linarith
  then have n: "?n < length ?y" using q by (cases q) auto
  have ld: "load_byte m (Ptr (Heap k) (length p)) ?n = Inr (?y ! ?n)" using b n by (simp add: load_byte_def nth_append)
  let ?m1 = "m\<lparr>blocks := (blocks m)(Heap k := Some (p @ (t @ [NUL]) @ drop (Suc ?n) ?y))\<rparr>"
  have st1: "store_bytes m (Ptr (Heap k) (length p)) (take ?n t @ [NUL]) = Inr ?m1"
  proof -
    have "blocks m (Heap k) = Some (p @ take (Suc ?n) ?y @ drop (Suc ?n) ?y)" unfolding append_take_drop_id by (rule b)
    moreover have "length (take (Suc ?n) ?y) = length (t @ [NUL])" using n unfolding length_take by simp
    ultimately have "store_bytes m (Ptr (Heap k) (length p)) (t @ [NUL]) = Inr ?m1" by (rule store_gap) simp
    then show ?thesis by simp
  qed
  let ?x = "t @ drop ?n ?y"
  let ?m2 = "m\<lparr>blocks := (blocks m)(Heap k := Some (p @ ?x))\<rparr>"
  have "store_bytes ?m1 (Ptr (Heap k) (length p + ?n)) [?y ! ?n] =
      Inr (?m1\<lparr>blocks := (blocks ?m1)(Heap k := Some ((p @ t) @ [?y ! ?n] @ drop (Suc ?n) ?y))\<rparr>)"
    by (rule store_gap [where g = "[NUL]"]) simp_all
  moreover have "[?y ! ?n] @ drop (Suc ?n) ?y = drop ?n ?y" using Cons_nth_drop_Suc [OF n] by (simp only: append_Cons append_Nil)
  ultimately have st2: "store_bytes ?m1 (Ptr (Heap k) (length p + ?n)) [?y ! ?n] = Inr ?m2" by simp
  have dx: "drop ?n ?y = drop ?n g @ q" using ng by simp
  have lx: "w * ?n \<le> length ?x" unfolding dx using l ng by simp
  have fx: "cc_snprintf_fixup w (Ptr (Heap k) (length p)) ?n ?m2 =
      Inr (m\<lparr>blocks := (blocks m)(Heap k := Some (p @ concat (map (widen w) t) @ drop (w * ?n) g @ q))\<rparr>)"
  proof -
    have "drop (w * ?n) ?x = drop (w * ?n) g @ q" unfolding dx using l \<open>?n \<le> w * ?n\<close> by simp
    moreover have "blocks ?m2 (Heap k) = Some (p @ ?x)" by simp
    ultimately show ?thesis using fixup [OF W, of ?m2 k p ?x ?n] lx by simp
  qed
  have "w = 1 \<or> w = 2 \<or> w = 4" using w by (simp add: el_ok_def)
  then show ?thesis
  proof (elim disjE)
    assume 1: "w = 1"
    with fx have "?m2 = m\<lparr>blocks := (blocks m)(Heap k := Some (p @ concat (map (widen w) t) @ drop (w * ?n) g @ q))\<rparr>"
      unfolding dx by simp
    with 1 show ?thesis unfolding fmt_print_def ld bnd_simps st1 ptr_add_simps st2 by simp
  qed (unfold fmt_print_def ld bnd_simps st1 ptr_add_simps st2 cc_snprintf_fixup_char16_def cc_snprintf_fixup_char32_def, use fx in simp_all)
qed

section \<open>Arguments and their texts\<close>

text \<open>The bytes an argument stands for, read in the memory before the call.\<close>

definition wide_text :: "nat \<Rightarrow> string \<Rightarrow> char list" where
  "wide_text w t = (if printed_length t = SIZE_MAX then [] else concat (map (widen w) t))"

fun arg_shows :: "print_env \<Rightarrow> nat \<Rightarrow> fmt_modes \<Rightarrow> mem \<Rightarrow> cc_wrapped_str_fmt_arg \<Rightarrow> char list \<Rightarrow> bool" where
  "arg_shows env w st m (C_string p) bs \<longleftrightarrow> (\<exists>n. formatted_length env w st (C_string p) m = Inr n \<and> load_bytes m p (w * n) = Inr bs)"
| "arg_shows env w st m (Str u) bs \<longleftrightarrow> cs_rep w m u bs"
| "arg_shows env w st m (Unsigned_integer i) bs \<longleftrightarrow> bs = wide_text w (printed env st (Unsigned_integer i))"
| "arg_shows env w st m (Integer i) bs \<longleftrightarrow> bs = wide_text w (printed env st (Integer i))"
| "arg_shows env w st m (Floating f) bs \<longleftrightarrow> bs = wide_text w (printed env st (Floating f))"
| "arg_shows env w st m (Void_pointer p) bs \<longleftrightarrow> bs = wide_text w (printed env st (Void_pointer p))"
| "arg_shows env w st m _ bs \<longleftrightarrow> bs = []"

fun args_show :: "print_env \<Rightarrow> nat \<Rightarrow> fmt_modes \<Rightarrow> mem \<Rightarrow> cc_wrapped_str_fmt_arg list \<Rightarrow> char list list \<Rightarrow> bool" where
  "args_show env w st m [] bss \<longleftrightarrow> bss = []"
| "args_show env w st m (a # as) bss \<longleftrightarrow>
     (\<exists>b bss'. bss = b # bss' \<and> arg_shows env w st m a b \<and> args_show env w (set_mode a st) m as bss')"

text \<open>Where an argument is read from, if it is: not from the string that grows.\<close>

definition arg_src :: "cc_wrapped_str_fmt_arg \<Rightarrow> ptr option" where
  "arg_src a = (case a of C_string p \<Rightarrow> Some p | Str u \<Rightarrow> Some (ptr_add (cs_hdr u) HDR) | _ \<Rightarrow> None)"

definition args_outside :: "cc_wrapped_str_fmt_arg list \<Rightarrow> base set \<Rightarrow> bool" where
  "args_outside as B \<longleftrightarrow> (\<forall>a \<in> set as. \<forall>p. arg_src a = Some p \<longrightarrow> outside p B)"

text \<open>What the second pass relies on, for an argument with the length \<open>n\<close> of the first.\<close>

definition arg_ready ::
  "print_env \<Rightarrow> nat \<Rightarrow> fmt_modes \<Rightarrow> base set \<Rightarrow> mem \<Rightarrow> cc_wrapped_str_fmt_arg \<Rightarrow> size_t \<Rightarrow> char list \<Rightarrow> bool" where
  "arg_ready env w st B m a n bs \<longleftrightarrow>
     (if n = SIZE_MAX then bs = [] \<and> set_mode a st = st
      else n \<le> CS_HALF \<and> length bs = w * n \<and>
        (\<forall>p. arg_src a = Some p \<longrightarrow> 0 < n \<longrightarrow> load_bytes m p (w * n) = Inr bs \<and> outside p B) \<and>
        (arg_src a = None \<longrightarrow> bs = concat (map (widen w) (printed env st a))))"

fun args_ready ::
  "print_env \<Rightarrow> nat \<Rightarrow> fmt_modes \<Rightarrow> base set \<Rightarrow> mem \<Rightarrow> (cc_wrapped_str_fmt_arg \<times> size_t) list \<Rightarrow> char list list \<Rightarrow> bool" where
  "args_ready env w st B m [] bss \<longleftrightarrow> bss = []"
| "args_ready env w st B m ((a, n) # as) bss \<longleftrightarrow>
     (\<exists>b bss'. bss = b # bss' \<and> arg_ready env w st B m a n b \<and> args_ready env w (set_mode a st) B m as bss')"

lemma args_ready_mono:
  assumes "\<And>p n x. load_bytes m p n = Inr x \<Longrightarrow> 0 < n \<Longrightarrow> outside p B \<Longrightarrow> load_bytes m' p n = Inr x \<and> outside p B'" and "0 < w"
  shows "args_ready env w st B m as bss \<Longrightarrow> args_ready env w st B' m' as bss"
proof (induction as arbitrary: st bss)
  case (Cons an as)
  obtain a n where an: "an = (a, n)" by (cases an)
  from Cons.prems an obtain b bss' where b: "bss = b # bss'" "arg_ready env w st B m a n b" "args_ready env w (set_mode a st) B m as bss'"
    by auto
  have "load_bytes m' p (w * n) = Inr b \<and> outside p B'" if "load_bytes m p (w * n) = Inr b" "outside p B" "0 < n" for p
    using assms(1) [OF that(1) _ that(2)] that(3) assms(2) by simp
  with b(2) have "arg_ready env w st B' m' a n b" unfolding arg_ready_def by (cases "n = SIZE_MAX") simp_all
  with b Cons.IH [OF b(3)] an show ?case by simp
qed simp

section \<open>Counting\<close>

lemma printed_length_SIZE_MAX: "printed_length t \<noteq> SIZE_MAX \<Longrightarrow> printed_length t = length t \<and> 0 < length t"
  by (simp add: printed_length_def split: if_splits)

lemma wide_text_length: "0 < w \<Longrightarrow> printed_length t \<noteq> SIZE_MAX \<Longrightarrow> length (wide_text w t) = w * printed_length t"
  using printed_length_SIZE_MAX [of t] by (simp add: wide_text_def)

lemma cs_rep_src:
  assumes "cs_rep w m u t" and "0 < length t"
  shows "load_bytes m (ptr_add (cs_hdr u) HDR) (length t) = Inr t"
  using assms(1)
proof cases
  case (heap k h r n c)
  then show ?thesis using load_bytes_block [of m "Heap k" "h @ t @ replicate w NUL @ r" HDR "length t"] by simp
qed (use assms(2) in simp)

lemma ready_printed:
  assumes "arg_src a = None" and "b = wide_text w (printed env st a)" and "0 < w" and "length b \<le> w * CS_HALF" and "set_mode a st = st"
  shows "arg_ready env w st B m a (printed_length (printed env st a)) b"
  using assms wide_text_length [OF assms(3), of "printed env st a"] by (auto simp: arg_ready_def wide_text_def)

lemma shown_ready:
  assumes "arg_shows env w st m a b" and "el_ok w" and "\<And>p. arg_src a = Some p \<Longrightarrow> outside p B" and "length b \<le> w * CS_HALF"
  shows "\<exists>n. formatted_length env w st a m = Inr n \<and> arg_ready env w st B m a n b"
proof -
  have W: "0 < w" using assms(2) by auto
  note printed = ready_printed [OF _ _ W assms(4), of _ env st B m]
  show ?thesis
  proof (cases a)
    case (C_string p)
    with assms(1) obtain n where n: "formatted_length env w st a m = Inr n" "load_bytes m p (w * n) = Inr b" by auto
    then have "length b = w * n" by (simp add: load_bytes_length)
    with n assms(3,4) C_string W show ?thesis by (auto simp: arg_ready_def arg_src_def)
  next
    case (Str u)
    with assms(1) have rep: "cs_rep w m u b" by simp
    note l = cs_rep_length [OF rep]
    have "load_bytes m (ptr_add (cs_hdr u) HDR) (w * cs_size u) = Inr b" if "0 < cs_size u"
      using cs_rep_src [OF rep] that W unfolding l by simp
    then have "arg_ready env w st B m a (cs_size u) b"
      using l assms(3,4) Str W by (auto simp: arg_ready_def arg_src_def)
    with Str show ?thesis by simp
  next
    case (Unsigned_integer i)
    with assms(1) printed [of a] show ?thesis by (simp add: arg_src_def)
  next
    case (Integer i)
    with assms(1) printed [of a] show ?thesis by (simp add: arg_src_def)
  next
    case (Floating f)
    with assms(1) printed [of a] show ?thesis by (simp add: arg_src_def)
  next
    case (Void_pointer p)
    with assms(1) printed [of a] show ?thesis by (simp add: arg_src_def)
  qed (use assms(1) in \<open>simp_all add: arg_ready_def arg_src_def\<close>)
qed

lemma fmt_count:
  assumes w: "el_ok w"
  shows "args_show env w st m as bss \<Longrightarrow> args_outside as B \<Longrightarrow> w * tot + length (concat bss) \<le> w * CS_HALF \<Longrightarrow>
    \<exists>ns sum. fmt_count env w st as tot m = Inr (ns, sum) \<and> w * sum = w * tot + length (concat bss) \<and> length ns = length as \<and>
      args_ready env w st B m (zip as ns) bss"
proof (induction as arbitrary: st bss tot)
  case (Cons a as)
  have W: "0 < w" using w by auto
  from Cons.prems(1) obtain b bss' where b: "bss = b # bss'" "arg_shows env w st m a b" "args_show env w (set_mode a st) m as bss'" by auto
  have lb: "w * tot + length b + length (concat bss') \<le> w * CS_HALF" using Cons.prems(3) b(1) by simp
  obtain n where n: "formatted_length env w st a m = Inr n" "arg_ready env w st B m a n b"
    using shown_ready [OF b(2) w, of B] Cons.prems(2) lb by (auto simp: args_outside_def)
  define tot' where "tot' = (if n \<noteq> SIZE_MAX then sz_add tot n else tot)"
  have t: "w * tot' = w * tot + length b"
  proof (cases "n = SIZE_MAX")
    case True
    with n(2) show ?thesis by (simp add: tot'_def arg_ready_def)
  next
    case False
    with n(2) have "length b = w * n" by (simp add: arg_ready_def)
    moreover have "w * (tot + n) \<le> w * CS_HALF" unfolding distrib_left using lb \<open>length b = w * n\<close> by simp
    then have "tot + n \<le> CS_HALF" using W by simp
    ultimately show ?thesis using False by (simp add: tot'_def distrib_left)
  qed
  have "args_outside as B" using Cons.prems(2) by (simp add: args_outside_def)
  from Cons.IH [OF b(3) this, of tot'] lb t obtain ns sum where
    "fmt_count env w (set_mode a st) as tot' m = Inr (ns, sum)" "w * sum = w * tot + length b + length (concat bss')" "length ns = length as"
    "args_ready env w (set_mode a st) B m (zip as ns) bss'" by auto
  with n b(1) show ?case by (intro exI [of _ "n # ns"] exI [of _ sum]) (simp add: tot'_def)
qed simp

section \<open>The second pass\<close>

lemma memcpy_nothing: "memcpy d src 0 m = Inr m"
  by (cases d; cases src) (simp_all add: memcpy_def store_bytes_def overlaps_def)

lemma insert_arg:
  assumes b: "blocks m (Heap k) = Some (p @ g @ q)" and w: "el_ok w" and r: "arg_ready env w st {Heap k} m a n bs"
    and n: "n \<noteq> SIZE_MAX" and l: "length bs \<le> length g" and q: "q \<noteq> []"
  shows "fmt_insert_arg env w st a n (Ptr (Heap k) (length p)) m =
    Inr (Ptr (Heap k) (length (p @ bs)), m\<lparr>blocks := (blocks m)(Heap k := Some ((p @ bs) @ drop (length bs) g @ q))\<rparr>)"
proof -
  let ?m = "m\<lparr>blocks := (blocks m)(Heap k := Some (p @ bs @ drop (length bs) g @ q))\<rparr>"
  have W: "0 < w" "w \<le> 4" using w by auto
  have lb: "length bs = w * n" and n1: "n \<le> CS_MAX" using r n by (auto simp: arg_ready_def)
  have e: "sz_mul n w = w * n" by (rule cs_exact(2) [OF W(2) n1])
  have cp: "memcpy (Ptr (Heap k) (length p)) src (w * n) m = Inr ?m" if "arg_src a = Some src" for src
  proof (cases "n = 0")
    case True
    with lb b show ?thesis by (simp add: memcpy_nothing fun_upd_idem)
  next
    case False
    with r n that have ld: "load_bytes m src (w * n) = Inr bs" "outside src {Heap k}" by (auto simp: arg_ready_def)
    have "blocks m (Heap k) = Some (p @ take (w * n) g @ drop (w * n) g @ q)" using b by simp
    from memcpy_gap [OF this ld, of "length p"] l lb show ?thesis by simp
  qed
  have pr: "fmt_print w (printed env st a) (Ptr (Heap k) (length p)) n m = Inr ?m" if "arg_src a = None"
  proof -
    have t: "bs = concat (map (widen w) (printed env st a))" using r n that by (auto simp: arg_ready_def)
    then have "length (printed env st a) = n" using lb W by simp
    with fmt_print [OF b w _ q, of "printed env st a"] l lb t show ?thesis by simp
  qed
  have mode: "bs = []" "?m = m" if "arg_src a = None" "printed env st a = []"
    using r n that b by (auto simp: arg_ready_def fun_upd_idem)
  show ?thesis using cp pr mode by (cases a) (simp_all add: arg_src_def e lb)
qed

lemma ready_upd:
  assumes "args_ready env w st {Heap k} m as bss" and "0 < w"
  shows "args_ready env w st {Heap k} (m\<lparr>blocks := (blocks m)(Heap k := x)\<rparr>) as bss"
  by (rule args_ready_mono [OF _ assms(2,1)]) (simp add: load_outside)

lemma insert_args:
  assumes w: "el_ok w" and q: "q \<noteq> []"
  shows "args_ready env w st {Heap k} m as bss \<Longrightarrow> blocks m (Heap k) = Some (p @ g @ q) \<Longrightarrow> length g = length (concat bss) \<Longrightarrow>
    fmt_insert env w st as (Ptr (Heap k) (length p)) m =
      Inr (m\<lparr>blocks := (blocks m)(Heap k := Some (p @ concat bss @ q))\<rparr>)"
proof (induction as arbitrary: st bss p g m)
  case Nil
  then show ?case by (simp add: fun_upd_idem)
next
  case (Cons an as)
  have W: "0 < w" using w by auto
  obtain a n where an: "an = (a, n)" by (cases an)
  from Cons.prems(1) an obtain b bss' where b: "bss = b # bss'" "arg_ready env w st {Heap k} m a n b"
    "args_ready env w (set_mode a st) {Heap k} m as bss'" by auto
  show ?case
  proof (cases "n = SIZE_MAX")
    case True
    then have e: "b = []" "set_mode a st = st" using b(2) by (auto simp: arg_ready_def)
    have "fmt_insert env w st as (Ptr (Heap k) (length p)) m = Inr (m\<lparr>blocks := (blocks m)(Heap k := Some (p @ concat bss' @ q))\<rparr>)"
      by (rule Cons.IH [OF _ Cons.prems(2)]) (use b e Cons.prems(3) in simp_all)
    with True show ?thesis unfolding an b(1) e(1) by (simp only: fmt_insert.simps simp_thms if_False concat.simps append_Nil)
  next
    case False
    have l: "length b \<le> length g" using Cons.prems(3) b(1) by simp
    let ?m = "m\<lparr>blocks := (blocks m)(Heap k := Some ((p @ b) @ drop (length b) g @ q))\<rparr>"
    have "fmt_insert env w (set_mode a st) as (Ptr (Heap k) (length (p @ b))) ?m =
        Inr (?m\<lparr>blocks := (blocks ?m)(Heap k := Some ((p @ b) @ concat bss' @ q))\<rparr>)"
      by (rule Cons.IH [OF ready_upd [OF b(3) W], where g = "drop (length b) g"]) (use Cons.prems(3) b(1) in simp_all)
    then have ih: "fmt_insert env w (set_mode a st) as (Ptr (Heap k) (length (p @ b))) ?m =
        Inr (m\<lparr>blocks := (blocks m)(Heap k := Some (p @ concat bss @ q))\<rparr>)" using b(1) by simp
    have "fmt_insert_arg env w st a n (Ptr (Heap k) (length p)) m = Inr (Ptr (Heap k) (length (p @ b)), ?m)"
      by (rule insert_arg [OF Cons.prems(2) w b(2) False l q])
    with False show ?thesis unfolding an by (simp only: fmt_insert.simps if_True simp_thms bnd_simps prod.case ih)
  qed
qed

section \<open>The whole insertion\<close>

text \<open>
  C35: Formatted insertion at an index puts the texts of all arguments there, in order - numbers in the
  mode set before them, C strings and strings as they are, in the width of the characters - and moves
  the rest behind them; when the allocator refuses, the string stays as it was. The arguments must not
  be read from the string itself.
\<close>

theorem insert_fmt_text:
  assumes "cs_rep w m s t" and "wf_mem m" and "el_ok w" and "i \<le> cs_size s"
    and "args_show env w fmt_modes_init m args bss" and "args_outside args (cs_base s)"
    and "length t + length (concat bss) \<le> w * CS_HALF" and "0 < cs_cap s \<or> concat bss \<noteq> []"
  shows "\<exists>p s' m'. cc_str_insert_fmt env w s args i m = Inr (p, s', m') \<and>
    cs_rep w m' s' (if p = NULL then t else take (w * i) t @ concat bss @ drop (w * i) t) \<and>
    frame (cs_base s) m m' \<and> (avail m (brk m) \<longrightarrow> p \<noteq> NULL)"
proof -
  note rep = assms(1) and wf = assms(2) and w = assms(3)
  have W: "0 < w" using w by auto
  have "w * 0 + length (concat bss) \<le> w * CS_HALF" using assms(7) by simp
  from fmt_count [OF w assms(5,6) this] obtain ns n where c: "fmt_count env w fmt_modes_init args 0 m = Inr (ns, n)"
    "w * n = length (concat bss)" "args_ready env w fmt_modes_init (cs_base s) m (zip args ns) bss" by auto
  have "w * (cs_size s + n) \<le> w * CS_HALF" unfolding distrib_left c(2) using assms(7) cs_rep_length [OF rep] by simp
  then have n: "cs_size s + n \<le> CS_HALF" using W by simp
  have room: "0 < cs_cap s \<or> 0 < n"
  proof (rule ccontr)
    assume "\<not> (0 < cs_cap s \<or> 0 < n)"
    then have "length (concat bss) = 0" "cs_cap s = 0" using c(2) by simp_all
    with assms(8) show False unfolding length_0_conv by simp
  qed
  from rep wf w assms(4) n room show ?thesis
  proof (cases rule: cs_room_gap)
    case (refused m1)
    then have "cc_str_insert_fmt env w s args i m = Inr (NULL, s, m1)"
      using c(1) by (simp add: cc_str_insert_fmt_def cc_str_insert_wrapped_fmt_args_def)
    then show ?thesis using refused(2,3) by (auto simp: cs_after_def)
  next
    case (gap s1 m1 k p g q)
    let ?m = "m1\<lparr>blocks := (blocks m1)(Heap k := Some (p @ g @ q))\<rparr>"
    let ?s = "s1\<lparr>cs_size := sz_add (cs_size s1) n\<rparr>" and ?m' = "m1\<lparr>blocks := (blocks m1)(Heap k := Some (p @ concat bss @ q))\<rparr>"
    have "args_ready env w fmt_modes_init {Heap k} m1 (zip args ns) bss"
    proof (rule args_ready_mono [OF _ W c(3)])
      fix src j x assume "load_bytes m src j = Inr x" "0 < j" "outside src (cs_base s)"
      from outside_after [OF gap(2) this] show "load_bytes m1 src j = Inr x \<and> outside src {Heap k}" unfolding gap(3) ..
    qed
    then have rd: "args_ready env w fmt_modes_init {Heap k} ?m (zip args ns) bss" by (rule ready_upd [OF _ W])
    have "fmt_insert env w fmt_modes_init (zip args ns) (Ptr (Heap k) (length p)) ?m =
        Inr (?m\<lparr>blocks := (blocks ?m)(Heap k := Some (p @ concat bss @ q))\<rparr>)"
      by (rule insert_args [OF w gap(6) rd, where g = g]) (simp_all add: gap(5) c(2))
    then have "fmt_insert env w fmt_modes_init (zip args ns) (Ptr (Heap k) (length p)) ?m = Inr ?m'" by simp
    then have "cc_str_insert_fmt env w s args i m = Inr (Ptr (Heap k) (length p), ?s, ?m')"
      using c(1) gap(1,4,7) by (simp add: cc_str_insert_fmt_def cc_str_insert_wrapped_fmt_args_def Let_def)
    moreover have "cs_after w m s (take (w * i) t @ concat bss @ drop (w * i) t) ?m' ?s" by (rule gap(9)) (simp add: c(2))
    ultimately show ?thesis by (auto simp: cs_after_def)
  qed
qed

text \<open>A request line with a number in it, pushed into an empty string.\<close>

definition sample_print :: print_env where
  "sample_print = \<lparr>float_text = (\<lambda>_ _ _. ''0''), pointer_text = (\<lambda>_. ''0x0'')\<rparr>"

lemma insert_fmt_text_witness:
  "\<exists>p s m. cc_str_insert_fmt sample_print 1 (cc_str_placeholder 1) [C_string (lit ''GET /''), cc_integer_hex 4, Unsigned_integer 48879] 0 empty_mem = Inr (p, s, m) \<and>
     cs_rep 1 m s ''GET /beef''"
proof -
  let ?a = "[C_string (lit ''GET /''), cc_integer_hex 4, Unsigned_integer 48879]" and ?b = "[''GET /'', [], ''beef'']"
  have "printed sample_print (set_mode (Mode_integer_hex 4) fmt_modes_init) (Unsigned_integer 48879) = ''beef''"
    by (simp add: fmt_modes_init_def radix_def unsigned_text_def num_text.simps num_char_def)
  then have sh: "args_show sample_print 1 fmt_modes_init empty_mem ?a ?b"
    by (simp add: cc_integer_hex_def c_strlen_lit load_bytes_def wide_text_def printed_length_def widen_def)
  have out: "args_outside ?a (cs_base (cc_str_placeholder 1))" by (simp add: args_outside_def arg_src_def outside_def)
  have "\<exists>p s' m'. cc_str_insert_fmt sample_print 1 (cc_str_placeholder 1) ?a 0 empty_mem = Inr (p, s', m') \<and>
      cs_rep 1 m' s' (if p = NULL then [] else take (1 * 0) [] @ concat ?b @ drop (1 * 0) []) \<and>
      frame (cs_base (cc_str_placeholder 1)) empty_mem m' \<and> (avail empty_mem (brk empty_mem) \<longrightarrow> p \<noteq> NULL)"
    by (rule insert_fmt_text [OF cs_rep.placeholder _ _ _ sh out]) (simp_all add: el_ok_def)
  then show ?thesis by auto
qed

text \<open>
  Pushing texts that are all empty into a string without storage writes to the literal of the
  placeholder: unlike the other insertions, the formatted one moves the terminator even when nothing
  is inserted.
\<close>

theorem push_nothing_faults:
  assumes "args_show env w fmt_modes_init m args bss" and "concat bss = []" and "args_outside args {}" and "el_ok w"
  shows "cc_str_push_fmt env w (cc_str_placeholder w) args m = Inl Read_only"
proof -
  have W: "0 < w" using assms(4) by auto
  have "w * 0 + length (concat bss) \<le> w * CS_HALF" unfolding assms(2) by simp
  from fmt_count [OF assms(4,1,3) this] assms(2) W obtain ns where "fmt_count env w fmt_modes_init args 0 m = Inr (ns, 0)" by auto
  moreover have "load_bytes m (lit (replicate (w - 1) NUL)) w = Inr (replicate w NUL)"
    using W by (cases w) (simp_all add: load_bytes_def replicate_append_same)
  ultimately show ?thesis using W assms(4)
    by (auto simp: cc_str_push_fmt_def cc_str_insert_wrapped_fmt_args_def cs_make_room_def cc_str_size_def cc_str_cap_def memmove_def
        store_bytes_def Let_def sz_mul_def sz_add_def el_ok_def)
qed

lemma push_nothing_faults_witness:
  "cc_str_push_fmt sample_print 1 (cc_str_placeholder 1) [C_string (lit [])] empty_mem = Inl Read_only"
  by (rule push_nothing_faults [where bss = "[[]]"])
    (simp_all add: args_outside_def outside_def el_ok_def c_strlen_def tail_bytes_def)

end
