(* ===== verification/ErrorCode.thy ===== *)
theory ErrorCode
  imports Prelude
begin

text \<open>
  \<^verbatim>\<open>util/error_code.c\<close> with its tables \<^verbatim>\<open>util/include/http_ec.def\<close> and
  \<^verbatim>\<open>util/include/message.def\<close>: the error codes of the server, the log messages, and
  the functions between them. Both enumerations are integers of C, numbered in the order of
  the tables, and the tables are transcribed entry by entry; an integer that is no constant of
  the enumeration runs into the \<^verbatim>\<open>assert(false)\<close> behind the \<^verbatim>\<open>switch\<close>.

  The log levels of the logging library (\<^verbatim>\<open>ctp_info\<close>, ...) are not part of the
  repository: the column of the table is the type \<open>msg_level_t\<close> and the library's constants
  are a parameter.
\<close>

section \<open>The error codes\<close>

type_synonym http_err_t = nat

abbreviation (input) http_success :: http_err_t where "http_success \<equiv> 0"
abbreviation (input) http_err_socket :: http_err_t where "http_err_socket \<equiv> 1"
abbreviation (input) http_err_setsocketopt :: http_err_t where "http_err_setsocketopt \<equiv> 2"
abbreviation (input) http_err_inet_pton :: http_err_t where "http_err_inet_pton \<equiv> 3"
abbreviation (input) http_err_bind :: http_err_t where "http_err_bind \<equiv> 4"
abbreviation (input) http_err_listen :: http_err_t where "http_err_listen \<equiv> 5"
abbreviation (input) http_err_accept :: http_err_t where "http_err_accept \<equiv> 6"
abbreviation (input) http_err_sigaction :: http_err_t where "http_err_sigaction \<equiv> 7"
abbreviation (input) http_err_path :: http_err_t where "http_err_path \<equiv> 8"
abbreviation (input) http_err_malloc :: http_err_t where "http_err_malloc \<equiv> 9"
abbreviation (input) http_err_fread :: http_err_t where "http_err_fread \<equiv> 10"
abbreviation (input) http_err_read :: http_err_t where "http_err_read \<equiv> 11"
abbreviation (input) http_err_write :: http_err_t where "http_err_write \<equiv> 12"
abbreviation (input) http_err_config :: http_err_t where "http_err_config \<equiv> 13"
abbreviation (input) http_err_fcntl_f_getfl :: http_err_t where "http_err_fcntl_f_getfl \<equiv> 14"
abbreviation (input) http_err_fcntl_f_setfl :: http_err_t where "http_err_fcntl_f_setfl \<equiv> 15"
abbreviation (input) http_err_epoll_create :: http_err_t where "http_err_epoll_create \<equiv> 16"
abbreviation (input) http_err_epoll_ctl_add :: http_err_t where "http_err_epoll_ctl_add \<equiv> 17"
abbreviation (input) http_err_epoll_ctl_del :: http_err_t where "http_err_epoll_ctl_del \<equiv> 18"
abbreviation (input) http_err_epoll_wait :: http_err_t where "http_err_epoll_wait \<equiv> 19"
abbreviation (input) http_err_unset_fatal :: http_err_t where "http_err_unset_fatal \<equiv> 20"
abbreviation (input) http_err_unset_use_default :: http_err_t where "http_err_unset_use_default \<equiv> 21"
abbreviation (input) http_err_thd_pool_ini :: http_err_t where "http_err_thd_pool_ini \<equiv> 22"
abbreviation (input) http_err_thd_pool_destroy :: http_err_t where "http_err_thd_pool_destroy \<equiv> 23"
abbreviation (input) http_err_thd_pool_thd_fn :: http_err_t where "http_err_thd_pool_thd_fn \<equiv> 24"
abbreviation (input) http_err_thd_pool_add_job :: http_err_t where "http_err_thd_pool_add_job \<equiv> 25"
abbreviation (input) http_err_parse_cannot_find_split :: http_err_t where "http_err_parse_cannot_find_split \<equiv> 26"
abbreviation (input) http_err_parse_cannot_find_space :: http_err_t where "http_err_parse_cannot_find_space \<equiv> 27"
abbreviation (input) http_err_request_unkown_method :: http_err_t where "http_err_request_unkown_method \<equiv> 28"
abbreviation (input) http_err_request_version_invalid :: http_err_t where "http_err_request_version_invalid \<equiv> 29"
abbreviation (input) http_err_realloc :: http_err_t where "http_err_realloc \<equiv> 30"
abbreviation (input) http_err_client_close :: http_err_t where "http_err_client_close \<equiv> 31"
abbreviation (input) http_err_pthread_mutex_init :: http_err_t where "http_err_pthread_mutex_init \<equiv> 32"
abbreviation (input) http_err_pthread_mutex_destroy :: http_err_t where "http_err_pthread_mutex_destroy \<equiv> 33"
abbreviation (input) http_err_pthread_mutex_lock :: http_err_t where "http_err_pthread_mutex_lock \<equiv> 34"
abbreviation (input) http_err_pthread_mutex_unlock :: http_err_t where "http_err_pthread_mutex_unlock \<equiv> 35"
abbreviation (input) http_err_open :: http_err_t where "http_err_open \<equiv> 36"
abbreviation (input) http_err_fstat :: http_err_t where "http_err_fstat \<equiv> 37"
abbreviation (input) http_err_mmap :: http_err_t where "http_err_mmap \<equiv> 38"
abbreviation (input) http_err_munmap :: http_err_t where "http_err_munmap \<equiv> 39"
abbreviation (input) http_err_hash_uninitialized :: http_err_t where "http_err_hash_uninitialized \<equiv> 40"
abbreviation (input) http_err_getcwd :: http_err_t where "http_err_getcwd \<equiv> 41"
abbreviation (input) http_err_get_unkown_status :: http_err_t where "http_err_get_unkown_status \<equiv> 42"
abbreviation (input) http_err_get_unkown_version :: http_err_t where "http_err_get_unkown_version \<equiv> 43"
abbreviation (input) http_err_parse_cannot_find_clrf :: http_err_t where "http_err_parse_cannot_find_clrf \<equiv> 44"
abbreviation (input) http_err_request_fatal :: http_err_t where "http_err_request_fatal \<equiv> 45"
abbreviation (input) http_err_request_fixed_body_len :: http_err_t where "http_err_request_fixed_body_len \<equiv> 46"
abbreviation (input) http_err_request_chunked_body :: http_err_t where "http_err_request_chunked_body \<equiv> 47"
abbreviation (input) http_err_request_tcp_segment_in_body :: http_err_t where "http_err_request_tcp_segment_in_body \<equiv> 48"
abbreviation (input) http_err_param_invalid_nullptr :: http_err_t where "http_err_param_invalid_nullptr \<equiv> 49"
abbreviation (input) http_err_parse_unkown_transfer_encoding :: http_err_t where "http_err_parse_unkown_transfer_encoding \<equiv> 50"
abbreviation (input) http_err_parse_invalid_content_length :: http_err_t where "http_err_parse_invalid_content_length \<equiv> 51"
abbreviation (input) http_err_parse_unkown_content_type :: http_err_t where "http_err_parse_unkown_content_type \<equiv> 52"
abbreviation (input) http_err_parse_unkown_connection_type :: http_err_t where "http_err_parse_unkown_connection_type \<equiv> 53"
abbreviation (input) http_err_parse_value :: http_err_t where "http_err_parse_value \<equiv> 54"
abbreviation (input) http_err_request_keep_alive :: http_err_t where "http_err_request_keep_alive \<equiv> 55"
abbreviation (input) http_err_request_want_to_close :: http_err_t where "http_err_request_want_to_close \<equiv> 56"

section \<open>The messages\<close>

type_synonym http_message_t = nat

abbreviation (input) HTTP_SUCCESS :: http_message_t where "HTTP_SUCCESS \<equiv> 0"
abbreviation (input) HTTP_SOCKET_ERR :: http_message_t where "HTTP_SOCKET_ERR \<equiv> 1"
abbreviation (input) HTTP_SETSOCKETOPT_ERR :: http_message_t where "HTTP_SETSOCKETOPT_ERR \<equiv> 2"
abbreviation (input) HTTP_INET_PTON_ERR :: http_message_t where "HTTP_INET_PTON_ERR \<equiv> 3"
abbreviation (input) HTTP_BIND_ERR :: http_message_t where "HTTP_BIND_ERR \<equiv> 4"
abbreviation (input) HTTP_LISTEN_ERR :: http_message_t where "HTTP_LISTEN_ERR \<equiv> 5"
abbreviation (input) HTTP_ACCEPT_ERR :: http_message_t where "HTTP_ACCEPT_ERR \<equiv> 6"
abbreviation (input) HTTP_SIGACTION_ERR :: http_message_t where "HTTP_SIGACTION_ERR \<equiv> 7"
abbreviation (input) HTTP_PATH_ERR :: http_message_t where "HTTP_PATH_ERR \<equiv> 8"
abbreviation (input) HTTP_MALLOC_ERR :: http_message_t where "HTTP_MALLOC_ERR \<equiv> 9"
abbreviation (input) HTTP_REALLOC_ERR :: http_message_t where "HTTP_REALLOC_ERR \<equiv> 10"
abbreviation (input) HTTP_FREAD_ERR :: http_message_t where "HTTP_FREAD_ERR \<equiv> 11"
abbreviation (input) HTTP_READ_ERR :: http_message_t where "HTTP_READ_ERR \<equiv> 12"
abbreviation (input) HTTP_WRITE_ERR :: http_message_t where "HTTP_WRITE_ERR \<equiv> 13"
abbreviation (input) HTTP_CONFIG_ERR :: http_message_t where "HTTP_CONFIG_ERR \<equiv> 14"
abbreviation (input) HTTP_FCNTL_F_GETFL_ERR :: http_message_t where "HTTP_FCNTL_F_GETFL_ERR \<equiv> 15"
abbreviation (input) HTTP_FCNTL_F_SETFL_ERR :: http_message_t where "HTTP_FCNTL_F_SETFL_ERR \<equiv> 16"
abbreviation (input) HTTP_EPOLL_CREATE_ERR :: http_message_t where "HTTP_EPOLL_CREATE_ERR \<equiv> 17"
abbreviation (input) HTTP_EPOLL_CTL_ADD_ERR :: http_message_t where "HTTP_EPOLL_CTL_ADD_ERR \<equiv> 18"
abbreviation (input) HTTP_EPOLL_CTL_DEL_ERR :: http_message_t where "HTTP_EPOLL_CTL_DEL_ERR \<equiv> 19"
abbreviation (input) HTTP_EPOLL_WAIT_ERR :: http_message_t where "HTTP_EPOLL_WAIT_ERR \<equiv> 20"
abbreviation (input) HTTP_PTHREAD_MUTEX_INIT_ERR :: http_message_t where "HTTP_PTHREAD_MUTEX_INIT_ERR \<equiv> 21"
abbreviation (input) HTTP_PTHREAD_MUTEX_DESTROY_ERR :: http_message_t where "HTTP_PTHREAD_MUTEX_DESTROY_ERR \<equiv> 22"
abbreviation (input) HTTP_PTHREAD_MUTEX_LOCK :: http_message_t where "HTTP_PTHREAD_MUTEX_LOCK \<equiv> 23"
abbreviation (input) HTTP_PTHREAD_MUTEX_UNLOCK :: http_message_t where "HTTP_PTHREAD_MUTEX_UNLOCK \<equiv> 24"
abbreviation (input) HTTP_OPEN_ERR :: http_message_t where "HTTP_OPEN_ERR \<equiv> 25"
abbreviation (input) HTTP_FSTAT_ERR :: http_message_t where "HTTP_FSTAT_ERR \<equiv> 26"
abbreviation (input) HTTP_MMAP_ERR :: http_message_t where "HTTP_MMAP_ERR \<equiv> 27"
abbreviation (input) HTTP_MUNMAP_ERR :: http_message_t where "HTTP_MUNMAP_ERR \<equiv> 28"
abbreviation (input) HTTP_HASH_UNINITIALIZED_ERR :: http_message_t where "HTTP_HASH_UNINITIALIZED_ERR \<equiv> 29"
abbreviation (input) HTTP_GETCWD_ERR :: http_message_t where "HTTP_GETCWD_ERR \<equiv> 30"
abbreviation (input) HTTP_GET_UNKOWN_STATUS :: http_message_t where "HTTP_GET_UNKOWN_STATUS \<equiv> 31"
abbreviation (input) HTTP_GET_UNKOWN_VERSION :: http_message_t where "HTTP_GET_UNKOWN_VERSION \<equiv> 32"
abbreviation (input) HTTP_PARAM_INVALID_NULLPTR :: http_message_t where "HTTP_PARAM_INVALID_NULLPTR \<equiv> 33"
abbreviation (input) HTTP_UNSET_FATAL_ERR :: http_message_t where "HTTP_UNSET_FATAL_ERR \<equiv> 34"
abbreviation (input) HTTP_UNSET_USE_DEFAULT :: http_message_t where "HTTP_UNSET_USE_DEFAULT \<equiv> 35"
abbreviation (input) HTTP_UNSET_SERVER :: http_message_t where "HTTP_UNSET_SERVER \<equiv> 36"
abbreviation (input) HTTP_UNSET_CORE :: http_message_t where "HTTP_UNSET_CORE \<equiv> 37"
abbreviation (input) HTTP_UNSET_LOGGER :: http_message_t where "HTTP_UNSET_LOGGER \<equiv> 38"
abbreviation (input) HTTP_THD_POOL_INI_ERR :: http_message_t where "HTTP_THD_POOL_INI_ERR \<equiv> 39"
abbreviation (input) HTTP_THD_POOL_DESTROY_ERR :: http_message_t where "HTTP_THD_POOL_DESTROY_ERR \<equiv> 40"
abbreviation (input) HTTP_THD_POOL_THD_FN_ERR :: http_message_t where "HTTP_THD_POOL_THD_FN_ERR \<equiv> 41"
abbreviation (input) HTTP_THD_POOL_ADD_JOB_ERR :: http_message_t where "HTTP_THD_POOL_ADD_JOB_ERR \<equiv> 42"
abbreviation (input) HTTP_PARSE_CANNOT_FIND_SPLIT :: http_message_t where "HTTP_PARSE_CANNOT_FIND_SPLIT \<equiv> 43"
abbreviation (input) HTTP_PARSE_CANNOT_FIND_CLRF :: http_message_t where "HTTP_PARSE_CANNOT_FIND_CLRF \<equiv> 44"
abbreviation (input) HTTP_PARSE_CANNOT_FIND_SPACE :: http_message_t where "HTTP_PARSE_CANNOT_FIND_SPACE \<equiv> 45"
abbreviation (input) HTTP_REQUEST_UNKOWN_METHOD :: http_message_t where "HTTP_REQUEST_UNKOWN_METHOD \<equiv> 46"
abbreviation (input) HTTP_REQUEST_VERSION_INVALID :: http_message_t where "HTTP_REQUEST_VERSION_INVALID \<equiv> 47"
abbreviation (input) HTTP_REQUEST_UNKOWN_HEADER :: http_message_t where "HTTP_REQUEST_UNKOWN_HEADER \<equiv> 48"
abbreviation (input) HTTP_REQUEST_LINE_INVALID :: http_message_t where "HTTP_REQUEST_LINE_INVALID \<equiv> 49"
abbreviation (input) HTTP_REQUEST_FATAL_ERR :: http_message_t where "HTTP_REQUEST_FATAL_ERR \<equiv> 50"
abbreviation (input) HTTP_REQUEST_HEADER_FILL_UP :: http_message_t where "HTTP_REQUEST_HEADER_FILL_UP \<equiv> 51"
abbreviation (input) HTTP_REQUEST_FIXED_BODY_LEN :: http_message_t where "HTTP_REQUEST_FIXED_BODY_LEN \<equiv> 52"
abbreviation (input) HTTP_REQUEST_CHUNKED_BODY :: http_message_t where "HTTP_REQUEST_CHUNKED_BODY \<equiv> 53"
abbreviation (input) HTTP_REQUEST_TCP_SEGMENT_IN_BODY :: http_message_t where "HTTP_REQUEST_TCP_SEGMENT_IN_BODY \<equiv> 54"
abbreviation (input) HTTP_REQUEST_INVALID_BODY :: http_message_t where "HTTP_REQUEST_INVALID_BODY \<equiv> 55"
abbreviation (input) HTTP_PARSE_UNKOWN_TRANSFER_ENCODING :: http_message_t where "HTTP_PARSE_UNKOWN_TRANSFER_ENCODING \<equiv> 56"
abbreviation (input) HTTP_PARSE_INVALID_CONTENT_LENGTH :: http_message_t where "HTTP_PARSE_INVALID_CONTENT_LENGTH \<equiv> 57"
abbreviation (input) HTTP_PARSE_UNKOWN_CONTENT_TYPE :: http_message_t where "HTTP_PARSE_UNKOWN_CONTENT_TYPE \<equiv> 58"
abbreviation (input) HTTP_PARSE_UNKOWN_CONNECTION_TYPE :: http_message_t where "HTTP_PARSE_UNKOWN_CONNECTION_TYPE \<equiv> 59"
abbreviation (input) HTTP_PARSE_VALUE_ERR :: http_message_t where "HTTP_PARSE_VALUE_ERR \<equiv> 60"
abbreviation (input) HTTP_REQUEST_KEEP_ALIVE :: http_message_t where "HTTP_REQUEST_KEEP_ALIVE \<equiv> 61"
abbreviation (input) HTTP_REQUEST_WANT_TO_CLOSE :: http_message_t where "HTTP_REQUEST_WANT_TO_CLOSE \<equiv> 62"
abbreviation (input) HTTP_UNSET_PORT :: http_message_t where "HTTP_UNSET_PORT \<equiv> 63"
abbreviation (input) HTTP_UNSET_HOST :: http_message_t where "HTTP_UNSET_HOST \<equiv> 64"
abbreviation (input) HTTP_UNSET_BASE_DIR :: http_message_t where "HTTP_UNSET_BASE_DIR \<equiv> 65"
abbreviation (input) HTTP_UNSET_HANDLE_THREADS :: http_message_t where "HTTP_UNSET_HANDLE_THREADS \<equiv> 66"
abbreviation (input) HTTP_UNSET_LISTEN_QUE :: http_message_t where "HTTP_UNSET_LISTEN_QUE \<equiv> 67"
abbreviation (input) HTTP_UNSET_MAX_EVENT :: http_message_t where "HTTP_UNSET_MAX_EVENT \<equiv> 68"
abbreviation (input) HTTP_NEW_CLIENT_GREAT :: http_message_t where "HTTP_NEW_CLIENT_GREAT \<equiv> 69"
abbreviation (input) HTTP_RECV_FROM_CLIENT :: http_message_t where "HTTP_RECV_FROM_CLIENT \<equiv> 70"
abbreviation (input) HTTP_START_LISTEN :: http_message_t where "HTTP_START_LISTEN \<equiv> 71"
abbreviation (input) HTTP_SIGNAL_TERMINAL :: http_message_t where "HTTP_SIGNAL_TERMINAL \<equiv> 72"
abbreviation (input) HTTP_CLIENT_CLOSE :: http_message_t where "HTTP_CLIENT_CLOSE \<equiv> 73"
abbreviation (input) HTTP_REPORT_CLIENT_INFO :: http_message_t where "HTTP_REPORT_CLIENT_INFO \<equiv> 74"

datatype msg_level_t = L_info | L_error | L_warn | L_debug

text \<open>Level and text of the messages, in the order of the enumeration.\<close>

definition http_msg_table :: "(msg_level_t \<times> string) list" where
  "http_msg_table =
    [(L_info, ''Success''),
     (L_error, ''Failed to create socket''),
     (L_error, ''Failed to set socket options''),
     (L_error, ''Failed to convert address from text to binary form''),
     (L_error, ''Failed to bind socket to address''),
     (L_error, ''Failed to listen on socket''),
     (L_error, ''Failed to accept incoming connection''),
     (L_error, ''Failed to set signal handler''),
     (L_error, ''Invalid file or directory path''),
     (L_error, ''Memory allocation error''),
     (L_error, ''Memory reallocation error''),
     (L_error, ''File read error''),
     (L_error, ''Failed to read data from socket''),
     (L_error, ''Failed to write data to socket''),
     (L_error, ''Failed to set toml_configure''),
     (L_error, ''Failed to get file status flags in fcntl''),
     (L_error, ''Failed to set file status flags in fcntl''),
     (L_error, ''Failed to create epoll fd''),
     (L_error, ''Failed to add event in epoll ctl''),
     (L_error, ''Failed to delete event in epoll ctl''),
     (L_error, ''Epoll wait error''),
     (L_error, ''Pthread mutex init error''),
     (L_error, ''Phtread mutex destroy error''),
     (L_error, ''Pthread mutex lock err''),
     (L_error, ''Pthread mutex unlock err''),
     (L_error, ''Failed to open %s''),
     (L_error, ''Failed to get file %s status''),
     (L_error, ''Failed to map memory by %d fd''),
     (L_error, ''Failed to release mapped memory''),
     (L_error, ''Hash table uninitialized or released''),
     (L_error, ''Failed to call getcwd error''),
     (L_error, ''Get unkown http status''),
     (L_error, ''Get unkown http version''),
     (L_error, ''Function value receive invalid argument nullptr''),
     (L_error, ''Critical configuration missing, program cannot continue running''),
     (L_warn, ''Configuration missing, using default value''),
     (L_error, ''Failed read server configure''),
     (L_error, ''Failed to read core configure''),
     (L_warn, ''Failed read logger configure''),
     (L_error, ''Failed to initialize thread pool''),
     (L_error, ''Failed to destroy thread pool''),
     (L_error, ''Thread %d (base on thread pool) error''),
     (L_error, ''Failed to add job to thread pool''),
     (L_error, ''Failed to find '' @ CHR 0x5C # ''r'' @ CHR 0x5C # ''n in http post''),
     (L_info, ''Failed to find clrf in http post in %s stage''),
     (L_error, ''Failed to fild split %c''),
     (L_warn, ''Client request an unkown method''),
     (L_error, ''Client request http version is invalid''),
     (L_warn, ''Client request an unkown http header %s''),
     (L_error, ''Client request message invalid in request line''),
     (L_error, ''Client request occured a fatal error, terminate parsing''),
     (L_error, ''Client request headers fill up''),
     (L_info, ''Client request specify fixed body len %d''),
     (L_info, ''Client request specify chunked body''),
     (L_info, ''Client request http post segment in http body''),
     (L_error, ''Client request a invalid body post''),
     (L_error, ''Client request uses unknown Transfer-Encoding %s''),
     (L_error, ''Client request uses unkown content length''),
     (L_error, ''Client request uses unkown content type %s''),
     (L_error, ''Client request uses unkown connection type %s''),
     (L_error, ''Cannot parse value %s''),
     (L_info, ''Client request keep connection alive''),
     (L_info, ''Client request want to close connection''),
     (L_warn, ''Failed to read port configure''),
     (L_warn, ''Failed to read host configure''),
     (L_warn, ''Failed to read base dir configure''),
     (L_warn, ''Failed to read client handle threads configure''),
     (L_warn, ''Failed to read listen queue length configure''),
     (L_warn, ''Failed to read max event configure''),
     (L_info, ''New connection from ip:%s port:%d''),
     (L_info, ''Received from client: %s''),
     (L_info, ''Http server start listening on %s %d''),
     (L_info, ''Received signal %d, shutting down server''),
     (L_info, ''Close connection %s:%d''),
     (L_debug, ''Handle client: %s:%d'')]"

text \<open>The message of every error code behind \<^verbatim>\<open>http_success\<close>, in order.\<close>

definition http_ec_table :: "http_message_t list" where
  "http_ec_table =
    [HTTP_SOCKET_ERR,
     HTTP_SETSOCKETOPT_ERR,
     HTTP_INET_PTON_ERR,
     HTTP_BIND_ERR,
     HTTP_LISTEN_ERR,
     HTTP_ACCEPT_ERR,
     HTTP_SIGACTION_ERR,
     HTTP_PATH_ERR,
     HTTP_MALLOC_ERR,
     HTTP_FREAD_ERR,
     HTTP_READ_ERR,
     HTTP_WRITE_ERR,
     HTTP_CONFIG_ERR,
     HTTP_FCNTL_F_GETFL_ERR,
     HTTP_FCNTL_F_SETFL_ERR,
     HTTP_EPOLL_CREATE_ERR,
     HTTP_EPOLL_CTL_ADD_ERR,
     HTTP_EPOLL_CTL_DEL_ERR,
     HTTP_EPOLL_WAIT_ERR,
     HTTP_UNSET_FATAL_ERR,
     HTTP_UNSET_USE_DEFAULT,
     HTTP_THD_POOL_INI_ERR,
     HTTP_THD_POOL_DESTROY_ERR,
     HTTP_THD_POOL_THD_FN_ERR,
     HTTP_THD_POOL_ADD_JOB_ERR,
     HTTP_PARSE_CANNOT_FIND_SPLIT,
     HTTP_PARSE_CANNOT_FIND_SPACE,
     HTTP_REQUEST_UNKOWN_METHOD,
     HTTP_REQUEST_VERSION_INVALID,
     HTTP_REALLOC_ERR,
     HTTP_CLIENT_CLOSE,
     HTTP_PTHREAD_MUTEX_INIT_ERR,
     HTTP_PTHREAD_MUTEX_DESTROY_ERR,
     HTTP_PTHREAD_MUTEX_LOCK,
     HTTP_PTHREAD_MUTEX_UNLOCK,
     HTTP_OPEN_ERR,
     HTTP_FSTAT_ERR,
     HTTP_MMAP_ERR,
     HTTP_MUNMAP_ERR,
     HTTP_HASH_UNINITIALIZED_ERR,
     HTTP_GETCWD_ERR,
     HTTP_GET_UNKOWN_STATUS,
     HTTP_GET_UNKOWN_VERSION,
     HTTP_PARSE_CANNOT_FIND_CLRF,
     HTTP_REQUEST_FATAL_ERR,
     HTTP_REQUEST_FIXED_BODY_LEN,
     HTTP_REQUEST_CHUNKED_BODY,
     HTTP_REQUEST_TCP_SEGMENT_IN_BODY,
     HTTP_PARAM_INVALID_NULLPTR,
     HTTP_PARSE_UNKOWN_TRANSFER_ENCODING,
     HTTP_PARSE_INVALID_CONTENT_LENGTH,
     HTTP_PARSE_UNKOWN_CONTENT_TYPE,
     HTTP_PARSE_UNKOWN_CONNECTION_TYPE,
     HTTP_PARSE_VALUE_ERR,
     HTTP_REQUEST_KEEP_ALIVE,
     HTTP_REQUEST_WANT_TO_CLOSE]"

section \<open>The functions\<close>

text \<open>A \<^verbatim>\<open>switch\<close> over a table, with the assertion behind it.\<close>

definition table_case :: "'a list \<Rightarrow> nat \<Rightarrow> 'a res" where
  "table_case t n = (if n < length t then Inr (t ! n) else Inl Assert_failed)"

definition http_message_str :: "http_message_t \<Rightarrow> string res" where
  "http_message_str n = bnd (table_case http_msg_table n) (\<lambda>e. Inr (snd e))"

definition http_message_str_with_prefix :: "http_message_t \<Rightarrow> string res" where
  "http_message_str_with_prefix n = bnd (table_case http_msg_table n) (\<lambda>e. Inr (''%s '' @ snd e))"

definition http_message_level :: "(msg_level_t \<Rightarrow> 'l) \<Rightarrow> http_message_t \<Rightarrow> 'l res" where
  "http_message_level ctp n = bnd (table_case http_msg_table n) (\<lambda>e. Inr (ctp (fst e)))"

definition http_err_to_msg :: "http_err_t \<Rightarrow> http_message_t res" where
  "http_err_to_msg ec = (if ec = http_success then Inr 0 else table_case http_ec_table (ec - 1))"

definition http_err_str :: "http_err_t \<Rightarrow> string res" where
  "http_err_str ec =
     (if ec = http_success then Inr ''Success''
      else bnd (table_case http_ec_table (ec - 1)) http_message_str)"

text \<open>
  The arguments a format string of \<^verbatim>\<open>printf\<close> asks for: its conversion specifications,
  \<^verbatim>\<open>%%\<close> excepted.
\<close>

fun fmt_args :: "string \<Rightarrow> nat" where
  "fmt_args (a # b # s) =
     (if a = CHR ''%'' then (if b = CHR ''%'' then fmt_args s else Suc (fmt_args s))
      else fmt_args (b # s))"
| "fmt_args _ = 0"

section \<open>Properties\<close>

lemma length_tables [simp]: "length http_msg_table = 75" "length http_ec_table = 56"
  by (simp_all add: http_msg_table_def http_ec_table_def)

lemma ec_table_distinct: "distinct http_ec_table"
  by (simp add: http_ec_table_def)

lemma ec_table_range: "\<forall>n \<in> set http_ec_table. n < 75 \<and> n \<noteq> 0"
  by (simp add: http_ec_table_def)

lemma http_err_to_msg_total: "ec \<le> 56 \<Longrightarrow> \<exists>n < 75. http_err_to_msg ec = Inr n"
  using ec_table_range by (auto simp: http_err_to_msg_def table_case_def)

lemma http_err_to_msg_cases:
  assumes "http_err_to_msg ec = Inr n"
  obtains "ec = 0" "n = 0"
  | i where "ec = Suc i" "i < 56" "n = http_ec_table ! i" "n \<noteq> 0"
proof (cases ec)
  case 0
  with assms that(1) show ?thesis by (simp add: http_err_to_msg_def)
next
  case (Suc i)
  with assms have i: "i < 56" "n = http_ec_table ! i"
    by (auto simp: http_err_to_msg_def table_case_def split: if_splits)
  moreover have "n \<noteq> 0" using i ec_table_range by simp
  ultimately show ?thesis using Suc that(2) by simp
qed

lemma http_err_to_msg_inj:
  assumes "http_err_to_msg a = Inr n" and "http_err_to_msg b = Inr n"
  shows "a = b"
  using assms
  by (elim http_err_to_msg_cases) (auto simp: nth_eq_iff_index_eq [OF ec_table_distinct])

text \<open>
  \<^verbatim>\<open>pos_next_token\<close> logs this message without an argument for its conversion.
\<close>

lemma cannot_find_space_wants_arg:
  "\<exists>s. http_message_str HTTP_PARSE_CANNOT_FIND_SPACE = Inr s \<and> fmt_args s = 1"
  by (simp add: http_message_str_def table_case_def http_msg_table_def)

end
