(* ===== verification/Os.thy ===== *)
theory Os
  imports ErrorCode Memory
begin

text \<open>
  The operating system and the libraries that are not part of the sources (the thread pool and
  logger \<^verbatim>\<open>ctp\<close>, the configuration reader \<^verbatim>\<open>toml\<close>), as the server sees them:
  calls that are made, and answers that come back. The answers are a parameter - a function
  from the number of the call to its answer - so that a statement about all of them covers
  every behaviour of the environment. The calls made so far are recorded, log messages among
  them.
\<close>

type_synonym fd_t = int

datatype os_event =
    Log http_message_t
  | Fopen string | Toml_parse | Fclose | Getcwd
  | Logger_init "bool option" "ptr option" | Logger_close | Toml_free
  | Thdpool_create int | Thdpool_destroy | Thdpool_add_job
  | Sigaction int
  | Socket | Setsockopt fd_t | Inet_pton ptr | Bind fd_t int | Listen fd_t int
  | Fcntl_getfl fd_t | Fcntl_setfl fd_t int | Accept fd_t | Close fd_t
  | Epoll_create | Epoll_add fd_t fd_t nat | Epoll_del fd_t fd_t | Epoll_wait fd_t int
  | Read fd_t nat | Write fd_t "char list"
  | Mutex_init | Mutex_destroy | Mutex_lock | Mutex_unlock
  | Open "char list" | Fstat fd_t | Mmap fd_t nat | Munmap ptr nat
  | Exit int

text \<open>
  An answer: the value the call returns, the error number, bytes and numbers it fills in, and
  references to data of the server that it hands back.
\<close>

record os_reply =
  r_val :: int
  r_errno :: nat
  r_data :: "char list"
  r_nums :: "int list"
  r_refs :: "nat list"

record os =
  os_replies :: "nat \<Rightarrow> os_reply"
  os_trace :: "os_event list"

definition os_call :: "os_event \<Rightarrow> os \<Rightarrow> os_reply \<times> os" where
  "os_call e w = (os_replies w (length (os_trace w)), w\<lparr>os_trace := os_trace w @ [e]\<rparr>)"

text \<open>The answer to the \<open>k\<close>-th call from now.\<close>

definition reply :: "os \<Rightarrow> nat \<Rightarrow> os_reply" where
  "reply w k = os_replies w (length (os_trace w) + k)"

text \<open>A call whose answer the source ignores; logging is one.\<close>

definition os_do :: "os_event \<Rightarrow> os \<Rightarrow> os" where
  "os_do e w = snd (os_call e w)"

definition log_http_message :: "http_message_t \<Rightarrow> os \<Rightarrow> os" where
  "log_http_message msg w = os_do (Log msg) w"

lemma os_call_simps [simp]:
  "os_call e w = (os_replies w (length (os_trace w)), w\<lparr>os_trace := os_trace w @ [e]\<rparr>)"
  "os_do e w = w\<lparr>os_trace := os_trace w @ [e]\<rparr>"
  "log_http_message msg w = w\<lparr>os_trace := os_trace w @ [Log msg]\<rparr>"
  by (simp_all add: os_call_def os_do_def log_http_message_def)

lemma reply_fold:
  "os_replies w (length (os_trace w)) = reply w 0"
  "os_replies w (Suc (length (os_trace w))) = reply w 1"
  "os_replies w (Suc (Suc (length (os_trace w)))) = reply w 2"
  "os_replies w (Suc (Suc (Suc (length (os_trace w))))) = reply w 3"
  "os_replies w (Suc (Suc (Suc (Suc (length (os_trace w)))))) = reply w 4"
  "os_replies w (Suc (Suc (Suc (Suc (Suc (length (os_trace w))))))) = reply w 5"
  "os_replies w (Suc (Suc (Suc (Suc (Suc (Suc (length (os_trace w)))))))) = reply w 6"
  "os_replies w (Suc (Suc (Suc (Suc (Suc (Suc (Suc (length (os_trace w))))))))) = reply w 7"
  "os_replies w (Suc (Suc (Suc (Suc (Suc (Suc (Suc (Suc (length (os_trace w)))))))))) = reply w 8"
  "os_replies w (Suc (Suc (Suc (Suc (Suc (Suc (Suc (Suc (Suc (length (os_trace w))))))))))) = reply w 9"
  by (simp_all add: reply_def eval_nat_numeral)

lemma reply_trace: "reply (w\<lparr>os_trace := os_trace w @ es\<rparr>) k = reply w (k + length es)"
  by (simp add: reply_def add.commute add.left_commute)

lemma reply_num_simps:
  "reply w (Suc (Suc 0)) = reply w 2"
  "reply w (Suc (Suc (Suc 0))) = reply w 3"
  "reply w (Suc (Suc (Suc (Suc 0)))) = reply w 4"
  "reply w (Suc (Suc (Suc (Suc (Suc 0))))) = reply w 5"
  "reply w (Suc (Suc (Suc (Suc (Suc (Suc 0)))))) = reply w 6"
  "reply w (Suc (Suc (Suc (Suc (Suc (Suc (Suc 0))))))) = reply w 7"
  "reply w (Suc (Suc (Suc (Suc (Suc (Suc (Suc (Suc 0)))))))) = reply w 8"
  "reply w (Suc (Suc (Suc (Suc (Suc (Suc (Suc (Suc (Suc 0))))))))) = reply w 9"
  "reply w (Suc (Suc (Suc (Suc (Suc (Suc (Suc (Suc (Suc (Suc 0)))))))))) = reply w 10"
  "reply w (Suc (Suc (Suc (Suc (Suc (Suc (Suc (Suc (Suc (Suc (Suc 0))))))))))) = reply w 11"
  by (simp_all add: reply_def eval_nat_numeral)

lemmas reply_simps = reply_fold reply_trace reply_num_simps

text \<open>Error numbers and flags of the target.\<close>

definition EINTR :: nat where "EINTR = 4"
definition EAGAIN :: nat where "EAGAIN = 11"
definition O_NONBLOCK :: int where "O_NONBLOCK = 2048"

text \<open>A call installs a handler for a signal (\<^verbatim>\<open>util/base.c\<close>).\<close>

definition http_signal :: "int \<Rightarrow> os \<Rightarrow> http_err_t \<times> os" where
  "http_signal signo w =
     (case os_call (Sigaction signo) w of (r, w) \<Rightarrow>
        if r_val r < 0 then (http_err_sigaction, log_http_message HTTP_SIGACTION_ERR w)
        else (http_success, w))"

text \<open>\<^verbatim>\<open>print_err_exit\<close> (\<^verbatim>\<open>util/error_code.c\<close>): the line it prints, and the end of the process.\<close>

definition print_err_exit :: "http_err_t \<Rightarrow> string \<Rightarrow> os \<Rightarrow> (string \<times> os) res" where
  "print_err_exit ec msg w =
     bnd (http_err_str ec) (\<lambda>t. Inr (t @ '' '' @ msg @ [LF], os_do (Exit 1) w))"

text \<open>A signed 64 bit number stored in an \<^verbatim>\<open>int\<close>.\<close>

definition int64_to_int :: "int \<Rightarrow> int" where
  "int64_to_int i = (i + 2147483648) mod 4294967296 - 2147483648"

lemma int64_to_int_id: "- 2147483648 \<le> i \<Longrightarrow> i < 2147483648 \<Longrightarrow> int64_to_int i = i"
  by (simp add: int64_to_int_def)

text \<open>\<^verbatim>\<open>htons\<close> on the little-endian target: the two low bytes change places.\<close>

definition htons :: "int \<Rightarrow> int" where
  "htons p = (let q = p mod 65536 in (q mod 256) * 256 + q div 256)"

lemma htons_htons: "0 \<le> p \<Longrightarrow> p < 65536 \<Longrightarrow> htons (htons p) = p"
proof -
  assume p: "0 \<le> p" "p < 65536"
  let ?h = "p div 256" and ?l = "p mod 256"
  have h: "0 \<le> ?h" "?h < 256" "0 \<le> ?l" "?l < 256" using p by auto
  then have "(?l * 256 + ?h) mod 65536 = ?l * 256 + ?h" by (intro mod_pos_pos_trivial) auto
  moreover have "(?l * 256 + ?h) mod 256 = ?h" "(?l * 256 + ?h) div 256 = ?l" using h by simp_all
  ultimately show ?thesis using p by (simp add: htons_def Let_def)
qed

end
