(* ===== verification/Khash.thy ===== *)
theory Khash
  imports CcVec "HOL-Library.Word"
begin

unbundle bit_operations_syntax

text \<open>
  The hash table of \<^verbatim>\<open>klib/khash.h\<close> that the resource cache is built on: open addressing
  over a power of two of buckets, quadratic probing, two flag bits per bucket, and a resize
  that rehashes in place. The hash function and the comparison of keys are parameters, as they
  are arguments of \<^verbatim>\<open>KHASH_INIT\<close>; both may fault, because the cache's keys are views.

  The two flag bits of a bucket are a pair (empty, deleted). Keys and values that were never
  written are indeterminate (\<open>None\<close>), and a key is never read from there. Sizes are numbers
  below 2 to the 32; the sums of a probe are reduced by the mask at once, so that their
  wrap-around at 32 bits makes no difference.
\<close>

section \<open>The table\<close>

type_synonym khint = nat

type_synonym kflag = "bool \<times> bool"

record ('k, 'v) khash =
  n_buckets :: khint
  kh_size :: khint
  n_occupied :: khint
  upper_bound :: khint
  kh_flags :: "kflag list"
  kh_keys :: "'k option list"
  kh_vals :: "'v option list"

text \<open>The macros that test and set the flag bits.\<close>

definition ac_isempty :: "kflag \<Rightarrow> bool" where "ac_isempty f = fst f"
definition ac_isdel :: "kflag \<Rightarrow> bool" where "ac_isdel f = snd f"
definition ac_iseither :: "kflag \<Rightarrow> bool" where "ac_iseither f = (fst f \<or> snd f)"
definition ac_set_isdel_true :: "kflag \<Rightarrow> kflag" where "ac_set_isdel_true f = (fst f, True)"
definition ac_set_isempty_false :: "kflag \<Rightarrow> kflag" where "ac_set_isempty_false f = (False, snd f)"
definition ac_set_isboth_false :: "kflag \<Rightarrow> kflag" where "ac_set_isboth_false f = (False, False)"

lemmas ac_defs = ac_isempty_def ac_isdel_def ac_iseither_def ac_set_isdel_true_def
  ac_set_isempty_false_def ac_set_isboth_false_def

text \<open>Reading and writing an array.\<close>

definition at :: "'a list \<Rightarrow> nat \<Rightarrow> 'a res" where
  "at xs i = (if i < length xs then Inr (xs ! i) else Inl Out_of_bounds)"

definition put_at :: "'a list \<Rightarrow> nat \<Rightarrow> 'a \<Rightarrow> 'a list res" where
  "put_at xs i x = (if i < length xs then Inr (xs[i := x]) else Inl Out_of_bounds)"

definition key_at :: "'k option list \<Rightarrow> nat \<Rightarrow> 'k res" where
  "key_at ks i = bnd (at ks i) (\<lambda>k. case k of None \<Rightarrow> Inl Indeterminate | Some k \<Rightarrow> Inr k)"

lemma at_simps [simp]:
  "i < length xs \<Longrightarrow> at xs i = Inr (xs ! i)"
  "i < length xs \<Longrightarrow> put_at xs i x = Inr (xs[i := x])"
  "i < length ks \<Longrightarrow> ks ! i = Some k \<Longrightarrow> key_at ks i = Inr k"
  by (simp_all add: at_def put_at_def key_at_def)

text \<open>\<^verbatim>\<open>kroundup32\<close>, and the load limit \<^verbatim>\<open>(khint_t)(n * 0.77 + 0.5)\<close>.\<close>

definition kroundup32 :: "32 word \<Rightarrow> 32 word" where
  "kroundup32 x =
     (let x = x - 1; x = x OR drop_bit 1 x; x = x OR drop_bit 2 x; x = x OR drop_bit 4 x;
          x = x OR drop_bit 8 x; x = x OR drop_bit 16 x in x + 1)"

definition upper_of :: "khint \<Rightarrow> khint" where
  "upper_of n = (n * 77 + 50) div 100"

section \<open>Creation, release and removal\<close>

definition kh_zero :: "('k, 'v) khash" where
  "kh_zero = \<lparr>n_buckets = 0, kh_size = 0, n_occupied = 0, upper_bound = 0,
              kh_flags = [], kh_keys = [], kh_vals = []\<rparr>"

definition kh_init :: "mem \<Rightarrow> ('k, 'v) khash option \<times> mem" where
  "kh_init m = (case alloc_request m of (ok, m) \<Rightarrow> (if ok then Some kh_zero else None, m))"

definition kh_destroy :: "('k, 'v) khash option \<Rightarrow> ('k, 'v) khash option" where
  "kh_destroy h = None"

definition kh_clear :: "('k, 'v) khash option \<Rightarrow> ('k, 'v) khash option" where
  "kh_clear h =
     (case h of
        None \<Rightarrow> None
      | Some h \<Rightarrow>
          if kh_flags h = [] then Some h
          else Some (h\<lparr>kh_flags := replicate (n_buckets h) (True, False), kh_size := 0, n_occupied := 0\<rparr>))"

definition kh_del :: "('k, 'v) khash \<Rightarrow> khint \<Rightarrow> ('k, 'v) khash res" where
  "kh_del h x =
     (if x = n_buckets h then Inr h
      else bnd (at (kh_flags h) x) (\<lambda>f.
        if ac_iseither f then Inr h
        else Inr (h\<lparr>kh_flags := (kh_flags h)[x := ac_set_isdel_true f], kh_size := kh_size h - 1\<rparr>)))"

text \<open>The accessors of the interface.\<close>

definition kh_end :: "('k, 'v) khash \<Rightarrow> khint" where
  "kh_end h = n_buckets h"

definition kh_exist :: "('k, 'v) khash \<Rightarrow> khint \<Rightarrow> bool res" where
  "kh_exist h x = bnd (at (kh_flags h) x) (\<lambda>f. Inr (\<not> ac_iseither f))"

definition kh_value :: "('k, 'v) khash \<Rightarrow> khint \<Rightarrow> 'v res" where
  "kh_value h x =
     bnd (at (kh_vals h) x) (\<lambda>v. case v of None \<Rightarrow> Inl Indeterminate | Some v \<Rightarrow> Inr v)"

definition kh_set_value :: "('k, 'v) khash \<Rightarrow> khint \<Rightarrow> 'v \<Rightarrow> ('k, 'v) khash res" where
  "kh_set_value h x v = bnd (put_at (kh_vals h) x (Some v)) (\<lambda>vs. Inr (h\<lparr>kh_vals := vs\<rparr>))"

section \<open>Looking a key up\<close>

text \<open>
  The probe: from bucket \<open>i\<close>, \<open>step\<close> steps have been made. It ends at an empty
  bucket, at the key, or back at the bucket it started from.
\<close>

fun get_loop ::
  "nat \<Rightarrow> ('k \<Rightarrow> 'k \<Rightarrow> bool res) \<Rightarrow> ('k, 'v) khash \<Rightarrow> 'k \<Rightarrow> nat \<Rightarrow> nat \<Rightarrow> nat \<Rightarrow> khint res" where
  "get_loop 0 eqf h key start step i = Inl No_fuel"
| "get_loop (Suc fuel) eqf h key start step i =
     bnd (at (kh_flags h) i) (\<lambda>f.
     if ac_isempty f then Inr (n_buckets h)
     else bnd (if ac_isdel f then Inr False else bnd (key_at (kh_keys h) i) (\<lambda>k. eqf k key)) (\<lambda>same.
       if same then Inr i
       else let step = step + 1; i = (i + step) AND (n_buckets h - 1) in
         if i = start then Inr (n_buckets h) else get_loop fuel eqf h key start step i))"

definition kh_get ::
  "('k \<Rightarrow> khint res) \<Rightarrow> ('k \<Rightarrow> 'k \<Rightarrow> bool res) \<Rightarrow> ('k, 'v) khash \<Rightarrow> 'k \<Rightarrow> khint res" where
  "kh_get hashf eqf h key =
     (if n_buckets h \<noteq> 0
      then bnd (hashf key) (\<lambda>k.
           let i = k AND (n_buckets h - 1) in get_loop (2 * n_buckets h) eqf h key i 0 i)
      else Inr 0)"

section \<open>Resizing\<close>

fun find_empty :: "nat \<Rightarrow> kflag list \<Rightarrow> nat \<Rightarrow> nat \<Rightarrow> nat \<Rightarrow> nat res" where
  "find_empty 0 new_flags new_mask step i = Inl No_fuel"
| "find_empty (Suc fuel) new_flags new_mask step i =
     bnd (at new_flags i) (\<lambda>f.
     if ac_isempty f then Inr i
     else find_empty fuel new_flags new_mask (step + 1) ((i + (step + 1)) AND new_mask))"

text \<open>The arrays a rehash works on: old flags, keys, values, new flags.\<close>

type_synonym ('k, 'v) arrays = "kflag list \<times> 'k option list \<times> 'v option list \<times> kflag list"

text \<open>Place one element; an old element in its new bucket is kicked out and placed next.\<close>

fun kick ::
  "nat \<Rightarrow> ('k \<Rightarrow> khint res) \<Rightarrow> nat \<Rightarrow> 'k \<Rightarrow> 'v option \<Rightarrow> ('k, 'v) arrays \<Rightarrow> ('k, 'v) arrays res" where
  "kick 0 hashf new_n key val a = Inl No_fuel"
| "kick (Suc fuel) hashf new_n key val (flags, ks, vs, new_flags) =
     bnd (hashf key) (\<lambda>k.
     bnd (find_empty new_n new_flags (new_n - 1) 0 (k AND (new_n - 1))) (\<lambda>i.
     let new_flags = new_flags[i := ac_set_isempty_false (new_flags ! i)] in
     if i < length flags \<and> \<not> ac_iseither (flags ! i)
     then bnd (key_at ks i) (\<lambda>tmp_key.
          bnd (at vs i) (\<lambda>tmp_val.
          kick fuel hashf new_n tmp_key tmp_val
            (flags[i := ac_set_isdel_true (flags ! i)], ks[i := Some key], vs[i := val], new_flags)))
     else bnd (put_at ks i (Some key)) (\<lambda>ks.
          bnd (put_at vs i val) (\<lambda>vs.
          Inr (flags, ks, vs, new_flags)))))"

fun rehash_loop ::
  "('k \<Rightarrow> khint res) \<Rightarrow> nat \<Rightarrow> nat list \<Rightarrow> ('k, 'v) arrays \<Rightarrow> ('k, 'v) arrays res" where
  "rehash_loop hashf new_n [] a = Inr a"
| "rehash_loop hashf new_n (j # js) (flags, ks, vs, new_flags) =
     bnd (at flags j) (\<lambda>f.
     if ac_iseither f then rehash_loop hashf new_n js (flags, ks, vs, new_flags)
     else bnd (key_at ks j) (\<lambda>key.
          bnd (at vs j) (\<lambda>val.
          bnd (kick (Suc (length flags)) hashf new_n key val
                 (flags[j := ac_set_isdel_true f], ks, vs, new_flags)) (\<lambda>a.
          rehash_loop hashf new_n js a))))"

definition grow :: "nat \<Rightarrow> 'a option list \<Rightarrow> 'a option list" where
  "grow n xs = take n xs @ replicate (n - length xs) None"

text \<open>
  The part that makes room: new flags, and longer arrays when the table expands. A request that
  is refused leaves the table usable; arrays that were enlarged before it stay enlarged.
\<close>

definition kh_room ::
  "('k, 'v) khash \<Rightarrow> nat \<Rightarrow> mem \<Rightarrow> bool \<times> ('k, 'v) khash \<times> mem" where
  "kh_room h new_n m =
     (case alloc_request m of (ok, m) \<Rightarrow>
        if \<not> ok then (False, h, m)
        else if n_buckets h < new_n
        then (case alloc_request m of (ok, m) \<Rightarrow>
                if \<not> ok then (False, h, m)
                else let h = h\<lparr>kh_keys := grow new_n (kh_keys h)\<rparr> in
                  (case alloc_request m of (ok, m) \<Rightarrow>
                     if \<not> ok then (False, h, m)
                     else (True, h\<lparr>kh_vals := grow new_n (kh_vals h)\<rparr>, m)))
        else (True, h, m))"

text \<open>
  The requests that shrink the arrays are not checked by the source: a refused one leaves a
  null pointer, an array without elements.
\<close>

definition shrink_array :: "nat \<Rightarrow> 'a option list \<Rightarrow> mem \<Rightarrow> 'a option list \<times> mem" where
  "shrink_array n xs m = (case alloc_request m of (ok, m) \<Rightarrow> (if ok then grow n xs else [], m))"

definition kh_resize ::
  "('k \<Rightarrow> khint res) \<Rightarrow> ('k, 'v) khash \<Rightarrow> khint \<Rightarrow> mem \<Rightarrow> (int \<times> ('k, 'v) khash \<times> mem) res" where
  "kh_resize hashf h new_n_buckets m =
     (let r = unat (kroundup32 (word_of_nat new_n_buckets)); new_n = (if r < 4 then 4 else r) in
      if kh_size h \<ge> upper_of new_n then Inr (0, h, m)
      else case kh_room h new_n m of (ok, h, m) \<Rightarrow>
        if \<not> ok then Inr (- 1, h, m)
        else bnd (rehash_loop hashf new_n [0..<n_buckets h]
               (kh_flags h, kh_keys h, kh_vals h, replicate new_n (True, False))) (\<lambda>(flags, ks, vs, new_flags).
          case (if n_buckets h > new_n
                then case shrink_array new_n ks m of (ks, m) \<Rightarrow>
                     case shrink_array new_n vs m of (vs, m) \<Rightarrow> (ks, vs, m)
                else (ks, vs, m)) of
            (ks, vs, m) \<Rightarrow>
              Inr (0, h\<lparr>kh_keys := ks, kh_vals := vs, kh_flags := new_flags, n_buckets := new_n,
                        n_occupied := kh_size h, upper_bound := upper_of new_n\<rparr>, m)))"

section \<open>Inserting a key\<close>

text \<open>
  The probe of an insertion remembers the last deleted bucket it has passed; the result is the
  bucket to use.
\<close>

fun put_loop ::
  "nat \<Rightarrow> ('k \<Rightarrow> 'k \<Rightarrow> bool res) \<Rightarrow> ('k, 'v) khash \<Rightarrow> 'k \<Rightarrow> nat \<Rightarrow> nat \<Rightarrow> nat \<Rightarrow> nat \<Rightarrow> khint res" where
  "put_loop 0 eqf h key start step site i = Inl No_fuel"
| "put_loop (Suc fuel) eqf h key start step site i =
     bnd (at (kh_flags h) i) (\<lambda>f.
     if ac_isempty f then Inr (if site \<noteq> n_buckets h then site else i)
     else bnd (if ac_isdel f then Inr False else bnd (key_at (kh_keys h) i) (\<lambda>k. eqf k key)) (\<lambda>same.
       if same then Inr i
       else let site = (if ac_isdel f then i else site);
                step = step + 1; i = (i + step) AND (n_buckets h - 1) in
         if i = start then Inr (if site = n_buckets h then i else site)
         else put_loop fuel eqf h key start step site i))"

definition put_bucket ::
  "('k \<Rightarrow> khint res) \<Rightarrow> ('k \<Rightarrow> 'k \<Rightarrow> bool res) \<Rightarrow> ('k, 'v) khash \<Rightarrow> 'k \<Rightarrow> khint res" where
  "put_bucket hashf eqf h key =
     bnd (hashf key) (\<lambda>k.
     let i = k AND (n_buckets h - 1) in
     bnd (at (kh_flags h) i) (\<lambda>f.
     if ac_isempty f then Inr i
     else put_loop (2 * n_buckets h) eqf h key i 0 (n_buckets h) i))"

definition put_key :: "('k, 'v) khash \<Rightarrow> 'k \<Rightarrow> khint \<Rightarrow> (int \<times> ('k, 'v) khash) res" where
  "put_key h key x =
     bnd (at (kh_flags h) x) (\<lambda>f.
     if ac_isempty f
     then bnd (put_at (kh_keys h) x (Some key)) (\<lambda>ks.
          Inr (1, h\<lparr>kh_keys := ks, kh_flags := (kh_flags h)[x := ac_set_isboth_false f],
                    kh_size := kh_size h + 1, n_occupied := n_occupied h + 1\<rparr>))
     else if ac_isdel f
     then bnd (put_at (kh_keys h) x (Some key)) (\<lambda>ks.
          Inr (2, h\<lparr>kh_keys := ks, kh_flags := (kh_flags h)[x := ac_set_isboth_false f],
                    kh_size := kh_size h + 1\<rparr>))
     else Inr (0, h))"

text \<open>The bucket, what was done (\<^verbatim>\<open>*ret\<close>), and the table.\<close>

definition kh_put ::
  "('k \<Rightarrow> khint res) \<Rightarrow> ('k \<Rightarrow> 'k \<Rightarrow> bool res) \<Rightarrow> ('k, 'v) khash \<Rightarrow> 'k \<Rightarrow> mem \<Rightarrow>
     (khint \<times> int \<times> ('k, 'v) khash \<times> mem) res" where
  "kh_put hashf eqf h key m =
     bnd (if n_occupied h \<ge> upper_bound h
          then kh_resize hashf h (if n_buckets h > 2 * kh_size h then n_buckets h - 1 else n_buckets h + 1) m
          else Inr (0, h, m)) (\<lambda>(r, h, m).
     if r < 0 then Inr (n_buckets h, - 1, h, m)
     else bnd (put_bucket hashf eqf h key) (\<lambda>x.
          bnd (put_key h key x) (\<lambda>(ret, h). Inr (x, ret, h, m))))"

end
