(* ===== verification/ResourceCache.thy ===== *)
theory ResourceCache
  imports Os StringProps Khash
begin

text \<open>
  \<^verbatim>\<open>http/resource_getter.c\<close>: the files that are served, mapped into memory and kept in a
  hash table under the path they were asked for. The table's keys are views of the paths: the
  table does not own their bytes. What \<^verbatim>\<open>open\<close>, \<^verbatim>\<open>fstat\<close> and
  \<^verbatim>\<open>mmap\<close> answer is up to the environment; a mapping is a block of the memory, and
  \<^verbatim>\<open>MAP_FAILED\<close> is a pointer to no object.
\<close>

section \<open>State\<close>

record mapped_memory_t =
  mm_len :: size_t
  mm_data :: ptr

type_synonym path2resmem = "(string_view_t, mapped_memory_t) khash"

definition zero_mapped :: mapped_memory_t where
  "zero_mapped = \<lparr>mm_len = 0, mm_data = NULL\<rparr>"

text \<open>
  The functions the table is instantiated with. The hash of \<^verbatim>\<open>size_t\<close> is cut to the 32
  bits of a \<^verbatim>\<open>khint_t\<close>.
\<close>

definition path_hash :: "mem \<Rightarrow> string_view_t \<Rightarrow> khint res" where
  "path_hash m sv = bnd (string_view_hash m sv) (\<lambda>h. Inr (unat (ucast h :: 32 word)))"

definition path_equal :: "mem \<Rightarrow> string_view_t \<Rightarrow> string_view_t \<Rightarrow> bool res" where
  "path_equal m = string_view_equal m"

section \<open>Files\<close>

text \<open>The bytes of a C string.\<close>

definition cstr_at :: "mem \<Rightarrow> ptr \<Rightarrow> char list res" where
  "cstr_at m p = bnd (c_strlen m p) (\<lambda>n. load_bytes m p n)"

definition reply_num :: "os_reply \<Rightarrow> nat \<Rightarrow> int" where
  "reply_num r i = (if i < length (r_nums r) then r_nums r ! i else 0)"

text \<open>A new mapping of \<open>len\<close> bytes; behind the end of the file there are zeros.\<close>

definition map_block :: "nat \<Rightarrow> char list \<Rightarrow> mem \<Rightarrow> ptr \<times> mem" where
  "map_block len cs m =
     (Ptr (Heap (brk m)) 0,
      m\<lparr>blocks := (blocks m)(Heap (brk m) := Some (take len cs @ replicate (len - length cs) NUL)),
        brk := Suc (brk m)\<rparr>)"

definition MAP_FAILED :: "mem \<Rightarrow> ptr \<times> mem" where
  "MAP_FAILED m = (Ptr (Heap (brk m)) 0, m\<lparr>brk := Suc (brk m)\<rparr>)"

text \<open>The size that \<^verbatim>\<open>fstat\<close> reports.\<close>

definition stat_size :: "os_reply \<Rightarrow> size_t" where
  "stat_size r = nat (reply_num r 0) mod SIZE_MOD"

text \<open>The path is copied into a variable-length array, which ends with the call.\<close>

definition open_resource ::
  "string_view_t \<Rightarrow> mapped_memory_t \<Rightarrow> mem \<Rightarrow> os \<Rightarrow> (http_err_t \<times> mapped_memory_t \<times> mem \<times> os) res" where
  "open_resource path rm m w =
     (case new_buf (string_view_len path + 1) m of (b, m) \<Rightarrow>
      let path_buf = Ptr (Buf b) 0 in
      bnd (string_view_to_buf path path_buf (string_view_len path + 1) m) (\<lambda>(_, m).
      bnd (cstr_at m path_buf) (\<lambda>name.
      case os_call (Open name) w of (r, w) \<Rightarrow>
      if r_val r < 0 then Inr (http_err_open, rm, drop_buf b m, log_http_message HTTP_OPEN_ERR w)
      else
        let res_fd = r_val r in
        case os_call (Fstat res_fd) w of (r, w) \<Rightarrow>
        if r_val r < 0 then Inr (http_err_fstat, rm, drop_buf b m, log_http_message HTTP_FSTAT_ERR w)
        else
          let len = stat_size r in
          case os_call (Mmap res_fd len) w of (r, w) \<Rightarrow>
          if r_val r < 0
          then (case MAP_FAILED m of (p, m) \<Rightarrow>
                Inr (http_err_mmap, \<lparr>mm_len = len, mm_data = p\<rparr>, drop_buf b m,
                     log_http_message HTTP_MMAP_ERR w))
          else (case map_block len (r_data r) m of (p, m) \<Rightarrow>
                Inr (http_success, \<lparr>mm_len = len, mm_data = p\<rparr>, drop_buf b m,
                     os_do (Close res_fd) w)))))"

definition unmap :: "ptr \<Rightarrow> mem \<Rightarrow> mem" where
  "unmap p m = (case p of NULL \<Rightarrow> m | Ptr b _ \<Rightarrow> m\<lparr>blocks := (blocks m)(b := None)\<rparr>)"

definition close_resource :: "mapped_memory_t \<Rightarrow> mem \<Rightarrow> os \<Rightarrow> http_err_t \<times> mem \<times> os" where
  "close_resource rm m w =
     (case os_call (Munmap (mm_data rm) (mm_len rm)) w of (r, w) \<Rightarrow>
        if r_val r < 0 then (http_success, m, log_http_message HTTP_MUNMAP_ERR w)
        else (http_success, unmap (mm_data rm) m, w))"

section \<open>The table of resources\<close>

definition resource_getter_initial :: "mem \<Rightarrow> os \<Rightarrow> http_err_t \<times> path2resmem option \<times> mem \<times> os" where
  "resource_getter_initial m w =
     (case kh_init m of (table, m) \<Rightarrow>
        if table = None then (http_err_malloc, table, m, log_http_message HTTP_MALLOC_ERR w)
        else case os_call Mutex_init w of (r, w) \<Rightarrow>
          if r_val r \<noteq> 0
          then (http_err_pthread_mutex_init, table, m, log_http_message HTTP_PTHREAD_MUTEX_INIT_ERR w)
          else (http_success, table, m, w))"

text \<open>The loop of the release over the buckets.\<close>

fun release_loop :: "path2resmem \<Rightarrow> nat list \<Rightarrow> mem \<Rightarrow> os \<Rightarrow> (mem \<times> os) res" where
  "release_loop table [] m w = Inr (m, w)"
| "release_loop table (kitr # ks) m w =
     bnd (kh_exist table kitr) (\<lambda>e.
     if \<not> e then release_loop table ks m w
     else bnd (kh_value table kitr) (\<lambda>resmem.
          case close_resource resmem m w of (_, m, w) \<Rightarrow> release_loop table ks m w))"

text \<open>On the last error exit the handle still points to the freed table.\<close>

definition resource_getter_release ::
  "path2resmem option \<Rightarrow> mem \<Rightarrow> os \<Rightarrow> (http_err_t \<times> path2resmem option \<times> mem \<times> os) res" where
  "resource_getter_release table m w =
     (case table of
        None \<Rightarrow> Inr (http_err_hash_uninitialized, table, m, log_http_message HTTP_HASH_UNINITIALIZED_ERR w)
      | Some t \<Rightarrow>
          bnd (release_loop t [0..<kh_end t] m w) (\<lambda>(m, w).
          let table' = kh_destroy table in
          case os_call Mutex_destroy w of (r, w) \<Rightarrow>
            if r_val r \<noteq> 0
            then Inr (http_err_pthread_mutex_destroy, table', m,
                      log_http_message HTTP_PTHREAD_MUTEX_DESTROY_ERR w)
            else Inr (http_success, None, m, w)))"

text \<open>
  The lookup. \<open>res\<close> is what \<^verbatim>\<open>*res\<close> holds before the call; a hit does not write
  it. The answer of \<open>open_resource\<close> is ignored.
\<close>

definition get_resource_lazy ::
  "string_view_t \<Rightarrow> string_view_t \<Rightarrow> bool \<Rightarrow> path2resmem option \<Rightarrow> mem \<Rightarrow> os \<Rightarrow>
     (http_err_t \<times> string_view_t \<times> path2resmem option \<times> mem \<times> os) res" where
  "get_resource_lazy path res flush table m w =
     (case table of
        None \<Rightarrow> Inr (http_err_hash_uninitialized, res, table, m, log_http_message HTTP_HASH_UNINITIALIZED_ERR w)
      | Some t \<Rightarrow>
        case os_call Mutex_lock w of (r, w) \<Rightarrow>
        if r_val r \<noteq> 0
        then Inr (http_err_pthread_mutex_lock, res, table, m, log_http_message HTTP_PTHREAD_MUTEX_LOCK w)
        else
        bnd (kh_get (path_hash m) (path_equal m) t path) (\<lambda>kitr.
        bnd (if kitr \<noteq> kh_end t \<and> \<not> flush
             then bnd (kh_value t kitr) (\<lambda>_. Inr (None, res, t, m, w))
             else
               case os_call Mutex_unlock w of (r, w) \<Rightarrow>
               if r_val r \<noteq> 0
               then Inr (Some http_err_pthread_mutex_unlock, res, t, m, log_http_message HTTP_PTHREAD_MUTEX_UNLOCK w)
               else
               bnd (open_resource path zero_mapped m w) (\<lambda>(_, resmem, m, w).
               let res = string_view_from_parts (mm_data resmem) (mm_len resmem) in
               case os_call Mutex_lock w of (r, w) \<Rightarrow>
               if r_val r \<noteq> 0
               then Inr (Some http_err_pthread_mutex_lock, res, t, m, log_http_message HTTP_PTHREAD_MUTEX_LOCK w)
               else
               bnd (kh_put (path_hash m) (path_equal m) t path m) (\<lambda>(kitr, ret, t, m).
               bnd (c_assert (ndebug m) (ret \<noteq> 0)) (\<lambda>_.
               bnd (kh_set_value t kitr resmem) (\<lambda>t.
               Inr (None, res, t, m, w))))))
          (\<lambda>(early, res, t, m, w).
           case early of
             Some herr \<Rightarrow> Inr (herr, res, Some t, m, w)
           | None \<Rightarrow>
               case os_call Mutex_unlock w of (r, w) \<Rightarrow>
               if r_val r \<noteq> 0
               then Inr (http_err_pthread_mutex_unlock, res, Some t, m, log_http_message HTTP_PTHREAD_MUTEX_UNLOCK w)
               else Inr (http_success, res, Some t, m, w))))"

definition get_resource_cached ::
  "string_view_t \<Rightarrow> string_view_t \<Rightarrow> path2resmem option \<Rightarrow> mem \<Rightarrow> os \<Rightarrow>
     (http_err_t \<times> string_view_t \<times> path2resmem option \<times> mem \<times> os) res" where
  "get_resource_cached path res table m w = get_resource_lazy path res False table m w"

definition get_resource_refreshed ::
  "string_view_t \<Rightarrow> string_view_t \<Rightarrow> path2resmem option \<Rightarrow> mem \<Rightarrow> os \<Rightarrow>
     (http_err_t \<times> string_view_t \<times> path2resmem option \<times> mem \<times> os) res" where
  "get_resource_refreshed path res table m w = get_resource_lazy path res True table m w"

end
