(* ===== verification/KhashProbe.thy ===== *)
theory KhashProbe
  imports Khash
begin

text \<open>
  The probe sequence of the hash table: from the home bucket by triangular numbers. With a
  power of two of buckets it visits every bucket once before it comes back, so that a search
  ends at an empty bucket whenever there is one.
\<close>

unbundle bit_operations_syntax

section \<open>Sizes\<close>

definition pow2 :: "nat \<Rightarrow> bool" where
  "pow2 n \<longleftrightarrow> (\<exists>b \<ge> 2. n = 2 ^ b)"

lemma pow2_ge: "pow2 n \<Longrightarrow> 4 \<le> n"
proof -
  assume "pow2 n"
  then obtain b where "2 \<le> b" "n = 2 ^ b" by (auto simp: pow2_def)
  then show ?thesis using power_increasing [of 2 b "2::nat"] by simp
qed

lemma pow2_pos [simp]: "pow2 n \<Longrightarrow> 0 < n"
  using pow2_ge by fastforce

lemma pow2_double: "pow2 n \<Longrightarrow> pow2 (2 * n)"
  unfolding pow2_def by (metis le_SucI power_Suc)

lemma mask_mod:
  assumes "pow2 n"
  shows "k AND (n - 1) = k mod n"
proof -
  from assms obtain b where "n = 2 ^ b" by (auto simp: pow2_def)
  moreover have "k AND (2 ^ b - 1) = k mod 2 ^ b"
    by (metis mask_eq_exp_minus_1 take_bit_eq_mask take_bit_eq_mod)
  ultimately show ?thesis by simp
qed

lemma mask_mod_Suc: "pow2 n \<Longrightarrow> k AND (n - Suc 0) = k mod n"
  using mask_mod by simp

section \<open>The probe sequence\<close>

fun tri :: "nat \<Rightarrow> nat" where
  "tri 0 = 0"
| "tri (Suc s) = tri s + Suc s"

lemma tri_double: "2 * tri s = s * Suc s"
  by (induction s) auto

lemma tri_mono: "s \<le> t \<Longrightarrow> tri s \<le> tri t"
  by (induction rule: dec_induct) auto

definition probe :: "nat \<Rightarrow> nat \<Rightarrow> nat \<Rightarrow> nat" where
  "probe n a s = (a + tri s) mod n"

lemma probe_0: "a < n \<Longrightarrow> probe n a 0 = a"
  by (simp add: probe_def)

lemma probe_Suc: "(probe n a s + Suc s) mod n = probe n a (Suc s)"
  by (simp only: probe_def mod_add_left_eq tri.simps add.assoc)

lemma probe_less [simp]: "0 < n \<Longrightarrow> probe n a s < n"
  by (simp add: probe_def)

lemma odd_even_dvd:
  fixes x y :: nat
  assumes "2 ^ c dvd x * y" and "odd x"
  shows "2 ^ c dvd y"
proof -
  have "coprime (2 ^ c) x" using assms(2) by (simp add: coprime_left_2_iff_odd)
  with assms(1) show ?thesis using coprime_dvd_mult_right_iff by blast
qed

lemma tri_inj:
  assumes n: "n = 2 ^ b" and "s < t" and "t < n"
  shows "tri s mod n \<noteq> tri t mod n"
proof
  assume "tri s mod n = tri t mod n"
  with tri_mono [of s t] assms(2) have "n dvd tri t - tri s"
    using mod_eq_dvd_iff_nat [of "tri s" "tri t" n] by simp
  then have "2 * n dvd 2 * tri t - 2 * tri s" using mult_dvd_mono [of 2 2 n "tri t - tri s"] by (simp add: diff_mult_distrib2)
  moreover have "2 * tri t - 2 * tri s = (t - s) * (t + s + 1)"
  proof -
    obtain d where d: "t = s + d" using assms(2) less_imp_add_positive by blast
    have "(s + d) * Suc (s + d) = s * Suc s + d * (s + d + s + 1)" by (simp add: algebra_simps)
    then show ?thesis by (simp add: tri_double d)
  qed
  ultimately have dv: "2 ^ Suc b dvd (t - s) * (t + s + 1)" using n by simp
  have small: "0 < t - s" "t - s < 2 ^ Suc b" "0 < t + s + 1" "t + s + 1 < 2 ^ Suc b"
    using assms by simp_all
  show False
  proof (cases "odd (t - s)")
    case True
    with dv have "2 ^ Suc b dvd t + s + 1" by (rule odd_even_dvd)
    with small show False using dvd_imp_le by fastforce
  next
    case False
    have "even (t - s) \<longleftrightarrow> even (t + s)" using assms(2) by simp
    with False have o: "odd (t + s + 1)" by simp
    have "2 ^ Suc b dvd (t + s + 1) * (t - s)" using dv by (simp only: mult.commute)
    then have "2 ^ Suc b dvd t - s" using o by (rule odd_even_dvd)
    with small show False using dvd_imp_le by fastforce
  qed
qed

lemma probe_inj:
  assumes "pow2 n" and "s < n" and "t < n" and "probe n a s = probe n a t"
  shows "s = t"
proof -
  from assms(1) obtain b where n: "n = 2 ^ b" by (auto simp: pow2_def)
  have "tri s mod n = tri t mod n"
  proof (cases "tri s \<le> tri t")
    case True
    with assms(4) have "n dvd (a + tri t) - (a + tri s)"
      using mod_eq_dvd_iff_nat [of "a + tri s" "a + tri t" n] by (simp add: probe_def)
    with True show ?thesis using mod_eq_dvd_iff_nat [of "tri s" "tri t" n] by simp
  next
    case False
    with assms(4) have "n dvd (a + tri s) - (a + tri t)"
      using mod_eq_dvd_iff_nat [of "a + tri t" "a + tri s" n] by (simp add: probe_def)
    with False show ?thesis using mod_eq_dvd_iff_nat [of "tri t" "tri s" n] by simp
  qed
  with tri_inj [OF n] assms(2,3) show ?thesis
    by (metis linorder_neqE_nat)
qed

lemma probe_surj:
  assumes "pow2 n" and "i < n"
  obtains s where "s < n" and "probe n a s = i"
proof -
  have "inj_on (probe n a) {..<n}" using probe_inj [OF assms(1)] by (auto intro: inj_onI)
  moreover have "probe n a ` {..<n} \<subseteq> {..<n}" using assms(1) by auto
  ultimately have "probe n a ` {..<n} = {..<n}" by (intro endo_inj_surj) auto
  with assms(2) that show thesis by (metis imageE lessThan_iff)
qed

text \<open>The first bucket of a probe sequence that satisfies a predicate.\<close>

lemma first_probe:
  assumes "pow2 n" and "\<exists>i < n. P i"
  obtains e where "e < n" and "P (probe n a e)" and "\<And>t. t < e \<Longrightarrow> \<not> P (probe n a t)"
proof -
  from assms obtain s where s: "s < n" "P (probe n a s)" by (metis probe_surj)
  let ?e = "LEAST s. P (probe n a s)"
  have "?e \<le> s" "P (probe n a ?e)" "\<And>t. t < ?e \<Longrightarrow> \<not> P (probe n a t)"
    using s by (auto intro: Least_le LeastI dest: not_less_Least)
  with s(1) that show thesis by (meson le_less_trans)
qed

text \<open>Before the end of a round, the sequence does not come back to its start.\<close>

lemma probe_not_start:
  assumes "pow2 n" and "a < n" and "Suc s < n"
  shows "probe n a (Suc s) \<noteq> a"
  using probe_inj [OF assms(1,3), of 0 a] probe_0 [OF assms(2)] assms by auto

section \<open>Rounding and load\<close>

lemma upper_of_less: "4 \<le> n \<Longrightarrow> upper_of n < n"
  by (simp add: upper_of_def)

lemma upper_of_half: "4 \<le> n \<Longrightarrow> n \<le> 2 * upper_of n"
  by (simp add: upper_of_def)

lemma upper_of_double: "4 \<le> n \<Longrightarrow> upper_of n < upper_of (2 * n)"
  by (simp add: upper_of_def)

text \<open>
  The shifts of \<^verbatim>\<open>kroundup32\<close> copy the highest bit of a number into all places below it.
\<close>

lemma smear_step:
  fixes x y :: "32 word"
  assumes "\<And>i. bit y i \<longleftrightarrow> (\<exists>j < m. bit x (i + j))"
  shows "bit (y OR drop_bit m y) i \<longleftrightarrow> (\<exists>j < 2 * m. bit x (i + j))"
proof -
  have "(\<exists>j < 2 * m. bit x (i + j)) \<longleftrightarrow> (\<exists>j < m. bit x (i + j)) \<or> (\<exists>j < m. bit x (i + (m + j)))"
  proof safe
    fix j assume j: "j < 2 * m" "bit x (i + j)" "\<not> (\<exists>j < m. bit x (i + (m + j)))"
    show "\<exists>j < m. bit x (i + j)"
    proof (cases "j < m")
      case False
      with j(1) have "j - m < m" "i + (m + (j - m)) = i + j" by simp_all
      with j(2,3) show ?thesis by metis
    qed (use j in blast)
  next
    fix j assume "j < m" "bit x (i + j)"
    then show "\<exists>j < 2 * m. bit x (i + j)" by (intro exI [of _ j]) simp
  next
    fix j assume "j < m" "bit x (i + (m + j))"
    then show "\<exists>j < 2 * m. bit x (i + j)" by (intro exI [of _ "m + j"]) simp
  qed
  then show ?thesis by (simp add: assms bit_simps add.assoc add.commute add.left_commute)
qed

lemma kroundup32_power:
  assumes "2 ^ h \<le> unat (x - 1)" and "unat (x - 1) < 2 ^ Suc h" and "h < 31"
  shows "unat (kroundup32 x) = 2 ^ Suc h"
proof -
  let ?x = "x - 1"
  define x1 where "x1 = ?x OR drop_bit 1 ?x"
  define x2 where "x2 = x1 OR drop_bit 2 x1"
  define x4 where "x4 = x2 OR drop_bit 4 x2"
  define x8 where "x8 = x4 OR drop_bit 8 x4"
  define r where "r = x8 OR drop_bit 16 x8"
  have "bit x1 i \<longleftrightarrow> (\<exists>j < 2 * 1. bit ?x (i + j))" for i unfolding x1_def by (rule smear_step) simp
  then have "bit x2 i \<longleftrightarrow> (\<exists>j < 2 * 2. bit ?x (i + j))" for i unfolding x2_def by (intro smear_step) simp
  then have "bit x4 i \<longleftrightarrow> (\<exists>j < 2 * 4. bit ?x (i + j))" for i unfolding x4_def by (intro smear_step) simp
  then have "bit x8 i \<longleftrightarrow> (\<exists>j < 2 * 8. bit ?x (i + j))" for i unfolding x8_def by (intro smear_step) simp
  then have b: "bit r i \<longleftrightarrow> (\<exists>j < 2 * 16. bit ?x (i + j))" for i unfolding r_def by (intro smear_step) simp
  have bx: "bit ?x i \<longleftrightarrow> bit (unat ?x) i" for i
    using bit_imp_le_length [of ?x i] by (auto simp: bit_unsigned_iff)
  have top: "bit ?x h"
  proof -
    have "unat ?x div 2 ^ h = 1" using assms(1,2) by (intro div_nat_eqI) auto
    then show ?thesis unfolding bx by (simp add: bit_iff_odd)
  qed
  have above: "\<not> bit ?x i" if "h < i" for i
  proof -
    have "2 ^ Suc h \<le> (2::nat) ^ i" using that by (intro power_increasing) auto
    with assms(2) have "unat ?x div 2 ^ i = 0" by (intro div_less) linarith
    then show ?thesis unfolding bx by (simp add: bit_iff_odd)
  qed
  have "r = mask (Suc h)"
  proof (rule bit_word_eqI)
    fix i assume "i < LENGTH(32)"
    have "(\<exists>j < 2 * 16. bit ?x (i + j)) \<longleftrightarrow> i < Suc h"
    proof
      assume "i < Suc h"
      with assms(3) have "h - i < 2 * 16" "i + (h - i) = h" by simp_all
      with top show "\<exists>j < 2 * 16. bit ?x (i + j)" by metis
    next
      assume "\<exists>j < 2 * 16. bit ?x (i + j)"
      with above show "i < Suc h" by (metis add_lessD1 not_less_eq)
    qed
    with b [of i] \<open>i < LENGTH(32)\<close> show "bit r i = bit (mask (Suc h) :: 32 word) i" by (simp add: bit_mask_iff)
  qed
  moreover have "kroundup32 x = r + 1"
    by (simp add: kroundup32_def Let_def r_def x8_def x4_def x2_def x1_def)
  ultimately have "kroundup32 x = 2 ^ Suc h" by (simp add: mask_eq_exp_minus_1)
  moreover have "unat (2 ^ Suc h :: 32 word) = 2 ^ Suc h"
  proof -
    have "(2::nat) ^ Suc h < 2 ^ 32" using assms(3) by (intro power_strict_increasing) auto
    then have "unat (word_of_nat (2 ^ Suc h) :: 32 word) = 2 ^ Suc h"
      using take_bit_nat_eq_self [of "2 ^ Suc h" 32] by (simp only: unsigned_of_nat of_nat_id len_bit0 len_num1) simp
    then show ?thesis by simp
  qed
  ultimately show ?thesis by simp
qed

lemma kroundup32_pred:
  assumes "pow2 n" and "n < 2 ^ 31"
  shows "unat (kroundup32 (word_of_nat (n - 1))) = n" and "unat (kroundup32 (word_of_nat (n + 1))) = 2 * n"
proof -
  from assms(1) obtain b where b: "2 \<le> b" "n = 2 ^ b" by (auto simp: pow2_def)
  with assms(2) have "b < 31" using power_less_imp_less_exp [of "2::nat" b 31] by simp
  have nb: "n \<le> 2 ^ 30" unfolding b(2) using \<open>b < 31\<close> by (intro power_increasing) auto
  have "unat (word_of_nat k :: 32 word) = k" if "k < 2 ^ 31" for k
    using that by (simp add: unsigned_of_nat take_bit_nat_eq_self)
  note u = this
  have m1: "unat (word_of_nat (n - 1) - 1 :: 32 word) = n - 2" and p1: "unat (word_of_nat (n + 1) - 1 :: 32 word) = n"
  proof -
    have "word_of_nat (n - 1) - 1 = (word_of_nat (n - 2) :: 32 word)"
      using pow2_ge [OF assms(1)] by (simp add: of_nat_diff)
    then show "unat (word_of_nat (n - 1) - 1 :: 32 word) = n - 2" using u [of "n - 2"] nb by simp
    show "unat (word_of_nat (n + 1) - 1 :: 32 word) = n" using u [of n] nb by simp
  qed
  obtain c where c: "b = Suc c" using b(1) by (cases b) auto
  have half: "2 ^ c \<le> n - 2" using pow2_ge [OF assms(1)] b(2) c by simp
  have "unat (kroundup32 (word_of_nat (n - 1))) = 2 ^ Suc c"
    by (rule kroundup32_power) (use m1 half b(2) c \<open>b < 31\<close> in auto)
  then show "unat (kroundup32 (word_of_nat (n - 1))) = n" using b(2) c by simp
  have "unat (kroundup32 (word_of_nat (n + 1))) = 2 ^ Suc b"
    by (rule kroundup32_power) (use p1 b(2) \<open>b < 31\<close> in auto)
  then show "unat (kroundup32 (word_of_nat (n + 1))) = 2 * n" using b(2) by simp
qed

lemma kroundup32_1: "unat (kroundup32 1) = 1"
  by code_simp

end
