(* ===== verification/KhashInv.thy ===== *)
theory KhashInv
  imports KhashProbe "HOL-Library.Multiset"
begin

text \<open>
  The invariant of the hash table and the map it stands for. The functions the table is
  instantiated with are described by the value \<open>kv\<close> of a key, the hash \<open>hv\<close> of a value, and
  the keys \<open>ok\<close> on which both functions are defined.
\<close>

section \<open>The keys\<close>

locale hash_keys =
  fixes hashf :: "'k \<Rightarrow> nat res" and eqf :: "'k \<Rightarrow> 'k \<Rightarrow> bool res"
    and kv :: "'k \<Rightarrow> 'a" and hv :: "'a \<Rightarrow> nat" and ok :: "'k \<Rightarrow> bool"
  assumes hash_ok: "ok q \<Longrightarrow> hashf q = Inr (hv (kv q))"
    and eq_ok: "ok p \<Longrightarrow> ok q \<Longrightarrow> eqf p q = Inr (kv p = kv q)"

section \<open>Buckets\<close>

definition live_ix :: "kflag list \<Rightarrow> nat set" where
  "live_ix fl = {i. i < length fl \<and> \<not> ac_iseither (fl ! i)}"

definition occ_ix :: "kflag list \<Rightarrow> nat set" where
  "occ_ix fl = {i. i < length fl \<and> \<not> ac_isempty (fl ! i)}"

lemma finite_ix [simp]: "finite (live_ix fl)" "finite (occ_ix fl)"
  by (simp_all add: live_ix_def occ_ix_def)

lemma live_ix_iff: "i \<in> live_ix fl \<longleftrightarrow> i < length fl \<and> fl ! i = (False, False)"
  by (cases "fl ! i") (auto simp: live_ix_def ac_defs)

lemma occ_ix_iff: "i \<in> occ_ix fl \<longleftrightarrow> i < length fl \<and> \<not> fst (fl ! i)"
  by (simp add: occ_ix_def ac_defs)

lemma live_occ: "live_ix fl \<subseteq> occ_ix fl"
  by (auto simp: live_ix_iff occ_ix_iff)

lemma card_ix: "card (live_ix fl) \<le> length fl" "card (occ_ix fl) \<le> length fl"
  using card_mono [of "{..<length fl}" "live_ix fl"] card_mono [of "{..<length fl}" "occ_ix fl"]
  by (auto simp: live_ix_def occ_ix_def)

text \<open>The key of a bucket lies on its own probe sequence, with no empty bucket in front.\<close>

definition placed ::
  "('k \<Rightarrow> 'a) \<Rightarrow> ('a \<Rightarrow> nat) \<Rightarrow> ('k \<Rightarrow> bool) \<Rightarrow> kflag list \<Rightarrow> 'k option list \<Rightarrow> nat \<Rightarrow> bool" where
  "placed kv hv ok fl ks i \<longleftrightarrow>
     (\<exists>k s. ks ! i = Some k \<and> ok k \<and> s < length fl \<and> probe (length fl) (hv (kv k) mod length fl) s = i \<and>
        (\<forall>t < s. \<not> fst (fl ! probe (length fl) (hv (kv k) mod length fl) t)))"

lemma placed_mono:
  assumes "placed kv hv ok fl ks i" and "length fl' = length fl" and "ks' ! i = ks ! i"
    and "\<And>j. j < length fl \<Longrightarrow> \<not> fst (fl ! j) \<Longrightarrow> \<not> fst (fl' ! j)"
  shows "placed kv hv ok fl' ks' i"
proof -
  from assms(1) obtain k s where k: "ks ! i = Some k" "ok k" "s < length fl"
    "probe (length fl) (hv (kv k) mod length fl) s = i"
    "\<forall>t < s. \<not> fst (fl ! probe (length fl) (hv (kv k) mod length fl) t)" unfolding placed_def by blast
  moreover have "0 < length fl" using k(3) by linarith
  ultimately have "\<forall>t < s. \<not> fst (fl' ! probe (length fl) (hv (kv k) mod length fl) t)"
    using assms(4) probe_less by blast
  with k assms(2,3) show ?thesis unfolding placed_def by (metis (no_types, lifting))
qed

section \<open>The entries\<close>

text \<open>The entries in a set of buckets, as a multiset.\<close>

definition bag :: "'k list \<Rightarrow> 'v list \<Rightarrow> nat set \<Rightarrow> ('k \<times> 'v) multiset" where
  "bag ks vs A = image_mset (\<lambda>i. (ks ! i, vs ! i)) (mset_set A)"

lemma bag_insert: "finite A \<Longrightarrow> i \<notin> A \<Longrightarrow> bag ks vs (insert i A) = add_mset (ks ! i, vs ! i) (bag ks vs A)"
  by (simp add: bag_def)

lemma bag_remove:
  "finite A \<Longrightarrow> i \<in> A \<Longrightarrow> bag ks vs A = add_mset (ks ! i, vs ! i) (bag ks vs (A - {i}))"
  using bag_insert [of "A - {i}" i ks vs] by (simp add: insert_absorb)

lemma bag_cong:
  "(\<And>i. i \<in> A \<Longrightarrow> ks ! i = ks' ! i \<and> vs ! i = vs' ! i) \<Longrightarrow> bag ks vs A = bag ks' vs' A"
  by (cases "finite A") (auto simp: bag_def intro!: image_mset_cong)

lemma bag_update [simp]: "i \<notin> A \<Longrightarrow> bag (ks[i := k]) (vs[i := v]) A = bag ks vs A"
  by (rule bag_cong) (metis nth_list_update_neq)

lemma bag_update_key [simp]: "i \<notin> A \<Longrightarrow> bag (ks[i := k]) vs A = bag ks vs A"
  by (rule bag_cong) (metis nth_list_update_neq)

lemma bag_update_val [simp]: "i \<notin> A \<Longrightarrow> bag ks (vs[i := v]) A = bag ks vs A"
  by (rule bag_cong) (metis nth_list_update_neq)

lemma size_bag: "size (bag ks vs A) = card A"
  by (simp add: bag_def)

lemma set_bag: "finite A \<Longrightarrow> set_mset (bag ks vs A) = (\<lambda>i. (ks ! i, vs ! i)) ` A"
  by (simp add: bag_def)

lemma bag_empty [simp]: "bag ks vs {} = {#}"
  by (simp add: bag_def)

text \<open>Whether the keys are different is a property of the bag.\<close>

definition bag_distinct :: "('k \<Rightarrow> 'a) \<Rightarrow> ('k option \<times> 'v) multiset \<Rightarrow> bool" where
  "bag_distinct kv B \<longleftrightarrow> card ((\<lambda>e. kv (the (fst e))) ` set_mset B) = size B"

lemma bag_distinct_iff:
  assumes "finite A"
  shows "bag_distinct kv (bag ks vs A) \<longleftrightarrow> inj_on (\<lambda>i. kv (the (ks ! i))) A"
proof -
  have "(\<lambda>e. kv (the (fst e))) ` set_mset (bag ks vs A) = (\<lambda>i. kv (the (ks ! i))) ` A"
    using assms by (simp add: set_bag image_image)
  then show ?thesis using assms by (auto simp: bag_distinct_def size_bag card_image eq_card_imp_inj_on)
qed

section \<open>The invariant\<close>

definition kh_inv :: "('k \<Rightarrow> 'a) \<Rightarrow> ('a \<Rightarrow> nat) \<Rightarrow> ('k \<Rightarrow> bool) \<Rightarrow> ('k, 'v) khash \<Rightarrow> bool" where
  "kh_inv kv hv ok h \<longleftrightarrow>
     length (kh_flags h) = n_buckets h \<and>
     n_buckets h \<le> length (kh_keys h) \<and> n_buckets h \<le> length (kh_vals h) \<and>
     (if n_buckets h = 0 then upper_bound h = 0 else pow2 (n_buckets h) \<and> upper_bound h = upper_of (n_buckets h)) \<and>
     kh_size h = card (live_ix (kh_flags h)) \<and>
     n_occupied h = card (occ_ix (kh_flags h)) \<and> n_occupied h \<le> upper_bound h \<and>
     (\<forall>i \<in> live_ix (kh_flags h). placed kv hv ok (kh_flags h) (kh_keys h) i) \<and>
     inj_on (\<lambda>i. kv (the (kh_keys h ! i))) (live_ix (kh_flags h))"

text \<open>The map: from the value of a key to what its bucket holds.\<close>

definition kh_map :: "('k \<Rightarrow> 'a) \<Rightarrow> ('k, 'v) khash \<Rightarrow> 'a \<Rightarrow> 'v option option" where
  "kh_map kv h =
     map_of (map (\<lambda>i. (kv (the (kh_keys h ! i)), kh_vals h ! i))
       (filter (\<lambda>i. \<not> ac_iseither (kh_flags h ! i)) [0..<length (kh_flags h)]))"

lemma kh_map_eq_Some_iff:
  assumes "inj_on (\<lambda>i. kv (the (kh_keys h ! i))) (live_ix (kh_flags h))"
  shows "kh_map kv h x = Some v \<longleftrightarrow>
     (\<exists>i \<in> live_ix (kh_flags h). kv (the (kh_keys h ! i)) = x \<and> kh_vals h ! i = v)"
proof -
  let ?is = "filter (\<lambda>i. \<not> ac_iseither (kh_flags h ! i)) [0..<length (kh_flags h)]"
  have s: "set ?is = live_ix (kh_flags h)" by (auto simp: live_ix_def)
  have "distinct (map fst (map (\<lambda>i. (kv (the (kh_keys h ! i)), kh_vals h ! i)) ?is))"
    using assms unfolding s [symmetric] by (simp add: distinct_map comp_def)
  then have "kh_map kv h x = Some v \<longleftrightarrow> (x, v) \<in> set (map (\<lambda>i. (kv (the (kh_keys h ! i)), kh_vals h ! i)) ?is)"
    unfolding kh_map_def by (rule map_of_eq_Some_iff)
  then show ?thesis unfolding set_map s by auto
qed

lemma kh_map_eq_None_iff:
  "kh_map kv h x = None \<longleftrightarrow> (\<forall>i \<in> live_ix (kh_flags h). kv (the (kh_keys h ! i)) \<noteq> x)"
  by (auto simp: kh_map_def map_of_eq_None_iff live_ix_def image_iff)

text \<open>The bag of all entries determines the map.\<close>

definition kh_bag :: "('k, 'v) khash \<Rightarrow> ('k option \<times> 'v option) multiset" where
  "kh_bag h = bag (kh_keys h) (kh_vals h) (live_ix (kh_flags h))"

lemma kh_map_bag:
  assumes "inj_on (\<lambda>i. kv (the (kh_keys h ! i))) (live_ix (kh_flags h))"
  shows "kh_map kv h x = Some v \<longleftrightarrow> (\<exists>k. (k, v) \<in># kh_bag h \<and> kv (the k) = x)"
  unfolding kh_map_eq_Some_iff [of kv h, OF assms] kh_bag_def by (auto simp: set_bag)

lemma kh_map_cong:
  assumes "kh_bag h = kh_bag h'"
    and "inj_on (\<lambda>i. kv (the (kh_keys h ! i))) (live_ix (kh_flags h))"
    and "inj_on (\<lambda>i. kv (the (kh_keys h' ! i))) (live_ix (kh_flags h'))"
  shows "kh_map kv h = kh_map kv h'"
proof
  fix x
  have "kh_map kv h x = Some v \<longleftrightarrow> kh_map kv h' x = Some v" for v
    using kh_map_bag [of kv h, OF assms(2)] kh_map_bag [of kv h', OF assms(3)] assms(1) by simp
  then show "kh_map kv h x = kh_map kv h' x"
    by (metis not_None_eq)
qed

text \<open>Simple consequences.\<close>

lemma kh_inv_zero [simp]: "kh_inv kv hv ok kh_zero"
  by (simp add: kh_inv_def kh_zero_def live_ix_def occ_ix_def)

lemma kh_map_zero [simp]: "kh_map kv kh_zero = Map.empty"
  by (simp add: kh_map_def kh_zero_def)

lemma kh_inv_live:
  assumes "kh_inv kv hv ok h" and "i \<in> live_ix (kh_flags h)"
  obtains k where "i < n_buckets h" and "kh_keys h ! i = Some k" and "ok k"
    and "kh_flags h ! i = (False, False)" and "kh_map kv h (kv k) = Some (kh_vals h ! i)"
proof -
  from assms obtain k where k: "kh_keys h ! i = Some k" "ok k" by (auto simp: kh_inv_def placed_def)
  have "kh_map kv h (kv k) = Some (kh_vals h ! i)"
    by (subst kh_map_eq_Some_iff) (use assms k in \<open>auto simp: kh_inv_def intro!: bexI [of _ i]\<close>)
  moreover have "i < n_buckets h" using assms by (simp add: kh_inv_def live_ix_iff)
  ultimately show thesis using that k assms(2) by (simp add: live_ix_iff)
qed

lemma kh_inv_free:
  assumes "kh_inv kv hv ok h" and "n_buckets h \<noteq> 0"
  shows "\<exists>i < n_buckets h. fst (kh_flags h ! i)"
proof (rule ccontr)
  assume "\<not> ?thesis"
  then have "occ_ix (kh_flags h) = {..<n_buckets h}" using assms(1) by (auto simp: occ_ix_iff kh_inv_def)
  moreover have "card (occ_ix (kh_flags h)) < n_buckets h"
    using assms upper_of_less [OF pow2_ge, of "n_buckets h"] by (auto simp: kh_inv_def)
  ultimately show False by simp
qed

section \<open>Lookup\<close>

context hash_keys begin

text \<open>The bucket a search stops at: an empty one, or one with the key.\<close>

definition stop :: "('k, 'v) khash \<Rightarrow> 'k \<Rightarrow> nat \<Rightarrow> bool" where
  "stop h q i \<longleftrightarrow> fst (kh_flags h ! i) \<or> (i \<in> live_ix (kh_flags h) \<and> kv (the (kh_keys h ! i)) = kv q)"

lemma same_step:
  assumes "kh_inv kv hv ok h" and "ok q" and "i < n_buckets h" and "\<not> fst (kh_flags h ! i)"
  shows "(if ac_isdel (kh_flags h ! i) then Inr False else bnd (key_at (kh_keys h) i) (\<lambda>k. eqf k q)) =
     Inr (stop h q i)"
proof (cases "snd (kh_flags h ! i)")
  case True
  with assms show ?thesis by (cases "kh_flags h ! i") (simp add: ac_defs stop_def live_ix_iff)
next
  case False
  with assms have l: "i \<in> live_ix (kh_flags h)"
    by (cases "kh_flags h ! i") (auto simp: live_ix_iff kh_inv_def)
  from assms(1) this obtain k where k: "i < n_buckets h" "kh_keys h ! i = Some k" "ok k"
    by (rule kh_inv_live)
  moreover have "i < length (kh_keys h)" using assms(1) k(1) by (simp add: kh_inv_def)
  ultimately show ?thesis using False l assms(2,4) by (simp add: ac_defs stop_def eq_ok)
qed

lemma first_stop:
  assumes "kh_inv kv hv ok h" and "n_buckets h \<noteq> 0"
  obtains e where "e < n_buckets h" and "stop h q (probe (n_buckets h) a e)"
    and "\<And>t. t < e \<Longrightarrow> \<not> stop h q (probe (n_buckets h) a t)"
proof -
  have "pow2 (n_buckets h)" using assms by (simp add: kh_inv_def)
  moreover have "\<exists>i < n_buckets h. stop h q i" using kh_inv_free [OF assms] by (auto simp: stop_def)
  ultimately show thesis using that by (rule first_probe)
qed

text \<open>At the first stop there is the key, if the table has it.\<close>

lemma stop_key:
  assumes inv: "kh_inv kv hv ok h" and i: "i \<in> live_ix (kh_flags h)" "kv (the (kh_keys h ! i)) = kv q"
    and e: "stop h q (probe (n_buckets h) (hv (kv q) mod n_buckets h) e)"
      "\<And>t. t < e \<Longrightarrow> \<not> stop h q (probe (n_buckets h) (hv (kv q) mod n_buckets h) t)"
  shows "probe (n_buckets h) (hv (kv q) mod n_buckets h) e = i"
proof -
  let ?p = "probe (n_buckets h) (hv (kv q) mod n_buckets h)"
  have len: "length (kh_flags h) = n_buckets h" using inv by (simp add: kh_inv_def)
  from inv i(1) obtain k s where k: "kh_keys h ! i = Some k" "?p s = i"
    "\<forall>t < s. \<not> fst (kh_flags h ! ?p t)"
    using i(2) unfolding kh_inv_def placed_def by fastforce
  have "stop h q (?p s)" using i k(2) by (simp add: stop_def)
  with e(2) have "e \<le> s" using not_less by blast
  show ?thesis
  proof (cases "e = s")
    case False
    with \<open>e \<le> s\<close> k(3) have "\<not> fst (kh_flags h ! ?p e)" by simp
    with e(1) have "?p e \<in> live_ix (kh_flags h)" "kv (the (kh_keys h ! ?p e)) = kv q" by (simp_all add: stop_def)
    moreover have "inj_on (\<lambda>i. kv (the (kh_keys h ! i))) (live_ix (kh_flags h))" using inv by (simp add: kh_inv_def)
    ultimately show ?thesis using i by (metis inj_on_eq_iff)
  qed (use k(2) in simp)
qed

lemma get_loop_step:
  fixes h :: "('k, 'v) khash"
  assumes "kh_inv kv hv ok h" and "ok q" and "i < n_buckets h"
  shows "get_loop (Suc fuel) eqf h q a s i =
     (if fst (kh_flags h ! i) then Inr (n_buckets h)
      else if stop h q i then Inr i
      else let j = (i + Suc s) AND (n_buckets h - 1) in
        if j = a then Inr (n_buckets h) else get_loop fuel eqf h q a (Suc s) j)"
proof -
  have "i < length (kh_flags h)" using assms(1,3) by (simp add: kh_inv_def)
  then show ?thesis
    using same_step [OF assms] by (cases "fst (kh_flags h ! i)") (simp_all add: ac_isempty_def Let_def)
qed

lemma get_loop_stop:
  fixes h :: "('k, 'v) khash"
  assumes inv: "kh_inv kv hv ok h" and q: "ok q" and n: "n_buckets h \<noteq> 0" and a: "a < n_buckets h"
    and e: "e < n_buckets h" "stop h q (probe (n_buckets h) a e)"
      "\<And>t. t < e \<Longrightarrow> \<not> stop h q (probe (n_buckets h) a t)"
  shows "s \<le> e \<Longrightarrow> e - s < fuel \<Longrightarrow>
     get_loop fuel eqf h q a s (probe (n_buckets h) a s) =
       Inr (if fst (kh_flags h ! probe (n_buckets h) a e) then n_buckets h else probe (n_buckets h) a e)"
proof (induction fuel arbitrary: s)
  case (Suc fuel)
  let ?p = "probe (n_buckets h) a"
  have len: "length (kh_flags h) = n_buckets h" and p2: "pow2 (n_buckets h)" using inv n by (auto simp: kh_inv_def)
  have less: "?p s < n_buckets h" using n by simp
  show ?case
  proof (cases "s = e")
    case True
    then show ?thesis using e(2) get_loop_step [OF inv q less, of fuel a s] by simp
  next
    case False
    with Suc.prems e have s: "Suc s \<le> e" "\<not> stop h q (?p s)" by auto
    then have "\<not> fst (kh_flags h ! ?p s)" by (simp add: stop_def)
    moreover have "?p (Suc s) \<noteq> a" using probe_not_start [OF p2 a] s(1) e(1) by simp
    moreover have "(?p s + (s + 1)) AND (n_buckets h - 1) = ?p (Suc s)"
      using mask_mod [OF p2] probe_Suc [of "n_buckets h" a s] by simp
    ultimately show ?thesis
      using s Suc.IH [of "Suc s"] Suc.prems get_loop_step [OF inv q less, of fuel a s]
      by (simp add: Let_def)
  qed
qed simp

lemma kh_get_found:
  assumes "kh_inv kv hv ok h" and "ok q" and "i \<in> live_ix (kh_flags h)" and "kv (the (kh_keys h ! i)) = kv q"
  shows "kh_get hashf eqf h q = Inr i"
proof -
  have n: "n_buckets h \<noteq> 0" using assms(1,3) by (auto simp: kh_inv_def live_ix_iff)
  then have p2: "pow2 (n_buckets h)" and a: "hv (kv q) mod n_buckets h < n_buckets h"
    using assms(1) by (simp_all add: kh_inv_def)
  obtain e where e: "e < n_buckets h" "stop h q (probe (n_buckets h) (hv (kv q) mod n_buckets h) e)"
    "\<And>t. t < e \<Longrightarrow> \<not> stop h q (probe (n_buckets h) (hv (kv q) mod n_buckets h) t)"
    by (rule first_stop [OF assms(1) n, of q "hv (kv q) mod n_buckets h"]) blast
  have i: "probe (n_buckets h) (hv (kv q) mod n_buckets h) e = i"
    by (rule stop_key [OF assms(1,3,4) e(2,3)])
  have "\<not> fst (kh_flags h ! i)" using assms(3) by (simp add: live_ix_iff)
  with get_loop_stop [OF assms(1,2) n a e, of 0 "2 * n_buckets h"] i e(1) show ?thesis
    by (simp add: kh_get_def n hash_ok assms(2) mask_mod_Suc [OF p2] probe_0 [OF a])
qed

lemma kh_get_missing:
  assumes "kh_inv kv hv ok h" and "ok q" and "\<forall>i \<in> live_ix (kh_flags h). kv (the (kh_keys h ! i)) \<noteq> kv q"
  shows "kh_get hashf eqf h q = Inr (n_buckets h)"
proof (cases "n_buckets h = 0")
  case True
  then show ?thesis by (simp add: kh_get_def)
next
  case n: False
  then have p2: "pow2 (n_buckets h)" and a: "hv (kv q) mod n_buckets h < n_buckets h"
    using assms(1) by (simp_all add: kh_inv_def)
  obtain e where e: "e < n_buckets h" "stop h q (probe (n_buckets h) (hv (kv q) mod n_buckets h) e)"
    "\<And>t. t < e \<Longrightarrow> \<not> stop h q (probe (n_buckets h) (hv (kv q) mod n_buckets h) t)"
    by (rule first_stop [OF assms(1) n, of q "hv (kv q) mod n_buckets h"]) blast
  have "fst (kh_flags h ! probe (n_buckets h) (hv (kv q) mod n_buckets h) e)"
    using e(2) assms(3) by (auto simp: stop_def)
  with get_loop_stop [OF assms(1,2) n a e, of 0 "2 * n_buckets h"] e(1) show ?thesis
    by (simp add: kh_get_def n hash_ok assms(2) mask_mod_Suc [OF p2] probe_0 [OF a])
qed

text \<open>The lookup, over the map.\<close>

lemma kh_get_map:
  assumes "kh_inv kv hv ok h" and "ok q"
  shows "case kh_map kv h (kv q) of
       None \<Rightarrow> kh_get hashf eqf h q = Inr (kh_end h)
     | Some v \<Rightarrow> \<exists>i. kh_get hashf eqf h q = Inr i \<and> i \<noteq> kh_end h \<and> kh_exist h i = Inr True \<and> kh_vals h ! i = v"
proof (cases "kh_map kv h (kv q)")
  case None
  with kh_get_missing [OF assms] have "kh_get hashf eqf h q = Inr (n_buckets h)"
    by (simp add: kh_map_eq_None_iff)
  with None show ?thesis by (simp add: kh_end_def)
next
  case (Some v)
  have "inj_on (\<lambda>i. kv (the (kh_keys h ! i))) (live_ix (kh_flags h))" using assms(1) by (simp add: kh_inv_def)
  from Some [unfolded kh_map_eq_Some_iff [of kv h, OF this]] obtain i where
    i: "i \<in> live_ix (kh_flags h)" "kv (the (kh_keys h ! i)) = kv q" "kh_vals h ! i = v" by blast
  moreover from i(1) assms(1) have "kh_exist h i = Inr True" "i \<noteq> kh_end h"
    by (auto simp: live_ix_iff kh_exist_def ac_defs kh_end_def kh_inv_def)
  ultimately show ?thesis using kh_get_found [OF assms i(1,2)] Some by auto
qed

end

end
