(* ===== verification/KhashResize.thy ===== *)
theory KhashResize
  imports KhashInv
begin

text \<open>
  The resize of the table. Its entries are moved in place: the arrays hold old and new entries
  side by side, the flags of both tables tell them apart, and the entry in the hand is in
  neither. The three bags together never change, and an entry once placed stays on its probe
  sequence, because buckets of the new table only fill up.
\<close>

section \<open>The state of a rehash\<close>

definition rehash_inv ::
  "('k \<Rightarrow> 'a) \<Rightarrow> ('a \<Rightarrow> nat) \<Rightarrow> ('k \<Rightarrow> bool) \<Rightarrow> nat \<Rightarrow> ('k option \<times> 'v option) multiset \<Rightarrow>
     ('k option \<times> 'v option) multiset \<Rightarrow> ('k, 'v) arrays \<Rightarrow> bool" where
  "rehash_inv kv hv ok new_n B C a \<longleftrightarrow>
     (case a of (flags, ks, vs, nf) \<Rightarrow>
        length nf = new_n \<and> pow2 new_n \<and> new_n \<le> length ks \<and> new_n \<le> length vs \<and>
        length flags \<le> length ks \<and> length flags \<le> length vs \<and>
        (\<forall>i < new_n. \<not> snd (nf ! i)) \<and> live_ix flags \<inter> occ_ix nf = {} \<and>
        (\<forall>i \<in> live_ix flags. \<exists>k. ks ! i = Some k \<and> ok k) \<and>
        (\<forall>i \<in> occ_ix nf. placed kv hv ok nf ks i) \<and>
        bag ks vs (live_ix flags) + bag ks vs (occ_ix nf) + C = B \<and> size B < new_n)"

lemma live_del:
  "i < length fl \<Longrightarrow> live_ix (fl[i := ac_set_isdel_true (fl ! i)]) = live_ix fl - {i}"
  by (auto simp: live_ix_iff ac_defs nth_list_update split: if_splits)

lemma occ_set:
  "i < length fl \<Longrightarrow> occ_ix (fl[i := ac_set_isempty_false (fl ! i)]) = insert i (occ_ix fl)"
  by (auto simp: occ_ix_iff ac_defs nth_list_update split: if_splits)

lemma live_nochange: "i \<notin> live_ix fl \<Longrightarrow> i < length fl \<and> \<not> ac_iseither (fl ! i) \<Longrightarrow> False"
  by (auto simp: live_ix_def)

text \<open>The search for an empty bucket of the new table.\<close>

lemma find_empty_first:
  assumes "pow2 n" and "length nf = n" and "e < n" and "fst (nf ! probe n a e)"
    and "\<And>t. t < e \<Longrightarrow> \<not> fst (nf ! probe n a t)"
  shows "s \<le> e \<Longrightarrow> e - s < fuel \<Longrightarrow> find_empty fuel nf (n - 1) s (probe n a s) = Inr (probe n a e)"
proof (induction fuel arbitrary: s)
  case (Suc fuel)
  have less: "probe n a s < length nf" using assms(1,2) by simp
  show ?case
  proof (cases "s = e")
    case True
    then show ?thesis using less assms(4) by (simp add: ac_isempty_def)
  next
    case False
    with Suc.prems assms(5) have "\<not> fst (nf ! probe n a s)" by simp
    moreover have "(probe n a s + (s + 1)) AND (n - 1) = probe n a (Suc s)"
      using mask_mod [OF assms(1)] probe_Suc [of n a s] by simp
    ultimately show ?thesis using less Suc False by (simp add: ac_isempty_def)
  qed
qed simp

lemma find_empty_found:
  assumes "pow2 n" and "length nf = n" and "\<exists>i < n. fst (nf ! i)"
  obtains e where "e < n" and "find_empty n nf (n - 1) 0 (h AND (n - 1)) = Inr (probe n (h mod n) e)"
    and "fst (nf ! probe n (h mod n) e)" and "\<And>t. t < e \<Longrightarrow> \<not> fst (nf ! probe n (h mod n) t)"
proof -
  from assms(1,3) obtain e where e: "e < n" "fst (nf ! probe n (h mod n) e)"
    "\<And>t. t < e \<Longrightarrow> \<not> fst (nf ! probe n (h mod n) t)" by (rule first_probe) blast
  have "find_empty n nf (n - 1) 0 (probe n (h mod n) 0) = Inr (probe n (h mod n) e)"
    by (rule find_empty_first) (use assms e in auto)
  then show thesis using that e assms(1) by (simp add: mask_mod_Suc probe_0)
qed

text \<open>There is room as long as an entry is in the hand.\<close>

lemma rehash_room:
  assumes "rehash_inv kv hv ok n B C (flags, ks, vs, nf)" and "size B < n"
  shows "\<exists>i < n. fst (nf ! i)"
proof (rule ccontr)
  assume "\<not> ?thesis"
  then have "occ_ix nf = {..<n}" using assms(1) by (auto simp: occ_ix_iff rehash_inv_def)
  moreover have "card (occ_ix nf) \<le> size B"
    using assms(1) by (auto simp: rehash_inv_def size_bag)
  ultimately show False using assms(2) by simp
qed

text \<open>The bucket that was found for the key in the hand is a place for it.\<close>

lemma rehash_place:
  assumes inv: "rehash_inv kv hv ok n B C (flags, ks, vs, nf)" and key: "ok key"
    and e: "e < n" "i = probe n (hv (kv key) mod n) e" "fst (nf ! i)"
      "\<And>t. t < e \<Longrightarrow> \<not> fst (nf ! probe n (hv (kv key) mod n) t)"
  shows "\<forall>j \<in> occ_ix (nf[i := ac_set_isempty_false (nf ! i)]).
     placed kv hv ok (nf[i := ac_set_isempty_false (nf ! i)]) (ks[i := Some key]) j"
proof
  let ?nf = "nf[i := ac_set_isempty_false (nf ! i)]"
  have len: "length nf = n" and n: "0 < n" and il: "i < n" "i < length ks"
    using inv e(2) by (auto simp: rehash_inv_def intro: less_le_trans [OF probe_less])
  have keep: "\<not> fst (?nf ! j)" if "\<not> fst (nf ! j)" for j
    using that il(1) len by (cases "j = i") (auto simp: ac_defs)
  have i': "\<not> fst (?nf ! i)" using il(1) len by (simp add: ac_defs)
  fix j assume "j \<in> occ_ix ?nf"
  then have "j = i \<or> j \<noteq> i \<and> j \<in> occ_ix nf" using occ_set [of i nf] il(1) len by auto
  then show "placed kv hv ok ?nf (ks[i := Some key]) j"
  proof
    assume "j = i"
    moreover have "\<forall>t < e. \<not> fst (?nf ! probe n (hv (kv key) mod n) t)" using e(4) keep by blast
    ultimately show ?thesis using key e(1,2) il len
      unfolding placed_def by (intro exI [of _ key] exI [of _ e]) simp
  next
    assume j: "j \<noteq> i \<and> j \<in> occ_ix nf"
    then have "placed kv hv ok nf ks j" using inv by (simp add: rehash_inv_def)
    then show ?thesis by (rule placed_mono) (use j keep in auto)
  qed
qed

section \<open>One entry\<close>

context hash_keys begin

lemma kick_step:
  assumes inv: "rehash_inv kv hv ok n B {#(Some key, val)#} (flags, ks, vs, nf)" and key: "ok key"
  obtains (kicked) i key' val' where "i \<in> live_ix flags" and "ok key'"
      and "\<And>fuel. kick (Suc fuel) hashf n key val (flags, ks, vs, nf) = kick fuel hashf n key' val'
          (flags[i := ac_set_isdel_true (flags ! i)], ks[i := Some key], vs[i := val], nf[i := ac_set_isempty_false (nf ! i)])"
      and "rehash_inv kv hv ok n B {#(Some key', val')#}
          (flags[i := ac_set_isdel_true (flags ! i)], ks[i := Some key], vs[i := val], nf[i := ac_set_isempty_false (nf ! i)])"
  | (placed) i where "\<And>fuel. kick (Suc fuel) hashf n key val (flags, ks, vs, nf) =
          Inr (flags, ks[i := Some key], vs[i := val], nf[i := ac_set_isempty_false (nf ! i)])"
      and "rehash_inv kv hv ok n B {#} (flags, ks[i := Some key], vs[i := val], nf[i := ac_set_isempty_false (nf ! i)])"
proof -
  note I = inv [unfolded rehash_inv_def prod.case]
  let ?a = "hv (kv key) mod n"
  have room: "\<exists>i < n. fst (nf ! i)" by (rule rehash_room [OF inv]) (use I in blast)
  obtain e where e: "e < n" "find_empty n nf (n - 1) 0 (hv (kv key) AND (n - 1)) = Inr (probe n ?a e)"
    "fst (nf ! probe n ?a e)" "\<And>t. t < e \<Longrightarrow> \<not> fst (nf ! probe n ?a t)"
    by (rule find_empty_found [of n nf "hv (kv key)"]) (use I room in blast)+
  define i where "i = probe n ?a e"
  let ?nf = "nf[i := ac_set_isempty_false (nf ! i)]" and ?fl = "flags[i := ac_set_isdel_true (flags ! i)]"
  have il: "i < n" "i < length nf" "i < length ks" "i < length vs"
    using I by (auto simp: i_def intro: less_le_trans [OF probe_less])
  have ni: "i \<notin> occ_ix nf" using e(3) by (simp add: occ_ix_iff i_def)
  have pl: "\<forall>j \<in> occ_ix ?nf. placed kv hv ok ?nf (ks[i := Some key]) j"
    by (rule rehash_place [OF inv key e(1) i_def]) (use e(3,4) in \<open>simp_all add: i_def\<close>)
  have occ: "occ_ix ?nf = insert i (occ_ix nf)" using occ_set il by blast
  have bo: "bag (ks[i := Some key]) (vs[i := val]) (occ_ix ?nf) = add_mset (Some key, val) (bag ks vs (occ_ix nf))"
    using ni il by (simp add: occ bag_insert)
  have snd': "\<forall>j < n. \<not> snd (?nf ! j)" using I il by (auto simp: nth_list_update ac_defs)
  have step: "kick (Suc fuel) hashf n key val (flags, ks, vs, nf) =
      (if i < length flags \<and> \<not> ac_iseither (flags ! i)
       then bnd (key_at ks i) (\<lambda>tmp_key. bnd (at vs i) (\<lambda>tmp_val.
          kick fuel hashf n tmp_key tmp_val (?fl, ks[i := Some key], vs[i := val], ?nf)))
       else Inr (flags, ks[i := Some key], vs[i := val], ?nf))" for fuel
    using il e(2) by (simp add: hash_ok key i_def [symmetric] Let_def)
  show thesis
  proof (cases "i \<in> live_ix flags")
    case True
    then obtain key' where k': "ks ! i = Some key'" "ok key'" using I by blast
    have fl: "live_ix ?fl = live_ix flags - {i}" using True by (intro live_del) (simp add: live_ix_iff)
    have "bag ks vs (live_ix flags) = add_mset (Some key', vs ! i) (bag ks vs (live_ix ?fl))"
      unfolding fl using bag_remove [of "live_ix flags" i ks vs] True k' by simp
    moreover have "bag (ks[i := Some key]) (vs[i := val]) (live_ix ?fl) = bag ks vs (live_ix ?fl)"
      by (rule bag_update) (simp add: fl)
    ultimately have "rehash_inv kv hv ok n B {#(Some key', vs ! i)#} (?fl, ks[i := Some key], vs[i := val], ?nf)"
      using I pl snd' bo unfolding rehash_inv_def prod.case by (auto simp: fl occ)
    moreover have "kick (Suc fuel) hashf n key val (flags, ks, vs, nf) =
        kick fuel hashf n key' (vs ! i) (?fl, ks[i := Some key], vs[i := val], ?nf)" for fuel
      unfolding step using True il k' by (simp add: live_ix_def)
    ultimately show thesis using kicked [OF True k'(2)] by blast
  next
    case False
    then have ni': "\<not> (i < length flags \<and> \<not> ac_iseither (flags ! i))" by (auto simp: live_ix_def)
    have "kick (Suc fuel) hashf n key val (flags, ks, vs, nf) =
        Inr (flags, ks[i := Some key], vs[i := val], ?nf)" for fuel
      unfolding step by (rule if_not_P) (rule ni')
    moreover have "\<forall>x \<in> live_ix flags. \<exists>k. ks[i := Some key] ! x = Some k \<and> ok k"
      using I False by (metis nth_list_update_neq)
    then have "rehash_inv kv hv ok n B {#} (flags, ks[i := Some key], vs[i := val], ?nf)"
      using I pl snd' bo False unfolding rehash_inv_def prod.case by (auto simp: occ)
    ultimately show thesis using placed by blast
  qed
qed

text \<open>An entry is placed after finitely many kicks.\<close>

lemma kick_done:
  assumes "rehash_inv kv hv ok n B {#(Some key, val)#} (flags, ks, vs, nf)" and "ok key"
    and "card (live_ix flags) < fuel"
  shows "\<exists>flags' ks' vs' nf'. kick fuel hashf n key val (flags, ks, vs, nf) = Inr (flags', ks', vs', nf') \<and>
     rehash_inv kv hv ok n B {#} (flags', ks', vs', nf') \<and> length flags' = length flags \<and>
     length ks' = length ks \<and> length vs' = length vs \<and> live_ix flags' \<subseteq> live_ix flags"
  using assms
proof (induction fuel arbitrary: key val flags ks vs nf)
  case (Suc fuel)
  from Suc.prems(1,2) show ?case
  proof (cases rule: kick_step)
    case (kicked i key' val')
    have i: "i < length flags" using kicked(1) by (simp add: live_ix_iff)
    have "card (live_ix flags - {i}) < fuel"
      using Suc.prems(3) kicked(1) by (simp add: card_Diff_singleton) (metis card_gt_0_iff finite_ix(1) empty_iff less_Suc_eq_0_disj Suc_pred not_less_eq)
    then have "card (live_ix (flags[i := ac_set_isdel_true (flags ! i)])) < fuel"
      using live_del [OF i] by simp
    from Suc.IH [OF kicked(4,2) this] show ?thesis
      unfolding kicked(3) live_del [OF i] by auto
  next
    case (placed i)
    then show ?thesis by auto
  qed
qed simp

section \<open>All entries\<close>

lemma rehash_loop_done:
  assumes "rehash_inv kv hv ok n B {#} (flags, ks, vs, nf)" and "\<forall>j \<in> set js. j < length flags"
  shows "\<exists>flags' ks' vs' nf'. rehash_loop hashf n js (flags, ks, vs, nf) = Inr (flags', ks', vs', nf') \<and>
     rehash_inv kv hv ok n B {#} (flags', ks', vs', nf') \<and> length flags' = length flags \<and>
     length ks' = length ks \<and> length vs' = length vs \<and> live_ix flags' \<subseteq> live_ix flags - set js"
  using assms
proof (induction js arbitrary: flags ks vs nf)
  case (Cons j js)
  note I = Cons.prems(1) [unfolded rehash_inv_def prod.case]
  have j: "j < length flags" using Cons.prems(2) by simp
  show ?case
  proof (cases "j \<in> live_ix flags")
    case False
    then have "ac_iseither (flags ! j)" using j by (simp add: live_ix_def)
    with Cons.IH [OF Cons.prems(1)] Cons.prems(2) j False show ?thesis by auto
  next
    case True
    then obtain key where key: "ks ! j = Some key" "ok key" using I by blast
    let ?fl = "flags[j := ac_set_isdel_true (flags ! j)]"
    have fl: "live_ix ?fl = live_ix flags - {j}" using j by (rule live_del)
    have "bag ks vs (live_ix flags) = add_mset (Some key, vs ! j) (bag ks vs (live_ix ?fl))"
      unfolding fl using bag_remove [of "live_ix flags" j ks vs] True key by simp
    then have inv: "rehash_inv kv hv ok n B {#(Some key, vs ! j)#} (?fl, ks, vs, nf)"
      using I unfolding rehash_inv_def prod.case by (auto simp: fl)
    have "card (live_ix ?fl) < Suc (length flags)" using card_ix(1) [of ?fl] by simp
    from kick_done [OF inv key(2) this] obtain flags1 ks1 vs1 nf1 where
      1: "kick (Suc (length flags)) hashf n key (vs ! j) (?fl, ks, vs, nf) = Inr (flags1, ks1, vs1, nf1)"
        "rehash_inv kv hv ok n B {#} (flags1, ks1, vs1, nf1)" "length flags1 = length flags"
        "length ks1 = length ks" "length vs1 = length vs" "live_ix flags1 \<subseteq> live_ix flags - {j}"
      unfolding fl by auto
    have "\<not> ac_iseither (flags ! j)" using True by (simp add: live_ix_def)
    moreover have "j < length ks" "j < length vs" using j I by auto
    ultimately have step: "rehash_loop hashf n (j # js) (flags, ks, vs, nf) = rehash_loop hashf n js (flags1, ks1, vs1, nf1)"
      using 1(1) key j by (simp del: kick.simps)
    have "\<forall>i \<in> set js. i < length flags1" using Cons.prems(2) 1(3) by simp
    from Cons.IH [OF 1(2) this] obtain flags2 ks2 vs2 nf2 where
      2: "rehash_loop hashf n js (flags1, ks1, vs1, nf1) = Inr (flags2, ks2, vs2, nf2)"
        "rehash_inv kv hv ok n B {#} (flags2, ks2, vs2, nf2)" "length flags2 = length flags1"
        "length ks2 = length ks1" "length vs2 = length vs1" "live_ix flags2 \<subseteq> live_ix flags1 - set js"
      by blast
    have "live_ix flags2 \<subseteq> live_ix flags - set (j # js)" using 1(6) 2(6) unfolding list.set by blast
    with 2 1(3-5) show ?thesis unfolding step by simp
  qed
qed simp

end

end
