(* ===== verification/KhashPut.thy ===== *)
theory KhashPut
  imports KhashResize
begin

text \<open>
  The operations of the table, over the map it stands for: a resize keeps the map, an insertion
  finds or makes the bucket of its key, a removal takes the key out. Refused requests of memory
  change nothing of it.
\<close>

section \<open>Longer arrays\<close>

lemma kh_inv_arrays:
  assumes "kh_inv kv hv ok h" and "n_buckets h \<le> length ks" and "n_buckets h \<le> length vs"
    and "\<And>i. i < n_buckets h \<Longrightarrow> ks ! i = kh_keys h ! i" and "\<And>i. i < n_buckets h \<Longrightarrow> vs ! i = kh_vals h ! i"
  shows "kh_inv kv hv ok (h\<lparr>kh_keys := ks, kh_vals := vs\<rparr>)"
    and "kh_bag (h\<lparr>kh_keys := ks, kh_vals := vs\<rparr>) = kh_bag h"
proof -
  have l: "i < n_buckets h" if "i \<in> live_ix (kh_flags h)" for i
    using assms(1) that by (simp add: kh_inv_def live_ix_iff)
  have "placed kv hv ok (kh_flags h) ks i" if "i \<in> live_ix (kh_flags h)" for i
  proof (rule placed_mono)
    show "placed kv hv ok (kh_flags h) (kh_keys h) i" using assms(1) that by (simp add: kh_inv_def)
    show "ks ! i = kh_keys h ! i" using assms(4) l [OF that] by simp
  qed simp_all
  moreover have "inj_on (\<lambda>i. kv (the (kh_keys h ! i))) (live_ix (kh_flags h))"
    using assms(1) by (simp add: kh_inv_def)
  then have "inj_on (\<lambda>i. kv (the (ks ! i))) (live_ix (kh_flags h))"
    using assms(4) l by (simp add: inj_on_def)
  ultimately show "kh_inv kv hv ok (h\<lparr>kh_keys := ks, kh_vals := vs\<rparr>)"
    using assms(1-3) by (simp add: kh_inv_def)
  show "kh_bag (h\<lparr>kh_keys := ks, kh_vals := vs\<rparr>) = kh_bag h"
    unfolding kh_bag_def by simp (rule bag_cong, use assms(4,5) l in auto)
qed

lemma kh_map_bag_cong:
  assumes "kh_inv kv hv ok h" and "kh_inv kv hv ok h'" and "kh_bag h = kh_bag h'"
  shows "kh_map kv h = kh_map kv h'"
  using assms by (intro kh_map_cong) (auto simp: kh_inv_def)

lemma grow_nth: "i < length xs \<Longrightarrow> i < n \<Longrightarrow> grow n xs ! i = xs ! i"
  by (simp add: grow_def nth_append)

lemma length_grow: "length (grow n xs) = n"
  by (simp add: grow_def)

text \<open>Room for a larger table, as far as the allocator goes along.\<close>

lemma kh_room_cases:
  assumes inv: "kh_inv kv hv ok h" and n: "n_buckets h \<le> n"
  obtains b ks vs m' where "kh_room h n m = (b, h\<lparr>kh_keys := ks, kh_vals := vs\<rparr>, m')" and "mem_ahead m m'"
    and "kh_inv kv hv ok (h\<lparr>kh_keys := ks, kh_vals := vs\<rparr>)" and "kh_bag (h\<lparr>kh_keys := ks, kh_vals := vs\<rparr>) = kh_bag h"
    and "b \<longrightarrow> n \<le> length ks \<and> n \<le> length vs" and "(\<forall>k \<ge> brk m. avail m k) \<longrightarrow> b"
proof -
  let ?k = "kh_keys h" and ?v = "kh_vals h"
  let ?gk = "grow n ?k" and ?gv = "grow n ?v"
  have len: "n_buckets h \<le> length ?k" "n_buckets h \<le> length ?v" using inv by (simp_all add: kh_inv_def)
  note K = kh_inv_arrays [OF inv]
  have k0: "kh_inv kv hv ok (h\<lparr>kh_keys := ?k, kh_vals := ?v\<rparr>)" "kh_bag (h\<lparr>kh_keys := ?k, kh_vals := ?v\<rparr>) = kh_bag h"
    by (rule K; use len in simp)+
  have k1: "kh_inv kv hv ok (h\<lparr>kh_keys := ?gk, kh_vals := ?v\<rparr>)" "kh_bag (h\<lparr>kh_keys := ?gk, kh_vals := ?v\<rparr>) = kh_bag h"
    by (rule K; use len n in \<open>simp add: length_grow grow_nth\<close>)+
  have k2: "kh_inv kv hv ok (h\<lparr>kh_keys := ?gk, kh_vals := ?gv\<rparr>)" "kh_bag (h\<lparr>kh_keys := ?gk, kh_vals := ?gv\<rparr>) = kh_bag h"
    by (rule K; use len n in \<open>simp add: length_grow grow_nth\<close>)+
  have m: "mem_ahead m (m\<lparr>brk := Suc (brk m)\<rparr>)" "mem_ahead m (m\<lparr>brk := Suc (Suc (brk m))\<rparr>)"
    "mem_ahead m (m\<lparr>brk := Suc (Suc (Suc (brk m)))\<rparr>)" by (simp_all add: mem_ahead_def)
  show thesis
  proof (cases "avail m (brk m)")
    case False
    then have "kh_room h n m = (False, h\<lparr>kh_keys := ?k, kh_vals := ?v\<rparr>, m\<lparr>brk := Suc (brk m)\<rparr>)"
      by (simp add: kh_room_def alloc_request_def)
    from that [OF this m(1) k0] False show thesis by auto
  next
    case a0: True
    show thesis
    proof (cases "n_buckets h < n")
      case False
      with a0 have "kh_room h n m = (True, h\<lparr>kh_keys := ?k, kh_vals := ?v\<rparr>, m\<lparr>brk := Suc (brk m)\<rparr>)"
        by (simp add: kh_room_def alloc_request_def)
      from that [OF this m(1) k0] False n len show thesis by simp
    next
      case less: True
      show thesis
      proof (cases "avail m (Suc (brk m))")
        case False
        with a0 less have kr: "kh_room h n m = (False, h\<lparr>kh_keys := ?k, kh_vals := ?v\<rparr>, m\<lparr>brk := Suc (Suc (brk m))\<rparr>)"
          by (simp add: kh_room_def alloc_request_def)
        have "\<not> (\<forall>k \<ge> brk m. avail m k)" using False le_SucI by blast
        with that [OF kr m(2) k0] show thesis by blast
      next
        case a1: True
        show thesis
        proof (cases "avail m (Suc (Suc (brk m)))")
          case False
          with a0 a1 less have kr: "kh_room h n m =
              (False, h\<lparr>kh_keys := ?gk, kh_vals := ?v\<rparr>, m\<lparr>brk := Suc (Suc (Suc (brk m)))\<rparr>)"
            by (simp add: kh_room_def alloc_request_def Let_def)
          have "\<not> (\<forall>k \<ge> brk m. avail m k)" using False le_SucI by blast
          with that [OF kr m(3) k1] show thesis by blast
        next
          case True
          with a0 a1 less have "kh_room h n m =
              (True, h\<lparr>kh_keys := ?gk, kh_vals := ?gv\<rparr>, m\<lparr>brk := Suc (Suc (Suc (brk m)))\<rparr>)"
            by (simp add: kh_room_def alloc_request_def Let_def)
          from that [OF this m(3) k2] show thesis by (simp add: length_grow)
        qed
      qed
    qed
  qed
qed

section \<open>The resize\<close>

context hash_keys begin

lemma rehash_all:
  fixes h :: "('k, 'v) khash"
  assumes inv: "kh_inv kv hv ok h" and n: "pow2 n" "n_buckets h \<le> n" "kh_size h < upper_of n"
    and len: "n \<le> length (kh_keys h)" "n \<le> length (kh_vals h)"
  obtains fl ks vs nf where "rehash_loop hashf n [0..<n_buckets h]
        (kh_flags h, kh_keys h, kh_vals h, replicate n (True, False)) = Inr (fl, ks, vs, nf)"
    and "kh_inv kv hv ok (h\<lparr>kh_keys := ks, kh_vals := vs, kh_flags := nf, n_buckets := n,
        n_occupied := kh_size h, upper_bound := upper_of n\<rparr>)"
    and "kh_bag (h\<lparr>kh_keys := ks, kh_vals := vs, kh_flags := nf, n_buckets := n,
        n_occupied := kh_size h, upper_bound := upper_of n\<rparr>) = kh_bag h"
proof -
  let ?nf = "replicate n (True, False) :: kflag list"
  have occ: "occ_ix ?nf = {}" by (auto simp: occ_ix_iff)
  have fl: "length (kh_flags h) = n_buckets h" using inv by (simp add: kh_inv_def)
  have "size (kh_bag h) = kh_size h" using inv by (simp add: kh_bag_def size_bag kh_inv_def)
  then have sz: "size (kh_bag h) < n" using n(3) upper_of_less [OF pow2_ge, OF n(1)] by simp
  have "\<exists>k. kh_keys h ! i = Some k \<and> ok k" if "i \<in> live_ix (kh_flags h)" for i
    using kh_inv_live [OF inv that] by metis
  then have R: "rehash_inv kv hv ok n (kh_bag h) {#} (kh_flags h, kh_keys h, kh_vals h, ?nf)"
    using inv n len sz unfolding rehash_inv_def prod.case by (auto simp: occ kh_bag_def kh_inv_def)
  have "\<forall>j \<in> set [0..<n_buckets h]. j < length (kh_flags h)" using fl by simp
  from rehash_loop_done [OF R this] obtain fl' ks vs nf where
    1: "rehash_loop hashf n [0..<n_buckets h] (kh_flags h, kh_keys h, kh_vals h, ?nf) = Inr (fl', ks, vs, nf)"
      "rehash_inv kv hv ok n (kh_bag h) {#} (fl', ks, vs, nf)" "length fl' = length (kh_flags h)"
      "live_ix fl' \<subseteq> live_ix (kh_flags h) - set [0..<n_buckets h]" by blast
  note I = 1(2) [unfolded rehash_inv_def prod.case]
  have "live_ix fl' = {}" using 1(4) fl by (auto simp: live_ix_iff)
  then have B: "bag ks vs (occ_ix nf) = kh_bag h" using I by simp
  have lo: "live_ix nf = occ_ix nf"
    using I by (auto simp: live_ix_iff occ_ix_iff prod_eq_iff)
  have "bag_distinct kv (kh_bag h)"
    using inv bag_distinct_iff [of "live_ix (kh_flags h)" kv "kh_keys h" "kh_vals h"] by (simp add: kh_bag_def kh_inv_def)
  then have inj: "inj_on (\<lambda>i. kv (the (ks ! i))) (live_ix nf)"
    unfolding B [symmetric] lo by (subst (asm) bag_distinct_iff) simp_all
  have card: "card (occ_ix nf) = kh_size h"
    using B \<open>size (kh_bag h) = kh_size h\<close> by (metis size_bag)
  show thesis
  proof (rule that [OF 1(1)])
    show "kh_bag (h\<lparr>kh_keys := ks, kh_vals := vs, kh_flags := nf, n_buckets := n,
        n_occupied := kh_size h, upper_bound := upper_of n\<rparr>) = kh_bag h"
      using B lo by (simp add: kh_bag_def)
    show "kh_inv kv hv ok (h\<lparr>kh_keys := ks, kh_vals := vs, kh_flags := nf, n_buckets := n,
        n_occupied := kh_size h, upper_bound := upper_of n\<rparr>)"
      using I inj card lo n by (auto simp: kh_inv_def)
  qed
qed

lemma kh_resize_keeps:
  fixes h :: "('k, 'v) khash"
  assumes inv: "kh_inv kv hv ok h"
    and new: "new_n = (if unat (kroundup32 (word_of_nat k)) < 4 then 4 else unat (kroundup32 (word_of_nat k)))"
    and n: "pow2 new_n" "n_buckets h \<le> new_n" "kh_size h < upper_of new_n"
  obtains r h' m' where "kh_resize hashf h k m = Inr (r, h', m')" and "mem_ahead m m'"
    and "kh_inv kv hv ok h'" and "kh_map kv h' = kh_map kv h" and "kh_size h' = kh_size h"
    and "r = 0 \<and> n_buckets h' = new_n \<and> n_occupied h' = kh_size h \<or>
         r = - 1 \<and> n_buckets h' = n_buckets h \<and> \<not> (\<forall>k \<ge> brk m. avail m k)"
proof -
  obtain b ks vs m1 where 1: "kh_room h new_n m = (b, h\<lparr>kh_keys := ks, kh_vals := vs\<rparr>, m1)" "mem_ahead m m1"
    "kh_inv kv hv ok (h\<lparr>kh_keys := ks, kh_vals := vs\<rparr>)" "kh_bag (h\<lparr>kh_keys := ks, kh_vals := vs\<rparr>) = kh_bag h"
    "b \<longrightarrow> new_n \<le> length ks \<and> new_n \<le> length vs" "(\<forall>k \<ge> brk m. avail m k) \<longrightarrow> b"
    by (rule kh_room_cases [OF inv n(2), of m])
  let ?h = "h\<lparr>kh_keys := ks, kh_vals := vs\<rparr>"
  show thesis
  proof (cases b)
    case False
    then have "kh_resize hashf h k m = Inr (- 1, ?h, m1)"
      using n(3) 1(1) by (simp add: kh_resize_def Let_def new [symmetric])
    moreover have "kh_map kv ?h = kh_map kv h" using 1(3) inv 1(4) by (rule kh_map_bag_cong)
    moreover have "\<not> (\<forall>k \<ge> brk m. avail m k)" using 1(6) False by blast
    ultimately show thesis using that 1(2,3) by simp
  next
    case True
    have pre: "n_buckets ?h \<le> new_n" "kh_size ?h < upper_of new_n" "new_n \<le> length (kh_keys ?h)" "new_n \<le> length (kh_vals ?h)"
      using n 1(5) True by simp_all
    obtain fl ks' vs' nf where 2: "rehash_loop hashf new_n [0..<n_buckets ?h]
        (kh_flags ?h, kh_keys ?h, kh_vals ?h, replicate new_n (True, False)) = Inr (fl, ks', vs', nf)"
      "kh_inv kv hv ok (?h\<lparr>kh_keys := ks', kh_vals := vs', kh_flags := nf, n_buckets := new_n,
        n_occupied := kh_size ?h, upper_bound := upper_of new_n\<rparr>)"
      "kh_bag (?h\<lparr>kh_keys := ks', kh_vals := vs', kh_flags := nf, n_buckets := new_n,
        n_occupied := kh_size ?h, upper_bound := upper_of new_n\<rparr>) = kh_bag ?h"
      by (rule rehash_all [OF 1(3) n(1) pre])
    let ?h' = "?h\<lparr>kh_keys := ks', kh_vals := vs', kh_flags := nf, n_buckets := new_n,
        n_occupied := kh_size ?h, upper_bound := upper_of new_n\<rparr>"
    have "kh_resize hashf h k m = Inr (0, ?h', m1)"
      using n(2,3) 1(1) True 2(1) by (simp add: kh_resize_def Let_def new [symmetric])
    moreover have "kh_map kv ?h' = kh_map kv h"
      using 2(2) inv 2(3) 1(4) by (intro kh_map_bag_cong) simp_all
    ultimately show thesis using that 1(2) 2(2) by simp
  qed
qed

text \<open>The two resizes an insertion asks for make room for one more entry.\<close>

lemma put_resize:
  fixes h :: "('k, 'v) khash"
  assumes inv: "kh_inv kv hv ok h" and full: "n_occupied h \<ge> upper_bound h" and small: "n_buckets h < 2 ^ 31"
  obtains r h' m' where
    "kh_resize hashf h (if n_buckets h > 2 * kh_size h then n_buckets h - 1 else n_buckets h + 1) m = Inr (r, h', m')"
    and "mem_ahead m m'" and "kh_inv kv hv ok h'" and "kh_map kv h' = kh_map kv h"
    and "r = 0 \<and> n_occupied h' < upper_bound h' \<and> n_buckets h' \<noteq> 0 \<or> r = - 1 \<and> \<not> (\<forall>k \<ge> brk m. avail m k)"
    and "n_buckets h' \<le> 2 * n_buckets h + 4"
proof -
  let ?k = "if n_buckets h > 2 * kh_size h then n_buckets h - 1 else n_buckets h + 1"
  define new_n where "new_n = (if unat (kroundup32 (word_of_nat ?k)) < 4 then 4 else unat (kroundup32 (word_of_nat ?k)))"
  have "card (live_ix (kh_flags h)) \<le> card (occ_ix (kh_flags h))"
    by (rule card_mono [OF _ live_occ]) simp
  then have so: "kh_size h \<le> n_occupied h" using inv by (simp add: kh_inv_def)
  have new: "pow2 new_n \<and> n_buckets h \<le> new_n \<and> kh_size h < upper_of new_n \<and> new_n \<le> 2 * n_buckets h + 4"
  proof (cases "n_buckets h = 0")
    case True
    have "pow2 4" by (auto simp: pow2_def intro!: exI [of _ 2])
    moreover have "kh_size h = 0" using inv so True by (simp add: kh_inv_def live_ix_def)
    ultimately show ?thesis using True kroundup32_1 by (simp add: new_n_def upper_of_def)
  next
    case False
    then have p2: "pow2 (n_buckets h)" and up: "n_occupied h \<le> upper_of (n_buckets h)"
      using inv by (simp_all add: kh_inv_def)
    note ge = pow2_ge [OF p2]
    show ?thesis
    proof (cases "n_buckets h > 2 * kh_size h")
      case True
      then have "new_n = n_buckets h"
        unfolding new_n_def if_P [OF True] kroundup32_pred(1) [OF p2 small] using ge by simp
      with p2 True upper_of_half [OF ge] show ?thesis by simp
    next
      case False
      then have "new_n = 2 * n_buckets h"
        unfolding new_n_def if_not_P [OF False] kroundup32_pred(2) [OF p2 small] using ge by simp
      with pow2_double [OF p2] so up upper_of_double [OF ge] show ?thesis by simp
    qed
  qed
  obtain r h' m' where 1: "kh_resize hashf h ?k m = Inr (r, h', m')" "mem_ahead m m'" "kh_inv kv hv ok h'"
    "kh_map kv h' = kh_map kv h" "kh_size h' = kh_size h"
    "r = 0 \<and> n_buckets h' = new_n \<and> n_occupied h' = kh_size h \<or>
     r = - 1 \<and> n_buckets h' = n_buckets h \<and> \<not> (\<forall>k \<ge> brk m. avail m k)"
    by (rule kh_resize_keeps [OF inv new_n_def, of m]) (use new in auto)
  have "n_occupied h' < upper_bound h' \<and> n_buckets h' \<noteq> 0" if "n_buckets h' = new_n" "n_occupied h' = kh_size h"
    using that 1(3) new by (auto simp: kh_inv_def)
  moreover have "n_buckets h' \<le> 2 * n_buckets h + 4" using 1(6) new by auto
  ultimately show thesis using that [OF 1(1-4)] 1(6) by blast
qed

section \<open>The bucket of an insertion\<close>

text \<open>
  The bucket for a key: that of the key, if the table has it; otherwise the empty bucket at the
  end of the search, or a deleted one that was passed.
\<close>

definition good_site :: "('k, 'v) khash \<Rightarrow> nat \<Rightarrow> nat \<Rightarrow> nat \<Rightarrow> bool" where
  "good_site h a e x \<longleftrightarrow>
     x = probe (n_buckets h) a e \<or>
     (fst (kh_flags h ! probe (n_buckets h) a e) \<and> (\<exists>t < e. x = probe (n_buckets h) a t \<and> snd (kh_flags h ! x)))"

lemma put_loop_step:
  fixes h :: "('k, 'v) khash"
  assumes "kh_inv kv hv ok h" and "ok q" and "i < n_buckets h"
  shows "put_loop (Suc fuel) eqf h q a s site i =
     (if fst (kh_flags h ! i) then Inr (if site \<noteq> n_buckets h then site else i)
      else if stop h q i then Inr i
      else let site = (if snd (kh_flags h ! i) then i else site); j = (i + Suc s) AND (n_buckets h - 1) in
        if j = a then Inr (if site = n_buckets h then j else site) else put_loop fuel eqf h q a (Suc s) site j)"
proof -
  have "i < length (kh_flags h)" using assms(1,3) by (simp add: kh_inv_def)
  then show ?thesis
    using same_step [OF assms] by (cases "fst (kh_flags h ! i)") (simp_all add: ac_isempty_def ac_isdel_def Let_def)
qed

lemma put_loop_stop:
  fixes h :: "('k, 'v) khash"
  assumes inv: "kh_inv kv hv ok h" and q: "ok q" and n: "n_buckets h \<noteq> 0" and a: "a < n_buckets h"
    and e: "e < n_buckets h" "stop h q (probe (n_buckets h) a e)"
      "\<And>t. t < e \<Longrightarrow> \<not> stop h q (probe (n_buckets h) a t)"
  shows "s \<le> e \<Longrightarrow> e - s < fuel \<Longrightarrow>
     site = n_buckets h \<or> (\<exists>t < s. site = probe (n_buckets h) a t \<and> snd (kh_flags h ! site)) \<Longrightarrow>
     \<exists>x. put_loop fuel eqf h q a s site (probe (n_buckets h) a s) = Inr x \<and> good_site h a e x"
proof (induction fuel arbitrary: s site)
  case (Suc fuel)
  let ?p = "probe (n_buckets h) a"
  have p2: "pow2 (n_buckets h)" using inv n by (simp add: kh_inv_def)
  have less: "?p s < n_buckets h" using n by simp
  show ?case
  proof (cases "s = e")
    case True
    then show ?thesis using e(2) put_loop_step [OF inv q less, of fuel a s site] Suc.prems(3)
      by (auto simp: good_site_def)
  next
    case False
    with Suc.prems e have s: "Suc s \<le> e" "\<not> stop h q (?p s)" by auto
    then have nf: "\<not> fst (kh_flags h ! ?p s)" by (simp add: stop_def)
    let ?site = "if snd (kh_flags h ! ?p s) then ?p s else site"
    have "(?p s + Suc s) AND (n_buckets h - 1) = ?p (Suc s)"
      using mask_mod [OF p2] probe_Suc [of "n_buckets h" a s] by simp
    moreover have "?p (Suc s) \<noteq> a" using probe_not_start [OF p2 a] s(1) e(1) by simp
    ultimately have "put_loop (Suc fuel) eqf h q a s site (?p s) = put_loop fuel eqf h q a (Suc s) ?site (?p (Suc s))"
      using put_loop_step [OF inv q less, of fuel a s site] nf s(2) by (simp add: Let_def)
    moreover have "?site = n_buckets h \<or> (\<exists>t < Suc s. ?site = ?p t \<and> snd (kh_flags h ! ?site))"
      using Suc.prems(3) by (auto intro: less_SucI)
    ultimately show ?thesis using Suc.IH [OF s(1), of ?site] Suc.prems(2) s(1) by simp
  qed
qed simp

lemma put_bucket_good:
  fixes h :: "('k, 'v) khash"
  assumes inv: "kh_inv kv hv ok h" and q: "ok q" and n: "n_buckets h \<noteq> 0"
  obtains e x where "e < n_buckets h" and "stop h q (probe (n_buckets h) (hv (kv q) mod n_buckets h) e)"
    and "\<And>t. t < e \<Longrightarrow> \<not> stop h q (probe (n_buckets h) (hv (kv q) mod n_buckets h) t)"
    and "put_bucket hashf eqf h q = Inr x" and "good_site h (hv (kv q) mod n_buckets h) e x"
proof -
  let ?a = "hv (kv q) mod n_buckets h"
  have p2: "pow2 (n_buckets h)" and a: "?a < n_buckets h" and len: "length (kh_flags h) = n_buckets h"
    using inv n by (simp_all add: kh_inv_def)
  obtain e where e: "e < n_buckets h" "stop h q (probe (n_buckets h) ?a e)"
    "\<And>t. t < e \<Longrightarrow> \<not> stop h q (probe (n_buckets h) ?a t)"
    by (rule first_stop [OF inv n, of q ?a]) blast
  from put_loop_stop [OF inv q n a e, of 0 "2 * n_buckets h" "n_buckets h"] e(1) obtain x where
    x: "put_loop (2 * n_buckets h) eqf h q ?a 0 (n_buckets h) ?a = Inr x" "good_site h ?a e x"
    by (auto simp: probe_0 [OF a])
  show thesis
  proof (cases "fst (kh_flags h ! ?a)")
    case True
    then have "stop h q (probe (n_buckets h) ?a 0)" by (simp add: probe_0 [OF a] stop_def)
    with e(3) [of 0] have "e = 0" by blast
    then have "good_site h ?a e ?a" by (simp add: good_site_def probe_0 [OF a])
    moreover have "put_bucket hashf eqf h q = Inr ?a"
      using True a len by (simp add: put_bucket_def hash_ok q mask_mod_Suc [OF p2] ac_isempty_def)
    ultimately show thesis using that e by blast
  next
    case False
    then have "put_bucket hashf eqf h q = Inr x"
      using a len x(1) by (simp add: put_bucket_def hash_ok q mask_mod_Suc [OF p2] ac_isempty_def)
    with x(2) that e show thesis by blast
  qed
qed

section \<open>The insertion\<close>

lemma fresh_entry:
  assumes inv: "kh_inv kv hv ok h" and q: "ok q" and new: "kh_map kv h (kv q) = None"
    and t: "t < n_buckets h" "x = probe (n_buckets h) (hv (kv q) mod n_buckets h) t"
      "\<forall>u < t. \<not> fst (kh_flags h ! probe (n_buckets h) (hv (kv q) mod n_buckets h) u)"
    and x: "x \<notin> live_ix (kh_flags h)"
    and h': "h' = h\<lparr>kh_keys := (kh_keys h)[x := Some q], kh_flags := (kh_flags h)[x := (False, False)],
        kh_size := kh_size h + 1, n_occupied := occ\<rparr>"
    and occ: "occ = card (occ_ix ((kh_flags h)[x := (False, False)]))" "occ \<le> upper_bound h"
  shows "kh_inv kv hv ok h'" and "x \<in> live_ix (kh_flags h')" and "kh_keys h' ! x = Some q"
    and "kh_map kv h' = (kh_map kv h)(kv q \<mapsto> kh_vals h' ! x)"
proof -
  let ?fl = "(kh_flags h)[x := (False, False)]" and ?ks = "(kh_keys h)[x := Some q]"
  let ?p = "probe (n_buckets h) (hv (kv q) mod n_buckets h)"
  have len: "length (kh_flags h) = n_buckets h" "n_buckets h \<le> length (kh_keys h)" using inv by (simp_all add: kh_inv_def)
  have xl: "x < n_buckets h" unfolding t(2) using t(1) by (intro probe_less) linarith
  have live: "live_ix ?fl = insert x (live_ix (kh_flags h))"
    using xl len by (auto simp: live_ix_iff nth_list_update split: if_splits)
  have keep: "\<not> fst (?fl ! j)" if "\<not> fst (kh_flags h ! j)" for j
    using that xl len by (cases "j = x") auto
  have kx: "?ks ! x = Some q" using xl len by simp
  have ko: "?ks ! i = kh_keys h ! i" if "i \<in> live_ix (kh_flags h)" for i using that x by (metis nth_list_update_neq)
  have "placed kv hv ok ?fl ?ks i" if "i \<in> live_ix ?fl" for i
  proof (cases "i = x")
    case True
    have "\<forall>u < t. \<not> fst (?fl ! ?p u)" using t(3) keep by blast
    with True t(1,2) q kx len show ?thesis unfolding placed_def by (intro exI [of _ q] exI [of _ t]) simp
  next
    case False
    with that live have i: "i \<in> live_ix (kh_flags h)" by simp
    then have "placed kv hv ok (kh_flags h) (kh_keys h) i" using inv by (simp add: kh_inv_def)
    then show ?thesis by (rule placed_mono) (use ko [OF i] keep in simp_all)
  qed
  moreover have inj: "inj_on (\<lambda>i. kv (the (?ks ! i))) (live_ix ?fl)"
  proof -
    have "inj_on (\<lambda>i. kv (the (kh_keys h ! i))) (live_ix (kh_flags h))" using inv by (simp add: kh_inv_def)
    then have "inj_on (\<lambda>i. kv (the (?ks ! i))) (live_ix (kh_flags h))" using ko by (simp add: inj_on_def)
    moreover have "kv q \<notin> (\<lambda>i. kv (the (?ks ! i))) ` live_ix (kh_flags h)"
      using new ko by (auto simp: kh_map_eq_None_iff)
    ultimately show ?thesis unfolding live using x kx by simp
  qed
  moreover have "card (live_ix ?fl) = kh_size h + 1" using inv x by (simp add: live kh_inv_def)
  ultimately show inv': "kh_inv kv hv ok h'"
    using inv occ unfolding h' by (simp add: kh_inv_def)
  show "x \<in> live_ix (kh_flags h')" "kh_keys h' ! x = Some q" using live kx by (simp_all add: h')
  show "kh_map kv h' = (kh_map kv h)(kv q \<mapsto> kh_vals h' ! x)"
  proof
    fix y
    have old: "inj_on (\<lambda>i. kv (the (kh_keys h ! i))) (live_ix (kh_flags h))" using inv by (simp add: kh_inv_def)
    have m: "kh_map kv h' y = Some v \<longleftrightarrow> (y = kv q \<and> kh_vals h ! x = v) \<or>
        (\<exists>i \<in> live_ix (kh_flags h). kv (the (kh_keys h ! i)) = y \<and> kh_vals h ! i = v)" for v
    proof -
      have "kh_map kv h' y = Some v \<longleftrightarrow> (\<exists>i \<in> live_ix ?fl. kv (the (?ks ! i)) = y \<and> kh_vals h ! i = v)"
        using kh_map_eq_Some_iff [of kv h' y v] inj by (simp add: h')
      also have "\<dots> \<longleftrightarrow> (y = kv q \<and> kh_vals h ! x = v) \<or>
          (\<exists>i \<in> live_ix (kh_flags h). kv (the (?ks ! i)) = y \<and> kh_vals h ! i = v)"
        unfolding live using kx by auto
      finally show ?thesis using ko by auto
    qed
    show "kh_map kv h' y = ((kh_map kv h)(kv q \<mapsto> kh_vals h' ! x)) y"
    proof (cases "y = kv q")
      case True
      then show ?thesis using m [of "kh_vals h ! x"] by (simp add: h')
    next
      case False
      then have "kh_map kv h' y = Some v \<longleftrightarrow> kh_map kv h y = Some v" for v
        using m kh_map_eq_Some_iff [of kv h, OF old] by simp
      with False show ?thesis by (metis fun_upd_other option.exhaust)
    qed
  qed
qed

lemma put_key_good:
  fixes h :: "('k, 'v) khash"
  assumes inv: "kh_inv kv hv ok h" and q: "ok q" and n: "n_buckets h \<noteq> 0" and room: "n_occupied h < upper_bound h"
  obtains x ret h' where "put_bucket hashf eqf h q = Inr x" and "put_key h q x = Inr (ret, h')" and "0 \<le> ret"
    and "kh_inv kv hv ok h'" and "x \<in> live_ix (kh_flags h')" and "n_buckets h' = n_buckets h"
    and "kh_map kv h' = (kh_map kv h)(kv q \<mapsto> kh_vals h' ! x)"
    and "ret = 0 \<longleftrightarrow> kh_map kv h (kv q) \<noteq> None" and "kv (the (kh_keys h' ! x)) = kv q"
proof -
  let ?a = "hv (kv q) mod n_buckets h"
  let ?p = "probe (n_buckets h) ?a"
  obtain e x where e: "e < n_buckets h" "stop h q (?p e)" "\<And>t. t < e \<Longrightarrow> \<not> stop h q (?p t)"
    and x: "put_bucket hashf eqf h q = Inr x" "good_site h ?a e x"
    by (rule put_bucket_good [OF inv q n]) blast
  have len: "length (kh_flags h) = n_buckets h" "n_buckets h \<le> length (kh_keys h)" using inv by (simp_all add: kh_inv_def)
  have "\<exists>t. t \<le> e \<and> x = ?p t" using x(2) by (auto simp: good_site_def intro: less_imp_le)
  then obtain t where t: "t \<le> e" "x = ?p t" by blast
  have xl: "x < n_buckets h" unfolding t(2) using n by simp
  have before: "\<forall>u < t. \<not> fst (kh_flags h ! ?p u)" using e(3) t(1) by (auto simp: stop_def)
  show thesis
  proof (cases "fst (kh_flags h ! ?p e)")
    case False
    then have l: "?p e \<in> live_ix (kh_flags h)" "kv (the (kh_keys h ! ?p e)) = kv q" and xe: "x = ?p e"
      using e(2) x(2) by (auto simp: stop_def good_site_def)
    have old: "inj_on (\<lambda>i. kv (the (kh_keys h ! i))) (live_ix (kh_flags h))" using inv by (simp add: kh_inv_def)
    have m: "kh_map kv h (kv q) = Some (kh_vals h ! x)"
      using l xe kh_map_eq_Some_iff [of kv h, OF old] by blast
    have pk: "put_key h q x = Inr (0, h)"
      using l(1) xe by (simp add: put_key_def live_ix_iff ac_defs)
    have mm: "kh_map kv h = (kh_map kv h)(kv q \<mapsto> kh_vals h ! x)" using m by (simp add: fun_upd_idem)
    show thesis by (rule that [OF x(1) pk _ inv _ refl mm]) (use m l xe in simp_all)
  next
    case empty: True
    have new: "kh_map kv h (kv q) = None"
    proof (rule ccontr)
      assume "kh_map kv h (kv q) \<noteq> None"
      then obtain i where i: "i \<in> live_ix (kh_flags h)" "kv (the (kh_keys h ! i)) = kv q"
        by (auto simp: kh_map_eq_None_iff)
      from stop_key [OF inv i e(2,3)] i(1) empty show False by (simp add: live_ix_iff)
    qed
    have xd: "x \<notin> live_ix (kh_flags h)" using x(2) empty by (auto simp: good_site_def live_ix_iff)
    have tn: "t < n_buckets h" using t(1) e(1) by simp
    show thesis
    proof (cases "fst (kh_flags h ! x)")
      case True
      let ?h = "h\<lparr>kh_keys := (kh_keys h)[x := Some q], kh_flags := (kh_flags h)[x := (False, False)],
          kh_size := kh_size h + 1, n_occupied := n_occupied h + 1\<rparr>"
      have "occ_ix ((kh_flags h)[x := (False, False)]) = insert x (occ_ix (kh_flags h))"
        using xl len by (auto simp: occ_ix_iff nth_list_update split: if_splits)
      then have oc: "n_occupied h + 1 = card (occ_ix ((kh_flags h)[x := (False, False)]))"
        using inv True by (simp add: kh_inv_def occ_ix_iff)
      have ol: "n_occupied h + 1 \<le> upper_bound h" using room by simp
      have pk: "put_key h q x = Inr (1, ?h)"
        using True xl len by (simp add: put_key_def ac_defs)
      note F = fresh_entry [OF inv q new tn t(2) before xd refl oc ol]
      show thesis by (rule that [OF x(1) pk _ F(1,2) _ F(4)]) (use F(3) new in simp_all)
    next
      case False
      let ?h = "h\<lparr>kh_keys := (kh_keys h)[x := Some q], kh_flags := (kh_flags h)[x := (False, False)],
          kh_size := kh_size h + 1, n_occupied := n_occupied h\<rparr>"
      have sn: "snd (kh_flags h ! x)" using False xd xl len by (cases "kh_flags h ! x") (auto simp: live_ix_iff)
      have "occ_ix ((kh_flags h)[x := (False, False)]) = occ_ix (kh_flags h)"
        using xl len False by (auto simp: occ_ix_iff nth_list_update split: if_splits)
      then have oc: "n_occupied h = card (occ_ix ((kh_flags h)[x := (False, False)]))"
        using inv by (simp add: kh_inv_def)
      have ol: "n_occupied h \<le> upper_bound h" using room by simp
      have pk: "put_key h q x = Inr (2, ?h)"
        using False sn xl len by (simp add: put_key_def ac_defs)
      note F = fresh_entry [OF inv q new tn t(2) before xd refl oc ol]
      show thesis by (rule that [OF x(1) pk _ F(1,2) _ F(4)]) (use F(3) new in simp_all)
    qed
  qed
qed

lemma kh_put_map:
  fixes h :: "('k, 'v) khash"
  assumes inv: "kh_inv kv hv ok h" and q: "ok q" and small: "n_buckets h < 2 ^ 31"
  obtains (refused) h' m' where "kh_put hashf eqf h q m = Inr (kh_end h', - 1, h', m')" and "mem_ahead m m'"
      and "kh_inv kv hv ok h'" and "kh_map kv h' = kh_map kv h" and "\<not> (\<forall>k \<ge> brk m. avail m k)"
  | (stored) x ret h' m' where "kh_put hashf eqf h q m = Inr (x, ret, h', m')" and "mem_ahead m m'" and "0 \<le> ret"
      and "kh_inv kv hv ok h'" and "x \<in> live_ix (kh_flags h')" and "kv (the (kh_keys h' ! x)) = kv q"
      and "kh_map kv h' = (kh_map kv h)(kv q \<mapsto> kh_vals h' ! x)" and "ret = 0 \<longleftrightarrow> kh_map kv h (kv q) \<noteq> None"
      and "n_buckets h' \<le> 2 * n_buckets h + 4"
proof -
  have room: "\<exists>r h1 m1. (if n_occupied h \<ge> upper_bound h
         then kh_resize hashf h (if n_buckets h > 2 * kh_size h then n_buckets h - 1 else n_buckets h + 1) m
         else Inr (0, h, m)) = Inr (r, h1, m1) \<and> mem_ahead m m1 \<and> kh_inv kv hv ok h1 \<and> kh_map kv h1 = kh_map kv h \<and>
      (r = 0 \<and> n_occupied h1 < upper_bound h1 \<and> n_buckets h1 \<noteq> 0 \<or> r = - 1 \<and> \<not> (\<forall>k \<ge> brk m. avail m k)) \<and>
      n_buckets h1 \<le> 2 * n_buckets h + 4"
  proof (cases "n_occupied h \<ge> upper_bound h")
    case True
    obtain r h1 m1 where
      "kh_resize hashf h (if n_buckets h > 2 * kh_size h then n_buckets h - 1 else n_buckets h + 1) m = Inr (r, h1, m1)"
      "mem_ahead m m1" "kh_inv kv hv ok h1" "kh_map kv h1 = kh_map kv h"
      "r = 0 \<and> n_occupied h1 < upper_bound h1 \<and> n_buckets h1 \<noteq> 0 \<or> r = - 1 \<and> \<not> (\<forall>k \<ge> brk m. avail m k)"
      "n_buckets h1 \<le> 2 * n_buckets h + 4"
      by (rule put_resize [OF inv True small, of m])
    with True show ?thesis by (intro exI [of _ r] exI [of _ h1] exI [of _ m1]) simp
  next
    case False
    moreover have "n_buckets h \<noteq> 0" using False inv by (intro notI) (simp add: kh_inv_def)
    ultimately show ?thesis using inv by simp
  qed
  then obtain r h1 m1 where 1: "(if n_occupied h \<ge> upper_bound h
         then kh_resize hashf h (if n_buckets h > 2 * kh_size h then n_buckets h - 1 else n_buckets h + 1) m
         else Inr (0, h, m)) = Inr (r, h1, m1)" "mem_ahead m m1" "kh_inv kv hv ok h1" "kh_map kv h1 = kh_map kv h"
      "r = 0 \<and> n_occupied h1 < upper_bound h1 \<and> n_buckets h1 \<noteq> 0 \<or> r = - 1 \<and> \<not> (\<forall>k \<ge> brk m. avail m k)"
      "n_buckets h1 \<le> 2 * n_buckets h + 4"
    by blast
  from 1(5) show thesis
  proof
    assume r: "r = - 1 \<and> \<not> (\<forall>k \<ge> brk m. avail m k)"
    then have "kh_put hashf eqf h q m = Inr (kh_end h1, - 1, h1, m1)"
      by (simp add: kh_put_def 1(1) kh_end_def del: One_nat_def)
    then show thesis using refused 1(2-4) r by blast
  next
    assume r: "r = 0 \<and> n_occupied h1 < upper_bound h1 \<and> n_buckets h1 \<noteq> 0"
    obtain x ret h2 where 2: "put_bucket hashf eqf h1 q = Inr x" "put_key h1 q x = Inr (ret, h2)" "0 \<le> ret"
      "kh_inv kv hv ok h2" "x \<in> live_ix (kh_flags h2)" "n_buckets h2 = n_buckets h1"
      "kh_map kv h2 = (kh_map kv h1)(kv q \<mapsto> kh_vals h2 ! x)"
      "ret = 0 \<longleftrightarrow> kh_map kv h1 (kv q) \<noteq> None" "kv (the (kh_keys h2 ! x)) = kv q"
      by (rule put_key_good [OF 1(3) q]) (use r in auto)
    have "kh_put hashf eqf h q m = Inr (x, ret, h2, m1)"
      using r 2(1,2) by (simp add: kh_put_def 1(1) del: One_nat_def)
    then show thesis using stored 1(2,4,6) 2 by simp
  qed
qed

end

section \<open>Values, removal, clearing\<close>

lemma kh_set_value_map:
  assumes inv: "kh_inv kv hv ok h" and x: "x \<in> live_ix (kh_flags h)"
  shows "kh_set_value h x v = Inr (h\<lparr>kh_vals := (kh_vals h)[x := Some v]\<rparr>)"
    and "kh_inv kv hv ok (h\<lparr>kh_vals := (kh_vals h)[x := Some v]\<rparr>)"
    and "kh_map kv (h\<lparr>kh_vals := (kh_vals h)[x := Some v]\<rparr>) = (kh_map kv h)(kv (the (kh_keys h ! x)) \<mapsto> Some v)"
proof -
  have xl: "x < length (kh_vals h)" using assms by (auto simp: kh_inv_def live_ix_iff)
  then show "kh_set_value h x v = Inr (h\<lparr>kh_vals := (kh_vals h)[x := Some v]\<rparr>)" by (simp add: kh_set_value_def)
  show "kh_inv kv hv ok (h\<lparr>kh_vals := (kh_vals h)[x := Some v]\<rparr>)" using inv by (simp add: kh_inv_def)
  have inj: "inj_on (\<lambda>i. kv (the (kh_keys h ! i))) (live_ix (kh_flags h))" using inv by (simp add: kh_inv_def)
  show "kh_map kv (h\<lparr>kh_vals := (kh_vals h)[x := Some v]\<rparr>) = (kh_map kv h)(kv (the (kh_keys h ! x)) \<mapsto> Some v)"
    (is "kh_map kv ?h = ?f")
  proof
    fix y
    have "kh_map kv ?h y = Some w \<longleftrightarrow> ?f y = Some w" for w
    proof -
      have inj': "inj_on (\<lambda>i. kv (the (kh_keys ?h ! i))) (live_ix (kh_flags ?h))" using inj by simp
      have "kh_map kv ?h y = Some w \<longleftrightarrow>
          (\<exists>i \<in> live_ix (kh_flags h). kv (the (kh_keys h ! i)) = y \<and> (kh_vals h)[x := Some v] ! i = w)"
        using kh_map_eq_Some_iff [of kv ?h, OF inj'] by simp
      also have "\<dots> \<longleftrightarrow> ?f y = Some w"
      proof (cases "y = kv (the (kh_keys h ! x))")
        case True
        have ix: "i = x" if "i \<in> live_ix (kh_flags h)" "kv (the (kh_keys h ! i)) = y" for i
          using inj_onD [OF inj, of i x] that x True by simp
        have "(\<exists>i \<in> live_ix (kh_flags h). kv (the (kh_keys h ! i)) = y \<and> (kh_vals h)[x := Some v] ! i = w) \<longleftrightarrow> Some v = w"
        proof
          assume "\<exists>i \<in> live_ix (kh_flags h). kv (the (kh_keys h ! i)) = y \<and> (kh_vals h)[x := Some v] ! i = w"
          then obtain i where "i \<in> live_ix (kh_flags h)" "kv (the (kh_keys h ! i)) = y" "(kh_vals h)[x := Some v] ! i = w"
            by blast
          then show "Some v = w" using ix xl by force
        next
          assume "Some v = w"
          then show "\<exists>i \<in> live_ix (kh_flags h). kv (the (kh_keys h ! i)) = y \<and> (kh_vals h)[x := Some v] ! i = w"
            using x True xl by (intro bexI [of _ x]) simp_all
        qed
        with True show ?thesis by simp
      next
        case False
        then have "(kh_vals h)[x := Some v] ! i = kh_vals h ! i" if "kv (the (kh_keys h ! i)) = y" for i
          using that by (metis nth_list_update_neq)
        then have "(\<exists>i \<in> live_ix (kh_flags h). kv (the (kh_keys h ! i)) = y \<and> (kh_vals h)[x := Some v] ! i = w) \<longleftrightarrow>
            kh_map kv h y = Some w"
          unfolding kh_map_eq_Some_iff [of kv h, OF inj] by (intro bex_cong) auto
        with False show ?thesis by simp
      qed
      finally show ?thesis .
    qed
    then show "kh_map kv ?h y = ?f y" by (metis option.exhaust)
  qed
qed

lemma kh_del_map:
  assumes inv: "kh_inv kv hv ok h" and x: "x \<in> live_ix (kh_flags h)"
  obtains h' where "kh_del h x = Inr h'" and "kh_inv kv hv ok h'"
    and "kh_map kv h' = (kh_map kv h)(kv (the (kh_keys h ! x)) := None)"
proof -
  let ?fl = "(kh_flags h)[x := ac_set_isdel_true (kh_flags h ! x)]"
  let ?h = "h\<lparr>kh_flags := ?fl, kh_size := kh_size h - 1\<rparr>"
  have xl: "x < length (kh_flags h)" "x \<noteq> n_buckets h" "kh_flags h ! x = (False, False)"
    using assms by (auto simp: kh_inv_def live_ix_iff)
  have live: "live_ix ?fl = live_ix (kh_flags h) - {x}" using xl(1) by (rule live_del)
  have occ: "occ_ix ?fl = occ_ix (kh_flags h)"
    using xl by (auto simp: occ_ix_iff ac_defs nth_list_update split: if_splits)
  have keep: "\<not> fst (?fl ! j)" if "\<not> fst (kh_flags h ! j)" for j
    using that xl by (cases "j = x") (auto simp: ac_defs)
  have inj: "inj_on (\<lambda>i. kv (the (kh_keys h ! i))) (live_ix (kh_flags h))" using inv by (simp add: kh_inv_def)
  have inj': "inj_on (\<lambda>i. kv (the (kh_keys h ! i))) (live_ix ?fl)"
    unfolding live using inj by (rule inj_on_subset) blast
  have "placed kv hv ok ?fl (kh_keys h) i" if "i \<in> live_ix ?fl" for i
  proof -
    have "placed kv hv ok (kh_flags h) (kh_keys h) i" using inv that unfolding live by (simp add: kh_inv_def)
    then show ?thesis by (rule placed_mono) (use keep in simp_all)
  qed
  moreover have "card (live_ix ?fl) = kh_size h - 1" unfolding live using inv x by (simp add: kh_inv_def)
  ultimately have inv': "kh_inv kv hv ok ?h" using inv inj' by (simp add: kh_inv_def occ)
  have "kh_map kv ?h = (kh_map kv h)(kv (the (kh_keys h ! x)) := None)" (is "_ = ?f")
  proof
    fix y
    have i2: "inj_on (\<lambda>i. kv (the (kh_keys ?h ! i))) (live_ix (kh_flags ?h))" using inj' by simp
    have "kh_map kv ?h y = Some w \<longleftrightarrow> ?f y = Some w" for w
    proof -
      have "kh_map kv ?h y = Some w \<longleftrightarrow>
          (\<exists>i \<in> live_ix (kh_flags h) - {x}. kv (the (kh_keys h ! i)) = y \<and> kh_vals h ! i = w)"
        using kh_map_eq_Some_iff [of kv ?h, OF i2] live by simp
      also have "\<dots> \<longleftrightarrow> ?f y = Some w"
        using inj_onD [OF inj, of _ x] x kh_map_eq_Some_iff [of kv h, OF inj] by auto
      finally show ?thesis .
    qed
    then show "kh_map kv ?h y = ?f y" by (metis option.exhaust)
  qed
  moreover have "kh_del h x = Inr ?h" using xl by (simp add: kh_del_def ac_defs)
  ultimately show thesis using that inv' by blast
qed

lemma kh_clear_map:
  assumes "kh_inv kv hv ok h"
  obtains h' where "kh_clear (Some h) = Some h'" and "kh_inv kv hv ok h'" and "kh_map kv h' = Map.empty"
proof (cases "kh_flags h = []")
  case True
  then have "kh_map kv h = Map.empty" by (simp add: kh_map_def)
  with True assms that show thesis by (simp add: kh_clear_def)
next
  case False
  let ?h = "h\<lparr>kh_flags := replicate (n_buckets h) (True, False), kh_size := 0, n_occupied := 0\<rparr>"
  have "live_ix (replicate (n_buckets h) (True, False)) = {}" "occ_ix (replicate (n_buckets h) (True, False)) = {}"
    by (auto simp: live_ix_iff occ_ix_iff)
  then have "kh_inv kv hv ok ?h" using assms by (simp add: kh_inv_def)
  moreover have "kh_map kv ?h = Map.empty" by (auto simp: kh_map_def ac_defs filter_empty_conv)
  ultimately show thesis using that False by (simp add: kh_clear_def)
qed

end
