(* ===== verification/ResourceProps.thy ===== *)
theory ResourceProps
  imports ResourceCache KhashPut StringOps
begin

text \<open>
  The table of resources is a map from the bytes of a path to a mapping; and what the cache
  answers with: the first request for a path gets the file, every later one nothing.
\<close>

section \<open>Paths as keys\<close>

text \<open>
  A path the table can handle: readable, shorter than 2 to the 31, and without a NUL. Two views
  with the same bytes in front of a NUL compare as equal whatever follows, but their hashes
  differ.
\<close>

definition path_value :: "mem \<Rightarrow> string_view_t \<Rightarrow> char list" where
  "path_value m sv = (case view_bytes m sv of Inl _ \<Rightarrow> [] | Inr bs \<Rightarrow> bs)"

definition path_hashval :: "char list \<Rightarrow> nat" where
  "path_hashval bs = unat (ucast (foldl hash_step 5381 bs) :: 32 word)"

definition path_ok :: "mem \<Rightarrow> string_view_t \<Rightarrow> bool" where
  "path_ok m sv \<longleftrightarrow>
     (case view_bytes m sv of Inl _ \<Rightarrow> False | Inr bs \<Rightarrow> NUL \<notin> set bs \<and> length bs < 2147483648)"

lemma path_ok_iff:
  "path_ok m sv \<longleftrightarrow> (\<exists>bs. view_bytes m sv = Inr bs \<and> NUL \<notin> set bs \<and> length bs < 2147483648)"
  by (auto simp: path_ok_def split: sum.splits)

lemma path_value_Inr [simp]: "view_bytes m sv = Inr bs \<Longrightarrow> path_value m sv = bs"
  by (simp add: path_value_def)

interpretation paths: hash_keys "path_hash m" "path_equal m" "path_value m" path_hashval "path_ok m" for m
proof
  fix q assume "path_ok m q"
  then obtain bs where "view_bytes m q = Inr bs" by (auto simp: path_ok_iff)
  then show "path_hash m q = Inr (path_hashval (path_value m q))"
    by (simp add: path_hash_def path_hashval_def string_view_hash_bytes)
next
  fix p q assume "path_ok m p" and "path_ok m q"
  then obtain xs ys where xy: "view_bytes m p = Inr xs" "NUL \<notin> set xs" "length xs < 2147483648"
    "view_bytes m q = Inr ys" "NUL \<notin> set ys" "length ys < 2147483648" by (auto simp: path_ok_iff)
  from string_view_compare_zero_iff [OF xy(1,4,3,6)] obtain c where
    "string_view_compare m p q = Inr c" "c = 0 \<longleftrightarrow> length xs = length ys \<and> cstr xs = cstr ys" by blast
  with xy show "path_equal m p q = Inr (path_value m p = path_value m q)"
    by (auto simp: path_equal_def string_view_equal_def cstr_id)
qed

section \<open>The table as a map\<close>

definition table_ok :: "mem \<Rightarrow> path2resmem \<Rightarrow> bool" where
  "table_ok m t \<longleftrightarrow> kh_inv (path_value m) path_hashval (path_ok m) t \<and>
     (\<forall>i \<in> live_ix (kh_flags t). kh_vals t ! i \<noteq> None)"

definition table_map :: "mem \<Rightarrow> path2resmem \<Rightarrow> char list \<Rightarrow> mapped_memory_t option" where
  "table_map m t bs = (case kh_map (path_value m) t bs of None \<Rightarrow> None | Some v \<Rightarrow> v)"

text \<open>What the code finds for a path.\<close>

definition path_lookup :: "mem \<Rightarrow> path2resmem \<Rightarrow> string_view_t \<Rightarrow> mapped_memory_t option res" where
  "path_lookup m t p =
     bnd (kh_get (path_hash m) (path_equal m) t p) (\<lambda>i.
     if i = kh_end t then Inr None else bnd (kh_value t i) (\<lambda>v. Inr (Some v)))"

lemma table_ok_zero [simp]: "table_ok m kh_zero"
  unfolding table_ok_def using kh_inv_zero by (simp add: kh_zero_def live_ix_def)

lemma table_map_zero [simp]: "table_map m kh_zero = Map.empty"
  by (simp add: table_map_def fun_eq_iff)

lemma table_value:
  assumes "table_ok m t" and "kh_map (path_value m) t bs = Some v"
  obtains i rm where "i \<in> live_ix (kh_flags t)" and "path_value m (the (kh_keys t ! i)) = bs"
    and "kh_vals t ! i = v" and "v = Some rm"
proof -
  have "inj_on (\<lambda>i. path_value m (the (kh_keys t ! i))) (live_ix (kh_flags t))"
    using assms(1) by (simp add: table_ok_def kh_inv_def)
  from assms(2) [unfolded kh_map_eq_Some_iff [of "path_value m" t, OF this]] obtain i where
    "i \<in> live_ix (kh_flags t)" "path_value m (the (kh_keys t ! i)) = bs" "kh_vals t ! i = v" by blast
  moreover from this assms(1) have "v \<noteq> None" by (auto simp: table_ok_def)
  ultimately show thesis using that by blast
qed

lemma table_map_None: "table_ok m t \<Longrightarrow> table_map m t bs = None \<longleftrightarrow> kh_map (path_value m) t bs = None"
  by (auto simp: table_map_def split: option.splits elim: table_value)

lemma path_get:
  assumes t: "table_ok m t" and p: "path_ok m p"
  shows "case table_map m t (path_value m p) of
       None \<Rightarrow> kh_get (path_hash m) (path_equal m) t p = Inr (kh_end t)
     | Some rm \<Rightarrow> \<exists>i. kh_get (path_hash m) (path_equal m) t p = Inr i \<and> i \<noteq> kh_end t \<and>
         i \<in> live_ix (kh_flags t) \<and> path_value m (the (kh_keys t ! i)) = path_value m p \<and> kh_value t i = Inr rm"
proof (cases "kh_map (path_value m) t (path_value m p)")
  case None
  have "kh_inv (path_value m) path_hashval (path_ok m) t" using t by (simp add: table_ok_def)
  from paths.kh_get_map [OF this p] None show ?thesis by (simp add: table_map_def)
next
  case (Some v)
  have inv: "kh_inv (path_value m) path_hashval (path_ok m) t" using t by (simp add: table_ok_def)
  obtain i rm where i: "i \<in> live_ix (kh_flags t)" "path_value m (the (kh_keys t ! i)) = path_value m p"
    "kh_vals t ! i = v" "v = Some rm" by (rule table_value [OF t Some])
  have "kh_get (path_hash m) (path_equal m) t p = Inr i" using inv p i(1,2) by (rule paths.kh_get_found)
  moreover have "i < length (kh_vals t)" "i \<noteq> kh_end t"
    using inv i(1) by (auto simp: kh_inv_def live_ix_iff kh_end_def)
  ultimately show ?thesis using Some i by (simp add: table_map_def kh_value_def)
qed

lemma path_lookup_map:
  assumes "table_ok m t" and "path_ok m p"
  shows "path_lookup m t p = Inr (table_map m t (path_value m p))"
proof (cases "table_map m t (path_value m p)")
  case None
  with path_get [OF assms] show ?thesis by (simp add: path_lookup_def)
next
  case (Some rm)
  with path_get [OF assms] obtain i where "kh_get (path_hash m) (path_equal m) t p = Inr i" "i \<noteq> kh_end t"
    "kh_value t i = Inr rm" by auto
  with Some show ?thesis by (simp add: path_lookup_def)
qed

text \<open>Storing a mapping under a path.\<close>

lemma path_store:
  assumes t: "table_ok m t" and q: "path_ok m q" and small: "n_buckets t < 2 ^ 31"
  obtains (refused) t' m' where "kh_put (path_hash m) (path_equal m) t q m = Inr (kh_end t', - 1, t', m')"
      and "mem_ahead m m'" and "\<not> (\<forall>k \<ge> brk m. avail m k)" and "table_ok m t'" and "table_map m t' = table_map m t"
  | (stored) x ret t1 m' t' where "kh_put (path_hash m) (path_equal m) t q m = Inr (x, ret, t1, m')"
      and "mem_ahead m m'" and "0 \<le> ret" and "ret = 0 \<longleftrightarrow> table_map m t (path_value m q) \<noteq> None"
      and "kh_set_value t1 x rm = Inr t'" and "table_ok m t'"
      and "table_map m t' = (table_map m t)(path_value m q \<mapsto> rm)" and "n_buckets t' \<le> 2 * n_buckets t + 4"
proof -
  have inv: "kh_inv (path_value m) path_hashval (path_ok m) t" using t by (simp add: table_ok_def)
  from inv q small show thesis
  proof (cases rule: paths.kh_put_map [of m t q m, case_names refused stored])
    case (refused t' m')
    have "table_ok m t'"
      unfolding table_ok_def
    proof (intro conjI ballI refused(3))
      fix i assume i: "i \<in> live_ix (kh_flags t')"
      from refused(3) i obtain k where "kh_map (path_value m) t' (path_value m k) = Some (kh_vals t' ! i)"
        by (rule kh_inv_live)
      with refused(4) have "kh_map (path_value m) t (path_value m k) = Some (kh_vals t' ! i)" by simp
      with t show "kh_vals t' ! i \<noteq> None" by (auto elim: table_value)
    qed
    moreover have "table_map m t' = table_map m t" by (simp add: table_map_def fun_eq_iff refused(4))
    ultimately show thesis using that(1) refused by blast
  next
    case (stored x ret t1 m')
    let ?t = "t1\<lparr>kh_vals := (kh_vals t1)[x := Some rm]\<rparr>"
    note S = kh_set_value_map [OF stored(4,5), of rm]
    have map: "kh_map (path_value m) ?t = (kh_map (path_value m) t)(path_value m q \<mapsto> Some rm)"
      using S(3) stored(6,7) by simp
    have "table_ok m ?t"
      unfolding table_ok_def
    proof (intro conjI ballI S(2))
      fix i assume i: "i \<in> live_ix (kh_flags ?t)"
      from S(2) i obtain k where k: "kh_map (path_value m) ?t (path_value m k) = Some (kh_vals ?t ! i)"
        by (rule kh_inv_live)
      show "kh_vals ?t ! i \<noteq> None"
      proof (cases "path_value m k = path_value m q")
        case True
        with k map show ?thesis by simp
      next
        case False
        with k map have "kh_map (path_value m) t (path_value m k) = Some (kh_vals ?t ! i)" by simp
        with t show ?thesis by (auto elim: table_value)
      qed
    qed
    moreover have "table_map m ?t = (table_map m t)(path_value m q \<mapsto> rm)"
      by (simp add: table_map_def fun_eq_iff map)
    moreover have "ret = 0 \<longleftrightarrow> table_map m t (path_value m q) \<noteq> None" using stored(8) table_map_None [OF t] by simp
    ultimately show thesis using stored(9) by (intro that(2) [OF stored(1-3) _ S(1)]) simp_all
  qed
qed

section \<open>The table while the memory changes\<close>

text \<open>Objects that come to life do not disturb the keys.\<close>

lemma path_ok_frame:
  assumes "frame {} m m'" and "path_ok m p"
  shows "path_ok m' p" and "path_value m' p = path_value m p"
proof -
  from assms(2) obtain bs where bs: "view_bytes m p = Inr bs" "NUL \<notin> set bs" "length bs < 2147483648"
    by (auto simp: path_ok_iff)
  have "view_bytes m' p = Inr bs" using assms(1) bs(1) by (rule frame_view) simp
  with bs show "path_ok m' p" "path_value m' p = path_value m p" by (auto simp: path_ok_iff)
qed

lemma table_frame:
  assumes f: "frame {} m m'" and t: "table_ok m t"
  shows "table_ok m' t" and "table_map m' t = table_map m t"
proof -
  let ?L = "live_ix (kh_flags t)"
  have inv: "kh_inv (path_value m) path_hashval (path_ok m) t" using t by (simp add: table_ok_def)
  have k: "path_ok m (the (kh_keys t ! i)) \<and> kh_keys t ! i \<noteq> None" if i: "i \<in> ?L" for i
    using inv i by (auto elim: kh_inv_live)
  have v: "path_value m' (the (kh_keys t ! i)) = path_value m (the (kh_keys t ! i))" if "i \<in> ?L" for i
    using path_ok_frame [OF f] k [OF that] by blast
  have "inj_on (\<lambda>i. path_value m (the (kh_keys t ! i))) ?L" using inv by (simp add: kh_inv_def)
  then have inj: "inj_on (\<lambda>i. path_value m' (the (kh_keys t ! i))) ?L" using v by (simp add: inj_on_def)
  have "placed (path_value m') path_hashval (path_ok m') (kh_flags t) (kh_keys t) i" if i: "i \<in> ?L" for i
  proof -
    have "placed (path_value m) path_hashval (path_ok m) (kh_flags t) (kh_keys t) i"
      using inv i by (simp add: kh_inv_def)
    then obtain key s where key: "kh_keys t ! i = Some key" "path_ok m key" "s < length (kh_flags t)"
      "probe (length (kh_flags t)) (path_hashval (path_value m key) mod length (kh_flags t)) s = i"
      "\<forall>u < s. \<not> fst (kh_flags t ! probe (length (kh_flags t)) (path_hashval (path_value m key) mod length (kh_flags t)) u)"
      unfolding placed_def by blast
    then show ?thesis unfolding placed_def
      using path_ok_frame [OF f key(2)] by (intro exI [of _ key] exI [of _ s]) simp
  qed
  with inv inj have "kh_inv (path_value m') path_hashval (path_ok m') t" by (simp add: kh_inv_def)
  then show "table_ok m' t" using t by (simp add: table_ok_def)
  have "kh_map (path_value m') t x = Some y \<longleftrightarrow> kh_map (path_value m) t x = Some y" for x y
    using kh_map_eq_Some_iff [of "path_value m'" t, OF inj] v
      kh_map_eq_Some_iff [of "path_value m" t, OF \<open>inj_on (\<lambda>i. path_value m (the (kh_keys t ! i))) ?L\<close>] by auto
  then have "kh_map (path_value m') t x = kh_map (path_value m) t x" for x by (metis option.exhaust)
  then show "table_map m' t = table_map m t" by (simp add: table_map_def fun_eq_iff)
qed

lemma mem_ahead_frame: "wf_mem m \<Longrightarrow> mem_ahead m m' \<Longrightarrow> frame {} m m'"
  by (auto simp: mem_ahead_def frame_def wf_mem_def)

section \<open>Opening a file\<close>

lemma frame_drop_buf:
  "frame B m m' \<Longrightarrow> blocks m (Buf b) = None \<Longrightarrow> frame B m (drop_buf b m')"
  by (auto simp: frame_def drop_buf_def wf_mem_def)

lemma cstr_at_block:
  assumes "block m b = Some bl" and "i \<le> length bl" and "NUL \<in> set (drop i bl)"
  shows "cstr_at m (Ptr b i) = Inr (cstr (drop i bl))"
proof -
  have "length (cstr (drop i bl)) \<le> length (drop i bl)" by (rule length_cstr_le)
  then have "i + length (cstr (drop i bl)) \<le> length bl" using assms(2) by simp
  moreover have "take (length (cstr xs)) xs = cstr xs" for xs by (induction xs) auto
  ultimately show ?thesis using assms
    by (simp add: cstr_at_def c_strlen_def tail_bytes_def load_bytes_def)
qed

text \<open>The copy of the path in the array.\<close>

lemma path_buffer:
  assumes wf: "wf_mem m" and bs: "view_bytes m path = Inr bs" "NUL \<notin> set bs"
    and nb: "new_buf (Suc (string_view_len path)) m = (b, m1)"
  shows "b = brk m" and "\<exists>m2. string_view_to_buf path (Ptr (Buf b) 0) (Suc (string_view_len path)) m1 = Inr (True, m2) \<and>
     cstr_at m2 (Ptr (Buf b) 0) = Inr bs \<and> frame {} m m2 \<and> brk m2 = Suc (brk m)"
proof -
  have len: "string_view_len path = length bs" using view_bytes_length [OF bs(1)] by (simp add: sv_defs)
  let ?m1 = "m\<lparr>blocks := (blocks m)(Buf (brk m) := Some (replicate (length bs + 1) NUL)), brk := Suc (brk m)\<rparr>"
  have b: "b = brk m" "m1 = ?m1" using nb by (auto simp: new_buf_def len)
  then show "b = brk m" by simp
  have f1: "frame {} m ?m1" using wf by (intro frame_alloc) auto
  have v1: "view_bytes ?m1 path = Inr bs" using f1 bs(1) by (rule frame_view) simp
  have off: "view_off path (Buf (brk m))" using bs(1) wf by (intro view_off_fresh) auto
  let ?m2 = "?m1\<lparr>blocks := (blocks ?m1)(Buf (brk m) := Some (bs @ [NUL]))\<rparr>"
  have "string_view_to_buf path (Ptr (Buf (brk m)) 0) (length (replicate (length bs + 1) NUL)) ?m1 =
      Inr (True, ?m1\<lparr>blocks := (blocks ?m1)(Buf (brk m) := Some (bs @ NUL # drop (Suc (length bs)) (replicate (length bs + 1) NUL)))\<rparr>)"
    by (rule string_view_to_buf_cases(1) [OF v1 _ off]) simp_all
  then have "string_view_to_buf path (Ptr (Buf b) 0) (Suc (string_view_len path)) m1 = Inr (True, ?m2)"
    using b len by simp
  moreover have "cstr_at ?m2 (Ptr (Buf b) 0) = Inr bs"
    using b bs(2) by (subst cstr_at_block [of _ _ "bs @ [NUL]"]) (simp_all add: cstr_append_NUL)
  moreover have "frame {} m ?m2" using f1 wf by (intro frame_fresh_update) auto
  ultimately show "\<exists>m2. string_view_to_buf path (Ptr (Buf b) 0) (Suc (string_view_len path)) m1 = Inr (True, m2) \<and>
     cstr_at m2 (Ptr (Buf b) 0) = Inr bs \<and> frame {} m m2 \<and> brk m2 = Suc (brk m)" by force
qed

text \<open>The bytes of a mapping of a file.\<close>

definition file_bytes :: "nat \<Rightarrow> char list \<Rightarrow> char list" where
  "file_bytes len cs = take len cs @ replicate (len - length cs) NUL"

lemma length_file_bytes [simp]: "length (file_bytes len cs) = len"
  by (simp add: file_bytes_def)

lemma file_bytes_0 [simp]: "file_bytes 0 cs = []"
  by (simp add: file_bytes_def)

lemma open_resource_maps:
  assumes wf: "wf_mem m" and bs: "view_bytes m path = Inr bs" "NUL \<notin> set bs"
    and r: "0 \<le> r_val (reply w 0)" "0 \<le> r_val (reply w 1)" "0 \<le> r_val (reply w 2)"
    and len: "len = stat_size (reply w 1)"
  obtains p m' where "open_resource path rm m w = Inr (http_success, \<lparr>mm_len = len, mm_data = p\<rparr>, m',
       w\<lparr>os_trace := os_trace w @ [Open bs, Fstat (r_val (reply w 0)), Mmap (r_val (reply w 0)) len, Close (r_val (reply w 0))]\<rparr>)"
    and "frame {} m m'" and "p \<noteq> NULL" and "load_bytes m' p len = Inr (file_bytes len (r_data (reply w 2)))"
    and "\<exists>k. p = Ptr (Heap k) 0"
proof -
  obtain b m1 where nb: "new_buf (Suc (string_view_len path)) m = (b, m1)" by force
  note b = path_buffer(1) [OF wf bs nb]
  obtain m2 where m2: "string_view_to_buf path (Ptr (Buf b) 0) (Suc (string_view_len path)) m1 = Inr (True, m2)"
    "cstr_at m2 (Ptr (Buf b) 0) = Inr bs" "frame {} m m2" "brk m2 = Suc (brk m)"
    using path_buffer(2) [OF wf bs nb] by blast
  let ?bl = "file_bytes len (r_data (reply w 2))"
  let ?p = "Ptr (Heap (brk m2)) 0"
  let ?m3 = "m2\<lparr>blocks := (blocks m2)(Heap (brk m2) := Some ?bl), brk := Suc (brk m2)\<rparr>"
  have f3: "frame {} m2 ?m3" using frame_wf [OF m2(3)] by (intro frame_alloc) auto
  have "frame {} m ?m3" using m2(3) f3 by (rule frame_trans) simp
  then have f: "frame {} m (drop_buf b ?m3)" using wf b by (intro frame_drop_buf) auto
  have "load_bytes (drop_buf b ?m3) ?p len = Inr ?bl" by (simp add: load_bytes_def drop_buf_def)
  moreover have "open_resource path rm m w = Inr (http_success, \<lparr>mm_len = len, mm_data = ?p\<rparr>, drop_buf b ?m3,
       w\<lparr>os_trace := os_trace w @ [Open bs, Fstat (r_val (reply w 0)), Mmap (r_val (reply w 0)) len, Close (r_val (reply w 0))]\<rparr>)"
    using r by (simp add: open_resource_def nb m2(1,2) Let_def map_block_def file_bytes_def reply_simps len not_less)
  ultimately show thesis using that f by blast
qed

lemma open_resource_missing:
  assumes wf: "wf_mem m" and bs: "view_bytes m path = Inr bs" "NUL \<notin> set bs" and r: "r_val (reply w 0) < 0"
  obtains m' where "open_resource path rm m w = Inr (http_err_open, rm, m', w\<lparr>os_trace := os_trace w @ [Open bs, Log HTTP_OPEN_ERR]\<rparr>)"
    and "frame {} m m'"
proof -
  obtain b m1 where nb: "new_buf (Suc (string_view_len path)) m = (b, m1)" by force
  note b = path_buffer(1) [OF wf bs nb]
  obtain m2 where m2: "string_view_to_buf path (Ptr (Buf b) 0) (Suc (string_view_len path)) m1 = Inr (True, m2)"
    "cstr_at m2 (Ptr (Buf b) 0) = Inr bs" "frame {} m m2"
    using path_buffer(2) [OF wf bs nb] by blast
  have "frame {} m (drop_buf b m2)" using m2(3) wf b by (intro frame_drop_buf) auto
  moreover have "open_resource path rm m w = Inr (http_err_open, rm, drop_buf b m2, w\<lparr>os_trace := os_trace w @ [Open bs, Log HTTP_OPEN_ERR]\<rparr>)"
    using r by (simp add: open_resource_def nb m2(1,2) Let_def reply_simps)
  ultimately show thesis using that by blast
qed

section \<open>What a request gets\<close>

text \<open>A path that is in the table: the call succeeds, and the caller's view is not written.\<close>

lemma get_resource_hit:
  assumes t: "table_ok m t" and p: "path_ok m path" and hit: "table_map m t (path_value m path) = Some rm"
    and r: "r_val (reply w 0) = 0" "r_val (reply w 1) = 0"
  shows "get_resource_cached path res (Some t) m w =
     Inr (http_success, res, Some t, m, w\<lparr>os_trace := os_trace w @ [Mutex_lock, Mutex_unlock]\<rparr>)"
proof -
  from path_get [OF t p] hit obtain i where i: "kh_get (path_hash m) (path_equal m) t path = Inr i"
    "i \<noteq> kh_end t" "kh_value t i = Inr rm" by auto
  then show ?thesis using r
    by (simp add: get_resource_cached_def get_resource_lazy_def reply_simps Let_def)
qed

text \<open>A path that is not in the table: the file is mapped, returned and stored.\<close>

lemma get_resource_miss:
  assumes wf: "wf_mem m" and t: "table_ok m t" and p: "path_ok m path" and small: "n_buckets t < 2 ^ 31"
    and av: "always_avail m" and new: "table_map m t (path_value m path) = None"
    and r: "r_val (reply w 0) = 0" "r_val (reply w 1) = 0" "0 \<le> r_val (reply w 2)" "0 \<le> r_val (reply w 3)"
      "0 \<le> r_val (reply w 4)" "r_val (reply w 6) = 0" "r_val (reply w 7) = 0"
    and len: "len = stat_size (reply w 3)"
  obtains res' t' m' w' rm where "get_resource_cached path res (Some t) m w = Inr (http_success, res', Some t', m', w')"
    and "view_bytes m' res' = Inr (file_bytes len (r_data (reply w 4)))" and "frame {} m m'"
    and "table_ok m' t'" and "table_map m' t' = (table_map m t)(path_value m path \<mapsto> rm)"
    and "os_trace w' = os_trace w @ [Mutex_lock, Mutex_unlock, Open (path_value m path), Fstat (r_val (reply w 2)),
       Mmap (r_val (reply w 2)) len, Close (r_val (reply w 2)), Mutex_lock, Mutex_unlock]"
    and "res' = \<lparr>sv_data = mm_data rm, sv_len = mm_len rm\<rparr>" and "os_replies w' = os_replies w"
    and "\<exists>k. sv_data res' = Ptr (Heap k) 0" and "sv_len res' = len"
proof -
  from p obtain bs where bs: "view_bytes m path = Inr bs" "NUL \<notin> set bs" by (auto simp: path_ok_iff)
  have pv: "path_value m path = bs" using bs by simp
  have get: "kh_get (path_hash m) (path_equal m) t path = Inr (kh_end t)"
    using path_get [OF t p] new by simp
  let ?w = "w\<lparr>os_trace := os_trace w @ [Mutex_lock, Mutex_unlock]\<rparr>"
  have rep: "reply ?w 0 = reply w 2" "reply ?w (Suc 0) = reply w 3" "reply ?w 1 = reply w 3" "reply ?w 2 = reply w 4"
    by (simp_all add: reply_def eval_nat_numeral)
  have R: "0 \<le> r_val (reply ?w 0)" "0 \<le> r_val (reply ?w 1)" "0 \<le> r_val (reply ?w 2)" "len = stat_size (reply ?w 1)"
    using r len by (simp_all only: rep)
  obtain q m1 where o: "open_resource path zero_mapped m ?w = Inr (http_success, \<lparr>mm_len = len, mm_data = q\<rparr>, m1,
       ?w\<lparr>os_trace := os_trace ?w @ [Open bs, Fstat (r_val (reply ?w 0)), Mmap (r_val (reply ?w 0)) len, Close (r_val (reply ?w 0))]\<rparr>)"
    "frame {} m m1" "q \<noteq> NULL" "load_bytes m1 q len = Inr (file_bytes len (r_data (reply ?w 2)))"
    "\<exists>k. q = Ptr (Heap k) 0"
    by (rule open_resource_maps [OF wf bs R, of zero_mapped])
  let ?rm = "\<lparr>mm_len = len, mm_data = q\<rparr>"
  note t1 = table_frame [OF o(2) t] and p1 = path_ok_frame [OF o(2) p]
  from t1(1) p1(1) small show thesis
  proof (cases rule: path_store [where rm = ?rm and m = m1 and t = t and q = path, case_names refused stored])
    case refused
    then show thesis using always_avail_frame [OF av o(2)] unfolding always_avail_def by blast
  next
    case (stored x ret t1' m2 t2)
    have f2: "frame {} m1 m2" using frame_wf [OF o(2)] stored(2) by (rule mem_ahead_frame)
    have f: "frame {} m m2" using o(2) f2 by (rule frame_trans) simp
    have ret: "ret \<noteq> 0" using stored(4) t1(2) p1(2) new by simp
    let ?w' = "w\<lparr>os_trace := os_trace w @ [Mutex_lock, Mutex_unlock, Open bs, Fstat (r_val (reply w 2)),
       Mmap (r_val (reply w 2)) len, Close (r_val (reply w 2)), Mutex_lock, Mutex_unlock]\<rparr>"
    have ew: "?w\<lparr>os_trace := os_trace ?w @ [Open bs, Fstat (r_val (reply ?w 0)), Mmap (r_val (reply ?w 0)) len, Close (r_val (reply ?w 0))]\<rparr> =
      w\<lparr>os_trace := os_trace w @ [Mutex_lock, Mutex_unlock, Open bs, Fstat (r_val (reply w 2)),
       Mmap (r_val (reply w 2)) len, Close (r_val (reply w 2))]\<rparr>" by (simp add: rep)
    have g: "get_resource_cached path res (Some t) m w =
        Inr (http_success, \<lparr>sv_data = q, sv_len = len\<rparr>, Some t2, m2, ?w')"
      using r o(1) [unfolded ew] get stored(1,5) ret o(3)
      by (simp add: get_resource_cached_def get_resource_lazy_def reply_simps string_view_from_parts_def c_assert_def Let_def)
    have vb: "view_bytes m2 \<lparr>sv_data = q, sv_len = len\<rparr> = Inr (file_bytes len (r_data (reply w 4)))"
    proof (rule frame_view [OF f2])
      show "view_bytes m1 \<lparr>sv_data = q, sv_len = len\<rparr> = Inr (file_bytes len (r_data (reply w 4)))"
        using o(4) by (simp add: view_bytes_def rep)
    qed simp
    have mp: "table_map m2 t2 = (table_map m t)(path_value m path \<mapsto> ?rm)"
      unfolding table_frame(2) [OF f2 stored(6)] stored(7) t1(2) p1(2) by (rule refl)
    show thesis
      by (rule that [OF g vb f table_frame(1) [OF f2 stored(6)] mp]) (simp_all add: pv o(5))
  qed
qed

end
