(* ===== verification/HttpTypes.thy ===== *)
theory HttpTypes
  imports ErrorCode StringT
begin

unbundle bit_operations_syntax

text \<open>
  \<^verbatim>\<open>http/http_types.c\<close> and its header: methods, versions, header fields and status codes of
  HTTP, the tables that print them, the functions that recognise them in a view, and the parsers
  of the header values the server understands. Logging has no effect on the state and is left
  out.
\<close>

section \<open>Types\<close>

datatype http_method_t =
    http_method_get | http_method_head | http_method_post | http_method_put
  | http_method_max_known | http_method_unkown

datatype http_version_t =
    http_ver_1_0 | http_ver_1_1 | http_ver_2_0 | http_ver_3_0 | http_ver_unkown

datatype http_header_field_t =
    http_hdr_host | http_hdr_user_agent | http_hdr_accept | http_hdr_content_type
  | http_hdr_content_length | http_hdr_connection | http_hdr_transfer_encoding
  | http_hdr_max | http_hdr_unkown

datatype http_content_type_major_t =
    http_content_type_major_unkown | http_content_type_major_text
  | http_content_type_major_application | http_content_type_major_image
  | http_content_type_major_audio | http_content_type_major_video

datatype http_content_type_sub_t =
    http_content_type_sub_unknown | http_content_type_sub_plain | http_content_type_sub_html
  | http_content_type_sub_json | http_content_type_sub_xml
  | http_content_type_sub_x_www_form_urlencoded | http_content_type_sub_form_data
  | http_content_type_sub_png | http_content_type_sub_jpeg | http_content_type_sub_gif

datatype http_connection_type_t =
    http_connection_unkown | http_connection_keep_alive | http_connection_close

datatype http_transfer_encoding_type_t =
    http_transfer_encoding_unkown | http_transfer_encoding_chunked

text \<open>
  The parsed value of a header is a union of eight bytes: a 64 bit length, the two 32 bit
  enumerations of a content type, or one 32 bit enumeration. The parser reads a member that it
  has not written, so the union is kept as its bits, with the little-endian layout of the
  target: the first member of a struct is the low half.
\<close>

record http_hdr_value_t =
  value_sv :: string_view_t
  has_parsed_type :: bool
  value_bits :: "64 word"

record http_header_t =
  hdr_field :: http_header_field_t
  hdr_value :: http_hdr_value_t
  hdr_name :: string_view_t

record http_status_t =
  status_code :: int
  status_message :: string_view_t

definition zero_view :: string_view_t where
  "zero_view = \<lparr>sv_data = NULL, sv_len = 0\<rparr>"

text \<open>\<^verbatim>\<open>http_header_t new_header = {0}\<close>.\<close>

definition zero_header :: http_header_t where
  "zero_header =
     \<lparr>hdr_field = http_hdr_host,
      hdr_value = \<lparr>value_sv = zero_view, has_parsed_type = False, value_bits = 0\<rparr>,
      hdr_name = zero_view\<rparr>"

section \<open>The union\<close>

primrec major_code :: "http_content_type_major_t \<Rightarrow> 64 word" where
  "major_code http_content_type_major_unkown = 0"
| "major_code http_content_type_major_text = 1"
| "major_code http_content_type_major_application = 2"
| "major_code http_content_type_major_image = 3"
| "major_code http_content_type_major_audio = 4"
| "major_code http_content_type_major_video = 5"

primrec sub_code :: "http_content_type_sub_t \<Rightarrow> 64 word" where
  "sub_code http_content_type_sub_unknown = 0"
| "sub_code http_content_type_sub_plain = 1"
| "sub_code http_content_type_sub_html = 2"
| "sub_code http_content_type_sub_json = 3"
| "sub_code http_content_type_sub_xml = 4"
| "sub_code http_content_type_sub_x_www_form_urlencoded = 5"
| "sub_code http_content_type_sub_form_data = 6"
| "sub_code http_content_type_sub_png = 7"
| "sub_code http_content_type_sub_jpeg = 8"
| "sub_code http_content_type_sub_gif = 9"

definition low32 :: "64 word \<Rightarrow> 64 word" where
  "low32 u = u AND mask 32"

definition high32 :: "64 word \<Rightarrow> 64 word" where
  "high32 u = drop_bit 32 u"

definition set_low32 :: "64 word \<Rightarrow> 64 word \<Rightarrow> 64 word" where
  "set_low32 v u = push_bit 32 (drop_bit 32 u) OR (v AND mask 32)"

definition set_high32 :: "64 word \<Rightarrow> 64 word \<Rightarrow> 64 word" where
  "set_high32 v u = push_bit 32 v OR (u AND mask 32)"

definition content_length_of :: "http_hdr_value_t \<Rightarrow> int" where
  "content_length_of v = sint (value_bits v)"

definition set_content_type ::
  "http_content_type_major_t \<Rightarrow> http_content_type_sub_t \<Rightarrow> http_hdr_value_t \<Rightarrow> http_hdr_value_t" where
  "set_content_type a b v =
     v\<lparr>value_bits := set_high32 (sub_code b) (set_low32 (major_code a) (value_bits v))\<rparr>"

text \<open>
  \<^verbatim>\<open>connection.type\<close> and \<^verbatim>\<open>transfer_encoding.type\<close> are the low half; their constants
  are numbered from 0.
\<close>

abbreviation (input) connection_keep_alive_code :: "64 word" where "connection_keep_alive_code \<equiv> 1"
abbreviation (input) connection_close_code :: "64 word" where "connection_close_code \<equiv> 2"
abbreviation (input) chunked_code :: "64 word" where "chunked_code \<equiv> 1"

section \<open>Tables and what they print\<close>

definition http_methods_str :: "string list" where
  "http_methods_str = [''GET'', ''HEAD'', ''POST'', ''PUT'']"

definition http_get_methods :: "string list" where
  "http_get_methods = http_methods_str"

definition http_get_methods_len :: size_t where
  "http_get_methods_len = length http_methods_str"

text \<open>The constants an index of the method table is converted to.\<close>

definition http_methods :: "http_method_t list" where
  "http_methods = [http_method_get, http_method_head, http_method_post, http_method_put]"

definition http_header_fields_str :: "string list" where
  "http_header_fields_str =
     [''Host'', ''User-Agent'', ''Accept'', ''Content-Type'', ''Content-Length'', ''Connection'',
      ''Transfer-Encoding'']"

definition http_header_fields :: "http_header_field_t list" where
  "http_header_fields =
     [http_hdr_host, http_hdr_user_agent, http_hdr_accept, http_hdr_content_type,
      http_hdr_content_length, http_hdr_connection, http_hdr_transfer_encoding]"

primrec header_field_str :: "http_header_field_t \<Rightarrow> string" where
  "header_field_str http_hdr_host = ''Host''"
| "header_field_str http_hdr_user_agent = ''User-Agent''"
| "header_field_str http_hdr_accept = ''Accept''"
| "header_field_str http_hdr_content_type = ''Content-Type''"
| "header_field_str http_hdr_content_length = ''Content-Length''"
| "header_field_str http_hdr_connection = ''Connection''"
| "header_field_str http_hdr_transfer_encoding = ''Transfer-Encoding''"
| "header_field_str http_hdr_max = ''''"
| "header_field_str http_hdr_unkown = ''''"

definition http_get_header_field_sv :: "mem \<Rightarrow> http_header_field_t \<Rightarrow> string_view_t res" where
  "http_get_header_field_sv m f = string_view_from_cstr m (lit (header_field_str f))"

primrec version_str :: "http_version_t \<Rightarrow> string" where
  "version_str http_ver_1_0 = ''HTTP/1.0''"
| "version_str http_ver_1_1 = ''HTTP/1.1''"
| "version_str http_ver_2_0 = ''HTTP/2.0''"
| "version_str http_ver_3_0 = ''HTTP/3.0''"
| "version_str http_ver_unkown = ''''"

definition http_get_version_sv :: "mem \<Rightarrow> http_version_t \<Rightarrow> string_view_t res" where
  "http_get_version_sv m v = string_view_from_cstr m (lit (version_str v))"

definition http_status_table :: "(int \<times> string) list" where
  "http_status_table =
    [(100, ''Continue''),
     (101, ''Switching Protocols''),
     (102, ''Processing''),
     (103, ''Early Hints''),
     (200, ''OK''),
     (201, ''Created''),
     (202, ''Accepted''),
     (203, ''Non-Authoritative Information''),
     (204, ''No Content''),
     (205, ''Reset Content''),
     (206, ''Partial Content''),
     (207, ''Multi-Status''),
     (208, ''Already Reported''),
     (226, ''IM Used''),
     (300, ''Multiple Choices''),
     (301, ''Moved Permanently''),
     (302, ''Found''),
     (303, ''See Other''),
     (304, ''Not Modified''),
     (305, ''Use Proxy''),
     (307, ''Temporary Redirect''),
     (308, ''Permanent Redirect''),
     (400, ''Bad Request''),
     (401, ''Unauthorized''),
     (402, ''Payment Required''),
     (403, ''Forbidden''),
     (404, ''Not Found''),
     (405, ''Method Not Allowed''),
     (406, ''Not Acceptable''),
     (407, ''Proxy Authentication Required''),
     (408, ''Request Timeout''),
     (409, ''Conflict''),
     (410, ''Gone''),
     (411, ''Length Required''),
     (412, ''Precondition Failed''),
     (413, ''Payload Too Large''),
     (414, ''URI Too Long''),
     (415, ''Unsupported Media Type''),
     (416, ''Range Not Satisfiable''),
     (417, ''Expectation Failed''),
     (418, ''I'' @ CHR 0x27 # ''m a Teapot''),
     (421, ''Misdirected Request''),
     (422, ''Unprocessable Entity''),
     (423, ''Locked''),
     (424, ''Failed Dependency''),
     (425, ''Too Early''),
     (426, ''Upgrade Required''),
     (428, ''Precondition Required''),
     (429, ''Too Many Requests''),
     (431, ''Request Header Fields Too Large''),
     (451, ''Unavailable For Legal Reasons''),
     (500, ''Internal Server Error''),
     (501, ''Not Implemented''),
     (502, ''Bad Gateway''),
     (503, ''Service Unavailable''),
     (504, ''Gateway Timeout''),
     (505, ''HTTP Version Not Supported''),
     (506, ''Variant Also Negotiates''),
     (507, ''Insufficient Storage''),
     (508, ''Loop Detected''),
     (510, ''Not Extended''),
     (511, ''Network Authentication Required'')]"

definition status_msg_str :: "int \<Rightarrow> string" where
  "status_msg_str code = (case map_of http_status_table code of Some s \<Rightarrow> s | None \<Rightarrow> '''')"

definition http_get_status_msg :: "mem \<Rightarrow> int \<Rightarrow> string_view_t res" where
  "http_get_status_msg m code = string_view_from_cstr m (lit (status_msg_str code))"

definition http_set_status :: "mem \<Rightarrow> int \<Rightarrow> (http_err_t \<times> http_status_t) res" where
  "http_set_status m code =
     bnd (http_get_status_msg m code) (\<lambda>msg.
     let status = \<lparr>status_code = code, status_message = msg\<rparr> in
     if string_view_empty msg then Inr (http_err_get_unkown_status, status)
     else Inr (http_success, status))"

text \<open>The three digits and the terminator, written one after the other.\<close>

definition http_get_status_sv :: "int \<Rightarrow> ptr \<Rightarrow> mem \<Rightarrow> (bool \<times> mem) res" where
  "http_get_status_sv code buf m =
     (if code > 600 \<or> code < 100 then Inr (False, m)
      else let n = nat code in
        bnd (store_bytes m buf [digit_char (n div 100)]) (\<lambda>m.
        bnd (store_bytes m (ptr_add buf 1) [digit_char (n div 10 mod 10)]) (\<lambda>m.
        bnd (store_bytes m (ptr_add buf 2) [digit_char (n mod 10)]) (\<lambda>m.
        bnd (store_bytes m (ptr_add buf 3) [NUL]) (\<lambda>m.
        Inr (True, m))))))"

section \<open>Recognisers\<close>

text \<open>The first entry of a table of C strings that a view equals.\<close>

fun match_table :: "mem \<Rightarrow> string_view_t \<Rightarrow> string list \<Rightarrow> nat \<Rightarrow> nat option res" where
  "match_table m sv [] i = Inr None"
| "match_table m sv (s # ss) i =
     bnd (string_view_compare_cstr m sv (lit s)) (\<lambda>c.
     if c = 0 then Inr (Some i) else match_table m sv ss (Suc i))"

definition http_match_method :: "mem \<Rightarrow> string_view_t \<Rightarrow> http_method_t res" where
  "http_match_method m sv =
     bnd (match_table m sv http_methods_str 0) (\<lambda>r.
     case r of Some i \<Rightarrow> Inr (http_methods ! i) | None \<Rightarrow> Inr http_method_unkown)"

definition http_match_header_field :: "mem \<Rightarrow> string_view_t \<Rightarrow> http_header_field_t res" where
  "http_match_header_field m sv =
     bnd (match_table m sv http_header_fields_str 0) (\<lambda>r.
     case r of Some i \<Rightarrow> Inr (http_header_fields ! i) | None \<Rightarrow> Inr http_hdr_unkown)"

definition http_match_version :: "mem \<Rightarrow> string_view_t \<Rightarrow> http_version_t res" where
  "http_match_version m sv =
     (let sv_buf = string_view_cstr sv in
      if string_view_len sv < 6 then Inr http_ver_unkown
      else bnd (c_strncmp m (lit ''HTTP/'') sv_buf 5) (\<lambda>c.
        if c \<noteq> 0 then Inr http_ver_unkown
        else bnd (load_byte m sv_buf 5) (\<lambda>b5.
          if b5 = CHR ''1''
          then if string_view_len sv \<noteq> 8 then Inr http_ver_unkown
               else bnd (load_byte m sv_buf 6) (\<lambda>b6.
                 if b6 \<noteq> CHR ''.'' then Inr http_ver_unkown
                 else bnd (load_byte m sv_buf 7) (\<lambda>b7.
                   if b7 \<noteq> CHR ''1'' \<and> b7 \<noteq> CHR ''0'' then Inr http_ver_unkown
                   else if b7 = CHR ''1'' then Inr http_ver_1_1 else Inr http_ver_1_0))
          else if b5 = CHR ''2'' then Inr http_ver_2_0
          else if b5 = CHR ''3'' then Inr http_ver_3_0
          else Inr http_ver_unkown)))"

section \<open>Header values\<close>

text \<open>
  The value parsers copy the view into a local array of one byte more and work on the C string
  in it. \<open>with_cstr\<close> is that array: it lives as long as the body \<open>f\<close>.
\<close>

definition read_cstr :: "mem \<Rightarrow> ptr \<Rightarrow> string res" where
  "read_cstr m p =
     bnd (tail_bytes m p) (\<lambda>bs. if NUL \<in> set bs then Inr (cstr bs) else Inl Out_of_bounds)"

definition copy_to_array :: "string_view_t \<Rightarrow> mem \<Rightarrow> (string \<times> mem) res" where
  "copy_to_array sv m =
     (let size = sz_add (string_view_len sv) 1 in
      case new_buf size m of (b, m) \<Rightarrow>
        bnd (string_view_to_buf sv (Ptr (Buf b) 0) size m) (\<lambda>(_, m).
        bnd (store_bytes m (Ptr (Buf b) (size - 1)) [NUL]) (\<lambda>m.
        bnd (read_cstr m (Ptr (Buf b) 0)) (\<lambda>s.
        Inr (s, drop_buf b m)))))"

definition is_blank :: "char \<Rightarrow> bool" where
  "is_blank c \<longleftrightarrow> c = SP \<or> c = TAB"

definition skip_blanks :: "string \<Rightarrow> string" where
  "skip_blanks s = dropWhile is_blank s"

text \<open>\<^verbatim>\<open>strchr\<close>: the position of a character in a C string.\<close>

definition c_strchr :: "string \<Rightarrow> char \<Rightarrow> nat option" where
  "c_strchr s c = (if c \<in> set s then Some (length (takeWhile (\<lambda>x. x \<noteq> c) s)) else None)"

text \<open>
  The loop that cuts trailing blanks stops at the first character, whatever it is.
\<close>

definition trim_end :: "string \<Rightarrow> string" where
  "trim_end s = (case s of [] \<Rightarrow> [] | c # cs \<Rightarrow> c # rev (dropWhile is_blank (rev cs)))"

definition match_major :: "string \<Rightarrow> http_content_type_major_t" where
  "match_major s =
     (if s = ''text'' then http_content_type_major_text
      else if s = ''application'' then http_content_type_major_application
      else if s = ''image'' then http_content_type_major_image
      else if s = ''audio'' then http_content_type_major_audio
      else if s = ''video'' then http_content_type_major_video
      else http_content_type_major_unkown)"

definition match_sub :: "string \<Rightarrow> http_content_type_sub_t" where
  "match_sub s =
     (if s = ''plain'' then http_content_type_sub_plain
      else if s = ''html'' then http_content_type_sub_html
      else if s = ''json'' then http_content_type_sub_json
      else if s = ''xml'' then http_content_type_sub_xml
      else if s = ''x-www-form-urlencoded'' then http_content_type_sub_x_www_form_urlencoded
      else if s = ''form-data'' then http_content_type_sub_form_data
      else if s = ''png'' then http_content_type_sub_png
      else if s = ''jpeg'' then http_content_type_sub_jpeg
      else if s = ''gif'' then http_content_type_sub_gif
      else http_content_type_sub_unknown)"

text \<open>The content type a C string names: nothing without a slash.\<close>

definition content_type_of ::
  "string \<Rightarrow> (http_content_type_major_t \<times> http_content_type_sub_t) option" where
  "content_type_of buf =
     (let p = skip_blanks buf in
      case c_strchr p (CHR ''/'') of
        None \<Rightarrow> None
      | Some slash \<Rightarrow>
          let major_str = trim_end (take slash p);
              sub_str = skip_blanks (drop (Suc slash) p);
              sub_str = (case c_strchr sub_str (CHR '';'') of
                           None \<Rightarrow> sub_str | Some semi \<Rightarrow> take semi sub_str)
          in Some (match_major major_str, match_sub sub_str))"

definition http_hdr_value_parse_content_type ::
  "http_hdr_value_t \<Rightarrow> mem \<Rightarrow> (http_err_t \<times> http_hdr_value_t \<times> mem) res" where
  "http_hdr_value_parse_content_type v m =
     bnd (copy_to_array (value_sv v) m) (\<lambda>(buf, m).
     case content_type_of buf of
       None \<Rightarrow>
         Inr (http_err_parse_unkown_content_type,
              set_content_type http_content_type_major_unkown http_content_type_sub_unknown v, m)
     | Some (major, sub) \<Rightarrow>
         let v = (set_content_type major sub v)\<lparr>has_parsed_type := True\<rparr> in
         if major = http_content_type_major_unkown \<and> sub = http_content_type_sub_unknown
         then Inr (http_err_parse_unkown_content_type, v, m)
         else Inr (http_success, v, m))"

text \<open>
  \<^verbatim>\<open>strtoll\<close> in base 10: blanks, an optional sign, digits; the value is cut to the range
  of 64 bits. \<open>None\<close> stands for a string it converts nothing of.
\<close>

definition c_isspace :: "char \<Rightarrow> bool" where
  "c_isspace c \<longleftrightarrow> c = SP \<or> (9 \<le> (of_char c :: nat) \<and> (of_char c :: nat) \<le> 13)"

definition c_isdigit :: "char \<Rightarrow> bool" where
  "c_isdigit c \<longleftrightarrow> 48 \<le> (of_char c :: nat) \<and> (of_char c :: nat) \<le> 57"

definition digits_val :: "string \<Rightarrow> nat" where
  "digits_val ds = foldl (\<lambda>a c. 10 * a + (of_char c - 48)) 0 ds"

definition clamp64 :: "int \<Rightarrow> int" where
  "clamp64 x = max (- 9223372036854775808) (min 9223372036854775807 x)"

definition c_strtoll :: "string \<Rightarrow> int option" where
  "c_strtoll s =
     (let s = dropWhile c_isspace s;
          neg = (case s of c # _ \<Rightarrow> c = CHR ''-'' | [] \<Rightarrow> False);
          t = (case s of c # r \<Rightarrow> if c = CHR ''-'' \<or> c = CHR ''+'' then r else s | [] \<Rightarrow> []);
          ds = takeWhile c_isdigit t
      in if ds = [] then None
         else Some (clamp64 (if neg then - int (digits_val ds) else int (digits_val ds))))"

definition http_hdr_value_parse_content_length ::
  "http_hdr_value_t \<Rightarrow> mem \<Rightarrow> (http_err_t \<times> http_hdr_value_t \<times> mem) res" where
  "http_hdr_value_parse_content_length v m =
     bnd (copy_to_array (value_sv v) m) (\<lambda>(buf, m).
     case c_strtoll (skip_blanks buf) of
       None \<Rightarrow> Inr (http_err_parse_invalid_content_length, v, m)
     | Some n \<Rightarrow> Inr (http_success, v\<lparr>value_bits := word_of_int n\<rparr>, m))"

definition http_hdr_value_parse_connection ::
  "mem \<Rightarrow> http_hdr_value_t \<Rightarrow> (http_err_t \<times> http_hdr_value_t) res" where
  "http_hdr_value_parse_connection m v =
     bnd (match_table m (value_sv v) [''keep-alive'', ''close''] 0) (\<lambda>r.
     case r of
       Some i \<Rightarrow> Inr (http_success, v\<lparr>value_bits := set_low32 (word_of_nat (i + 1)) (value_bits v)\<rparr>)
     | None \<Rightarrow> Inr (http_err_parse_unkown_connection_type,
                   v\<lparr>value_bits := set_low32 0 (value_bits v)\<rparr>))"

definition http_hdr_value_parse_transfer_encoding ::
  "mem \<Rightarrow> http_hdr_value_t \<Rightarrow> (http_err_t \<times> http_hdr_value_t) res" where
  "http_hdr_value_parse_transfer_encoding m v =
     bnd (match_table m (value_sv v) [''chunked''] 0) (\<lambda>r.
     case r of
       Some i \<Rightarrow> Inr (http_success, v\<lparr>value_bits := set_low32 (word_of_nat (i + 1)) (value_bits v)\<rparr>)
     | None \<Rightarrow> Inr (http_err_parse_unkown_transfer_encoding,
                   v\<lparr>value_bits := set_low32 0 (value_bits v)\<rparr>))"

text \<open>\<open>None\<close> is a null \<^verbatim>\<open>header\<close>.\<close>

definition http_hdr_parse_value ::
  "http_header_t option \<Rightarrow> string_view_t \<Rightarrow> mem \<Rightarrow> (http_err_t \<times> http_header_t option \<times> mem) res" where
  "http_hdr_parse_value header sv m =
     (case header of
        None \<Rightarrow> Inr (http_err_param_invalid_nullptr, None, m)
      | Some h \<Rightarrow>
          let value = (hdr_value h)\<lparr>value_sv := sv, has_parsed_type := True\<rparr> in
          bnd (case hdr_field h of
                 http_hdr_content_type \<Rightarrow> http_hdr_value_parse_content_type value m
               | http_hdr_content_length \<Rightarrow> http_hdr_value_parse_content_length value m
               | http_hdr_connection \<Rightarrow>
                   bnd (http_hdr_value_parse_connection m value) (\<lambda>(herr, v). Inr (herr, v, m))
               | http_hdr_transfer_encoding \<Rightarrow>
                   bnd (http_hdr_value_parse_transfer_encoding m value) (\<lambda>(herr, v). Inr (herr, v, m))
               | _ \<Rightarrow> Inr (http_success, value\<lparr>has_parsed_type := False\<rparr>, m))
            (\<lambda>(herr, value, m).
             if herr \<noteq> http_success
             then Inr (http_err_parse_value, Some (h\<lparr>hdr_value := value\<lparr>has_parsed_type := False\<rparr>\<rparr>), m)
             else Inr (http_success, Some (h\<lparr>hdr_value := value\<rparr>), m)))"

end
