(* ===== verification/ResourceClaims.thy ===== *)
theory ResourceClaims
  imports ResourceProps HttpTypes
begin

text \<open>
  The results on the table of resources and the cache, with their instances: the table is a map
  from paths to mappings, the first request for a file gets it, and what goes wrong after that.
\<close>

section \<open>The table\<close>

text \<open>
  C29: Storing a mapping under a path - in the bucket that \<open>kh_put\<close> finds or makes, with all
  the resizing this takes - changes what is found for the paths with the same bytes to this
  mapping, and nothing else, in every table that the operations produce.
\<close>

theorem path_table_is_map:
  assumes "table_ok m t" and "path_ok m q" and "n_buckets t < 2 ^ 31" and "always_avail m"
  shows "\<exists>x ret t1 m' t'. kh_put (path_hash m) (path_equal m) t q m = Inr (x, ret, t1, m') \<and>
     kh_set_value t1 x rm = Inr t' \<and> table_ok m t' \<and>
     (\<forall>p. path_ok m p \<longrightarrow> path_lookup m t' p =
        (if path_value m p = path_value m q then Inr (Some rm) else path_lookup m t p))"
  using assms(1-3)
proof (cases rule: path_store [where rm = rm and m = m and t = t and q = q, case_names refused stored])
  case refused
  then show ?thesis using assms(4) unfolding always_avail_def by blast
next
  case (stored x ret t1 m' t')
  then have "\<forall>p. path_ok m p \<longrightarrow> path_lookup m t' p =
        (if path_value m p = path_value m q then Inr (Some rm) else path_lookup m t p)"
    using path_lookup_map [OF stored(6)] path_lookup_map [OF assms(1)] by simp
  with stored show ?thesis by blast
qed

definition sample_path :: string_view_t where
  "sample_path = \<lparr>sv_data = lit ''/srv/a'', sv_len = length ''/srv/a''\<rparr>"

lemma sample_path_bytes [simp]: "view_bytes m sample_path = Inr ''/srv/a''"
  unfolding sample_path_def by (rule view_bytes_lit)

lemma sample_path_ok [simp]: "path_ok m sample_path"
  by (simp add: path_ok_iff)

lemma empty_mem_avail [simp]: "always_avail empty_mem"
  by (simp add: always_avail_def)

lemma path_table_is_map_witness:
  "\<exists>x ret t1 m' t'. kh_put (path_hash empty_mem) (path_equal empty_mem) kh_zero sample_path empty_mem =
       Inr (x, ret, t1, m') \<and>
     kh_set_value t1 x \<lparr>mm_len = 3, mm_data = NULL\<rparr> = Inr t' \<and>
     path_lookup empty_mem t' sample_path = Inr (Some \<lparr>mm_len = 3, mm_data = NULL\<rparr>)"
  using path_table_is_map [of empty_mem kh_zero sample_path "\<lparr>mm_len = 3, mm_data = NULL\<rparr>"]
  by (auto simp: kh_zero_def [THEN arg_cong [where f = n_buckets]])

text \<open>
  Removing the bucket that a lookup has found takes the path out of the table and leaves the
  others.
\<close>

theorem path_table_remove:
  assumes "table_ok m t" and "path_ok m q" and "path_lookup m t q = Inr (Some rm)"
  shows "\<exists>i t'. kh_get (path_hash m) (path_equal m) t q = Inr i \<and> kh_del t i = Inr t' \<and> table_ok m t' \<and>
     (\<forall>p. path_ok m p \<longrightarrow> path_lookup m t' p =
        (if path_value m p = path_value m q then Inr None else path_lookup m t p))"
proof -
  have inv: "kh_inv (path_value m) path_hashval (path_ok m) t" using assms(1) by (simp add: table_ok_def)
  have "table_map m t (path_value m q) = Some rm" using path_lookup_map [OF assms(1,2)] assms(3) by simp
  with path_get [OF assms(1,2)] obtain i where i: "kh_get (path_hash m) (path_equal m) t q = Inr i"
    "i \<in> live_ix (kh_flags t)" "path_value m (the (kh_keys t ! i)) = path_value m q" by auto
  from inv i(2) obtain t' where t': "kh_del t i = Inr t'" "kh_inv (path_value m) path_hashval (path_ok m) t'"
    "kh_map (path_value m) t' = (kh_map (path_value m) t)(path_value m (the (kh_keys t ! i)) := None)"
    by (rule kh_del_map)
  have ok: "table_ok m t'"
    unfolding table_ok_def
  proof (intro conjI ballI t'(2))
    fix j assume "j \<in> live_ix (kh_flags t')"
    with t'(2) obtain k where "kh_map (path_value m) t' (path_value m k) = Some (kh_vals t' ! j)" by (rule kh_inv_live)
    then have "kh_map (path_value m) t (path_value m k) = Some (kh_vals t' ! j)"
      unfolding t'(3) by (simp split: if_splits)
    with assms(1) show "kh_vals t' ! j \<noteq> None" by (auto elim: table_value)
  qed
  have "table_map m t' = (table_map m t)(path_value m q := None)"
    by (simp add: table_map_def fun_eq_iff t'(3) i(3))
  then have "\<forall>p. path_ok m p \<longrightarrow> path_lookup m t' p =
        (if path_value m p = path_value m q then Inr None else path_lookup m t p)"
    using path_lookup_map [OF ok] path_lookup_map [OF assms(1)] by simp
  with i(1) t'(1) ok show ?thesis by blast
qed

text \<open>A table with one path in it.\<close>

definition one_path_table :: "mapped_memory_t \<Rightarrow> path2resmem" where
  "one_path_table rm =
     (case kh_put (path_hash empty_mem) (path_equal empty_mem) kh_zero sample_path empty_mem of
        Inl _ \<Rightarrow> kh_zero
      | Inr (x, _, t, _) \<Rightarrow> (case kh_set_value t x rm of Inl _ \<Rightarrow> kh_zero | Inr t \<Rightarrow> t))"

lemma one_path_table:
  shows "table_ok empty_mem (one_path_table rm)" and "table_map empty_mem (one_path_table rm) = [''/srv/a'' \<mapsto> rm]"
    and "n_buckets (one_path_table rm) \<le> 4"
proof -
  have "table_ok empty_mem (one_path_table rm) \<and> table_map empty_mem (one_path_table rm) = [''/srv/a'' \<mapsto> rm] \<and>
     n_buckets (one_path_table rm) \<le> 4"
  proof (cases rule: path_store [where rm = rm and m = empty_mem and t = kh_zero and q = sample_path,
        OF table_ok_zero sample_path_ok, case_names small refused stored])
    case small
    then show ?case by (simp add: kh_zero_def)
  next
    case (refused t' m')
    then show ?thesis by simp
  next
    case (stored x ret t1 m' t')
    then show ?thesis by (simp add: one_path_table_def kh_zero_def [THEN arg_cong [where f = n_buckets]])
  qed
  then show "table_ok empty_mem (one_path_table rm)" "table_map empty_mem (one_path_table rm) = [''/srv/a'' \<mapsto> rm]"
    "n_buckets (one_path_table rm) \<le> 4" by simp_all
qed

lemma path_table_remove_witness:
  "\<exists>i t'. kh_get (path_hash empty_mem) (path_equal empty_mem) (one_path_table zero_mapped) sample_path = Inr i \<and>
     kh_del (one_path_table zero_mapped) i = Inr t' \<and> path_lookup empty_mem t' sample_path = Inr None"
  using path_table_remove [OF one_path_table(1) sample_path_ok, of zero_mapped zero_mapped]
    path_lookup_map [OF one_path_table(1) sample_path_ok, of zero_mapped] one_path_table(2) [of zero_mapped] by auto

section \<open>The cache\<close>

text \<open>
  C30: The first request for a file maps it, returns its bytes and stores the mapping. Every later
  request for the same path, whatever view it is made through, also reports success - and leaves
  the caller's view as it was, so that the caller serves an empty body.
\<close>

theorem second_request_is_empty:
  assumes "wf_mem m" and "table_ok m t" and "path_ok m path" and "n_buckets t < 2 ^ 31" and "always_avail m"
    and "table_map m t (path_value m path) = None"
    and "\<forall>k \<in> {0, 1, 6, 7}. r_val (reply w k) = 0" and "\<forall>k \<in> {2, 3, 4}. 0 \<le> r_val (reply w k)"
  shows "\<exists>res' t' m' w'. get_resource_cached path res (Some t) m w = Inr (http_success, res', Some t', m', w') \<and>
     view_bytes m' res' = Inr (file_bytes (stat_size (reply w 3)) (r_data (reply w 4))) \<and> table_ok m' t' \<and>
     (\<forall>p v. path_ok m' p \<and> path_value m' p = path_value m path \<and> r_val (reply v 0) = 0 \<and> r_val (reply v 1) = 0 \<longrightarrow>
        get_resource_cached p zero_view (Some t') m' v =
          Inr (http_success, zero_view, Some t', m', v\<lparr>os_trace := os_trace v @ [Mutex_lock, Mutex_unlock]\<rparr>))"
proof -
  obtain res' t' m' w' rm where 1: "get_resource_cached path res (Some t) m w = Inr (http_success, res', Some t', m', w')"
    "view_bytes m' res' = Inr (file_bytes (stat_size (reply w 3)) (r_data (reply w 4)))" "frame {} m m'"
    "table_ok m' t'" "table_map m' t' = (table_map m t)(path_value m path \<mapsto> rm)"
    by (rule get_resource_miss [OF assms(1-6), of w "stat_size (reply w 3)" res]) (use assms(7,8) in auto)
  have "get_resource_cached p zero_view (Some t') m' v =
      Inr (http_success, zero_view, Some t', m', v\<lparr>os_trace := os_trace v @ [Mutex_lock, Mutex_unlock]\<rparr>)"
    if "path_ok m' p" "path_value m' p = path_value m path" "r_val (reply v 0) = 0" "r_val (reply v 1) = 0" for p v
    by (rule get_resource_hit [OF 1(4) that(1) _ that(3,4), of rm]) (simp add: 1(5) that(2))
  with 1 show ?thesis by blast
qed

definition file_os :: os where
  "file_os = \<lparr>os_replies = (\<lambda>_. \<lparr>r_val = 0, r_errno = 0, r_data = ''hello'', r_nums = [5], r_refs = []\<rparr>), os_trace = []\<rparr>"

lemma file_os_reply [simp]: "reply file_os k = \<lparr>r_val = 0, r_errno = 0, r_data = ''hello'', r_nums = [5], r_refs = []\<rparr>"
  by (simp add: reply_def file_os_def)

lemma second_request_is_empty_witness:
  "\<exists>res' t' m' w'. get_resource_cached sample_path zero_view (Some kh_zero) empty_mem file_os =
       Inr (http_success, res', Some t', m', w') \<and> view_bytes m' res' = Inr ''hello'' \<and>
     (\<exists>w''. get_resource_cached sample_path zero_view (Some t') m' file_os =
       Inr (http_success, zero_view, Some t', m', w''))"
proof -
  have n: "n_buckets (kh_zero :: path2resmem) < 2 ^ 31" by (simp add: kh_zero_def)
  have "\<exists>res' t' m' w'. get_resource_cached sample_path zero_view (Some kh_zero) empty_mem file_os =
       Inr (http_success, res', Some t', m', w') \<and>
     view_bytes m' res' = Inr (file_bytes (stat_size (reply file_os 3)) (r_data (reply file_os 4))) \<and> table_ok m' t' \<and>
     (\<forall>p v. path_ok m' p \<and> path_value m' p = path_value empty_mem sample_path \<and> r_val (reply v 0) = 0 \<and> r_val (reply v 1) = 0 \<longrightarrow>
        get_resource_cached p zero_view (Some t') m' v =
          Inr (http_success, zero_view, Some t', m', v\<lparr>os_trace := os_trace v @ [Mutex_lock, Mutex_unlock]\<rparr>))"
    by (rule second_request_is_empty [OF _ table_ok_zero sample_path_ok n empty_mem_avail]) simp_all
  moreover have "file_bytes (stat_size (reply file_os 3)) (r_data (reply file_os 4)) = ''hello''"
    by (simp add: file_bytes_def stat_size_def reply_num_def)
  ultimately show ?thesis by fastforce
qed

text \<open>
  C31: A file that cannot be opened is not an error of the cache: it reports success with an empty
  view, and stores the empty mapping, so that the path stays empty for good.
\<close>

theorem missing_file_is_cached:
  assumes "wf_mem m" and "table_ok m t" and "path_ok m path" and "n_buckets t < 2 ^ 31" and "always_avail m"
    and "table_map m t (path_value m path) = None"
    and "\<forall>k \<in> {0, 1, 4, 5}. r_val (reply w k) = 0" and "r_val (reply w 2) < 0"
  shows "\<exists>t' m' w'. get_resource_cached path res (Some t) m w = Inr (http_success, zero_view, Some t', m', w') \<and>
     table_ok m' t' \<and> table_map m' t' = (table_map m t)(path_value m path \<mapsto> zero_mapped)"
proof -
  from assms(3) obtain bs where bs: "view_bytes m path = Inr bs" "NUL \<notin> set bs" by (auto simp: path_ok_iff)
  have get: "kh_get (path_hash m) (path_equal m) t path = Inr (kh_end t)"
    using path_get [OF assms(2,3)] assms(6) by simp
  let ?w = "w\<lparr>os_trace := os_trace w @ [Mutex_lock, Mutex_unlock]\<rparr>"
  have "r_val (reply ?w 0) < 0" using assms(8) by (simp add: reply_simps)
  from open_resource_missing [OF assms(1) bs this, of zero_mapped] obtain m1 where
    o: "open_resource path zero_mapped m ?w = Inr (http_err_open, zero_mapped, m1, ?w\<lparr>os_trace := os_trace ?w @ [Open bs, Log HTTP_OPEN_ERR]\<rparr>)"
    "frame {} m m1" by blast
  note t1 = table_frame [OF o(2) assms(2)] and p1 = path_ok_frame [OF o(2) assms(3)]
  from t1(1) p1(1) assms(4) show ?thesis
  proof (cases rule: path_store [where rm = zero_mapped and m = m1 and t = t and q = path, case_names refused stored])
    case refused
    then show ?thesis using always_avail_frame [OF assms(5) o(2)] unfolding always_avail_def by blast
  next
    case (stored x ret t1' m2 t2)
    have f2: "frame {} m1 m2" using frame_wf [OF o(2)] stored(2) by (rule mem_ahead_frame)
    have ret: "ret \<noteq> 0" using stored(4) t1(2) p1(2) assms(6) by simp
    have ew: "?w\<lparr>os_trace := os_trace ?w @ [Open bs, Log HTTP_OPEN_ERR]\<rparr> =
      w\<lparr>os_trace := os_trace w @ [Mutex_lock, Mutex_unlock, Open bs, Log HTTP_OPEN_ERR]\<rparr>" by simp
    have "get_resource_cached path res (Some t) m w = Inr (http_success, zero_view, Some t2, m2,
        w\<lparr>os_trace := os_trace w @ [Mutex_lock, Mutex_unlock, Open bs, Log HTTP_OPEN_ERR, Mutex_lock, Mutex_unlock]\<rparr>)"
      using assms(7) o(1) [unfolded ew] get stored(1,5) ret
      by (simp add: get_resource_cached_def get_resource_lazy_def reply_simps string_view_from_parts_def c_assert_def
          Let_def zero_mapped_def zero_view_def)
    moreover have "table_map m2 t2 = (table_map m t)(path_value m path \<mapsto> zero_mapped)"
      unfolding table_frame(2) [OF f2 stored(6)] stored(7) t1(2) p1(2) by (rule refl)
    ultimately show ?thesis using table_frame(1) [OF f2 stored(6)] by blast
  qed
qed

definition no_file_os :: os where
  "no_file_os = \<lparr>os_replies = (\<lambda>k. \<lparr>r_val = (if k = 2 then - 1 else 0), r_errno = 2, r_data = [], r_nums = [], r_refs = []\<rparr>),
     os_trace = []\<rparr>"

lemma missing_file_is_cached_witness:
  "\<exists>t' m' w'. get_resource_cached sample_path zero_view (Some kh_zero) empty_mem no_file_os =
       Inr (http_success, zero_view, Some t', m', w') \<and> table_map m' t' = [''/srv/a'' \<mapsto> zero_mapped]"
proof -
  have n: "n_buckets (kh_zero :: path2resmem) < 2 ^ 31" by (simp add: kh_zero_def)
  have "\<exists>t' m' w'. get_resource_cached sample_path zero_view (Some kh_zero) empty_mem no_file_os =
       Inr (http_success, zero_view, Some t', m', w') \<and> table_ok m' t' \<and>
       table_map m' t' = (table_map empty_mem kh_zero)(path_value empty_mem sample_path \<mapsto> zero_mapped)"
    by (rule missing_file_is_cached [OF _ table_ok_zero sample_path_ok n empty_mem_avail])
      (simp_all add: no_file_os_def reply_def)
  then show ?thesis by auto
qed

text \<open>
  Asking for a path with a refresh when it is already in the table - or losing a race between
  two first requests, which takes the same way through the code - ends in a failed assertion,
  because \<open>kh_put\<close> then reports that the key was there.
\<close>

theorem refresh_aborts:
  assumes "wf_mem m" and "table_ok m t" and "path_ok m path" and "n_buckets t < 2 ^ 31" and "always_avail m"
    and "table_map m t (path_value m path) = Some old" and "\<not> ndebug m"
    and "\<forall>k \<in> {0, 1, 6}. r_val (reply w k) = 0" and "\<forall>k \<in> {2, 3, 4}. 0 \<le> r_val (reply w k)"
  shows "get_resource_refreshed path res (Some t) m w = Inl Assert_failed"
proof -
  from assms(3) obtain bs where bs: "view_bytes m path = Inr bs" "NUL \<notin> set bs" by (auto simp: path_ok_iff)
  obtain i where get: "kh_get (path_hash m) (path_equal m) t path = Inr i"
    using path_get [OF assms(2,3)] assms(6) by auto
  let ?w = "w\<lparr>os_trace := os_trace w @ [Mutex_lock, Mutex_unlock]\<rparr>"
  have rep: "reply ?w 0 = reply w 2" "reply ?w 1 = reply w 3" "reply ?w 2 = reply w 4"
    by (simp_all add: reply_def eval_nat_numeral)
  have R: "0 \<le> r_val (reply ?w 0)" "0 \<le> r_val (reply ?w 1)" "0 \<le> r_val (reply ?w 2)"
    unfolding rep using assms(9) by simp_all
  let ?len = "stat_size (reply ?w 1)"
  obtain q m1 where o: "open_resource path zero_mapped m ?w = Inr (http_success, \<lparr>mm_len = ?len, mm_data = q\<rparr>, m1,
       ?w\<lparr>os_trace := os_trace ?w @ [Open bs, Fstat (r_val (reply ?w 0)), Mmap (r_val (reply ?w 0)) ?len, Close (r_val (reply ?w 0))]\<rparr>)"
    "frame {} m m1"
    by (rule open_resource_maps [OF assms(1) bs R refl, of zero_mapped]) (rule that)
  let ?rm = "\<lparr>mm_len = ?len, mm_data = q\<rparr>"
  note t1 = table_frame [OF o(2) assms(2)] and p1 = path_ok_frame [OF o(2) assms(3)]
  from t1(1) p1(1) assms(4) show ?thesis
  proof (cases rule: path_store [where rm = ?rm and m = m1 and t = t and q = path, case_names refused stored])
    case refused
    then show ?thesis using always_avail_frame [OF assms(5) o(2)] unfolding always_avail_def by blast
  next
    case (stored x ret t1' m2 t2)
    have f2: "frame {} m1 m2" using frame_wf [OF o(2)] stored(2) by (rule mem_ahead_frame)
    have nd: "\<not> ndebug m2" using assms(7) frame_env(3) [OF o(2)] frame_env(3) [OF f2] by simp
    have ret: "ret = 0" using stored(4) t1(2) p1(2) assms(6) by simp
    have ew: "?w\<lparr>os_trace := os_trace ?w @ [Open bs, Fstat (r_val (reply ?w 0)), Mmap (r_val (reply ?w 0)) ?len, Close (r_val (reply ?w 0))]\<rparr> =
      w\<lparr>os_trace := os_trace w @ [Mutex_lock, Mutex_unlock, Open bs, Fstat (r_val (reply w 2)),
       Mmap (r_val (reply w 2)) ?len, Close (r_val (reply w 2))]\<rparr>" by (simp add: rep)
    show ?thesis
      using assms(8) o(1) [unfolded ew] get stored(1) ret nd
      by (simp add: get_resource_refreshed_def get_resource_lazy_def reply_simps c_assert_def Let_def)
  qed
qed

lemma refresh_aborts_witness:
  "get_resource_refreshed sample_path zero_view (Some (one_path_table zero_mapped)) empty_mem file_os = Inl Assert_failed"
proof (rule refresh_aborts [OF _ one_path_table(1) sample_path_ok _ empty_mem_avail])
  show "n_buckets (one_path_table zero_mapped) < 2 ^ 31" using one_path_table(3) [of zero_mapped] by simp
qed (simp_all add: one_path_table(2))

end
