(* ===== verification/ResourceRace.thy ===== *)
theory ResourceRace
  imports ResourceClaims
begin

text \<open>
  The cache under concurrency. \<^verbatim>\<open>get_resource_lazy\<close> of \<^verbatim>\<open>http/resource_getter.c\<close>
  takes the mutex twice: for the lookup, and, after the file was opened without it, for the insertion.
  Here the function is cut at its calls of the mutex, so that the threads of the pool interleave
  between them; a thread alone still does what \<open>get_resource_lazy\<close> does.
\<close>

section \<open>A call in pieces\<close>

text \<open>
  Where a call stands: before the check of the table, at the first lock, at the lookup, at the unlock
  before the file is opened, at the open, at the second lock, at the insertion, at the last unlock, or
  back with its result.
\<close>

datatype lazy_point =
    At_check | At_lock | At_lookup | At_unlock_miss | At_open | At_relock | At_put | At_unlock | Returned http_err_t

record lazy_call =
  lc_path :: string_view_t
  lc_flush :: bool
  lc_res :: string_view_t        \<comment> \<open>\<^verbatim>\<open>*res\<close>\<close>
  lc_mem :: mapped_memory_t      \<comment> \<open>\<^verbatim>\<open>resmem\<close>\<close>
  lc_point :: lazy_point

text \<open>What the calls share; \<open>rc_owner\<close> is the call that holds the mutex.\<close>

record cache =
  rc_table :: "path2resmem option"
  rc_mem :: mem
  rc_os :: os
  rc_owner :: "nat option"

definition lazy_start :: "string_view_t \<Rightarrow> string_view_t \<Rightarrow> bool \<Rightarrow> lazy_call" where
  "lazy_start path res flush =
     \<lparr>lc_path = path, lc_flush = flush, lc_res = res, lc_mem = zero_mapped, lc_point = At_check\<rparr>"

text \<open>A lock waits until the mutex is free; everything else can go on.\<close>

definition lazy_ready :: "lazy_call \<Rightarrow> cache \<Rightarrow> bool" where
  "lazy_ready c r \<longleftrightarrow>
     (case lc_point c of At_lock \<Rightarrow> rc_owner r = None | At_relock \<Rightarrow> rc_owner r = None
      | Returned _ \<Rightarrow> False | _ \<Rightarrow> True)"

text \<open>The calls of the mutex: an answer other than 0 leaves its owner alone.\<close>

definition lazy_lock :: "nat \<Rightarrow> lazy_point \<Rightarrow> lazy_call \<Rightarrow> cache \<Rightarrow> lazy_call \<times> cache" where
  "lazy_lock i next c r =
     (case os_call Mutex_lock (rc_os r) of (a, w) \<Rightarrow>
        if r_val a \<noteq> 0
        then (c\<lparr>lc_point := Returned http_err_pthread_mutex_lock\<rparr>, r\<lparr>rc_os := log_http_message HTTP_PTHREAD_MUTEX_LOCK w\<rparr>)
        else (c\<lparr>lc_point := next\<rparr>, r\<lparr>rc_os := w, rc_owner := Some i\<rparr>))"

definition lazy_unlock :: "lazy_point \<Rightarrow> lazy_call \<Rightarrow> cache \<Rightarrow> lazy_call \<times> cache" where
  "lazy_unlock next c r =
     (case os_call Mutex_unlock (rc_os r) of (a, w) \<Rightarrow>
        if r_val a \<noteq> 0
        then (c\<lparr>lc_point := Returned http_err_pthread_mutex_unlock\<rparr>, r\<lparr>rc_os := log_http_message HTTP_PTHREAD_MUTEX_UNLOCK w\<rparr>)
        else (c\<lparr>lc_point := next\<rparr>, r\<lparr>rc_os := w, rc_owner := None\<rparr>))"

text \<open>One step of call \<open>i\<close>. The table is there behind the check: only the release takes it away.\<close>

definition lazy_step :: "nat \<Rightarrow> lazy_call \<Rightarrow> cache \<Rightarrow> (lazy_call \<times> cache) res" where
  "lazy_step i c r =
     (case lc_point c of
        At_check \<Rightarrow>
          if rc_table r = None
          then Inr (c\<lparr>lc_point := Returned http_err_hash_uninitialized\<rparr>,
                    r\<lparr>rc_os := log_http_message HTTP_HASH_UNINITIALIZED_ERR (rc_os r)\<rparr>)
          else Inr (c\<lparr>lc_point := At_lock\<rparr>, r)
      | At_lock \<Rightarrow> Inr (lazy_lock i At_lookup c r)
      | At_lookup \<Rightarrow>
          (case rc_table r of
             None \<Rightarrow> Inl Null_deref
           | Some t \<Rightarrow>
               bnd (kh_get (path_hash (rc_mem r)) (path_equal (rc_mem r)) t (lc_path c)) (\<lambda>kitr.
               if kitr \<noteq> kh_end t \<and> \<not> lc_flush c
               then bnd (kh_value t kitr) (\<lambda>v. Inr (c\<lparr>lc_mem := v, lc_point := At_unlock\<rparr>, r))
               else Inr (c\<lparr>lc_point := At_unlock_miss\<rparr>, r)))
      | At_unlock_miss \<Rightarrow> Inr (lazy_unlock At_open c r)
      | At_open \<Rightarrow>
          bnd (open_resource (lc_path c) (lc_mem c) (rc_mem r) (rc_os r)) (\<lambda>(_, resmem, m, w).
          Inr (c\<lparr>lc_mem := resmem, lc_res := string_view_from_parts (mm_data resmem) (mm_len resmem), lc_point := At_relock\<rparr>,
               r\<lparr>rc_mem := m, rc_os := w\<rparr>))
      | At_relock \<Rightarrow> Inr (lazy_lock i At_put c r)
      | At_put \<Rightarrow>
          (case rc_table r of
             None \<Rightarrow> Inl Null_deref
           | Some t \<Rightarrow>
               bnd (kh_put (path_hash (rc_mem r)) (path_equal (rc_mem r)) t (lc_path c) (rc_mem r)) (\<lambda>(kitr, ret, t, m).
               bnd (c_assert (ndebug m) (ret \<noteq> 0)) (\<lambda>_.
               bnd (kh_set_value t kitr (lc_mem c)) (\<lambda>t.
               Inr (c\<lparr>lc_point := At_unlock\<rparr>, r\<lparr>rc_table := Some t, rc_mem := m\<rparr>)))))
      | At_unlock \<Rightarrow> Inr (lazy_unlock (Returned http_success) c r)
      | Returned herr \<Rightarrow> Inr (c, r))"

text \<open>A schedule: the numbers of the calls that take a step, in order. A call that must wait is passed over.\<close>

fun run_schedule :: "nat list \<Rightarrow> lazy_call list \<Rightarrow> cache \<Rightarrow> (lazy_call list \<times> cache) res" where
  "run_schedule [] cs r = Inr (cs, r)"
| "run_schedule (i # is) cs r =
     (if i < length cs \<and> lazy_ready (cs ! i) r
      then bnd (lazy_step i (cs ! i) r) (\<lambda>(c, r). run_schedule is (cs[i := c]) r)
      else run_schedule is cs r)"

section \<open>A call alone\<close>

lemma lazy_step_simps:
  "lc_point c = At_check \<Longrightarrow> lazy_step i c r =
     (if rc_table r = None then Inr (c\<lparr>lc_point := Returned http_err_hash_uninitialized\<rparr>,
        r\<lparr>rc_os := log_http_message HTTP_HASH_UNINITIALIZED_ERR (rc_os r)\<rparr>) else Inr (c\<lparr>lc_point := At_lock\<rparr>, r))"
  "lc_point c = At_lock \<Longrightarrow> lazy_step i c r = Inr (lazy_lock i At_lookup c r)"
  "lc_point c = At_unlock_miss \<Longrightarrow> lazy_step i c r = Inr (lazy_unlock At_open c r)"
  "lc_point c = At_relock \<Longrightarrow> lazy_step i c r = Inr (lazy_lock i At_put c r)"
  "lc_point c = At_unlock \<Longrightarrow> lazy_step i c r = Inr (lazy_unlock (Returned http_success) c r)"
  by (simp_all add: lazy_step_def)

text \<open>Steps of one call.\<close>

fun lazy_iter :: "nat \<Rightarrow> nat \<Rightarrow> lazy_call \<Rightarrow> cache \<Rightarrow> (lazy_call \<times> cache) res" where
  "lazy_iter 0 i c r = Inr (c, r)"
| "lazy_iter (Suc n) i c r =
     (if lazy_ready c r then bnd (lazy_step i c r) (\<lambda>(c, r). lazy_iter n i c r) else lazy_iter n i c r)"

lemma run_schedule_append:
  "run_schedule (xs @ ys) cs r = bnd (run_schedule xs cs r) (\<lambda>(cs, r). run_schedule ys cs r)"
  by (induction xs arbitrary: cs r) (auto simp: bnd_def split: sum.split prod.split)

lemma run_schedule_one:
  "i < length cs \<Longrightarrow> run_schedule (replicate n i) cs r = bnd (lazy_iter n i (cs ! i) r) (\<lambda>(c, r). Inr (cs[i := c], r))"
  by (induction n arbitrary: cs r) (auto simp: bnd_def split: sum.split prod.split)

lemma lazy_iter_returned [simp]: "lc_point c = Returned herr \<Longrightarrow> lazy_iter n i c r = Inr (c, r)"
  by (induction n) (simp_all add: lazy_ready_def)

definition lazy_outcome :: "lazy_call \<times> cache \<Rightarrow>
    (http_err_t \<times> string_view_t \<times> path2resmem option \<times> mem \<times> os) option" where
  "lazy_outcome = (\<lambda>(c, r). case lc_point c of
       Returned herr \<Rightarrow> Some (herr, lc_res c, rc_table r, rc_mem r, rc_os r) | _ \<Rightarrow> None)"

lemma lazy_iter_lazy:
  assumes "rc_owner r = None"
  shows "bnd (lazy_iter 8 i (lazy_start path res flush) r) (\<lambda>x. Inr (lazy_outcome x)) =
     bnd (get_resource_lazy path res flush (rc_table r) (rc_mem r) (rc_os r)) (\<lambda>x. Inr (Some x))"
proof (cases "rc_table r")
  case None
  then show ?thesis
    by (simp add: numeral_eq_Suc lazy_start_def lazy_ready_def lazy_step_def get_resource_lazy_def lazy_outcome_def)
next
  case (Some t)
  show ?thesis
    using assms Some
    by (simp add: numeral_eq_Suc lazy_start_def lazy_ready_def lazy_step_def get_resource_lazy_def lazy_outcome_def
        lazy_lock_def lazy_unlock_def bnd_def Let_def zero_mapped_def split: sum.split prod.split)
qed

text \<open>
  C13: The pieces are the function: when nobody holds the mutex, a call that is not interleaved with others
  is back after eight steps, and has done what \<open>get_resource_lazy\<close> does - the same code, view, table,
  memory and calls of the system, or the same fault.
\<close>

theorem call_alone_is_lazy:
  assumes "rc_owner r = None" and "i < length cs" and "cs ! i = lazy_start path res flush"
  shows "bnd (run_schedule (replicate 8 i) cs r) (\<lambda>(cs', r'). Inr (lazy_outcome (cs' ! i, r'))) =
     bnd (get_resource_lazy path res flush (rc_table r) (rc_mem r) (rc_os r)) (\<lambda>x. Inr (Some x))"
proof -
  have "bnd (run_schedule (replicate 8 i) cs r) (\<lambda>(cs', r'). Inr (lazy_outcome (cs' ! i, r'))) =
      bnd (lazy_iter 8 i (lazy_start path res flush) r) (\<lambda>x. Inr (lazy_outcome x))"
    using assms(2,3) by (simp add: run_schedule_one bnd_def split: sum.split prod.split)
  then show ?thesis unfolding lazy_iter_lazy [OF assms(1)] .
qed

section \<open>Every schedule\<close>

lemma open_resource_frame:
  assumes "open_resource path rm m w = Inr (herr, rm', m', w')" and "wf_mem m" and "path_ok m path"
  shows "frame {} m m'"
proof -
  from assms(3) obtain bs where bs: "view_bytes m path = Inr bs" "NUL \<notin> set bs" by (auto simp: path_ok_iff)
  obtain b m1 where nb: "new_buf (Suc (string_view_len path)) m = (b, m1)" by force
  note b = path_buffer(1) [OF assms(2) bs nb]
  obtain m2 where m2: "string_view_to_buf path (Ptr (Buf b) 0) (Suc (string_view_len path)) m1 = Inr (True, m2)"
    "cstr_at m2 (Ptr (Buf b) 0) = Inr bs" "frame {} m m2"
    using path_buffer(2) [OF assms(2) bs nb] by blast
  have fresh: "blocks m (Buf b) = None" using assms(2) b by auto
  have "frame {} m m3 \<Longrightarrow> frame {} m (drop_buf b m3)" for m3 by (rule frame_drop_buf [OF _ fresh])
  moreover have "frame {} m m3" if "frame {} m2 m3" for m3 using m2(3) that by (rule frame_trans) simp
  moreover have "frame {} m2 (snd (map_block len cs m2))" "frame {} m2 (snd (MAP_FAILED m2))" for len cs
    using frame_wf [OF m2(3)] by (auto simp: map_block_def MAP_FAILED_def intro: frame_alloc frame_brk)
  ultimately show ?thesis
    using assms(1) m2 nb by (auto simp: open_resource_def Let_def map_block_def MAP_FAILED_def split: if_splits)
qed

text \<open>The calls that are inside the mutex, and those that have yet to insert.\<close>

definition critical :: "lazy_call \<Rightarrow> bool" where
  "critical c \<longleftrightarrow> lc_point c \<in> {At_lookup, At_unlock_miss, At_put, At_unlock}"

definition stored :: "lazy_call \<Rightarrow> bool" where
  "stored c \<longleftrightarrow> lc_point c \<in> {At_unlock, Returned http_success}"

definition waits :: "lazy_call \<Rightarrow> bool" where
  "waits c \<longleftrightarrow> lc_point c \<in> {At_check, At_lock, At_lookup, At_unlock_miss, At_open, At_relock, At_put}"

definition pending :: "lazy_call list \<Rightarrow> nat" where
  "pending cs = length (filter waits cs)"

lemma pending_update:
  "i < length cs \<Longrightarrow> pending (cs[i := c]) + of_bool (waits (cs ! i)) = pending cs + of_bool (waits c)"
proof (induction cs arbitrary: i)
  case (Cons x xs)
  then show ?case by (cases i) (auto simp: pending_def)
qed simp

text \<open>The invariant, from the memory and the table at the start.\<close>

definition cache_inv :: "mem \<Rightarrow> path2resmem \<Rightarrow> lazy_call list \<Rightarrow> cache \<Rightarrow> bool" where
  "cache_inv m0 t0 cs r \<longleftrightarrow>
     (\<forall>i < length cs. critical (cs ! i) \<longrightarrow> rc_owner r = Some i) \<and>
     frame {} m0 (rc_mem r) \<and> (\<forall>c \<in> set cs. path_ok m0 (lc_path c)) \<and>
     (\<exists>t. rc_table r = Some t \<and> table_ok (rc_mem r) t \<and> table_map m0 t0 \<subseteq>\<^sub>m table_map (rc_mem r) t \<and>
        (n_buckets t + 4) * 2 ^ pending cs \<le> 2 ^ 31 \<and>
        (\<forall>c \<in> set cs. stored c \<longrightarrow> table_map (rc_mem r) t (path_value m0 (lc_path c)) \<noteq> None))"

lemma cache_inv_call:
  assumes inv: "cache_inv m0 t0 cs r" and i: "i < length cs" and path: "lc_path c = lc_path (cs ! i)"
    and t: "rc_table r' = rc_table r" and f: "frame {} (rc_mem r) (rc_mem r')"
    and others: "\<And>j. j < length cs \<Longrightarrow> j \<noteq> i \<Longrightarrow> critical (cs ! j) \<Longrightarrow> rc_owner r' = Some j"
    and mine: "critical c \<Longrightarrow> rc_owner r' = Some i" and w: "waits c \<Longrightarrow> waits (cs ! i)"
    and st: "\<And>t. stored c \<Longrightarrow> rc_table r = Some t \<Longrightarrow> stored (cs ! i) \<or> table_map (rc_mem r) t (path_value m0 (lc_path c)) \<noteq> None"
  shows "cache_inv m0 t0 (cs[i := c]) r'"
proof -
  from inv obtain t where T: "rc_table r = Some t" "table_ok (rc_mem r) t" "table_map m0 t0 \<subseteq>\<^sub>m table_map (rc_mem r) t"
    "(n_buckets t + 4) * 2 ^ pending cs \<le> 2 ^ 31"
    "\<forall>c \<in> set cs. stored c \<longrightarrow> table_map (rc_mem r) t (path_value m0 (lc_path c)) \<noteq> None" unfolding cache_inv_def by blast
  note tf = table_frame [OF f T(2)]
  have "frame {} m0 (rc_mem r)" using inv by (simp add: cache_inv_def)
  then have f0: "frame {} m0 (rc_mem r')" using f by (rule frame_trans) simp
  have "pending (cs[i := c]) \<le> pending cs" using pending_update [OF i, of c] w by (cases "waits c") auto
  then have "(n_buckets t + 4) * 2 ^ pending (cs[i := c]) \<le> (n_buckets t + 4) * 2 ^ pending cs"
    by (intro mult_left_mono power_increasing) simp_all
  with T(4) have n: "(n_buckets t + 4) * 2 ^ pending (cs[i := c]) \<le> 2 ^ 31" by (rule order_trans [rotated])
  have me: "cs ! i \<in> set cs" using i by simp
  have s: "table_map (rc_mem r) t (path_value m0 (lc_path d)) \<noteq> None" if "d \<in> set (cs[i := c])" "stored d" for d
  proof (cases "d = c")
    case True
    with st [OF _ T(1)] that(2) T(5) me path show ?thesis by auto
  next
    case False
    with that set_update_subset_insert [of cs i c] have "d \<in> set cs" by blast
    with T(5) that(2) show ?thesis by blast
  qed
  have p: "\<forall>d \<in> set (cs[i := c]). path_ok m0 (lc_path d)"
    using inv path me set_update_subset_insert [of cs i c] unfolding cache_inv_def by auto
  have o: "rc_owner r' = Some j" if "j < length (cs[i := c])" "critical (cs[i := c] ! j)" for j
    using that others [of j] mine by (cases "j = i") simp_all
  show ?thesis unfolding cache_inv_def
    by (intro conjI exI [of _ t]) (use o f0 p t T(1,3) tf n s in auto)
qed

text \<open>The mutex: nobody is inside when it is taken, and only the call that leaves it was.\<close>

lemma cache_inv_lock:
  assumes inv: "cache_inv m0 t0 cs r" and i: "i < length cs" and free: "rc_owner r = None" and w: "waits (cs ! i)"
    and s: "lazy_lock i p (cs ! i) r = (c, r')" and p: "p \<in> {At_lookup, At_put}"
  shows "cache_inv m0 t0 (cs[i := c]) r'"
proof (rule cache_inv_call [OF inv i])
  have wf: "wf_mem (rc_mem r)" using inv by (auto simp: cache_inv_def dest: frame_wf)
  show "lc_path c = lc_path (cs ! i)" "rc_table r' = rc_table r" "frame {} (rc_mem r) (rc_mem r')"
    using s wf by (auto simp: lazy_lock_def split: if_splits)
  show "rc_owner r' = Some j" if "j < length cs" "critical (cs ! j)" for j
    using inv free that by (simp add: cache_inv_def)
  show "rc_owner r' = Some i" if "critical c" using s p that by (auto simp: lazy_lock_def critical_def split: if_splits)
  show "waits (cs ! i)" by (rule w)
  show "stored (cs ! i) \<or> table_map (rc_mem r) t (path_value m0 (lc_path c)) \<noteq> None" if "stored c" for t
    using s p that by (auto simp: lazy_lock_def stored_def split: if_splits)
qed

lemma cache_inv_unlock:
  assumes inv: "cache_inv m0 t0 cs r" and i: "i < length cs" and own: "critical (cs ! i)"
    and s: "lazy_unlock p (cs ! i) r = (c, r')"
    and p: "p = At_open \<and> waits (cs ! i) \<or> p = Returned http_success \<and> stored (cs ! i)"
  shows "cache_inv m0 t0 (cs[i := c]) r'"
proof (rule cache_inv_call [OF inv i])
  have wf: "wf_mem (rc_mem r)" using inv by (auto simp: cache_inv_def dest: frame_wf)
  show "lc_path c = lc_path (cs ! i)" "rc_table r' = rc_table r" "frame {} (rc_mem r) (rc_mem r')"
    using s wf by (auto simp: lazy_unlock_def split: if_splits)
  have "rc_owner r = Some i" using inv i own by (simp add: cache_inv_def)
  then show "rc_owner r' = Some j" if "j < length cs" "j \<noteq> i" "critical (cs ! j)" for j
    using inv that by (simp add: cache_inv_def)
  show "rc_owner r' = Some i" if "critical c" using s p that by (auto simp: lazy_unlock_def critical_def split: if_splits)
  show "waits (cs ! i)" if "waits c" using s p that by (auto simp: lazy_unlock_def waits_def split: if_splits)
  show "stored (cs ! i) \<or> table_map (rc_mem r) t (path_value m0 (lc_path c)) \<noteq> None" if "stored c" for t
    using s p that by (auto simp: lazy_unlock_def stored_def split: if_splits)
qed

text \<open>The insertion, with an allocator that delivers and assertions that are checked.\<close>

lemma cache_inv_put:
  assumes inv: "cache_inv m0 t0 cs r" and i: "i < length cs" and pt: "lc_point (cs ! i) = At_put"
    and s: "lazy_step i (cs ! i) r = Inr (c, r')" and av: "always_avail m0" and nd: "\<not> ndebug m0"
  shows "cache_inv m0 t0 (cs[i := c]) r'"
proof -
  let ?c = "cs ! i" and ?m = "rc_mem r"
  from inv obtain t where T: "rc_table r = Some t" "table_ok ?m t" "table_map m0 t0 \<subseteq>\<^sub>m table_map ?m t"
    "(n_buckets t + 4) * 2 ^ pending cs \<le> 2 ^ 31"
    "\<forall>c \<in> set cs. stored c \<longrightarrow> table_map ?m t (path_value m0 (lc_path c)) \<noteq> None" unfolding cache_inv_def by blast
  have f: "frame {} m0 ?m" using inv by (simp add: cache_inv_def)
  have ok0: "path_ok m0 (lc_path ?c)" using inv i by (simp add: cache_inv_def)
  note po = path_ok_frame [OF f ok0]
  have wt: "waits ?c" "\<not> stored ?c" using pt by (simp_all add: waits_def stored_def)
  define q where "q = pending (cs[i := ?c\<lparr>lc_point := At_unlock\<rparr>])"
  have "\<not> waits (?c\<lparr>lc_point := At_unlock\<rparr>)" by (simp add: waits_def)
  with wt(1) have q: "pending cs = Suc q"
    using pending_update [OF i, of "?c\<lparr>lc_point := At_unlock\<rparr>"] unfolding q_def by (cases "waits (cs ! i)") simp_all
  have "(n_buckets t + 4) * 1 \<le> (n_buckets t + 4) * 2 ^ pending cs" by (intro mult_left_mono) simp_all
  then have "n_buckets t + 4 \<le> 2 ^ 31" using T(4) by (simp only: mult_1_right)
  then have "n_buckets t < 2 ^ 31" by simp
  from T(2) po(1) this show ?thesis
  proof (cases rule: path_store [where rm = "lc_mem ?c", case_names refused put])
    case refused
    then show ?thesis using always_avail_frame [OF av f] unfolding always_avail_def by blast
  next
    case (put x ret t1 m' t')
    have nd': "\<not> ndebug m'" using nd frame_env(3) [OF f] put(2) by (simp add: mem_ahead_def)
    from s pt T(1) put(1,5) nd' have e: "c = ?c\<lparr>lc_point := At_unlock\<rparr>" "r' = r\<lparr>rc_table := Some t', rc_mem := m'\<rparr>" and "ret \<noteq> 0"
      by (auto simp: lazy_step_def c_assert_def split: if_splits)
    with put(4) have new: "table_map ?m t (path_value m0 (lc_path ?c)) = None" using po(2) by simp
    have fm: "frame {} ?m m'" using frame_wf [OF f] put(2) by (rule mem_ahead_frame)
    note t' = table_frame [OF fm put(6)]
    have mp: "table_map m' t' = (table_map ?m t)(path_value m0 (lc_path ?c) \<mapsto> lc_mem ?c)"
      unfolding t'(2) put(7) po(2) by (rule refl)
    have sub: "table_map m0 t0 \<subseteq>\<^sub>m table_map m' t'"
      using T(3) new unfolding mp map_le_def by (auto simp: dom_def)
    have "(n_buckets t' + 4) * 2 ^ q \<le> (2 * (n_buckets t + 4)) * 2 ^ q" using put(8) by (intro mult_right_mono) simp_all
    also have "\<dots> = (n_buckets t + 4) * 2 ^ pending cs" unfolding q by (simp only: power_Suc mult.assoc mult.left_commute)
    also note T(4)
    finally have n: "(n_buckets t' + 4) * 2 ^ pending (cs[i := c]) \<le> 2 ^ 31" unfolding e(1) q_def .
    have fr: "frame {} m0 m'" using f fm by (rule frame_trans) simp
    have own: "rc_owner r = Some j" if "j < length cs" "critical (cs ! j)" for j using inv that by (simp add: cache_inv_def)
    have "rc_owner r = Some i" using own [OF i] pt by (simp add: critical_def)
    then have o: "rc_owner r' = Some j" if "j < length (cs[i := c])" "critical (cs[i := c] ! j)" for j
      using that own [of j] e(2) by (cases "j = i") simp_all
    have st: "table_map m' t' (path_value m0 (lc_path d)) \<noteq> None" if "d \<in> set (cs[i := c])" "stored d" for d
      using that T(5) set_update_subset_insert [of cs i c] e(1) unfolding mp by auto
    have pk: "path_ok m0 (lc_path d)" if "d \<in> set (cs[i := c])" for d
      using that inv ok0 set_update_subset_insert [of cs i c] e(1) unfolding cache_inv_def by auto
    show ?thesis unfolding cache_inv_def
      by (intro conjI exI [of _ t']) (use o fr pk t'(1) sub n st e(2) in auto)
  qed
qed

lemma cache_inv_step:
  assumes inv: "cache_inv m0 t0 cs r" and i: "i < length cs" and rd: "lazy_ready (cs ! i) r"
    and s: "lazy_step i (cs ! i) r = Inr (c, r')" and av: "always_avail m0" and nd: "\<not> ndebug m0"
  shows "cache_inv m0 t0 (cs[i := c]) r'"
proof -
  let ?c = "cs ! i"
  have wf: "wf_mem (rc_mem r)" using inv by (auto simp: cache_inv_def dest: frame_wf)
  have own: "rc_owner r = Some j" if "j < length cs" "critical (cs ! j)" for j using inv that by (simp add: cache_inv_def)
  from inv obtain t where T: "rc_table r = Some t" "table_ok (rc_mem r) t" "frame {} m0 (rc_mem r)"
    "path_ok m0 (lc_path ?c)" unfolding cache_inv_def using i by auto
  note po = path_ok_frame [OF T(3,4)]
  show ?thesis
  proof (cases "lc_point ?c")
    case At_check
    with s T(1) have "c = ?c\<lparr>lc_point := At_lock\<rparr>" "r' = r" by (simp_all add: lazy_step_def)
    with At_check show ?thesis
      by (intro cache_inv_call [OF inv i]) (simp_all add: own wf critical_def waits_def stored_def)
  next
    case At_lookup
    have g: "case table_map (rc_mem r) t (path_value m0 (lc_path ?c)) of
       None \<Rightarrow> kh_get (path_hash (rc_mem r)) (path_equal (rc_mem r)) t (lc_path ?c) = Inr (kh_end t) | Some rm \<Rightarrow> True"
      using path_get [OF T(2) po(1)] po(2) by (auto split: option.splits)
    from s At_lookup T(1) have r': "r' = r" "lc_path c = lc_path ?c" and
      c: "lc_point c = At_unlock_miss \<or> lc_point c = At_unlock \<and> table_map (rc_mem r) t (path_value m0 (lc_path ?c)) \<noteq> None"
      using g by (auto simp: lazy_step_def elim!: bnd_InrE split: if_splits option.splits)
    have cr: "rc_owner r = Some i" using own [OF i] At_lookup by (simp add: critical_def)
    show ?thesis
      by (rule cache_inv_call [OF inv i])
        (use r' c cr own wf At_lookup T(1) in \<open>auto simp: waits_def stored_def\<close>)
  next
    case At_open
    from s At_open obtain herr rm m w where o: "open_resource (lc_path ?c) (lc_mem ?c) (rc_mem r) (rc_os r) = Inr (herr, rm, m, w)"
      "c = ?c\<lparr>lc_mem := rm, lc_res := string_view_from_parts (mm_data rm) (mm_len rm), lc_point := At_relock\<rparr>"
      "r' = r\<lparr>rc_mem := m, rc_os := w\<rparr>" by (auto simp: lazy_step_def elim!: bnd_InrE)
    have "frame {} (rc_mem r) m" using o(1) wf po(1) by (rule open_resource_frame)
    with o(2,3) At_open show ?thesis
      by (intro cache_inv_call [OF inv i]) (simp_all add: own critical_def waits_def stored_def)
  next
    case At_put
    show ?thesis using cache_inv_put [OF inv i At_put s av nd] .
  next
    case (Returned herr)
    with rd show ?thesis by (simp add: lazy_ready_def)
  next
    case At_lock
    with s rd have "lazy_lock i At_lookup ?c r = (c, r')" "rc_owner r = None" by (simp_all add: lazy_step_def lazy_ready_def)
    with At_lock show ?thesis by (intro cache_inv_lock [OF inv i, where p = At_lookup]) (simp_all add: waits_def)
  next
    case At_relock
    with s rd have "lazy_lock i At_put ?c r = (c, r')" "rc_owner r = None" by (simp_all add: lazy_step_def lazy_ready_def)
    with At_relock show ?thesis by (intro cache_inv_lock [OF inv i, where p = At_put]) (simp_all add: waits_def)
  next
    case At_unlock_miss
    with s have "lazy_unlock At_open ?c r = (c, r')" by (simp add: lazy_step_def)
    with At_unlock_miss show ?thesis by (intro cache_inv_unlock [OF inv i, where p = At_open]) (simp_all add: waits_def critical_def)
  next
    case At_unlock
    with s have "lazy_unlock (Returned http_success) ?c r = (c, r')" by (simp add: lazy_step_def)
    with At_unlock show ?thesis by (intro cache_inv_unlock [OF inv i, where p = "Returned http_success"]) (simp_all add: stored_def critical_def)
  qed
qed

lemma cache_inv_run:
  "run_schedule is cs r = Inr (cs', r') \<Longrightarrow> cache_inv m0 t0 cs r \<Longrightarrow> always_avail m0 \<Longrightarrow> \<not> ndebug m0 \<Longrightarrow> cache_inv m0 t0 cs' r'"
proof (induction "is" arbitrary: cs r)
  case (Cons i "is")
  show ?case
  proof (cases "i < length cs \<and> lazy_ready (cs ! i) r")
    case True
    with Cons.prems(1) obtain c r1 where 1: "lazy_step i (cs ! i) r = Inr (c, r1)" "run_schedule is (cs[i := c]) r1 = Inr (cs', r')"
      by (auto elim!: bnd_InrE)
    show ?thesis
      by (rule Cons.IH [OF 1(2) cache_inv_step [OF Cons.prems(2) _ _ 1(1) Cons.prems(3,4)] Cons.prems(3,4)]) (use True in auto)
  next
    case False
    have "run_schedule is cs r = Inr (cs', r')" using Cons.prems(1) False by (simp split: if_splits)
    then show ?thesis using Cons.IH Cons.prems(2-4) by blast
  qed
qed simp

lemma lazy_step_path: "lazy_step i c r = Inr (c', r') \<Longrightarrow> lc_path c' = lc_path c"
  by (auto simp: lazy_step_def lazy_lock_def lazy_unlock_def elim!: bnd_InrE
      split: lazy_point.splits if_splits option.splits prod.splits)

lemma run_keeps_path: "run_schedule is cs r = Inr (cs', r') \<Longrightarrow> map lc_path cs' = map lc_path cs"
proof (induction "is" arbitrary: cs r)
  case (Cons i "is")
  show ?case
  proof (cases "i < length cs \<and> lazy_ready (cs ! i) r")
    case True
    with Cons.prems obtain c r1 where 1: "lazy_step i (cs ! i) r = Inr (c, r1)" "run_schedule is (cs[i := c]) r1 = Inr (cs', r')"
      by (auto elim!: bnd_InrE)
    from Cons.IH [OF 1(2)] lazy_step_path [OF 1(1)] True show ?thesis by (simp add: map_update list_update_same_conv)
  next
    case False
    have "run_schedule is cs r = Inr (cs', r')" using Cons.prems False by (simp split: if_splits)
    then show ?thesis by (rule Cons.IH)
  qed
qed simp


section \<open>The race\<close>

lemma lazy_iter_add: "lazy_iter (a + b) i c r = bnd (lazy_iter a i c r) (\<lambda>(c, r). lazy_iter b i c r)"
  by (induction a arbitrary: c r) (auto simp: bnd_def split: sum.split prod.split)

text \<open>A system whose calls all succeed.\<close>

definition calm :: "cache \<Rightarrow> bool" where
  "calm r \<longleftrightarrow> (\<forall>k. r_val (os_replies (rc_os r) k) = 0)"

lemma calm_reply: "calm r \<Longrightarrow> os_replies w = os_replies (rc_os r) \<Longrightarrow> r_val (reply w k) = 0"
  by (simp add: calm_def reply_def)

text \<open>What the two halves of a call meet.\<close>

definition cache_ok :: "path2resmem \<Rightarrow> cache \<Rightarrow> bool" where
  "cache_ok t r \<longleftrightarrow> rc_owner r = None \<and> rc_table r = Some t \<and> wf_mem (rc_mem r) \<and> table_ok (rc_mem r) t \<and>
     always_avail (rc_mem r) \<and> \<not> ndebug (rc_mem r) \<and> calm r"

lemma lookup_half:
  assumes "cache_ok t r" and "path_ok (rc_mem r) p" and "table_map (rc_mem r) t (path_value (rc_mem r) p) = None"
  shows "lazy_iter 4 i (lazy_start p v False) r = Inr ((lazy_start p v False)\<lparr>lc_point := At_open\<rparr>,
     r\<lparr>rc_os := (rc_os r)\<lparr>os_trace := os_trace (rc_os r) @ [Mutex_lock, Mutex_unlock]\<rparr>\<rparr>)"
proof -
  have "kh_get (path_hash (rc_mem r)) (path_equal (rc_mem r)) t p = Inr (kh_end t)"
    using path_get [of "rc_mem r" t p] assms by (simp add: cache_ok_def)
  then show ?thesis using assms(1)
    by (simp add: numeral_eq_Suc lazy_start_def lazy_ready_def lazy_step_def lazy_lock_def lazy_unlock_def cache_ok_def calm_def)
qed

lemma open_half:
  assumes ok: "cache_ok t r" and p: "path_ok (rc_mem r) p" and c: "lc_path c = p" "lc_point c = At_open" "lc_mem c = zero_mapped"
  obtains rm m es v where "lazy_iter 2 i c r = Inr (c\<lparr>lc_mem := rm, lc_res := v, lc_point := At_put\<rparr>,
       r\<lparr>rc_mem := m, rc_os := (rc_os r)\<lparr>os_trace := os_trace (rc_os r) @ es\<rparr>, rc_owner := Some i\<rparr>)"
    and "frame {} (rc_mem r) m"
proof -
  from p obtain bs where bs: "view_bytes (rc_mem r) p = Inr bs" "NUL \<notin> set bs" by (auto simp: path_ok_iff)
  have r0: "0 \<le> r_val (reply (rc_os r) k)" for k using ok by (simp add: cache_ok_def calm_def reply_def)
  have wf: "wf_mem (rc_mem r)" using ok by (simp add: cache_ok_def)
  obtain q m es where o: "open_resource p zero_mapped (rc_mem r) (rc_os r) = Inr (http_success,
      \<lparr>mm_len = stat_size (reply (rc_os r) 1), mm_data = q\<rparr>, m, (rc_os r)\<lparr>os_trace := os_trace (rc_os r) @ es\<rparr>)"
    "frame {} (rc_mem r) m"
    by (rule open_resource_maps [OF wf bs r0 r0 r0 refl, of zero_mapped]) blast
  show thesis
    by (rule that [where m = m and es = "es @ [Mutex_lock]"])
      (use ok c o in \<open>simp_all add: numeral_eq_Suc lazy_ready_def lazy_step_def lazy_lock_def cache_ok_def calm_def\<close>)
qed

lemma store_half:
  assumes ok: "cache_ok t r" and p: "path_ok (rc_mem r) p" and small: "n_buckets t < 2 ^ 31"
    and c: "lc_path c = p" "lc_point c = At_open" "lc_mem c = zero_mapped"
  shows "table_map (rc_mem r) t (path_value (rc_mem r) p) = None \<Longrightarrow> \<exists>c' r' t'. lazy_iter 4 i c r = Inr (c', r') \<and>
       lc_point c' = Returned http_success \<and> cache_ok t' r' \<and> frame {} (rc_mem r) (rc_mem r') \<and>
       n_buckets t' \<le> 2 * n_buckets t + 4 \<and> table_map (rc_mem r') t' (path_value (rc_mem r) p) \<noteq> None"
    and "table_map (rc_mem r) t (path_value (rc_mem r) p) \<noteq> None \<Longrightarrow> lazy_iter 3 i c r = Inl Assert_failed"
proof -
  obtain rm m es v where 2: "lazy_iter 2 i c r = Inr (c\<lparr>lc_mem := rm, lc_res := v, lc_point := At_put\<rparr>,
       r\<lparr>rc_mem := m, rc_os := (rc_os r)\<lparr>os_trace := os_trace (rc_os r) @ es\<rparr>, rc_owner := Some i\<rparr>)"
    and f: "frame {} (rc_mem r) m"
    by (rule open_half [OF ok p c])
  let ?c = "c\<lparr>lc_mem := rm, lc_res := v, lc_point := At_put\<rparr>"
  let ?r = "r\<lparr>rc_mem := m, rc_os := (rc_os r)\<lparr>os_trace := os_trace (rc_os r) @ es\<rparr>, rc_owner := Some i\<rparr>"
  have t: "table_ok (rc_mem r) t" using ok by (simp add: cache_ok_def)
  note tf = table_frame [OF f t] and pf = path_ok_frame [OF f p]
  have av: "always_avail m" using ok f by (auto simp: cache_ok_def intro: always_avail_frame)
  have nd: "\<not> ndebug m" using ok frame_env(3) [OF f] by (simp add: cache_ok_def)
  have split: "lazy_iter 4 i c r = lazy_iter 2 i ?c ?r" "lazy_iter 3 i c r = lazy_iter 1 i ?c ?r"
    using lazy_iter_add [of 2 2 i c r] lazy_iter_add [of 2 1 i c r] 2 by simp_all
  from tf(1) pf(1) small
  have "(table_map (rc_mem r) t (path_value (rc_mem r) p) = None \<longrightarrow> (\<exists>c' r' t'. lazy_iter 4 i c r = Inr (c', r') \<and>
       lc_point c' = Returned http_success \<and> cache_ok t' r' \<and> frame {} (rc_mem r) (rc_mem r') \<and>
       n_buckets t' \<le> 2 * n_buckets t + 4 \<and> table_map (rc_mem r') t' (path_value (rc_mem r) p) \<noteq> None)) \<and>
    (table_map (rc_mem r) t (path_value (rc_mem r) p) \<noteq> None \<longrightarrow> lazy_iter 3 i c r = Inl Assert_failed)"
  proof (cases rule: path_store [where rm = rm, case_names refused put])
    case refused
    then show ?thesis using av unfolding always_avail_def by blast
  next
    case (put x ret t1 m' t')
    have fm: "frame {} m m'" using frame_wf [OF f] put(2) by (rule mem_ahead_frame)
    have fr: "frame {} (rc_mem r) m'" using f fm by (rule frame_trans) simp
    have nd': "\<not> ndebug m'" using nd frame_env(3) [OF fm] by simp
    note t' = table_frame [OF fm put(6)]
    have "lazy_iter 3 i c r = Inl Assert_failed" if "table_map (rc_mem r) t (path_value (rc_mem r) p) \<noteq> None"
      using that put(1,4) ok c(1) nd' tf(2) pf(2) unfolding split(2)
      by (simp add: lazy_ready_def lazy_step_def cache_ok_def c_assert_def)
    moreover have "\<exists>c' r' t'. lazy_iter 4 i c r = Inr (c', r') \<and>
       lc_point c' = Returned http_success \<and> cache_ok t' r' \<and> frame {} (rc_mem r) (rc_mem r') \<and>
       n_buckets t' \<le> 2 * n_buckets t + 4 \<and> table_map (rc_mem r') t' (path_value (rc_mem r) p) \<noteq> None"
      if new: "table_map (rc_mem r) t (path_value (rc_mem r) p) = None"
    proof -
      let ?r' = "r\<lparr>rc_mem := m', rc_os := (rc_os r)\<lparr>os_trace := os_trace (rc_os r) @ es @ [Mutex_unlock]\<rparr>, rc_owner := None, rc_table := Some t'\<rparr>"
      have ret: "ret \<noteq> 0" using put(4) new tf(2) pf(2) by simp
      have "lazy_iter 4 i c r = Inr (?c\<lparr>lc_point := Returned http_success\<rparr>, ?r')"
        unfolding split(1) using put(1,5) ok c(1) ret
        by (simp add: numeral_2_eq_2 lazy_ready_def lazy_step_def lazy_unlock_def cache_ok_def c_assert_def calm_def)
      moreover have "cache_ok t' ?r'"
        using ok frame_wf [OF fr] always_avail_frame [OF av fm] nd' t'(1) by (simp add: cache_ok_def calm_def)
      moreover have "table_map m' t' (path_value (rc_mem r) p) \<noteq> None" unfolding t'(2) put(7) pf(2) by simp
      ultimately show ?thesis using fr put(8)
        by (intro exI [of _ "?c\<lparr>lc_point := Returned http_success\<rparr>"] exI [of _ ?r'] exI [of _ t']) simp
    qed
    ultimately show ?thesis by blast
  qed
  then show "table_map (rc_mem r) t (path_value (rc_mem r) p) = None \<Longrightarrow> \<exists>c' r' t'. lazy_iter 4 i c r = Inr (c', r') \<and>
       lc_point c' = Returned http_success \<and> cache_ok t' r' \<and> frame {} (rc_mem r) (rc_mem r') \<and>
       n_buckets t' \<le> 2 * n_buckets t + 4 \<and> table_map (rc_mem r') t' (path_value (rc_mem r) p) \<noteq> None"
    and "table_map (rc_mem r) t (path_value (rc_mem r) p) \<noteq> None \<Longrightarrow> lazy_iter 3 i c r = Inl Assert_failed" by simp_all
qed

lemma hit_call:
  assumes ok: "cache_ok t r" and p: "path_ok (rc_mem r) p" and hit: "table_map (rc_mem r) t (path_value (rc_mem r) p) \<noteq> None"
  obtains c' r' where "lazy_iter 8 i (lazy_start p v False) r = Inr (c', r')" and "lc_point c' = Returned http_success"
proof -
  from hit obtain rm where rm: "table_map (rc_mem r) t (path_value (rc_mem r) p) = Some rm" by blast
  have R: "table_ok (rc_mem r) t" "r_val (reply (rc_os r) 0) = 0" "r_val (reply (rc_os r) 1) = 0" "rc_table r = Some t" "rc_owner r = None"
    using ok by (simp_all add: cache_ok_def calm_def reply_def)
  have "bnd (lazy_iter 8 i (lazy_start p v False) r) (\<lambda>x. Inr (lazy_outcome x)) = Inr (Some (http_success, v, Some t, rc_mem r,
      (rc_os r)\<lparr>os_trace := os_trace (rc_os r) @ [Mutex_lock, Mutex_unlock]\<rparr>))"
    using get_resource_hit [OF R(1) p rm R(2,3), of v] by (simp add: lazy_iter_lazy [OF R(5)] R(4) get_resource_cached_def)
  then obtain x where x: "lazy_iter 8 i (lazy_start p v False) r = Inr x" "lazy_outcome x = Some (http_success, v, Some t, rc_mem r,
      (rc_os r)\<lparr>os_trace := os_trace (rc_os r) @ [Mutex_lock, Mutex_unlock]\<rparr>)" by (auto elim!: bnd_InrE)
  show thesis
    by (rule that [of "fst x" "snd x"]) (use x in \<open>auto simp: lazy_outcome_def split: prod.splits lazy_point.splits\<close>)
qed

text \<open>
  C11: Two requests for one path that is not cached yet: made one after the other they both succeed, but when
  the second looks the path up while the first has the file open, both find it missing, and the call
  that inserts last fails its assertion - although no call of the system has failed.
\<close>

theorem racing_requests_abort:
  assumes "rc_owner r = None" and "rc_table r = Some t" and "wf_mem (rc_mem r)" and "table_ok (rc_mem r) t"
    and "n_buckets t < 2 ^ 29" and "always_avail (rc_mem r)" and "\<not> ndebug (rc_mem r)"
    and "\<forall>k. r_val (os_replies (rc_os r) k) = 0" and "path_ok (rc_mem r) p" and "path_ok (rc_mem r) q"
    and "path_value (rc_mem r) q = path_value (rc_mem r) p" and "table_map (rc_mem r) t (path_value (rc_mem r) p) = None"
  shows "(\<exists>cs r'. run_schedule (replicate 8 0 @ replicate 8 1) [lazy_start p v False, lazy_start q v' False] r = Inr (cs, r') \<and>
       (\<forall>c \<in> set cs. lc_point c = Returned http_success)) \<and>
     run_schedule (replicate 4 0 @ replicate 4 1 @ replicate 4 0 @ replicate 3 1)
       [lazy_start p v False, lazy_start q v' False] r = Inl Assert_failed"
proof
  let ?m = "rc_mem r" and ?a = "lazy_start p v False" and ?b = "lazy_start q v' False"
  let ?a' = "?a\<lparr>lc_point := At_open\<rparr>" and ?b' = "?b\<lparr>lc_point := At_open\<rparr>"
  let ?more = "\<lambda>r. r\<lparr>rc_os := (rc_os r)\<lparr>os_trace := os_trace (rc_os r) @ [Mutex_lock, Mutex_unlock]\<rparr>\<rparr>"
  have ok: "cache_ok t r" using assms(1-4,6-8) by (simp add: cache_ok_def calm_def)
  have ok1: "cache_ok t (?more r)" and ok2: "cache_ok t (?more (?more r))" using ok by (simp_all add: cache_ok_def calm_def)
  have small: "n_buckets t < 2 ^ 31" using assms(5) by simp
  have a: "lc_path ?a' = p" "lc_point ?a' = At_open" "lc_mem ?a' = zero_mapped" by (simp_all add: lazy_start_def)
  have b: "lc_path ?b' = q" "lc_point ?b' = At_open" "lc_mem ?b' = zero_mapped" by (simp_all add: lazy_start_def)
  have la: "lazy_iter 4 0 ?a r = Inr (?a', ?more r)" by (rule lookup_half [OF ok assms(9,12)])
  show "\<exists>cs r'. run_schedule (replicate 8 0 @ replicate 8 1) [?a, ?b] r = Inr (cs, r') \<and>
       (\<forall>c \<in> set cs. lc_point c = Returned http_success)"
  proof -
    obtain c1 r1 t1 where 1: "lazy_iter 4 0 ?a' (?more r) = Inr (c1, r1)" "lc_point c1 = Returned http_success" "cache_ok t1 r1"
      "frame {} ?m (rc_mem r1)" "table_map (rc_mem r1) t1 (path_value ?m p) \<noteq> None"
      using store_half(1) [OF ok1 _ small a, of 0] assms(9,12) by auto
    have q: "path_ok (rc_mem r1) q" "path_value (rc_mem r1) q = path_value ?m p"
      using path_ok_frame [OF 1(4) assms(10)] assms(11) by simp_all
    have h: "table_map (rc_mem r1) t1 (path_value (rc_mem r1) q) \<noteq> None" using 1(5) q(2) by simp
    obtain c2 r2 where 2: "lazy_iter 8 1 ?b r1 = Inr (c2, r2)" "lc_point c2 = Returned http_success"
      by (rule hit_call [OF 1(3) q(1) h])
    have "lazy_iter 8 0 ?a r = Inr (c1, r1)" using lazy_iter_add [of 4 4 0 ?a r] la 1(1) by simp
    with 1(2) 2 show ?thesis
      by (intro exI [of _ "[c1, c2]"] exI [of _ r2]) (simp add: run_schedule_append run_schedule_one)
  qed
  have lb: "lazy_iter 4 1 ?b (?more r) = Inr (?b', ?more (?more r))"
    using lookup_half [OF ok1, of q 1 v'] assms(10,11,12) by simp
  obtain c1 r1 t1 where 1: "lazy_iter 4 0 ?a' (?more (?more r)) = Inr (c1, r1)" "cache_ok t1 r1"
    "frame {} ?m (rc_mem r1)" "n_buckets t1 \<le> 2 * n_buckets t + 4" "table_map (rc_mem r1) t1 (path_value ?m p) \<noteq> None"
    using store_half(1) [OF ok2 _ small a, of 0] assms(9,12) by auto
  have q: "path_ok (rc_mem r1) q" "path_value (rc_mem r1) q = path_value ?m p"
    using path_ok_frame [OF 1(3) assms(10)] assms(11) by simp_all
  have n1: "n_buckets t1 < 2 ^ 31" using 1(4) assms(5) by simp
  have "lazy_iter 3 1 ?b' r1 = Inl Assert_failed" by (rule store_half(2) [OF 1(2) q(1) n1 b]) (use 1(5) q(2) in simp)
  then show "run_schedule (replicate 4 0 @ replicate 4 1 @ replicate 4 0 @ replicate 3 1) [?a, ?b] r = Inl Assert_failed"
    using la lb 1(1) by (simp add: run_schedule_append run_schedule_one)
qed

section \<open>Examples\<close>

definition sample_cache :: cache where
  "sample_cache = \<lparr>rc_table = Some kh_zero, rc_mem = empty_mem, rc_os = file_os, rc_owner = None\<rparr>"

lemma sample_cache_simps [simp]:
  "rc_table sample_cache = Some kh_zero" "rc_mem sample_cache = empty_mem" "rc_os sample_cache = file_os" "rc_owner sample_cache = None"
  by (simp_all add: sample_cache_def)

lemma racing_requests_abort_witness:
  "run_schedule (replicate 4 0 @ replicate 4 1 @ replicate 4 0 @ replicate 3 1)
     [lazy_start sample_path zero_view False, lazy_start sample_path zero_view False] sample_cache = Inl Assert_failed"
proof -
  have "n_buckets (kh_zero :: path2resmem) < 2 ^ 29" by (simp add: kh_zero_def)
  from racing_requests_abort [of sample_cache kh_zero sample_path sample_path zero_view zero_view, OF _ _ _ _ this]
  show ?thesis by (simp add: file_os_def)
qed

lemma call_alone_is_lazy_witness:
  "bnd (run_schedule (replicate 8 0) [lazy_start sample_path zero_view True] sample_cache) (\<lambda>(cs, r). Inr (lazy_outcome (cs ! 0, r))) =
     bnd (get_resource_lazy sample_path zero_view True (Some kh_zero) empty_mem file_os) (\<lambda>x. Inr (Some x))"
  using call_alone_is_lazy [of sample_cache 0 "[lazy_start sample_path zero_view True]"] by simp


end
