(* ===== verification/HttpRequest.thy ===== *)
theory HttpRequest
  imports HttpTypes CcVec
begin

text \<open>
  \<^verbatim>\<open>http/http_request.c\<close>: the request object the parser fills in. The object itself is
  typed and has one owner, so it is a record that is handed over; its two strings live in the
  byte memory, the small buffers as objects of their own that end with the request.
\<close>

record http_request_t =
  req_method :: http_method_t
  req_path :: string_t
  req_version :: http_version_t
  req_headers :: "http_header_t cc_vec"
  req_body :: string_t

text \<open>A string inside a block that \<^verbatim>\<open>calloc\<close> has cleared.\<close>

definition zero_string :: "nat \<Rightarrow> string_t" where
  "zero_string b = \<lparr>str_buf = b, str_data = NULL, str_size = 0, str_cap = 0\<rparr>"

text \<open>
  The vector handle is never null, so of the two error exits of the source only the first one
  can be taken.
\<close>

definition http_request_new :: "mem \<Rightarrow> (http_err_t \<times> http_request_t option \<times> mem) res" where
  "http_request_new m =
     (case alloc_request m of (ok, m) \<Rightarrow>
        if \<not> ok then Inr (http_err_malloc, None, m)
        else case new_buf STR_SMALL_BUF_SIZE m of (b1, m) \<Rightarrow>
             case new_buf STR_SMALL_BUF_SIZE m of (b2, m) \<Rightarrow>
             bnd (string_init (zero_string b1) m) (\<lambda>(path, m).
             bnd (string_init (zero_string b2) m) (\<lambda>(body, m).
             Inr (http_success,
                  Some \<lparr>req_method = http_method_get, req_path = path, req_version = http_ver_1_0,
                        req_headers = cc_init, req_body = body\<rparr>, m))))"

text \<open>The strings of the request are not destroyed: what they hold on the heap is leaked.\<close>

definition http_request_free :: "http_request_t option \<Rightarrow> mem \<Rightarrow> mem" where
  "http_request_free req m =
     (case req of
        None \<Rightarrow> m
      | Some r \<Rightarrow> drop_buf (str_buf (req_body r)) (drop_buf (str_buf (req_path r)) m))"

end
