(* ===== verification/HttpParse.thy ===== *)
theory HttpParse
  imports HttpRequest
begin

text \<open>
  \<^verbatim>\<open>http/http_parse_dfa.c\<close>: the incremental parser. A parse context collects the bytes of
  one request and remembers how far it has come; every feed appends a packet and goes on at the
  label of the saved state. The functions are transcribed one by one; the \<^verbatim>\<open>goto\<close>s of
  \<^verbatim>\<open>http_parse_feed\<close> are the type \<open>jump\<close>.
\<close>

section \<open>State\<close>

datatype http_parse_wait_state_t =
    http_parse_start | http_parse_wait_req | http_parse_wait_hdr | http_parse_wait_fix_body
  | http_parse_wait_clen | http_parse_wait_cval | http_parse_end

datatype http_transfer_body_type =
    http_transfer_body_unset | http_transfer_body_fixed | http_transfer_body_chunked

record http_parse_ctx_t =
  wait_state :: http_parse_wait_state_t
  post :: string_t
  post_full_length :: size_t
  cur :: size_t
  next_line :: size_t
  request_line :: string_view_t
  header_list :: "string_view_t cc_vec"
  body_type :: http_transfer_body_type
  body_length :: size_t
  body_cur :: size_t
  body_view :: string_view_t
  http_request :: "http_request_t option"
  next_ctx :: "nat option"

text \<open>Contexts are nodes of a linked list; pointers to them are the keys of \<open>ps_nodes\<close>.\<close>

record pstate =
  ps_mem :: mem
  ps_nodes :: "nat \<Rightarrow> http_parse_ctx_t option"

text \<open>\<^verbatim>\<open>string_t_npos\<close>.\<close>

definition npos :: size_t where
  "npos = SIZE_MOD - 1"

section \<open>Tools\<close>

definition ptr_off :: "ptr \<Rightarrow> nat" where
  "ptr_off p = (case p of NULL \<Rightarrow> 0 | Ptr _ i \<Rightarrow> i)"

definition get_ctx_cur :: "http_parse_ctx_t \<Rightarrow> ptr" where
  "get_ctx_cur ctx = ptr_add (string_cstr (post ctx)) (cur ctx)"

definition get_ctx_end :: "http_parse_ctx_t \<Rightarrow> ptr" where
  "get_ctx_end ctx = ptr_add (string_cstr (post ctx)) (string_len (post ctx))"

definition get_ctx_next :: "http_parse_ctx_t \<Rightarrow> ptr" where
  "get_ctx_next ctx = ptr_add (string_cstr (post ctx)) (next_line ctx)"

definition get_ctx_line :: "mem \<Rightarrow> http_parse_ctx_t \<Rightarrow> size_t res" where
  "get_ctx_line m ctx =
     bnd (c_assert (ndebug m) (next_line ctx \<ge> sz_add (cur ctx) 2)) (\<lambda>_.
     Inr (sz_sub (sz_sub (next_line ctx) (cur ctx)) 2))"

text \<open>
  The search for a line end: at most \<open>n\<close> positions from \<open>i\<close> on, the second byte of each is
  in front of the end.
\<close>

fun clrf_loop :: "mem \<Rightarrow> ptr \<Rightarrow> nat \<Rightarrow> nat \<Rightarrow> nat option res" where
  "clrf_loop m next i 0 = Inr None"
| "clrf_loop m next i (Suc n) =
     bnd (load_byte m next i) (\<lambda>c.
     bnd (if c = CR then bnd (load_byte m next (i + 1)) (\<lambda>d. Inr (d = LF)) else Inr False) (\<lambda>hit.
     if hit then Inr (Some i) else clrf_loop m next (Suc i) n))"

definition update_ctx_to_next_clrf ::
  "mem \<Rightarrow> http_parse_ctx_t \<Rightarrow> (http_err_t \<times> http_parse_ctx_t) res" where
  "update_ctx_to_next_clrf m ctx =
     (let next = get_ctx_next ctx; endp = get_ctx_end ctx in
      bnd (clrf_loop m next 0 (ptr_off endp - ptr_off next - 1)) (\<lambda>r.
      case r of
        Some i \<Rightarrow> Inr (http_success,
                      ctx\<lparr>cur := next_line ctx, next_line := sz_add (sz_add (next_line ctx) i) 2\<rparr>)
      | None \<Rightarrow> Inr (http_err_parse_cannot_find_clrf, ctx)))"

text \<open>
  \<^verbatim>\<open>pos_next_token\<close>: the length of the token that starts at \<open>this_token\<close> and the start of
  the next one; \<open>None\<close> is \<^verbatim>\<open>http_err_parse_cannot_find_space\<close>.
\<close>

fun token_loop :: "mem \<Rightarrow> ptr \<Rightarrow> char \<Rightarrow> nat \<Rightarrow> nat \<Rightarrow> nat option res" where
  "token_loop m beg c i 0 = Inr None"
| "token_loop m beg c i (Suc n) =
     bnd (load_byte m beg i) (\<lambda>d. if d = c then Inr (Some i) else token_loop m beg c (Suc i) n)"

definition pos_next_token ::
  "mem \<Rightarrow> string_view_t \<Rightarrow> char \<Rightarrow> size_t \<Rightarrow> (size_t \<times> size_t) option res" where
  "pos_next_token m view c this_token =
     (let beg = string_view_cstr view; sv_len = string_view_len view in
      bnd (token_loop m beg c this_token (sv_len - this_token)) (\<lambda>r.
      case r of Some i \<Rightarrow> Inr (Some (i - this_token, i + 1)) | None \<Rightarrow> Inr None))"

text \<open>Two helpers of the source that nothing calls.\<close>

definition get_ctx_post_remain :: "mem \<Rightarrow> http_parse_ctx_t \<Rightarrow> size_t res" where
  "get_ctx_post_remain m ctx =
     bnd (c_assert (ndebug m) (string_len (post ctx) \<ge> cur ctx)) (\<lambda>_.
     Inr (sz_sub (string_len (post ctx)) (cur ctx)))"

definition load_back :: "mem \<Rightarrow> ptr \<Rightarrow> nat \<Rightarrow> char res" where
  "load_back m p k =
     (case p of
        NULL \<Rightarrow> Inl Null_deref
      | Ptr b i \<Rightarrow> if i < k then Inl Out_of_bounds else load_byte m (Ptr b (i - k)) 0)"

definition get_ctx_line_remain :: "mem \<Rightarrow> ptr \<Rightarrow> http_parse_ctx_t \<Rightarrow> size_t res" where
  "get_ctx_line_remain m p ctx =
     (let next_ptr = get_ctx_next ctx;
          left = sz_sub (sz_sub (ptr_off next_ptr) (ptr_off p)) 2 in
      if ndebug m then Inr left
      else if p = NULL \<or> next_ptr = NULL then Inl Assert_failed
      else if ptr_off next_ptr \<le> ptr_off p then Inl Assert_failed
      else bnd (load_back m next_ptr 2) (\<lambda>c.
           if c \<noteq> CR then Inl Assert_failed
           else bnd (load_back m next_ptr 1) (\<lambda>d.
             if d \<noteq> LF \<or> ptr_off next_ptr < ptr_off p + 2 then Inl Assert_failed
             else Inr left)))"

definition get_ctx_focus_line :: "mem \<Rightarrow> http_parse_ctx_t \<Rightarrow> string_view_t res" where
  "get_ctx_focus_line m ctx =
     (let c = get_ctx_cur ctx; next = get_ctx_next ctx in
      bnd (c_assert (ndebug m) (ptr_off next \<ge> ptr_off c + 2)) (\<lambda>_.
      Inr (string_view_from_parts c (sz_sub (sz_sub (ptr_off next) (ptr_off c)) 2))))"

text \<open>
  The body type a header announces. The answer for \<^verbatim>\<open>Content-Type\<close> reads the
  \<^verbatim>\<open>connection\<close> member of the union; the caller ignores it.
\<close>

definition header_line_update_body_type ::
  "http_header_t \<Rightarrow> http_parse_ctx_t \<Rightarrow> http_err_t \<times> http_parse_ctx_t" where
  "header_line_update_body_type header ctx =
     (let v = hdr_value header in
      case hdr_field header of
        http_hdr_content_length \<Rightarrow>
          (http_success,
           if has_parsed_type v
           then ctx\<lparr>body_type := http_transfer_body_fixed,
                    body_length := nat (content_length_of v mod int SIZE_MOD)\<rparr>
           else ctx)
      | http_hdr_transfer_encoding \<Rightarrow>
          (http_success,
           if has_parsed_type v \<and> low32 (value_bits v) = chunked_code
           then ctx\<lparr>body_type := http_transfer_body_chunked\<rparr> else ctx)
      | http_hdr_content_type \<Rightarrow>
          if \<not> has_parsed_type v then (http_success, ctx)
          else if low32 (value_bits v) = connection_keep_alive_code
          then (http_err_request_keep_alive, ctx)
          else if low32 (value_bits v) = connection_close_code
          then (http_err_request_want_to_close, ctx)
          else (http_success, ctx)
      | _ \<Rightarrow> (http_success, ctx))"

section \<open>The request line and the header lines\<close>

definition parse_request_line ::
  "http_parse_ctx_t \<Rightarrow> mem \<Rightarrow> (http_err_t \<times> http_parse_ctx_t \<times> mem) res" where
  "parse_request_line ctx m =
     (case http_request ctx of
        None \<Rightarrow> bnd (c_assert (ndebug m) False) (\<lambda>_. Inl Null_deref)
      | Some request \<Rightarrow>
          let request_line_sv = request_line ctx in
          bnd (pos_next_token m request_line_sv SP 0) (\<lambda>r.
          case r of
            None \<Rightarrow>
              Inr (http_err_parse_cannot_find_space,
                   ctx\<lparr>http_request := Some (request\<lparr>req_method := http_method_unkown,
                                                     req_version := http_ver_unkown\<rparr>)\<rparr>, m)
          | Some (token_len, next_token) \<Rightarrow>
              bnd (c_assert (ndebug m) (next_token \<le> next_line ctx)) (\<lambda>_.
              bnd (c_assert (ndebug m) (next_token \<ge> cur ctx)) (\<lambda>_.
              bnd (string_view_substr m request_line_sv 0 token_len) (\<lambda>method_sv.
              bnd (c_assert (ndebug m) (string_view_len method_sv = token_len)) (\<lambda>_.
              bnd (http_match_method m method_sv) (\<lambda>method.
              let request = request\<lparr>req_method := method\<rparr>; cur_token = next_token in
              bnd (pos_next_token m request_line_sv SP cur_token) (\<lambda>r.
              case r of
                None \<Rightarrow> Inr (http_err_parse_cannot_find_space, ctx\<lparr>http_request := Some request\<rparr>, m)
              | Some (token_len, next_token) \<Rightarrow>
                  bnd (c_assert (ndebug m) (next_token \<le> next_line ctx)) (\<lambda>_.
                  bnd (c_assert (ndebug m) (next_token \<ge> cur ctx)) (\<lambda>_.
                  bnd (string_view_substr m request_line_sv cur_token token_len) (\<lambda>path_sv.
                  bnd (string_init_from_string_view (req_path request) path_sv m) (\<lambda>(ok, path, m).
                  let request = request\<lparr>req_path := path\<rparr> in
                  if \<not> ok then Inr (http_err_malloc, ctx\<lparr>http_request := Some request\<rparr>, m)
                  else
                    let cur_token = next_token in
                    bnd (string_view_substr m request_line_sv cur_token
                           (sz_sub (sz_sub (next_line ctx) 2) cur_token)) (\<lambda>version_sv.
                    bnd (http_match_version m version_sv) (\<lambda>version.
                    Inr (http_success,
                         ctx\<lparr>http_request := Some (request\<lparr>req_version := version\<rparr>)\<rparr>, m)))))))))))))))"

definition parse_header_line ::
  "http_parse_ctx_t \<Rightarrow> mem \<Rightarrow> (http_err_t \<times> http_parse_ctx_t \<times> mem) res" where
  "parse_header_line ctx m =
     bnd (cc_last (header_list ctx)) (\<lambda>header_sv.
     bnd (pos_next_token m header_sv (CHR '':'') 0) (\<lambda>r.
     case r of
       None \<Rightarrow> Inr (http_err_parse_cannot_find_space, ctx, m)
     | Some (token_len, next_token) \<Rightarrow>
         bnd (string_view_substr m header_sv 0 token_len) (\<lambda>key_sv.
         bnd (http_match_header_field m key_sv) (\<lambda>field.
         let new_header = zero_header\<lparr>hdr_field := field\<rparr>;
             new_header = (if field = http_hdr_unkown then new_header\<lparr>hdr_name := key_sv\<rparr>
                           else new_header) in
         bnd (load_byte m (string_view_cstr header_sv) next_token) (\<lambda>c.
         let cur_token = (if c = SP then next_token + 1 else next_token) in
         bnd (string_view_substr m header_sv cur_token npos) (\<lambda>sv.
         bnd (http_hdr_parse_value (Some new_header) sv m) (\<lambda>(herr, hdr, m).
         let new_header = (case hdr of Some h \<Rightarrow> h | None \<Rightarrow> new_header);
             new_header = (if herr \<noteq> http_success
                           then new_header\<lparr>hdr_field := http_hdr_unkown, hdr_name := key_sv\<rparr>
                           else new_header) in
         case http_request ctx of
           None \<Rightarrow> Inl Null_deref
         | Some request \<Rightarrow>
             (case cc_push (req_headers request) new_header m of (ok, hs, m) \<Rightarrow>
                let ctx = ctx\<lparr>http_request := Some (request\<lparr>req_headers := hs\<rparr>)\<rparr> in
                if \<not> ok then Inr (http_err_malloc, ctx, m)
                else Inr (herr, snd (header_line_update_body_type new_header ctx), m)))))))))"

section \<open>Contexts\<close>

definition zero_ctx :: "nat \<Rightarrow> http_parse_ctx_t" where
  "zero_ctx b =
     \<lparr>wait_state = http_parse_start, post = zero_string b, post_full_length = 0, cur = 0,
      next_line = 0, request_line = zero_view, header_list = cc_init,
      body_type = http_transfer_body_unset, body_length = 0, body_cur = 0, body_view = zero_view,
      http_request = None, next_ctx = None\<rparr>"

text \<open>A new node; the pointer is set even when the request cannot be allocated.\<close>

definition http_parse_ctx_new :: "pstate \<Rightarrow> (http_err_t \<times> nat option \<times> pstate) res" where
  "http_parse_ctx_new st =
     (let m = ps_mem st; nid = brk m in
      case alloc_request m of (ok, m) \<Rightarrow>
        if \<not> ok then Inr (http_err_malloc, None, st\<lparr>ps_mem := m\<rparr>)
        else case new_buf STR_SMALL_BUF_SIZE m of (b, m) \<Rightarrow>
          bnd (http_request_new m) (\<lambda>(herr, req, m).
          Inr (herr, Some nid,
               \<lparr>ps_mem = m, ps_nodes = (ps_nodes st)(nid := Some ((zero_ctx b)\<lparr>http_request := req\<rparr>))\<rparr>)))"

definition http_parse_ctx_free_node :: "nat option \<Rightarrow> pstate \<Rightarrow> pstate res" where
  "http_parse_ctx_free_node node st =
     (case node of
        None \<Rightarrow> Inr st
      | Some nid \<Rightarrow>
          (case ps_nodes st nid of
             None \<Rightarrow> Inl Dangling
           | Some ctx \<Rightarrow>
               let m = http_request_free (http_request ctx) (ps_mem st) in
               bnd (string_destroy (post ctx) m) (\<lambda>m.
               Inr \<lparr>ps_mem = drop_buf (str_buf (post ctx)) m, ps_nodes = (ps_nodes st)(nid := None)\<rparr>)))"

text \<open>The list is freed from its end; \<open>fuel\<close> bounds the length of the list.\<close>

fun http_parse_ctx_destroy_chain :: "nat \<Rightarrow> nat option \<Rightarrow> pstate \<Rightarrow> pstate res" where
  "http_parse_ctx_destroy_chain fuel None st = Inr st"
| "http_parse_ctx_destroy_chain 0 (Some nid) st = Inl No_fuel"
| "http_parse_ctx_destroy_chain (Suc fuel) (Some nid) st =
     (case ps_nodes st nid of
        None \<Rightarrow> Inl Dangling
      | Some ctx \<Rightarrow>
          bnd (if next_ctx ctx \<noteq> None
               then http_parse_ctx_destroy_chain fuel (next_ctx ctx) st else Inr st)
            (\<lambda>st. http_parse_ctx_free_node (Some nid) st))"

section \<open>Feeding a packet\<close>

datatype label = L_req | L_hdr | L_fix_body | L_clen | L_cval | L_end

datatype jump = Goto label | Return http_err_t

fun state_label :: "http_parse_wait_state_t \<Rightarrow> label" where
  "state_label http_parse_start = L_req"
| "state_label http_parse_wait_req = L_req"
| "state_label http_parse_wait_hdr = L_hdr"
| "state_label http_parse_wait_fix_body = L_fix_body"
| "state_label http_parse_wait_clen = L_clen"
| "state_label http_parse_wait_cval = L_cval"
| "state_label http_parse_end = L_end"

definition block_wait_req ::
  "http_parse_ctx_t \<Rightarrow> mem \<Rightarrow> (jump \<times> http_parse_ctx_t \<times> mem) res" where
  "block_wait_req ctx m =
     (let ctx = ctx\<lparr>wait_state := http_parse_wait_req\<rparr> in
      bnd (update_ctx_to_next_clrf m ctx) (\<lambda>(herr, ctx).
      if herr = http_err_parse_cannot_find_clrf then Inr (Return herr, ctx, m)
      else bnd (get_ctx_focus_line m ctx) (\<lambda>line.
        let ctx = ctx\<lparr>request_line := line\<rparr> in
        bnd (parse_request_line ctx m) (\<lambda>(herr, ctx, m).
        if herr = http_err_request_fatal then Inr (Return herr, ctx, m)
        else Inr (Goto L_hdr, ctx, m)))))"

text \<open>
  The header loop: \<open>n\<close> more rounds, \<open>cnt\<close> is \<^verbatim>\<open>header_cnt\<close>. It ends with the blank
  line, with an error of its body, or because the count is used up.
\<close>

fun header_loop ::
  "nat \<Rightarrow> nat \<Rightarrow> http_parse_ctx_t \<Rightarrow> mem \<Rightarrow> (http_err_t option \<times> nat \<times> http_parse_ctx_t \<times> mem) res" where
  "header_loop 0 cnt ctx m = Inr (None, cnt, ctx, m)"
| "header_loop (Suc n) cnt ctx m =
     bnd (update_ctx_to_next_clrf m ctx) (\<lambda>(herr, ctx).
     if herr = http_err_parse_cannot_find_clrf then Inr (Some herr, cnt, ctx, m)
     else bnd (get_ctx_line m ctx) (\<lambda>line.
       if line = 0
       then bnd (load_byte m (get_ctx_cur ctx) 0) (\<lambda>c.
            bnd (c_assert (ndebug m) (c = CR)) (\<lambda>_.
            bnd (load_byte m (get_ctx_cur ctx) 1) (\<lambda>d.
            bnd (c_assert (ndebug m) (d = LF)) (\<lambda>_.
            Inr (None, cnt, ctx\<lparr>cur := sz_add (cur ctx) 2\<rparr>, m)))))
       else bnd (get_ctx_focus_line m ctx) (\<lambda>hdr_sv.
            case cc_push (header_list ctx) hdr_sv m of (ok, hl, m) \<Rightarrow>
              let ctx = ctx\<lparr>header_list := hl\<rparr> in
              if \<not> ok then Inr (Some http_err_malloc, cnt, ctx, m)
              else bnd (parse_header_line ctx m) (\<lambda>(herr, ctx, m).
                if herr = http_err_request_fatal then Inr (Some herr, cnt, ctx, m)
                else header_loop n (Suc cnt) ctx m))))"

definition block_wait_hdr ::
  "http_parse_ctx_t \<Rightarrow> mem \<Rightarrow> (jump \<times> http_parse_ctx_t \<times> mem) res" where
  "block_wait_hdr ctx m =
     (let ctx = ctx\<lparr>wait_state := http_parse_wait_hdr\<rparr> in
      bnd (header_loop 100 1 ctx m) (\<lambda>(err, header_cnt, ctx, m).
      case err of
        Some herr \<Rightarrow> Inr (Return herr, ctx, m)
      | None \<Rightarrow>
          if header_cnt = 100 then Inr (Return http_err_request_fatal, ctx, m)
          else case body_type ctx of
            http_transfer_body_unset \<Rightarrow>
              Inr (Goto L_end, ctx\<lparr>post_full_length := next_line ctx\<rparr>, m)
          | http_transfer_body_fixed \<Rightarrow> Inr (Goto L_fix_body, ctx, m)
          | http_transfer_body_chunked \<Rightarrow> Inr (Goto L_clen, ctx, m)))"

definition block_wait_fix_body ::
  "http_parse_ctx_t \<Rightarrow> mem \<Rightarrow> (jump \<times> http_parse_ctx_t \<times> mem) res" where
  "block_wait_fix_body ctx m =
     (let ctx = ctx\<lparr>wait_state := http_parse_wait_fix_body, body_cur := 0,
                    post_full_length := sz_add (cur ctx) (body_length ctx)\<rparr> in
      if post_full_length ctx > string_len (post ctx)
      then Inr (Return http_err_request_tcp_segment_in_body, ctx, m)
      else
        let ctx = ctx\<lparr>next_line := sz_add (cur ctx) (body_length ctx)\<rparr> in
        bnd (string_subview m (post ctx) (cur ctx) (sz_sub (next_line ctx) (cur ctx))) (\<lambda>bv.
        let ctx = ctx\<lparr>body_view := bv\<rparr> in
        bnd (c_assert (ndebug m) (string_view_len bv = body_length ctx)) (\<lambda>_.
        case http_request ctx of
          None \<Rightarrow> Inl Null_deref
        | Some request \<Rightarrow>
            bnd (string_init_from_string_view (req_body request) bv m) (\<lambda>(ok, body, m).
            let ctx = ctx\<lparr>http_request := Some (request\<lparr>req_body := body\<rparr>)\<rparr> in
            if \<not> ok then Inr (Return http_err_malloc, ctx, m) else Inr (Goto L_end, ctx, m)))))"

text \<open>The blocks of a chunked body only record the state and fall through.\<close>

definition block_wait_clen ::
  "http_parse_ctx_t \<Rightarrow> mem \<Rightarrow> (jump \<times> http_parse_ctx_t \<times> mem) res" where
  "block_wait_clen ctx m = Inr (Goto L_cval, ctx\<lparr>wait_state := http_parse_wait_clen\<rparr>, m)"

definition block_wait_cval ::
  "http_parse_ctx_t \<Rightarrow> mem \<Rightarrow> (jump \<times> http_parse_ctx_t \<times> mem) res" where
  "block_wait_cval ctx m = Inr (Goto L_end, ctx\<lparr>wait_state := http_parse_wait_cval\<rparr>, m)"

definition run_block ::
  "label \<Rightarrow> http_parse_ctx_t \<Rightarrow> mem \<Rightarrow> (jump \<times> http_parse_ctx_t \<times> mem) res" where
  "run_block l ctx m =
     (case l of
        L_req \<Rightarrow> block_wait_req ctx m
      | L_hdr \<Rightarrow> block_wait_hdr ctx m
      | L_fix_body \<Rightarrow> block_wait_fix_body ctx m
      | L_clen \<Rightarrow> block_wait_clen ctx m
      | L_cval \<Rightarrow> block_wait_cval ctx m
      | L_end \<Rightarrow> Inr (Goto L_end, ctx, m))"

text \<open>
  The branch behind \<^verbatim>\<open>end\<close> for bytes that belong to the next request: it makes a new
  node for them, which parsing continues with. The result is an error to return, or the key of
  the new node.
\<close>

definition sticky_branch ::
  "string_view_t \<Rightarrow> nat \<Rightarrow> http_parse_ctx_t \<Rightarrow> pstate \<Rightarrow> ((http_err_t + nat) \<times> pstate) res" where
  "sticky_branch packet nid ctx st =
     bnd (c_assert (ndebug (ps_mem st)) (post_full_length ctx < string_len (post ctx))) (\<lambda>_.
     bnd (string_resize (post ctx) (post_full_length ctx) (ps_mem st)) (\<lambda>(_, p, m).
     let ctx = ctx\<lparr>post := p\<rparr> in
     bnd (http_parse_ctx_new (st\<lparr>ps_mem := m\<rparr>)) (\<lambda>(herr, new, st).
     let ctx = ctx\<lparr>next_ctx := new\<rparr>;
         st = st\<lparr>ps_nodes := (ps_nodes st)(nid := Some ctx)\<rparr> in
     if herr \<noteq> http_success then Inr (Inl http_err_request_fatal, st)
     else case new of
       None \<Rightarrow> Inl Null_deref
     | Some nid' \<Rightarrow>
         (case ps_nodes st nid' of
            None \<Rightarrow> Inl Dangling
          | Some ctx' \<Rightarrow>
              let bias = sz_sub (body_length ctx) (post_full_length ctx) in
              bnd (string_view_substr (ps_mem st) packet bias npos) (\<lambda>rest.
              bnd (string_init_from_string_view (post ctx') rest (ps_mem st)) (\<lambda>(ok, p, m).
              let st = \<lparr>ps_mem = m, ps_nodes = (ps_nodes st)(nid' := Some (ctx'\<lparr>post := p\<rparr>))\<rparr> in
              if \<not> ok then Inr (Inl http_err_malloc, st) else Inr (Inr nid', st)))))))"

text \<open>
  The run from a label on, with the context of node \<open>nid\<close> in \<open>ctx\<close>: the error, the new tail
  when the run completes, and the state. The fuel bounds the number of blocks.
\<close>

fun feed_run ::
  "nat \<Rightarrow> label \<Rightarrow> string_view_t \<Rightarrow> nat \<Rightarrow> http_parse_ctx_t \<Rightarrow> pstate \<Rightarrow>
     (http_err_t \<times> nat option \<times> pstate) res" where
  "feed_run 0 l packet nid ctx st = Inl No_fuel"
| "feed_run (Suc fuel) l packet nid ctx st =
     (if l \<noteq> L_end
      then bnd (run_block l ctx (ps_mem st)) (\<lambda>(j, ctx, m).
           let st = st\<lparr>ps_mem := m\<rparr> in
           case j of
             Return herr \<Rightarrow> Inr (herr, None, st\<lparr>ps_nodes := (ps_nodes st)(nid := Some ctx)\<rparr>)
           | Goto l' \<Rightarrow> feed_run fuel l' packet nid ctx st)
      else bnd (c_assert (ndebug (ps_mem st)) (post_full_length ctx = next_line ctx)) (\<lambda>_.
           if next_line ctx < post_full_length ctx
           then bnd (sticky_branch packet nid ctx st) (\<lambda>(r, st).
                case r of
                  Inl herr \<Rightarrow> Inr (herr, None, st)
                | Inr nid' \<Rightarrow>
                    (case ps_nodes st nid' of
                       None \<Rightarrow> Inl Dangling
                     | Some ctx' \<Rightarrow> feed_run fuel L_req packet nid' ctx' st))
           else bnd (c_assert (ndebug (ps_mem st)) (post_full_length ctx = string_len (post ctx))) (\<lambda>_.
                Inr (http_success, Some nid,
                     st\<lparr>ps_nodes := (ps_nodes st)(nid := Some (ctx\<lparr>wait_state := http_parse_end\<rparr>))\<rparr>))))"

text \<open>Five blocks are the longest run without the branch for sticky packets.\<close>

definition feed_fuel :: nat where
  "feed_fuel = 6"

text \<open>The tail pointer is written on success only.\<close>

definition http_parse_feed ::
  "nat option \<Rightarrow> string_view_t \<Rightarrow> pstate \<Rightarrow> (http_err_t \<times> nat option \<times> pstate) res" where
  "http_parse_feed tail packet st =
     (case tail of
        None \<Rightarrow> Inl Null_deref
      | Some nid \<Rightarrow>
          (case ps_nodes st nid of
             None \<Rightarrow> Inl Dangling
           | Some ctx \<Rightarrow>
               bnd (string_append_view (post ctx) packet (ps_mem st)) (\<lambda>(ok, p, m).
               let ctx = ctx\<lparr>post := p\<rparr>; st = st\<lparr>ps_mem := m\<rparr> in
               if \<not> ok
               then Inr (http_err_malloc, tail, st\<lparr>ps_nodes := (ps_nodes st)(nid := Some ctx)\<rparr>)
               else bnd (feed_run feed_fuel (state_label (wait_state ctx)) packet nid ctx st)
                      (\<lambda>(herr, tail', st).
                       Inr (herr, (case tail' of None \<Rightarrow> tail | Some t \<Rightarrow> Some t), st)))))"

definition http_parse_pop_request_and_release ::
  "nat option \<Rightarrow> pstate \<Rightarrow> (bool \<times> http_request_t option \<times> nat option \<times> pstate) res" where
  "http_parse_pop_request_and_release head st =
     (case head of
        None \<Rightarrow> Inr (False, None, head, st)
      | Some nid \<Rightarrow>
          (case ps_nodes st nid of
             None \<Rightarrow> Inl Dangling
           | Some ctx \<Rightarrow>
               if wait_state ctx \<noteq> http_parse_end then Inr (False, None, head, st)
               else
                 let st = st\<lparr>ps_nodes := (ps_nodes st)(nid := Some (ctx\<lparr>http_request := None\<rparr>))\<rparr> in
                 bnd (http_parse_ctx_free_node (Some nid) st) (\<lambda>st.
                 Inr (True, http_request ctx, next_ctx ctx, st))))"

end
