(* ===== verification/HttpTypesSpec.thy ===== *)
theory HttpTypesSpec
  imports HttpTypes StringTSpec
begin

text \<open>
  What the recognisers of \<^verbatim>\<open>http_types.c\<close> compute, as functions of the bytes of their view,
  and what the tables print and the recognisers read back.
\<close>

section \<open>Recognisers as functions of the bytes\<close>

fun index_of :: "'a \<Rightarrow> 'a list \<Rightarrow> nat option" where
  "index_of x [] = None"
| "index_of x (y # ys) = (if x = y then Some 0 else map_option Suc (index_of x ys))"

lemma match_table_index:
  assumes "view_bytes m sv = Inr bs" and "length bs < MAX_LEN"
    and "\<forall>s \<in> set ss. NUL \<notin> set s \<and> length s < MAX_LEN"
  shows "match_table m sv ss i =
     Inr (case index_of bs ss of None \<Rightarrow> None | Some j \<Rightarrow> Some (i + j))"
  using assms(3)
proof (induction ss arbitrary: i)
  case (Cons s ss)
  have "\<exists>c. string_view_compare_cstr m sv (lit s) = Inr c \<and> (c = 0 \<longleftrightarrow> bs = s)"
    using Cons.prems assms(2) by (intro string_view_compare_lit [OF assms(1)]) auto
  then obtain c where c: "string_view_compare_cstr m sv (lit s) = Inr c" "c = 0 \<longleftrightarrow> bs = s" by blast
  with Cons show ?case by (auto split: option.splits)
qed simp

definition method_of :: "char list \<Rightarrow> http_method_t" where
  "method_of bs =
     (if bs = ''GET'' then http_method_get else if bs = ''HEAD'' then http_method_head
      else if bs = ''POST'' then http_method_post else if bs = ''PUT'' then http_method_put
      else http_method_unkown)"

definition field_of :: "char list \<Rightarrow> http_header_field_t" where
  "field_of bs =
     (case index_of bs http_header_fields_str of
        Some i \<Rightarrow> http_header_fields ! i | None \<Rightarrow> http_hdr_unkown)"

definition version_of :: "char list \<Rightarrow> http_version_t" where
  "version_of bs =
     (if length bs < 6 \<or> take 5 bs \<noteq> ''HTTP/'' then http_ver_unkown
      else if bs ! 5 = CHR ''1''
      then (if bs = ''HTTP/1.1'' then http_ver_1_1
            else if bs = ''HTTP/1.0'' then http_ver_1_0 else http_ver_unkown)
      else if bs ! 5 = CHR ''2'' then http_ver_2_0
      else if bs ! 5 = CHR ''3'' then http_ver_3_0
      else http_ver_unkown)"

lemma http_match_method_of:
  assumes "view_bytes m sv = Inr bs" and "length bs < MAX_LEN"
  shows "http_match_method m sv = Inr (method_of bs)"
proof -
  have "match_table m sv http_methods_str 0 = 
      Inr (case index_of bs http_methods_str of None \<Rightarrow> None | Some j \<Rightarrow> Some (0 + j))"
    using assms by (rule match_table_index) (simp add: http_methods_str_def)
  then show ?thesis
    by (auto simp: http_match_method_def method_of_def http_methods_str_def http_methods_def)
qed

lemma http_match_header_field_of:
  assumes "view_bytes m sv = Inr bs" and "length bs < MAX_LEN"
  shows "http_match_header_field m sv = Inr (field_of bs)"
proof -
  have "match_table m sv http_header_fields_str 0 =
      Inr (case index_of bs http_header_fields_str of None \<Rightarrow> None | Some j \<Rightarrow> Some (0 + j))"
    using assms by (rule match_table_index) (simp add: http_header_fields_str_def)
  then show ?thesis
    by (simp add: http_match_header_field_def field_of_def split: option.split)
qed

lemma strncmp_bytes_lit:
  assumes "length s = n" and "n \<le> length ys" and "NUL \<notin> set s"
  shows "\<exists>c. strncmp_bytes n (s @ zs) ys = Inr c \<and> (c = 0 \<longleftrightarrow> take n ys = s)"
  using assms
  by (induction n "s @ zs" ys arbitrary: s rule: strncmp_bytes.induct) (auto simp: Cons_eq_append_conv)

lemma http_match_version_of:
  assumes "view_bytes m sv = Inr bs"
  shows "http_match_version m sv = Inr (version_of bs)"
proof (cases "length bs < 6")
  case True
  with view_bytes_length [OF assms] show ?thesis
    by (simp add: http_match_version_def sv_defs version_of_def)
next
  case False
  note len = view_bytes_length [OF assms]
  have ld: "load_bytes m (sv_data sv) (length bs) = Inr bs" using assms by (simp add: view_bytes_def len)
  then obtain zs where t: "tail_bytes m (sv_data sv) = Inr (bs @ zs)"
    using False by (elim tail_bytes_load) auto
  have "\<exists>c. strncmp_bytes 5 (''HTTP/'' @ [NUL]) (bs @ zs) = Inr c \<and> (c = 0 \<longleftrightarrow> take 5 (bs @ zs) = ''HTTP/'')"
    using False by (intro strncmp_bytes_lit) auto
  then obtain c where c: "c_strncmp m (lit ''HTTP/'') (sv_data sv) 5 = Inr c"
      "c = 0 \<longleftrightarrow> take 5 bs = ''HTTP/''"
    using t False by (auto simp: c_strncmp_def tail_bytes_def)
  have b: "k < length bs \<Longrightarrow> load_byte m (sv_data sv) k = Inr (bs ! k)" for k
    using ld by (rule load_byte_nth)
  have eight: "bs = ''HTTP/1.'' @ [d] \<longleftrightarrow> length bs = 8 \<and> take 5 bs = ''HTTP/'' \<and> bs ! 5 = CHR ''1'' \<and>
      bs ! 6 = CHR ''.'' \<and> bs ! 7 = d" for d
  proof
    assume h: "length bs = 8 \<and> take 5 bs = ''HTTP/'' \<and> bs ! 5 = CHR ''1'' \<and> bs ! 6 = CHR ''.'' \<and> bs ! 7 = d"
    then have "drop 5 bs = bs ! 5 # bs ! 6 # bs ! 7 # []"
      using Cons_nth_drop_Suc [of 5 bs] Cons_nth_drop_Suc [of 6 bs] Cons_nth_drop_Suc [of 7 bs] by simp
    with h have "take 5 bs @ drop 5 bs = ''HTTP/1.'' @ [d]" by simp
    then show "bs = ''HTTP/1.'' @ [d]" by simp
  qed simp
  note e = eight [of "CHR ''1''", simplified] eight [of "CHR ''0''", simplified]
  show ?thesis
  proof (cases "take 5 bs = ''HTTP/''")
    case True
    then show ?thesis
      using False c b by (simp add: http_match_version_def sv_defs version_of_def Let_def len e)
  next
    case no: False
    then show ?thesis
      using False c by (simp add: http_match_version_def sv_defs version_of_def Let_def len)
  qed
qed

section \<open>Header values\<close>

text \<open>The local array holds the bytes up to the first NUL, and is gone afterwards.\<close>

lemma copy_to_array_cstr:
  assumes "view_bytes m sv = Inr bs" and "wf_mem m" and "length bs < MAX_LEN"
  shows "copy_to_array sv m = Inr (cstr bs, m\<lparr>brk := Suc (brk m)\<rparr>)"
proof -
  let ?k = "brk m" and ?n = "length bs"
  let ?m0 = "m\<lparr>blocks := (blocks m)(Buf ?k := Some (replicate (Suc ?n) NUL)), brk := Suc ?k\<rparr>"
  let ?m1 = "m\<lparr>blocks := (blocks m)(Buf ?k := Some (bs @ [NUL])), brk := Suc ?k\<rparr>"
  note len = view_bytes_length [OF assms(1)]
  have fresh: "blocks m (Buf ?k) = None" using assms(2) by simp
  have "frame {} m ?m0" using assms(2) by (intro frame_alloc) auto
  then have v: "view_bytes ?m0 sv = Inr bs" using assms(1) by (rule frame_view) simp
  have off: "view_off sv (Buf ?k)" using assms(1) fresh by (rule view_off_fresh) simp
  have "memcpy (Ptr (Buf ?k) 0) (sv_data sv) (sv_len sv) ?m0 =
      Inr (?m0\<lparr>blocks := (blocks ?m0)(Buf ?k := Some (take 0 (replicate (Suc ?n) NUL) @ bs @
        drop (0 + length bs) (replicate (Suc ?n) NUL)))\<rparr>)"
    using v off by (intro memcpy_view) auto
  also have "\<dots> = Inr ?m1" by (simp del: replicate_Suc) simp
  finally have 1: "memcpy (Ptr (Buf ?k) 0) (sv_data sv) (sv_len sv) ?m0 = Inr ?m1" .
  have 2: "store_bytes ?m1 (Ptr (Buf ?k) ?n) [NUL] = Inr ?m1"
    by (simp add: store_bytes_def)
  have 3: "read_cstr ?m1 (Ptr (Buf ?k) 0) = Inr (cstr bs)"
  proof -
    have "cstr (bs @ [NUL]) = cstr bs" by (induction bs) auto
    then show ?thesis by (simp add: read_cstr_def tail_bytes_def)
  qed
  have 4: "drop_buf ?k ?m1 = m\<lparr>brk := Suc ?k\<rparr>"
    using fresh by (simp add: drop_buf_def fun_upd_idem)
  show ?thesis
    using 1 2 3 4 assms(3)
    by (simp add: copy_to_array_def sv_defs len new_buf_def string_view_to_buf_def)
qed

definition typed_field :: "http_header_field_t \<Rightarrow> bool" where
  "typed_field f \<longleftrightarrow> f \<in> {http_hdr_content_type, http_hdr_content_length, http_hdr_connection,
     http_hdr_transfer_encoding}"

text \<open>Whether a value is understood, and the bits it leaves in the union.\<close>

definition value_spec :: "http_header_field_t \<Rightarrow> char list \<Rightarrow> 64 word \<Rightarrow> bool \<times> 64 word" where
  "value_spec f bs u =
     (case f of
        http_hdr_content_type \<Rightarrow>
          (case content_type_of (cstr bs) of
             None \<Rightarrow> (False, set_high32 0 (set_low32 0 u))
           | Some (a, b) \<Rightarrow>
               (a \<noteq> http_content_type_major_unkown \<or> b \<noteq> http_content_type_sub_unknown,
                set_high32 (sub_code b) (set_low32 (major_code a) u)))
      | http_hdr_content_length \<Rightarrow>
          (case c_strtoll (skip_blanks (cstr bs)) of
             None \<Rightarrow> (False, u) | Some n \<Rightarrow> (True, word_of_int n))
      | http_hdr_connection \<Rightarrow>
          if bs = ''keep-alive'' then (True, set_low32 1 u)
          else if bs = ''close'' then (True, set_low32 2 u) else (False, set_low32 0 u)
      | http_hdr_transfer_encoding \<Rightarrow>
          if bs = ''chunked'' then (True, set_low32 1 u) else (False, set_low32 0 u)
      | _ \<Rightarrow> (True, u))"

text \<open>The header \<open>http_hdr_parse_value\<close> leaves.\<close>

definition header_with_value :: "http_header_t \<Rightarrow> string_view_t \<Rightarrow> char list \<Rightarrow> http_header_t" where
  "header_with_value h sv bs =
     (let f = hdr_field h; (ok, u) = value_spec f bs (value_bits (hdr_value h))
      in h\<lparr>hdr_value := \<lparr>value_sv = sv, has_parsed_type = (ok \<and> typed_field f), value_bits = u\<rparr>\<rparr>)"

lemma http_hdr_parse_value_spec:
  assumes v: "view_bytes m sv = Inr bs" and wf: "wf_mem m" and len: "length bs < MAX_LEN"
  shows "\<exists>b \<ge> brk m. http_hdr_parse_value (Some h) sv m =
     Inr (if fst (value_spec (hdr_field h) bs (value_bits (hdr_value h))) then http_success
          else http_err_parse_value,
          Some (header_with_value h sv bs), m\<lparr>brk := b\<rparr>)"
proof -
  note c = copy_to_array_cstr [OF v wf len]
  have tab: "\<forall>s \<in> set ss. NUL \<notin> set s \<and> length s < MAX_LEN \<Longrightarrow> match_table m sv ss 0 =
      Inr (case index_of bs ss of None \<Rightarrow> None | Some j \<Rightarrow> Some (0 + j))" for ss
    using v len by (rule match_table_index)
  have conn: "match_table m sv [''keep-alive'', ''close''] 0 =
      Inr (if bs = ''keep-alive'' then Some 0 else if bs = ''close'' then Some 1 else None)"
    by (subst tab) auto
  have enc: "match_table m sv [''chunked''] 0 = Inr (if bs = ''chunked'' then Some 0 else None)"
    by (subst tab) auto
  note defs = http_hdr_parse_value_def header_with_value_def value_spec_def typed_field_def Let_def
  have same: "m\<lparr>brk := brk m\<rparr> = m" by simp
  show ?thesis
  proof (cases "hdr_field h")
    case http_hdr_content_type
    then show ?thesis
      by (intro exI [of _ "Suc (brk m)"])
        (auto simp: defs http_hdr_value_parse_content_type_def c set_content_type_def
          split: option.split)
  next
    case http_hdr_content_length
    then show ?thesis
      by (intro exI [of _ "Suc (brk m)"])
        (auto simp: defs http_hdr_value_parse_content_length_def c split: option.split)
  next
    case http_hdr_connection
    then show ?thesis
      by (intro exI [of _ "brk m"])
        (auto simp: defs http_hdr_value_parse_connection_def conn simp del: match_table.simps)
  next
    case http_hdr_transfer_encoding
    then show ?thesis
      by (intro exI [of _ "brk m"])
        (auto simp: defs http_hdr_value_parse_transfer_encoding_def enc simp del: match_table.simps)
  qed (auto simp: defs same intro!: exI [of _ "brk m"])
qed

end
