(* ===== verification/HttpParseSpec.thy ===== *)
theory HttpParseSpec
  imports HttpParse HttpTypesSpec
begin

text \<open>
  What the parser computes, without memory: the same states over the bytes received so far. A
  line is cut out of the text, its tokens are lists, and the result is the request with its
  strings. \<open>HttpParseRefine\<close> shows that \<^verbatim>\<open>http_parse_feed\<close> implements \<open>spec_feed\<close>.
\<close>

section \<open>Abstract contexts\<close>

record aheader =
  ah_field :: http_header_field_t
  ah_name :: "char list"
  ah_value :: "char list"
  ah_parsed :: bool
  ah_bits :: "64 word"

record actx =
  a_state :: http_parse_wait_state_t
  a_text :: "char list"
  a_full :: nat
  a_cur :: nat
  a_next :: nat
  a_body_type :: http_transfer_body_type
  a_body_length :: nat
  a_method :: http_method_t
  a_path :: "char list"
  a_version :: http_version_t
  a_headers :: "aheader list"
  a_body :: "char list"

definition actx0 :: actx where
  "actx0 =
     \<lparr>a_state = http_parse_start, a_text = [], a_full = 0, a_cur = 0, a_next = 0,
      a_body_type = http_transfer_body_unset, a_body_length = 0, a_method = http_method_get,
      a_path = [], a_version = http_ver_1_0, a_headers = [], a_body = []\<rparr>"

section \<open>Lines and tokens\<close>

fun find_crlf :: "char list \<Rightarrow> nat option" where
  "find_crlf (a # b # xs) = (if a = CR \<and> b = LF then Some 0 else map_option Suc (find_crlf (b # xs)))"
| "find_crlf _ = None"

text \<open>The part in front of a separator and the part behind it.\<close>

definition split_at :: "char \<Rightarrow> char list \<Rightarrow> (char list \<times> char list) option" where
  "split_at c xs = (case index_of c xs of None \<Rightarrow> None | Some k \<Rightarrow> Some (take k xs, drop (Suc k) xs))"

text \<open>The request line: an incomplete one leaves the rest of the request as it is.\<close>

definition spec_request_line :: "char list \<Rightarrow> actx \<Rightarrow> actx" where
  "spec_request_line line a =
     (case split_at SP line of
        None \<Rightarrow> a\<lparr>a_method := http_method_unkown, a_version := http_ver_unkown\<rparr>
      | Some (meth, rest) \<Rightarrow>
          (case split_at SP rest of
             None \<Rightarrow> a\<lparr>a_method := method_of meth\<rparr>
           | Some (path, ver) \<Rightarrow>
               a\<lparr>a_method := method_of meth, a_path := path, a_version := version_of ver\<rparr>))"

definition drop_space :: "char list \<Rightarrow> char list" where
  "drop_space xs = (case xs of c # cs \<Rightarrow> if c = SP then cs else xs | [] \<Rightarrow> [])"

text \<open>A header line: a value that is not understood makes the header an unknown one.\<close>

definition spec_header :: "char list \<Rightarrow> aheader option" where
  "spec_header line =
     (case split_at (CHR '':'') line of
        None \<Rightarrow> None
      | Some (key, rest) \<Rightarrow>
          let f = field_of key; value = drop_space rest; (ok, u) = value_spec f value 0 in
          Some \<lparr>ah_field = (if ok then f else http_hdr_unkown),
                ah_name = (if f = http_hdr_unkown \<or> \<not> ok then key else []),
                ah_value = value, ah_parsed = (ok \<and> typed_field f), ah_bits = u\<rparr>)"

definition spec_body_type :: "aheader \<Rightarrow> actx \<Rightarrow> actx" where
  "spec_body_type h a =
     (case ah_field h of
        http_hdr_content_length \<Rightarrow>
          if ah_parsed h
          then a\<lparr>a_body_type := http_transfer_body_fixed,
                 a_body_length := nat (sint (ah_bits h) mod int SIZE_MOD)\<rparr>
          else a
      | http_hdr_transfer_encoding \<Rightarrow>
          if ah_parsed h \<and> low32 (ah_bits h) = 1
          then a\<lparr>a_body_type := http_transfer_body_chunked\<rparr> else a
      | _ \<Rightarrow> a)"

definition spec_header_line :: "char list \<Rightarrow> actx \<Rightarrow> actx" where
  "spec_header_line line a =
     (case spec_header line of
        None \<Rightarrow> a
      | Some h \<Rightarrow> spec_body_type h (a\<lparr>a_headers := a_headers a @ [h]\<rparr>))"

section \<open>The blocks\<close>

text \<open>Advance to the next line, if there is a complete one.\<close>

definition spec_line :: "actx \<Rightarrow> (char list \<times> actx) option" where
  "spec_line a =
     (case find_crlf (drop (a_next a) (a_text a)) of
        None \<Rightarrow> None
      | Some i \<Rightarrow> Some (take i (drop (a_next a) (a_text a)),
                       a\<lparr>a_cur := a_next a, a_next := a_next a + i + 2\<rparr>))"

definition spec_wait_req :: "actx \<Rightarrow> jump \<times> actx" where
  "spec_wait_req a =
     (let a = a\<lparr>a_state := http_parse_wait_req\<rparr> in
      case spec_line a of
        None \<Rightarrow> (Return http_err_parse_cannot_find_clrf, a)
      | Some (line, a) \<Rightarrow> (Goto L_hdr, spec_request_line line a))"

fun spec_header_loop :: "nat \<Rightarrow> nat \<Rightarrow> actx \<Rightarrow> http_err_t option \<times> nat \<times> actx" where
  "spec_header_loop 0 cnt a = (None, cnt, a)"
| "spec_header_loop (Suc n) cnt a =
     (case spec_line a of
        None \<Rightarrow> (Some http_err_parse_cannot_find_clrf, cnt, a)
      | Some (line, a) \<Rightarrow>
          if line = [] then (None, cnt, a\<lparr>a_cur := a_cur a + 2\<rparr>)
          else spec_header_loop n (Suc cnt) (spec_header_line line a))"

definition spec_wait_hdr :: "actx \<Rightarrow> jump \<times> actx" where
  "spec_wait_hdr a =
     (let a = a\<lparr>a_state := http_parse_wait_hdr\<rparr> in
      case spec_header_loop 100 1 a of
        (Some herr, cnt, a) \<Rightarrow> (Return herr, a)
      | (None, cnt, a) \<Rightarrow>
          if cnt = 100 then (Return http_err_request_fatal, a)
          else case a_body_type a of
            http_transfer_body_unset \<Rightarrow> (Goto L_end, a\<lparr>a_full := a_next a\<rparr>)
          | http_transfer_body_fixed \<Rightarrow> (Goto L_fix_body, a)
          | http_transfer_body_chunked \<Rightarrow> (Goto L_clen, a))"

definition spec_wait_fix_body :: "bool \<Rightarrow> actx \<Rightarrow> (jump \<times> actx) res" where
  "spec_wait_fix_body nd a =
     (let full = sz_add (a_cur a) (a_body_length a);
          a = a\<lparr>a_state := http_parse_wait_fix_body, a_full := full\<rparr> in
      if full > length (a_text a) then Inr (Return http_err_request_tcp_segment_in_body, a)
      else
        let body = take (a_body_length a) (drop (a_cur a) (a_text a)) in
        bnd (c_assert nd (length body = a_body_length a)) (\<lambda>_.
        Inr (Goto L_end, a\<lparr>a_next := full, a_body := body\<rparr>)))"

definition spec_block :: "bool \<Rightarrow> label \<Rightarrow> actx \<Rightarrow> (jump \<times> actx) res" where
  "spec_block nd l a =
     (case l of
        L_req \<Rightarrow> Inr (spec_wait_req a)
      | L_hdr \<Rightarrow> Inr (spec_wait_hdr a)
      | L_fix_body \<Rightarrow> spec_wait_fix_body nd a
      | L_clen \<Rightarrow> Inr (Goto L_cval, a\<lparr>a_state := http_parse_wait_clen\<rparr>)
      | L_cval \<Rightarrow> Inr (Goto L_end, a\<lparr>a_state := http_parse_wait_cval\<rparr>)
      | L_end \<Rightarrow> Inr (Goto L_end, a))"

text \<open>
  The end: both assertions of the source. The branch for bytes behind the request is missing
  here, because it is never reached.
\<close>

fun spec_run :: "nat \<Rightarrow> bool \<Rightarrow> label \<Rightarrow> actx \<Rightarrow> (http_err_t \<times> actx) res" where
  "spec_run 0 nd l a = Inl No_fuel"
| "spec_run (Suc fuel) nd l a =
     (if l \<noteq> L_end
      then bnd (spec_block nd l a) (\<lambda>(j, a).
           case j of Return herr \<Rightarrow> Inr (herr, a) | Goto l' \<Rightarrow> spec_run fuel nd l' a)
      else bnd (c_assert nd (a_full a = a_next a)) (\<lambda>_.
           bnd (c_assert nd (a_full a = length (a_text a))) (\<lambda>_.
           Inr (http_success, a\<lparr>a_state := http_parse_end\<rparr>))))"

definition spec_feed :: "bool \<Rightarrow> char list \<Rightarrow> actx \<Rightarrow> (http_err_t \<times> actx) res" where
  "spec_feed nd bs a =
     spec_run feed_fuel nd (state_label (a_state a)) (a\<lparr>a_text := a_text a @ bs\<rparr>)"

text \<open>Five blocks are enough: no label is visited twice.\<close>

fun label_rank :: "label \<Rightarrow> nat" where
  "label_rank L_req = 5"
| "label_rank L_hdr = 4"
| "label_rank L_fix_body = 3"
| "label_rank L_clen = 3"
| "label_rank L_cval = 2"
| "label_rank L_end = 1"

lemma spec_block_rank:
  assumes "spec_block nd l a = Inr (Goto l', a')" and "l \<noteq> L_end"
  shows "label_rank l' < label_rank l"
  using assms
  by (cases l)
    (auto simp: spec_block_def spec_wait_req_def spec_wait_hdr_def spec_wait_fix_body_def Let_def
      bnd_eq_Inr_iff split: option.splits prod.splits if_splits http_transfer_body_type.splits)

lemma spec_block_no_fuel: "spec_block nd l a \<noteq> Inl No_fuel"
  by (cases l) (auto simp: spec_block_def spec_wait_fix_body_def Let_def c_assert_def)

lemma spec_run_fuel: "label_rank l \<le> fuel \<Longrightarrow> spec_run fuel nd l a \<noteq> Inl No_fuel"
proof (induction fuel arbitrary: l a)
  case 0
  then show ?case by (cases l) auto
next
  case (Suc fuel)
  show ?case
  proof (cases "l = L_end")
    case True
    then show ?thesis by (auto simp: c_assert_def)
  next
    case False
    show ?thesis
    proof (cases "spec_block nd l a")
      case (Inl e)
      with False spec_block_no_fuel [of nd l a] show ?thesis by auto
    next
      case (Inr r)
      obtain j a' where r: "r = (j, a')" by force
      show ?thesis
      proof (cases j)
        case (Goto l')
        with Inr r have "spec_block nd l a = Inr (Goto l', a')" by simp
        from spec_block_rank [OF this False] Suc.prems have "label_rank l' \<le> fuel" by simp
        with Suc.IH False Inr r Goto show ?thesis by simp
      qed (use False Inr r in simp)
    qed
  qed
qed

lemma spec_feed_fuel: "spec_feed nd bs a \<noteq> Inl No_fuel"
proof -
  have "label_rank (state_label (a_state a)) \<le> feed_fuel"
    by (cases "a_state a") (simp_all add: feed_fuel_def)
  then show ?thesis unfolding spec_feed_def by (rule spec_run_fuel)
qed

end
