(* ===== verification/HttpParseRefine.thy ===== *)
theory HttpParseRefine
  imports HttpParseSpec StringOps
begin

text \<open>
  \<^verbatim>\<open>http_parse_feed\<close> implements \<open>spec_feed\<close>: a relation between a parse context with
  its memory and an abstract context, and one simulation lemma per function, for an allocator
  that does not refuse. The branch for sticky packets turns out to be dead.
\<close>

section \<open>Searching\<close>

lemma find_crlf_le: "find_crlf xs = Some i \<Longrightarrow> i + 2 \<le> length xs \<and> xs ! i = CR \<and> xs ! Suc i = LF"
  by (induction xs arbitrary: i rule: find_crlf.induct) (auto split: if_splits)

lemma index_of_less: "index_of x xs = Some i \<Longrightarrow> i < length xs \<and> xs ! i = x"
  by (induction xs arbitrary: i) (auto split: if_splits)

lemma drop_two: "Suc i < length xs \<Longrightarrow> drop i xs = xs ! i # xs ! Suc i # drop (Suc (Suc i)) xs"
  by (simp add: Cons_nth_drop_Suc)

lemma map_option_Suc_plus: "map_option ((+) (Suc i)) x = map_option (\<lambda>k. Suc (i + k)) x"
  by (cases x) simp_all

lemma clrf_loop_find:
  assumes "load_bytes m p n = Inr xs" and "i + k + 1 = n \<or> n = 0 \<and> k = 0"
  shows "clrf_loop m p i k = Inr (map_option ((+) i) (find_crlf (drop i xs)))"
  using assms(2)
proof (induction k arbitrary: i)
  case 0
  then have "length (drop i xs) \<le> 1" using load_bytes_length [OF assms(1)] by auto
  then have "find_crlf (drop i xs) = None" by (cases "drop i xs") (auto simp: le_Suc_eq)
  then show ?case by simp
next
  case (Suc k)
  then have n: "Suc i < length xs" "n = length xs" using load_bytes_length [OF assms(1)] by auto
  then have b: "load_byte m p i = Inr (xs ! i)" "load_byte m p (Suc i) = Inr (xs ! Suc i)"
    using assms(1) by (auto intro: load_byte_nth)
  have "clrf_loop m p (Suc i) k = Inr (map_option ((+) (Suc i)) (find_crlf (drop (Suc i) xs)))"
    using Suc.prems by (intro Suc.IH) auto
  moreover have "drop (Suc i) xs = xs ! Suc i # drop (Suc (Suc i)) xs"
    using n by (simp add: Cons_nth_drop_Suc)
  ultimately show ?case
    using b drop_two [OF n(1)] by (auto simp: option.map_comp comp_def map_option_Suc_plus)
qed

lemma token_loop_index:
  assumes "load_bytes m p n = Inr xs" and "i + k = n \<or> n \<le> i \<and> k = 0"
  shows "token_loop m p c i k = Inr (map_option ((+) i) (index_of c (drop i xs)))"
  using assms(2)
proof (induction k arbitrary: i)
  case 0
  then have "drop i xs = []" using load_bytes_length [OF assms(1)] by auto
  then show ?case by simp
next
  case (Suc k)
  then have n: "i < length xs" "n = length xs" using load_bytes_length [OF assms(1)] by auto
  have "load_byte m p i = Inr (xs ! i)" using assms(1) n by (auto intro: load_byte_nth)
  moreover have "token_loop m p c (Suc i) k = Inr (map_option ((+) (Suc i)) (index_of c (drop (Suc i) xs)))"
    using Suc.prems by (intro Suc.IH) auto
  moreover have "drop i xs = xs ! i # drop (Suc i) xs" using n by (simp add: Cons_nth_drop_Suc)
  ultimately show ?case by (auto simp: option.map_comp comp_def map_option_Suc_plus)
qed

lemma pos_next_token_index:
  assumes "view_bytes m sv = Inr xs"
  shows "pos_next_token m sv c i = Inr (map_option (\<lambda>k. (k, i + k + 1)) (index_of c (drop i xs)))"
proof -
  have "token_loop m (sv_data sv) c i (sv_len sv - i) = Inr (map_option ((+) i) (index_of c (drop i xs)))"
    using assms unfolding view_bytes_def by (rule token_loop_index) auto
  then show ?thesis by (auto simp: pos_next_token_def sv_defs split: option.splits)
qed

section \<open>Views into the collected bytes\<close>

definition in_obj :: "base \<Rightarrow> string_view_t \<Rightarrow> bool" where
  "in_obj B sv \<longleftrightarrow> (case sv_data sv of NULL \<Rightarrow> True | Ptr b _ \<Rightarrow> b = B \<or> is_lit b)"

lemma in_obj_off: "in_obj B sv \<Longrightarrow> b \<noteq> B \<Longrightarrow> \<not> is_lit b \<Longrightarrow> view_off sv b"
  by (auto simp: in_obj_def view_off_def split: ptr.splits)

text \<open>A sub-view is a view of the same object.\<close>

lemma substr_in_obj:
  assumes "view_bytes m sv = Inr bs" and "in_obj B sv" and "sv_len sv < SIZE_MOD"
  obtains v where "string_view_substr m sv pos len = Inr v"
    and "view_bytes m v = Inr (take len (drop pos bs))" and "in_obj B v"
    and "sv_len v = length (take len (drop pos bs))"
proof -
  obtain v where v: "string_view_substr m sv pos len = Inr v" "view_bytes m v = Inr (take len (drop pos bs))"
    using string_view_substr_bytes [OF assms(1,3)] by blast
  have "in_obj B v"
    using v(1) assms(2)
    by (cases "sv_data sv")
      (auto simp: string_view_substr_def sv_defs string_view_from_cstr_lit in_obj_def
        string_view_from_parts_def Let_def split: if_splits)
  then show ?thesis using that v view_bytes_length [OF v(2)] by blast
qed

lemma frame_view_in:
  assumes "frame X m m'" and "view_bytes m sv = Inr bs" and "in_obj B sv" and "B \<notin> X"
    and "\<forall>b \<in> X. \<not> is_lit b"
  shows "view_bytes m' sv = Inr bs"
  using assms(1,2)
proof (rule frame_view)
  fix b assume "b \<in> X"
  then show "view_off sv b" using assms(3-5) by (intro in_obj_off) auto
qed

section \<open>The relation\<close>

definition hdr_same :: "http_header_t \<Rightarrow> aheader \<Rightarrow> bool" where
  "hdr_same h ah \<longleftrightarrow>
     hdr_field h = ah_field ah \<and> has_parsed_type (hdr_value h) = ah_parsed ah \<and>
     value_bits (hdr_value h) = ah_bits ah \<and> sv_len (value_sv (hdr_value h)) = length (ah_value ah)"

text \<open>A header of the current packet: its views can be read.\<close>

definition hdr_live :: "mem \<Rightarrow> base \<Rightarrow> http_header_t \<Rightarrow> aheader \<Rightarrow> bool" where
  "hdr_live m B h ah \<longleftrightarrow>
     hdr_same h ah \<and> view_bytes m (value_sv (hdr_value h)) = Inr (ah_value ah) \<and>
     in_obj B (value_sv (hdr_value h)) \<and>
     view_bytes m (hdr_name h) = Inr (ah_name ah) \<and> in_obj B (hdr_name h)"

definition req_rep :: "mem \<Rightarrow> http_request_t \<Rightarrow> actx \<Rightarrow> bool" where
  "req_rep m req a \<longleftrightarrow>
     req_method req = a_method a \<and> req_version req = a_version a \<and>
     str_rep m (req_path req) (a_path a) \<and> str_rep m (req_body req) (a_body a) \<and>
     list_all2 hdr_same (vec_els (req_headers req)) (a_headers a) \<and>
     footprint (req_path req) \<inter> footprint (req_body req) = {}"

definition ctx_rep :: "mem \<Rightarrow> http_parse_ctx_t \<Rightarrow> http_request_t \<Rightarrow> actx \<Rightarrow> bool" where
  "ctx_rep m ctx req a \<longleftrightarrow>
     wf_mem m \<and> str_rep m (post ctx) (a_text a) \<and>
     wait_state ctx = a_state a \<and> post_full_length ctx = a_full a \<and> cur ctx = a_cur a \<and>
     next_line ctx = a_next a \<and> body_type ctx = a_body_type a \<and>
     body_length ctx = a_body_length a \<and> next_ctx ctx = None \<and>
     http_request ctx = Some req \<and> req_rep m req a \<and>
     footprint (post ctx) \<inter> (footprint (req_path req) \<union> footprint (req_body req)) = {}"

text \<open>During a feed: the bytes are in block \<open>B\<close>, and the headers from \<open>j\<close> on are live.\<close>

definition run_rep ::
  "base \<Rightarrow> nat \<Rightarrow> mem \<Rightarrow> http_parse_ctx_t \<Rightarrow> http_request_t \<Rightarrow> actx \<Rightarrow> bool" where
  "run_rep B j m ctx req a \<longleftrightarrow>
     ctx_rep m ctx req a \<and> str_data (post ctx) = Ptr B 0 \<and> (\<exists>k. B = Heap k) \<and>
     j \<le> length (a_headers a) \<and>
     list_all2 (hdr_live m B) (drop j (vec_els (req_headers req))) (drop j (a_headers a))"

lemma footprint_not_lit: "str_rep m s cs \<Longrightarrow> b \<in> footprint s \<Longrightarrow> \<not> is_lit b"
  by (auto elim!: str_rep.cases)

lemma footprint_fresh:
  assumes "str_rep m s cs" and "wf_mem m"
  shows "Heap (brk m) \<notin> footprint s" and "Buf (brk m) \<notin> footprint s"
  using str_rep_footprint_used [OF assms(1)] wf_mem_fresh [OF assms(2)] by blast+

lemma hdr_live_frame:
  assumes "hdr_live m B h ah" and "frame X m m'" and "B \<notin> X" and "\<forall>b \<in> X. \<not> is_lit b"
  shows "hdr_live m' B h ah"
  using assms frame_view_in [OF assms(2) _ _ assms(3,4)] by (auto simp: hdr_live_def)

lemma live_headers_frame:
  assumes "list_all2 (hdr_live m B) hs as" and "frame X m m'" and "B \<notin> X" and "\<forall>b \<in> X. \<not> is_lit b"
  shows "list_all2 (hdr_live m' B) hs as"
  using assms(1) by (rule list_all2_mono) (rule hdr_live_frame [OF _ assms(2-4)])

lemma req_rep_frame:
  assumes "req_rep m req a" and "frame X m m'"
    and "X \<inter> (footprint (req_path req) \<union> footprint (req_body req)) = {}"
  shows "req_rep m' req a"
proof -
  have "str_rep m' (req_path req) (a_path a)" "str_rep m' (req_body req) (a_body a)"
    using assms by (auto simp: req_rep_def intro: str_rep_frame)
  with assms(1) show ?thesis by (simp add: req_rep_def)
qed

lemma run_rep_frame:
  assumes "run_rep B j m ctx req a" and "frame {} m m'"
  shows "run_rep B j m' ctx req a"
proof -
  have "str_rep m' (post ctx) (a_text a)"
    using assms by (auto simp: run_rep_def ctx_rep_def intro: str_rep_frame)
  moreover have "req_rep m' req a"
    using assms by (auto simp: run_rep_def ctx_rep_def intro: req_rep_frame)
  moreover have "list_all2 (hdr_live m' B) (drop j (vec_els (req_headers req))) (drop j (a_headers a))"
    using assms by (auto simp: run_rep_def intro: live_headers_frame)
  ultimately show ?thesis
    using assms frame_wf [OF assms(2)] by (simp add: run_rep_def ctx_rep_def)
qed

text \<open>The bytes of the post, as the pointers of the parser see them.\<close>

lemma run_rep_load:
  assumes "run_rep B j m ctx req a"
  shows "load_bytes m (string_cstr (post ctx)) (length (a_text a)) = Inr (a_text a)"
    and "string_len (post ctx) = length (a_text a)" and "string_cstr (post ctx) = Ptr B 0"
proof -
  have r: "str_rep m (post ctx) (a_text a)" "str_data (post ctx) = Ptr B 0"
    using assms by (simp_all add: run_rep_def ctx_rep_def)
  from view_from_string [OF r(1)] r(2)
  show "load_bytes m (string_cstr (post ctx)) (length (a_text a)) = Inr (a_text a)"
    by (auto simp: view_bytes_def string_view_from_string_def string_view_from_parts_def string_cstr_def
        Let_def)
  show "string_len (post ctx) = length (a_text a)" using r(1) by (rule str_rep_len)
  show "string_cstr (post ctx) = Ptr B 0" using r(2) by (simp add: string_cstr_def)
qed

lemma update_ctx_refines:
  assumes r: "run_rep B j m ctx req a" and n: "a_next a \<le> length (a_text a)"
    and len: "length (a_text a) < MAX_LEN"
  shows "update_ctx_to_next_clrf m ctx =
     Inr (case find_crlf (drop (a_next a) (a_text a)) of
            None \<Rightarrow> (http_err_parse_cannot_find_clrf, ctx)
          | Some i \<Rightarrow> (http_success, ctx\<lparr>cur := a_next a, next_line := a_next a + i + 2\<rparr>))"
proof -
  note l = run_rep_load [OF r]
  let ?xs = "drop (a_next a) (a_text a)"
  have nl: "next_line ctx = a_next a" using r by (simp add: run_rep_def ctx_rep_def)
  have "load_bytes m (ptr_add (string_cstr (post ctx)) (a_next a)) (length ?xs) =
      Inr (take (length ?xs) ?xs)"
    using l(1) by (rule load_bytes_sub) (use n in simp)
  then have ld: "load_bytes m (get_ctx_next ctx) (length ?xs) = Inr ?xs"
    by (simp add: get_ctx_next_def nl)
  have off: "ptr_off (get_ctx_end ctx) - ptr_off (get_ctx_next ctx) - 1 = length ?xs - 1"
    by (simp add: get_ctx_end_def get_ctx_next_def nl l ptr_off_def)
  have "clrf_loop m (get_ctx_next ctx) 0 (length ?xs - 1) = Inr (map_option ((+) 0) (find_crlf (drop 0 ?xs)))"
    using ld by (rule clrf_loop_find) auto
  also have "map_option ((+) 0) (find_crlf (drop 0 ?xs)) = find_crlf ?xs"
    by (cases "find_crlf ?xs") simp_all
  finally have cl: "clrf_loop m (get_ctx_next ctx) 0
      (ptr_off (get_ctx_end ctx) - ptr_off (get_ctx_next ctx) - 1) = Inr (find_crlf ?xs)"
    unfolding off .
  show ?thesis
  proof (cases "find_crlf ?xs")
    case None
    with cl show ?thesis by (simp add: update_ctx_to_next_clrf_def Let_def)
  next
    case (Some i)
    from find_crlf_le [OF this] n have "a_next a + i + 2 \<le> length (a_text a)" by auto
    with cl Some len show ?thesis by (simp add: update_ctx_to_next_clrf_def nl Let_def)
  qed
qed

lemma focus_line_refines:
  assumes r: "run_rep B j m ctx req a" and n: "c + i + 2 \<le> length (a_text a)"
    and len: "length (a_text a) < MAX_LEN"
  shows "get_ctx_focus_line m (ctx\<lparr>cur := c, next_line := c + i + 2\<rparr>) = Inr \<lparr>sv_data = Ptr B c, sv_len = i\<rparr>"
    and "view_bytes m \<lparr>sv_data = Ptr B c, sv_len = i\<rparr> = Inr (take i (drop c (a_text a)))"
    and "in_obj B \<lparr>sv_data = Ptr B c, sv_len = i\<rparr>"
proof -
  note l = run_rep_load [OF r]
  show "get_ctx_focus_line m (ctx\<lparr>cur := c, next_line := c + i + 2\<rparr>) = Inr \<lparr>sv_data = Ptr B c, sv_len = i\<rparr>"
    using n len l(3)
    by (simp add: get_ctx_focus_line_def get_ctx_cur_def get_ctx_next_def ptr_off_def
        string_view_from_parts_def)
  have "load_bytes m (ptr_add (string_cstr (post ctx)) c) i = Inr (take i (drop c (a_text a)))"
    using l(1) by (rule load_bytes_sub) (use n in simp)
  then show "view_bytes m \<lparr>sv_data = Ptr B c, sv_len = i\<rparr> = Inr (take i (drop c (a_text a)))"
    by (simp add: view_bytes_def l(3))
  show "in_obj B \<lparr>sv_data = Ptr B c, sv_len = i\<rparr>" by (simp add: in_obj_def)
qed

section \<open>The request line\<close>

lemma split_at_Some:
  "split_at c xs = Some (us, vs) \<Longrightarrow> \<exists>k. index_of c xs = Some k \<and> k < length xs \<and> us = take k xs \<and> vs = drop (Suc k) xs"
  by (auto simp: split_at_def dest: index_of_less split: option.splits)

lemma split_at_None: "split_at c xs = None \<Longrightarrow> index_of c xs = None"
  by (simp add: split_at_def split: option.splits)

text \<open>A new path: the block of the path changes, or a new one is made.\<close>

lemma set_path_refines:
  assumes r: "run_rep B j m ctx req a" and av: "always_avail m" and v: "view_bytes m sv = Inr bs"
    and ob: "in_obj B sv" and len: "length bs < MAX_LEN"
  obtains p m' where "string_init_from_string_view (req_path req) sv m = Inr (True, p, m')"
    and "\<And>me ve. run_rep B j m' (ctx\<lparr>http_request := Some (req\<lparr>req_method := me, req_path := p, req_version := ve\<rparr>)\<rparr>)
           (req\<lparr>req_method := me, req_path := p, req_version := ve\<rparr>)
           (a\<lparr>a_method := me, a_path := bs, a_version := ve\<rparr>)"
    and "frame {Buf (str_buf (req_path req))} m m'" and "str_buf p = str_buf (req_path req)"
proof -
  let ?b = "Buf (str_buf (req_path req))"
  have c: "ctx_rep m ctx req a" and h: "str_data (post ctx) = Ptr B 0" "\<exists>k. B = Heap k"
    using r by (simp_all add: run_rep_def)
  have wf: "wf_mem m" and rp: "str_rep m (post ctx) (a_text a)" and rr: "req_rep m req a"
    and dj: "footprint (post ctx) \<inter> (footprint (req_path req) \<union> footprint (req_body req)) = {}"
    using c by (simp_all add: ctx_rep_def)
  have pth: "str_rep m (req_path req) (a_path a)" and bdy: "str_rep m (req_body req) (a_body a)"
    and pb: "footprint (req_path req) \<inter> footprint (req_body req) = {}"
    using rr by (simp_all add: req_rep_def)
  have inp: "?b \<in> footprint (req_path req)" by (simp add: footprint_def)
  have nB: "?b \<noteq> B" using h(2) by auto
  obtain p m' where i: "string_init_from_string_view (req_path req) sv m = Inr (True, p, m')"
      "str_rep m' p bs" "str_buf p = str_buf (req_path req)" "footprint p \<subseteq> {?b, Heap (brk m)}"
      "frame {?b} m m'"
    using string_init_from_string_view_ok [OF wf str_rep_sbuf [OF pth] v len in_obj_off [OF ob nB]] av
    by (auto simp: always_avail_def)
  have fresh: "Heap (brk m) \<notin> footprint (post ctx)" "Heap (brk m) \<notin> footprint (req_body req)"
    using footprint_fresh [OF rp wf] footprint_fresh [OF bdy wf] by auto
  have rp': "str_rep m' (post ctx) (a_text a)"
    using rp i(5) by (rule str_rep_frame) (use dj inp in auto)
  have bdy': "str_rep m' (req_body req) (a_body a)"
    using bdy i(5) by (rule str_rep_frame) (use pb inp in auto)
  have d1: "footprint (post ctx) \<inter> (footprint p \<union> footprint (req_body req)) = {}"
    using i(4) fresh dj inp by auto
  have d2: "footprint p \<inter> footprint (req_body req) = {}"
    using i(4) fresh pb inp by auto
  have lv: "list_all2 (hdr_live m' B) (drop j (vec_els (req_headers req))) (drop j (a_headers a))"
    using r i(5) nB by (auto simp: run_rep_def intro: live_headers_frame)
  have "run_rep B j m' (ctx\<lparr>http_request := Some (req\<lparr>req_method := me, req_path := p, req_version := ve\<rparr>)\<rparr>)
      (req\<lparr>req_method := me, req_path := p, req_version := ve\<rparr>)
      (a\<lparr>a_method := me, a_path := bs, a_version := ve\<rparr>)" for me ve
    using r rr i(2) rp' bdy' d1 d2 lv frame_wf [OF i(5)]
    by (simp add: run_rep_def ctx_rep_def req_rep_def)
  with i(1,3,5) that show ?thesis by blast
qed

lemma run_rep_method:
  "run_rep B j m ctx req a \<Longrightarrow>
   run_rep B j m (ctx\<lparr>http_request := Some (req\<lparr>req_method := me, req_version := ve\<rparr>)\<rparr>)
     (req\<lparr>req_method := me, req_version := ve\<rparr>) (a\<lparr>a_method := me, a_version := ve\<rparr>)"
  by (simp add: run_rep_def ctx_rep_def req_rep_def)

lemma parse_request_line_refines:
  assumes r: "run_rep B j m ctx req a" and av: "always_avail m"
    and v: "view_bytes m (request_line ctx) = Inr line" and ob: "in_obj B (request_line ctx)"
    and c0: "cur ctx = 0" and nl: "next_line ctx = length line + 2" and len: "length line < MAX_LEN"
  shows "\<exists>herr ctx' req' m'. parse_request_line ctx m = Inr (herr, ctx', m') \<and>
     herr \<noteq> http_err_request_fatal \<and> run_rep B j m' ctx' req' (spec_request_line line a) \<and>
     frame {Buf (str_buf (req_path req))} m m' \<and> str_buf (req_path req') = str_buf (req_path req) \<and>
     post ctx' = post ctx \<and> req_headers req' = req_headers req \<and> req_body req' = req_body req"
proof -
  have req: "http_request ctx = Some req" and wf: "wf_mem m"
    using r by (simp_all add: run_rep_def ctx_rep_def)
  have me: "req_method req = a_method a" "req_version req = a_version a"
    using r by (simp_all add: run_rep_def ctx_rep_def req_rep_def)
  note sl = view_bytes_length [OF v]
  have sm: "sv_len (request_line ctx) < SIZE_MOD" using sl len by simp
  note pos = pos_next_token_index [OF v, of SP]
  show ?thesis
  proof (cases "split_at SP line")
    case None
    from split_at_None [OF this] have "pos_next_token m (request_line ctx) SP 0 = Inr None"
      using pos [of 0] by simp
    with None req r wf run_rep_method [OF r, where me = http_method_unkown and ve = http_ver_unkown] show ?thesis
      by (intro exI [of _ http_err_parse_cannot_find_space] exI [of _ "ctx\<lparr>http_request := _\<rparr>"]
          exI [of _ "req\<lparr>req_method := http_method_unkown, req_version := http_ver_unkown\<rparr>"] exI [of _ m])
        (simp add: parse_request_line_def spec_request_line_def)
  next
    case (Some p)
    obtain meth rest where p: "split_at SP line = Some (meth, rest)" using Some by (cases p) auto
    from split_at_Some [OF p] obtain k where k: "index_of SP line = Some k" "k < length line"
        "meth = take k line" "rest = drop (Suc k) line" by blast
    have p1: "pos_next_token m (request_line ctx) SP 0 = Inr (Some (k, Suc k))"
      using pos [of 0] k by simp
    obtain msv where msv: "string_view_substr m (request_line ctx) 0 k = Inr msv"
        "view_bytes m msv = Inr meth" "sv_len msv = k"
      using substr_in_obj [OF v ob sm, of 0 k] k by auto
    have mm: "http_match_method m msv = Inr (method_of meth)"
      using msv(2) by (rule http_match_method_of) (use k len in simp)
    have p2: "pos_next_token m (request_line ctx) SP (Suc k) =
        Inr (map_option (\<lambda>i. (i, Suc k + i + 1)) (index_of SP rest))"
      using pos [of "Suc k"] k(4) by simp
    show ?thesis
    proof (cases "split_at SP rest")
      case N: None
      from split_at_None [OF this] p2 have p2': "pos_next_token m (request_line ctx) SP (Suc k) = Inr None"
        by simp
      have "run_rep B j m (ctx\<lparr>http_request := Some (req\<lparr>req_method := method_of meth\<rparr>)\<rparr>)
          (req\<lparr>req_method := method_of meth\<rparr>) (a\<lparr>a_method := method_of meth\<rparr>)"
        using r by (simp add: run_rep_def ctx_rep_def req_rep_def)
      with req p N p1 msv mm p2' c0 nl k wf show ?thesis
        by (intro exI [of _ http_err_parse_cannot_find_space] exI [of _ "ctx\<lparr>http_request := _\<rparr>"]
            exI [of _ "req\<lparr>req_method := method_of meth\<rparr>"] exI [of _ m])
          (simp add: parse_request_line_def spec_request_line_def sv_defs)
    next
      case (Some q)
      obtain path ver where q: "split_at SP rest = Some (path, ver)" using Some by (cases q) auto
      from split_at_Some [OF q] obtain k2 where k2: "index_of SP rest = Some k2" "k2 < length rest"
          "path = take k2 rest" "ver = drop (Suc k2) rest" by blast
      have p2': "pos_next_token m (request_line ctx) SP (Suc k) = Inr (Some (k2, Suc (Suc (k + k2))))"
        using p2 k2 by simp
      have le: "Suc (Suc (k + k2)) \<le> length line" using k2(2) k by simp
      obtain psv where psv: "string_view_substr m (request_line ctx) (Suc k) k2 = Inr psv"
          "view_bytes m psv = Inr path" "in_obj B psv"
        using substr_in_obj [OF v ob sm, of "Suc k" k2] k k2 by auto
      have pl: "length path < MAX_LEN" using k k2 len by simp
      obtain p' m' where st: "string_init_from_string_view (req_path req) psv m = Inr (True, p', m')"
          "\<And>me ve. run_rep B j m' (ctx\<lparr>http_request := Some (req\<lparr>req_method := me, req_path := p', req_version := ve\<rparr>)\<rparr>)
             (req\<lparr>req_method := me, req_path := p', req_version := ve\<rparr>)
             (a\<lparr>a_method := me, a_path := path, a_version := ve\<rparr>)"
          "frame {Buf (str_buf (req_path req))} m m'" and sb: "str_buf p' = str_buf (req_path req)"
        using set_path_refines [OF r av psv(2,3) pl] by blast
      have nB: "B \<notin> {Buf (str_buf (req_path req))}" using r by (auto simp: run_rep_def)
      have v': "view_bytes m' (request_line ctx) = Inr line"
        using st(3) v ob nB by (rule frame_view_in) simp
      have dv: "take (length line - Suc (Suc (k + k2))) (drop (Suc (Suc (k + k2))) line) = ver"
        by (simp add: k2(4) k(4) add.commute)
      obtain vsv where vsv: "string_view_substr m' (request_line ctx) (Suc (Suc (k + k2)))
            (length line - Suc (Suc (k + k2))) = Inr vsv" "view_bytes m' vsv = Inr ver"
        by (rule substr_in_obj [OF v' ob sm, of "Suc (Suc (k + k2))" "length line - Suc (Suc (k + k2))"])
          (simp only: dv)
      have mv: "http_match_version m' vsv = Inr (version_of ver)" using vsv(2) by (rule http_match_version_of)
      have sz: "sz_sub (sz_sub (next_line ctx) 2) (Suc (Suc (k + k2))) = length line - Suc (Suc (k + k2))"
        using nl le len by simp
      have "parse_request_line ctx m = Inr (http_success,
          ctx\<lparr>http_request := Some (req\<lparr>req_method := method_of meth, req_path := p',
                                          req_version := version_of ver\<rparr>)\<rparr>, m')"
        using req p1 msv mm p2' psv(1) st(1) vsv(1) mv c0 k le sz nl
        by (simp add: parse_request_line_def sv_defs Let_def)
      with st(2) [where me = "method_of meth" and ve = "version_of ver"] st(3) sb p q show ?thesis
        by (intro exI [of _ http_success] exI [of _ "ctx\<lparr>http_request := _\<rparr>"]
            exI [of _ "req\<lparr>req_method := method_of meth, req_path := p', req_version := version_of ver\<rparr>"]
            exI [of _ m'])
          (simp add: spec_request_line_def)
    qed
  qed
qed

end
