(* ===== verification/HttpParseFeed.thy ===== *)
theory HttpParseFeed
  imports HttpParseRefine
begin

text \<open>
  The second half of the simulation: header lines, the header loop, the body, and
  \<^verbatim>\<open>http_parse_feed\<close> itself.
\<close>

section \<open>Header lines\<close>

lemma frame_brk_ge: "wf_mem m \<Longrightarrow> brk m \<le> b \<Longrightarrow> frame X m (m\<lparr>brk := b\<rparr>)"
  by (auto simp: frame_def wf_mem_def)

lemma run_rep_wf: "run_rep B j m ctx req a \<Longrightarrow> wf_mem m"
  by (simp add: run_rep_def ctx_rep_def)

text \<open>The announcement of a body changes the same two fields on both sides.\<close>

lemma body_type_refines:
  assumes "run_rep B j m ctx req a" and "hdr_same h ah"
  shows "run_rep B j m (snd (header_line_update_body_type h ctx)) req (spec_body_type ah a)"
proof -
  have "run_rep B j m ctx req a" using assms(1) .
  moreover have "run_rep B j m (ctx\<lparr>body_type := x\<rparr>) req (a\<lparr>a_body_type := x\<rparr>)" for x
    using assms(1) by (simp add: run_rep_def ctx_rep_def req_rep_def)
  moreover have "run_rep B j m (ctx\<lparr>body_type := x, body_length := n\<rparr>) req
      (a\<lparr>a_body_type := x, a_body_length := n\<rparr>)" for x n
    using assms(1) by (simp add: run_rep_def ctx_rep_def req_rep_def)
  ultimately show ?thesis
    using assms(2)
    by (simp add: header_line_update_body_type_def spec_body_type_def hdr_same_def content_length_of_def
        split: http_header_field_t.split)
qed

lemma update_body_type_fixes:
  "post (snd (header_line_update_body_type h ctx)) = post ctx"
  "http_request (snd (header_line_update_body_type h ctx)) = http_request ctx"
  "header_list (snd (header_line_update_body_type h ctx)) = header_list ctx"
  by (cases "hdr_field h"; simp add: header_line_update_body_type_def Let_def)+

text \<open>One more header.\<close>

lemma push_header_refines:
  assumes r: "run_rep B j m ctx req a" and h: "hdr_live m B h ah"
  shows "run_rep B j m
     (ctx\<lparr>http_request := Some (req\<lparr>req_headers := \<lparr>vec_els = vec_els (req_headers req) @ [h], vec_cap = c\<rparr>\<rparr>)\<rparr>)
     (req\<lparr>req_headers := \<lparr>vec_els = vec_els (req_headers req) @ [h], vec_cap = c\<rparr>\<rparr>)
     (a\<lparr>a_headers := a_headers a @ [ah]\<rparr>)"
proof -
  have same: "list_all2 hdr_same (vec_els (req_headers req)) (a_headers a)" and j: "j \<le> length (a_headers a)"
    and lv: "list_all2 (hdr_live m B) (drop j (vec_els (req_headers req))) (drop j (a_headers a))"
    using r by (simp_all add: run_rep_def ctx_rep_def req_rep_def)
  have len: "length (vec_els (req_headers req)) = length (a_headers a)"
    using same by (rule list_all2_lengthD)
  have "list_all2 hdr_same (vec_els (req_headers req) @ [h]) (a_headers a @ [ah])"
    using same h by (auto simp: hdr_live_def intro: list_all2_appendI)
  moreover have "list_all2 (hdr_live m B) (drop j (vec_els (req_headers req) @ [h])) (drop j (a_headers a @ [ah]))"
    using lv h j len by (auto intro: list_all2_appendI)
  ultimately show ?thesis
    using r by (simp add: run_rep_def ctx_rep_def req_rep_def)
qed

lemma drop_space_bytes:
  assumes "load_bytes m (Ptr B c) (Suc i) = Inr (line @ [CR])" and "length line = i" and "n \<le> i"
  obtains d where "load_byte m (Ptr B c) n = Inr d"
    and "drop (if d = SP then n + 1 else n) line = drop_space (drop n line)"
proof -
  have "load_byte m (Ptr B c) n = Inr ((line @ [CR]) ! n)"
    using assms by (intro load_byte_nth) auto
  moreover have "drop (if (line @ [CR]) ! n = SP then n + 1 else n) line = drop_space (drop n line)"
  proof (cases "n < i")
    case True
    with assms(2) have "drop n line = line ! n # drop (Suc n) line" by (simp add: Cons_nth_drop_Suc)
    with True assms(2) show ?thesis by (simp add: drop_space_def nth_append)
  next
    case False
    with assms(2,3) show ?thesis by (simp add: drop_space_def)
  qed
  ultimately show ?thesis by (rule that)
qed

lemma parse_header_line_refines:
  assumes r: "run_rep B j m ctx req a" and av: "always_avail m"
    and last: "cc_last (header_list ctx) = Inr \<lparr>sv_data = Ptr B c, sv_len = length line\<rparr>"
    and v: "load_bytes m (Ptr B c) (Suc (length line)) = Inr (line @ [CR])"
    and len: "length line < MAX_LEN"
  shows "\<exists>herr ctx' req' m'. parse_header_line ctx m = Inr (herr, ctx', m') \<and>
     herr \<noteq> http_err_request_fatal \<and> run_rep B j m' ctx' req' (spec_header_line line a) \<and>
     frame {} m m' \<and> post ctx' = post ctx \<and> req_path req' = req_path req \<and> req_body req' = req_body req"
proof -
  let ?sv = "\<lparr>sv_data = Ptr B c, sv_len = length line\<rparr>"
  have req: "http_request ctx = Some req" and wf: "wf_mem m"
    using r by (simp_all add: run_rep_def ctx_rep_def)
  have lv: "view_bytes m ?sv = Inr line"
    using load_bytes_sub [OF v, of 0 "length line"] by (simp add: view_bytes_def)
  have ob: "in_obj B ?sv" by (simp add: in_obj_def)
  have sm: "sv_len ?sv < SIZE_MOD" using len by simp
  note pos = pos_next_token_index [OF lv, of "CHR '':''" 0]
  show ?thesis
  proof (cases "split_at (CHR '':'') line")
    case None
    from split_at_None [OF this] pos have "pos_next_token m ?sv (CHR '':'') 0 = Inr None" by simp
    with None last r wf show ?thesis
      by (intro exI [of _ http_err_parse_cannot_find_space] exI [of _ ctx] exI [of _ req] exI [of _ m])
        (simp add: parse_header_line_def spec_header_line_def spec_header_def)
  next
    case (Some p)
    obtain key rest where p: "split_at (CHR '':'') line = Some (key, rest)" using Some by (cases p) auto
    from split_at_Some [OF p] obtain k where k: "index_of (CHR '':'') line = Some k" "k < length line"
        "key = take k line" "rest = drop (Suc k) line" by blast
    have p1: "pos_next_token m ?sv (CHR '':'') 0 = Inr (Some (k, Suc k))" using pos k by simp
    obtain ksv where ksv: "string_view_substr m ?sv 0 k = Inr ksv" "view_bytes m ksv = Inr key" "in_obj B ksv"
      using substr_in_obj [OF lv ob sm, of 0 k] k by auto
    define f where "f = field_of key"
    have mf: "http_match_header_field m ksv = Inr f"
      unfolding f_def using ksv(2) by (rule http_match_header_field_of) (use k len in simp)
    obtain d where d: "load_byte m (Ptr B c) (Suc k) = Inr d"
        "drop (if d = SP then Suc k + 1 else Suc k) line = drop_space rest"
      using drop_space_bytes [OF v refl, of "Suc k"] k by auto
    let ?n = "if d = SP then Suc k + 1 else Suc k"
    define val where "val = drop_space rest"
    have dl: "length (drop ?n line) \<le> length line" by simp
    have tk: "take npos (drop ?n line) = val"
      using d(2) len dl unfolding val_def by (subst take_all) (simp_all add: npos_def del: length_drop)
    obtain vsv where vsv: "string_view_substr m ?sv ?n npos = Inr vsv" "view_bytes m vsv = Inr val"
        "in_obj B vsv" "sv_len vsv = length val"
      by (rule substr_in_obj [OF lv ob sm, of ?n npos]) (simp only: tk)
    have vl: "length val < MAX_LEN"
      using dl len d(2) unfolding val_def by simp
    define h0 where "h0 = (let h = zero_header\<lparr>hdr_field := f\<rparr> in
        if f = http_hdr_unkown then h\<lparr>hdr_name := ksv\<rparr> else h)"
    have h0: "hdr_field h0 = f" "value_bits (hdr_value h0) = 0"
        "hdr_name h0 = (if f = http_hdr_unkown then ksv else zero_view)"
      by (auto simp: h0_def zero_header_def Let_def)
    have h0eq: "(if f = http_hdr_unkown then zero_header\<lparr>hdr_field := f, hdr_name := ksv\<rparr>
        else zero_header\<lparr>hdr_field := f\<rparr>) = h0"
      by (simp add: h0_def Let_def)
    obtain ok u where u: "value_spec f val 0 = (ok, u)" by force
    obtain b where b: "b \<ge> brk m" "http_hdr_parse_value (Some h0) vsv m =
        Inr (if ok then http_success else http_err_parse_value, Some (header_with_value h0 vsv val), m\<lparr>brk := b\<rparr>)"
      using http_hdr_parse_value_spec [OF vsv(2) wf vl, of h0] h0 u by auto
    let ?h1 = "header_with_value h0 vsv val"
    let ?h = "if ok then ?h1 else ?h1\<lparr>hdr_field := http_hdr_unkown, hdr_name := ksv\<rparr>"
    let ?ah = "\<lparr>ah_field = (if ok then f else http_hdr_unkown),
        ah_name = (if f = http_hdr_unkown \<or> \<not> ok then key else []),
        ah_value = val, ah_parsed = (ok \<and> typed_field f), ah_bits = u\<rparr>"
    have f1: "frame {} m (m\<lparr>brk := b\<rparr>)" using wf b(1) by (rule frame_brk_ge)
    have zv: "view_bytes m zero_view = Inr []" "in_obj B zero_view"
      by (simp_all add: view_bytes_def zero_view_def in_obj_def)
    have live: "hdr_live m B ?h ?ah"
      using vsv ksv zv h0 u
      by (auto simp: hdr_live_def hdr_same_def header_with_value_def Let_def)
    let ?m1 = "m\<lparr>brk := b\<rparr>"
    have av1: "avail ?m1 (brk ?m1)" using av b(1) by (simp add: always_avail_def)
    obtain cc b2 where cc: "cc_push (req_headers req) ?h ?m1 =
        (True, \<lparr>vec_els = vec_els (req_headers req) @ [?h], vec_cap = cc\<rparr>, ?m1\<lparr>brk := b2\<rparr>)" "b \<le> b2"
      using cc_push_ok [OF av1, of "req_headers req" ?h] by auto
    let ?req = "req\<lparr>req_headers := \<lparr>vec_els = vec_els (req_headers req) @ [?h], vec_cap = cc\<rparr>\<rparr>"
    let ?ctx = "ctx\<lparr>http_request := Some ?req\<rparr>"
    let ?m2 = "?m1\<lparr>brk := b2\<rparr>"
    have f2: "frame {} m ?m2" using frame_brk_ge [OF wf, of b2 "{}"] b(1) cc(2) by simp
    have "run_rep B j m ?ctx ?req (a\<lparr>a_headers := a_headers a @ [?ah]\<rparr>)"
      using r live by (rule push_header_refines)
    then have "run_rep B j ?m2 ?ctx ?req (a\<lparr>a_headers := a_headers a @ [?ah]\<rparr>)"
      using f2 by (rule run_rep_frame)
    then have fin: "run_rep B j ?m2 (snd (header_line_update_body_type ?h ?ctx)) ?req
        (spec_body_type ?ah (a\<lparr>a_headers := a_headers a @ [?ah]\<rparr>))"
      using live by (intro body_type_refines) (simp_all add: hdr_live_def)
    have sp: "spec_header_line line a = spec_body_type ?ah (a\<lparr>a_headers := a_headers a @ [?ah]\<rparr>)"
      using p u by (simp add: spec_header_line_def spec_header_def f_def val_def Let_def)
    have "parse_header_line ctx m = Inr (if ok then http_success else http_err_parse_value,
        snd (header_line_update_body_type ?h ?ctx), ?m2)"
      using last p1 ksv(1) mf d(1) vsv(1) b(2) cc(1) req h0eq
      by (cases ok) (simp_all add: parse_header_line_def sv_defs Let_def split del: if_split)
    then show ?thesis
      using fin sp f2 update_body_type_fixes [of ?h ?ctx] by auto
  qed
qed

section \<open>The header loop\<close>

lemma spec_body_type_fixes [simp]:
  "a_text (spec_body_type h a) = a_text a" "a_next (spec_body_type h a) = a_next a"
  "a_cur (spec_body_type h a) = a_cur a" "a_full (spec_body_type h a) = a_full a"
  "a_state (spec_body_type h a) = a_state a" "a_path (spec_body_type h a) = a_path a"
  "a_headers (spec_body_type h a) = a_headers a" "a_method (spec_body_type h a) = a_method a"
  "a_version (spec_body_type h a) = a_version a" "a_body (spec_body_type h a) = a_body a"
  by (simp_all add: spec_body_type_def split: http_header_field_t.split)

lemma spec_header_line_fixes [simp]:
  "a_text (spec_header_line l a) = a_text a" "a_next (spec_header_line l a) = a_next a"
  "a_cur (spec_header_line l a) = a_cur a" "a_full (spec_header_line l a) = a_full a"
  "a_state (spec_header_line l a) = a_state a" "a_path (spec_header_line l a) = a_path a"
  "a_method (spec_header_line l a) = a_method a" "a_version (spec_header_line l a) = a_version a"
  "a_body (spec_header_line l a) = a_body a"
  by (simp_all add: spec_header_line_def split: option.split)

lemma spec_line_Some:
  assumes "spec_line a = Some (line, a')" and "a_next a \<le> length (a_text a)"
  shows "a' = a\<lparr>a_cur := a_next a, a_next := a_next a + length line + 2\<rparr>"
    and "find_crlf (drop (a_next a) (a_text a)) = Some (length line)"
    and "line = take (length line) (drop (a_next a) (a_text a))"
    and "a_next a + length line + 2 \<le> length (a_text a)"
    and "a_text a ! (a_next a + length line) = CR" and "a_text a ! Suc (a_next a + length line) = LF"
proof -
  from assms(1) obtain i where i: "find_crlf (drop (a_next a) (a_text a)) = Some i"
      "line = take i (drop (a_next a) (a_text a))"
      "a' = a\<lparr>a_cur := a_next a, a_next := a_next a + i + 2\<rparr>"
    by (auto simp: spec_line_def split: option.splits)
  from find_crlf_le [OF i(1)] assms(2)
  have le: "a_next a + i + 2 \<le> length (a_text a)"
    and b: "a_text a ! (a_next a + i) = CR" "a_text a ! Suc (a_next a + i) = LF" by auto
  then have l: "length line = i" using i(2) by simp
  show "a' = a\<lparr>a_cur := a_next a, a_next := a_next a + length line + 2\<rparr>"
    "find_crlf (drop (a_next a) (a_text a)) = Some (length line)"
    "line = take (length line) (drop (a_next a) (a_text a))"
    "a_next a + length line + 2 \<le> length (a_text a)"
    "a_text a ! (a_next a + length line) = CR" "a_text a ! Suc (a_next a + length line) = LF"
    using i le b unfolding l by simp_all
qed

text \<open>A line with its first line-end byte, in memory.\<close>

lemma line_load:
  assumes r: "run_rep B j m ctx req a" and n: "c + length line + 2 \<le> length (a_text a)"
    and l: "line = take (length line) (drop c (a_text a))" and cr: "a_text a ! (c + length line) = CR"
  shows "load_bytes m (Ptr B c) (Suc (length line)) = Inr (line @ [CR])"
proof -
  note ld = run_rep_load [OF r]
  have "load_bytes m (ptr_add (string_cstr (post ctx)) c) (Suc (length line)) =
      Inr (take (Suc (length line)) (drop c (a_text a)))"
    using ld(1) by (rule load_bytes_sub) (use n in simp)
  moreover have "take (Suc (length line)) (drop c (a_text a)) = line @ [CR]"
  proof -
    have "take (Suc (length line)) (drop c (a_text a)) =
        take (length line) (drop c (a_text a)) @ [drop c (a_text a) ! length line]"
      using n by (intro take_Suc_conv_app_nth) simp
    also have "\<dots> = line @ [CR]" using n cr l by simp
    finally show ?thesis .
  qed
  ultimately show ?thesis by (simp add: ld(3))
qed

lemma run_rep_line:
  "run_rep B j m ctx req a \<Longrightarrow>
   run_rep B j m (ctx\<lparr>cur := c, next_line := n\<rparr>) req (a\<lparr>a_cur := c, a_next := n\<rparr>)"
  by (simp add: run_rep_def ctx_rep_def req_rep_def)

definition loop_ok ::
  "base \<Rightarrow> nat \<Rightarrow> mem \<Rightarrow> http_parse_ctx_t \<Rightarrow> http_request_t \<Rightarrow> actx \<Rightarrow>
     mem \<Rightarrow> http_parse_ctx_t \<Rightarrow> http_request_t \<Rightarrow> actx \<Rightarrow> bool" where
  "loop_ok B j m ctx req a m' ctx' req' a' \<longleftrightarrow>
     run_rep B j m' ctx' req' a' \<and> frame {} m m' \<and> post ctx' = post ctx \<and>
     req_path req' = req_path req \<and> req_body req' = req_body req \<and>
     a_text a' = a_text a \<and> a_next a' \<le> length (a_text a)"

lemma load_byte_shift: "load_byte m (Ptr b i) k = load_byte m (Ptr b 0) (i + k)"
  by (simp add: load_byte_def split: option.split)

lemma blank_line_refines:
  assumes r: "run_rep B j m ctx req a" and n: "c + 2 \<le> length (a_text a)" and len: "length (a_text a) < MAX_LEN"
    and cr: "a_text a ! c = CR" and lf: "a_text a ! Suc c = LF"
  shows "load_byte m (get_ctx_cur (ctx\<lparr>cur := c, next_line := k\<rparr>)) 0 = Inr CR"
    and "load_byte m (get_ctx_cur (ctx\<lparr>cur := c, next_line := k\<rparr>)) 1 = Inr LF"
proof -
  note ld = run_rep_load [OF r]
  have "load_byte m (string_cstr (post ctx)) c = Inr (a_text a ! c)"
    "load_byte m (string_cstr (post ctx)) (Suc c) = Inr (a_text a ! Suc c)"
    using n by (auto intro: load_byte_nth [OF ld(1)])
  then show "load_byte m (get_ctx_cur (ctx\<lparr>cur := c, next_line := k\<rparr>)) 0 = Inr CR"
    "load_byte m (get_ctx_cur (ctx\<lparr>cur := c, next_line := k\<rparr>)) 1 = Inr LF"
    using cr lf load_byte_shift [of m B c]
    by (simp_all add: get_ctx_cur_def ld(3))
qed

lemma header_loop_refines:
  assumes "run_rep B j m ctx req a" and "always_avail m" and "a_next a \<le> length (a_text a)"
    and "length (a_text a) < MAX_LEN" and "spec_header_loop n cnt a = (e, cnt', a')"
  shows "\<exists>ctx' req' m'. header_loop n cnt ctx m = Inr (e, cnt', ctx', m') \<and>
     loop_ok B j m ctx req a m' ctx' req' a'"
  using assms
proof (induction n arbitrary: cnt ctx req a m)
  case 0
  then show ?case
    by (intro exI [of _ ctx] exI [of _ req] exI [of _ m]) (simp add: loop_ok_def run_rep_wf)
next
  case (Suc n)
  note r = Suc.prems(1) and av = Suc.prems(2) and nx = Suc.prems(3) and len = Suc.prems(4)
  note upd = update_ctx_refines [OF r nx len]
  show ?case
  proof (cases "spec_line a")
    case None
    then have "find_crlf (drop (a_next a) (a_text a)) = None" by (simp add: spec_line_def split: option.splits)
    with None Suc.prems upd show ?thesis
      by (intro exI [of _ ctx] exI [of _ req] exI [of _ m]) (simp add: loop_ok_def run_rep_wf)
  next
    case (Some p)
    obtain line a1 where p: "spec_line a = Some (line, a1)" using Some by (cases p) auto
    note s = spec_line_Some [OF p nx]
    let ?c = "a_next a" and ?i = "length line"
    let ?ctx1 = "ctx\<lparr>cur := ?c, next_line := ?c + ?i + 2\<rparr>"
    have u: "update_ctx_to_next_clrf m ctx = Inr (http_success, ?ctx1)" using upd s(2) by simp
    have r1: "run_rep B j m ?ctx1 req a1" unfolding s(1) using r by (rule run_rep_line)
    have gl: "get_ctx_line m ?ctx1 = Inr ?i" using s(4) len by (simp add: get_ctx_line_def)
    show ?thesis
    proof (cases "line = []")
      case True
      have e: "(e, cnt', a') = (None, cnt, a1\<lparr>a_cur := a_cur a1 + 2\<rparr>)" using Suc.prems(5) p True by simp
      have b: "load_byte m (get_ctx_cur ?ctx1) 0 = Inr CR" "load_byte m (get_ctx_cur ?ctx1) 1 = Inr LF"
        using blank_line_refines [OF r _ len] s(4-6) True by simp_all
      have "run_rep B j m (?ctx1\<lparr>cur := ?c + 2\<rparr>) req (a1\<lparr>a_cur := a_cur a1 + 2\<rparr>)"
        using r1 by (simp add: s(1) run_rep_def ctx_rep_def req_rep_def)
      with e u gl b True s(1,4) len run_rep_wf [OF r] show ?thesis
        by (intro exI [of _ "?ctx1\<lparr>cur := ?c + 2\<rparr>"] exI [of _ req] exI [of _ m]) (simp add: loop_ok_def)
    next
      case False
      note fl = focus_line_refines [OF r s(4) len]
      let ?sv = "\<lparr>sv_data = Ptr B ?c, sv_len = ?i\<rparr>"
      have "avail m (brk m)" using av by (simp add: always_avail_def)
      from cc_push_ok [OF this, where v = "header_list ctx" and x = ?sv] obtain cc b where cc: "cc_push (header_list ctx) ?sv m =
          (True, \<lparr>vec_els = vec_els (header_list ctx) @ [?sv], vec_cap = cc\<rparr>, m\<lparr>brk := b\<rparr>)" "brk m \<le> b"
        by blast
      let ?hl = "\<lparr>vec_els = vec_els (header_list ctx) @ [?sv], vec_cap = cc\<rparr>"
      let ?ctx2 = "?ctx1\<lparr>header_list := ?hl\<rparr>"
      have f1: "frame {} m (m\<lparr>brk := b\<rparr>)" using run_rep_wf [OF r] cc(2) by (rule frame_brk_ge)
      have "run_rep B j m ?ctx2 req a1" using r1 by (simp add: run_rep_def ctx_rep_def req_rep_def)
      then have r2: "run_rep B j (m\<lparr>brk := b\<rparr>) ?ctx2 req a1" using f1 by (rule run_rep_frame)
      have av2: "always_avail (m\<lparr>brk := b\<rparr>)" using av f1 by (rule always_avail_frame)
      have la: "cc_last (header_list ?ctx2) = Inr ?sv" by (simp add: cc_last_eq)
      have "load_bytes (m\<lparr>brk := b\<rparr>) (Ptr B ?c) (Suc ?i) = Inr (line @ [CR])"
        using line_load [OF r2, of ?c line] s by simp
      moreover have "?i < MAX_LEN" using s(4) len by simp
      ultimately obtain herr ctx3 req3 m3 where h: "parse_header_line ?ctx2 (m\<lparr>brk := b\<rparr>) = Inr (herr, ctx3, m3)"
          "herr \<noteq> http_err_request_fatal" "run_rep B j m3 ctx3 req3 (spec_header_line line a1)"
          "frame {} (m\<lparr>brk := b\<rparr>) m3" "post ctx3 = post ?ctx2" "req_path req3 = req_path req"
          "req_body req3 = req_body req"
        using parse_header_line_refines [OF r2 av2 la] by blast
      have f3: "frame {} m m3" using f1 h(4) by (rule frame_trans) simp
      have sp: "spec_header_loop n (Suc cnt) (spec_header_line line a1) = (e, cnt', a')"
        using Suc.prems(5) p False by simp
      have n3: "a_next (spec_header_line line a1) \<le> length (a_text (spec_header_line line a1))"
          "length (a_text (spec_header_line line a1)) < MAX_LEN"
        using s(1,4) len by simp_all
      from Suc.IH [OF h(3) always_avail_frame [OF av2 h(4)] n3 sp] obtain ctx' req' m' where
        l: "header_loop n (Suc cnt) ctx3 m3 = Inr (e, cnt', ctx', m')"
          "loop_ok B j m3 ctx3 req3 (spec_header_line line a1) m' ctx' req' a'" by blast
      have "frame {} m m'" using f3 by (rule frame_trans) (use l(2) in \<open>auto simp: loop_ok_def\<close>)
      then have "loop_ok B j m ctx req a m' ctx' req' a'"
        using l(2) h(5-7) s(1) by (simp add: loop_ok_def)
      moreover have "header_loop (Suc n) cnt ctx m = Inr (e, cnt', ctx', m')"
        using u gl False fl(1) cc(1) h(1,2) l(1) by simp
      ultimately show ?thesis by blast
    qed
  qed
qed

section \<open>The blocks\<close>

text \<open>What holds of an abstract context at a label.\<close>

definition spec_inv :: "label \<Rightarrow> actx \<Rightarrow> bool" where
  "spec_inv l a \<longleftrightarrow>
     a_next a \<le> length (a_text a) \<and> a_body_length a < SIZE_MOD \<and>
     (l \<noteq> L_fix_body \<longrightarrow> a_full a \<le> a_next a) \<and>
     (l = L_req \<longrightarrow> a_next a = 0) \<and>
     (l \<in> {L_req, L_hdr, L_fix_body} \<longrightarrow> a_cur a \<le> a_next a)"

lemma spec_body_type_length:
  "a_body_length a < SIZE_MOD \<Longrightarrow> a_body_length (spec_body_type h a) < SIZE_MOD"
proof -
  assume a: "a_body_length a < SIZE_MOD"
  have "nat (sint (ah_bits h) mod int SIZE_MOD) < SIZE_MOD"
    by (simp add: nat_less_iff)
  with a show ?thesis by (simp add: spec_body_type_def split: http_header_field_t.split)
qed

lemma spec_header_line_length:
  "a_body_length a < SIZE_MOD \<Longrightarrow> a_body_length (spec_header_line l a) < SIZE_MOD"
  by (simp add: spec_header_line_def spec_body_type_length split: option.split)

lemma spec_header_line_inv: "spec_inv L_hdr a \<Longrightarrow> spec_inv L_hdr (spec_header_line l a)"
  by (simp add: spec_inv_def spec_header_line_length)

lemma spec_line_inv:
  "spec_line a = Some (line, a') \<Longrightarrow> spec_inv l a \<Longrightarrow> l \<in> {L_req, L_hdr} \<Longrightarrow> spec_inv L_hdr a'"
  using spec_line_Some(1,4) [of a line a'] by (auto simp: spec_inv_def)

text \<open>The loop ends at a blank line with \<open>a_cur = a_next\<close>, or with all rounds used up.\<close>

lemma spec_header_loop_inv:
  assumes "spec_inv L_hdr a" and "spec_header_loop n cnt a = (e, cnt', a')"
  shows "spec_inv L_hdr a' \<and> a_state a' = a_state a \<and> a_text a' = a_text a"
  using assms
proof (induction n arbitrary: cnt a)
  case (Suc n)
  show ?case
  proof (cases "spec_line a")
    case None
    with Suc.prems show ?thesis by simp
  next
    case (Some p)
    obtain line a1 where p: "spec_line a = Some (line, a1)" using Some by (cases p) auto
    have i: "spec_inv L_hdr a1" using p Suc.prems(1) by (rule spec_line_inv) simp
    have nx: "a_next a \<le> length (a_text a)" using Suc.prems(1) by (simp add: spec_inv_def)
    note s = spec_line_Some(1,4) [OF p nx]
    show ?thesis
    proof (cases "line = []")
      case True
      with Suc.prems p s show ?thesis by (auto simp: spec_inv_def)
    next
      case False
      with Suc.prems(2) p have "spec_header_loop n (Suc cnt) (spec_header_line line a1) = (e, cnt', a')" by simp
      from Suc.IH [OF spec_header_line_inv [OF i] this] s(1) show ?thesis by simp
    qed
  qed
qed simp

lemma spec_request_line_fixes [simp]:
  "a_text (spec_request_line l a) = a_text a" "a_next (spec_request_line l a) = a_next a"
  "a_cur (spec_request_line l a) = a_cur a" "a_full (spec_request_line l a) = a_full a"
  "a_state (spec_request_line l a) = a_state a" "a_body_length (spec_request_line l a) = a_body_length a"
  "a_headers (spec_request_line l a) = a_headers a" "a_body (spec_request_line l a) = a_body a"
  "a_body_type (spec_request_line l a) = a_body_type a"
  by (simp_all add: spec_request_line_def split: option.split prod.split)

lemma spec_block_inv:
  assumes "spec_block nd l a = Inr (j, a')" and "spec_inv l a"
  shows "a_text a' = a_text a \<and>
     (case j of Goto l' \<Rightarrow> spec_inv l' a' | Return e \<Rightarrow> spec_inv (state_label (a_state a')) a')"
proof (cases l)
  case L_req
  let ?a = "a\<lparr>a_state := http_parse_wait_req\<rparr>"
  have i: "spec_inv L_req ?a" using assms(2) L_req by (simp add: spec_inv_def)
  show ?thesis
  proof (cases "spec_line ?a")
    case None
    with assms L_req i show ?thesis by (auto simp: spec_block_def spec_wait_req_def Let_def)
  next
    case (Some p)
    obtain line a1 where p: "spec_line ?a = Some (line, a1)" using Some by (cases p) auto
    have "spec_inv L_hdr a1" using p i by (rule spec_line_inv) simp
    moreover have "a_text a1 = a_text a" using p by (auto simp: spec_line_def split: option.splits)
    ultimately show ?thesis
      using assms(1) L_req p by (auto simp: spec_block_def spec_wait_req_def spec_inv_def)
  qed
next
  case L_hdr
  let ?a = "a\<lparr>a_state := http_parse_wait_hdr\<rparr>"
  obtain e c a1 where l: "spec_header_loop 100 1 ?a = (e, c, a1)" by (cases "spec_header_loop 100 1 ?a") auto
  have "spec_inv L_hdr ?a" using assms(2) L_hdr by (simp add: spec_inv_def)
  from spec_header_loop_inv [OF this l]
  have i: "spec_inv L_hdr a1" "a_state a1 = http_parse_wait_hdr" "a_text a1 = a_text a" by simp_all
  then show ?thesis
    using assms(1) L_hdr l
    by (auto simp: spec_block_def spec_wait_hdr_def spec_inv_def Let_def
        split: option.splits if_splits http_transfer_body_type.splits)
next
  case L_fix_body
  with assms show ?thesis
    by (auto simp: spec_block_def spec_wait_fix_body_def Let_def bnd_eq_Inr_iff spec_inv_def split: if_splits)
qed (use assms in \<open>auto simp: spec_block_def spec_inv_def\<close>)

section \<open>The body\<close>

lemma set_body_refines:
  assumes r: "run_rep B j m ctx req a" and av: "always_avail m" and v: "view_bytes m sv = Inr bs"
    and ob: "in_obj B sv" and len: "length bs < MAX_LEN"
  obtains p m' where "string_init_from_string_view (req_body req) sv m = Inr (True, p, m')"
    and "run_rep B j m' (ctx\<lparr>http_request := Some (req\<lparr>req_body := p\<rparr>)\<rparr>)
           (req\<lparr>req_body := p\<rparr>) (a\<lparr>a_body := bs\<rparr>)"
    and "frame {Buf (str_buf (req_body req))} m m'" and "str_buf p = str_buf (req_body req)"
proof -
  let ?b = "Buf (str_buf (req_body req))"
  have c: "ctx_rep m ctx req a" and h: "str_data (post ctx) = Ptr B 0" "\<exists>k. B = Heap k"
    using r by (simp_all add: run_rep_def)
  have wf: "wf_mem m" and rp: "str_rep m (post ctx) (a_text a)" and rr: "req_rep m req a"
    and dj: "footprint (post ctx) \<inter> (footprint (req_path req) \<union> footprint (req_body req)) = {}"
    using c by (simp_all add: ctx_rep_def)
  have pth: "str_rep m (req_path req) (a_path a)" and bdy: "str_rep m (req_body req) (a_body a)"
    and pb: "footprint (req_path req) \<inter> footprint (req_body req) = {}"
    using rr by (simp_all add: req_rep_def)
  have inb: "?b \<in> footprint (req_body req)" by (simp add: footprint_def)
  have nB: "?b \<noteq> B" using h(2) by auto
  obtain p m' where i: "string_init_from_string_view (req_body req) sv m = Inr (True, p, m')"
      "str_rep m' p bs" "str_buf p = str_buf (req_body req)" "footprint p \<subseteq> {?b, Heap (brk m)}"
      "frame {?b} m m'"
    using string_init_from_string_view_ok [OF wf str_rep_sbuf [OF bdy] v len in_obj_off [OF ob nB]] av
    by (auto simp: always_avail_def)
  have fresh: "Heap (brk m) \<notin> footprint (post ctx)" "Heap (brk m) \<notin> footprint (req_path req)"
    using footprint_fresh [OF rp wf] footprint_fresh [OF pth wf] by auto
  have rp': "str_rep m' (post ctx) (a_text a)"
    using rp i(5) by (rule str_rep_frame) (use dj inb in auto)
  have pth': "str_rep m' (req_path req) (a_path a)"
    using pth i(5) by (rule str_rep_frame) (use pb inb in auto)
  have d1: "footprint (post ctx) \<inter> (footprint (req_path req) \<union> footprint p) = {}"
    using i(4) fresh dj inb by auto
  have d2: "footprint (req_path req) \<inter> footprint p = {}"
    using i(4) fresh pb inb by auto
  have lv: "list_all2 (hdr_live m' B) (drop j (vec_els (req_headers req))) (drop j (a_headers a))"
    using r i(5) nB by (auto simp: run_rep_def intro: live_headers_frame)
  have "run_rep B j m' (ctx\<lparr>http_request := Some (req\<lparr>req_body := p\<rparr>)\<rparr>)
      (req\<lparr>req_body := p\<rparr>) (a\<lparr>a_body := bs\<rparr>)"
    using r rr i(2) rp' pth' d1 d2 lv frame_wf [OF i(5)]
    by (simp add: run_rep_def ctx_rep_def req_rep_def)
  with i(1,3,5) that show ?thesis by blast
qed

end
