(* ===== verification/HttpParseSim.thy ===== *)
theory HttpParseSim
  imports HttpParseFeed
begin

text \<open>
  The simulation of whole feeds: every block of \<^verbatim>\<open>http_parse_feed\<close> does what its
  abstract counterpart does, and so does the run through the labels.
\<close>

section \<open>One block\<close>

text \<open>The objects of a context: those of its strings.\<close>

definition req_bufs :: "http_request_t \<Rightarrow> base set" where
  "req_bufs req = {Buf (str_buf (req_path req)), Buf (str_buf (req_body req))}"

definition run_ok ::
  "base \<Rightarrow> nat \<Rightarrow> mem \<Rightarrow> http_parse_ctx_t \<Rightarrow> http_request_t \<Rightarrow>
     mem \<Rightarrow> http_parse_ctx_t \<Rightarrow> http_request_t \<Rightarrow> actx \<Rightarrow> bool" where
  "run_ok B j m ctx req m' ctx' req' a' \<longleftrightarrow>
     run_rep B j m' ctx' req' a' \<and> frame (req_bufs req) m m' \<and> post ctx' = post ctx \<and>
     req_bufs req' = req_bufs req"

lemma run_ok_refl: "run_rep B j m ctx req a \<Longrightarrow> run_ok B j m ctx req m ctx req a"
  by (simp add: run_ok_def run_rep_wf)

lemma run_ok_trans:
  assumes "run_ok B j m ctx req m' ctx' req' a'" and "run_ok B j m' ctx' req' m'' ctx'' req'' a''"
  shows "run_ok B j m ctx req m'' ctx'' req'' a''"
proof -
  have "frame (req_bufs req) m m''"
    using assms by (auto simp: run_ok_def intro: frame_trans)
  with assms show ?thesis by (simp add: run_ok_def)
qed

lemma run_rep_state:
  "run_rep B j m ctx req a \<Longrightarrow> run_rep B j m (ctx\<lparr>wait_state := s\<rparr>) req (a\<lparr>a_state := s\<rparr>)"
  by (simp add: run_rep_def ctx_rep_def req_rep_def)

lemma run_rep_request_line:
  "run_rep B j m ctx req a \<Longrightarrow> run_rep B j m (ctx\<lparr>request_line := v\<rparr>) req a"
  by (simp add: run_rep_def ctx_rep_def)

lemma block_wait_req_refines:
  assumes r: "run_rep B j m ctx req a" and av: "always_avail m" and inv: "spec_inv L_req a"
    and len: "length (a_text a) < MAX_LEN" and s: "spec_wait_req a = (jmp, a')"
  shows "\<exists>ctx' req' m'. block_wait_req ctx m = Inr (jmp, ctx', m') \<and> run_ok B j m ctx req m' ctx' req' a'"
proof -
  let ?c = "ctx\<lparr>wait_state := http_parse_wait_req\<rparr>" and ?a = "a\<lparr>a_state := http_parse_wait_req\<rparr>"
  have r1: "run_rep B j m ?c req ?a" using r by (rule run_rep_state)
  have n0: "a_next ?a = 0" using inv by (simp add: spec_inv_def)
  have upd: "update_ctx_to_next_clrf m ?c = Inr (case find_crlf (a_text a) of
      None \<Rightarrow> (http_err_parse_cannot_find_clrf, ?c)
    | Some i \<Rightarrow> (http_success, ?c\<lparr>cur := 0, next_line := i + 2\<rparr>))"
    using update_ctx_refines [OF r1] len n0 by (simp split: option.split)
  show ?thesis
  proof (cases "spec_line ?a")
    case None
    then have "find_crlf (a_text a) = None" using n0 by (simp add: spec_line_def split: option.splits)
    with s None upd run_ok_refl [OF r1] show ?thesis
      by (intro exI [of _ ?c] exI [of _ req] exI [of _ m])
        (simp add: spec_wait_req_def block_wait_req_def run_ok_def)
  next
    case (Some p)
    obtain line a1 where p: "spec_line ?a = Some (line, a1)" using Some by (cases p) auto
    have s1: "a1 = ?a\<lparr>a_cur := 0, a_next := length line + 2\<rparr>" "find_crlf (a_text a) = Some (length line)"
      "line = take (length line) (a_text a)" "length line + 2 \<le> length (a_text a)"
      using spec_line_Some(1-4) [OF p] n0 by simp_all
    let ?c1 = "?c\<lparr>cur := 0, next_line := 0 + length line + 2\<rparr>"
    let ?sv = "\<lparr>sv_data = Ptr B 0, sv_len = length line\<rparr>"
    have n: "0 + length line + 2 \<le> length (a_text ?a)" "length (a_text ?a) < MAX_LEN"
      using s1(4) len by simp_all
    note fl = focus_line_refines [OF r1 n]
    let ?c2 = "?c1\<lparr>request_line := ?sv\<rparr>"
    have "run_rep B j m ?c1 req a1" unfolding s1(1) using run_rep_line [OF r1] by simp
    then have r2: "run_rep B j m ?c2 req a1" by (rule run_rep_request_line)
    have v: "view_bytes m (request_line ?c2) = Inr line" using fl(2) s1(3) by simp
    have ob: "in_obj B (request_line ?c2)" using fl(3) by simp
    have ll: "length line < MAX_LEN" using s1(4) len by simp
    from parse_request_line_refines [OF r2 av v ob _ _ ll] obtain herr ctx' req' m' where
      h: "parse_request_line ?c2 m = Inr (herr, ctx', m')" "herr \<noteq> http_err_request_fatal"
        "run_rep B j m' ctx' req' (spec_request_line line a1)" "frame {Buf (str_buf (req_path req))} m m'"
        "str_buf (req_path req') = str_buf (req_path req)" "post ctx' = post ?c2" "req_body req' = req_body req"
      by auto
    have "frame (req_bufs req) m m'" using h(4) by (rule frame_mono) (simp add: req_bufs_def)
    with h have "run_ok B j m ctx req m' ctx' req' (spec_request_line line a1)"
      by (simp add: run_ok_def req_bufs_def)
    moreover have "block_wait_req ctx m = Inr (Goto L_hdr, ctx', m')"
      using upd s1(2) fl(1) h(1,2) by (simp add: block_wait_req_def Let_def)
    moreover have "(jmp, a') = (Goto L_hdr, spec_request_line line a1)"
      using s p by (simp add: spec_wait_req_def Let_def)
    ultimately show ?thesis by auto
  qed
qed

lemma block_wait_hdr_refines:
  assumes r: "run_rep B j m ctx req a" and av: "always_avail m" and inv: "spec_inv L_hdr a"
    and len: "length (a_text a) < MAX_LEN" and s: "spec_wait_hdr a = (jmp, a')"
  shows "\<exists>ctx' req' m'. block_wait_hdr ctx m = Inr (jmp, ctx', m') \<and> run_ok B j m ctx req m' ctx' req' a'"
proof -
  let ?c = "ctx\<lparr>wait_state := http_parse_wait_hdr\<rparr>" and ?a = "a\<lparr>a_state := http_parse_wait_hdr\<rparr>"
  have r1: "run_rep B j m ?c req ?a" using r by (rule run_rep_state)
  obtain e c a1 where l: "spec_header_loop 100 1 ?a = (e, c, a1)" by (cases "spec_header_loop 100 1 ?a") auto
  have nx: "a_next ?a \<le> length (a_text ?a)" "length (a_text ?a) < MAX_LEN"
    using inv len by (simp_all add: spec_inv_def)
  from header_loop_refines [OF r1 av nx l] obtain ctx1 req1 m1 where
    h: "header_loop 100 1 ?c m = Inr (e, c, ctx1, m1)" "loop_ok B j m ?c req ?a m1 ctx1 req1 a1" by blast
  have r2: "run_rep B j m1 ctx1 req1 a1" and f: "frame {} m m1" and po: "post ctx1 = post ctx"
    and bufs: "req_bufs req1 = req_bufs req"
    using h(2) by (simp_all add: loop_ok_def req_bufs_def)
  have f': "frame (req_bufs req) m m1" using f by (rule frame_mono) simp
  have bt: "body_type ctx1 = a_body_type a1" "next_line ctx1 = a_next a1"
    using r2 by (simp_all add: run_rep_def ctx_rep_def)
  have r3: "run_rep B j m1 (ctx1\<lparr>post_full_length := a_next a1\<rparr>) req1 (a1\<lparr>a_full := a_next a1\<rparr>)"
    using r2 by (simp add: run_rep_def ctx_rep_def req_rep_def)
  have ok: "run_ok B j m ctx req m1 ctx1 req1 a1"
    "run_ok B j m ctx req m1 (ctx1\<lparr>post_full_length := a_next a1\<rparr>) req1 (a1\<lparr>a_full := a_next a1\<rparr>)"
    using r2 r3 f' po bufs by (simp_all add: run_ok_def)
  show ?thesis
  proof (cases e)
    case (Some herr)
    with s l h(1) ok(1) show ?thesis
      by (intro exI [of _ ctx1] exI [of _ req1] exI [of _ m1]) (simp add: spec_wait_hdr_def block_wait_hdr_def)
  next
    case e: None
    show ?thesis
    proof (cases "c \<noteq> 100 \<and> a_body_type a1 = http_transfer_body_unset")
      case True
      with e s l h(1) ok(2) bt show ?thesis
        by (intro exI [of _ "ctx1\<lparr>post_full_length := a_next a1\<rparr>"] exI [of _ req1] exI [of _ m1])
          (simp add: spec_wait_hdr_def block_wait_hdr_def)
    next
      case False
      with e s l h(1) ok(1) bt show ?thesis
        by (intro exI [of _ ctx1] exI [of _ req1] exI [of _ m1])
          (auto simp: spec_wait_hdr_def block_wait_hdr_def split: if_splits http_transfer_body_type.splits)
    qed
  qed
qed

lemma sz_sub_add: "a < SIZE_MOD \<Longrightarrow> b < SIZE_MOD \<Longrightarrow> sz_sub (sz_add a b) a = b"
  by (cases "a + b < SIZE_MOD") (simp_all add: sz_add_def sz_sub_def mod_if)

lemma block_wait_fix_body_refines:
  assumes r: "run_rep B j m ctx req a" and av: "always_avail m" and inv: "spec_inv L_fix_body a"
    and len: "length (a_text a) < MAX_LEN"
  shows "case spec_wait_fix_body (ndebug m) a of
      Inl e \<Rightarrow> block_wait_fix_body ctx m = Inl e
    | Inr (jmp, a') \<Rightarrow> \<exists>ctx' req' m'. block_wait_fix_body ctx m = Inr (jmp, ctx', m') \<and>
        run_ok B j m ctx req m' ctx' req' a'"
proof -
  let ?full = "sz_add (a_cur a) (a_body_length a)"
  let ?c = "ctx\<lparr>wait_state := http_parse_wait_fix_body, body_cur := 0, post_full_length := ?full\<rparr>"
  let ?a = "a\<lparr>a_state := http_parse_wait_fix_body, a_full := ?full\<rparr>"
  have eqs: "cur ctx = a_cur a" "body_length ctx = a_body_length a" "http_request ctx = Some req"
    using r by (simp_all add: run_rep_def ctx_rep_def)
  have r1: "run_rep B j m ?c req ?a" using r by (simp add: run_rep_def ctx_rep_def req_rep_def)
  note ld = run_rep_load [OF r]
  show ?thesis
  proof (cases "?full > length (a_text a)")
    case True
    then have sp: "spec_wait_fix_body (ndebug m) a = Inr (Return http_err_request_tcp_segment_in_body, ?a)"
      by (simp add: spec_wait_fix_body_def Let_def)
    have "block_wait_fix_body ctx m = Inr (Return http_err_request_tcp_segment_in_body, ?c, m)"
      using True by (simp add: block_wait_fix_body_def Let_def eqs ld(2))
    moreover have "run_ok B j m ctx req m ?c req ?a" using run_ok_refl [OF r1] by (simp add: run_ok_def)
    ultimately show ?thesis unfolding sp by auto
  next
    case False
    let ?body = "take (a_body_length a) (drop (a_cur a) (a_text a))"
    have sz: "sz_sub ?full (a_cur a) = a_body_length a"
      using inv len by (intro sz_sub_add) (simp_all add: spec_inv_def)
    have v: "view_bytes m (string_view_from_string (post ctx)) = Inr (a_text a)"
      using r by (auto simp: run_rep_def ctx_rep_def intro: view_from_string)
    have pv: "sv_len (string_view_from_string (post ctx)) < SIZE_MOD"
      using view_bytes_length [OF v] len by simp
    have ob0: "in_obj B (string_view_from_string (post ctx))"
      using r by (simp add: run_rep_def in_obj_def string_view_from_string_def string_view_from_parts_def Let_def)
    obtain bv where bv: "string_view_substr m (string_view_from_string (post ctx)) (a_cur a) (a_body_length a) = Inr bv"
        "view_bytes m bv = Inr ?body" "in_obj B bv" "sv_len bv = length ?body"
      using substr_in_obj [OF v ob0 pv] by blast
    have bl: "length ?body < MAX_LEN" using len by simp
    let ?c1 = "?c\<lparr>next_line := ?full, body_view := bv\<rparr>" and ?a1 = "?a\<lparr>a_next := ?full\<rparr>"
    have r2: "run_rep B j m ?c1 req ?a1" using r1 by (simp add: run_rep_def ctx_rep_def req_rep_def)
    obtain p m' where b: "string_init_from_string_view (req_body req) bv m = Inr (True, p, m')"
        "run_rep B j m' (?c1\<lparr>http_request := Some (req\<lparr>req_body := p\<rparr>)\<rparr>) (req\<lparr>req_body := p\<rparr>) (?a1\<lparr>a_body := ?body\<rparr>)"
        "frame {Buf (str_buf (req_body req))} m m'" "str_buf p = str_buf (req_body req)"
      using set_body_refines [OF r2 av bv(2,3) bl] by blast
    have f: "frame (req_bufs req) m m'" using b(3) by (rule frame_mono) (simp add: req_bufs_def)
    have ok: "run_ok B j m ctx req m' (?c1\<lparr>http_request := Some (req\<lparr>req_body := p\<rparr>)\<rparr>) (req\<lparr>req_body := p\<rparr>)
        (?a1\<lparr>a_body := ?body\<rparr>)"
      using b(2,4) f by (simp add: run_ok_def req_bufs_def)
    show ?thesis
    proof (cases "length ?body = a_body_length a \<or> ndebug m")
      case True
      then have as: "c_assert (ndebug m) (length ?body = a_body_length a) = Inr ()" by (auto simp: c_assert_def)
      have sp: "spec_wait_fix_body (ndebug m) a = Inr (Goto L_end, ?a1\<lparr>a_body := ?body\<rparr>)"
        using False as by (simp add: spec_wait_fix_body_def Let_def del: length_take)
      have "block_wait_fix_body ctx m = Inr (Goto L_end, ?c1\<lparr>http_request := Some (req\<lparr>req_body := p\<rparr>)\<rparr>, m')"
        using False as bv(1,4) b(1)
        by (simp add: block_wait_fix_body_def Let_def eqs ld(2) string_subview_def sz sv_defs del: length_take)
      with ok show ?thesis unfolding sp by auto
    next
      case no: False
      then have as: "c_assert (ndebug m) (length ?body = a_body_length a) = Inl Assert_failed"
        by (simp add: c_assert_def)
      have sp: "spec_wait_fix_body (ndebug m) a = Inl Assert_failed"
        using False as by (simp add: spec_wait_fix_body_def Let_def del: length_take)
      have "block_wait_fix_body ctx m = Inl Assert_failed"
        using False as bv(1,4)
        by (simp add: block_wait_fix_body_def Let_def eqs ld(2) string_subview_def sz sv_defs del: length_take)
      then show ?thesis unfolding sp by simp
    qed
  qed
qed

lemma run_block_refines:
  assumes r: "run_rep B j m ctx req a" and av: "always_avail m" and inv: "spec_inv l a"
    and len: "length (a_text a) < MAX_LEN"
  shows "case spec_block (ndebug m) l a of
      Inl e \<Rightarrow> run_block l ctx m = Inl e
    | Inr (jmp, a') \<Rightarrow> \<exists>ctx' req' m'. run_block l ctx m = Inr (jmp, ctx', m') \<and>
        run_ok B j m ctx req m' ctx' req' a'"
proof (cases l)
  case L_req
  with block_wait_req_refines [OF r av _ len] inv show ?thesis
    by (auto simp: spec_block_def run_block_def split: prod.split)
next
  case L_hdr
  with block_wait_hdr_refines [OF r av _ len] inv show ?thesis
    by (auto simp: spec_block_def run_block_def split: prod.split)
next
  case L_fix_body
  then have "spec_inv L_fix_body a" using inv by simp
  then show ?thesis
    unfolding L_fix_body spec_block_def run_block_def label.case
    by (rule block_wait_fix_body_refines [OF r av _ len])
next
  case L_clen
  have "run_ok B j m ctx req m (ctx\<lparr>wait_state := http_parse_wait_clen\<rparr>) req (a\<lparr>a_state := http_parse_wait_clen\<rparr>)"
    using run_ok_refl [OF run_rep_state [OF r]] by (simp add: run_ok_def)
  with L_clen show ?thesis by (auto simp: spec_block_def run_block_def block_wait_clen_def)
next
  case L_cval
  have "run_ok B j m ctx req m (ctx\<lparr>wait_state := http_parse_wait_cval\<rparr>) req (a\<lparr>a_state := http_parse_wait_cval\<rparr>)"
    using run_ok_refl [OF run_rep_state [OF r]] by (simp add: run_ok_def)
  with L_cval show ?thesis by (auto simp: spec_block_def run_block_def block_wait_cval_def)
next
  case L_end
  with run_ok_refl [OF r] show ?thesis by (auto simp: spec_block_def run_block_def)
qed

section \<open>The run\<close>

lemma feed_run_refines:
  assumes "run_rep B j (ps_mem st) ctx req a" and "always_avail (ps_mem st)" and "spec_inv l a"
    and "length (a_text a) < MAX_LEN"
  shows "case spec_run fuel (ndebug (ps_mem st)) l a of
      Inl e \<Rightarrow> feed_run fuel l packet nid ctx st = Inl e
    | Inr (herr, a') \<Rightarrow> \<exists>tl ctx' req' m'. feed_run fuel l packet nid ctx st =
          Inr (herr, tl, st\<lparr>ps_mem := m', ps_nodes := (ps_nodes st)(nid := Some ctx')\<rparr>) \<and>
        tl \<in> {None, Some nid} \<and> run_ok B j (ps_mem st) ctx req m' ctx' req' a'"
  using assms
proof (induction fuel arbitrary: l ctx req a st)
  case 0
  then show ?case by simp
next
  case (Suc fuel)
  let ?m = "ps_mem st"
  show ?case
  proof (cases "l = L_end")
    case True
    have e: "post_full_length ctx = a_full a" "next_line ctx = a_next a" "string_len (post ctx) = length (a_text a)"
      using Suc.prems(1) run_rep_load(2) [OF Suc.prems(1)] by (simp_all add: run_rep_def ctx_rep_def)
    have ns: "\<not> a_next a < a_full a" using Suc.prems(3) True by (simp add: spec_inv_def)
    show ?thesis
    proof (cases "ndebug ?m \<or> a_full a = a_next a \<and> a_full a = length (a_text a)")
      case ok: True
      have "run_ok B j ?m ctx req ?m (ctx\<lparr>wait_state := http_parse_end\<rparr>) req (a\<lparr>a_state := http_parse_end\<rparr>)"
        using run_ok_refl [OF run_rep_state [OF Suc.prems(1)]] by (simp add: run_ok_def)
      moreover have "feed_run (Suc fuel) l packet nid ctx st = Inr (http_success, Some nid,
          st\<lparr>ps_mem := ?m, ps_nodes := (ps_nodes st)(nid := Some (ctx\<lparr>wait_state := http_parse_end\<rparr>))\<rparr>)"
        using ok True e ns by (auto simp: c_assert_def)
      moreover have "spec_run (Suc fuel) (ndebug ?m) l a = Inr (http_success, a\<lparr>a_state := http_parse_end\<rparr>)"
        using ok True by (auto simp: c_assert_def)
      ultimately show ?thesis by (simp only: sum.case prod.case) blast
    next
      case False
      with True e ns show ?thesis by (auto simp: c_assert_def)
    qed
  next
    case False
    note blk = run_block_refines [OF Suc.prems]
    show ?thesis
    proof (cases "spec_block (ndebug ?m) l a")
      case (Inl e)
      with blk False show ?thesis by simp
    next
      case (Inr r)
      obtain jmp a1 where r: "r = (jmp, a1)" by force
      with blk Inr obtain ctx1 req1 m1 where b: "run_block l ctx ?m = Inr (jmp, ctx1, m1)"
          "run_ok B j ?m ctx req m1 ctx1 req1 a1" by auto
      show ?thesis
      proof (cases jmp)
        case (Return herr)
        have "feed_run (Suc fuel) l packet nid ctx st =
            Inr (herr, None, st\<lparr>ps_mem := m1, ps_nodes := (ps_nodes st)(nid := Some ctx1)\<rparr>)"
          using False b(1) Return by simp
        with False Inr r Return b(2) show ?thesis by auto
      next
        case (Goto l')
        let ?st1 = "st\<lparr>ps_mem := m1\<rparr>"
        have f: "frame (req_bufs req) ?m m1" using b(2) by (simp add: run_ok_def)
        from spec_block_inv [of "ndebug ?m" l a jmp a1] Inr r Suc.prems(3) Goto
        have i: "spec_inv l' a1" "a_text a1 = a_text a" by simp_all
        have p1: "run_rep B j (ps_mem ?st1) ctx1 req1 a1" using b(2) by (simp add: run_ok_def)
        have p2: "always_avail (ps_mem ?st1)" using always_avail_frame [OF Suc.prems(2) f] by simp
        have p4: "length (a_text a1) < MAX_LEN" using i(2) Suc.prems(4) by simp
        have nd: "ndebug m1 = ndebug ?m" using frame_env(3) [OF f] .
        have c: "feed_run (Suc fuel) l packet nid ctx st = feed_run fuel l' packet nid ctx1 ?st1"
          using False b(1) Goto by simp
        have s: "spec_run (Suc fuel) (ndebug ?m) l a = spec_run fuel (ndebug (ps_mem ?st1)) l' a1"
          using False Inr r Goto nd by simp
        from Suc.IH [OF p1 p2 i(1) p4] show ?thesis
          unfolding c s using run_ok_trans [OF b(2)] by (fastforce split: sum.splits)
      qed
    qed
  qed
qed

section \<open>One feed\<close>

definition ctx_inv :: "actx \<Rightarrow> bool" where
  "ctx_inv a \<longleftrightarrow> spec_inv (state_label (a_state a)) a"

text \<open>What a feed may change in memory.\<close>

definition feed_frame :: "http_parse_ctx_t \<Rightarrow> http_request_t \<Rightarrow> base set" where
  "feed_frame ctx req = footprint (post ctx) \<union> req_bufs req"

lemma append_refines:
  assumes r: "ctx_rep m ctx req a" and av: "always_avail m" and v: "view_bytes m packet = Inr bs"
    and ap: "view_apart packet (post ctx)" and len: "length (a_text a) + length bs < MAX_LEN"
  obtains p m' where "string_append_view (post ctx) packet m = Inr (True, p, m')"
    and "run_rep (Heap (brk m)) (length (a_headers a)) m' (ctx\<lparr>post := p\<rparr>) req (a\<lparr>a_text := a_text a @ bs\<rparr>)"
    and "frame (footprint (post ctx)) m m'" and "str_buf p = str_buf (post ctx)"
    and "\<forall>k i. str_data (post ctx) = Ptr (Heap k) i \<longrightarrow> blocks m' (Heap k) = None"
proof -
  have wf: "wf_mem m" and rp: "str_rep m (post ctx) (a_text a)" and rr: "req_rep m req a"
    and dj: "footprint (post ctx) \<inter> (footprint (req_path req) \<union> footprint (req_body req)) = {}"
    using r by (simp_all add: ctx_rep_def)
  have "append_outcome m (post ctx) (a_text a @ bs) (string_append_view (post ctx) packet m)"
    using rp wf v ap len av by (intro string_append_view_ok) (auto simp: always_avail_def)
  then obtain p m' where p: "string_append_view (post ctx) packet m = Inr (True, p, m')"
      "str_rep m' p (a_text a @ bs)" "str_buf p = str_buf (post ctx)" "str_data p = Ptr (Heap (brk m)) 0"
      "frame (footprint (post ctx)) m m'" "\<forall>k i. str_data (post ctx) = Ptr (Heap k) i \<longrightarrow> blocks m' (Heap k) = None"
    by (auto simp: append_outcome_def)
  have fp: "footprint p = {Buf (str_buf (post ctx)), Heap (brk m)}"
    using p(3,4) by (auto simp: footprint_def)
  have inp: "Buf (str_buf (post ctx)) \<in> footprint (post ctx)" by (simp add: footprint_def)
  have "req_rep m' req a" using rr p(5) by (rule req_rep_frame) (use dj in auto)
  moreover have "Heap (brk m) \<notin> footprint (req_path req) \<union> footprint (req_body req)"
    using rr footprint_fresh [OF _ wf] by (auto simp: req_rep_def)
  ultimately have "run_rep (Heap (brk m)) (length (a_headers a)) m' (ctx\<lparr>post := p\<rparr>) req (a\<lparr>a_text := a_text a @ bs\<rparr>)"
    using r p(2,4) fp inp dj frame_wf [OF p(5)]
    by (auto simp: run_rep_def ctx_rep_def req_rep_def dest: list_all2_lengthD)
  with p(1,3,5,6) that show ?thesis by blast
qed

lemma http_parse_feed_refines:
  assumes r: "ctx_rep (ps_mem st) ctx req a" and nd: "ps_nodes st nid = Some ctx" and inv: "ctx_inv a"
    and av: "always_avail (ps_mem st)" and v: "view_bytes (ps_mem st) packet = Inr bs"
    and ap: "view_apart packet (post ctx)" and len: "length (a_text a) + length bs < MAX_LEN"
  shows "case spec_feed (ndebug (ps_mem st)) bs a of
      Inl e \<Rightarrow> http_parse_feed (Some nid) packet st = Inl e
    | Inr (herr, a') \<Rightarrow> \<exists>ctx' req' m'. http_parse_feed (Some nid) packet st =
          Inr (herr, Some nid, st\<lparr>ps_mem := m', ps_nodes := (ps_nodes st)(nid := Some ctx')\<rparr>) \<and>
        run_rep (Heap (brk (ps_mem st))) (length (a_headers a)) m' ctx' req' a' \<and>
        frame (feed_frame ctx req) (ps_mem st) m' \<and> str_buf (post ctx') = str_buf (post ctx) \<and>
        req_bufs req' = req_bufs req \<and>
        (\<forall>k i. str_data (post ctx) = Ptr (Heap k) i \<longrightarrow> blocks m' (Heap k) = None)"
proof -
  let ?m = "ps_mem st" and ?a = "a\<lparr>a_text := a_text a @ bs\<rparr>"
  obtain p m1 where p: "string_append_view (post ctx) packet ?m = Inr (True, p, m1)"
      "run_rep (Heap (brk ?m)) (length (a_headers a)) m1 (ctx\<lparr>post := p\<rparr>) req ?a"
      "frame (footprint (post ctx)) ?m m1" "str_buf p = str_buf (post ctx)"
      "\<forall>k i. str_data (post ctx) = Ptr (Heap k) i \<longrightarrow> blocks m1 (Heap k) = None"
    by (rule append_refines [OF r av v ap len])
  let ?st = "st\<lparr>ps_mem := m1\<rparr>" and ?l = "state_label (a_state a)" and ?c = "ctx\<lparr>post := p\<rparr>"
  have ws: "wait_state ctx = a_state a" using r by (simp add: ctx_rep_def)
  have p1: "run_rep (Heap (brk ?m)) (length (a_headers a)) (ps_mem ?st) ?c req ?a" using p(2) by simp
  have p2: "always_avail (ps_mem ?st)" using always_avail_frame [OF av p(3)] by simp
  have p3: "spec_inv ?l ?a" using inv by (auto simp: ctx_inv_def spec_inv_def)
  have p4: "length (a_text ?a) < MAX_LEN" using len by simp
  have ndb: "ndebug m1 = ndebug ?m" using frame_env(3) [OF p(3)] .
  have sf: "spec_feed (ndebug ?m) bs a = spec_run feed_fuel (ndebug (ps_mem ?st)) ?l ?a"
    by (simp add: spec_feed_def ndb)
  note run = feed_run_refines [OF p1 p2 p3 p4, of feed_fuel packet nid]
  show ?thesis
  proof (cases "spec_feed (ndebug ?m) bs a")
    case (Inl e)
    then have "spec_run feed_fuel (ndebug (ps_mem ?st)) ?l ?a = Inl e" using sf by simp
    with run have "feed_run feed_fuel ?l packet nid ?c ?st = Inl e" by simp
    with Inl nd p(1) ws show ?thesis by (simp add: http_parse_feed_def Let_def)
  next
    case (Inr x)
    obtain herr a' where x: "x = (herr, a')" by force
    then have "spec_run feed_fuel (ndebug (ps_mem ?st)) ?l ?a = Inr (herr, a')" using sf Inr by simp
    with run obtain tl ctx' req' m' where f: "feed_run feed_fuel ?l packet nid ?c ?st =
          Inr (herr, tl, ?st\<lparr>ps_mem := m', ps_nodes := (ps_nodes ?st)(nid := Some ctx')\<rparr>)"
        "tl \<in> {None, Some nid}" "run_ok (Heap (brk ?m)) (length (a_headers a)) m1 ?c req m' ctx' req' a'"
      by auto
    have "frame (feed_frame ctx req) ?m m1" using p(3) by (rule frame_mono) (simp add: feed_frame_def)
    then have fr: "frame (feed_frame ctx req) ?m m'"
      using f(3) by (auto simp: run_ok_def feed_frame_def intro: frame_trans)
    have "http_parse_feed (Some nid) packet st =
        Inr (herr, Some nid, st\<lparr>ps_mem := m', ps_nodes := (ps_nodes st)(nid := Some ctx')\<rparr>)"
      using nd p(1) ws f(1,2) by (auto simp: http_parse_feed_def Let_def)
    moreover have "blocks m' (Heap k) = None" if "str_data (post ctx) = Ptr (Heap k) i" for k i
    proof -
      have wf: "wf_mem ?m" and rp: "str_rep ?m (post ctx) (a_text a)" using r by (simp_all add: ctx_rep_def)
      have "Heap k \<in> footprint (post ctx)" using that by (simp add: footprint_def)
      then have "blocks ?m (Heap k) \<noteq> None" using str_rep_footprint_used [OF rp] by simp
      then have "k < brk ?m" using wf_mem_used(1) [OF wf] by auto
      also have "\<dots> \<le> brk m1" using p(3) by (simp add: frame_def)
      finally show ?thesis
        using f(3) p(5) that by (auto simp: run_ok_def intro: frame_dead)
    qed
    ultimately show ?thesis using f(3) fr p(4) x Inr
      by (auto simp: run_ok_def intro!: exI [of _ ctx'] exI [of _ m'])
  qed
qed

text \<open>The invariant is kept.\<close>

lemma spec_run_inv:
  assumes "spec_run fuel nd l a = Inr (herr, a')" and "spec_inv l a"
  shows "ctx_inv a' \<and> a_text a' = a_text a"
  using assms
proof (induction fuel arbitrary: l a)
  case (Suc fuel)
  show ?case
  proof (cases "l = L_end")
    case True
    with Suc.prems show ?thesis
      by (auto simp: bnd_eq_Inr_iff ctx_inv_def spec_inv_def)
  next
    case False
    with Suc.prems(1) obtain j a1 where b: "spec_block nd l a = Inr (j, a1)"
        "(case j of Return herr \<Rightarrow> Inr (herr, a1) | Goto l' \<Rightarrow> spec_run fuel nd l' a1) = Inr (herr, a')"
      by (auto simp: bnd_eq_Inr_iff)
    from spec_block_inv [OF b(1) Suc.prems(2)] b(2) Suc.IH show ?thesis
      by (auto simp: ctx_inv_def split: jump.splits)
  qed
qed simp

lemma spec_feed_inv:
  assumes "spec_feed nd bs a = Inr (herr, a')" and "ctx_inv a"
  shows "ctx_inv a'" and "a_text a' = a_text a @ bs"
proof -
  have "spec_inv (state_label (a_state a)) (a\<lparr>a_text := a_text a @ bs\<rparr>)"
    using assms(2) by (auto simp: ctx_inv_def spec_inv_def)
  with assms(1) spec_run_inv show "ctx_inv a'" "a_text a' = a_text a @ bs"
    by (fastforce simp: spec_feed_def)+
qed

lemma ctx_inv_actx0 [simp]: "ctx_inv actx0"
  by (simp add: ctx_inv_def spec_inv_def actx0_def)

section \<open>A new context\<close>

lemma http_parse_ctx_new_refines:
  assumes wf: "wf_mem (ps_mem st)" and av: "always_avail (ps_mem st)"
  shows "\<exists>nid ctx req m'. http_parse_ctx_new st =
     Inr (http_success, Some nid, \<lparr>ps_mem = m', ps_nodes = (ps_nodes st)(nid := Some ctx)\<rparr>) \<and>
     nid = brk (ps_mem st) \<and> ctx_rep m' ctx req actx0 \<and> frame {} (ps_mem st) m' \<and>
     (\<forall>b \<in> feed_frame ctx req. blocks (ps_mem st) b = None)"
proof -
  let ?m = "ps_mem st" and ?k = "brk (ps_mem st)"
  let ?z = "replicate 16 NUL"
  let ?m' = "?m\<lparr>blocks := (blocks ?m)(Buf (Suc ?k) := Some ?z, Buf (Suc (Suc (Suc ?k))) := Some ?z,
      Buf (Suc (Suc (Suc (Suc ?k)))) := Some ?z), brk := Suc (Suc (Suc (Suc (Suc ?k))))\<rparr>"
  let ?str = "\<lambda>b. \<lparr>str_buf = b, str_data = Ptr (Buf b) 0, str_size = 0, str_cap = 0\<rparr>"
  let ?req = "\<lparr>req_method = http_method_get, req_path = ?str (Suc (Suc (Suc ?k))),
      req_version = http_ver_1_0, req_headers = cc_init, req_body = ?str (Suc (Suc (Suc (Suc ?k))))\<rparr>"
  let ?ctx = "(zero_ctx (Suc ?k))\<lparr>http_request := Some ?req\<rparr>"
  have e: "http_parse_ctx_new st =
     Inr (http_success, Some ?k, \<lparr>ps_mem = ?m', ps_nodes = (ps_nodes st)(?k := Some ?ctx)\<rparr>)"
    using av
    by (simp add: http_parse_ctx_new_def alloc_request_def http_request_new_def new_buf_def
        string_init_def memset_def store_bytes_def zero_string_def always_avail_def Let_def fun_upd_twist)
  have st: "str_rep ?m' (?str b) []" if "blocks ?m' (Buf b) = Some ?z" for b
    using str_rep.small [OF that, of 0] by (simp add: terminated_def)
  have z: "str_rep ?m' (zero_string (Suc ?k)) []"
    unfolding zero_string_def by (rule str_rep.zeroed) (simp add: has_sbuf_def)
  have wf': "wf_mem ?m'" using wf by (auto simp: wf_mem_def)
  have "ctx_rep ?m' ?ctx ?req actx0"
    using st z wf'
    by (auto simp: ctx_rep_def req_rep_def zero_ctx_def actx0_def cc_init_def zero_string_def)
  moreover have "frame {} ?m ?m'" using wf wf' by (auto simp: frame_def wf_mem_def)
  moreover have "\<forall>b \<in> feed_frame ?ctx ?req. blocks ?m b = None"
    using wf by (simp add: feed_frame_def req_bufs_def zero_ctx_def zero_string_def wf_mem_def)
  ultimately show ?thesis using e by blast
qed

end
