(* ===== verification/HttpParseSeg.thy ===== *)
theory HttpParseSeg
  imports HttpParseSim
begin

text \<open>
  Segmentation: how the bytes of a request are cut into packets does not matter. A feed that
  stops for want of bytes leaves a context from which the next packet continues as if both had
  come in one piece, as long as the header part stays below the limit of the header counter,
  which starts anew with every packet.
\<close>

section \<open>More bytes do not change what is already complete\<close>

abbreviation more :: "actx \<Rightarrow> char list \<Rightarrow> actx" where
  "more a ys \<equiv> a\<lparr>a_text := a_text a @ ys\<rparr>"

lemma find_crlf_append: "find_crlf xs = Some i \<Longrightarrow> find_crlf (xs @ ys) = Some i"
  by (induction xs arbitrary: i rule: find_crlf.induct) (auto split: if_splits)

lemma spec_line_more:
  assumes "spec_line a = Some (line, a1)" and "a_next a \<le> length (a_text a)"
  shows "spec_line (more a ys) = Some (line, more a1 ys)"
proof -
  note s = spec_line_Some [OF assms]
  have "find_crlf (drop (a_next a) (a_text a) @ ys) = Some (length line)"
    using s(2) by (rule find_crlf_append)
  then have f: "find_crlf (drop (a_next a) (a_text a @ ys)) = Some (length line)"
    using assms(2) by simp
  have "take (length line) (drop (a_next a) (a_text a @ ys)) = line"
    using s(3,4) assms(2) by simp
  with f show ?thesis by (simp add: spec_line_def s(1))
qed

lemma spec_body_type_text: "spec_body_type h (a\<lparr>a_text := t\<rparr>) = (spec_body_type h a)\<lparr>a_text := t\<rparr>"
  by (simp add: spec_body_type_def split: http_header_field_t.split)

lemma spec_header_line_text: "spec_header_line l (a\<lparr>a_text := t\<rparr>) = (spec_header_line l a)\<lparr>a_text := t\<rparr>"
proof (cases "spec_header l")
  case (Some h)
  have e: "(a\<lparr>a_text := t\<rparr>)\<lparr>a_headers := a_headers (a\<lparr>a_text := t\<rparr>) @ [h]\<rparr> =
      (a\<lparr>a_headers := a_headers a @ [h]\<rparr>)\<lparr>a_text := t\<rparr>"
    by simp
  show ?thesis
    unfolding spec_header_line_def Some option.case e by (rule spec_body_type_text)
qed (simp add: spec_header_line_def)

lemma spec_request_line_text: "spec_request_line l (a\<lparr>a_text := t\<rparr>) = (spec_request_line l a)\<lparr>a_text := t\<rparr>"
  by (simp add: spec_request_line_def split: option.split prod.split)

text \<open>A loop that has ended stays as it is; one that ran out of bytes continues.\<close>

lemma header_loop_more:
  assumes "spec_header_loop n cnt a = (e, c, a1)" and "spec_inv L_hdr a"
  shows "if e = None then spec_header_loop n cnt (more a ys) = (None, c, more a1 ys)
     else e = Some http_err_parse_cannot_find_clrf \<and> cnt \<le> c \<and> c < cnt + n \<and>
       spec_header_loop n cnt (more a ys) = spec_header_loop (n + cnt - c) c (more a1 ys)"
  using assms
proof (induction n arbitrary: cnt a)
  case (Suc n)
  show ?case
  proof (cases "spec_line a")
    case None
    with Suc.prems show ?thesis by auto
  next
    case (Some p)
    obtain line a2 where p: "spec_line a = Some (line, a2)" using Some by (cases p) auto
    have nx: "a_next a \<le> length (a_text a)" using Suc.prems(2) by (simp add: spec_inv_def)
    note m = spec_line_more [OF p nx, of ys]
    have i: "spec_inv L_hdr a2" using p Suc.prems(2) by (rule spec_line_inv) simp
    show ?thesis
    proof (cases "line = []")
      case True
      with Suc.prems(1) p m show ?thesis by auto
    next
      case False
      let ?b = "spec_header_line line a2"
      have l: "spec_header_loop n (Suc cnt) ?b = (e, c, a1)" using Suc.prems(1) p False by simp
      have b: "spec_header_line line (more a2 ys) = more ?b ys" by (simp add: spec_header_line_text)
      have "spec_header_loop (Suc n) cnt (more a ys) = spec_header_loop n (Suc cnt) (more ?b ys)"
        using m False b by simp
      with Suc.IH [OF l spec_header_line_inv [OF i]] show ?thesis
        by (cases "e = None") auto
    qed
  qed
qed auto

section \<open>The header counter\<close>

lemma count_list_drop_le: "count_list (drop k xs) x \<le> count_list xs x"
  by (induction xs arbitrary: k) (auto simp: drop_Cons' intro: le_trans [OF _ le_add1] le_SucI)

text \<open>Every line consumes a line feed.\<close>

lemma spec_line_count:
  assumes "spec_line a = Some (line, a1)" and "a_next a \<le> length (a_text a)"
  shows "Suc (count_list (drop (a_next a1) (a_text a1)) LF) \<le> count_list (drop (a_next a) (a_text a)) LF"
proof -
  note s = spec_line_Some [OF assms]
  let ?k = "Suc (a_next a + length line)"
  have "drop (a_next a) (a_text a) = take (Suc (length line)) (drop (a_next a) (a_text a)) @ drop ?k (a_text a)"
    by (subst append_take_drop_id [of "Suc (length line)", symmetric]) (simp add: add.commute)
  also have "drop ?k (a_text a) = LF # drop (Suc ?k) (a_text a)"
    using s(4,6) by (subst Cons_nth_drop_Suc [symmetric]) auto
  finally have e: "drop (a_next a) (a_text a) =
      take (Suc (length line)) (drop (a_next a) (a_text a)) @ LF # drop (Suc ?k) (a_text a)" .
  have "count_list (drop (a_next a) (a_text a)) LF =
      count_list (take (Suc (length line)) (drop (a_next a) (a_text a))) LF +
      Suc (count_list (drop (Suc ?k) (a_text a)) LF)"
    by (subst e) simp
  then show ?thesis by (simp add: s(1))
qed

text \<open>
  With fewer line feeds than rounds the loop does not depend on either counter, and it ends
  with a count that the line feeds bound.
\<close>

lemma header_loop_count:
  assumes "count_list (drop (a_next a) (a_text a)) LF < n" and "spec_inv L_hdr a"
    and "count_list (drop (a_next a) (a_text a)) LF < n'"
  shows "\<exists>e d a1. spec_header_loop n cnt a = (e, cnt + d, a1) \<and> spec_header_loop n' cnt' a = (e, cnt' + d, a1) \<and>
     d \<le> count_list (drop (a_next a) (a_text a)) LF \<and>
     (e = None \<longrightarrow> d < count_list (drop (a_next a) (a_text a)) LF)"
  using assms
proof (induction n arbitrary: n' cnt cnt' a)
  case (Suc n)
  from Suc.prems(3) obtain k where k: "n' = Suc k" by (cases n') auto
  show ?case
  proof (cases "spec_line a")
    case None
    with k show ?thesis by auto
  next
    case (Some p)
    obtain line a2 where p: "spec_line a = Some (line, a2)" using Some by (cases p) auto
    have nx: "a_next a \<le> length (a_text a)" using Suc.prems(2) by (simp add: spec_inv_def)
    note c = spec_line_count [OF p nx]
    have i: "spec_inv L_hdr a2" using p Suc.prems(2) by (rule spec_line_inv) simp
    show ?thesis
    proof (cases "line = []")
      case True
      with p k c show ?thesis by auto
    next
      case False
      let ?b = "spec_header_line line a2"
      have 1: "count_list (drop (a_next ?b) (a_text ?b)) LF < n" "count_list (drop (a_next ?b) (a_text ?b)) LF < k"
        using c Suc.prems(1,3) k by simp_all
      from Suc.IH [OF 1(1) spec_header_line_inv [OF i] 1(2), of "Suc cnt" "Suc cnt'"]
      obtain e d a1 where "spec_header_loop n (Suc cnt) ?b = (e, Suc cnt + d, a1)"
        "spec_header_loop k (Suc cnt') ?b = (e, Suc cnt' + d, a1)"
        "d \<le> count_list (drop (a_next a2) (a_text a2)) LF"
        "e = None \<longrightarrow> d < count_list (drop (a_next a2) (a_text a2)) LF" by auto
      with p False k c show ?thesis by (intro exI [of _ e] exI [of _ "Suc d"] exI [of _ a1]) auto
    qed
  qed
qed simp

text \<open>The lines that were read have used up their line feeds.\<close>

lemma header_loop_consumes:
  assumes "spec_header_loop n cnt a = (e, c, a1)" and "spec_inv L_hdr a"
  shows "count_list (drop (a_next a1) (a_text a1 @ ys)) LF + c \<le>
     count_list (drop (a_next a) (a_text a @ ys)) LF + cnt \<and> cnt \<le> c"
  using assms
proof (induction n arbitrary: cnt a)
  case (Suc n)
  show ?case
  proof (cases "spec_line a")
    case None
    with Suc.prems show ?thesis by auto
  next
    case (Some p)
    obtain line a2 where p: "spec_line a = Some (line, a2)" using Some by (cases p) auto
    have nx: "a_next a \<le> length (a_text a)" using Suc.prems(2) by (simp add: spec_inv_def)
    have "a_next (more a ys) \<le> length (a_text (more a ys))" using nx by simp
    note k = spec_line_count [OF spec_line_more [OF p nx, of ys] this]
    have i: "spec_inv L_hdr a2" using p Suc.prems(2) by (rule spec_line_inv) simp
    show ?thesis
    proof (cases "line = []")
      case True
      with Suc.prems(1) p k show ?thesis by auto
    next
      case False
      let ?b = "spec_header_line line a2"
      have l: "spec_header_loop n (Suc cnt) ?b = (e, c, a1)" using Suc.prems(1) p False by simp
      from Suc.IH [OF l spec_header_line_inv [OF i]]
      have "count_list (drop (a_next a1) (a_text a1 @ ys)) LF + c \<le>
          count_list (drop (a_next a2) (a_text a2 @ ys)) LF + Suc cnt \<and> Suc cnt \<le> c" by simp
      moreover have "Suc (count_list (drop (a_next a2) (a_text a2 @ ys)) LF) \<le>
          count_list (drop (a_next a) (a_text a @ ys)) LF" using k by simp
      ultimately show ?thesis by linarith
    qed
  qed
qed simp

section \<open>Fuel\<close>

lemma spec_run_Suc: "label_rank l \<le> fuel \<Longrightarrow> spec_run (Suc fuel) nd l a = spec_run fuel nd l a"
proof (induction fuel arbitrary: l a)
  case 0
  then show ?case by (cases l) auto
next
  case (Suc fuel)
  show ?case
  proof (cases "l = L_end")
    case True
    then show ?thesis by simp
  next
    case False
    show ?thesis
    proof (cases "spec_block nd l a")
      case (Inl e)
      with False show ?thesis by simp
    next
      case (Inr r)
      obtain j a' where r: "r = (j, a')" by force
      show ?thesis
      proof (cases j)
        case (Goto l')
        with Inr r have "spec_block nd l a = Inr (Goto l', a')" by simp
        from spec_block_rank [OF this False] Suc.prems have "label_rank l' \<le> fuel" by simp
        from Suc.IH [OF this] False Inr r Goto show ?thesis by simp
      qed (use False Inr r in simp)
    qed
  qed
qed

lemma label_rank_le: "label_rank l \<le> 5"
  by (cases l) simp_all

text \<open>The run from a label, without fuel.\<close>

definition spec_exec :: "bool \<Rightarrow> label \<Rightarrow> actx \<Rightarrow> (http_err_t \<times> actx) res" where
  "spec_exec nd l a = spec_run feed_fuel nd l a"

lemma spec_exec_unfold:
  "spec_exec nd l a =
     (if l \<noteq> L_end
      then bnd (spec_block nd l a) (\<lambda>(j, a).
           case j of Return herr \<Rightarrow> Inr (herr, a) | Goto l' \<Rightarrow> spec_exec nd l' a)
      else bnd (c_assert nd (a_full a = a_next a)) (\<lambda>_.
           bnd (c_assert nd (a_full a = length (a_text a))) (\<lambda>_.
           Inr (http_success, a\<lparr>a_state := http_parse_end\<rparr>))))"
proof -
  have "spec_run 5 nd l' a' = spec_run 6 nd l' a'" for l' a'
    using spec_run_Suc [of l' 5 nd a'] label_rank_le [of l'] by simp
  then have e: "spec_exec nd l' a' = spec_run 5 nd l' a'" for l' a'
    by (simp add: spec_exec_def feed_fuel_def)
  have "spec_exec nd l a = spec_run (Suc 5) nd l a" by (simp add: spec_exec_def feed_fuel_def)
  then show ?thesis by (simp only: spec_run.simps e)
qed

lemma spec_feed_exec: "spec_feed nd bs a = spec_exec nd (state_label (a_state a)) (more a bs)"
  by (simp add: spec_feed_def spec_exec_def)

section \<open>Resuming\<close>

text \<open>The two results that ask for more bytes.\<close>

definition wants_more :: "http_err_t \<Rightarrow> bool" where
  "wants_more herr \<longleftrightarrow> herr \<in> {http_err_parse_cannot_find_clrf, http_err_request_tcp_segment_in_body}"

lemma exec_tail_success:
  assumes "spec_exec nd l a = Inr (herr, a1)" and "l \<in> {L_end, L_clen, L_cval}"
  shows "herr = http_success"
proof -
  have e: "spec_exec nd L_end b = Inr (herr, a1) \<Longrightarrow> herr = http_success" for b
    by (subst (asm) spec_exec_unfold) (auto simp: bnd_eq_Inr_iff)
  have v: "spec_exec nd L_cval b = Inr (herr, a1) \<Longrightarrow> herr = http_success" for b
    by (subst (asm) spec_exec_unfold) (auto simp: spec_block_def dest: e)
  have "spec_exec nd L_clen b = Inr (herr, a1) \<Longrightarrow> herr = http_success" for b
    by (subst (asm) spec_exec_unfold) (auto simp: spec_block_def dest: v)
  with e v assms show ?thesis by auto
qed

text \<open>\<open>resumes nd l a ys\<close>: from label \<open>l\<close>, stopping for more bytes loses nothing.\<close>

definition resumes :: "bool \<Rightarrow> label \<Rightarrow> actx \<Rightarrow> char list \<Rightarrow> bool" where
  "resumes nd l a ys \<longleftrightarrow>
     (\<forall>herr a1. spec_exec nd l a = Inr (herr, a1) \<and> wants_more herr \<longrightarrow>
        spec_exec nd (state_label (a_state a1)) (more a1 ys) = spec_exec nd l (more a ys))"

lemma resumes_tail: "l \<in> {L_end, L_clen, L_cval} \<Longrightarrow> resumes nd l a ys"
  by (auto simp: resumes_def wants_more_def dest: exec_tail_success)

lemma resumes_fix_body: "resumes nd L_fix_body a ys"
  unfolding resumes_def
proof (intro allI impI)
  fix herr a1
  assume h: "spec_exec nd L_fix_body a = Inr (herr, a1) \<and> wants_more herr"
  have nz: "herr \<noteq> http_success" using h by (auto simp: wants_more_def)
  let ?a = "a\<lparr>a_state := http_parse_wait_fix_body, a_full := sz_add (a_cur a) (a_body_length a)\<rparr>"
  have a1: "a1 = ?a"
  proof (cases "sz_add (a_cur a) (a_body_length a) > length (a_text a)")
    case True
    then show ?thesis using h
      by (subst (asm) spec_exec_unfold) (simp add: spec_block_def spec_wait_fix_body_def)
  next
    case False
    with h nz show ?thesis
      by (subst (asm) spec_exec_unfold)
        (auto simp: spec_block_def spec_wait_fix_body_def Let_def bnd_eq_Inr_iff dest: exec_tail_success)
  qed
  have b: "spec_wait_fix_body nd (more ?a ys) = spec_wait_fix_body nd (more a ys)"
    by (simp add: spec_wait_fix_body_def Let_def)
  show "spec_exec nd (state_label (a_state a1)) (more a1 ys) = spec_exec nd L_fix_body (more a ys)"
    using b by (subst (1 2) spec_exec_unfold) (simp add: a1 spec_block_def)
qed

lemma header_loop_both:
  assumes l: "spec_header_loop 100 1 a = (e, c, a1)" and i: "spec_inv L_hdr a"
    and k: "count_list (a_text a @ ys) LF < 99"
  shows "if e = None
     then c \<noteq> 100 \<and> spec_header_loop 100 1 (more a ys) = (None, c, more a1 ys)
     else e = Some http_err_parse_cannot_find_clrf \<and>
       (\<exists>e' c' c'' a2. spec_header_loop 100 1 (more a ys) = (e', c', a2) \<and>
          spec_header_loop 100 1 (more a1 ys) = (e', c'', a2) \<and> c' \<noteq> 100 \<and> c'' \<noteq> 100)"
proof -
  have kk: "count_list (drop n (a_text a)) LF < 99" "count_list (drop n (a_text a @ ys)) LF < 99" for n
    using k count_list_drop_le [of n "a_text a" LF] count_list_drop_le [of n "a_text a @ ys" LF] by simp_all
  have c100: "count_list (drop (a_next a) (a_text a)) LF < 100" using kk(1) [of "a_next a"] by simp
  from header_loop_count [OF c100 i c100, of 1 1] l
  have c: "e = None \<longrightarrow> c \<noteq> 100" using kk(1) [of "a_next a"] by auto
  note m = header_loop_more [OF l i, of ys]
  show ?thesis
  proof (cases "e = None")
    case True
    with m c show ?thesis by simp
  next
    case False
    with m have e: "e = Some http_err_parse_cannot_find_clrf" "1 \<le> c" "c < 101"
        "spec_header_loop 100 1 (more a ys) = spec_header_loop (101 - c) c (more a1 ys)" by simp_all
    from spec_header_loop_inv [OF i l] have i1: "spec_inv L_hdr a1" "a_text a1 = a_text a" by simp_all
    have i2: "spec_inv L_hdr (more a1 ys)" using i1(1) by (simp add: spec_inv_def)
    have im: "spec_inv L_hdr (more a ys)" using i by (simp add: spec_inv_def)
    let ?k = "count_list (drop (a_next a1) (a_text a @ ys)) LF"
    have k1: "?k < 100" using kk(2) [of "a_next a1"] by simp
    text \<open>the lines read so far leave fewer line feeds than rounds\<close>
    from header_loop_count [of "more a ys" 100 100 1 1] im kk(2) [of "a_next a"]
    obtain e' d a2 where h: "spec_header_loop 100 1 (more a ys) = (e', 1 + d, a2)"
      "d \<le> count_list (drop (a_next a) (a_text a @ ys)) LF" by fastforce
    from header_loop_count [of "more a1 ys" 100 100 1 1] i2 k1 i1(2)
    obtain e2 d2 b2 where h2: "spec_header_loop 100 1 (more a1 ys) = (e2, 1 + d2, b2)"
      "d2 \<le> ?k" by fastforce
    have big: "?k < 101 - c"
      using header_loop_consumes [OF l i, of ys] e(2,3) kk(2) [of "a_next a"] unfolding i1(2) by linarith
    from header_loop_count [of "more a1 ys" "101 - c" 100 c 1] big k1 i2 i1(2)
    obtain e3 d3 b3 where h3: "spec_header_loop (101 - c) c (more a1 ys) = (e3, c + d3, b3)"
      "spec_header_loop 100 1 (more a1 ys) = (e3, 1 + d3, b3)" by auto
    have "e' = e3" "1 + d = c + d3" "a2 = b3" using e(4) h(1) h3(1) by simp_all
    moreover have "1 + d \<noteq> 100" "1 + d3 \<noteq> 100"
      using h(2) kk(2) [of "a_next a"] h2 h3(2) kk(2) [of "a_next a1"] by auto
    ultimately show ?thesis using e(1) h(1) h3(2) by auto
  qed
qed

lemma spec_wait_hdr_state: "spec_wait_hdr (a\<lparr>a_state := s\<rparr>) = spec_wait_hdr a"
  by (simp add: spec_wait_hdr_def)

lemma resumes_hdr:
  assumes i: "spec_inv L_hdr a" and k: "count_list (a_text a @ ys) LF < 99"
  shows "resumes nd L_hdr a ys"
  unfolding resumes_def
proof (intro allI impI)
  fix herr b
  assume h: "spec_exec nd L_hdr a = Inr (herr, b) \<and> wants_more herr"
  let ?a = "a\<lparr>a_state := http_parse_wait_hdr\<rparr>"
  have i': "spec_inv L_hdr ?a" using i by (simp add: spec_inv_def)
  have k': "count_list (a_text ?a @ ys) LF < 99" using k by simp
  obtain e c a1 where l: "spec_header_loop 100 1 ?a = (e, c, a1)" by (cases "spec_header_loop 100 1 ?a") auto
  note both = header_loop_both [OF l i' k']
  from spec_header_loop_inv [OF i' l] have s1: "a_state a1 = http_parse_wait_hdr" "a_text a1 = a_text a" by simp_all
  have x: "spec_exec nd L_hdr z = bnd (spec_block nd L_hdr z) (\<lambda>(j, z).
      case j of Return herr \<Rightarrow> Inr (herr, z) | Goto l' \<Rightarrow> spec_exec nd l' z)" for z
    by (subst spec_exec_unfold) simp
  have ma: "(more a ys)\<lparr>a_state := http_parse_wait_hdr\<rparr> = more ?a ys" by simp
  show "spec_exec nd (state_label (a_state b)) (more b ys) = spec_exec nd L_hdr (more a ys)"
  proof (cases e)
    case (Some er)
    then have b: "b = a1" using h l by (simp add: x spec_block_def spec_wait_hdr_def)
    from both Some obtain e' c' c'' a2 where g: "spec_header_loop 100 1 (more ?a ys) = (e', c', a2)"
      "spec_header_loop 100 1 (more a1 ys) = (e', c'', a2)" "c' \<noteq> 100" "c'' \<noteq> 100" by auto
    have "(more a1 ys)\<lparr>a_state := http_parse_wait_hdr\<rparr> = more a1 ys" using s1 by simp
    then have "spec_wait_hdr (more a1 ys) = spec_wait_hdr (more a ys)"
      using g unfolding spec_wait_hdr_def Let_def ma by (cases e') simp_all
    then show ?thesis by (simp add: b s1 x spec_block_def)
  next
    case None
    with both have g: "c \<noteq> 100" "spec_header_loop 100 1 (more ?a ys) = (None, c, more a1 ys)" by simp_all
    let ?go = "\<lambda>z::actx. case a_body_type z of
        http_transfer_body_unset \<Rightarrow> (Goto L_end, z\<lparr>a_full := a_next z\<rparr>)
      | http_transfer_body_fixed \<Rightarrow> (Goto L_fix_body, z)
      | http_transfer_body_chunked \<Rightarrow> (Goto L_clen, z)"
    have w1: "spec_wait_hdr a = ?go a1" using l None g(1) by (simp add: spec_wait_hdr_def)
    have w2: "spec_wait_hdr (more a ys) = ?go (more a1 ys)"
      using g unfolding spec_wait_hdr_def Let_def ma by simp
    show ?thesis
    proof (cases "a_body_type a1 = http_transfer_body_fixed")
      case True
      then have "spec_exec nd L_fix_body a1 = Inr (herr, b)" using h w1 by (simp add: x spec_block_def)
      with h resumes_fix_body [of nd a1 ys]
      have "spec_exec nd (state_label (a_state b)) (more b ys) = spec_exec nd L_fix_body (more a1 ys)"
        by (simp add: resumes_def)
      then show ?thesis using True w2 by (simp add: x spec_block_def)
    next
      case False
      then have "herr = http_success"
        using h w1 by (auto simp: x spec_block_def dest: exec_tail_success split: http_transfer_body_type.splits)
      with h show ?thesis by (auto simp: wants_more_def)
    qed
  qed
qed

lemma resumes_req:
  assumes i: "spec_inv L_req a" and k: "count_list (a_text a @ ys) LF < 99"
  shows "resumes nd L_req a ys"
  unfolding resumes_def
proof (intro allI impI)
  fix herr b
  assume h: "spec_exec nd L_req a = Inr (herr, b) \<and> wants_more herr"
  let ?a = "a\<lparr>a_state := http_parse_wait_req\<rparr>"
  have x: "spec_exec nd L_req z = (case spec_wait_req z of (j, z) \<Rightarrow>
      case j of Return herr \<Rightarrow> Inr (herr, z) | Goto l' \<Rightarrow> spec_exec nd l' z)" for z
    by (subst spec_exec_unfold) (simp add: spec_block_def)
  have i': "spec_inv L_req ?a" using i by (simp add: spec_inv_def)
  have nx: "a_next ?a \<le> length (a_text ?a)" using i by (simp add: spec_inv_def)
  have ma: "(more a ys)\<lparr>a_state := http_parse_wait_req\<rparr> = more ?a ys" by simp
  show "spec_exec nd (state_label (a_state b)) (more b ys) = spec_exec nd L_req (more a ys)"
  proof (cases "spec_line ?a")
    case None
    then have b: "b = ?a" using h by (simp add: x spec_wait_req_def)
    have "spec_wait_req (more ?a ys) = spec_wait_req (more a ys)"
      unfolding ma [symmetric] by (simp add: spec_wait_req_def)
    then show ?thesis by (simp add: b x)
  next
    case (Some p)
    obtain line a1 where p: "spec_line ?a = Some (line, a1)" using Some by (cases p) auto
    let ?b = "spec_request_line line a1"
    have i1: "spec_inv L_hdr a1" using p i' by (rule spec_line_inv) simp
    have t1: "a_text a1 = a_text a" using p by (auto simp: spec_line_def split: option.splits)
    have "spec_exec nd L_hdr ?b = Inr (herr, b)" using h p by (simp add: x spec_wait_req_def)
    moreover have "resumes nd L_hdr ?b ys"
      using i1 k t1 by (intro resumes_hdr) (simp_all add: spec_inv_def)
    ultimately have "spec_exec nd (state_label (a_state b)) (more b ys) = spec_exec nd L_hdr (more ?b ys)"
      using h by (simp add: resumes_def)
    moreover have "spec_wait_req (more a ys) = (Goto L_hdr, more ?b ys)"
      using spec_line_more [OF p nx, of ys] unfolding spec_wait_req_def Let_def ma
      by (simp add: spec_request_line_text)
    ultimately show ?thesis by (simp add: x)
  qed
qed

lemma spec_feed_resumes:
  assumes "spec_feed nd xs a = Inr (herr, a1)" and "wants_more herr" and "ctx_inv a"
    and "count_list (a_text a @ xs @ ys) LF < 99"
  shows "spec_feed nd ys a1 = spec_feed nd (xs @ ys) a"
proof -
  let ?l = "state_label (a_state a)"
  have i: "spec_inv ?l (more a xs)" using assms(3) by (auto simp: ctx_inv_def spec_inv_def)
  have "resumes nd ?l (more a xs) ys"
  proof (cases ?l)
    case L_req
    then show ?thesis using i assms(4) resumes_req [of "more a xs" ys nd] by simp
  next
    case L_hdr
    then show ?thesis using i assms(4) resumes_hdr [of "more a xs" ys nd] by simp
  qed (simp_all add: resumes_fix_body resumes_tail)
  with assms(1,2) have "spec_exec nd (state_label (a_state a1)) (more a1 ys) = spec_exec nd ?l (more (more a xs) ys)"
    by (simp add: resumes_def spec_feed_exec)
  then show ?thesis by (simp add: spec_feed_exec)
qed

text \<open>
  A series of packets, fed until one of them completes the request or fails; what is left over
  is a part of the result.
\<close>

fun feed_all ::
  "(char list \<Rightarrow> 's \<Rightarrow> (http_err_t \<times> 's) res) \<Rightarrow> char list list \<Rightarrow> 's \<Rightarrow>
     (http_err_t \<times> 's \<times> char list list) res" where
  "feed_all feed [] s = Inr (http_err_parse_cannot_find_clrf, s, [])"
| "feed_all feed (p # ps) s =
     bnd (feed p s) (\<lambda>(herr, s).
     if wants_more herr \<and> ps \<noteq> [] then feed_all feed ps s else Inr (herr, s, ps))"

lemma feed_all_concat:
  assumes "feed_all (spec_feed nd) ps a = Inr (herr, a', [])" and "ps \<noteq> []" and "ctx_inv a"
    and "count_list (a_text a @ concat ps) LF < 99"
  shows "spec_feed nd (concat ps) a = Inr (herr, a')"
  using assms
proof (induction ps arbitrary: a)
  case (Cons p ps)
  from Cons.prems(1) obtain h1 a1 where f: "spec_feed nd p a = Inr (h1, a1)"
      "(if wants_more h1 \<and> ps \<noteq> [] then feed_all (spec_feed nd) ps a1 else Inr (h1, a1, ps)) = Inr (herr, a', [])"
    by (auto simp: bnd_eq_Inr_iff)
  show ?case
  proof (cases "ps = []")
    case True
    with f show ?thesis by simp
  next
    case False
    with f(2) have w: "wants_more h1" "feed_all (spec_feed nd) ps a1 = Inr (herr, a', [])"
      by (simp_all split: if_splits)
    note inv = spec_feed_inv [OF f(1) Cons.prems(3)]
    have "count_list (a_text a1 @ concat ps) LF < 99" using Cons.prems(4) inv(2) by simp
    from Cons.IH [OF w(2) False inv(1) this] have "spec_feed nd (concat ps) a1 = Inr (herr, a')" .
    moreover have "count_list (a_text a @ p @ concat ps) LF < 99" using Cons.prems(4) by simp
    ultimately show ?thesis using spec_feed_resumes [OF f(1) w(1) Cons.prems(3)] by simp
  qed
qed simp

section \<open>Implementing a parser of packets\<close>

text \<open>
  The contract between a parser that keeps its state in memory and its specification: the same
  results packet by packet, below a bound on the bytes of one request.
\<close>

locale packet_parser =
  fixes feed :: "char list \<Rightarrow> 's \<Rightarrow> (http_err_t \<times> 's) res"
    and spec :: "char list \<Rightarrow> 'a \<Rightarrow> (http_err_t \<times> 'a) res"
    and rel :: "'s \<Rightarrow> 'a \<Rightarrow> bool"
    and used :: "'a \<Rightarrow> nat"
    and room :: nat
  assumes feed_ok: "rel s a \<Longrightarrow> used a + length bs < room \<Longrightarrow> spec bs a = Inr (e, a') \<Longrightarrow>
      \<exists>s'. feed bs s = Inr (e, s') \<and> rel s' a' \<and> used a' = used a + length bs"
    and feed_fault: "rel s a \<Longrightarrow> used a + length bs < room \<Longrightarrow> spec bs a = Inl f \<Longrightarrow> feed bs s = Inl f"
begin

lemma feed_all_ok:
  assumes "rel s a" and "used a + length (concat ps) < room"
    and "feed_all spec ps a = Inr (e, a', rest)"
  shows "\<exists>s'. feed_all feed ps s = Inr (e, s', rest) \<and> rel s' a'"
  using assms
proof (induction ps arbitrary: s a)
  case (Cons p ps)
  from Cons.prems(3) obtain h1 a1 where f: "spec p a = Inr (h1, a1)"
      "(if wants_more h1 \<and> ps \<noteq> [] then feed_all spec ps a1 else Inr (h1, a1, ps)) = Inr (e, a', rest)"
    by (auto simp: bnd_eq_Inr_iff)
  have "used a + length p < room" using Cons.prems(2) by simp
  from feed_ok [OF Cons.prems(1) this f(1)] obtain s1 where
    s1: "feed p s = Inr (h1, s1)" "rel s1 a1" "used a1 = used a + length p" by blast
  show ?case
  proof (cases "wants_more h1 \<and> ps \<noteq> []")
    case True
    with f(2) have "feed_all spec ps a1 = Inr (e, a', rest)" by simp
    moreover have "used a1 + length (concat ps) < room" using Cons.prems(2) s1(3) by simp
    ultimately obtain s' where "feed_all feed ps s1 = Inr (e, s', rest)" "rel s' a'"
      using Cons.IH s1(2) by blast
    with True s1(1) show ?thesis by auto
  next
    case False
    with f(2) s1 show ?thesis by auto
  qed
qed auto

lemma feed_all_fault:
  assumes "rel s a" and "used a + length (concat ps) < room" and "feed_all spec ps a = Inl f"
  shows "feed_all feed ps s = Inl f"
  using assms
proof (induction ps arbitrary: s a)
  case (Cons p ps)
  have le: "used a + length p < room" using Cons.prems(2) by simp
  show ?case
  proof (cases "spec p a")
    case (Inl g)
    with Cons.prems(3) feed_fault [OF Cons.prems(1) le Inl] show ?thesis by simp
  next
    case (Inr r)
    obtain h1 a1 where r: "spec p a = Inr (h1, a1)" using Inr by (cases r) auto
    from feed_ok [OF Cons.prems(1) le r] obtain s1 where
      s1: "feed p s = Inr (h1, s1)" "rel s1 a1" "used a1 = used a + length p" by blast
    from Cons.prems(3) r have m: "wants_more h1 \<and> ps \<noteq> []" "feed_all spec ps a1 = Inl f"
      by (simp_all split: if_splits)
    have "used a1 + length (concat ps) < room" using Cons.prems(2) s1(3) by simp
    from Cons.IH [OF s1(2) this m(2)] m(1) s1(1) show ?thesis by simp
  qed
qed simp

end

text \<open>The model of the source implements it, for packets anywhere in read-only memory.\<close>

definition packet_of :: "char list \<Rightarrow> string_view_t" where
  "packet_of bs = \<lparr>sv_data = lit bs, sv_len = length bs\<rparr>"

definition feed_packet :: "nat \<Rightarrow> char list \<Rightarrow> pstate \<Rightarrow> (http_err_t \<times> pstate) res" where
  "feed_packet nid bs st =
     bnd (http_parse_feed (Some nid) (packet_of bs) st) (\<lambda>(herr, tail, st). Inr (herr, st))"

definition parser_rel :: "nat \<Rightarrow> bool \<Rightarrow> pstate \<Rightarrow> actx \<Rightarrow> bool" where
  "parser_rel nid nd st a \<longleftrightarrow>
     (\<exists>ctx req. ps_nodes st nid = Some ctx \<and> ctx_rep (ps_mem st) ctx req a) \<and> ctx_inv a \<and>
     always_avail (ps_mem st) \<and> ndebug (ps_mem st) = nd"

lemma feed_packet_refines:
  assumes "parser_rel nid nd st a" and len: "length (a_text a) + length bs < MAX_LEN"
  shows "case spec_feed nd bs a of
      Inl e \<Rightarrow> feed_packet nid bs st = Inl e
    | Inr (herr, a') \<Rightarrow> \<exists>st'. feed_packet nid bs st = Inr (herr, st') \<and> parser_rel nid nd st' a'"
proof -
  obtain ctx req where r: "ps_nodes st nid = Some ctx" "ctx_rep (ps_mem st) ctx req a" "ctx_inv a"
      "always_avail (ps_mem st)" "ndebug (ps_mem st) = nd"
    using assms(1) by (auto simp: parser_rel_def)
  have v: "view_bytes (ps_mem st) (packet_of bs) = Inr bs" by (simp add: packet_of_def)
  have ap: "view_apart (packet_of bs) (post ctx)"
    using r(2) by (auto simp: packet_of_def ctx_rep_def)
  note f = http_parse_feed_refines [OF r(2,1,3,4) v ap len]
  show ?thesis
  proof (cases "spec_feed nd bs a")
    case (Inl e)
    with f r(5) show ?thesis by (simp add: feed_packet_def)
  next
    case (Inr x)
    obtain herr a' where x: "spec_feed nd bs a = Inr (herr, a')" using Inr by (cases x) auto
    with f r(5) obtain ctx' req' m' where g: "http_parse_feed (Some nid) (packet_of bs) st =
        Inr (herr, Some nid, st\<lparr>ps_mem := m', ps_nodes := (ps_nodes st)(nid := Some ctx')\<rparr>)"
      "run_rep (Heap (brk (ps_mem st))) (length (a_headers a)) m' ctx' req' a'"
      "frame (feed_frame ctx req) (ps_mem st) m'" by auto
    let ?st = "st\<lparr>ps_mem := m', ps_nodes := (ps_nodes st)(nid := Some ctx')\<rparr>"
    have "parser_rel nid nd ?st a'"
      using g(2,3) r(4,5) spec_feed_inv(1) [OF x r(3)] frame_env(3) [OF g(3)]
      by (auto simp: parser_rel_def run_rep_def intro: always_avail_frame)
    with x g(1) show ?thesis by (auto simp: feed_packet_def)
  qed
qed

interpretation pp: packet_parser "feed_packet nid" "spec_feed nd" "parser_rel nid nd" "\<lambda>a. length (a_text a)" MAX_LEN
  for nid nd
proof
  fix s a bs e a'
  assume r: "parser_rel nid nd s a" and l: "length (a_text a) + length bs < MAX_LEN"
    and f: "spec_feed nd bs a = Inr (e, a')"
  have "ctx_inv a" using r by (simp add: parser_rel_def)
  from feed_packet_refines [OF r l] f spec_feed_inv(2) [OF f this]
  show "\<exists>s'. feed_packet nid bs s = Inr (e, s') \<and> parser_rel nid nd s' a' \<and>
      length (a_text a') = length (a_text a) + length bs" by auto
next
  fix s a bs f
  assume "parser_rel nid nd s a" and "length (a_text a) + length bs < MAX_LEN" and "spec_feed nd bs a = Inl f"
  with feed_packet_refines [of nid nd s a bs] show "feed_packet nid bs s = Inl f" by simp
qed

end
