(* ===== verification/HttpParseText.thy ===== *)
theory HttpParseText
  imports HttpParseSeg
begin

text \<open>
  Parsing what a client writes: the text of a request, and the outcome of parsing its header
  part followed by any bytes.
\<close>

section \<open>The text of a request\<close>

type_synonym header_text = "char list \<times> char list"

definition header_line_text :: "header_text \<Rightarrow> char list" where
  "header_line_text h = fst h @ '': '' @ snd h"

definition head_text ::
  "char list \<Rightarrow> char list \<Rightarrow> char list \<Rightarrow> header_text list \<Rightarrow> char list" where
  "head_text meth path ver hs =
     meth @ [SP] @ path @ [SP] @ ver @ CRLF @
     concat (map (\<lambda>h. header_line_text h @ CRLF) hs) @ CRLF"

text \<open>Separators stay out of the parts they separate.\<close>

definition wf_head ::
  "char list \<Rightarrow> char list \<Rightarrow> char list \<Rightarrow> header_text list \<Rightarrow> bool" where
  "wf_head meth path ver hs \<longleftrightarrow>
     SP \<notin> set meth \<and> CR \<notin> set meth \<and> SP \<notin> set path \<and> CR \<notin> set path \<and> CR \<notin> set ver \<and>
     (\<forall>(k, v) \<in> set hs. CHR '':'' \<notin> set k \<and> CR \<notin> set k \<and> CR \<notin> set v)"

text \<open>The header a line stands for.\<close>

definition header_of :: "header_text \<Rightarrow> aheader" where
  "header_of h =
     (let f = field_of (fst h); (ok, u) = value_spec f (snd h) 0 in
      \<lparr>ah_field = (if ok then f else http_hdr_unkown),
       ah_name = (if f = http_hdr_unkown \<or> \<not> ok then fst h else []),
       ah_value = snd h, ah_parsed = (ok \<and> typed_field f), ah_bits = u\<rparr>)"

text \<open>The body the headers announce: the last word counts.\<close>

definition body_step :: "aheader \<Rightarrow> http_transfer_body_type \<times> nat \<Rightarrow> http_transfer_body_type \<times> nat" where
  "body_step h p =
     (case ah_field h of
        http_hdr_content_length \<Rightarrow>
          if ah_parsed h then (http_transfer_body_fixed, nat (sint (ah_bits h) mod int SIZE_MOD)) else p
      | http_hdr_transfer_encoding \<Rightarrow>
          if ah_parsed h \<and> low32 (ah_bits h) = 1 then (http_transfer_body_chunked, snd p) else p
      | _ \<Rightarrow> p)"

definition announced_body :: "header_text list \<Rightarrow> http_transfer_body_type \<times> nat" where
  "announced_body hs = foldl (\<lambda>p h. body_step (header_of h) p) (http_transfer_body_unset, 0) hs"

section \<open>Reading the lines back\<close>

lemma index_of_append: "c \<notin> set xs \<Longrightarrow> index_of c (xs @ c # ys) = Some (length xs)"
  by (induction xs) auto

lemma split_at_append: "c \<notin> set xs \<Longrightarrow> split_at c (xs @ c # ys) = Some (xs, ys)"
  by (simp add: split_at_def index_of_append)

lemma find_crlf_line: "CR \<notin> set l \<Longrightarrow> find_crlf (l @ CR # LF # r) = Some (length l)"
proof (induction l)
  case (Cons c l)
  then show ?case by (cases l) auto
qed simp

lemma spec_line_at:
  assumes "a_text a = pre @ l @ CRLF @ rest" and "a_next a = length pre" and "CR \<notin> set l"
  shows "spec_line a = Some (l, a\<lparr>a_cur := length pre, a_next := length pre + length l + 2\<rparr>)"
  using assms find_crlf_line [OF assms(3), of rest] by (simp add: spec_line_def)

lemma spec_header_of:
  assumes "CHR '':'' \<notin> set (fst h)"
  shows "spec_header (header_line_text h) = Some (header_of h)"
proof -
  have "split_at (CHR '':'') (header_line_text h) = Some (fst h, SP # snd h)"
    using split_at_append [OF assms, of "SP # snd h"] by (simp add: header_line_text_def)
  then show ?thesis by (simp add: spec_header_def header_of_def drop_space_def Let_def split: prod.split)
qed

definition add_header :: "actx \<Rightarrow> header_text \<Rightarrow> actx" where
  "add_header a h = spec_body_type (header_of h) (a\<lparr>a_headers := a_headers a @ [header_of h]\<rparr>)"

lemma spec_body_type_line:
  "spec_body_type h (a\<lparr>a_cur := c, a_next := n\<rparr>) = (spec_body_type h a)\<lparr>a_cur := c, a_next := n\<rparr>"
  by (simp add: spec_body_type_def split: http_header_field_t.split)

lemma add_header_line:
  "add_header (a\<lparr>a_cur := c, a_next := n\<rparr>) h = (add_header a h)\<lparr>a_cur := c, a_next := n\<rparr>"
proof -
  have e: "(a\<lparr>a_cur := c, a_next := n\<rparr>)\<lparr>a_headers := a_headers (a\<lparr>a_cur := c, a_next := n\<rparr>) @ [header_of h]\<rparr> =
      (a\<lparr>a_headers := a_headers a @ [header_of h]\<rparr>)\<lparr>a_cur := c, a_next := n\<rparr>" by simp
  show ?thesis unfolding add_header_def e by (rule spec_body_type_line)
qed

lemma add_headers_line:
  "foldl add_header (a\<lparr>a_cur := c, a_next := n\<rparr>) hs = (foldl add_header a hs)\<lparr>a_cur := c, a_next := n\<rparr>"
  by (induction hs arbitrary: a) (simp_all only: foldl.simps add_header_line)

lemma add_header_fixes [simp]:
  "a_text (add_header a h) = a_text a" "a_state (add_header a h) = a_state a"
  "a_path (add_header a h) = a_path a" "a_method (add_header a h) = a_method a"
  "a_version (add_header a h) = a_version a" "a_body (add_header a h) = a_body a"
  "a_headers (add_header a h) = a_headers a @ [header_of h]" "a_full (add_header a h) = a_full a"
  "a_next (add_header a h) = a_next a" "a_cur (add_header a h) = a_cur a"
  by (simp_all add: add_header_def)

lemma add_headers_fixes [simp]:
  "a_text (foldl add_header a hs) = a_text a" "a_state (foldl add_header a hs) = a_state a"
  "a_path (foldl add_header a hs) = a_path a" "a_method (foldl add_header a hs) = a_method a"
  "a_version (foldl add_header a hs) = a_version a" "a_body (foldl add_header a hs) = a_body a"
  "a_headers (foldl add_header a hs) = a_headers a @ map header_of hs"
  "a_full (foldl add_header a hs) = a_full a"
  by (induction hs arbitrary: a) simp_all

lemma add_header_body:
  "(a_body_type (add_header a h), a_body_length (add_header a h)) =
     body_step (header_of h) (a_body_type a, a_body_length a)"
  by (simp add: add_header_def spec_body_type_def body_step_def split: http_header_field_t.split)

lemma add_headers_body:
  "(a_body_type (foldl add_header a hs), a_body_length (foldl add_header a hs)) =
     foldl (\<lambda>p h. body_step (header_of h) p) (a_body_type a, a_body_length a) hs"
  by (induction hs arbitrary: a) (simp_all add: add_header_body)

text \<open>The header loop reads the header part.\<close>

lemma header_loop_text:
  assumes "a_text a = pre @ concat (map (\<lambda>h. header_line_text h @ CRLF) hs) @ CRLF @ rest"
    and "a_next a = length pre" and "length hs < n"
    and "\<forall>(k, v) \<in> set hs. CHR '':'' \<notin> set k \<and> CR \<notin> set k \<and> CR \<notin> set v"
  shows "spec_header_loop n cnt a = (None, cnt + length hs,
     (foldl add_header a hs)\<lparr>a_cur := length (a_text a) - length rest,
                             a_next := length (a_text a) - length rest\<rparr>)"
  using assms
proof (induction hs arbitrary: a pre n cnt)
  case Nil
  then obtain k where "n = Suc k" by (cases n) auto
  moreover have "spec_line a = Some ([], a\<lparr>a_cur := length pre, a_next := length pre + length ([]::char list) + 2\<rparr>)"
    using Nil by (intro spec_line_at [where rest = rest]) auto
  ultimately show ?case using Nil by simp
next
  case (Cons h hs)
  then obtain k where k: "n = Suc k" "length hs < k" by (cases n) auto
  let ?l = "header_line_text h"
  let ?r = "concat (map (\<lambda>h. header_line_text h @ CRLF) hs) @ CRLF @ rest"
  have h: "CHR '':'' \<notin> set (fst h)" "CR \<notin> set ?l"
    using Cons.prems(4) by (auto simp: header_line_text_def split_beta)
  have sl: "spec_line a = Some (?l, a\<lparr>a_cur := length pre, a_next := length pre + length ?l + 2\<rparr>)"
    using Cons.prems(1,2) h(2) by (intro spec_line_at [where rest = ?r]) auto
  have ne: "?l \<noteq> []" by (simp add: header_line_text_def)
  let ?b = "add_header a h" and ?c = "length pre" and ?n = "length (pre @ ?l @ CRLF)"
  have b: "spec_header_line ?l (a\<lparr>a_cur := ?c, a_next := ?n\<rparr>) = ?b\<lparr>a_cur := ?c, a_next := ?n\<rparr>"
    unfolding add_header_line [symmetric] by (simp add: spec_header_line_def spec_header_of [OF h(1)] add_header_def)
  have "spec_header_loop k (Suc cnt) (?b\<lparr>a_cur := ?c, a_next := ?n\<rparr>) =
      (None, Suc cnt + length hs,
       (foldl add_header (?b\<lparr>a_cur := ?c, a_next := ?n\<rparr>) hs)
         \<lparr>a_cur := length (a_text (?b\<lparr>a_cur := ?c, a_next := ?n\<rparr>)) - length rest,
          a_next := length (a_text (?b\<lparr>a_cur := ?c, a_next := ?n\<rparr>)) - length rest\<rparr>)"
    using Cons.prems k(2) by (intro Cons.IH [of _ "pre @ ?l @ CRLF"]) auto
  then have "spec_header_loop k (Suc cnt) (spec_header_line ?l (a\<lparr>a_cur := ?c, a_next := ?n\<rparr>)) =
      (None, Suc cnt + length hs,
       (foldl add_header ?b hs)\<lparr>a_cur := length (a_text a) - length rest, a_next := length (a_text a) - length rest\<rparr>)"
    unfolding b add_headers_line by simp
  with sl ne k(1) show ?case by simp
qed

section \<open>The outcome of a parse\<close>

text \<open>The context after the header part.\<close>

definition head_ctx ::
  "char list \<Rightarrow> char list \<Rightarrow> char list \<Rightarrow> header_text list \<Rightarrow> char list \<Rightarrow> actx" where
  "head_ctx meth path ver hs rest =
     (let n = length (head_text meth path ver hs) in
      \<lparr>a_state = http_parse_wait_hdr, a_text = head_text meth path ver hs @ rest, a_full = 0,
       a_cur = n, a_next = n, a_body_type = fst (announced_body hs),
       a_body_length = snd (announced_body hs), a_method = method_of meth, a_path = path,
       a_version = version_of ver, a_headers = map header_of hs, a_body = []\<rparr>)"

lemma actx_eqI:
  "a_state a = a_state b \<Longrightarrow> a_text a = a_text b \<Longrightarrow> a_full a = a_full b \<Longrightarrow> a_cur a = a_cur b \<Longrightarrow>
   a_next a = a_next b \<Longrightarrow> a_body_type a = a_body_type b \<Longrightarrow> a_body_length a = a_body_length b \<Longrightarrow>
   a_method a = a_method b \<Longrightarrow> a_path a = a_path b \<Longrightarrow> a_version a = a_version b \<Longrightarrow>
   a_headers a = a_headers b \<Longrightarrow> a_body a = a_body b \<Longrightarrow> a = (b::actx)"
  by (rule actx.equality) simp_all

lemma spec_feed_head:
  assumes w: "wf_head meth path ver hs" and n: "length hs < 100"
  shows "spec_feed nd (head_text meth path ver hs @ rest) actx0 =
     (let a = head_ctx meth path ver hs rest in
      if length hs = 99 then Inr (http_err_request_fatal, a)
      else case a_body_type a of
        http_transfer_body_unset \<Rightarrow> spec_exec nd L_end (a\<lparr>a_full := a_next a\<rparr>)
      | http_transfer_body_fixed \<Rightarrow> spec_exec nd L_fix_body a
      | http_transfer_body_chunked \<Rightarrow> spec_exec nd L_clen a)"
proof -
  let ?t = "head_text meth path ver hs @ rest" and ?line = "meth @ [SP] @ path @ [SP] @ ver"
  let ?hl = "concat (map (\<lambda>h. header_line_text h @ CRLF) hs)"
  let ?a = "actx0\<lparr>a_text := ?t, a_state := http_parse_wait_req\<rparr>"
  let ?k = "length ?line + 2"
  have m: "more actx0 ?t = actx0\<lparr>a_text := ?t\<rparr>" by (simp add: actx0_def)
  have sl: "spec_line ?a = Some (?line, ?a\<lparr>a_cur := 0, a_next := ?k\<rparr>)"
    using w spec_line_at [of ?a "[]" ?line "?hl @ CRLF @ rest"]
    by (auto simp: actx0_def head_text_def wf_head_def)
  let ?b = "?a\<lparr>a_cur := 0, a_next := ?k, a_method := method_of meth, a_path := path, a_version := version_of ver\<rparr>"
  have sp: "split_at SP ?line = Some (meth, path @ [SP] @ ver)" "split_at SP (path @ [SP] @ ver) = Some (path, ver)"
    using w split_at_append [of SP meth "path @ [SP] @ ver"] split_at_append [of SP path ver]
    by (simp_all add: wf_head_def)
  then have rl: "spec_request_line ?line (?a\<lparr>a_cur := 0, a_next := ?k\<rparr>) = ?b"
    by (simp add: spec_request_line_def)
  have wr: "spec_wait_req (actx0\<lparr>a_text := ?t\<rparr>) = (Goto L_hdr, ?b)"
    using sl rl by (simp add: spec_wait_req_def)
  let ?c = "?b\<lparr>a_state := http_parse_wait_hdr\<rparr>"
  let ?N = "length (a_text ?c) - length rest"
  have tx: "a_text ?c = (?line @ CRLF) @ ?hl @ CRLF @ rest" by (simp add: head_text_def)
  have hd: "\<forall>(k, v) \<in> set hs. CHR '':'' \<notin> set k \<and> CR \<notin> set k \<and> CR \<notin> set v"
    using w by (auto simp: wf_head_def)
  have hl: "spec_header_loop 100 1 ?c = (None, 1 + length hs, (foldl add_header ?c hs)\<lparr>a_cur := ?N, a_next := ?N\<rparr>)"
    using tx _ n hd by (rule header_loop_text) simp
  have A: "(foldl add_header ?c hs)\<lparr>a_cur := ?N, a_next := ?N\<rparr> = head_ctx meth path ver hs rest"
    using add_headers_body [of ?c hs]
    by (intro actx_eqI) (simp_all add: head_ctx_def actx0_def announced_body_def prod_eq_iff Let_def)
  have wh: "spec_wait_hdr ?b =
      (let a = head_ctx meth path ver hs rest in
       if length hs = 99 then (Return http_err_request_fatal, a)
       else case a_body_type a of
         http_transfer_body_unset \<Rightarrow> (Goto L_end, a\<lparr>a_full := a_next a\<rparr>)
       | http_transfer_body_fixed \<Rightarrow> (Goto L_fix_body, a)
       | http_transfer_body_chunked \<Rightarrow> (Goto L_clen, a))"
    using hl unfolding A by (simp add: spec_wait_hdr_def Let_def)
  have s0: "state_label (a_state actx0) = L_req" by (simp add: actx0_def)
  have x1: "spec_exec nd L_req z = (case spec_wait_req z of (j, z) \<Rightarrow>
      case j of Return herr \<Rightarrow> Inr (herr, z) | Goto l' \<Rightarrow> spec_exec nd l' z)" for z
    by (subst spec_exec_unfold) (simp add: spec_block_def)
  have x2: "spec_exec nd L_hdr z = (case spec_wait_hdr z of (j, z) \<Rightarrow>
      case j of Return herr \<Rightarrow> Inr (herr, z) | Goto l' \<Rightarrow> spec_exec nd l' z)" for z
    by (subst spec_exec_unfold) (simp add: spec_block_def)
  have "spec_feed nd ?t actx0 = spec_exec nd L_hdr ?b"
    unfolding spec_feed_exec s0 m x1 wr by simp
  then show ?thesis
    unfolding x2 wh by (simp add: Let_def split: http_transfer_body_type.split)
qed

text \<open>Behind the header part, with assertions: what the bytes behind it lead to.\<close>

datatype outcome = Complete "char list" | Want_more | Aborts | Rejected

fun outcome_of :: "http_transfer_body_type \<times> nat \<Rightarrow> nat \<Rightarrow> char list \<Rightarrow> outcome" where
  "outcome_of (http_transfer_body_unset, k) n rest = (if rest = [] then Complete [] else Aborts)"
| "outcome_of (http_transfer_body_chunked, k) n rest = Aborts"
| "outcome_of (http_transfer_body_fixed, k) n rest =
     (if SIZE_MOD \<le> n + k then Aborts
      else if length rest < k then Want_more
      else if rest = take k rest then Complete rest else Aborts)"

definition has_outcome :: "outcome \<Rightarrow> actx \<Rightarrow> (http_err_t \<times> actx) res \<Rightarrow> bool" where
  "has_outcome oc a r \<longleftrightarrow>
     (case oc of
        Complete body \<Rightarrow> \<exists>a'. r = Inr (http_success, a') \<and> a_state a' = http_parse_end \<and>
          a_method a' = a_method a \<and> a_path a' = a_path a \<and> a_version a' = a_version a \<and>
          a_headers a' = a_headers a \<and> a_body a' = body
      | Want_more \<Rightarrow> \<exists>a'. r = Inr (http_err_request_tcp_segment_in_body, a') \<and>
          a_state a' = http_parse_wait_fix_body
      | Aborts \<Rightarrow> r = Inl Assert_failed
      | Rejected \<Rightarrow> \<exists>a'. r = Inr (http_err_request_fatal, a'))"

lemma announced_body_less: "snd (announced_body hs) < SIZE_MOD"
proof -
  have "snd p < SIZE_MOD \<Longrightarrow> snd (body_step h p) < SIZE_MOD" for h p
    by (simp add: body_step_def nat_less_iff split: http_header_field_t.split)
  then have "snd p < SIZE_MOD \<Longrightarrow> snd (foldl (\<lambda>p h. body_step (header_of h) p) p hs) < SIZE_MOD" for p
    by (induction hs arbitrary: p) simp_all
  then show ?thesis by (simp add: announced_body_def)
qed

lemma exec_end: "spec_exec nd L_end a =
    bnd (c_assert nd (a_full a = a_next a)) (\<lambda>_.
    bnd (c_assert nd (a_full a = length (a_text a))) (\<lambda>_.
    Inr (http_success, a\<lparr>a_state := http_parse_end\<rparr>)))"
  by (subst spec_exec_unfold) simp

lemma exec_clen: "spec_exec nd L_clen a = spec_exec nd L_end (a\<lparr>a_state := http_parse_wait_cval\<rparr>)"
proof -
  have v: "spec_exec nd L_cval b = spec_exec nd L_end (b\<lparr>a_state := http_parse_wait_cval\<rparr>)" for b
    by (subst spec_exec_unfold) (simp add: spec_block_def)
  show ?thesis by (subst spec_exec_unfold) (simp add: spec_block_def v)
qed

lemma exec_fix_body: "spec_exec nd L_fix_body a =
    bnd (spec_wait_fix_body nd a) (\<lambda>(j, a).
      case j of Return herr \<Rightarrow> Inr (herr, a) | Goto l' \<Rightarrow> spec_exec nd l' a)"
  by (subst spec_exec_unfold) (simp add: spec_block_def)

lemma spec_feed_outcome:
  assumes w: "wf_head meth path ver hs" and n: "length hs < 99"
    and len: "length (head_text meth path ver hs @ rest) < MAX_LEN"
  shows "has_outcome (outcome_of (announced_body hs) (length (head_text meth path ver hs)) rest)
     (head_ctx meth path ver hs rest) (spec_feed False (head_text meth path ver hs @ rest) actx0)"
proof -
  let ?n = "length (head_text meth path ver hs)" and ?a = "head_ctx meth path ver hs rest"
  have f: "a_text ?a = head_text meth path ver hs @ rest" "a_next ?a = ?n" "a_cur ?a = ?n" "a_full ?a = 0"
    "a_body ?a = []" "a_body_type ?a = fst (announced_body hs)" "a_body_length ?a = snd (announced_body hs)"
    by (simp_all add: head_ctx_def Let_def)
  have n0: "0 < ?n" by (simp add: head_text_def)
  note h = spec_feed_head [OF w, of False rest]
  obtain t k where ab: "announced_body hs = (t, k)" by force
  have k: "k < SIZE_MOD" using announced_body_less [of hs] ab by simp
  show ?thesis
  proof (cases t)
    case http_transfer_body_unset
    then show ?thesis using h n f n0 ab
      by (cases "rest = []") (simp_all add: has_outcome_def exec_end Let_def)
  next
    case http_transfer_body_chunked
    then show ?thesis using h n f n0 ab
      by (simp add: has_outcome_def exec_clen exec_end Let_def)
  next
    case http_transfer_body_fixed
    have e: "spec_feed False (head_text meth path ver hs @ rest) actx0 = spec_exec False L_fix_body ?a"
      using h n f ab http_transfer_body_fixed by (simp add: Let_def)
    show ?thesis
    proof (cases "SIZE_MOD \<le> ?n + k")
      case True
      then have "sz_add ?n k = ?n + k - SIZE_MOD" using len k by (simp add: sz_add_def mod_if)
      moreover have "?n + k - SIZE_MOD \<le> ?n + length rest" using k by simp
      moreover have "length rest < k" using True len by simp
      ultimately show ?thesis using True e f ab http_transfer_body_fixed
        by (simp add: has_outcome_def exec_fix_body spec_wait_fix_body_def Let_def)
    next
      case False
      then have s: "sz_add ?n k = ?n + k" by simp
      show ?thesis
      proof (cases "length rest < k")
        case True
        with False s e f ab http_transfer_body_fixed show ?thesis
          by (simp add: has_outcome_def exec_fix_body spec_wait_fix_body_def Let_def)
      next
        case ge: False
        show ?thesis
        proof (cases "length rest = k")
          case True
          with False s e f ab http_transfer_body_fixed show ?thesis
            by (simp add: has_outcome_def exec_fix_body spec_wait_fix_body_def exec_end Let_def)
        next
          case gt: False
          then have "rest \<noteq> take k rest" using ge by (metis length_take min.absorb2 not_less)
          with gt ge False s e f ab http_transfer_body_fixed show ?thesis
            by (simp add: has_outcome_def exec_fix_body spec_wait_fix_body_def exec_end Let_def)
        qed
      qed
    qed
  qed
qed

end
