(* ===== verification/HttpParseSplit.thy ===== *)
theory HttpParseSplit
  imports HttpParseSeg
begin

text \<open>
  Every way of cutting a request into packets is accepted: a feed that gets only a part of a
  request that would be accepted asks for more. Together with the resumption lemmas this
  turns the result for one packet into the result for any series of packets.
\<close>

text \<open>\<open>waits nd l a\<close>: from label \<open>l\<close> the run stops for want of bytes.\<close>

definition waits :: "bool \<Rightarrow> label \<Rightarrow> actx \<Rightarrow> bool" where
  "waits nd l a \<longleftrightarrow> (\<exists>herr a1. spec_exec nd l a = Inr (herr, a1) \<and> wants_more herr)"

definition accepts :: "label \<Rightarrow> actx \<Rightarrow> bool" where
  "accepts l a \<longleftrightarrow> (\<exists>a1. spec_exec False l a = Inr (http_success, a1))"

lemma waitsI: "spec_exec nd l a = Inr (herr, a1) \<Longrightarrow> wants_more herr \<Longrightarrow> waits nd l a"
  by (auto simp: waits_def)

text \<open>At the end of a request the text has to end as well.\<close>

lemma accepts_end: "accepts L_end a \<Longrightarrow> a_next a = length (a_text a)"
  unfolding accepts_def by (subst (asm) spec_exec_unfold) (auto simp: bnd_eq_Inr_iff c_assert_def split: if_splits)

lemma exec_state: "l \<in> {L_clen, L_cval} \<Longrightarrow> \<exists>s. spec_exec nd l a = spec_exec nd L_end (a\<lparr>a_state := s\<rparr>)"
proof -
  have v: "spec_exec nd L_cval b = spec_exec nd L_end (b\<lparr>a_state := http_parse_wait_cval\<rparr>)" for b
    by (subst spec_exec_unfold) (simp add: spec_block_def)
  have "spec_exec nd L_clen b = spec_exec nd L_end (b\<lparr>a_state := http_parse_wait_cval\<rparr>)" for b
    by (subst spec_exec_unfold) (simp add: spec_block_def v)
  with v show "l \<in> {L_clen, L_cval} \<Longrightarrow> ?thesis" by blast
qed

lemma accepts_tail:
  assumes "accepts l a" and "l \<in> {L_end, L_clen, L_cval}"
  shows "a_next a = length (a_text a)"
proof (cases "l = L_end")
  case False
  with assms(2) have "l \<in> {L_clen, L_cval}" by auto
  from exec_state [OF this, of False a] obtain s where "spec_exec False l a = spec_exec False L_end (a\<lparr>a_state := s\<rparr>)" ..
  with assms(1) have "accepts L_end (a\<lparr>a_state := s\<rparr>)" by (simp add: accepts_def)
  from accepts_end [OF this] show ?thesis by simp
qed (use assms(1) accepts_end in simp)

lemma rejects_tail:
  "a_next a \<le> length (a_text a) \<Longrightarrow> ys \<noteq> [] \<Longrightarrow> l \<in> {L_end, L_clen, L_cval} \<Longrightarrow> \<not> accepts l (more a ys)"
  using accepts_tail [of l "more a ys"] by (cases ys) auto

lemma waits_fix_body:
  assumes "accepts L_fix_body (more a ys)" and "ys \<noteq> []"
  shows "waits nd L_fix_body a"
proof (cases "sz_add (a_cur a) (a_body_length a) > length (a_text a)")
  case True
  then show ?thesis
    by (auto simp: waits_def wants_more_def spec_exec_unfold [of nd L_fix_body] spec_block_def spec_wait_fix_body_def)
next
  case False
  obtain a1 where "spec_exec False L_fix_body (more a ys) = Inr (http_success, a1)"
    using assms(1) by (auto simp: accepts_def)
  with False obtain b where b: "spec_exec False L_end b = Inr (http_success, a1)"
      "a_next b = sz_add (a_cur a) (a_body_length a)" "a_text b = a_text a @ ys"
    by (subst (asm) spec_exec_unfold)
      (fastforce simp: spec_block_def spec_wait_fix_body_def Let_def bnd_eq_Inr_iff split: if_splits)
  then have "accepts L_end b" by (simp add: accepts_def)
  from accepts_end [OF this] b False assms(2) show ?thesis by (cases ys) auto
qed

lemma waits_hdr:
  assumes i: "spec_inv L_hdr a" and k: "count_list (a_text a @ ys) LF < 99"
    and acc: "accepts L_hdr (more a ys)" and ne: "ys \<noteq> []"
  shows "waits nd L_hdr a"
proof -
  let ?a = "a\<lparr>a_state := http_parse_wait_hdr\<rparr>"
  have i': "spec_inv L_hdr ?a" and k': "count_list (a_text ?a @ ys) LF < 99"
    using i k by (simp_all add: spec_inv_def)
  obtain e c a1 where l: "spec_header_loop 100 1 ?a = (e, c, a1)" by (cases "spec_header_loop 100 1 ?a") auto
  note both = header_loop_both [OF l i' k']
  have x: "spec_exec nd L_hdr z = bnd (spec_block nd L_hdr z) (\<lambda>(j, z).
      case j of Return herr \<Rightarrow> Inr (herr, z) | Goto l' \<Rightarrow> spec_exec nd l' z)" for nd z
    by (subst spec_exec_unfold) simp
  have ma: "(more a ys)\<lparr>a_state := http_parse_wait_hdr\<rparr> = more ?a ys" by simp
  show ?thesis
  proof (cases e)
    case (Some er)
    with both l show ?thesis
      by (auto simp: waits_def wants_more_def x spec_block_def spec_wait_hdr_def)
  next
    case None
    with both have g: "c \<noteq> 100" "spec_header_loop 100 1 (more ?a ys) = (None, c, more a1 ys)" by simp_all
    have nx: "a_next a1 \<le> length (a_text a1)"
      using spec_header_loop_inv [OF i' l] by (auto simp: spec_inv_def)
    show ?thesis
    proof (cases "a_body_type a1")
      case http_transfer_body_unset
      have "spec_wait_hdr (more a ys) = (Goto L_end, more (a1\<lparr>a_full := a_next a1\<rparr>) ys)"
        using g http_transfer_body_unset unfolding spec_wait_hdr_def Let_def ma by simp
      with acc have "accepts L_end (more (a1\<lparr>a_full := a_next a1\<rparr>) ys)"
        by (simp add: accepts_def x spec_block_def)
      with rejects_tail [of "a1\<lparr>a_full := a_next a1\<rparr>" ys L_end] nx ne show ?thesis by simp
    next
      case http_transfer_body_chunked
      have "spec_wait_hdr (more a ys) = (Goto L_clen, more a1 ys)"
        using g http_transfer_body_chunked unfolding spec_wait_hdr_def Let_def ma by simp
      with acc have "accepts L_clen (more a1 ys)" by (simp add: accepts_def x spec_block_def)
      with rejects_tail [of a1 ys L_clen] nx ne show ?thesis by simp
    next
      case http_transfer_body_fixed
      have w: "spec_wait_hdr (more a ys) = (Goto L_fix_body, more a1 ys)" "spec_wait_hdr a = (Goto L_fix_body, a1)"
        using g l None http_transfer_body_fixed unfolding spec_wait_hdr_def Let_def ma by simp_all
      with acc have "accepts L_fix_body (more a1 ys)" by (simp add: accepts_def x spec_block_def)
      from waits_fix_body [OF this ne, of nd] w(2) show ?thesis by (simp add: waits_def x spec_block_def)
    qed
  qed
qed

lemma waits_req:
  assumes i: "spec_inv L_req a" and k: "count_list (a_text a @ ys) LF < 99"
    and acc: "accepts L_req (more a ys)" and ne: "ys \<noteq> []"
  shows "waits nd L_req a"
proof -
  let ?a = "a\<lparr>a_state := http_parse_wait_req\<rparr>"
  have x: "spec_exec nd L_req z = (case spec_wait_req z of (j, z) \<Rightarrow>
      case j of Return herr \<Rightarrow> Inr (herr, z) | Goto l' \<Rightarrow> spec_exec nd l' z)" for nd z
    by (subst spec_exec_unfold) (simp add: spec_block_def)
  have i': "spec_inv L_req ?a" and nx: "a_next ?a \<le> length (a_text ?a)" using i by (simp_all add: spec_inv_def)
  have ma: "(more a ys)\<lparr>a_state := http_parse_wait_req\<rparr> = more ?a ys" by simp
  show ?thesis
  proof (cases "spec_line ?a")
    case None
    then show ?thesis by (simp add: waits_def wants_more_def x spec_wait_req_def)
  next
    case (Some p)
    obtain line a1 where p: "spec_line ?a = Some (line, a1)" using Some by (cases p) auto
    let ?b = "spec_request_line line a1"
    have i1: "spec_inv L_hdr a1" using p i' by (rule spec_line_inv) simp
    have t1: "a_text a1 = a_text a" using p by (auto simp: spec_line_def split: option.splits)
    have "spec_wait_req (more a ys) = (Goto L_hdr, more ?b ys)"
      using spec_line_more [OF p nx, of ys] unfolding spec_wait_req_def Let_def ma
      by (simp add: spec_request_line_text)
    with acc have "accepts L_hdr (more ?b ys)" by (simp add: accepts_def x)
    moreover have "spec_inv L_hdr ?b" "count_list (a_text ?b @ ys) LF < 99"
      using i1 k t1 by (simp_all add: spec_inv_def)
    ultimately have "waits nd L_hdr ?b" using ne by (intro waits_hdr)
    with p show ?thesis by (simp add: waits_def x spec_wait_req_def)
  qed
qed

lemma spec_feed_waits:
  assumes acc: "spec_feed False (xs @ ys) a = Inr (http_success, a')" and inv: "ctx_inv a"
    and k: "count_list (a_text a @ xs @ ys) LF < 99" and ne: "ys \<noteq> []"
  shows "\<exists>herr a1. spec_feed nd xs a = Inr (herr, a1) \<and> wants_more herr"
proof -
  let ?l = "state_label (a_state a)"
  have i: "spec_inv ?l (more a xs)" using inv by (auto simp: ctx_inv_def spec_inv_def)
  have ac: "accepts ?l (more (more a xs) ys)" using acc by (simp add: accepts_def spec_feed_exec)
  have "waits nd ?l (more a xs)"
  proof (cases ?l)
    case L_req
    then show ?thesis using i k ac ne waits_req [of "more a xs" ys nd] by simp
  next
    case L_hdr
    then show ?thesis using i k ac ne waits_hdr [of "more a xs" ys nd] by simp
  next
    case L_fix_body
    then show ?thesis using ac ne waits_fix_body [of "more a xs" ys nd] by simp
  qed (use i ac ne rejects_tail [of "more a xs" ys ?l] in \<open>simp_all add: spec_inv_def\<close>)
  then show ?thesis by (simp add: waits_def spec_feed_exec)
qed

lemma feed_all_split:
  assumes "spec_feed False (concat ps) a = Inr (http_success, a')" and "ctx_inv a"
    and "count_list (a_text a @ concat ps) LF < 99" and "ps \<noteq> []" and "last ps \<noteq> []"
  shows "feed_all (spec_feed False) ps a = Inr (http_success, a', [])"
  using assms
proof (induction ps arbitrary: a)
  case (Cons p ps)
  show ?case
  proof (cases "ps = []")
    case True
    with Cons.prems show ?thesis by simp
  next
    case False
    with Cons.prems(5) have ne: "concat ps \<noteq> []" by (metis concat_eq_Nil_conv last.simps last_in_set)
    have f: "spec_feed False (p @ concat ps) a = Inr (http_success, a')"
      and k: "count_list (a_text a @ p @ concat ps) LF < 99" using Cons.prems(1,3) by simp_all
    from spec_feed_waits [OF f Cons.prems(2) k ne] obtain herr a1 where
      h: "spec_feed False p a = Inr (herr, a1)" "wants_more herr" by blast
    note inv = spec_feed_inv [OF h(1) Cons.prems(2)]
    have "spec_feed False (concat ps) a1 = Inr (http_success, a')"
      using spec_feed_resumes [OF h Cons.prems(2) k] f by simp
    moreover have "count_list (a_text a1 @ concat ps) LF < 99" using inv(2) k by simp
    ultimately have "feed_all (spec_feed False) ps a1 = Inr (http_success, a', [])"
      using Cons.IH inv(1) False Cons.prems(5) by simp
    with h False show ?thesis by simp
  qed
qed simp

end
