(* ===== verification/HttpValues.thy ===== *)
theory HttpValues
  imports HttpTypesSpec Decimal
begin

text \<open>
  Round trips of \<^verbatim>\<open>http_types.c\<close>: what its tables print, its recognisers read back; a
  decimal number is read back as a content length, a minus sign in front of it included.
\<close>

section \<open>Numbers\<close>

lemma digits_val_snoc: "digits_val (xs @ [c]) = 10 * digits_val xs + (of_char c - 48)"
  by (simp add: digits_val_def)

lemma digits_val_dec_nat: "digits_val (dec_nat n) = n"
proof (induction n rule: dec_nat.induct)
  case (1 n)
  show ?case
  proof (cases "n < 10")
    case True
    then show ?thesis by (simp add: dec_nat.simps [of n] digits_val_def digit_char_code)
  next
    case False
    with 1 show ?thesis
      by (simp add: dec_nat.simps [of n] digits_val_snoc digit_char_code)
  qed
qed

lemma dec_nat_all_digits: "\<forall>c \<in> set (dec_nat n). c_isdigit c"
  using dec_nat_digits by (auto simp: c_isdigit_def)

lemma digit_not_space:
  assumes "c_isdigit c"
  shows "\<not> c_isspace c" and "\<not> is_blank c" and "c \<noteq> CHR ''-''" and "c \<noteq> CHR ''+''"
  using assms by (auto simp: c_isdigit_def c_isspace_def is_blank_def)

lemma dropWhile_hd: "xs \<noteq> [] \<Longrightarrow> \<not> P (hd xs) \<Longrightarrow> dropWhile P xs = xs"
  by (cases xs) simp_all

lemma takeWhile_all: "\<forall>x \<in> set xs. P x \<Longrightarrow> takeWhile P xs = xs"
  by (induction xs) simp_all

lemma hd_dec_nat: "c_isdigit (hd (dec_nat n))"
  using dec_nat_all_digits [of n] hd_in_set [OF dec_nat_nonempty [of n]] by blast

lemma c_strtoll_dec_nat: "c_strtoll (dec_nat n) = Some (clamp64 (int n))"
proof -
  obtain c r where d: "dec_nat n = c # r" using dec_nat_nonempty [of n] by (cases "dec_nat n") auto
  have c: "c_isdigit c" using hd_dec_nat [of n] d by simp
  have tw: "takeWhile c_isdigit (dec_nat n) = dec_nat n" by (rule takeWhile_all [OF dec_nat_all_digits])
  have "dropWhile c_isspace (dec_nat n) = dec_nat n"
    using digit_not_space(1) [OF c] d by simp
  then show ?thesis
    using digit_not_space(3,4) [OF c] tw d digits_val_dec_nat [of n]
    by (simp add: c_strtoll_def Let_def)
qed

lemma c_strtoll_minus: "c_strtoll (CHR ''-'' # dec_nat n) = Some (clamp64 (- int n))"
proof -
  have tw: "takeWhile c_isdigit (dec_nat n) = dec_nat n" by (rule takeWhile_all [OF dec_nat_all_digits])
  have "\<not> c_isspace (CHR ''-'')" by (simp add: c_isspace_def)
  then show ?thesis
    by (simp add: c_strtoll_def Let_def tw digits_val_dec_nat del: takeWhile_eq_all_conv)
qed

lemma c_strtoll_dec_int: "c_strtoll (dec_int d) = Some (clamp64 d)"
  by (simp add: dec_int_def c_strtoll_dec_nat c_strtoll_minus)

lemma skip_blanks_dec_int: "skip_blanks (dec_int d) = dec_int d"
proof -
  have "\<not> is_blank (hd (dec_int d))"
    using digit_not_space(2) [OF hd_dec_nat] by (auto simp: dec_int_def is_blank_def)
  moreover have "dec_int d \<noteq> []" by (simp add: dec_int_def)
  ultimately show ?thesis unfolding skip_blanks_def by (intro dropWhile_hd)
qed

definition is_int64 :: "int \<Rightarrow> bool" where
  "is_int64 d \<longleftrightarrow> - 9223372036854775808 \<le> d \<and> d < 9223372036854775808"

lemma clamp64_id: "is_int64 d \<Longrightarrow> clamp64 d = d"
  by (auto simp: clamp64_def is_int64_def)

lemma sint_word_of_int64: "is_int64 d \<Longrightarrow> sint (word_of_int d :: 64 word) = d"
  by (simp add: is_int64_def sint_sbintrunc' signed_take_bit_int_eq_self)

lemma content_length_value:
  "is_int64 d \<Longrightarrow> value_spec http_hdr_content_length (dec_int d) u = (True, word_of_int d)"
  by (simp add: value_spec_def cstr_id skip_blanks_dec_int c_strtoll_dec_int clamp64_id)

section \<open>Properties\<close>

text \<open>
  The version a response prints is the version the parser reads: \<^verbatim>\<open>http_match_version\<close>
  inverts \<^verbatim>\<open>http_get_version_sv\<close> on every version, the unknown one included.
\<close>

theorem version_roundtrip:
  "bnd (http_get_version_sv m v) (http_match_version m) = Inr v"
proof -
  have "http_get_version_sv m v = Inr \<lparr>sv_data = lit (version_str v), sv_len = length (version_str v)\<rparr>"
    unfolding http_get_version_sv_def by (rule string_view_from_cstr_lit) (cases v; simp)
  moreover have "http_match_version m \<lparr>sv_data = lit (version_str v), sv_len = length (version_str v)\<rparr> =
      Inr (version_of (version_str v))"
    by (rule http_match_version_of) simp
  moreover have "version_of (version_str v) = v" by (cases v) (simp_all add: version_of_def)
  ultimately show ?thesis by simp
qed

text \<open>
  Every entry of the method table is recognised as the method of its position, and every
  header name the response writer prints is recognised as its field.
\<close>

theorem method_and_field_roundtrip:
  "map (\<lambda>t. bnd (string_view_from_cstr m (lit t)) (http_match_method m)) http_get_methods = map Inr http_methods \<and>
   bnd (http_get_header_field_sv m f) (http_match_header_field m) =
     Inr (if f = http_hdr_max then http_hdr_unkown else f)"
proof
  have "bnd (string_view_from_cstr m (lit t)) (http_match_method m) = Inr (method_of t)"
    if "t \<in> set http_methods_str" for t
  proof -
    have "NUL \<notin> set t" "length t < MAX_LEN" using that by (auto simp: http_methods_str_def)
    then show ?thesis by (simp add: string_view_from_cstr_lit http_match_method_of)
  qed
  moreover have "map method_of http_methods_str = http_methods"
    by (simp add: http_methods_str_def http_methods_def method_of_def)
  ultimately show "map (\<lambda>t. bnd (string_view_from_cstr m (lit t)) (http_match_method m)) http_get_methods =
      map Inr http_methods"
    unfolding http_get_methods_def by (metis (no_types, lifting) comp_def list.map_comp map_eq_conv)
next
  have "http_get_header_field_sv m f = Inr \<lparr>sv_data = lit (header_field_str f), sv_len = length (header_field_str f)\<rparr>"
    unfolding http_get_header_field_sv_def by (rule string_view_from_cstr_lit) (cases f; simp)
  moreover have "http_match_header_field m \<lparr>sv_data = lit (header_field_str f), sv_len = length (header_field_str f)\<rparr> =
      Inr (field_of (header_field_str f))"
    by (rule http_match_header_field_of [OF view_bytes_lit]) (cases f; simp)
  moreover have "field_of (header_field_str f) = (if f = http_hdr_max then http_hdr_unkown else f)"
    by (cases f) (simp_all add: field_of_def http_header_fields_str_def http_header_fields_def)
  ultimately show "bnd (http_get_header_field_sv m f) (http_match_header_field m) =
     Inr (if f = http_hdr_max then http_hdr_unkown else f)" by simp
qed

text \<open>
  C27: A \<^verbatim>\<open>Content-Length\<close> header whose value is the decimal text of a 64 bit number -
  a negative one too - is accepted, and the union holds that number; memory changes by the
  scratch array alone, which is gone again.
\<close>

theorem content_length_roundtrip:
  assumes "view_bytes m sv = Inr (dec_int d)" and "is_int64 d" and "wf_mem m"
    and "length (dec_int d) < MAX_LEN" and "hdr_field h = http_hdr_content_length"
  shows "\<exists>h' b. http_hdr_parse_value (Some h) sv m = Inr (http_success, Some h', m\<lparr>brk := b\<rparr>) \<and>
     content_length_of (hdr_value h') = d \<and> has_parsed_type (hdr_value h') \<and> value_sv (hdr_value h') = sv"
  using http_hdr_parse_value_spec [OF assms(1,3,4), of h] assms(2,5)
  by (auto simp: content_length_value header_with_value_def typed_field_def content_length_of_def
      sint_word_of_int64)

lemma content_length_roundtrip_witness:
  "\<exists>h' b. http_hdr_parse_value (Some (zero_header\<lparr>hdr_field := http_hdr_content_length\<rparr>))
       \<lparr>sv_data = lit (dec_int (- 7)), sv_len = length (dec_int (- 7))\<rparr>
       \<lparr>blocks = (\<lambda>_. None), brk = 0, avail = (\<lambda>_. True), junk = (\<lambda>_ _. NUL), ndebug = False\<rparr> =
       Inr (http_success, Some h', \<lparr>blocks = (\<lambda>_. None), brk = b, avail = (\<lambda>_. True), junk = (\<lambda>_ _. NUL), ndebug = False\<rparr>) \<and>
     content_length_of (hdr_value h') = - 7"
proof -
  let ?m = "\<lparr>blocks = (\<lambda>_. None), brk = 0, avail = (\<lambda>_. True), junk = (\<lambda>_ _. NUL), ndebug = False\<rparr>"
  have "length (dec_int (- 7)) < MAX_LEN" using dec_int_length [of "- 7"] by (simp add: is_int32_def)
  then show ?thesis
    using content_length_roundtrip [of ?m "\<lparr>sv_data = lit (dec_int (- 7)), sv_len = length (dec_int (- 7))\<rparr>" "- 7"
        "zero_header\<lparr>hdr_field := http_hdr_content_length\<rparr>"]
    by (auto simp: is_int64_def wf_mem_def)
qed

end
