(* ===== verification/HttpParseProps.thy ===== *)
theory HttpParseProps
  imports HttpParseText HttpParseSplit HttpValues StringProps
begin

text \<open>
  Properties of the parser as the code runs it: on contexts in memory, fed with packets.
\<close>

section \<open>A fresh context\<close>

definition empty_state :: pstate where
  "empty_state = \<lparr>ps_mem = empty_mem, ps_nodes = (\<lambda>_. None)\<rparr>"

lemma empty_state_simps [simp]:
  "wf_mem (ps_mem empty_state)" "always_avail (ps_mem empty_state)" "\<not> ndebug (ps_mem empty_state)"
  by (simp_all add: empty_state_def)

lemma fresh_context:
  assumes wf: "wf_mem (ps_mem st)" and av: "always_avail (ps_mem st)"
    and v: "view_bytes (ps_mem st) packet = Inr bs"
  obtains nid st1 ctx req where "http_parse_ctx_new st = Inr (http_success, Some nid, st1)"
    and "ps_nodes st1 nid = Some ctx" and "ctx_rep (ps_mem st1) ctx req actx0"
    and "always_avail (ps_mem st1)" and "ndebug (ps_mem st1) = ndebug (ps_mem st)"
    and "view_bytes (ps_mem st1) packet = Inr bs" and "view_apart packet (post ctx)"
proof -
  obtain nid ctx req m' where n: "http_parse_ctx_new st =
      Inr (http_success, Some nid, \<lparr>ps_mem = m', ps_nodes = (ps_nodes st)(nid := Some ctx)\<rparr>)"
    "ctx_rep m' ctx req actx0" "frame {} (ps_mem st) m'"
    "\<forall>b \<in> feed_frame ctx req. blocks (ps_mem st) b = None"
    using http_parse_ctx_new_refines [OF wf av] by blast
  have rp: "str_rep m' (post ctx) (a_text actx0)" using n(2) by (simp add: ctx_rep_def)
  have "view_apart packet (post ctx)"
    unfolding view_apart_def
  proof
    fix b assume b: "b \<in> footprint (post ctx)"
    with n(4) have "blocks (ps_mem st) b = None" by (simp add: feed_frame_def)
    then show "view_off packet b" using v footprint_not_lit [OF rp b] by (intro view_off_fresh)
  qed
  moreover have "view_bytes m' packet = Inr bs" using n(3) v by (rule frame_view) simp
  ultimately show ?thesis
    using that n(1,2) always_avail_frame [OF av n(3)] frame_env(3) [OF n(3)] by simp
qed

text \<open>The first feed of a fresh context does what the specification says.\<close>

lemma fresh_feed:
  assumes wf: "wf_mem (ps_mem st)" and av: "always_avail (ps_mem st)"
    and v: "view_bytes (ps_mem st) packet = Inr bs" and len: "length bs < MAX_LEN"
  obtains nid st1 where "http_parse_ctx_new st = Inr (http_success, Some nid, st1)"
    and "case spec_feed (ndebug (ps_mem st)) bs actx0 of
        Inl e \<Rightarrow> http_parse_feed (Some nid) packet st1 = Inl e
      | Inr (herr, a') \<Rightarrow> \<exists>st2 ctx req B. http_parse_feed (Some nid) packet st1 = Inr (herr, Some nid, st2) \<and>
          ps_nodes st2 nid = Some ctx \<and> wait_state ctx = a_state a' \<and> http_request ctx = Some req \<and>
          run_rep B 0 (ps_mem st2) ctx req a'"
proof -
  obtain nid st1 ctx req where n: "http_parse_ctx_new st = Inr (http_success, Some nid, st1)"
      "ps_nodes st1 nid = Some ctx" "ctx_rep (ps_mem st1) ctx req actx0" "always_avail (ps_mem st1)"
      "ndebug (ps_mem st1) = ndebug (ps_mem st)" "view_bytes (ps_mem st1) packet = Inr bs"
      "view_apart packet (post ctx)"
    using fresh_context [OF wf av v] by blast
  have "length (a_text actx0) + length bs < MAX_LEN" using len by (simp add: actx0_def)
  note f = http_parse_feed_refines [OF n(3,2) ctx_inv_actx0 n(4,6,7) this]
  have hs: "length (a_headers actx0) = 0" by (simp add: actx0_def)
  show ?thesis
  proof (cases "spec_feed (ndebug (ps_mem st)) bs actx0")
    case (Inl e)
    with f n(1,5) that show ?thesis by simp
  next
    case (Inr x)
    obtain herr a' where x: "x = (herr, a')" by force
    with f n(5) Inr obtain ctx' req' m' where g: "http_parse_feed (Some nid) packet st1 =
        Inr (herr, Some nid, st1\<lparr>ps_mem := m', ps_nodes := (ps_nodes st1)(nid := Some ctx')\<rparr>)"
      "run_rep (Heap (brk (ps_mem st1))) 0 m' ctx' req' a'" by (auto simp: hs)
    moreover have "wait_state ctx' = a_state a'" "http_request ctx' = Some req'"
      using g(2) by (simp_all add: run_rep_def ctx_rep_def)
    ultimately have "\<exists>st2 ctx req B. http_parse_feed (Some nid) packet st1 = Inr (herr, Some nid, st2) \<and>
        ps_nodes st2 nid = Some ctx \<and> wait_state ctx = a_state a' \<and> http_request ctx = Some req \<and>
        run_rep B 0 (ps_mem st2) ctx req a'" by auto
    with n(1) that x Inr show ?thesis by simp
  qed
qed

text \<open>A request object that holds what a client wrote, every string readable.\<close>

definition header_is :: "mem \<Rightarrow> http_header_t \<Rightarrow> header_text \<Rightarrow> bool" where
  "header_is m h kv \<longleftrightarrow>
     hdr_field h = ah_field (header_of kv) \<and>
     has_parsed_type (hdr_value h) = ah_parsed (header_of kv) \<and>
     value_bits (hdr_value h) = ah_bits (header_of kv) \<and>
     view_bytes m (value_sv (hdr_value h)) = Inr (snd kv) \<and>
     view_bytes m (hdr_name h) = Inr (ah_name (header_of kv))"

definition request_is ::
  "mem \<Rightarrow> http_request_t \<Rightarrow> char list \<Rightarrow> char list \<Rightarrow> char list \<Rightarrow> header_text list \<Rightarrow> char list \<Rightarrow> bool" where
  "request_is m req meth path ver hs body \<longleftrightarrow>
     req_method req = method_of meth \<and> str_rep m (req_path req) path \<and>
     req_version req = version_of ver \<and> str_rep m (req_body req) body \<and>
     list_all2 (header_is m) (vec_els (req_headers req)) hs"

lemma header_of_value [simp]: "ah_value (header_of h) = snd h"
  by (simp add: header_of_def Let_def split: prod.split)

lemma run_rep_request_is:
  assumes "run_rep B 0 m ctx req a" and "a_method a = method_of meth" and "a_path a = path"
    and "a_version a = version_of ver" and "a_headers a = map header_of hs" and "a_body a = body"
  shows "request_is m req meth path ver hs body"
proof -
  have "list_all2 (hdr_live m B) (vec_els (req_headers req)) (map header_of hs)"
    using assms(1,5) by (simp add: run_rep_def)
  then have "list_all2 (header_is m) (vec_els (req_headers req)) hs"
    unfolding list_all2_map2
    by (rule list_all2_mono) (auto simp: hdr_live_def hdr_same_def header_is_def)
  with assms show ?thesis
    by (simp add: request_is_def run_rep_def ctx_rep_def req_rep_def)
qed

section \<open>Complete requests\<close>

text \<open>
  C7: A packet that holds one complete request - a request line, at most 98 header lines, and
  as many body bytes as the headers announce - is parsed with success, and the request object
  shows exactly what the client wrote: method, path, version, body, and every header with its
  field, its parsed value and its text.
\<close>

theorem parse_complete_request:
  assumes "wf_mem (ps_mem st)" and "always_avail (ps_mem st)" and "\<not> ndebug (ps_mem st)"
    and "wf_head meth path ver hs" and "length hs < 99"
    and "outcome_of (announced_body hs) (length (head_text meth path ver hs)) rest = Complete body"
    and "view_bytes (ps_mem st) packet = Inr (head_text meth path ver hs @ rest)"
    and "length (head_text meth path ver hs @ rest) < MAX_LEN"
  shows "\<exists>nid st1 st2 ctx req. http_parse_ctx_new st = Inr (http_success, Some nid, st1) \<and>
     http_parse_feed (Some nid) packet st1 = Inr (http_success, Some nid, st2) \<and>
     ps_nodes st2 nid = Some ctx \<and> wait_state ctx = http_parse_end \<and> http_request ctx = Some req \<and>
     request_is (ps_mem st2) req meth path ver hs body"
proof -
  have len: "length (head_text meth path ver hs @ rest) < MAX_LEN" by fact
  obtain nid st1 where n: "http_parse_ctx_new st = Inr (http_success, Some nid, st1)"
    and f: "case spec_feed (ndebug (ps_mem st)) (head_text meth path ver hs @ rest) actx0 of
        Inl e \<Rightarrow> http_parse_feed (Some nid) packet st1 = Inl e
      | Inr (herr, a') \<Rightarrow> \<exists>st2 ctx req B. http_parse_feed (Some nid) packet st1 = Inr (herr, Some nid, st2) \<and>
          ps_nodes st2 nid = Some ctx \<and> wait_state ctx = a_state a' \<and> http_request ctx = Some req \<and>
          run_rep B 0 (ps_mem st2) ctx req a'"
    using fresh_feed [OF assms(1,2,7) len] by blast
  from spec_feed_outcome [OF assms(4,5,8)] assms(6) obtain a' where
    a: "spec_feed False (head_text meth path ver hs @ rest) actx0 = Inr (http_success, a')"
      "a_state a' = http_parse_end" "a_method a' = method_of meth" "a_path a' = path"
      "a_version a' = version_of ver" "a_headers a' = map header_of hs" "a_body a' = body"
    by (auto simp: has_outcome_def head_ctx_def Let_def)
  have "request_is m req meth path ver hs body" if "run_rep B 0 m ctx req a'" for B m ctx req
    using that a by (intro run_rep_request_is) simp_all
  with n f a(1,2) assms(3) show ?thesis by fastforce
qed

text \<open>A header part for examples: a host, and a content length of any number.\<close>

definition sample_hs :: "int \<Rightarrow> header_text list" where
  "sample_hs d = [(''Host'', ''a''), (''Content-Length'', dec_int d)]"

lemma field_of_names:
  "field_of ''Host'' = http_hdr_host" "field_of ''Content-Length'' = http_hdr_content_length"
  "field_of ''Transfer-Encoding'' = http_hdr_transfer_encoding"
  by (simp_all add: field_of_def http_header_fields_str_def http_header_fields_def)

lemma announced_snoc_length:
  assumes "is_int64 d"
  shows "announced_body (hs @ [(''Content-Length'', dec_int d)]) =
     (http_transfer_body_fixed, nat (d mod int SIZE_MOD))"
  using assms
  by (simp add: announced_body_def body_step_def header_of_def field_of_names content_length_value
      typed_field_def sint_word_of_int64)

lemma low32_set_low32 [simp]: "low32 (set_low32 k 0) = take_bit 32 k"
  by (simp add: low32_def set_low32_def take_bit_eq_mask)

lemma announced_snoc_chunked:
  "fst (announced_body (hs @ [(''Transfer-Encoding'', ''chunked'')])) = http_transfer_body_chunked"
  by (simp add: announced_body_def body_step_def header_of_def field_of_names value_spec_def
      typed_field_def)

lemma announced_sample:
  "is_int64 d \<Longrightarrow> announced_body (sample_hs d) = (http_transfer_body_fixed, nat (d mod int SIZE_MOD))"
  using announced_snoc_length [of d "[(''Host'', ''a'')]"] by (simp add: sample_hs_def)

lemma dec_int_chars: "c \<in> set (dec_int d) \<Longrightarrow> c = CHR ''-'' \<or> c_isdigit c"
  using dec_nat_all_digits by (auto simp: dec_int_def split: if_splits)

lemma CR_notin_dec_int [simp]: "CR \<notin> set (dec_int d)"
  using dec_int_chars [of CR d] by (auto simp: c_isdigit_def)

lemma wf_sample: "wf_head ''POST'' ''/x'' ''HTTP/1.1'' (sample_hs d)"
  by (simp add: wf_head_def sample_hs_def)

lemma length_sample:
  "is_int32 d \<Longrightarrow> length (head_text ''POST'' ''/x'' ''HTTP/1.1'' (sample_hs d)) \<le> 100"
  using dec_int_length [of d] by (simp add: head_text_def sample_hs_def header_line_text_def)

abbreviation sample_head :: "int \<Rightarrow> char list" where
  "sample_head d \<equiv> head_text ''POST'' ''/x'' ''HTTP/1.1'' (sample_hs d)"

lemma sample_facts:
  "length (sample_hs d) < 99" "is_int32 d \<Longrightarrow> is_int64 d"
  "view_bytes m (packet_of bs) = Inr bs"
  by (simp_all add: sample_hs_def is_int32_def is_int64_def packet_of_def)

lemma parse_complete_request_witness:
  "\<exists>nid st1 st2 ctx req. http_parse_ctx_new empty_state = Inr (http_success, Some nid, st1) \<and>
     http_parse_feed (Some nid) (packet_of (sample_head 2 @ ''ok'')) st1 = Inr (http_success, Some nid, st2) \<and>
     ps_nodes st2 nid = Some ctx \<and> wait_state ctx = http_parse_end \<and> http_request ctx = Some req \<and>
     request_is (ps_mem st2) req ''POST'' ''/x'' ''HTTP/1.1'' (sample_hs 2) ''ok''"
proof (rule parse_complete_request)
  have l: "length (sample_head 2) \<le> 100" by (rule length_sample) (simp add: is_int32_def)
  show "outcome_of (announced_body (sample_hs 2)) (length (sample_head 2)) ''ok'' = Complete ''ok''"
    using l by (simp add: announced_sample is_int64_def)
  show "length (sample_head 2 @ ''ok'') < MAX_LEN" using l by simp
qed (simp_all add: wf_sample sample_facts)

end
