(* ===== verification/HttpParseLimits.thy ===== *)
theory HttpParseLimits
  imports HttpParseProps
begin

text \<open>
  Where the parser stops: requests it does not accept, requests that end its process, and how
  a request may arrive in pieces.
\<close>

section \<open>Requests that end in a failed assertion\<close>

lemma feed_aborts:
  assumes "wf_mem (ps_mem st)" and "always_avail (ps_mem st)" and "\<not> ndebug (ps_mem st)"
    and "wf_head meth path ver hs" and "length hs < 99"
    and "outcome_of (announced_body hs) (length (head_text meth path ver hs)) rest = Aborts"
    and "view_bytes (ps_mem st) packet = Inr (head_text meth path ver hs @ rest)"
    and len: "length (head_text meth path ver hs @ rest) < MAX_LEN"
  shows "\<exists>nid st1. http_parse_ctx_new st = Inr (http_success, Some nid, st1) \<and>
     http_parse_feed (Some nid) packet st1 = Inl Assert_failed"
proof -
  have "spec_feed False (head_text meth path ver hs @ rest) actx0 = Inl Assert_failed"
    using spec_feed_outcome [OF assms(4,5,8)] assms(6) by (simp add: has_outcome_def)
  moreover obtain nid st1 where "http_parse_ctx_new st = Inr (http_success, Some nid, st1)"
    and "case spec_feed (ndebug (ps_mem st)) (head_text meth path ver hs @ rest) actx0 of
        Inl e \<Rightarrow> http_parse_feed (Some nid) packet st1 = Inl e
      | Inr (herr, a') \<Rightarrow> \<exists>st2 ctx req B. http_parse_feed (Some nid) packet st1 = Inr (herr, Some nid, st2) \<and>
          ps_nodes st2 nid = Some ctx \<and> wait_state ctx = a_state a' \<and> http_request ctx = Some req \<and>
          run_rep B 0 (ps_mem st2) ctx req a'"
    by (rule fresh_feed [OF assms(1,2,7) len])
  ultimately show ?thesis using assms(3) by simp
qed

text \<open>
  C23: A second request behind the first one in the same packet is not parsed: when the headers
  announce no body, any byte behind the header part makes an assertion fail, in a build with
  assertions. The branch for such packets is never reached.
\<close>

theorem pipelined_request_aborts:
  assumes "wf_mem (ps_mem st)" and "always_avail (ps_mem st)" and "\<not> ndebug (ps_mem st)"
    and "wf_head meth path ver hs" and "length hs < 99"
    and "fst (announced_body hs) = http_transfer_body_unset" and "rest \<noteq> []"
    and "view_bytes (ps_mem st) packet = Inr (head_text meth path ver hs @ rest)"
    and "length (head_text meth path ver hs @ rest) < MAX_LEN"
  shows "\<exists>nid st1. http_parse_ctx_new st = Inr (http_success, Some nid, st1) \<and>
     http_parse_feed (Some nid) packet st1 = Inl Assert_failed"
proof -
  have "outcome_of (announced_body hs) (length (head_text meth path ver hs)) rest = Aborts"
    using assms(6,7) by (cases "announced_body hs") simp
  with assms show ?thesis by (intro feed_aborts)
qed

lemma pipelined_request_aborts_witness:
  "\<exists>nid st1. http_parse_ctx_new empty_state = Inr (http_success, Some nid, st1) \<and>
     http_parse_feed (Some nid) (packet_of (head_text ''GET'' ''/'' ''HTTP/1.1'' [] @ ''GET'')) st1 = Inl Assert_failed"
  by (rule pipelined_request_aborts [where hs = "[]" and meth = "''GET''" and path = "''/''"
        and ver = "''HTTP/1.1''" and rest = "''GET''"])
    (simp_all add: sample_facts wf_head_def announced_body_def head_text_def)



text \<open>
  C25: A negative \<open>Content-Length\<close> that is no larger in size than the header part wraps around
  to a body end inside the header part, and the request ends in a failed assertion.
\<close>

theorem negative_content_length_aborts:
  assumes "wf_mem (ps_mem st)" and "always_avail (ps_mem st)" and "\<not> ndebug (ps_mem st)"
    and "wf_head meth path ver (hs @ [(''Content-Length'', dec_int d)])" and "length hs < 98"
    and "d < 0" and "- d \<le> int (length (head_text meth path ver (hs @ [(''Content-Length'', dec_int d)])))"
    and "view_bytes (ps_mem st) packet =
       Inr (head_text meth path ver (hs @ [(''Content-Length'', dec_int d)]) @ rest)"
    and "length (head_text meth path ver (hs @ [(''Content-Length'', dec_int d)]) @ rest) < MAX_LEN"
  shows "\<exists>nid st1. http_parse_ctx_new st = Inr (http_success, Some nid, st1) \<and>
     http_parse_feed (Some nid) packet st1 = Inl Assert_failed"
proof -
  let ?hs = "hs @ [(''Content-Length'', dec_int d)]"
  have "- d < int MAX_LEN" using assms(7,9) by simp
  then have d: "is_int64 d" "0 \<le> d + int SIZE_MOD" using assms(6) by (simp_all add: is_int64_def)
  have "(d + int SIZE_MOD) mod int SIZE_MOD = d + int SIZE_MOD"
    using d(2) assms(6) by (intro mod_pos_pos_trivial) simp_all
  then have dm: "d mod int SIZE_MOD = d + int SIZE_MOD" by (simp only: mod_add_self2)
  have ge: "SIZE_MOD \<le> length (head_text meth path ver ?hs) + nat (d + int SIZE_MOD)"
    using assms(7) d(2) by linarith
  have "outcome_of (announced_body ?hs) (length (head_text meth path ver ?hs)) rest = Aborts"
    unfolding announced_snoc_length [OF d(1)] dm outcome_of.simps using ge by (simp only: if_True)
  moreover have "length ?hs < 99" using assms(5) by simp
  ultimately show ?thesis using assms by (intro feed_aborts)
qed

lemma negative_content_length_aborts_witness:
  "\<exists>nid st1. http_parse_ctx_new empty_state = Inr (http_success, Some nid, st1) \<and>
     http_parse_feed (Some nid) (packet_of (sample_head (- 1) @ [])) st1 = Inl Assert_failed"
proof -
  have s: "sample_hs (- 1) = [(''Host'', ''a'')] @ [(''Content-Length'', dec_int (- 1))]"
    by (simp add: sample_hs_def)
  have w: "wf_head ''POST'' ''/x'' ''HTTP/1.1'' (sample_hs (- 1))" by (rule wf_sample)
  have pos: "1 \<le> length (sample_head (- 1))" by (simp add: head_text_def)
  have l: "length (sample_head (- 1)) \<le> 100" by (rule length_sample) (simp add: is_int32_def)
  show ?thesis
    unfolding s
    by (rule negative_content_length_aborts [where hs = "[(''Host'', ''a'')]" and d = "- 1"
          and rest = "[]" and meth = "''POST''" and path = "''/x''" and ver = "''HTTP/1.1''"])
      (use w l pos in \<open>unfold s [symmetric], simp_all add: sample_facts\<close>)
qed

section \<open>Requests that are not accepted\<close>

text \<open>
  C26: With exactly 99 header lines a well-formed request is refused with
  \<open>http_err_request_fatal\<close>: the loop counts the blank line as the hundredth header.
\<close>

theorem ninety_nine_headers_refused:
  assumes "wf_mem (ps_mem st)" and "always_avail (ps_mem st)"
    and "wf_head meth path ver hs" and "length hs = 99"
    and "view_bytes (ps_mem st) packet = Inr (head_text meth path ver hs @ rest)"
    and "length (head_text meth path ver hs @ rest) < MAX_LEN"
  shows "\<exists>nid st1 st2. http_parse_ctx_new st = Inr (http_success, Some nid, st1) \<and>
     http_parse_feed (Some nid) packet st1 = Inr (http_err_request_fatal, Some nid, st2)"
proof -
  have "spec_feed nd (head_text meth path ver hs @ rest) actx0 =
      Inr (http_err_request_fatal, head_ctx meth path ver hs rest)" for nd
    using spec_feed_head [OF assms(3), of nd rest] assms(4) by (simp add: Let_def)
  with fresh_feed [OF assms(1,2,5,6)] show ?thesis by fastforce
qed

definition many_headers :: "nat \<Rightarrow> header_text list" where
  "many_headers n = replicate n (''A'', ''b'')"

lemma many_headers_facts:
  "wf_head ''GET'' ''/'' ''HTTP/1.1'' (many_headers n)" "length (many_headers n) = n"
  "length (head_text ''GET'' ''/'' ''HTTP/1.1'' (many_headers n)) = 6 * n + 18"
  by (induction n)
    (simp_all add: many_headers_def wf_head_def head_text_def header_line_text_def split: if_splits)

lemma ninety_nine_headers_refused_witness:
  "\<exists>nid st1 st2. http_parse_ctx_new empty_state = Inr (http_success, Some nid, st1) \<and>
     http_parse_feed (Some nid) (packet_of (head_text ''GET'' ''/'' ''HTTP/1.1'' (many_headers 99) @ ''x'')) st1 =
       Inr (http_err_request_fatal, Some nid, st2)"
  by (rule ninety_nine_headers_refused [OF _ _ many_headers_facts(1,2)])
    (simp_all add: sample_facts many_headers_facts, simp)

section \<open>Requests that arrive in pieces\<close>

lemma fresh_parser_rel:
  assumes "wf_mem (ps_mem st)" and "always_avail (ps_mem st)"
  obtains nid st1 where "http_parse_ctx_new st = Inr (http_success, Some nid, st1)"
    and "parser_rel nid (ndebug (ps_mem st)) st1 actx0"
proof -
  obtain nid ctx req m' where n: "http_parse_ctx_new st =
      Inr (http_success, Some nid, \<lparr>ps_mem = m', ps_nodes = (ps_nodes st)(nid := Some ctx)\<rparr>)"
    "ctx_rep m' ctx req actx0" "frame {} (ps_mem st) m'"
    using http_parse_ctx_new_refines [OF assms] by blast
  then have "parser_rel nid (ndebug (ps_mem st)) \<lparr>ps_mem = m', ps_nodes = (ps_nodes st)(nid := Some ctx)\<rparr> actx0"
    using always_avail_frame [OF assms(2) n(3)] frame_env(3) [OF n(3)] by (auto simp: parser_rel_def)
  with n(1) that show ?thesis by blast
qed

lemma empty_parser_rel: "\<exists>nid st. parser_rel nid False st actx0"
  by (rule fresh_parser_rel [of empty_state]) (simp_all, blast)

text \<open>
  C1: A context is fed with packets of any content. As long as the bytes stay below the limit
  of the string module, each feed returns what the specification of the parser returns - the
  same error code or the same fault - and leaves a context that represents the specification's
  state.
\<close>

theorem feed_packet_implements:
  assumes "parser_rel nid nd st a" and "length (a_text a) + length bs < MAX_LEN"
  shows "(\<forall>f. spec_feed nd bs a = Inl f \<longrightarrow> feed_packet nid bs st = Inl f) \<and>
     (\<forall>herr a'. spec_feed nd bs a = Inr (herr, a') \<longrightarrow>
        (\<exists>st'. feed_packet nid bs st = Inr (herr, st') \<and> parser_rel nid nd st' a'))"
  using feed_packet_refines [OF assms] by auto

lemma feed_packet_implements_witness:
  "\<exists>nid st. parser_rel nid False st actx0 \<and>
     (\<forall>f. spec_feed False ''GET'' actx0 = Inl f \<longrightarrow> feed_packet nid ''GET'' st = Inl f) \<and>
     (\<forall>herr a'. spec_feed False ''GET'' actx0 = Inr (herr, a') \<longrightarrow>
        (\<exists>st'. feed_packet nid ''GET'' st = Inr (herr, st') \<and> parser_rel nid False st' a'))"
proof -
  obtain nid st1 where r: "parser_rel nid False st1 actx0"
    using empty_parser_rel by blast
  moreover have "length (a_text actx0) + length ''GET'' < MAX_LEN" by (simp add: actx0_def)
  ultimately show ?thesis using feed_packet_implements [OF r] by blast
qed

text \<open>
  C9: How bytes are cut into packets does not change the outcome. When a series of packets is
  consumed, each feed but the last asking for more, then one packet with all the bytes gives
  the same code and a context in the same abstract state - for requests with fewer than 99
  line feeds, since the header counter starts anew with every packet.
\<close>

theorem packets_as_one:
  assumes "parser_rel nid nd st a" and "length (a_text a) + length (concat ps) < MAX_LEN"
    and "count_list (a_text a @ concat ps) LF < 99" and "ps \<noteq> []"
    and "feed_all (feed_packet nid) ps st = Inr (herr, st1, [])"
  shows "\<exists>st2 a'. feed_packet nid (concat ps) st = Inr (herr, st2) \<and>
     parser_rel nid nd st1 a' \<and> parser_rel nid nd st2 a'"
proof -
  have inv: "ctx_inv a" using assms(1) by (simp add: parser_rel_def)
  show ?thesis
  proof (cases "feed_all (spec_feed nd) ps a")
    case (Inl f)
    from pp.feed_all_fault [OF assms(1,2) Inl] assms(5) show ?thesis by simp
  next
    case (Inr x)
    obtain e a' rest where x: "feed_all (spec_feed nd) ps a = Inr (e, a', rest)"
      using Inr by (cases x) auto
    from pp.feed_all_ok [OF assms(1,2) x] assms(5)
    have r: "e = herr" "rest = []" "parser_rel nid nd st1 a'" by auto
    with x have s: "feed_all (spec_feed nd) ps a = Inr (herr, a', [])" by simp
    have "spec_feed nd (concat ps) a = Inr (herr, a')"
      by (rule feed_all_concat [OF s assms(4) inv assms(3)])
    with feed_packet_refines [OF assms(1,2)] r(3) show ?thesis by auto
  qed
qed

lemma packets_as_one_witness:
  "\<exists>nid st st1 st2 a'. feed_all (feed_packet nid) [''GET /'', ''index''] st = Inr (http_err_parse_cannot_find_clrf, st1, []) \<and>
     feed_packet nid ''GET /index'' st = Inr (http_err_parse_cannot_find_clrf, st2) \<and>
     parser_rel nid False st1 a' \<and> parser_rel nid False st2 a'"
proof -
  let ?ps = "[''GET /'', ''index'']"
  obtain nid st where r: "parser_rel nid False st actx0"
    using empty_parser_rel by blast
  have s: "feed_all (spec_feed False) ?ps actx0 = Inr (http_err_parse_cannot_find_clrf,
      actx0\<lparr>a_text := ''GET /index'', a_state := http_parse_wait_req\<rparr>, [])"
    by (simp add: spec_feed_def feed_fuel_def actx0_def spec_block_def spec_wait_req_def spec_line_def
        numeral_eq_Suc wants_more_def)
  have l: "length (a_text actx0) + length (concat ?ps) < MAX_LEN"
    and k: "count_list (a_text actx0 @ concat ?ps) LF < 99"
    by (simp_all add: actx0_def)
  obtain st1 where f: "feed_all (feed_packet nid) ?ps st = Inr (http_err_parse_cannot_find_clrf, st1, [])"
    using pp.feed_all_ok [OF r l s] by blast
  from packets_as_one [OF r l k _ f] f show ?thesis by fastforce
qed

text \<open>What of a request does not depend on the packets: everything but the views.\<close>

definition request_matches ::
  "mem \<Rightarrow> http_request_t \<Rightarrow> char list \<Rightarrow> char list \<Rightarrow> char list \<Rightarrow> header_text list \<Rightarrow> char list \<Rightarrow> bool" where
  "request_matches m req meth path ver hs body \<longleftrightarrow>
     req_method req = method_of meth \<and> str_rep m (req_path req) path \<and>
     req_version req = version_of ver \<and> str_rep m (req_body req) body \<and>
     list_all2 hdr_same (vec_els (req_headers req)) (map header_of hs)"

text \<open>
  C8: A complete request may arrive in any series of packets, cut anywhere, if the last packet
  is not empty and the request has fewer than 99 line feeds: every feed but the last asks for
  more, the last one succeeds, and the request object has the method, path, version and body,
  and the fields and parsed values of the headers, that the client wrote.
\<close>

theorem segmented_request_parsed:
  assumes "wf_mem (ps_mem st)" and "always_avail (ps_mem st)" and "\<not> ndebug (ps_mem st)"
    and "wf_head meth path ver hs" and "length hs < 99"
    and "outcome_of (announced_body hs) (length (head_text meth path ver hs)) rest = Complete body"
    and "concat ps = head_text meth path ver hs @ rest" and "last ps \<noteq> []"
    and "length (head_text meth path ver hs @ rest) < MAX_LEN"
    and "count_list (head_text meth path ver hs @ rest) LF < 99"
  shows "\<exists>nid st1 st2 ctx req. http_parse_ctx_new st = Inr (http_success, Some nid, st1) \<and>
     feed_all (feed_packet nid) ps st1 = Inr (http_success, st2, []) \<and>
     ps_nodes st2 nid = Some ctx \<and> wait_state ctx = http_parse_end \<and> http_request ctx = Some req \<and>
     request_matches (ps_mem st2) req meth path ver hs body"
proof -
  obtain nid st1 where n: "http_parse_ctx_new st = Inr (http_success, Some nid, st1)"
      "parser_rel nid False st1 actx0"
    using fresh_parser_rel [OF assms(1,2)] assms(3) by auto
  from spec_feed_outcome [OF assms(4,5,9)] assms(6) obtain a' where
    a: "spec_feed False (concat ps) actx0 = Inr (http_success, a')"
      "a_state a' = http_parse_end" "a_method a' = method_of meth" "a_path a' = path"
      "a_version a' = version_of ver" "a_headers a' = map header_of hs" "a_body a' = body"
    by (auto simp: has_outcome_def head_ctx_def Let_def assms(7))
  have t: "a_text actx0 = []" by (simp add: actx0_def)
  have ne: "ps \<noteq> []" using assms(7) by (auto simp: head_text_def)
  have "feed_all (spec_feed False) ps actx0 = Inr (http_success, a', [])"
    using a(1) ne assms(8,10) by (intro feed_all_split) (simp_all add: t assms(7))
  moreover have "length (a_text actx0) + length (concat ps) < MAX_LEN" using assms(9) by (simp add: t assms(7))
  ultimately obtain st2 where f: "feed_all (feed_packet nid) ps st1 = Inr (http_success, st2, [])"
      "parser_rel nid False st2 a'" using pp.feed_all_ok [OF n(2)] by blast
  then obtain ctx req where c: "ps_nodes st2 nid = Some ctx" "ctx_rep (ps_mem st2) ctx req a'"
    by (auto simp: parser_rel_def)
  then have "wait_state ctx = http_parse_end \<and> http_request ctx = Some req \<and>
      request_matches (ps_mem st2) req meth path ver hs body"
    using a by (auto simp: ctx_rep_def req_rep_def request_matches_def)
  with n(1) f(1) c(1) show ?thesis by blast
qed

lemma count_LF_sample: "is_int64 d \<Longrightarrow> count_list (sample_head d) LF = 4"
proof -
  have "LF \<notin> set (dec_int d)" using dec_int_chars [of LF d] by (auto simp: c_isdigit_def)
  then have "count_list (dec_int d) LF = 0" by (simp add: count_notin)
  then show ?thesis by (simp add: head_text_def sample_hs_def header_line_text_def)
qed

lemma segmented_request_parsed_witness:
  "\<exists>nid st1 st2 ctx req. http_parse_ctx_new empty_state = Inr (http_success, Some nid, st1) \<and>
     feed_all (feed_packet nid) [take 7 (sample_head 2), drop 7 (sample_head 2) @ ''o'', ''k''] st1 =
       Inr (http_success, st2, []) \<and>
     ps_nodes st2 nid = Some ctx \<and> wait_state ctx = http_parse_end \<and> http_request ctx = Some req \<and>
     request_matches (ps_mem st2) req ''POST'' ''/x'' ''HTTP/1.1'' (sample_hs 2) ''ok''"
proof (rule segmented_request_parsed)
  have l: "length (sample_head 2) \<le> 100" by (rule length_sample) (simp add: is_int32_def)
  show "outcome_of (announced_body (sample_hs 2)) (length (sample_head 2)) ''ok'' = Complete ''ok''"
    using l by (simp add: announced_sample is_int64_def)
  show "length (sample_head 2 @ ''ok'') < MAX_LEN" using l by simp
  show "concat [take 7 (sample_head 2), drop 7 (sample_head 2) @ ''o'', ''k''] = sample_head 2 @ ''ok''"
    by (simp add: append_assoc [symmetric] del: append_assoc)
  show "count_list (sample_head 2 @ ''ok'') LF < 99" by (simp add: count_LF_sample is_int64_def)
qed (simp_all add: wf_sample sample_facts)

section \<open>The views of the headers\<close>

text \<open>A view into a block that is gone.\<close>

lemma dead_view:
  "sv_data v = Ptr (Heap k) i \<Longrightarrow> 0 < sv_len v \<Longrightarrow> blocks m (Heap k) = None \<Longrightarrow> view_bytes m v = Inl Dangling"
  by (simp add: view_bytes_def load_bytes_def)

text \<open>
  C21: The views that a request's headers hold point into the text of the context, and the next
  packet moves that text: after one more feed, whatever it returns, every non-empty view into
  the old text dangles, so that a request that arrives in pieces is handed out with headers
  that must not be read.
\<close>

theorem next_packet_kills_header_views:
  assumes "parser_rel nid nd st a" and "length (a_text a) + length bs < MAX_LEN"
    and "ps_nodes st nid = Some ctx" and "str_data (post ctx) = Ptr (Heap k) i"
    and "feed_packet nid bs st = Inr (herr, st')"
    and "sv_data v = Ptr (Heap k) j" and "0 < sv_len v"
  shows "view_bytes (ps_mem st') v = Inl Dangling"
proof -
  obtain req where r: "ctx_rep (ps_mem st) ctx req a" "ctx_inv a" "always_avail (ps_mem st)" "ndebug (ps_mem st) = nd"
    using assms(1,3) by (auto simp: parser_rel_def)
  have v: "view_bytes (ps_mem st) (packet_of bs) = Inr bs" by (simp add: packet_of_def)
  have ap: "view_apart (packet_of bs) (post ctx)" using r(1) by (auto simp: packet_of_def ctx_rep_def)
  from http_parse_feed_refines [OF r(1) assms(3) r(2,3) v ap assms(2)] assms(4,5)
  have "blocks (ps_mem st') (Heap k) = None"
    by (auto simp: feed_packet_def bnd_eq_Inr_iff split: sum.splits prod.splits)
  with assms(6,7) show ?thesis by (rule dead_view)
qed

lemma spec_feed_no_line:
  "find_crlf bs = None \<Longrightarrow> find_crlf (a_text a @ bs) = None \<Longrightarrow> a_state a \<in> {http_parse_start, http_parse_wait_req} \<Longrightarrow>
     a_next a = 0 \<Longrightarrow> spec_feed nd bs a =
       Inr (http_err_parse_cannot_find_clrf, a\<lparr>a_text := a_text a @ bs, a_state := http_parse_wait_req\<rparr>)"
  by (auto simp: spec_feed_def feed_fuel_def spec_block_def spec_wait_req_def spec_line_def numeral_eq_Suc)

lemma next_packet_kills_header_views_witness:
  "\<exists>nid st ctx k st'. ps_nodes st nid = Some ctx \<and> str_data (post ctx) = Ptr (Heap k) 0 \<and>
     view_bytes (ps_mem st) \<lparr>sv_data = Ptr (Heap k) 0, sv_len = 3\<rparr> = Inr ''GET'' \<and>
     feed_packet nid '' /'' st = Inr (http_err_parse_cannot_find_clrf, st') \<and>
     view_bytes (ps_mem st') \<lparr>sv_data = Ptr (Heap k) 0, sv_len = 3\<rparr> = Inl Dangling"
proof -
  let ?v = "\<lambda>k. \<lparr>sv_data = Ptr (Heap k) 0, sv_len = 3\<rparr>"
  have v0: "view_bytes (ps_mem empty_state) (packet_of ''GET'') = Inr ''GET''" by (rule sample_facts(3))
  obtain nid st1 ctx req where n: "http_parse_ctx_new empty_state = Inr (http_success, Some nid, st1)"
      "ps_nodes st1 nid = Some ctx" "ctx_rep (ps_mem st1) ctx req actx0"
      "always_avail (ps_mem st1)" "ndebug (ps_mem st1) = ndebug (ps_mem empty_state)"
      "view_bytes (ps_mem st1) (packet_of ''GET'') = Inr ''GET''" "view_apart (packet_of ''GET'') (post ctx)"
    by (rule fresh_context [OF empty_state_simps(1,2) v0])
  have len: "length (a_text actx0) + length ''GET'' < MAX_LEN" by (simp add: actx0_def)
  let ?a = "actx0\<lparr>a_text := ''GET'', a_state := http_parse_wait_req\<rparr>"
  have f: "spec_feed (ndebug (ps_mem st1)) ''GET'' actx0 = Inr (http_err_parse_cannot_find_clrf, ?a)"
    by (subst spec_feed_no_line) (simp_all add: actx0_def)
  from http_parse_feed_refines [OF n(3,2) ctx_inv_actx0 n(4,6,7) len] f obtain ctx' req' m' where
    g: "run_rep (Heap (brk (ps_mem st1))) (length (a_headers actx0)) m' ctx' req' ?a"
      "frame (feed_frame ctx req) (ps_mem st1) m'" by auto
  let ?st = "st1\<lparr>ps_mem := m', ps_nodes := (ps_nodes st1)(nid := Some ctx')\<rparr>" and ?k = "brk (ps_mem st1)"
  have d: "str_data (post ctx') = Ptr (Heap ?k) 0" and rp: "str_rep m' (post ctx') ''GET''"
    using g(1) by (simp_all add: run_rep_def ctx_rep_def)
  have "ctx_inv ?a" by (simp add: ctx_inv_def spec_inv_def actx0_def)
  then have rel: "parser_rel nid False ?st ?a"
    using g n(4,5) frame_env(3) [OF g(2)]
    by (auto simp: parser_rel_def run_rep_def intro: always_avail_frame)
  have live: "view_bytes m' (?v ?k) = Inr ''GET''"
    using view_from_string [OF rp] d
    by (auto simp: string_view_from_string_def string_view_from_parts_def string_cstr_def view_bytes_def
        string_len_def Let_def numeral_eq_Suc split: if_splits)
  have l2: "length (a_text ?a) + length '' /'' < MAX_LEN" by simp
  have "spec_feed False '' /'' ?a = Inr (http_err_parse_cannot_find_clrf, ?a\<lparr>a_text := ''GET /''\<rparr>)"
    by (subst spec_feed_no_line) (simp_all add: actx0_def)
  with feed_packet_refines [OF rel l2] obtain st' where
    st': "feed_packet nid '' /'' ?st = Inr (http_err_parse_cannot_find_clrf, st')" by auto
  have "ps_nodes ?st nid = Some ctx'" by simp
  from next_packet_kills_header_views [OF rel l2 this d st', of "?v ?k" 0]
  have "view_bytes (ps_mem st') (?v ?k) = Inl Dangling" by simp
  with d live st' show ?thesis
    by (intro exI [of _ nid] exI [of _ ?st] exI [of _ ctx'] exI [of _ ?k] exI [of _ st']) simp
qed

section \<open>Handing a request out\<close>

text \<open>
  C22: Popping a finished request hands its object out and releases the node with its text:
  views of the request's headers into that text dangle from then on, and feeding the node
  again - which is what a caller does that keeps its tail pointer - is a use after free.
\<close>

theorem pop_releases_node:
  assumes "ctx_rep (ps_mem st) ctx req a" and "ps_nodes st nid = Some ctx"
    and "a_state a = http_parse_end" and "str_data (post ctx) = Ptr (Heap k) i"
  shows "\<exists>st'. http_parse_pop_request_and_release (Some nid) st = Inr (True, Some req, None, st') \<and>
     ps_nodes st' nid = None \<and> (\<forall>packet. http_parse_feed (Some nid) packet st' = Inl Dangling) \<and>
     (\<forall>j n. 0 < n \<longrightarrow> view_bytes (ps_mem st') \<lparr>sv_data = Ptr (Heap k) j, sv_len = n\<rparr> = Inl Dangling) \<and>
     str_rep (ps_mem st') (req_path req) (a_path a) \<and> str_rep (ps_mem st') (req_body req) (a_body a)"
proof -
  have r: "str_rep (ps_mem st) (post ctx) (a_text a)" "wait_state ctx = http_parse_end" "http_request ctx = Some req"
      "next_ctx ctx = None" "req_rep (ps_mem st) req a" "wf_mem (ps_mem st)"
      "footprint (post ctx) \<inter> (footprint (req_path req) \<union> footprint (req_body req)) = {}"
    using assms(1,3) by (simp_all add: ctx_rep_def)
  let ?m = "(ps_mem st)\<lparr>blocks := (blocks (ps_mem st))(Heap k := None)\<rparr>"
  let ?m' = "drop_buf (str_buf (post ctx)) ?m"
  let ?st = "\<lparr>ps_mem = ?m', ps_nodes = (ps_nodes st)(nid := None)\<rparr>"
  have d: "string_destroy (post ctx) (ps_mem st) = Inr ?m"
    using string_destroy_frees [OF r(1)] assms(4) by simp
  have p: "http_parse_pop_request_and_release (Some nid) st = Inr (True, Some req, None, ?st)"
    using assms(2) r(2-4) d
    by (simp add: http_parse_pop_request_and_release_def http_parse_ctx_free_node_def http_request_free_def Let_def)
  have fr: "frame (footprint (post ctx)) (ps_mem st) ?m'"
    using r(6) assms(4) by (auto simp: frame_def wf_mem_def drop_buf_def footprint_def)
  have "str_rep ?m' (req_path req) (a_path a)" "str_rep ?m' (req_body req) (a_body a)"
    using r(5,7) fr by (auto simp: req_rep_def intro: str_rep_frame)
  moreover have "blocks ?m' (Heap k) = None" by (simp add: drop_buf_def)
  ultimately show ?thesis using p
    by (intro exI [of _ ?st]) (simp add: http_parse_feed_def dead_view)
qed

text \<open>A context that has parsed a request without headers, for examples.\<close>

lemma parsed_get:
  assumes p: "SP \<notin> set path" "CR \<notin> set path" and short: "length path < 100"
  shows "\<exists>(st::pstate) nid ctx req a k. ctx_rep (ps_mem st) ctx req a \<and> ps_nodes st nid = Some ctx \<and>
     a_state a = http_parse_end \<and> a_path a = path \<and> str_data (post ctx) = Ptr (Heap k) 0"
proof -
  let ?bs = "head_text ''GET'' path ''HTTP/1.1'' [] @ []"
  have w: "wf_head ''GET'' path ''HTTP/1.1'' []" using p by (simp add: wf_head_def)
  have len: "length ?bs < MAX_LEN" using short by (simp add: head_text_def)
  have n0: "length ([] :: header_text list) < 99" by simp
  have oc: "outcome_of (announced_body []) (length (head_text ''GET'' path ''HTTP/1.1'' [])) [] = Complete []"
    by (simp add: announced_body_def)
  from spec_feed_outcome [OF w n0 len] oc obtain a' where
    a: "spec_feed (ndebug (ps_mem empty_state)) ?bs actx0 = Inr (http_success, a')" "a_state a' = http_parse_end"
      "a_path a' = path"
    by (auto simp: has_outcome_def head_ctx_def Let_def)
  obtain nid st1 where "case spec_feed (ndebug (ps_mem empty_state)) ?bs actx0 of
        Inl e \<Rightarrow> http_parse_feed (Some nid) (packet_of ?bs) st1 = Inl e
      | Inr (herr, a') \<Rightarrow> \<exists>st2 ctx req B. http_parse_feed (Some nid) (packet_of ?bs) st1 = Inr (herr, Some nid, st2) \<and>
          ps_nodes st2 nid = Some ctx \<and> wait_state ctx = a_state a' \<and> http_request ctx = Some req \<and>
          run_rep B 0 (ps_mem st2) ctx req a'"
    by (rule fresh_feed [OF empty_state_simps(1,2) sample_facts(3) len])
  with a show ?thesis by (fastforce simp: run_rep_def)
qed

lemma pop_releases_node_witness:
  "\<exists>st nid req st'. http_parse_pop_request_and_release (Some nid) st = Inr (True, Some req, None, st') \<and>
     ps_nodes st' nid = None \<and> http_parse_feed (Some nid) (packet_of ''GET'') st' = Inl Dangling"
proof -
  obtain st :: pstate and nid ctx req a k where r: "ctx_rep (ps_mem st) ctx req a" "ps_nodes st nid = Some ctx"
      "a_state a = http_parse_end" "str_data (post ctx) = Ptr (Heap k) 0"
    using parsed_get [of "''/''"] by auto
  from pop_releases_node [OF r] show ?thesis by blast
qed

section \<open>Releasing a parser\<close>

text \<open>
  Destroying a context that was never popped releases its node and its text; the path and
  the body of its request are not destroyed, so a path of 16 or more bytes stays allocated for
  ever.
\<close>

theorem destroy_chain_leaks_path:
  assumes "ctx_rep (ps_mem st) ctx req a" and "ps_nodes st nid = Some ctx"
    and "str_data (req_path req) = Ptr (Heap k) i"
  shows "\<exists>st'. http_parse_ctx_destroy_chain 1 (Some nid) st = Inr st' \<and> ps_nodes st' nid = None \<and>
     blocks (ps_mem st') (Heap k) = blocks (ps_mem st) (Heap k) \<and> blocks (ps_mem st') (Heap k) \<noteq> None"
proof -
  have r: "str_rep (ps_mem st) (post ctx) (a_text a)" "http_request ctx = Some req" "next_ctx ctx = None"
      "str_rep (ps_mem st) (req_path req) (a_path a)"
      "footprint (post ctx) \<inter> (footprint (req_path req) \<union> footprint (req_body req)) = {}"
    using assms(1) by (simp_all add: ctx_rep_def req_rep_def)
  have in_fp: "Heap k \<in> footprint (req_path req)" using assms(3) by (simp add: footprint_def)
  then have live: "blocks (ps_mem st) (Heap k) \<noteq> None" using str_rep_footprint_used [OF r(4)] by simp
  have ne: "str_data (post ctx) \<noteq> Ptr (Heap k) j" for j
    using in_fp r(5) by (auto simp: footprint_def)
  let ?m = "http_request_free (Some req) (ps_mem st)"
  have keep: "blocks ?m (Heap j) = blocks (ps_mem st) (Heap j)" for j
    by (simp add: http_request_free_def drop_buf_def)
  obtain m' where d: "string_destroy (post ctx) ?m = Inr m'" "blocks m' (Heap k) = blocks (ps_mem st) (Heap k)"
  proof (cases "\<exists>j i. str_data (post ctx) = Ptr (Heap j) i")
    case True
    then obtain j l where j: "str_data (post ctx) = Ptr (Heap j) l" by blast
    have l: "l = 0" "blocks (ps_mem st) (Heap j) \<noteq> None" using r(1) j by (auto elim!: str_rep.cases)
    have "j \<noteq> k" using ne j by auto
    then show ?thesis using j l keep [of j] keep [of k] r(1)
      by (intro that [of "?m\<lparr>blocks := (blocks ?m)(Heap j := None)\<rparr>"])
        (auto simp: string_destroy_def mfree_def elim!: str_rep.cases)
  next
    case False
    then show ?thesis using r(1) keep [of k]
      by (intro that [of ?m]) (auto simp: string_destroy_def mfree_def elim!: str_rep.cases)
  qed
  then show ?thesis using assms(2) r(2,3) live
    by (simp add: http_parse_ctx_free_node_def drop_buf_def)
qed

lemma destroy_chain_leaks_path_witness:
  "\<exists>st nid st' k. http_parse_ctx_destroy_chain 1 (Some nid) st = Inr st' \<and> ps_nodes st' nid = None \<and>
     blocks (ps_mem st') (Heap k) \<noteq> None"
proof -
  obtain st :: pstate and nid ctx req a where r: "ctx_rep (ps_mem st) ctx req a" "ps_nodes st nid = Some ctx"
      "a_path a = ''/0123456789abcdef''"
    using parsed_get [of "''/0123456789abcdef''"] by auto
  have "str_rep (ps_mem st) (req_path req) ''/0123456789abcdef''"
    using r(1,3) by (simp add: ctx_rep_def req_rep_def)
  then obtain k where "str_data (req_path req) = Ptr (Heap k) 0"
  proof cases
    case (small b bs n)
    then have "length ''/0123456789abcdef'' = length (take (n - Suc 0) bs)" by (simp only:)
    also have "\<dots> \<le> 15" using small by simp
    finally show ?thesis by simp
  qed (auto intro: that)
  from destroy_chain_leaks_path [OF r(1,2) this] show ?thesis by blast
qed

end
