(* ===== verification/Configure.thy ===== *)
theory Configure
  imports Os StringProps
begin

text \<open>
  \<^verbatim>\<open>core/configure.c\<close>: the configuration the server runs with, read from the tables of a
  TOML file, and the wrappers around the thread pool. The file's tables are a parameter: what
  the TOML library answers to a lookup. A string it hands out is a block of the allocator that
  holds the text and a NUL.
\<close>

section \<open>The tables\<close>

record toml_table =
  tab_bool :: "string \<Rightarrow> bool option"
  tab_string :: "string \<Rightarrow> char list option"
  tab_int :: "string \<Rightarrow> int option"

type_synonym toml = "string \<Rightarrow> toml_table option"

definition toml_new_string :: "char list \<Rightarrow> mem \<Rightarrow> ptr \<times> mem" where
  "toml_new_string cs m =
     (Ptr (Heap (brk m)) 0, m\<lparr>blocks := (blocks m)(Heap (brk m) := Some (cs @ [NUL])), brk := Suc (brk m)\<rparr>)"

section \<open>The configuration\<close>

text \<open>The three static structs of the source.\<close>

record config =
  log_async :: bool
  log_file :: string_t
  server_host :: string_t
  server_port :: int
  server_base_dir :: string_t
  core_handle_threads :: int
  core_listen_que :: int
  core_max_events :: int

text \<open>Zero, as static storage starts; the three strings own one small buffer each.\<close>

definition config_zero :: "mem \<Rightarrow> config \<times> mem" where
  "config_zero m =
     (case new_buf STR_SMALL_BUF_SIZE m of (b1, m) \<Rightarrow>
      case new_buf STR_SMALL_BUF_SIZE m of (b2, m) \<Rightarrow>
      case new_buf STR_SMALL_BUF_SIZE m of (b3, m) \<Rightarrow>
        let z = \<lambda>b. \<lparr>str_buf = b, str_data = NULL, str_size = 0, str_cap = 0\<rparr> in
        (\<lparr>log_async = False, log_file = z b1, server_host = z b2, server_port = 0, server_base_dir = z b3,
          core_handle_threads = 0, core_listen_que = 0, core_max_events = 0\<rparr>, m))"

definition DEFAULT_HOST :: string where "DEFAULT_HOST = ''127.0.0.1''"
definition DEFAULT_PORT :: int where "DEFAULT_PORT = 2233"

text \<open>The file is opened, parsed and closed; a null pointer is the answer 0.\<close>

definition parse_config_file :: "string \<Rightarrow> os \<Rightarrow> http_err_t \<times> bool \<times> os" where
  "parse_config_file filename w =
     (case os_call (Fopen filename) w of (r, w) \<Rightarrow>
        if r_val r = 0 then (http_err_path, False, w)
        else case os_call Toml_parse w of (r, w) \<Rightarrow>
          let w = os_do Fclose w in
          if r_val r = 0 then (http_err_config, False, w) else (http_success, True, w))"

definition release_config_file :: "os \<Rightarrow> os" where
  "release_config_file w = os_do Toml_free (os_do Logger_close w)"

text \<open>The logger library gets its defaults, except for what the table sets.\<close>

definition config_log :: "toml \<Rightarrow> config \<Rightarrow> mem \<Rightarrow> os \<Rightarrow> http_err_t \<times> config \<times> mem \<times> os" where
  "config_log toml cfg m w =
     (case toml ''logger'' of
        None \<Rightarrow> (http_err_unset_use_default, cfg, m, os_do (Logger_init None None) w)
      | Some table \<Rightarrow>
          let cfg = (case tab_bool table ''async'' of
                       Some b \<Rightarrow> cfg\<lparr>log_async := b\<rparr> | None \<Rightarrow> cfg) in
          (case tab_string table ''log_file'' of
             None \<Rightarrow> (http_success, cfg, m, os_do (Logger_init (tab_bool table ''async'') None) w)
           | Some cs \<Rightarrow>
               (case toml_new_string cs m of (p, m) \<Rightarrow>
                let cfg = cfg\<lparr>log_file := string_take_ownership (log_file cfg) p (length cs)\<rparr> in
                (http_success, cfg, m,
                 os_do (Logger_init (tab_bool table ''async'') (Some (string_cstr (log_file cfg)))) w))))"

definition config_server :: "toml \<Rightarrow> config \<Rightarrow> mem \<Rightarrow> os \<Rightarrow> (http_err_t \<times> config \<times> mem \<times> os) res" where
  "config_server toml cfg m w =
     (case toml ''server'' of
        None \<Rightarrow> Inr (http_err_unset_fatal, cfg, m, log_http_message HTTP_UNSET_SERVER w)
      | Some table \<Rightarrow>
          bnd (case tab_string table ''host'' of
                 None \<Rightarrow>
                   bnd (string_init_from_cstr (server_host cfg) (lit DEFAULT_HOST) m) (\<lambda>(_, h, m).
                   Inr (http_err_unset_use_default, cfg\<lparr>server_host := h\<rparr>, m,
                        log_http_message HTTP_UNSET_HOST w))
               | Some cs \<Rightarrow>
                   (case toml_new_string cs m of (p, m) \<Rightarrow>
                    Inr (http_success,
                         cfg\<lparr>server_host := string_take_ownership (server_host cfg) p (length cs)\<rparr>, m, w)))
              (\<lambda>(herr, cfg, m, w).
          case (case tab_int table ''port'' of
                  None \<Rightarrow> (http_err_unset_use_default, cfg\<lparr>server_port := DEFAULT_PORT\<rparr>,
                           log_http_message HTTP_UNSET_PORT w)
                | Some i \<Rightarrow> (herr, cfg\<lparr>server_port := int64_to_int i\<rparr>, w)) of
            (herr, cfg, w) \<Rightarrow>
          (case tab_string table ''base_dir'' of
             None \<Rightarrow> Inr (http_err_unset_fatal, cfg, m, log_http_message HTTP_UNSET_BASE_DIR w)
           | Some cs \<Rightarrow>
               (case toml_new_string cs m of (p, m) \<Rightarrow>
                Inr (herr, cfg\<lparr>server_base_dir := string_take_ownership (server_base_dir cfg) p (length cs)\<rparr>, m, w)))))"

text \<open>A number of the core table, or its default.\<close>

definition core_int ::
  "toml_table \<Rightarrow> string \<Rightarrow> int \<Rightarrow> http_message_t \<Rightarrow> http_err_t \<Rightarrow> os \<Rightarrow> int \<times> http_err_t \<times> os" where
  "core_int table key def_val msg herr w =
     (case tab_int table key of
        None \<Rightarrow> (def_val, http_err_unset_use_default, log_http_message msg w)
      | Some i \<Rightarrow> (int64_to_int i, herr, w))"

text \<open>The third lookup asks for \<^verbatim>\<open>listen_que\<close> again.\<close>

definition config_core :: "toml \<Rightarrow> config \<Rightarrow> os \<Rightarrow> http_err_t \<times> config \<times> os" where
  "config_core toml cfg w =
     (case toml ''core'' of
        None \<Rightarrow> (http_err_unset_fatal, cfg, w)
      | Some table \<Rightarrow>
          case core_int table ''handle_threads'' 4 HTTP_UNSET_HANDLE_THREADS http_success w of (ht, herr, w) \<Rightarrow>
          case core_int table ''listen_que'' 10 HTTP_UNSET_LISTEN_QUE herr w of (lq, herr, w) \<Rightarrow>
          case core_int table ''listen_que'' 100 HTTP_UNSET_MAX_EVENT herr w of (me, herr, w) \<Rightarrow>
            (herr, cfg\<lparr>core_handle_threads := ht, core_listen_que := lq, core_max_events := me\<rparr>, w))"

definition config_get_port :: "config \<Rightarrow> int" where
  "config_get_port cfg = server_port cfg"

definition get_host :: "config \<Rightarrow> string_view_t" where
  "get_host cfg = string_view_from_string (server_host cfg)"

definition get_base_dir :: "config \<Rightarrow> string_view_t" where
  "get_base_dir cfg = string_view_from_string (server_base_dir cfg)"

definition config_get_handle_threads :: "config \<Rightarrow> int" where
  "config_get_handle_threads cfg = core_handle_threads cfg"

definition config_get_max_events :: "config \<Rightarrow> int" where
  "config_get_max_events cfg = core_max_events cfg"

definition config_get_listen_que :: "config \<Rightarrow> int" where
  "config_get_listen_que cfg = core_listen_que cfg"

section \<open>The thread pool\<close>

definition thdpool_initial :: "config \<Rightarrow> os \<Rightarrow> http_err_t \<times> os" where
  "thdpool_initial cfg w =
     (case os_call (Thdpool_create (config_get_handle_threads cfg)) w of (r, w) \<Rightarrow>
        if r_val r \<noteq> 0 then (http_err_thd_pool_ini, log_http_message HTTP_THD_POOL_INI_ERR w)
        else (http_success, w))"

text \<open>The error codes of the threads, one log message for each that is not zero.\<close>

fun log_thread_errors :: "int list \<Rightarrow> os \<Rightarrow> os" where
  "log_thread_errors [] w = w"
| "log_thread_errors (e # es) w =
     log_thread_errors es (if e \<noteq> 0 then log_http_message HTTP_THD_POOL_THD_FN_ERR w else w)"

definition thdpool_release :: "os \<Rightarrow> http_err_t \<times> os" where
  "thdpool_release w =
     (case os_call Thdpool_destroy w of (r, w) \<Rightarrow>
        if r_val r = 0 then (http_success, w)
        else if r_val r > 0 then (http_err_thd_pool_destroy, log_http_message HTTP_THD_POOL_DESTROY_ERR w)
        else (http_err_thd_pool_thd_fn, log_thread_errors (r_nums r) w))"

definition thdpool_addjob :: "os \<Rightarrow> http_err_t \<times> os" where
  "thdpool_addjob w =
     (case os_call Thdpool_add_job w of (r, w) \<Rightarrow>
        if r_val r \<noteq> 0 then (http_err_thd_pool_add_job, log_http_message HTTP_THD_POOL_ADD_JOB_ERR w)
        else (http_success, w))"

section \<open>What the configuration ends up with\<close>

text \<open>A string taken over from the TOML library holds the text.\<close>

lemma take_ownership_rep:
  assumes wf: "wf_mem m" and sb: "has_sbuf m (str_buf s)" and len: "length cs < MAX_LEN"
    and n: "toml_new_string cs m = (p, m')"
  shows "str_rep m' (string_take_ownership s p (length cs)) cs" and "frame {} m m'" and "brk m' = Suc (brk m)"
proof -
  let ?m = "m\<lparr>blocks := (blocks m)(Heap (brk m) := Some (cs @ [NUL])), brk := Suc (brk m)\<rparr>"
  have e: "p = Ptr (Heap (brk m)) 0" "m' = ?m" using n by (simp_all add: toml_new_string_def)
  have f: "frame {} m ?m" using wf by (intro frame_alloc) auto
  have "has_sbuf ?m (str_buf s)" using sb f by (rule has_sbuf_frame) simp
  then have "str_rep ?m \<lparr>str_buf = str_buf s, str_data = Ptr (Heap (brk m)) 0,
      str_size = Suc (length cs), str_cap = Suc (length cs)\<rparr> (take (Suc (length cs) - Suc 0) (cs @ [NUL]))"
    by (intro str_rep.heap) (auto simp: terminated_def)
  moreover have "string_take_ownership s p (length cs) = \<lparr>str_buf = str_buf s, str_data = Ptr (Heap (brk m)) 0,
      str_size = Suc (length cs), str_cap = Suc (length cs)\<rparr>"
    using e(1) len by (cases s) (simp add: string_take_ownership_def Let_def)
  ultimately show "str_rep m' (string_take_ownership s p (length cs)) cs" using e(2) by simp
  show "frame {} m m'" "brk m' = Suc (brk m)" using f e(2) by simp_all
qed

lemma take_ownership_buf [simp]: "str_buf (string_take_ownership s p n) = str_buf s"
  by (simp add: string_take_ownership_def Let_def)

text \<open>
  The size of the event array is the length of the listen queue: with a core table that
  sets \<open>listen_que\<close>, the value of \<open>max_events\<close> in the file - any value, or
  none - has no effect.
\<close>

theorem max_events_is_listen_que:
  assumes "toml ''core'' = Some table" and "tab_int table ''listen_que'' = Some q"
  shows "\<exists>herr cfg' w'. config_core toml cfg w = (herr, cfg', w') \<and>
     config_get_listen_que cfg' = int64_to_int q \<and> config_get_max_events cfg' = int64_to_int q \<and>
     config_get_handle_threads cfg' =
       (case tab_int table ''handle_threads'' of Some n \<Rightarrow> int64_to_int n | None \<Rightarrow> 4)"
  using assms
  by (simp add: config_core_def core_int_def config_get_listen_que_def config_get_max_events_def
      config_get_handle_threads_def split: option.split)

definition sample_table :: toml_table where
  "sample_table = \<lparr>tab_bool = (\<lambda>_. None),
     tab_string = [''base_dir'' \<mapsto> ''./res''],
     tab_int = [''listen_que'' \<mapsto> 10, ''max_events'' \<mapsto> 1000, ''port'' \<mapsto> 2323]\<rparr>"

definition sample_os :: os where
  "sample_os = \<lparr>os_replies = (\<lambda>_. \<lparr>r_val = 0, r_errno = 0, r_data = [], r_nums = [], r_refs = []\<rparr>), os_trace = []\<rparr>"

lemma max_events_is_listen_que_witness:
  "\<exists>herr cfg' w'. config_core [''core'' \<mapsto> sample_table] (fst (config_zero empty_mem)) sample_os =
       (herr, cfg', w') \<and> tab_int sample_table ''max_events'' = Some 1000 \<and> config_get_max_events cfg' = 10"
proof -
  have q: "tab_int sample_table ''listen_que'' = Some 10" by (simp add: sample_table_def)
  have "[''core'' \<mapsto> sample_table] ''core'' = Some sample_table" by simp
  from max_events_is_listen_que [of "[''core'' \<mapsto> sample_table]", OF this q, of "fst (config_zero empty_mem)" sample_os]
  obtain herr cfg' w' where "config_core [''core'' \<mapsto> sample_table] (fst (config_zero empty_mem)) sample_os =
      (herr, cfg', w')" "config_get_max_events cfg' = int64_to_int 10" by blast
  moreover have "tab_int sample_table ''max_events'' = Some 1000" by (simp add: sample_table_def)
  ultimately show ?thesis by (simp add: int64_to_int_def)
qed

text \<open>What the server table asks for, with the defaults filled in.\<close>

definition server_result :: "toml_table \<Rightarrow> http_err_t" where
  "server_result t =
     (if tab_string t ''base_dir'' = None then http_err_unset_fatal
      else if tab_string t ''host'' = None \<or> tab_int t ''port'' = None then http_err_unset_use_default
      else http_success)"

definition server_host_text :: "toml_table \<Rightarrow> char list" where
  "server_host_text t = (case tab_string t ''host'' of Some cs \<Rightarrow> cs | None \<Rightarrow> DEFAULT_HOST)"

definition server_port_of :: "toml_table \<Rightarrow> int" where
  "server_port_of t = (case tab_int t ''port'' of Some i \<Rightarrow> int64_to_int i | None \<Rightarrow> DEFAULT_PORT)"

lemma config_host:
  assumes wf: "wf_mem m" and sb: "has_sbuf m (str_buf (server_host cfg))"
    and len: "length (server_host_text t) < MAX_LEN"
  obtains h m1 w1 where "(case tab_string t ''host'' of
      None \<Rightarrow> bnd (string_init_from_cstr (server_host cfg) (lit DEFAULT_HOST) m) (\<lambda>(_, h, m).
          Inr (http_err_unset_use_default, cfg\<lparr>server_host := h\<rparr>, m, log_http_message HTTP_UNSET_HOST w))
    | Some cs \<Rightarrow> (case toml_new_string cs m of (p, m) \<Rightarrow>
          Inr (http_success, cfg\<lparr>server_host := string_take_ownership (server_host cfg) p (length cs)\<rparr>, m, w))) =
      Inr (if tab_string t ''host'' = None then http_err_unset_use_default else http_success,
           cfg\<lparr>server_host := h\<rparr>, m1, w1)"
    and "str_rep m1 h (server_host_text t)" and "frame {Buf (str_buf (server_host cfg))} m m1"
    and "footprint h \<subseteq> {Buf (str_buf (server_host cfg)), Heap (brk m)}"
proof (cases "tab_string t ''host''")
  case None
  have n: "NUL \<notin> set DEFAULT_HOST" "length DEFAULT_HOST = 9" by (simp_all add: DEFAULT_HOST_def)
  obtain h m1 where h: "string_init_from_string_view (server_host cfg)
      \<lparr>sv_data = lit DEFAULT_HOST, sv_len = length DEFAULT_HOST\<rparr> m = Inr (True, h, m1)"
      "str_rep m1 h DEFAULT_HOST" "frame {Buf (str_buf (server_host cfg))} m m1"
      "footprint h \<subseteq> {Buf (str_buf (server_host cfg)), Heap (brk m)}"
    using string_init_from_string_view_ok [OF wf sb view_bytes_lit, of DEFAULT_HOST] n by auto
  then have "string_init_from_cstr (server_host cfg) (lit DEFAULT_HOST) m = Inr (True, h, m1)"
    using n by (simp add: string_init_from_cstr_def string_view_from_cstr_lit)
  with None h that show ?thesis by (simp add: server_host_text_def)
next
  case (Some cs)
  obtain p m1 where n: "toml_new_string cs m = (p, m1)" by force
  have l: "length cs < MAX_LEN" using len Some by (simp add: server_host_text_def)
  have "footprint (string_take_ownership (server_host cfg) p (length cs)) \<subseteq> {Buf (str_buf (server_host cfg)), Heap (brk m)}"
    using n by (auto simp: footprint_def string_take_ownership_def toml_new_string_def Let_def)
  moreover have "frame {Buf (str_buf (server_host cfg))} m m1"
    using take_ownership_rep(2) [OF wf sb l n] by (rule frame_mono) simp
  ultimately show ?thesis
    using that Some n take_ownership_rep(1) [OF wf sb l n] by (simp add: server_host_text_def)
qed



end
