(* ===== verification/SocketUtil.thy ===== *)
theory SocketUtil
  imports Configure ResourceCache HttpRequest
begin

text \<open>
  \<^verbatim>\<open>core/socket_util.c\<close>: socket options, the text of an address, the data an event carries,
  and the path of a file below the base directory.
\<close>

section \<open>Descriptors\<close>

definition setnoblocking :: "fd_t \<Rightarrow> os \<Rightarrow> http_err_t \<times> os" where
  "setnoblocking fd w =
     (case os_call (Fcntl_getfl fd) w of (r, w) \<Rightarrow>
        if r_val r < 0 then (http_err_fcntl_f_getfl, log_http_message HTTP_FCNTL_F_GETFL_ERR w)
        else
          let flag = or (r_val r) O_NONBLOCK in
          case os_call (Fcntl_setfl fd flag) w of (r, w) \<Rightarrow>
            if r_val r < 0 then (http_err_fcntl_f_setfl, log_http_message HTTP_FCNTL_F_SETFL_ERR w)
            else (http_success, w))"

section \<open>Addresses\<close>

text \<open>An IPv4 address is four bytes; \<^verbatim>\<open>inet_ntop\<close> prints them in decimal.\<close>

type_synonym in_addr = "nat list"

fun inet_ntop :: "in_addr \<Rightarrow> string" where
  "inet_ntop [] = []"
| "inet_ntop [b] = dec_nat (b mod 256)"
| "inet_ntop (b # bs) = dec_nat (b mod 256) @ ''.'' @ inet_ntop bs"

definition INET_ADDRSTRLEN :: nat where "INET_ADDRSTRLEN = 16"

definition ipv4_net2str :: "string_t \<Rightarrow> in_addr \<Rightarrow> mem \<Rightarrow> (string_t \<times> mem) res" where
  "ipv4_net2str s addr m =
     (case new_buf INET_ADDRSTRLEN m of (b, m) \<Rightarrow>
      bnd (store_bytes m (Ptr (Buf b) 0) (inet_ntop (take 4 addr) @ [NUL])) (\<lambda>m.
      bnd (string_init_from_cstr s (Ptr (Buf b) 0) m) (\<lambda>(_, s, m).
      Inr (s, drop_buf b m))))"

section \<open>The data of an event\<close>

record epoll_usrdata_t =
  eu_fd :: fd_t
  eu_ip :: string_t
  eu_port :: int

record fn_args_t =
  fa_epoll_fd :: fd_t
  fa_usrdata :: nat
  fa_pherr :: bool     \<comment> \<open>whether \<^verbatim>\<open>pherr\<close> is set\<close>

text \<open>The macro \<^verbatim>\<open>CALL_BACK_SET\<close>: what is stored through \<^verbatim>\<open>pherr\<close>.\<close>

definition call_back_set :: "fn_args_t \<Rightarrow> http_err_t \<Rightarrow> http_err_t option" where
  "call_back_set args herr = (if fa_pherr args then Some herr else None)"

text \<open>\<^verbatim>\<open>calloc\<close> is not checked: the first store goes through a null pointer.\<close>

definition create_epoll_usrdata :: "fd_t \<Rightarrow> mem \<Rightarrow> (epoll_usrdata_t \<times> mem) res" where
  "create_epoll_usrdata fd m =
     (case alloc_request m of (ok, m) \<Rightarrow>
        if \<not> ok then Inl Null_deref
        else case new_buf STR_SMALL_BUF_SIZE m of (b, m) \<Rightarrow>
             Inr (\<lparr>eu_fd = fd, eu_ip = zero_string b, eu_port = 0\<rparr>, m))"

definition epoll_usrdata_free :: "epoll_usrdata_t \<Rightarrow> mem \<Rightarrow> mem" where
  "epoll_usrdata_free data m = drop_buf (str_buf (eu_ip data)) m"

section \<open>Paths\<close>

definition PATH_MAX :: nat where "PATH_MAX = 4096"

text \<open>
  The working directory arrives in an array of \<^verbatim>\<open>PATH_MAX\<close> bytes; a longer one is an
  error of \<^verbatim>\<open>getcwd\<close>. The appends are not checked.
\<close>

definition get_absolue_path ::
  "config \<Rightarrow> string_view_t \<Rightarrow> string_t \<Rightarrow> mem \<Rightarrow> os \<Rightarrow> (http_err_t \<times> string_t \<times> mem \<times> os) res" where
  "get_absolue_path cfg postfix path m w =
     (case new_buf PATH_MAX m of (b, m) \<Rightarrow>
      case os_call Getcwd w of (r, w) \<Rightarrow>
      if r_val r = 0 \<or> PATH_MAX \<le> length (cstr (r_data r))
      then Inr (http_err_getcwd, path, drop_buf b m, log_http_message HTTP_GETCWD_ERR w)
      else
        bnd (store_bytes m (Ptr (Buf b) 0) (cstr (r_data r) @ [NUL])) (\<lambda>m.
        bnd (string_init_from_cstr path (Ptr (Buf b) 0) m) (\<lambda>(ok, path, m).
        if \<not> ok then Inr (http_err_malloc, path, drop_buf b m, log_http_message HTTP_MALLOC_ERR w)
        else
          bnd (append_all append_piece
                 [P_char CHR ''/'', P_view (get_base_dir cfg), P_char CHR ''/'', P_view postfix] path m) (\<lambda>(path, m).
          Inr (http_success, path, drop_buf b m, w)))))"

end
