(* ===== verification/HttpResponse.thy ===== *)
theory HttpResponse
  imports HttpTypesSpec StringProps CcVec
begin

text \<open>
  \<^verbatim>\<open>http/http_response.c\<close>: the response object and its text. The writer appends piece after
  piece and looks at none of the results, so the contract of the appendable buffer gives its
  text: everything, as long as the allocator delivers, and what is left of it otherwise.
\<close>

section \<open>The object\<close>

record http_response_t =
  rep_method :: http_method_t
  rep_version :: http_version_t
  rep_status :: http_status_t
  rep_headers :: "http_header_t cc_vec"
  rep_body :: string_view_t

text \<open>
  \<^verbatim>\<open>calloc\<close> and \<^verbatim>\<open>cc_init\<close>: the zero of an enumeration is its first constant, so a
  new response is a GET of HTTP/1.0.
\<close>

definition http_response_new :: "mem \<Rightarrow> http_err_t \<times> http_response_t option \<times> mem" where
  "http_response_new m =
     (case alloc_request m of (ok, m) \<Rightarrow>
        if \<not> ok then (http_err_malloc, None, m)
        else (http_success,
              Some \<lparr>rep_method = http_method_get, rep_version = http_ver_1_0,
                    rep_status = \<lparr>status_code = 0, status_message = zero_view\<rparr>,
                    rep_headers = cc_init, rep_body = zero_view\<rparr>, m))"

text \<open>What remains of the response: nothing; the body and the header values are views.\<close>

definition http_response_free :: "http_response_t option \<Rightarrow> http_response_t option" where
  "http_response_free rep =
     (case rep of None \<Rightarrow> None | Some r \<Rightarrow> (case cc_cleanup (rep_headers r) of _ \<Rightarrow> None))"

definition http_response_add_header ::
  "http_response_t \<Rightarrow> http_header_field_t \<Rightarrow> string_view_t \<Rightarrow> mem \<Rightarrow> http_err_t \<times> http_response_t \<times> mem" where
  "http_response_add_header rep key value_v m =
     (let new_header = zero_header\<lparr>hdr_field := key,
                         hdr_value := (hdr_value zero_header)\<lparr>value_sv := value_v\<rparr>\<rparr> in
      case cc_push (rep_headers rep) new_header m of (ok, hl, m) \<Rightarrow>
        if \<not> ok then (http_err_malloc, rep\<lparr>rep_headers := hl\<rparr>, m)
        else (http_success, rep\<lparr>rep_headers := hl\<rparr>, m))"

section \<open>The text\<close>

text \<open>The loop over the headers.\<close>

fun append_headers :: "http_header_t list \<Rightarrow> string_t \<Rightarrow> mem \<Rightarrow> (string_t \<times> mem) res" where
  "append_headers [] s m = Inr (s, m)"
| "append_headers (h # hs) s m =
     bnd (http_get_header_field_sv m (hdr_field h)) (\<lambda>field.
     bnd (append_all append_piece
            [P_view field, P_cstr '': '', P_view (value_sv (hdr_value h)), P_cstr CRLF] s m) (\<lambda>(s, m).
     append_headers hs s m))"

text \<open>
  The status code is printed into \<^verbatim>\<open>char buf[4] = {0}\<close>; a code out of range leaves the
  buffer empty.
\<close>

definition http_response_to_string ::
  "http_response_t \<Rightarrow> string_t \<Rightarrow> mem \<Rightarrow> (http_err_t \<times> string_t \<times> mem) res" where
  "http_response_to_string rep post m =
     bnd (string_init post m) (\<lambda>(post, m).
     bnd (http_get_version_sv m (rep_version rep)) (\<lambda>sv.
     if string_view_empty sv then Inr (http_err_get_unkown_version, post, m)
     else
       bnd (append_all append_piece [P_view sv, P_char SP] post m) (\<lambda>(post, m).
       case new_buf 4 m of (buf, m) \<Rightarrow>
       bnd (http_get_status_sv (status_code (rep_status rep)) (Ptr (Buf buf) 0) m) (\<lambda>(_, m).
       bnd (append_all append_piece
              [P_at (Ptr (Buf buf) 0), P_char SP, P_view (status_message (rep_status rep)), P_cstr CRLF]
              post m) (\<lambda>(post, m).
       bnd (append_headers (vec_els (rep_headers rep)) post m) (\<lambda>(post, m).
       bnd (append_all append_piece [P_cstr CRLF, P_view (rep_body rep), P_cstr CRLF] post m) (\<lambda>(post, m).
       Inr (http_success, post, drop_buf buf m))))))))"

definition simple_response_text :: string where
  "simple_response_text =
     ''HTTP/1.1 200 OK'' @ CRLF @ ''Content-Type: text/html; charset=UTF-8'' @ CRLF @
     ''Content-Length: 25'' @ CRLF @ CRLF @ ''<html>Hello, world!</html>'' @ CRLF"

definition http_get_simple_response :: "mem \<Rightarrow> string_view_t res" where
  "http_get_simple_response m = string_view_from_cstr m (lit simple_response_text)"

section \<open>What it writes\<close>

text \<open>A header of the response, and the whole response, as text.\<close>

definition header_out :: "http_header_field_t \<Rightarrow> char list \<Rightarrow> char list" where
  "header_out f v = header_field_str f @ '': '' @ v @ CRLF"

definition status_digits :: "int \<Rightarrow> string" where
  "status_digits code =
     (if code > 600 \<or> code < 100 then [] else dec_nat (nat code))"

definition response_text ::
  "http_version_t \<Rightarrow> int \<Rightarrow> char list \<Rightarrow> (http_header_field_t \<times> char list) list \<Rightarrow> char list \<Rightarrow> char list" where
  "response_text ver code msg hs body =
     version_str ver @ [SP] @ status_digits code @ [SP] @ msg @ CRLF @
     concat (map (\<lambda>(f, v). header_out f v) hs) @ CRLF @ body @ CRLF"

lemma version_sv: "http_get_version_sv m v = Inr \<lparr>sv_data = lit (version_str v), sv_len = length (version_str v)\<rparr>"
  unfolding http_get_version_sv_def by (rule string_view_from_cstr_lit) (cases v; simp)

lemma header_field_sv:
  "http_get_header_field_sv m f = Inr \<lparr>sv_data = lit (header_field_str f), sv_len = length (header_field_str f)\<rparr>"
  unfolding http_get_header_field_sv_def by (rule string_view_from_cstr_lit) (cases f; simp)

lemma three_digits:
  assumes "100 \<le> n" and "n < 1000"
  shows "dec_nat n = [digit_char (n div 100), digit_char (n div 10 mod 10), digit_char (n mod 10)]"
proof -
  have "dec_nat (n div 10 div 10) = [digit_char (n div 100)]"
    using assms by (subst dec_nat.simps) (simp add: div_mult2_eq [symmetric])
  moreover have "dec_nat (n div 10) = dec_nat (n div 10 div 10) @ [digit_char (n div 10 mod 10)]"
    using assms by (subst dec_nat.simps) simp
  moreover have "dec_nat n = dec_nat (n div 10) @ [digit_char (n mod 10)]"
    using assms by (subst dec_nat.simps) simp
  ultimately show ?thesis by simp
qed

text \<open>The buffer for the status code.\<close>

lemma store_four:
  assumes "blocks m (Buf b) = Some (replicate 4 NUL)"
  shows "bnd (store_bytes m (Ptr (Buf b) 0) [x]) (\<lambda>m.
     bnd (store_bytes m (ptr_add (Ptr (Buf b) 0) 1) [y]) (\<lambda>m.
     bnd (store_bytes m (ptr_add (Ptr (Buf b) 0) 2) [z]) (\<lambda>m.
     bnd (store_bytes m (ptr_add (Ptr (Buf b) 0) 3) [NUL]) (\<lambda>m. Inr (True, m))))) =
     Inr (True, m\<lparr>blocks := (blocks m)(Buf b := Some [x, y, z, NUL])\<rparr>)"
  using assms by (simp add: store_bytes_def ptr_add_def numeral_eq_Suc)

lemma status_buf:
  assumes "blocks m (Buf b) = Some (replicate 4 NUL)"
  shows "\<exists>ok bl. http_get_status_sv code (Ptr (Buf b) 0) m = Inr (ok, m\<lparr>blocks := (blocks m)(Buf b := Some bl)\<rparr>) \<and>
     NUL \<in> set bl \<and> cstr bl = status_digits code"
proof (cases "code > 600 \<or> code < 100")
  case True
  then have "http_get_status_sv code (Ptr (Buf b) 0) m = Inr (False, m)" by (auto simp: http_get_status_sv_def)
  moreover have "m\<lparr>blocks := (blocks m)(Buf b := Some (replicate 4 NUL))\<rparr> = m" using assms by (simp add: fun_upd_idem)
  ultimately show ?thesis using True
    by (intro exI [of _ False] exI [of _ "replicate 4 NUL"]) (auto simp: status_digits_def numeral_eq_Suc)
next
  case False
  let ?n = "nat code"
  let ?d = "[digit_char (?n div 100), digit_char (?n div 10 mod 10), digit_char (?n mod 10)]"
  have d: "dec_nat ?n = ?d" using False by (intro three_digits) auto
  have "cstr (?d @ [NUL]) = dec_nat ?n"
    unfolding d [symmetric] by (rule cstr_append_NUL) (rule dec_nat_no_NUL)
  then have "cstr (?d @ [NUL]) = status_digits code" using False by (simp only: status_digits_def if_False)
  moreover have "http_get_status_sv code (Ptr (Buf b) 0) m =
      Inr (True, m\<lparr>blocks := (blocks m)(Buf b := Some (?d @ [NUL]))\<rparr>)"
    unfolding http_get_status_sv_def Let_def using False store_four [OF assms] by (simp only: if_False append.simps)
  ultimately show ?thesis by (intro exI [of _ True] exI [of _ "?d @ [NUL]"]) simp
qed

section \<open>The text of a response\<close>

text \<open>One more append of a series.\<close>

lemma append_headers_complete:
  assumes "str_holds m s cs" and "always_avail m"
    and "\<forall>h \<in> set hs. view_bytes m (value_sv (hdr_value h)) = Inr (val h) \<and> view_apart (value_sv (hdr_value h)) s"
    and "length cs + length (concat (map (\<lambda>h. header_out (hdr_field h) (val h)) hs)) < MAX_LEN"
  shows "\<exists>s' m'. append_headers hs s m = Inr (s', m') \<and> str_frame m s m' s' \<and> always_avail m' \<and>
     str_holds m' s' (cs @ concat (map (\<lambda>h. header_out (hdr_field h) (val h)) hs))"
  using assms
proof (induction hs arbitrary: s m cs)
  case Nil
  then show ?case by (auto intro: sb.step_refl)
next
  case (Cons h hs)
  let ?f = "header_field_str (hdr_field h)" and ?v = "value_sv (hdr_value h)"
  let ?ps = "[P_view \<lparr>sv_data = lit ?f, sv_len = length ?f\<rparr>, P_cstr '': '', P_view ?v, P_cstr CRLF]"
  let ?bss = "[?f, '': '', val h, CRLF]"
  have rep: "str_rep m s cs" using Cons.prems(1) by (simp add: str_holds_def)
  have sh: "list_all2 (piece_shows m s) ?ps ?bss"
    using Cons.prems(3) rep by simp
  have c: "concat ?bss = header_out (hdr_field h) (val h)" by (simp add: header_out_def)
  have l: "length cs + length (concat ?bss) < MAX_LEN" unfolding c using Cons.prems(4) by simp
  from sb.append_all_kept [OF Cons.prems(1) sh l] Cons.prems(2) obtain s1 m1 where
    1: "append_all append_piece ?ps s m = Inr (s1, m1)" "str_frame m s m1 s1" "always_avail m1"
      "str_holds m1 s1 (cs @ header_out (hdr_field h) (val h))"
    unfolding c [symmetric] using kept_all [of ?bss] by (auto simp del: concat.simps kept.simps)
  have v1: "\<forall>h \<in> set hs. view_bytes m1 (value_sv (hdr_value h)) = Inr (val h) \<and> view_apart (value_sv (hdr_value h)) s1"
    using Cons.prems(3) 1(2) view_apart_step by (fastforce simp: str_frame_def)
  from Cons.IH [OF 1(4,3) v1] Cons.prems(4) obtain s' m' where
    "append_headers hs s1 m1 = Inr (s', m')" "str_frame m1 s1 m' s'" "always_avail m'"
    "str_holds m' s' ((cs @ header_out (hdr_field h) (val h)) @ concat (map (\<lambda>h. header_out (hdr_field h) (val h)) hs))"
    by auto
  with 1 sb.step_trans show ?case
    by (fastforce simp: header_field_sv)
qed

text \<open>
  The objects a view looks into are neither the string's nor fresh: it can be appended, now and
  after every step.
\<close>

definition can_append :: "mem \<Rightarrow> string_t \<Rightarrow> string_view_t \<Rightarrow> char list \<Rightarrow> bool" where
  "can_append m s sv bs \<longleftrightarrow> view_bytes m sv = Inr bs \<and> view_apart sv s"

lemma can_append_step: "can_append m s sv bs \<Longrightarrow> str_frame m s m' s' \<Longrightarrow> can_append m' s' sv bs"
  using view_apart_step by (auto simp: can_append_def str_frame_def)

lemma can_append_alloc:
  "can_append m s sv bs \<Longrightarrow> frame {} m m' \<Longrightarrow> can_append m' s sv bs"
  using frame_view [of "{}" m m' sv bs] by (auto simp: can_append_def)

lemma append_pieces:
  assumes "str_holds m s cs" and "always_avail m" and "list_all2 (piece_shows m s) ps bss"
    and "length cs + length (concat bss) < MAX_LEN" and "ds = cs @ concat bss"
  obtains s' m' where "append_all append_piece ps s m = Inr (s', m')" and "str_frame m s m' s'"
    and "always_avail m'" and "str_holds m' s' ds"
  using sb.append_all_kept [OF assms(1,3,4)] assms(2,5) by (auto simp: kept_all)

text \<open>The part behind the version: with the status code in a buffer of its own.\<close>

lemma response_tail:
  assumes h: "str_holds m s cs" and av: "always_avail m"
    and code: "status_code (rep_status rep) = code" and bl: "blocks m (Buf k) = Some bl" "NUL \<in> set bl"
      "cstr bl = status_digits code" "Buf k \<notin> footprint s"
    and msg: "can_append m s (status_message (rep_status rep)) msg" and body: "can_append m s (rep_body rep) body"
    and hs: "\<forall>h \<in> set (vec_els (rep_headers rep)). can_append m s (value_sv (hdr_value h)) (val h)"
    and t: "t = status_digits code @ [SP] @ msg @ CRLF @
        concat (map (\<lambda>h. header_out (hdr_field h) (val h)) (vec_els (rep_headers rep))) @ CRLF @ body @ CRLF"
    and len: "length cs + length t < MAX_LEN"
  shows "\<exists>s' m'. bnd (append_all append_piece
         [P_at (Ptr (Buf k) 0), P_char SP, P_view (status_message (rep_status rep)), P_cstr CRLF] s m) (\<lambda>(s, m).
       bnd (append_headers (vec_els (rep_headers rep)) s m) (\<lambda>(s, m).
       bnd (append_all append_piece [P_cstr CRLF, P_view (rep_body rep), P_cstr CRLF] s m) (\<lambda>(s, m).
       Inr (http_success, s, drop_buf k m)))) = Inr (http_success, s', drop_buf k m') \<and>
     str_frame m s m' s' \<and> str_holds m' s' (cs @ t)"
proof -
  let ?ho = "concat (map (\<lambda>h. header_out (hdr_field h) (val h)) (vec_els (rep_headers rep)))"
  let ?c1 = "cs @ status_digits code @ [SP] @ msg @ CRLF"
  have s1: "list_all2 (piece_shows m s)
      [P_at (Ptr (Buf k) 0), P_char SP, P_view (status_message (rep_status rep)), P_cstr CRLF]
      [status_digits code, [SP], msg, CRLF]"
    using bl msg by (simp add: can_append_def)
  have l1: "length cs + length (concat [status_digits code, [SP], msg, CRLF]) < MAX_LEN" using len t by simp
  obtain s1 m1 where a1: "append_all append_piece
      [P_at (Ptr (Buf k) 0), P_char SP, P_view (status_message (rep_status rep)), P_cstr CRLF] s m = Inr (s1, m1)"
      "str_frame m s m1 s1" "always_avail m1" "str_holds m1 s1 ?c1"
    by (rule append_pieces [OF h av s1 l1, of ?c1]) simp
  have v1: "\<forall>h \<in> set (vec_els (rep_headers rep)).
      view_bytes m1 (value_sv (hdr_value h)) = Inr (val h) \<and> view_apart (value_sv (hdr_value h)) s1"
    using hs can_append_step [OF _ a1(2)] by (auto simp: can_append_def)
  have l2: "length ?c1 + length ?ho < MAX_LEN" using len t by simp
  from append_headers_complete [OF a1(4,3) v1 l2] obtain s2 m2 where
    a2: "append_headers (vec_els (rep_headers rep)) s1 m1 = Inr (s2, m2)" "str_frame m1 s1 m2 s2"
      "always_avail m2" "str_holds m2 s2 (?c1 @ ?ho)" by auto
  have f2: "str_frame m s m2 s2" using a1(2) a2(2) by (rule sb.step_trans)
  have s3: "list_all2 (piece_shows m2 s2) [P_cstr CRLF, P_view (rep_body rep), P_cstr CRLF] [CRLF, body, CRLF]"
    using can_append_step [OF body f2] by (simp add: can_append_def)
  have l3: "length (?c1 @ ?ho) + length (concat [CRLF, body, CRLF]) < MAX_LEN" using len t by simp
  obtain s3 m3 where a3: "append_all append_piece [P_cstr CRLF, P_view (rep_body rep), P_cstr CRLF] s2 m2 = Inr (s3, m3)"
      "str_frame m2 s2 m3 s3" "str_holds m3 s3 (cs @ t)"
    by (rule append_pieces [OF a2(4,3) s3 l3, of "cs @ t"]) (use t in simp_all)
  from f2 a3(2) have "str_frame m s m3 s3" by (rule sb.step_trans)
  with a1(1) a2(1) a3(1,3) show ?thesis by auto
qed

text \<open>
  The first part of the writer: the version is in the string, and the status code in a buffer of
  its own. What could be appended before can be appended still.
\<close>

lemma response_head:
  assumes wf: "wf_mem m" and av: "always_avail m" and sb: "has_sbuf m (str_buf post)"
    and ver: "rep_version rep \<noteq> http_ver_unkown"
  obtains s k bl m' where "http_response_to_string rep post m =
       bnd (append_all append_piece
         [P_at (Ptr (Buf k) 0), P_char SP, P_view (status_message (rep_status rep)), P_cstr CRLF] s m') (\<lambda>(s, m).
       bnd (append_headers (vec_els (rep_headers rep)) s m) (\<lambda>(s, m).
       bnd (append_all append_piece [P_cstr CRLF, P_view (rep_body rep), P_cstr CRLF] s m) (\<lambda>(s, m).
       Inr (http_success, s, drop_buf k m))))"
    and "str_holds m' s (version_str (rep_version rep) @ [SP])" and "always_avail m'"
    and "blocks m' (Buf k) = Some bl" and "NUL \<in> set bl" and "cstr bl = status_digits (status_code (rep_status rep))"
    and "Buf k \<notin> footprint s" and "frame {Buf (str_buf post)} m m'"
    and "\<forall>sv bs. view_bytes m sv = Inr bs \<and> view_off sv (Buf (str_buf post)) \<longrightarrow> can_append m' s sv bs"
proof -
  let ?b = "str_buf post" and ?code = "status_code (rep_status rep)" and ?v = "version_str (rep_version rep)"
  obtain s0 m0 where i: "string_init post m = Inr (s0, m0)" "str_rep m0 s0 []" "footprint s0 = {Buf ?b}"
      "frame {Buf ?b} m m0"
    using string_init_rep [OF wf sb] by blast
  have ca: "can_append m0 s0 sv bs" if "view_bytes m sv = Inr bs" "view_off sv (Buf ?b)" for sv bs
    using frame_view [OF i(4) that(1)] that(2) i(3) by (simp add: can_append_def view_apart_def)
  have h0: "str_holds m0 s0 []" using i(2) frame_wf [OF i(4)] by (simp add: str_holds_def)
  have av0: "always_avail m0" using av i(4) by (rule always_avail_frame)
  have p0: "list_all2 (piece_shows m0 s0) [P_view \<lparr>sv_data = lit ?v, sv_len = length ?v\<rparr>, P_char SP] [?v, [SP]]"
    using i(2) by simp
  have lv: "length ?v \<le> 8" by (cases "rep_version rep") simp_all
  obtain s1 m1 where a1: "append_all append_piece [P_view \<lparr>sv_data = lit ?v, sv_len = length ?v\<rparr>, P_char SP] s0 m0 =
        Inr (s1, m1)" "str_frame m0 s0 m1 s1" "always_avail m1" "str_holds m1 s1 (?v @ [SP])"
    by (rule append_pieces [OF h0 av0 p0, of "?v @ [SP]"]) (use lv in simp_all)
  let ?k = "brk m1" and ?ma = "m1\<lparr>blocks := (blocks m1)(Buf (brk m1) := Some (replicate 4 NUL)), brk := Suc (brk m1)\<rparr>"
  have nb: "new_buf 4 m1 = (?k, ?ma)" by (simp add: new_buf_def)
  obtain ok bl where st: "http_get_status_sv ?code (Ptr (Buf ?k) 0) ?ma =
      Inr (ok, ?ma\<lparr>blocks := (blocks ?ma)(Buf ?k := Some bl)\<rparr>)" "NUL \<in> set bl" "cstr bl = status_digits ?code"
    using status_buf [of ?ma ?k ?code] by auto
  let ?mb = "?ma\<lparr>blocks := (blocks ?ma)(Buf ?k := Some bl)\<rparr>"
  have mb: "?mb = m1\<lparr>blocks := (blocks m1)(Buf ?k := Some bl), brk := Suc ?k\<rparr>" by simp
  have wf1: "wf_mem m1" and rp1: "str_rep m1 s1 (?v @ [SP])" using a1(4) by (simp_all add: str_holds_def)
  have f1: "frame {} m1 ?mb" unfolding mb using wf1 by (intro frame_alloc) auto
  have h1: "str_holds ?mb s1 (?v @ [SP])"
    using str_rep_frame [OF rp1 f1] frame_wf [OF f1] by (simp add: str_holds_def)
  have nk: "Buf ?k \<notin> footprint s1"
    using str_rep_footprint_used [OF rp1, of "Buf ?k"] wf1 by auto
  from a1(2) obtain ds where "str_step m0 s0 m1 s1 ds" unfolding str_frame_def ..
  from str_stepD(3) [OF this] have "frame {Buf ?b} m0 m1" unfolding i(3) .
  then have "frame {Buf ?b} m0 ?mb" using f1 by (rule frame_trans) simp
  with i(4) have fr: "frame {Buf ?b} m ?mb" by (rule frame_trans) simp
  have cb: "can_append ?mb s1 sv bs" if "view_bytes m sv = Inr bs" "view_off sv (Buf ?b)" for sv bs
    using can_append_alloc [OF can_append_step [OF ca [OF that] a1(2)] f1] .
  have ne: "?v \<noteq> []" using ver by (cases "rep_version rep") simp_all
  have eq: "http_response_to_string rep post m =
       bnd (append_all append_piece
         [P_at (Ptr (Buf ?k) 0), P_char SP, P_view (status_message (rep_status rep)), P_cstr CRLF] s1 ?mb) (\<lambda>(s, m).
       bnd (append_headers (vec_els (rep_headers rep)) s m) (\<lambda>(s, m).
       bnd (append_all append_piece [P_cstr CRLF, P_view (rep_body rep), P_cstr CRLF] s m) (\<lambda>(s, m).
       Inr (http_success, s, drop_buf ?k m))))"
    unfolding http_response_to_string_def
    using i(1) a1(1) nb st(1) ne by (simp add: version_sv string_view_empty_def string_view_len_def)
  show thesis
    by (rule that [OF eq h1 always_avail_frame [OF a1(3) f1] _ st(2,3) nk fr]) (use cb in simp_all)
qed

text \<open>
  C39: The text of a response, when the allocator delivers: the version, the status code and its
  message, every header with its name and value, a blank line, the body - and one more line
  end behind the body.
\<close>

theorem response_to_string_text:
  assumes wf: "wf_mem m" and av: "always_avail m" and sb: "has_sbuf m (str_buf post)"
    and ver: "rep_version rep \<noteq> http_ver_unkown"
    and msg: "view_bytes m (status_message (rep_status rep)) = Inr msg"
      "view_off (status_message (rep_status rep)) (Buf (str_buf post))"
    and body: "view_bytes m (rep_body rep) = Inr body" "view_off (rep_body rep) (Buf (str_buf post))"
    and hs: "list_all (\<lambda>h. view_bytes m (value_sv (hdr_value h)) = Inr (val h) \<and>
        view_off (value_sv (hdr_value h)) (Buf (str_buf post))) (vec_els (rep_headers rep))"
    and len: "length (response_text (rep_version rep) (status_code (rep_status rep)) msg
        (map (\<lambda>h. (hdr_field h, val h)) (vec_els (rep_headers rep))) body) < MAX_LEN"
  shows "\<exists>s' m'. http_response_to_string rep post m = Inr (http_success, s', m') \<and>
     str_rep m' s' (response_text (rep_version rep) (status_code (rep_status rep)) msg
       (map (\<lambda>h. (hdr_field h, val h)) (vec_els (rep_headers rep))) body)"
proof -
  let ?code = "status_code (rep_status rep)" and ?v = "version_str (rep_version rep)"
  let ?ho = "concat (map (\<lambda>h. header_out (hdr_field h) (val h)) (vec_els (rep_headers rep)))"
  let ?t = "status_digits ?code @ [SP] @ msg @ CRLF @ ?ho @ CRLF @ body @ CRLF"
  have rt: "response_text (rep_version rep) ?code msg (map (\<lambda>h. (hdr_field h, val h)) (vec_els (rep_headers rep))) body =
      (?v @ [SP]) @ ?t"
    by (simp add: response_text_def comp_def)
  obtain s1 k bl m1 where 1: "http_response_to_string rep post m =
       bnd (append_all append_piece
         [P_at (Ptr (Buf k) 0), P_char SP, P_view (status_message (rep_status rep)), P_cstr CRLF] s1 m1) (\<lambda>(s, m).
       bnd (append_headers (vec_els (rep_headers rep)) s m) (\<lambda>(s, m).
       bnd (append_all append_piece [P_cstr CRLF, P_view (rep_body rep), P_cstr CRLF] s m) (\<lambda>(s, m).
       Inr (http_success, s, drop_buf k m))))"
    "str_holds m1 s1 (?v @ [SP])" "always_avail m1" "blocks m1 (Buf k) = Some bl" "NUL \<in> set bl"
    "cstr bl = status_digits ?code" "Buf k \<notin> footprint s1" "frame {Buf (str_buf post)} m m1"
    "\<forall>sv bs. view_bytes m sv = Inr bs \<and> view_off sv (Buf (str_buf post)) \<longrightarrow> can_append m1 s1 sv bs"
    by (rule response_head [OF wf av sb ver])
  have hv: "\<forall>h \<in> set (vec_els (rep_headers rep)). can_append m1 s1 (value_sv (hdr_value h)) (val h)"
    using hs 1(9) by (auto simp: list_all_iff)
  have ca: "can_append m1 s1 (status_message (rep_status rep)) msg" "can_append m1 s1 (rep_body rep) body"
    using 1(9) msg body by simp_all
  have lt: "length (?v @ [SP]) + length ?t < MAX_LEN" using len unfolding rt by simp
  from response_tail [OF 1(2,3) refl 1(4-7) ca(1,2) hv refl lt]
  obtain s' m' where a2: "bnd (append_all append_piece
         [P_at (Ptr (Buf k) 0), P_char SP, P_view (status_message (rep_status rep)), P_cstr CRLF] s1 m1) (\<lambda>(s, m).
       bnd (append_headers (vec_els (rep_headers rep)) s m) (\<lambda>(s, m).
       bnd (append_all append_piece [P_cstr CRLF, P_view (rep_body rep), P_cstr CRLF] s m) (\<lambda>(s, m).
       Inr (http_success, s, drop_buf k m)))) = Inr (http_success, s', drop_buf k m')"
     "str_frame m1 s1 m' s'" "str_holds m' s' ((?v @ [SP]) @ ?t)" by blast
  have "Buf k \<notin> footprint s'"
    using a2(2) 1(4,7) str_step_footprint [of m1 s1 m' s' _ "Buf k"] by (auto simp: str_frame_def)
  moreover have "frame {Buf k} m' (drop_buf k m')"
    using a2(3) by (auto simp: str_holds_def frame_def drop_buf_def wf_mem_def)
  ultimately have "str_rep (drop_buf k m') s' ((?v @ [SP]) @ ?t)"
    using a2(3) by (auto simp: str_holds_def intro: str_rep_frame)
  then show ?thesis unfolding rt 1(1) a2(1) by blast
qed

text \<open>A response for examples: status 200, one header, a body.\<close>

definition lit_view :: "string \<Rightarrow> string_view_t" where
  "lit_view t = \<lparr>sv_data = lit t, sv_len = length t\<rparr>"

lemma view_bytes_lit_view [simp]: "view_bytes m (lit_view t) = Inr t" "view_off (lit_view t) (Buf b)"
  unfolding lit_view_def by (rule view_bytes_lit) simp

definition sample_response :: "http_version_t \<Rightarrow> string \<Rightarrow> http_response_t" where
  "sample_response ver body =
     \<lparr>rep_method = http_method_get, rep_version = ver,
      rep_status = \<lparr>status_code = 200, status_message = lit_view ''OK''\<rparr>,
      rep_headers = \<lparr>vec_els = [zero_header\<lparr>hdr_field := http_hdr_content_length,
         hdr_value := (hdr_value zero_header)\<lparr>value_sv := lit_view ''2''\<rparr>\<rparr>], vec_cap = 2\<rparr>,
      rep_body = lit_view body\<rparr>"

lemma response_to_string_text_witness:
  "\<exists>s' m'. http_response_to_string (sample_response http_ver_1_1 ''ok'') small_string small_mem = Inr (http_success, s', m') \<and>
     str_rep m' s' (response_text http_ver_1_1 200 ''OK'' [(http_hdr_content_length, ''2'')] ''ok'')"
proof -
  let ?r = "sample_response http_ver_1_1 ''ok''"
  have d: "dec_nat 200 = ''200''"
    by (subst three_digits) (simp_all add: digit_char_def, code_simp?)
  have len: "length (response_text http_ver_1_1 200 ''OK'' [(http_hdr_content_length, ''2'')] ''ok'') < MAX_LEN"
    by (simp add: response_text_def header_out_def status_digits_def d)
  show ?thesis
    using response_to_string_text [of small_mem small_string ?r "''OK''" "''ok''" "\<lambda>_. ''2''"]
      str_rep_sbuf [OF small_string_rep] len
    by (simp add: sample_response_def)
qed

text \<open>
  A response of an unknown version is not written: the call reports it and leaves an empty
  string.
\<close>

theorem response_unknown_version:
  assumes "wf_mem m" and "has_sbuf m (str_buf post)" and "rep_version rep = http_ver_unkown"
  shows "\<exists>s' m'. http_response_to_string rep post m = Inr (http_err_get_unkown_version, s', m') \<and> str_rep m' s' []"
proof -
  obtain s0 m0 where "string_init post m = Inr (s0, m0)" "str_rep m0 s0 []"
    using string_init_rep [OF assms(1,2)] by blast
  then show ?thesis using assms(3)
    by (simp add: http_response_to_string_def version_sv string_view_empty_def string_view_len_def)
qed

lemma response_unknown_version_witness:
  "\<exists>s' m'. http_response_to_string (sample_response http_ver_unkown ''ok'') small_string small_mem =
     Inr (http_err_get_unkown_version, s', m') \<and> str_rep m' s' []"
  by (rule response_unknown_version)
    (use str_rep_sbuf [OF small_string_rep] in \<open>simp_all add: sample_response_def\<close>)

text \<open>
  The fixed response announces 25 bytes of body, but the body is 26 bytes long, and a line
  end follows it.
\<close>

theorem simple_response_wrong_length:
  "http_get_simple_response m = Inr (lit_view simple_response_text) \<and>
   (\<exists>head. simple_response_text = head @ ''Content-Length: '' @ dec_nat 25 @ CRLF @ CRLF @ ''<html>Hello, world!</html>'' @ CRLF) \<and>
   length ''<html>Hello, world!</html>'' = 26"
proof -
  have d: "dec_nat 25 = ''25''"
    by (subst dec_nat.simps, subst dec_nat.simps) (simp add: digit_char_def, code_simp?)
  have "NUL \<notin> set simple_response_text" by (simp add: simple_response_text_def)
  then show ?thesis
    unfolding http_get_simple_response_def lit_view_def
    by (simp add: string_view_from_cstr_lit simple_response_text_def d)
qed

end
