(* ===== verification/Dispatch.thy ===== *)
theory Dispatch
  imports SocketUtil HttpResponse HttpParse
begin

text \<open>
  \<^verbatim>\<open>core/http_method_dispatch.c\<close>: from a request to its response; and the state of the
  process that the layers above share: the memory with the parser's nodes, the calls to the
  system, the configuration, the table of resources, the objects behind the pointers that epoll
  hands back, the jobs the thread pool has not run, and the flag that ends the main loop.
\<close>

section \<open>The state of the process\<close>

record client_data_t =
  cl_fd :: fd_t
  cl_ip :: string_t
  cl_port :: int
  ctx_beg :: "nat option"
  ctx_tail :: "nat option"

text \<open>
  What \<^verbatim>\<open>data.ptr\<close> of an event points to. The main loop reads the descriptor of either
  kind through the type of the first; the two structs begin alike.
\<close>

datatype event_data = Usrdata epoll_usrdata_t | Client client_data_t

fun data_fd :: "event_data \<Rightarrow> fd_t" where
  "data_fd (Usrdata d) = eu_fd d"
| "data_fd (Client c) = cl_fd c"

datatype job = Job_server fn_args_t | Job_client fn_args_t

record app =
  app_ps :: pstate
  app_os :: os
  app_cfg :: config
  app_table :: "path2resmem option"
  app_data :: "nat \<Rightarrow> event_data option"
  app_jobs :: "job list"
  loop_terminal :: bool

abbreviation app_mem :: "app \<Rightarrow> mem" where
  "app_mem a \<equiv> ps_mem (app_ps a)"

definition with_mem :: "mem \<Rightarrow> app \<Rightarrow> app" where
  "with_mem m a = a\<lparr>app_ps := (app_ps a)\<lparr>ps_mem := m\<rparr>\<rparr>"

lemma with_mem_simps [simp]:
  "app_mem (with_mem m a) = m"
  "ps_nodes (app_ps (with_mem m a)) = ps_nodes (app_ps a)"
  "app_os (with_mem m a) = app_os a"
  "app_cfg (with_mem m a) = app_cfg a"
  "app_table (with_mem m a) = app_table a"
  "app_data (with_mem m a) = app_data a"
  "app_jobs (with_mem m a) = app_jobs a"
  "loop_terminal (with_mem m a) = loop_terminal a"
  "with_mem m (with_mem m' a) = with_mem m a"
  by (simp_all add: with_mem_def)

text \<open>A call, a log message.\<close>

definition app_call :: "os_event \<Rightarrow> app \<Rightarrow> os_reply \<times> app" where
  "app_call e a = (case os_call e (app_os a) of (r, w) \<Rightarrow> (r, a\<lparr>app_os := w\<rparr>))"

definition app_log :: "http_message_t \<Rightarrow> app \<Rightarrow> app" where
  "app_log msg a = a\<lparr>app_os := log_http_message msg (app_os a)\<rparr>"

definition app_do :: "os_event \<Rightarrow> app \<Rightarrow> app" where
  "app_do e a = a\<lparr>app_os := os_do e (app_os a)\<rparr>"

section \<open>The handler of GET\<close>

text \<open>
  The two local objects the source takes addresses of - the path's string and the number's
  buffer - end with the call, on every exit.
\<close>

definition get_end :: "nat \<Rightarrow> nat option \<Rightarrow> app \<Rightarrow> app" where
  "get_end path numbuf a =
     with_mem (drop_buf path (case numbuf of None \<Rightarrow> app_mem a | Some b \<Rightarrow> drop_buf b (app_mem a))) a"

text \<open>The part that builds the response; \<open>b\<close> is the path's buffer.\<close>

definition get_response ::
  "nat \<Rightarrow> http_status_t \<Rightarrow> string_view_t \<Rightarrow> app \<Rightarrow> (http_err_t \<times> http_response_t option \<times> app) res" where
  "get_response b status html_post a =
     (case http_response_new (app_mem a) of (herr, response, m) \<Rightarrow>
      case response of
        None \<Rightarrow> Inl Null_deref
      | Some response \<Rightarrow>
          let response = response\<lparr>rep_status := status\<rparr> in
          if herr \<noteq> http_success then Inr (herr, None, get_end b None (with_mem m a))
          else
          bnd (string_view_from_cstr m (lit ''text/html; charset=UTF-8'')) (\<lambda>ct.
          case http_response_add_header response http_hdr_content_type ct m of (herr, response, m) \<Rightarrow>
          if herr \<noteq> http_success then Inr (herr, None, get_end b None (with_mem m a))
          else
          case new_buf 16 m of (nb, m) \<Rightarrow>
          bnd (c_snprintf (Ptr (Buf nb) 0) 16 (dec_nat (string_view_len html_post)) m) (\<lambda>m.
          bnd (string_view_from_cstr m (Ptr (Buf nb) 0)) (\<lambda>n.
          case http_response_add_header response http_hdr_content_length n m of (_, response, m) \<Rightarrow>
          Inr (http_success, Some (response\<lparr>rep_body := html_post\<rparr>), get_end b (Some nb) (with_mem m a))))))"

definition http_method_get_handler ::
  "http_request_t \<Rightarrow> app \<Rightarrow> (http_err_t \<times> http_response_t option \<times> app) res" where
  "http_method_get_handler request a =
     bnd (c_assert (ndebug (app_mem a)) (req_method request = http_method_get)) (\<lambda>_.
     case new_buf STR_SMALL_BUF_SIZE (app_mem a) of (b, m) \<Rightarrow>
     bnd (get_absolue_path (app_cfg a) (string_view_from_string (req_path request)) (zero_string b) m (app_os a))
       (\<lambda>(herr, path, m, w).
     let a = (with_mem m a)\<lparr>app_os := w\<rparr> in
     if herr \<noteq> http_success then Inr (herr, None, get_end b None a)
     else
     bnd (get_resource_cached (string_view_from_string path) zero_view (app_table a) (app_mem a) (app_os a))
       (\<lambda>(herr, html_post, table, m, w).
     let a = (with_mem m a)\<lparr>app_os := w, app_table := table\<rparr> in
     if herr \<noteq> http_success then Inr (herr, None, get_end b None a)
     else
     bnd (http_set_status (app_mem a) 200) (\<lambda>(herr, status).
     if herr \<noteq> http_success then Inr (herr, None, get_end b None a)
     else get_response b status html_post a))))"

text \<open>The result of the handler is not looked at.\<close>

definition handle_http_request ::
  "http_request_t \<Rightarrow> app \<Rightarrow> (http_err_t \<times> http_response_t option \<times> app) res" where
  "handle_http_request request a =
     (if req_method request = http_method_get
      then bnd (http_method_get_handler request a) (\<lambda>(_, response, a). Inr (http_success, response, a))
      else Inr (http_err_request_unkown_method, None, app_log HTTP_REQUEST_UNKOWN_METHOD a))"

end
