(* ===== verification/DispatchProps.thy ===== *)
theory DispatchProps
  imports Dispatch ResourceProps
begin

text \<open>
  Lemmas on the handler of GET: the path it builds, the response it returns, and what happens
  when a header of a response looks into an object that has ended.
\<close>

lemma with_mem_update [simp]: "with_mem m (a\<lparr>app_os := w\<rparr>) = (with_mem m a)\<lparr>app_os := w\<rparr>"
  by (simp add: with_mem_def)

section \<open>Views of ended objects\<close>

lemma load_ended:
  "blocks m (Buf k) = None \<Longrightarrow> 0 < n \<Longrightarrow> load_bytes m (Ptr (Buf k) i) n = Inl Dangling"
  by (simp add: load_bytes_def)

lemma cpy_ended:
  assumes "blocks m (Buf k) = None" and "sv_data sv = Ptr (Buf k) i" and "0 < sv_len sv" and "n < MAX_LEN"
  shows "cpy_sv2str s sv (to_int32 n) m = Inl Dangling"
  using assms load_ended [of m k "sv_len sv" i] by (simp add: cpy_sv2str_def memcpy_def)

text \<open>Appending such a view reads the ended object, whatever the string is like.\<close>

lemma append_ended:
  assumes rep: "str_rep m s cs" and wf: "wf_mem m" and av: "avail m (brk m)"
    and k: "blocks m (Buf k) = None" "k < brk m" and sv: "sv_data sv = Ptr (Buf k) i" "0 < sv_len sv"
    and len: "length cs + sv_len sv < MAX_LEN"
  shows "string_append_view s sv m = Inl Dangling"
proof -
  note sl = str_rep_len(1) [OF rep]
  from next_capacity_Suc [OF len] obtain cap where
    cap: "next_capacity (Suc (sv_len sv + length cs)) = Inr cap" "Suc (length cs + sv_len sv) \<le> cap"
    by (auto simp: add.commute)
  have cs: "length cs < MAX_LEN" using len by simp
  from rep show ?thesis
  proof cases
    case (zeroed b)
    have "cpy_sv2str \<lparr>str_buf = b, str_data = Ptr (Heap (brk m)) 0, str_size = 0, str_cap = 0\<rparr> sv (to_int32 0)
        (m\<lparr>blocks := (blocks m)(Heap (brk m) := Some (map (junk m (brk m)) [0..<cap])), brk := Suc (brk m)\<rparr>) = Inl Dangling"
      by (rule cpy_ended [OF _ sv]) (use k in simp_all)
    with zeroed show ?thesis
      using cap len sl av by (simp add: string_append_view_def sv_defs Let_def use_sbuf_def realloc_def malloc_ok)
  next
    case (small b sb n)
    have "length cs = n - Suc 0" using small by (auto simp: min_def)
    then have ncap: "n \<le> cap" using cap(2) by linarith
    obtain nb m2 where c:
      "cpy_smbuf2data \<lparr>str_buf = b, str_data = Ptr (Buf b) 0, str_size = n, str_cap = 0\<rparr> cap m =
         Inr (True, \<lparr>str_buf = b, str_data = Ptr (Heap (brk m)) 0, str_size = n, str_cap = cap\<rparr>, m2)"
      "frame {} m m2"
      by (rule cpy_smbuf2data_ok [OF wf small(3-5) ncap _ av]) (use cap in auto)
    have "cpy_sv2str \<lparr>str_buf = b, str_data = Ptr (Heap (brk m)) 0, str_size = n, str_cap = cap\<rparr> sv
       (to_int32 (length cs)) m2 = Inl Dangling"
      by (rule cpy_ended [OF frame_dead_buf [OF c(2) k(2,1)] sv cs])
    with small(1) c(1) show ?thesis
      using cap len sl by (simp add: string_append_view_def sv_defs Let_def use_sbuf_def)
  next
    case (heap b j bs0 c0 n)
    obtain m2 where c: "realloc (Ptr (Heap j) 0) cap m = Inr (Ptr (Heap (brk m)) 0, m2)" "frame {Heap j} m m2"
      by (rule realloc_heap_ok [OF wf heap(4) av]) auto
    have "cpy_sv2str \<lparr>str_buf = b, str_data = Ptr (Heap (brk m)) 0, str_size = n, str_cap = c0\<rparr> sv
       (to_int32 (length cs)) m2 = Inl Dangling"
      by (rule cpy_ended [OF frame_dead_buf [OF c(2) k(2,1)] sv cs])
    with heap(1) c(1) show ?thesis
      using cap len sl by (simp add: string_append_view_def sv_defs Let_def use_sbuf_def)
  qed
qed

text \<open>A header whose value has ended stops the writer.\<close>

lemma append_header_ended:
  assumes h: "str_holds m s cs" and av: "always_avail m"
    and k: "blocks m (Buf k) = None" "k < brk m"
    and sv: "sv_data (value_sv (hdr_value h)) = Ptr (Buf k) i" "0 < sv_len (value_sv (hdr_value h))"
    and len: "length cs + length (header_field_str (hdr_field h)) + sv_len (value_sv (hdr_value h)) + 2 < MAX_LEN"
  shows "append_headers (h # hs) s m = Inl Dangling"
proof -
  let ?f = "header_field_str (hdr_field h)"
  have rep: "str_rep m s cs" and wf: "wf_mem m" using h by (simp_all add: str_holds_def)
  have sh: "list_all2 (piece_shows m s) [P_view \<lparr>sv_data = lit ?f, sv_len = length ?f\<rparr>, P_cstr '': ''] [?f, '': '']"
    using rep by simp
  obtain s1 m1 where a: "append_all append_piece [P_view \<lparr>sv_data = lit ?f, sv_len = length ?f\<rparr>, P_cstr '': ''] s m = Inr (s1, m1)"
      "str_frame m s m1 s1" "always_avail m1" "str_holds m1 s1 (cs @ ?f @ '': '')"
    by (rule append_pieces [OF h av sh, of "cs @ ?f @ '': ''"]) (use len in simp_all)
  from a(2) obtain ds where st: "str_step m s m1 s1 ds" by (auto simp: str_frame_def)
  have f: "frame (footprint s) m m1" using st by (rule str_stepD(3))
  have "string_append_view s1 (value_sv (hdr_value h)) m1 = Inl Dangling"
  proof (rule append_ended [OF _ _ _ _ _ sv])
    show "str_rep m1 s1 (cs @ ?f @ '': '')" "wf_mem m1" using a(4) by (simp_all add: str_holds_def)
    show "avail m1 (brk m1)" using a(3) by (simp add: always_avail_def)
    show "blocks m1 (Buf k) = None" using f k(2,1) by (rule frame_dead_buf)
    show "k < brk m1" using k(2) frame_brk_le [OF f] by simp
  qed (use len in simp)
  moreover have al: "append_all append_piece
       [P_view \<lparr>sv_data = lit ?f, sv_len = length ?f\<rparr>, P_cstr '': '', P_view (value_sv (hdr_value h)), P_cstr CRLF] s m =
     bnd (append_all append_piece [P_view \<lparr>sv_data = lit ?f, sv_len = length ?f\<rparr>, P_cstr '': ''] s m)
       (\<lambda>(s, m). append_all append_piece [P_view (value_sv (hdr_value h)), P_cstr CRLF] s m)"
    by (subst append_all_append [symmetric]) simp
  ultimately have "append_all append_piece
       [P_view \<lparr>sv_data = lit ?f, sv_len = length ?f\<rparr>, P_cstr '': '', P_view (value_sv (hdr_value h)), P_cstr CRLF] s m = Inl Dangling"
    unfolding al a(1) by simp
  then show ?thesis unfolding append_headers.simps header_field_sv bnd_simps by simp
qed


lemma length_status_digits: "length (status_digits code) \<le> 3"
  using three_digits [of "nat code"] by (auto simp: status_digits_def)

lemma append_headers_append:
  "append_headers (gs @ hs) s m = bnd (append_headers gs s m) (\<lambda>(s, m). append_headers hs s m)"
  by (induction gs arbitrary: s m) (auto simp: bnd_def split: sum.split prod.split)

text \<open>
  A response with a header value that has ended cannot be written, whatever comes behind it.
\<close>

lemma response_header_ended:
  assumes wf: "wf_mem m" and av: "always_avail m" and sb: "has_sbuf m (str_buf out)"
    and ver: "rep_version rep \<noteq> http_ver_unkown"
    and els: "vec_els (rep_headers rep) = gs @ h # hs"
    and msg: "view_bytes m (status_message (rep_status rep)) = Inr msg"
      "view_off (status_message (rep_status rep)) (Buf (str_buf out))"
    and good: "list_all (\<lambda>h. view_bytes m (value_sv (hdr_value h)) = Inr (val h) \<and>
        view_off (value_sv (hdr_value h)) (Buf (str_buf out))) gs"
    and k: "blocks m (Buf k) = None" "k < brk m"
    and sv: "sv_data (value_sv (hdr_value h)) = Ptr (Buf k) i" "0 < sv_len (value_sv (hdr_value h))"
    and len: "length msg + length (concat (map (\<lambda>h. header_out (hdr_field h) (val h)) gs)) +
      length (header_field_str (hdr_field h)) + sv_len (value_sv (hdr_value h)) + 50 < MAX_LEN"
  shows "http_response_to_string rep out m = Inl Dangling"
proof -
  let ?v = "version_str (rep_version rep)" and ?code = "status_code (rep_status rep)"
  let ?ho = "concat (map (\<lambda>h. header_out (hdr_field h) (val h)) gs)"
  obtain s1 b bl m1 where 1: "http_response_to_string rep out m =
       bnd (append_all append_piece
         [P_at (Ptr (Buf b) 0), P_char SP, P_view (status_message (rep_status rep)), P_cstr CRLF] s1 m1) (\<lambda>(s, m).
       bnd (append_headers (vec_els (rep_headers rep)) s m) (\<lambda>(s, m).
       bnd (append_all append_piece [P_cstr CRLF, P_view (rep_body rep), P_cstr CRLF] s m) (\<lambda>(s, m).
       Inr (http_success, s, drop_buf b m))))"
    "str_holds m1 s1 (?v @ [SP])" "always_avail m1" "blocks m1 (Buf b) = Some bl" "NUL \<in> set bl"
    "cstr bl = status_digits ?code" "Buf b \<notin> footprint s1" "frame {Buf (str_buf out)} m m1"
    "\<forall>sv bs. view_bytes m sv = Inr bs \<and> view_off sv (Buf (str_buf out)) \<longrightarrow> can_append m1 s1 sv bs"
    by (rule response_head [OF wf av sb ver])
  let ?c1 = "(?v @ [SP]) @ status_digits ?code @ [SP] @ msg @ CRLF"
  have lens: "length ?v \<le> 8" "length (status_digits ?code) \<le> 3"
    by (cases "rep_version rep", simp_all add: length_status_digits)
  have p2: "list_all2 (piece_shows m1 s1)
      [P_at (Ptr (Buf b) 0), P_char SP, P_view (status_message (rep_status rep)), P_cstr CRLF]
      [status_digits ?code, [SP], msg, CRLF]"
    using 1(4-7,9) msg by (simp add: can_append_def)
  obtain s2 m2 where 2: "append_all append_piece
      [P_at (Ptr (Buf b) 0), P_char SP, P_view (status_message (rep_status rep)), P_cstr CRLF] s1 m1 = Inr (s2, m2)"
      "str_frame m1 s1 m2 s2" "always_avail m2" "str_holds m2 s2 ?c1"
    by (rule append_pieces [OF 1(2,3) p2, of ?c1]) (use len lens in simp_all)
  have g2: "\<forall>h \<in> set gs. view_bytes m2 (value_sv (hdr_value h)) = Inr (val h) \<and> view_apart (value_sv (hdr_value h)) s2"
    using good 1(9) can_append_step [OF _ 2(2)] by (auto simp: can_append_def list_all_iff)
  have l3: "length ?c1 + length ?ho < MAX_LEN" using len lens by simp
  from append_headers_complete [OF 2(4,3) g2 l3] obtain s3 m3 where
    3: "append_headers gs s2 m2 = Inr (s3, m3)" "str_frame m2 s2 m3 s3" "always_avail m3" "str_holds m3 s3 (?c1 @ ?ho)"
    by auto
  from 2(2) obtain c2 where st2: "str_step m1 s1 m2 s2 c2" unfolding str_frame_def ..
  from 3(2) obtain c3 where st3: "str_step m2 s2 m3 s3 c3" unfolding str_frame_def ..
  note f = 1(8) str_stepD(3) [OF st2] str_stepD(3) [OF st3]
  have k1: "blocks m1 (Buf k) = None" "k < brk m1" using frame_dead_buf [OF f(1) k(2,1)] frame_brk_le [OF f(1)] k(2) by simp_all
  have k2: "blocks m2 (Buf k) = None" "k < brk m2" using frame_dead_buf [OF f(2) k1(2,1)] frame_brk_le [OF f(2)] k1(2) by simp_all
  have k3: "blocks m3 (Buf k) = None" "k < brk m3" using frame_dead_buf [OF f(3) k2(2,1)] frame_brk_le [OF f(3)] k2(2) by simp_all
  have "append_headers (h # hs) s3 m3 = Inl Dangling"
    by (rule append_header_ended [OF 3(4,3) k3 sv]) (use len lens in simp)
  then show ?thesis unfolding 1(1) 2(1) els append_headers_append by (simp add: 3(1))
qed

section \<open>The path of a file\<close>

text \<open>A string that a C string in a buffer starts.\<close>

lemma init_from_buf:
  assumes wf: "wf_mem m" and sb: "has_sbuf m (str_buf s)" and b: "blocks m (Buf b) = Some (cs @ NUL # rest)"
    and cs: "NUL \<notin> set cs" "length cs < MAX_LEN" and ne: "b \<noteq> str_buf s" and av: "always_avail m"
  obtains s' m' where "string_init_from_cstr s (Ptr (Buf b) 0) m = Inr (True, s', m')" and "str_holds m' s' cs"
    and "str_buf s' = str_buf s" and "footprint s' \<subseteq> {Buf (str_buf s), Heap (brk m)}"
    and "frame {Buf (str_buf s)} m m'"
proof -
  have bl: "block m (Buf b) = Some (cs @ NUL # rest)" using b by simp
  from view_from_cstr_bytes [OF bl, of 0] obtain sv where
    sv: "string_view_from_cstr m (Ptr (Buf b) 0) = Inr sv" "view_bytes m sv = Inr cs"
    using cs(1) by (auto simp: cstr_append_NUL)
  have "sv_data sv = Ptr (Buf b) 0"
    using sv(1) by (auto simp: string_view_from_cstr_def string_view_from_parts_def bnd_eq_Inr_iff)
  then have off: "view_off sv (Buf (str_buf s))" using ne by (simp add: view_off_def)
  from string_init_from_string_view_ok [OF wf sb sv(2) cs(2) off] av obtain s' m' where
    "string_init_from_string_view s sv m = Inr (True, s', m')" "str_rep m' s' cs" "str_buf s' = str_buf s"
    "footprint s' \<subseteq> {Buf (str_buf s), Heap (brk m)}" "frame {Buf (str_buf s)} m m'"
    by (auto simp: always_avail_def)
  then show thesis using that sv(1) frame_wf by (auto simp: string_init_from_cstr_def str_holds_def)
qed

lemma absolute_path:
  assumes wf: "wf_mem m" and av: "always_avail m" and sb: "has_sbuf m (str_buf path)"
    and r: "r_val (reply w 0) \<noteq> 0" and cwd: "cwd = r_data (reply w 0)" "NUL \<notin> set cwd" "length cwd < PATH_MAX"
    and base: "view_bytes m (get_base_dir cfg) = Inr base" "view_off (get_base_dir cfg) (Buf (str_buf path))"
    and pf: "view_bytes m postfix = Inr p" "view_off postfix (Buf (str_buf path))"
    and full: "full = cwd @ ''/'' @ base @ ''/'' @ p" "length full < MAX_LEN"
  obtains s m' where "get_absolue_path cfg postfix path m w =
       Inr (http_success, s, m', w\<lparr>os_trace := os_trace w @ [Getcwd]\<rparr>)"
    and "str_holds m' s full" and "str_buf s = str_buf path" and "frame {Buf (str_buf path)} m m'"
proof -
  let ?b = "brk m" and ?p = "str_buf path"
  let ?ma = "m\<lparr>blocks := (blocks m)(Buf ?b := Some (replicate PATH_MAX NUL)), brk := Suc ?b\<rparr>"
  let ?bl = "cwd @ NUL # drop (Suc (length cwd)) (replicate PATH_MAX NUL)"
  let ?mb = "?ma\<lparr>blocks := (blocks ?ma)(Buf ?b := Some ?bl)\<rparr>"
  have nb: "new_buf PATH_MAX m = (?b, ?ma)" by (simp add: new_buf_def)
  have cw: "cstr cwd = cwd" using cwd(2) by (simp add: cstr_id)
  have st: "store_bytes ?ma (Ptr (Buf ?b) 0) (cwd @ [NUL]) = Inr ?mb"
    using cwd(3) by (simp add: store_bytes_def)
  have mb: "?mb = m\<lparr>blocks := (blocks m)(Buf ?b := Some ?bl), brk := Suc ?b\<rparr>" by simp
  have f1: "frame {} m ?mb" unfolding mb using wf by (intro frame_alloc) auto
  have pb: "?b \<noteq> ?p"
    using sb wf_mem_used(2) [OF wf] by (fastforce simp: has_sbuf_def split: option.splits)
  have sb1: "has_sbuf ?mb ?p" using sb f1 by (rule has_sbuf_frame) simp
  have lc: "length cwd < MAX_LEN" using full by simp
  obtain s1 m1 where 1: "string_init_from_cstr path (Ptr (Buf ?b) 0) ?mb = Inr (True, s1, m1)" "str_holds m1 s1 cwd"
    "str_buf s1 = ?p" "footprint s1 \<subseteq> {Buf ?p, Heap (brk ?mb)}" "frame {Buf ?p} ?mb m1"
    by (rule init_from_buf [OF frame_wf [OF f1] sb1 _ cwd(2) lc pb always_avail_frame [OF av f1]]) simp
  have av1: "always_avail m1" using always_avail_frame [OF always_avail_frame [OF av f1] 1(5)] .
  have ap: "view_bytes m1 sv = Inr bs \<and> view_apart sv s1"
    if v: "view_bytes m sv = Inr bs" "view_off sv (Buf ?p)" for sv bs
  proof -
    have v1: "view_bytes ?mb sv = Inr bs" using f1 v(1) by (rule frame_view) simp
    have "view_off sv (Heap (brk ?mb))"
      by (rule view_off_fresh [OF v1 wf_mem_fresh(1) [OF frame_wf [OF f1]]]) simp
    with v(2) 1(4) have "view_apart sv s1" by (auto simp: view_apart_def)
    with frame_view [OF 1(5) v1] v(2) show ?thesis by simp
  qed
  let ?ps = "[P_char CHR ''/'', P_view (get_base_dir cfg), P_char CHR ''/'', P_view postfix]"
  have sh: "list_all2 (piece_shows m1 s1) ?ps [''/'', base, ''/'', p]" using ap base pf by simp
  obtain s2 m2 where 2: "append_all append_piece ?ps s1 m1 = Inr (s2, m2)" "str_frame m1 s1 m2 s2" "str_holds m2 s2 full"
    by (rule append_pieces [OF 1(2) av1 sh, of full]) (use full in simp_all)
  from 2(2) obtain c2 where c2: "str_step m1 s1 m2 s2 c2" unfolding str_frame_def ..
  have fr: "frame {Buf ?p} m m1" using frame_mono [OF f1, of "{Buf ?p}"] 1(5) by (rule frame_trans) simp_all
  have fr2: "frame {Buf ?p} m m2"
    using fr str_stepD(3) [OF c2] by (rule frame_trans) (use 1(4) wf in \<open>auto simp: wf_mem_def\<close>)
  have fr': "frame {Buf ?p} m (drop_buf ?b m2)" using fr2 by (rule frame_drop_buf) (use wf in simp)
  have nf: "Buf ?b \<notin> footprint s2"
    using str_step_footprint [OF c2, of "Buf ?b"] 1(4) pb frame_blocks [OF 1(5), of "Buf ?b" ?bl] by auto
  have fd: "frame {Buf ?b} m2 (drop_buf ?b m2)"
    using 2(3) by (auto simp: str_holds_def frame_def drop_buf_def wf_mem_def)
  have h: "str_holds (drop_buf ?b m2) s2 full"
    using 2(3) nf str_rep_frame [OF _ fd] frame_wf [OF fd] by (simp add: str_holds_def)
  have g: "get_absolue_path cfg postfix path m w =
      Inr (http_success, s2, drop_buf ?b m2, w\<lparr>os_trace := os_trace w @ [Getcwd]\<rparr>)"
    using r cwd(1,3) cw st 1(1) 2(1) by (simp add: get_absolue_path_def nb reply_simps not_le)
  show thesis by (rule that [OF g h _ fr']) (use str_stepD(2) [OF c2] 1(3) in simp)
qed

section \<open>The response to GET\<close>

text \<open>
  Building the response: its headers are in place, and the value of the second is a view of the
  number's buffer, which ends with the call.
\<close>

lemma http_response_new_avail:
  "avail m (brk m) \<Longrightarrow> http_response_new m = (http_success,
     Some \<lparr>rep_method = http_method_get, rep_version = http_ver_1_0,
       rep_status = \<lparr>status_code = 0, status_message = zero_view\<rparr>, rep_headers = cc_init, rep_body = zero_view\<rparr>,
     m\<lparr>brk := Suc (brk m)\<rparr>)"
  by (simp add: http_response_new_def alloc_request_def)

definition text_header :: "http_header_field_t \<Rightarrow> string_view_t \<Rightarrow> http_header_t" where
  "text_header f v = zero_header\<lparr>hdr_field := f, hdr_value := (hdr_value zero_header)\<lparr>value_sv := v\<rparr>\<rparr>"

lemma text_header_simps [simp]:
  "hdr_field (text_header f v) = f" "value_sv (hdr_value (text_header f v)) = v"
  by (simp_all add: text_header_def)

lemma cc_push_avail:
  assumes "avail m (brk m)"
  obtains c m' where "cc_push v x m = (True, \<lparr>vec_els = vec_els v @ [x], vec_cap = c\<rparr>, m')"
    and "m' = m \<or> m' = m\<lparr>brk := Suc (brk m)\<rparr>"
proof (cases "cc_size v + 1 > vec_cap v")
  case True
  then show thesis
    using assms by (intro that [of "grow_cap (if vec_cap v = 0 then 2 else vec_cap v) (cc_size v + 1)" "m\<lparr>brk := Suc (brk m)\<rparr>"])
      (simp_all add: cc_push_unfold alloc_request_def)
next
  case False
  then show thesis using assms by (intro that [of "vec_cap v" m]) (simp_all add: cc_push_unfold)
qed

lemma add_header_avail:
  assumes "avail m (brk m)"
  obtains c m' where "http_response_add_header rep f v m = (http_success,
     rep\<lparr>rep_headers := \<lparr>vec_els = vec_els (rep_headers rep) @ [text_header f v], vec_cap = c\<rparr>\<rparr>, m')"
    and "m' = m \<or> m' = m\<lparr>brk := Suc (brk m)\<rparr>"
proof -
  obtain c m' where "cc_push (rep_headers rep) (text_header f v) m =
      (True, \<lparr>vec_els = vec_els (rep_headers rep) @ [text_header f v], vec_cap = c\<rparr>, m')"
    "m' = m \<or> m' = m\<lparr>brk := Suc (brk m)\<rparr>" by (rule cc_push_avail [OF assms])
  then show thesis by (intro that [of c m']) (simp_all add: http_response_add_header_def text_header_def)
qed

lemma brk_frame: "wf_mem m \<Longrightarrow> m' = m \<or> m' = m\<lparr>brk := Suc (brk m)\<rparr> \<Longrightarrow> frame {} m m'"
  by (auto intro: frame_brk)

text \<open>The number in its buffer, as a view.\<close>

lemma number_buffer:
  assumes wf: "wf_mem m" and nb: "new_buf 16 m = (b, m1)"
  obtains m2 v where "c_snprintf (Ptr (Buf b) 0) 16 (dec_nat n) m1 = Inr m2"
    and "string_view_from_cstr m2 (Ptr (Buf b) 0) = Inr v" and "sv_data v = Ptr (Buf b) 0"
    and "0 < sv_len v" and "sv_len v \<le> 15" and "frame {} m m2" and "b = brk m" and "b < brk m2"
proof -
  let ?t = "take 15 (dec_nat n)"
  let ?m1 = "m\<lparr>blocks := (blocks m)(Buf (brk m) := Some (replicate 16 NUL)), brk := Suc (brk m)\<rparr>"
  let ?bl = "?t @ NUL # drop (Suc (length ?t)) (replicate 16 NUL)"
  let ?m2 = "?m1\<lparr>blocks := (blocks ?m1)(Buf (brk m) := Some ?bl)\<rparr>"
  have b: "b = brk m" "m1 = ?m1" using nb by (auto simp: new_buf_def)
  have sn: "c_snprintf (Ptr (Buf b) 0) 16 (dec_nat n) m1 = Inr ?m2"
    using b by (simp add: c_snprintf_def store_bytes_def)
  have nn: "NUL \<notin> set ?t" using dec_nat_no_NUL [of n] in_set_takeD by fastforce
  have "block ?m2 (Buf b) = Some ?bl" using b by simp
  from view_from_cstr_bytes [OF this, of 0] obtain v where
    v: "string_view_from_cstr ?m2 (Ptr (Buf b) 0) = Inr v" "view_bytes ?m2 v = Inr (cstr ?bl)" by auto
  have c: "cstr ?bl = ?t" using nn by (rule cstr_append_NUL)
  have d: "sv_data v = Ptr (Buf b) 0"
    using v(1) by (auto simp: string_view_from_cstr_def string_view_from_parts_def bnd_eq_Inr_iff)
  have l: "sv_len v = length ?t" using view_bytes_length [OF v(2)] c by simp
  have m2: "?m2 = m\<lparr>blocks := (blocks m)(Buf (brk m) := Some ?bl), brk := Suc (brk m)\<rparr>" by simp
  have "frame {} m ?m2" unfolding m2 using wf by (intro frame_alloc) auto
  with sn v(1) d l b(1) show thesis by (intro that [of ?m2 v]) (simp_all add: Suc_le_eq)
qed

lemma get_response_made:
  assumes wf: "wf_mem (app_mem a)" and av: "always_avail (app_mem a)"
  obtains rep a' v ct where "get_response b status body a = Inr (http_success, Some rep, a')"
    and "rep_version rep = http_ver_1_0" and "rep_status rep = status" and "rep_body rep = body"
    and "vec_els (rep_headers rep) = [text_header http_hdr_content_type (lit_view ''text/html; charset=UTF-8''),
       text_header http_hdr_content_length v]"
    and "sv_data v = Ptr (Buf ct) 0" and "0 < sv_len v" and "sv_len v \<le> 15"
    and "blocks (app_mem a') (Buf ct) = None" and "ct < brk (app_mem a')"
    and "frame {Buf b} (app_mem a) (app_mem a')" and "app_table a' = app_table a" and "app_os a' = app_os a"
proof -
  let ?m = "app_mem a"
  let ?r = "\<lparr>rep_method = http_method_get, rep_version = http_ver_1_0, rep_status = status,
     rep_headers = cc_init, rep_body = zero_view\<rparr>"
  let ?m1 = "?m\<lparr>brk := Suc (brk ?m)\<rparr>"
  have f1: "frame {} ?m ?m1" using wf by (rule frame_brk)
  have new: "http_response_new ?m = (http_success, Some \<lparr>rep_method = http_method_get, rep_version = http_ver_1_0,
       rep_status = \<lparr>status_code = 0, status_message = zero_view\<rparr>, rep_headers = cc_init, rep_body = zero_view\<rparr>, ?m1)"
    using av by (intro http_response_new_avail) (simp add: always_avail_def)
  have ct: "string_view_from_cstr ?m1 (lit ''text/html; charset=UTF-8'') = Inr (lit_view ''text/html; charset=UTF-8'')"
    unfolding lit_view_def by (rule string_view_from_cstr_lit) simp
  have "avail ?m1 (brk ?m1)" using av by (simp add: always_avail_def)
  then obtain c2 m2 where 2: "http_response_add_header ?r http_hdr_content_type (lit_view ''text/html; charset=UTF-8'') ?m1 =
      (http_success, ?r\<lparr>rep_headers := \<lparr>vec_els = vec_els (rep_headers ?r) @
         [text_header http_hdr_content_type (lit_view ''text/html; charset=UTF-8'')], vec_cap = c2\<rparr>\<rparr>, m2)"
    "m2 = ?m1 \<or> m2 = ?m1\<lparr>brk := Suc (brk ?m1)\<rparr>" by (rule add_header_avail)
  let ?r2 = "?r\<lparr>rep_headers := \<lparr>vec_els = [text_header http_hdr_content_type (lit_view ''text/html; charset=UTF-8'')], vec_cap = c2\<rparr>\<rparr>"
  have f2: "frame {} ?m1 m2" using frame_wf [OF f1] 2(2) by (rule brk_frame)
  obtain nb m3 where nb: "new_buf 16 m2 = (nb, m3)" by force
  obtain m4 v where 4: "c_snprintf (Ptr (Buf nb) 0) 16 (dec_nat (string_view_len body)) m3 = Inr m4"
    "string_view_from_cstr m4 (Ptr (Buf nb) 0) = Inr v" "sv_data v = Ptr (Buf nb) 0"
    "0 < sv_len v" "sv_len v \<le> 15" "frame {} m2 m4" "nb = brk m2" "nb < brk m4"
    by (rule number_buffer [OF frame_wf [OF f2] nb])
  have fm: "frame {} ?m m2" using f1 f2 by (rule frame_trans) simp
  have f4: "frame {} ?m m4" using fm 4(6) by (rule frame_trans) simp
  have "avail m4 (brk m4)" using always_avail_frame [OF av f4] by (simp add: always_avail_def)
  then obtain c5 m5 where 5: "http_response_add_header ?r2 http_hdr_content_length v m4 =
      (http_success, ?r2\<lparr>rep_headers := \<lparr>vec_els = vec_els (rep_headers ?r2) @ [text_header http_hdr_content_length v], vec_cap = c5\<rparr>\<rparr>, m5)"
    "m5 = m4 \<or> m5 = m4\<lparr>brk := Suc (brk m4)\<rparr>" by (rule add_header_avail)
  have f5: "frame {} m4 m5" using frame_wf [OF 4(6)] 5(2) by (rule brk_frame)
  have f: "frame {} ?m m5" using f4 f5 by (rule frame_trans) simp
  let ?m' = "drop_buf b (drop_buf nb m5)"
  have nf: "blocks ?m (Buf nb) = None"
    using 4(7) wf frame_brk_le [OF fm] by (simp add: wf_mem_def)
  have fd: "frame {} ?m (drop_buf nb m5)" using f nf by (rule frame_drop_buf)
  have fd': "frame {Buf b} ?m ?m'"
    using frame_mono [OF fd, of "{Buf b}"] by (auto simp: frame_def drop_buf_def wf_mem_def)
  let ?rep = "?r\<lparr>rep_headers := \<lparr>vec_els = [text_header http_hdr_content_type (lit_view ''text/html; charset=UTF-8''),
      text_header http_hdr_content_length v], vec_cap = c5\<rparr>, rep_body := body\<rparr>"
  have g: "get_response b status body a = Inr (http_success, Some ?rep, with_mem ?m' a)"
    using new ct 2(1) nb 4(1,2) 5(1) by (simp add: get_response_def Let_def get_end_def cc_init_def)
  show thesis
    by (rule that [OF g _ _ _ _ 4(3-5)]) (use 4(8) fd' frame_brk_le [OF f5] in \<open>simp_all add: drop_buf_def\<close>)
qed

end
