(* ===== verification/Server.thy ===== *)
theory Server
  imports Dispatch
begin

text \<open>
  \<^verbatim>\<open>core/server.c\<close> and \<^verbatim>\<open>core/client.c\<close>: the listening socket, new clients,
  sending a response, reading from a client and answering its requests. Both files are in one
  theory, as each calls the other.
\<close>

section \<open>The listening socket\<close>

text \<open>The second component is \<^verbatim>\<open>*fd\<close>, \<open>None\<close> while it is not written.\<close>

definition get_ipv4_server_fd :: "config \<Rightarrow> os \<Rightarrow> http_err_t \<times> fd_t option \<times> os" where
  "get_ipv4_server_fd cfg w =
     (case os_call Socket w of (r, w) \<Rightarrow>
      if r_val r < 0 then (http_err_socket, None, log_http_message HTTP_SOCKET_ERR w)
      else
      let fd = r_val r in
      case os_call (Setsockopt fd) w of (r, w) \<Rightarrow>
      if r_val r < 0 then (http_err_setsocketopt, Some fd, log_http_message HTTP_SETSOCKETOPT_ERR w)
      else case os_call (Inet_pton (string_view_cstr (get_host cfg))) w of (r, w) \<Rightarrow>
      if r_val r \<noteq> 1
      then (http_err_inet_pton, Some fd, os_do (Close fd) (log_http_message HTTP_INET_PTON_ERR w))
      else case os_call (Bind fd (htons (config_get_port cfg))) w of (r, w) \<Rightarrow>
      if r_val r < 0 then (http_err_bind, Some fd, os_do (Close fd) (log_http_message HTTP_BIND_ERR w))
      else case os_call (Listen fd (config_get_listen_que cfg)) w of (r, w) \<Rightarrow>
      if r_val r < 0 then (http_err_listen, Some fd, os_do (Close fd) (log_http_message HTTP_LISTEN_ERR w))
      else case setnoblocking fd w of (herr, w) \<Rightarrow>
      if herr \<noteq> http_success then (herr, Some fd, os_do (Close fd) w)
      else (herr, Some fd, log_http_message HTTP_START_LISTEN w))"

section \<open>The data of a client\<close>

text \<open>
  The object behind the pointer has the number \<open>brk\<close> of the memory it is made in. When the
  parser's context cannot be made, the pointer is set all the same.
\<close>

definition create_client_data ::
  "fd_t \<Rightarrow> in_addr \<Rightarrow> int \<Rightarrow> app \<Rightarrow> (http_err_t \<times> nat option \<times> app) res" where
  "create_client_data fd addr port a =
     (let cid = brk (app_mem a) in
      case alloc_request (app_mem a) of (ok, m) \<Rightarrow>
      if \<not> ok then Inr (http_err_malloc, None, app_log HTTP_MALLOC_ERR (with_mem m a))
      else case new_buf STR_SMALL_BUF_SIZE m of (b, m) \<Rightarrow>
      bnd (ipv4_net2str (zero_string b) addr m) (\<lambda>(ip, m).
      bnd (http_parse_ctx_new ((app_ps a)\<lparr>ps_mem := m\<rparr>)) (\<lambda>(herr, beg, ps).
      let c = \<lparr>cl_fd = fd, cl_ip = ip, cl_port = htons port, ctx_beg = beg,
               ctx_tail = (if herr \<noteq> http_success then None else beg)\<rparr> in
      Inr (herr, Some cid, a\<lparr>app_ps := ps, app_data := (app_data a)(cid := Some (Client c))\<rparr>))))"

text \<open>The list of contexts has at most \<open>brk\<close> nodes.\<close>

definition client_data_free :: "nat \<Rightarrow> client_data_t \<Rightarrow> app \<Rightarrow> app res" where
  "client_data_free cid c a =
     bnd (http_parse_ctx_destroy_chain (Suc (brk (app_mem a))) (ctx_beg c) (app_ps a)) (\<lambda>ps.
     bnd (string_destroy (cl_ip c) (ps_mem ps)) (\<lambda>m.
     Inr (a\<lparr>app_ps := ps\<lparr>ps_mem := drop_buf (str_buf (cl_ip c)) m\<rparr>,
            app_data := (app_data a)(cid := None)\<rparr>)))"

section \<open>A new client\<close>

text \<open>
  Every path through the body of \<^verbatim>\<open>while (true)\<close> leaves the function, so the body is run
  once. The result is what the callback hands to \<^verbatim>\<open>CALL_BACK_RETURN\<close>.
\<close>

definition handle_server_fd :: "fn_args_t \<Rightarrow> app \<Rightarrow> (http_err_t option \<times> app) res" where
  "handle_server_fd args a =
     (case app_data a (fa_usrdata args) of
        None \<Rightarrow> Inl Dangling
      | Some server_data \<Rightarrow>
        case app_call (Accept (data_fd server_data)) a of (r, a) \<Rightarrow>
        let client_fd = r_val r; done = (\<lambda>herr a. (call_back_set args herr, a)) in
        if client_fd < 0
        then if r_errno r = EINTR \<or> r_errno r = EAGAIN then Inr (done http_success a)
             else Inr (done http_err_accept (app_log HTTP_ACCEPT_ERR a))
        else
        bnd (create_client_data client_fd (map nat (take 4 (r_nums r))) (reply_num r 4) a) (\<lambda>(herr, usrdata, a).
        if herr \<noteq> http_success then Inr (done herr (app_do (Close client_fd) a))
        else case usrdata of
          None \<Rightarrow> Inl Null_deref
        | Some cid \<Rightarrow>
          let a = app_log HTTP_NEW_CLIENT_GREAT a in
          case setnoblocking client_fd (app_os a) of (herr, w) \<Rightarrow>
          let a = a\<lparr>app_os := w\<rparr> in
          if herr \<noteq> http_success then Inr (done herr (app_do (Close client_fd) a))
          else
          case app_call (Epoll_add (fa_epoll_fd args) client_fd cid) a of (r, a) \<Rightarrow>
          if r_val r < 0
          then Inr (done herr (app_do (Close client_fd) (app_log HTTP_EPOLL_CTL_ADD_ERR a)))
          else Inr (done herr a)))"

section \<open>Sending a response\<close>

text \<open>The string with the text is not destroyed: a long one is leaked.\<close>

definition http_send_response ::
  "client_data_t \<Rightarrow> http_response_t \<Rightarrow> app \<Rightarrow> (http_err_t \<times> app) res" where
  "http_send_response client response a =
     (case new_buf STR_SMALL_BUF_SIZE (app_mem a) of (b, m) \<Rightarrow>
      bnd (http_response_to_string response (zero_string b) m) (\<lambda>(_, post, m).
      bnd (load_bytes m (string_cstr post) (string_len post)) (\<lambda>bytes.
      case app_call (Write (cl_fd client) bytes) (with_mem (drop_buf b m) a) of (r, a) \<Rightarrow>
      if r_val r < 0 then Inr (http_err_write, app_log HTTP_WRITE_ERR a)
      else Inr (http_success, a))))"

section \<open>Reading from a client\<close>

definition C_BUFSIZ :: nat where "C_BUFSIZ = 8192"

text \<open>The inner loop: a read that a signal interrupts is made again.\<close>

fun read_retry :: "nat \<Rightarrow> fd_t \<Rightarrow> nat \<Rightarrow> app \<Rightarrow> (os_reply \<times> app) res" where
  "read_retry 0 fd n a = Inl No_fuel"
| "read_retry (Suc fuel) fd n a =
     (case app_call (Read fd n) a of (r, a) \<Rightarrow>
        if r_val r < 0 \<and> r_errno r = EINTR then read_retry fuel fd n a else Inr (r, a))"

text \<open>
  The outer loop, with the address of the array. The number of bytes a successful read returns
  is that of the bytes it delivers, at most as many as were asked for. The first component says
  whether the connection is to be closed.
\<close>

fun read_loop :: "nat \<Rightarrow> client_data_t \<Rightarrow> ptr \<Rightarrow> string_t \<Rightarrow> app \<Rightarrow> (bool \<times> string_t \<times> app) res" where
  "read_loop 0 c buffer s a = Inl No_fuel"
| "read_loop (Suc fuel) c buffer s a =
     bnd (read_retry (Suc fuel) (cl_fd c) (C_BUFSIZ - 1) a) (\<lambda>(r, a).
     if r_val r < 0
     then if r_errno r = EAGAIN then Inr (False, s, a)
          else Inr (True, s, app_log HTTP_READ_ERR a)
     else
       let bytes = take (C_BUFSIZ - 1) (r_data r) in
       if bytes = [] then Inr (True, s, a)
       else bnd (store_bytes (app_mem a) buffer (bytes @ [NUL])) (\<lambda>m.
            bnd (string_append_parts s buffer (length bytes) m) (\<lambda>(_, s, m).
            read_loop fuel c buffer s (with_mem m (app_log HTTP_RECV_FROM_CLIENT a)))))"

definition read_client ::
  "nat \<Rightarrow> string_t \<Rightarrow> client_data_t \<Rightarrow> app \<Rightarrow> (http_err_t \<times> string_t \<times> app) res" where
  "read_client fuel rec_str c a =
     (case new_buf C_BUFSIZ (app_mem a) of (b, m) \<Rightarrow>
      bnd (string_init rec_str m) (\<lambda>(s, m).
      bnd (read_loop fuel c (Ptr (Buf b) 0) s (with_mem m a)) (\<lambda>(req_close, s, a).
      let a = with_mem (drop_buf b (app_mem a)) a in
      if req_close then Inr (http_err_client_close, s, a) else Inr (http_success, s, a))))"

section \<open>Answering a client\<close>

text \<open>
  The loop over the requests that are complete, with the value of \<^verbatim>\<open>herr\<close>. The pointer to
  the first node of the list is kept up to date in the client's data, the pointer to its last
  node is not. A response that was not made is an assertion.
\<close>

fun answer_loop :: "nat \<Rightarrow> nat \<Rightarrow> http_err_t \<Rightarrow> app \<Rightarrow> (http_err_t \<times> app) res" where
  "answer_loop 0 cid herr a = Inl No_fuel"
| "answer_loop (Suc fuel) cid herr a =
     (case app_data a cid of
        Some (Client c) \<Rightarrow>
          bnd (http_parse_pop_request_and_release (ctx_beg c) (app_ps a)) (\<lambda>(got, request, beg, ps).
          let c = c\<lparr>ctx_beg := beg\<rparr>;
              a = a\<lparr>app_ps := ps, app_data := (app_data a)(cid := Some (Client c))\<rparr> in
          if \<not> got then Inr (herr, a)
          else case request of
            None \<Rightarrow> Inl Null_deref
          | Some request \<Rightarrow>
            bnd (handle_http_request request a) (\<lambda>(herr, response, a).
            if herr \<noteq> http_success then Inr (herr, a)
            else bnd (c_assert (ndebug (app_mem a)) (response \<noteq> None)) (\<lambda>_.
            case response of
              None \<Rightarrow> Inl Null_deref
            | Some response \<Rightarrow>
              bnd (http_send_response c response a) (\<lambda>(herr, a).
              if herr \<noteq> http_success then Inr (herr, a) else answer_loop fuel cid herr a))))
      | _ \<Rightarrow> Inl Dangling)"

text \<open>
  The end of a connection: the descriptor is taken out of the epoll instance, and
  \<^verbatim>\<open>epoll_fd\<close> is closed.
\<close>

definition close_client :: "fn_args_t \<Rightarrow> nat \<Rightarrow> client_data_t \<Rightarrow> http_err_t \<Rightarrow> app \<Rightarrow> (http_err_t \<times> app) res" where
  "close_client args cid c herr a =
     (case app_call (Epoll_del (fa_epoll_fd args) (cl_fd c)) a of (r, a) \<Rightarrow>
      case (if r_val r < 0 then (http_err_epoll_ctl_del, app_log HTTP_EPOLL_CTL_DEL_ERR a) else (herr, a)) of
        (herr, a) \<Rightarrow>
      let a = app_do (Close (fa_epoll_fd args)) a in
      bnd (client_data_free cid c a) (\<lambda>a. Inr (herr, a)))"

text \<open>
  The callback. The string that was read into ends with the call; it is not destroyed.
\<close>

definition handle_client_fd :: "nat \<Rightarrow> fn_args_t \<Rightarrow> app \<Rightarrow> (http_err_t option \<times> app) res" where
  "handle_client_fd fuel args a =
     (let cid = fa_usrdata args in
      case app_data a cid of
        Some (Client c) \<Rightarrow>
          let a = app_log HTTP_REPORT_CLIENT_INFO a in
          (case new_buf STR_SMALL_BUF_SIZE (app_mem a) of (b, m) \<Rightarrow>
           let done = (\<lambda>herr a. (call_back_set args herr, with_mem (drop_buf b (app_mem a)) a)) in
           bnd (read_client fuel (zero_string b) c (with_mem m a)) (\<lambda>(herr, receive_post, a).
           if herr = http_err_client_close
           then bnd (close_client args cid c herr a) (\<lambda>(herr, a). Inr (done herr a))
           else
           bnd (http_parse_feed (ctx_tail c) (string_view_from_string receive_post) (app_ps a)) (\<lambda>(herr, tail, ps).
           let a = a\<lparr>app_ps := ps, app_data := (app_data a)(cid := Some (Client (c\<lparr>ctx_tail := tail\<rparr>)))\<rparr> in
           if herr = http_err_request_fatal then Inr (done herr a)
           else
           bnd (answer_loop (Suc (brk (app_mem a))) cid herr a) (\<lambda>(herr, a). Inr (done herr a)))))
      | _ \<Rightarrow> Inl Dangling)"

end
