(* ===== verification/ReadProps.thy ===== *)
theory ReadProps
  imports DispatchProps Server
begin

text \<open>
  Reading from a client: what the loop does, as a function of the answers of the system alone,
  and that the code - with its array, its string and their memory - implements it.
\<close>

section \<open>The abstract loop\<close>

text \<open>Reads are made until one is not interrupted.\<close>

fun recv_one :: "nat \<Rightarrow> fd_t \<Rightarrow> nat \<Rightarrow> os \<Rightarrow> (os_reply \<times> os) option" where
  "recv_one 0 fd n w = None"
| "recv_one (Suc fuel) fd n w =
     (case os_call (Read fd n) w of (r, w) \<Rightarrow>
        if r_val r < 0 \<and> r_errno r = EINTR then recv_one fuel fd n w else Some (r, w))"

text \<open>
  The bytes that arrive before the socket is empty, fails, or is closed by the other side; the
  first component says whether the connection is over.
\<close>

fun recv_all :: "nat \<Rightarrow> fd_t \<Rightarrow> os \<Rightarrow> (bool \<times> char list \<times> os) option" where
  "recv_all 0 fd w = None"
| "recv_all (Suc fuel) fd w =
     (case recv_one (Suc fuel) fd (C_BUFSIZ - 1) w of
        None \<Rightarrow> None
      | Some (r, w) \<Rightarrow>
          if r_val r < 0
          then if r_errno r = EAGAIN then Some (False, [], w)
               else Some (True, [], log_http_message HTTP_READ_ERR w)
          else let bytes = take (C_BUFSIZ - 1) (r_data r) in
               if bytes = [] then Some (True, [], w)
               else (case recv_all fuel fd (log_http_message HTTP_RECV_FROM_CLIENT w) of
                       None \<Rightarrow> None
                     | Some (over, rest, w) \<Rightarrow> Some (over, bytes @ rest, w)))"

section \<open>The code implements it\<close>

lemma app_call_os: "app_call e a = (let (r, w) = os_call e (app_os a) in (r, a\<lparr>app_os := w\<rparr>))"
  by (simp add: app_call_def)

lemma read_retry_recv:
  "recv_one fuel fd n (app_os a) = Some (r, w) \<Longrightarrow> read_retry fuel fd n a = Inr (r, a\<lparr>app_os := w\<rparr>)"
proof (induction fuel arbitrary: a)
  case (Suc fuel)
  show ?case
  proof (cases "r_val (reply (app_os a) 0) < 0 \<and> r_errno (reply (app_os a) 0) = EINTR")
    case True
    let ?a = "a\<lparr>app_os := (app_os a)\<lparr>os_trace := os_trace (app_os a) @ [Read fd n]\<rparr>\<rparr>"
    have "recv_one fuel fd n (app_os ?a) = Some (r, w)" using Suc.prems True by (simp add: reply_fold)
    from Suc.IH [OF this] show ?thesis using True by (simp add: app_call_def reply_fold)
  next
    case False
    with Suc.prems show ?thesis by (auto simp: app_call_def reply_fold)
  qed
qed simp

text \<open>Bytes in the array, as a view of it.\<close>

lemma store_in_array:
  assumes "wf_mem m" and "blocks m (Buf b) = Some old" and "length old = C_BUFSIZ" and "length bs < C_BUFSIZ" and "bs \<noteq> []"
  obtains m' new where "store_bytes m (Ptr (Buf b) 0) (bs @ [NUL]) = Inr m'" and "blocks m' (Buf b) = Some new"
    and "length new = C_BUFSIZ" and "view_bytes m' \<lparr>sv_data = Ptr (Buf b) 0, sv_len = length bs\<rparr> = Inr bs"
    and "frame {Buf b} m m'"
proof -
  let ?new = "bs @ NUL # drop (Suc (length bs)) old"
  let ?m = "m\<lparr>blocks := (blocks m)(Buf b := Some ?new)\<rparr>"
  have st: "store_bytes m (Ptr (Buf b) 0) (bs @ [NUL]) = Inr ?m"
    using assms(2-4) by (simp add: store_bytes_def)
  have fr: "frame {Buf b} m ?m" using assms(1,2) by (intro frame_update) auto
  have "view_bytes ?m \<lparr>sv_data = Ptr (Buf b) 0, sv_len = length bs\<rparr> = Inr bs"
    using assms(3-5) by (simp add: view_bytes_def load_bytes_def)
  with st fr assms(3,4) show thesis by (intro that [of ?m ?new]) simp_all
qed

lemma read_loop_recv:
  assumes "recv_all fuel (cl_fd c) (app_os a) = Some (over, bytes, w)"
    and "str_holds (app_mem a) s cs" and "always_avail (app_mem a)" and "length cs + length bytes < MAX_LEN"
    and "blocks (app_mem a) (Buf b) = Some arr" and "length arr = C_BUFSIZ" and "Buf b \<notin> footprint s"
  shows "\<exists>s' m'. read_loop fuel c (Ptr (Buf b) 0) s a = Inr (over, s', (with_mem m' a)\<lparr>app_os := w\<rparr>) \<and>
     str_holds m' s' (cs @ bytes) \<and> always_avail m' \<and> str_buf s' = str_buf s \<and> Buf b \<notin> footprint s' \<and>
     frame (insert (Buf b) (footprint s)) (app_mem a) m' \<and>
     (\<forall>x \<in> footprint s'. x \<in> footprint s \<or> blocks (app_mem a) x = None)"
  using assms
proof (induction fuel arbitrary: a s cs bytes arr)
  case (Suc fuel)
  let ?m = "app_mem a"
  have wf: "wf_mem ?m" and rep: "str_rep ?m s cs" using Suc.prems(2) by (simp_all add: str_holds_def)
  from Suc.prems(1) obtain r w1 where one: "recv_one (Suc fuel) (cl_fd c) (C_BUFSIZ - 1) (app_os a) = Some (r, w1)"
    by (auto split: option.splits)
  note rd = read_retry_recv [OF one]
  have same: "with_mem ?m a = a" by (simp add: with_mem_def)
  show ?case
  proof (cases "r_val r < 0 \<or> take (C_BUFSIZ - 1) (r_data r) = []")
    case True
    then have "read_loop (Suc fuel) c (Ptr (Buf b) 0) s a = Inr (over, s, a\<lparr>app_os := w\<rparr>) \<and> bytes = []"
      using Suc.prems(1) one rd by (auto simp: app_log_def Let_def simp del: recv_one.simps read_retry.simps split: if_splits)
    then show ?thesis using Suc.prems(2,3,7) same wf by (intro exI [of _ s] exI [of _ ?m]) simp
  next
    case False
    let ?bs = "take (C_BUFSIZ - 1) (r_data r)"
    let ?w1 = "log_http_message HTTP_RECV_FROM_CLIENT w1"
    from False Suc.prems(1) one obtain rest where
      rest: "recv_all fuel (cl_fd c) ?w1 = Some (over, rest, w)" "bytes = ?bs @ rest"
      by (auto simp del: recv_one.simps simp: Let_def split: option.splits)
    have lb: "length ?bs < C_BUFSIZ" by (simp add: C_BUFSIZ_def)
    obtain m1 new where 1: "store_bytes ?m (Ptr (Buf b) 0) (?bs @ [NUL]) = Inr m1" "blocks m1 (Buf b) = Some new"
      "length new = C_BUFSIZ" "view_bytes m1 \<lparr>sv_data = Ptr (Buf b) 0, sv_len = length ?bs\<rparr> = Inr ?bs" "frame {Buf b} ?m m1"
      by (rule store_in_array [OF wf Suc.prems(5,6) lb]) (use False in auto)
    have rep1: "str_rep m1 s cs" using rep 1(5) by (rule str_rep_frame) (use Suc.prems(7) in simp)
    let ?v = "\<lparr>sv_data = Ptr (Buf b) 0, sv_len = length ?bs\<rparr>"
    have ap: "view_apart ?v s" using Suc.prems(7) by (auto simp: view_apart_def view_off_def)
    have av1: "always_avail m1" using Suc.prems(3) 1(5) by (rule always_avail_frame)
    have l1: "length cs + length ?bs < MAX_LEN" using Suc.prems(4) rest(2) by simp
    from string_append_view_step [OF rep1 frame_wf [OF 1(5)] 1(4) ap l1] av1 obtain s2 m2 where
      2: "string_append_view s ?v m1 = Inr (True, s2, m2)" "str_step m1 s m2 s2 (cs @ ?bs)"
      by (auto simp: always_avail_def)
    note st = str_stepD [OF 2(2)]
    have nb: "Buf b \<notin> footprint s2" using str_step_footprint [OF 2(2), of "Buf b"] Suc.prems(7) 1(2) by auto
    have arr2: "blocks m2 (Buf b) = Some new" using st(3) Suc.prems(7) 1(2) by (rule frame_blocks)
    let ?a2 = "(with_mem m2 a)\<lparr>app_os := ?w1\<rparr>"
    have h2: "str_holds (app_mem ?a2) s2 (cs @ ?bs)" using st(1,4) by (simp add: str_holds_def)
    have "\<exists>s' m'. read_loop fuel c (Ptr (Buf b) 0) s2 ?a2 = Inr (over, s', (with_mem m' ?a2)\<lparr>app_os := w\<rparr>) \<and>
     str_holds m' s' ((cs @ ?bs) @ rest) \<and> always_avail m' \<and> str_buf s' = str_buf s2 \<and> Buf b \<notin> footprint s' \<and>
     frame (insert (Buf b) (footprint s2)) (app_mem ?a2) m' \<and>
     (\<forall>x \<in> footprint s'. x \<in> footprint s2 \<or> blocks (app_mem ?a2) x = None)"
      by (rule Suc.IH [OF _ h2]) (use rest Suc.prems(4) arr2 1(3) nb always_avail_frame [OF av1 st(3)] in simp_all)
    then obtain s' m' where 3: "read_loop fuel c (Ptr (Buf b) 0) s2 ?a2 = Inr (over, s', (with_mem m' ?a2)\<lparr>app_os := w\<rparr>)"
     "str_holds m' s' ((cs @ ?bs) @ rest)" "always_avail m'" "str_buf s' = str_buf s2" "Buf b \<notin> footprint s'"
     "frame (insert (Buf b) (footprint s2)) m2 m'" "\<forall>x \<in> footprint s'. x \<in> footprint s2 \<or> blocks m2 x = None" by auto
    have "frame (insert (Buf b) (footprint s)) ?m m1" using 1(5) by (rule frame_mono) simp
    then have f12: "frame (insert (Buf b) (footprint s)) ?m m2" using st(3) by (rule frame_trans) simp
    have fresh: "x \<in> footprint s \<or> blocks ?m x = None" if "x \<in> footprint s2" for x
      using str_step_footprint [OF 2(2) that] frame_None [OF 1(5), of x] that nb by auto
    have f: "frame (insert (Buf b) (footprint s)) ?m m'"
      using f12 3(6)
    proof (rule frame_trans)
      fix x assume "x \<in> insert (Buf b) (footprint s2)"
      then show "x \<in> insert (Buf b) (footprint s) \<or> blocks ?m x = None" using fresh [of x] by auto
    qed
    have fp: "\<forall>x \<in> footprint s'. x \<in> footprint s \<or> blocks ?m x = None"
    proof
      fix x assume x: "x \<in> footprint s'"
      with 3(7) have "x \<in> footprint s2 \<or> blocks m2 x = None" by simp
      then show "x \<in> footprint s \<or> blocks ?m x = None"
      proof
        assume "blocks m2 x = None"
        from frame_None [OF f12 this] x 3(5) show ?thesis by auto
      qed (rule fresh)
    qed
    have "read_loop (Suc fuel) c (Ptr (Buf b) 0) s a = Inr (over, s', (with_mem m' a)\<lparr>app_os := w\<rparr>)"
      using False rd 1(1) 2(1) 3(1)
      by (simp add: app_log_def Let_def string_append_parts_def string_view_from_parts_def
          del: recv_one.simps read_retry.simps)
    with 3(2-5) f fp st(2) rest(2) show ?thesis by auto
  qed
qed simp

lemma read_client_recv:
  assumes recv: "recv_all fuel (cl_fd c) (app_os a) = Some (over, bytes, w)" and len: "length bytes < MAX_LEN"
    and wf: "wf_mem (app_mem a)" and av: "always_avail (app_mem a)" and sb: "has_sbuf (app_mem a) (str_buf rec)"
  obtains s m' where "read_client fuel rec c a =
       Inr (if over then http_err_client_close else http_success, s, (with_mem m' a)\<lparr>app_os := w\<rparr>)"
    and "str_holds m' s bytes" and "always_avail m'" and "str_buf s = str_buf rec"
    and "frame {Buf (str_buf rec)} (app_mem a) m'"
    and "\<forall>x \<in> footprint s. x = Buf (str_buf rec) \<or> blocks (app_mem a) x = None"
proof -
  let ?m = "app_mem a" and ?r = "Buf (str_buf rec)"
  let ?b = "brk ?m" and ?m1 = "?m\<lparr>blocks := (blocks ?m)(Buf (brk ?m) := Some (replicate C_BUFSIZ NUL)), brk := Suc (brk ?m)\<rparr>"
  have nb: "new_buf C_BUFSIZ ?m = (?b, ?m1)" by (simp add: new_buf_def)
  have f1: "frame {} ?m ?m1" using wf by (intro frame_alloc) auto
  have rb: "Buf ?b \<noteq> ?r" using sb wf_mem_used(2) [OF wf] by (fastforce simp: has_sbuf_def split: option.splits)
  have sb1: "has_sbuf ?m1 (str_buf rec)" using sb f1 by (rule has_sbuf_frame) simp
  from string_init_rep [OF frame_wf [OF f1] sb1] obtain s m2 where
    2: "string_init rec ?m1 = Inr (s, m2)" "str_rep m2 s []" "str_buf s = str_buf rec" "footprint s = {?r}"
      "frame {?r} ?m1 m2" by blast
  let ?a = "with_mem m2 a"
  have h: "str_holds (app_mem ?a) s []" using 2(2) frame_wf [OF 2(5)] by (simp add: str_holds_def)
  have av2: "always_avail (app_mem ?a)" using always_avail_frame [OF always_avail_frame [OF av f1] 2(5)] by simp
  have arr: "blocks (app_mem ?a) (Buf ?b) = Some (replicate C_BUFSIZ NUL)"
    using frame_blocks [OF 2(5), of "Buf ?b" "replicate C_BUFSIZ NUL"] rb by simp
  have "\<exists>s' m'. read_loop fuel c (Ptr (Buf ?b) 0) s ?a = Inr (over, s', (with_mem m' ?a)\<lparr>app_os := w\<rparr>) \<and>
     str_holds m' s' ([] @ bytes) \<and> always_avail m' \<and> str_buf s' = str_buf s \<and> Buf ?b \<notin> footprint s' \<and>
     frame (insert (Buf ?b) (footprint s)) (app_mem ?a) m' \<and>
     (\<forall>x \<in> footprint s'. x \<in> footprint s \<or> blocks (app_mem ?a) x = None)"
    by (rule read_loop_recv [OF _ h av2 _ arr]) (use recv len rb 2(4) in simp_all)
  then obtain s' m3 where 3: "read_loop fuel c (Ptr (Buf ?b) 0) s ?a = Inr (over, s', (with_mem m3 ?a)\<lparr>app_os := w\<rparr>)"
    "str_holds m3 s' bytes" "always_avail m3" "str_buf s' = str_buf s" "Buf ?b \<notin> footprint s'"
    "frame (insert (Buf ?b) (footprint s)) m2 m3" "\<forall>x \<in> footprint s'. x \<in> footprint s \<or> blocks m2 x = None"
    by auto
  let ?m' = "drop_buf ?b m3"
  have fd: "frame {Buf ?b} m3 ?m'" using 3(2) by (auto simp: str_holds_def frame_def drop_buf_def wf_mem_def)
  have hs: "str_holds ?m' s' bytes"
    using 3(2,5) str_rep_frame [OF _ fd] frame_wf [OF fd] by (simp add: str_holds_def)
  have "frame {?r} ?m ?m1" using f1 by (rule frame_mono) simp
  then have f2: "frame {?r} ?m m2" using 2(5) by (rule frame_trans) simp
  have "frame {?r} ?m m3"
    using f2 3(6)
  proof (rule frame_trans)
    fix x assume "x \<in> insert (Buf ?b) (footprint s)"
    then have "x = Buf ?b \<or> x = ?r" unfolding 2(4) by simp
    then show "x \<in> {?r} \<or> blocks ?m x = None" using wf_mem_fresh(2) [OF wf] by fastforce
  qed
  then have f: "frame {?r} ?m ?m'" by (rule frame_drop_buf) (use wf in simp)
  have fp: "\<forall>x \<in> footprint s'. x = ?r \<or> blocks ?m x = None"
  proof
    fix x assume "x \<in> footprint s'"
    with 3(7) have "x = ?r \<or> blocks m2 x = None" unfolding 2(4) by simp
    then show "x = ?r \<or> blocks ?m x = None"
    proof
      assume "blocks m2 x = None"
      from frame_None [OF f2 this] show ?thesis by simp
    qed (rule disjI1)
  qed
  have g: "read_client fuel rec c a =
      Inr (if over then http_err_client_close else http_success, s', (with_mem ?m' a)\<lparr>app_os := w\<rparr>)"
    using 2(1) 3(1) by (simp add: read_client_def nb Let_def)
  show thesis
    by (rule that [OF g hs always_avail_frame [OF 3(3) fd] _ f fp]) (use 3(4) 2(3) in simp)
qed

section \<open>Chunks\<close>

text \<open>
  The other side sends chunks, each of which is read at once: every second answer is a read, the
  ones between are those to the log. Then nothing is left, or the connection is closed.
\<close>

definition sends :: "os \<Rightarrow> char list list \<Rightarrow> bool \<Rightarrow> bool" where
  "sends w cs over \<longleftrightarrow>
     (\<forall>i < length cs. 0 \<le> r_val (reply w (2 * i)) \<and> r_data (reply w (2 * i)) = cs ! i \<and>
        cs ! i \<noteq> [] \<and> length (cs ! i) < C_BUFSIZ) \<and>
     (if over then 0 \<le> r_val (reply w (2 * length cs)) \<and> r_data (reply w (2 * length cs)) = []
      else r_val (reply w (2 * length cs)) < 0 \<and> r_errno (reply w (2 * length cs)) = EAGAIN)"

lemma sends_Cons:
  assumes "sends w (c # cs) over"
  shows "0 \<le> r_val (reply w 0)" and "r_data (reply w 0) = c" and "c \<noteq> []" and "length c < C_BUFSIZ"
    and "sends (w\<lparr>os_trace := os_trace w @ [e, e']\<rparr>) cs over"
proof -
  from assms have *: "\<forall>i < Suc (length cs). 0 \<le> r_val (reply w (2 * i)) \<and> r_data (reply w (2 * i)) = (c # cs) ! i \<and>
        (c # cs) ! i \<noteq> [] \<and> length ((c # cs) ! i) < C_BUFSIZ" unfolding sends_def by simp
  from *[rule_format, of 0] show "0 \<le> r_val (reply w 0)" "r_data (reply w 0) = c" "c \<noteq> []" "length c < C_BUFSIZ"
    by simp_all
  have rep: "reply (w\<lparr>os_trace := os_trace w @ [e, e']\<rparr>) (2 * i) = reply w (2 * Suc i)" for i
    unfolding reply_trace by simp
  have "\<forall>i < length cs. 0 \<le> r_val (reply w (2 * Suc i)) \<and> r_data (reply w (2 * Suc i)) = cs ! i \<and>
        cs ! i \<noteq> [] \<and> length (cs ! i) < C_BUFSIZ"
    using *[rule_format, of "Suc _"] by auto
  with assms show "sends (w\<lparr>os_trace := os_trace w @ [e, e']\<rparr>) cs over"
    unfolding sends_def rep by (cases over) simp_all
qed

definition read_trace :: "fd_t \<Rightarrow> char list list \<Rightarrow> os_event list" where
  "read_trace fd cs =
     concat (map (\<lambda>_. [Read fd (C_BUFSIZ - 1), Log HTTP_RECV_FROM_CLIENT]) cs) @ [Read fd (C_BUFSIZ - 1)]"

lemma recv_sends:
  "sends w cs over \<Longrightarrow> length cs < fuel \<Longrightarrow>
     recv_all fuel fd w = Some (over, concat cs, w\<lparr>os_trace := os_trace w @ read_trace fd cs\<rparr>)"
proof (induction cs arbitrary: w fuel)
  case Nil
  then obtain n where "fuel = Suc n" by (cases fuel) auto
  with Nil show ?case
    by (auto simp: sends_def read_trace_def reply_fold EINTR_def EAGAIN_def Let_def split: if_splits)
next
  case (Cons c cs)
  then obtain n where n: "fuel = Suc n" "length cs < n" by (cases fuel) auto
  note S = sends_Cons(1-4) [OF Cons.prems(1)]
    sends_Cons(5) [OF Cons.prems(1), of "Read fd (C_BUFSIZ - 1)" "Log HTTP_RECV_FROM_CLIENT"]
  have t: "take (C_BUFSIZ - 1) c = c" using S(4) by simp
  from Cons.IH [OF S(5) n(2)] show ?case
    using S(1-3) t by (simp add: n(1) reply_fold read_trace_def Let_def not_less)
qed

end
