(* ===== verification/DispatchClaims.thy ===== *)
theory DispatchClaims
  imports DispatchProps Server
begin

text \<open>
  The results on answering requests: which file a path names, and what a GET of an existing file
  is answered with - a complete response whose Content-Length header cannot be read any more.
\<close>

section \<open>Fresh objects\<close>

lemma frame_from_fresh:
  assumes "frame {} m m'" and "frame {Buf b} m' m''" and "blocks m (Buf b) = None"
  shows "frame {} m m''"
  using assms(1,2) by (rule frame_trans) (use assms(3) in auto)

lemma new_sbuf:
  assumes "wf_mem m" and "new_buf STR_SMALL_BUF_SIZE m = (b, m')"
  shows "b = brk m" and "frame {} m m'" and "has_sbuf m' b" and "blocks m (Buf b) = None" and "brk m' = Suc (brk m)"
    and "str_rep m' (zero_string b) []"
proof -
  have b: "b = brk m" "m' = m\<lparr>blocks := (blocks m)(Buf (brk m) := Some (replicate STR_SMALL_BUF_SIZE NUL)), brk := Suc (brk m)\<rparr>"
    using assms(2) by (auto simp: new_buf_def)
  then show "b = brk m" "brk m' = Suc (brk m)" "blocks m (Buf b) = None" using assms(1) by simp_all
  show "has_sbuf m' b" using b by (simp add: has_sbuf_def)
  then show "str_rep m' (zero_string b) []" unfolding zero_string_def by (rule str_rep.zeroed)
  show "frame {} m m'" unfolding b(2) using assms(1) by (intro frame_alloc) auto
qed

lemma set_status_200: "http_set_status m 200 = Inr (http_success, \<lparr>status_code = 200, status_message = lit_view ''OK''\<rparr>)"
proof -
  have "http_get_status_msg m 200 = Inr (lit_view ''OK'')"
    unfolding http_get_status_msg_def lit_view_def
    by (simp add: string_view_from_cstr_lit status_msg_str_def http_status_table_def)
  then show ?thesis by (simp add: http_set_status_def lit_view_def sv_defs)
qed

section \<open>GET\<close>

text \<open>
  The bytes of the path: the working directory, the base directory and the path of the request,
  with slashes between them.
\<close>

definition absolute_text :: "char list \<Rightarrow> char list \<Rightarrow> char list \<Rightarrow> char list" where
  "absolute_text cwd base p = cwd @ ''/'' @ base @ ''/'' @ p"

text \<open>A state in which a GET of path \<open>p\<close> finds file \<open>f\<close>, which is not in the table yet.\<close>

definition first_get :: "http_request_t \<Rightarrow> app \<Rightarrow> char list \<Rightarrow> path2resmem \<Rightarrow> bool" where
  "first_get request a f t \<longleftrightarrow>
     (\<exists>cwd base p. f = absolute_text cwd base p \<and>
        cwd = r_data (reply (app_os a) 0) \<and> r_val (reply (app_os a) 0) \<noteq> 0 \<and> length cwd < PATH_MAX \<and>
        view_bytes (app_mem a) (get_base_dir (app_cfg a)) = Inr base \<and>
        view_bytes (app_mem a) (string_view_from_string (req_path request)) = Inr p) \<and>
     NUL \<notin> set f \<and> length f < MAX_LEN \<and> req_method request = http_method_get \<and>
     app_table a = Some t \<and> table_ok (app_mem a) t \<and> n_buckets t < 2 ^ 31 \<and> table_map (app_mem a) t f = None \<and>
     (\<forall>k \<in> {1, 2, 7, 8}. r_val (reply (app_os a) k) = 0) \<and> (\<forall>k \<in> {3, 4, 5}. 0 \<le> r_val (reply (app_os a) k))"

lemma get_handler_made:
  assumes wf: "wf_mem (app_mem a)" and av: "always_avail (app_mem a)" and g: "first_get request a f t"
  obtains rep a' v ct rm where "http_method_get_handler request a = Inr (http_success, Some rep, a')"
    and "rep_version rep = http_ver_1_0" and "rep_status rep = \<lparr>status_code = 200, status_message = lit_view ''OK''\<rparr>"
    and "view_bytes (app_mem a') (rep_body rep) =
       Inr (file_bytes (stat_size (reply (app_os a) 4)) (r_data (reply (app_os a) 5)))"
    and "vec_els (rep_headers rep) = [text_header http_hdr_content_type (lit_view ''text/html; charset=UTF-8''),
       text_header http_hdr_content_length v]"
    and "sv_data v = Ptr (Buf ct) 0" and "0 < sv_len v" and "sv_len v \<le> 15"
    and "blocks (app_mem a') (Buf ct) = None" and "ct < brk (app_mem a')"
    and "wf_mem (app_mem a')" and "always_avail (app_mem a')" and "frame {} (app_mem a) (app_mem a')"
    and "os_trace (app_os a') = os_trace (app_os a) @ [Getcwd, Mutex_lock, Mutex_unlock, Open f,
       Fstat (r_val (reply (app_os a) 3)), Mmap (r_val (reply (app_os a) 3)) (stat_size (reply (app_os a) 4)),
       Close (r_val (reply (app_os a) 3)), Mutex_lock, Mutex_unlock]"
proof -
  let ?m = "app_mem a" and ?w = "app_os a"
  from g obtain cwd base p where f: "f = absolute_text cwd base p" "cwd = r_data (reply ?w 0)" "r_val (reply ?w 0) \<noteq> 0"
    "length cwd < PATH_MAX" "view_bytes ?m (get_base_dir (app_cfg a)) = Inr base"
    "view_bytes ?m (string_view_from_string (req_path request)) = Inr p" unfolding first_get_def by blast
  from g have g: "NUL \<notin> set f" "length f < MAX_LEN" "req_method request = http_method_get" "app_table a = Some t"
    "table_ok ?m t" "n_buckets t < 2 ^ 31" "table_map ?m t f = None"
    "\<forall>k \<in> {1, 2, 7, 8}. r_val (reply ?w k) = 0" "\<forall>k \<in> {3, 4, 5}. 0 \<le> r_val (reply ?w k)"
    unfolding first_get_def by blast+
  obtain b m0 where nb: "new_buf STR_SMALL_BUF_SIZE ?m = (b, m0)" by force
  note B = new_sbuf [OF wf nb]
  have off: "view_off sv (Buf b)" "view_bytes m0 sv = Inr bs" if "view_bytes ?m sv = Inr bs" for sv bs
    using view_off_fresh [OF that B(4)] frame_view [OF B(2) that] by simp_all
  have cw: "NUL \<notin> set cwd" using g(1) f(1) by (simp add: absolute_text_def)
  have fl: "f = cwd @ ''/'' @ base @ ''/'' @ p" using f(1) by (simp add: absolute_text_def)
  have zb: "str_buf (zero_string b) = b" by (simp add: zero_string_def)
  obtain s m1 where 1: "get_absolue_path (app_cfg a) (string_view_from_string (req_path request)) (zero_string b) m0 ?w =
       Inr (http_success, s, m1, ?w\<lparr>os_trace := os_trace ?w @ [Getcwd]\<rparr>)"
    "str_holds m1 s f" "str_buf s = str_buf (zero_string b)" "frame {Buf (str_buf (zero_string b))} m0 m1"
    by (rule absolute_path [where m = m0 and w = ?w and path = "zero_string b" and cwd = cwd and base = base and p = p
          and full = f and cfg = "app_cfg a" and postfix = "string_view_from_string (req_path request)",
          OF frame_wf [OF B(2)] always_avail_frame [OF av B(2)]])
      (use B(3) zb f(2-6) cw off fl g(2) in simp_all)
  have f1: "frame {} ?m m1" by (rule frame_from_fresh [OF B(2) 1(4) [unfolded zb] B(4)])
  let ?w1 = "?w\<lparr>os_trace := os_trace ?w @ [Getcwd]\<rparr>" and ?p = "string_view_from_string s"
  have vp: "view_bytes m1 ?p = Inr f" using 1(2) view_from_string(1) by (simp add: str_holds_def)
  have pk: "path_ok m1 ?p" "path_value m1 ?p = f" using vp g(1,2) by (simp_all add: path_ok_iff)
  note t1 = table_frame [OF f1 g(5)]
  have rep: "reply ?w1 0 = reply ?w 1" "reply ?w1 1 = reply ?w 2" "reply ?w1 2 = reply ?w 3" "reply ?w1 3 = reply ?w 4"
    "reply ?w1 4 = reply ?w 5" "reply ?w1 6 = reply ?w 7" "reply ?w1 7 = reply ?w 8"
    by (simp_all add: reply_def eval_nat_numeral)
  have R: "r_val (reply ?w1 0) = 0" "r_val (reply ?w1 1) = 0" "0 \<le> r_val (reply ?w1 2)" "0 \<le> r_val (reply ?w1 3)"
    "0 \<le> r_val (reply ?w1 4)" "r_val (reply ?w1 6) = 0" "r_val (reply ?w1 7) = 0"
    unfolding rep using g(8,9) by simp_all
  let ?len = "stat_size (reply ?w 4)"
  have new: "table_map m1 t (path_value m1 ?p) = None" using t1(2) pk(2) g(7) by simp
  obtain body t2 m2 w2 rm where 2: "get_resource_cached ?p zero_view (Some t) m1 ?w1 = Inr (http_success, body, Some t2, m2, w2)"
    "view_bytes m2 body = Inr (file_bytes ?len (r_data (reply ?w 5)))" "frame {} m1 m2" "table_ok m2 t2"
    "table_map m2 t2 = (table_map m1 t)(f \<mapsto> rm)"
    "os_trace w2 = os_trace ?w1 @ [Mutex_lock, Mutex_unlock, Open f, Fstat (r_val (reply ?w 3)), Mmap (r_val (reply ?w 3)) ?len,
       Close (r_val (reply ?w 3)), Mutex_lock, Mutex_unlock]"
    "body = \<lparr>sv_data = mm_data rm, sv_len = mm_len rm\<rparr>" "os_replies w2 = os_replies ?w1"
    "\<exists>k. sv_data body = Ptr (Heap k) 0" "sv_len body = ?len"
    by (rule get_resource_miss [where m = m1 and path = ?p and t = t and w = ?w1 and res = zero_view and len = ?len,
          OF frame_wf [OF f1] t1(1) pk(1) g(6) always_avail_frame [OF av f1] new R, unfolded rep pk(2)]) (rule refl, rule that)
  let ?a2 = "(with_mem m2 a)\<lparr>app_os := w2, app_table := Some t2\<rparr>"
  let ?st = "\<lparr>status_code = 200, status_message = lit_view ''OK''\<rparr>"
  have f2: "frame {} ?m m2" using f1 2(3) by (rule frame_trans) simp
  have wa: "wf_mem (app_mem ?a2)" "always_avail (app_mem ?a2)"
    using frame_wf [OF f2] always_avail_frame [OF av f2] by simp_all
  obtain rep a' v ct where 3: "get_response b ?st body ?a2 = Inr (http_success, Some rep, a')"
    "rep_version rep = http_ver_1_0" "rep_status rep = ?st" "rep_body rep = body"
    "vec_els (rep_headers rep) = [text_header http_hdr_content_type (lit_view ''text/html; charset=UTF-8''),
       text_header http_hdr_content_length v]"
    "sv_data v = Ptr (Buf ct) 0" "0 < sv_len v" "sv_len v \<le> 15" "blocks (app_mem a') (Buf ct) = None"
    "ct < brk (app_mem a')" "frame {Buf b} (app_mem ?a2) (app_mem a')" "app_table a' = app_table ?a2" "app_os a' = app_os ?a2"
    by (rule get_response_made [OF wa, of b ?st body])
  have fa: "frame {} ?m (app_mem a')" using f2 _ B(4) by (rule frame_from_fresh) (use 3(11) in simp)
  have vb: "view_bytes (app_mem a') body = Inr (file_bytes ?len (r_data (reply ?w 5)))"
  proof (rule frame_view [OF 3(11)])
    show "view_bytes (app_mem ?a2) body = Inr (file_bytes ?len (r_data (reply ?w 5)))" using 2(2) by simp
    show "view_off body x" if "x \<in> {Buf b}" for x using 2(9) that by (auto simp: view_off_def)
  qed
  have h: "http_method_get_handler request a = Inr (http_success, Some rep, a')"
    using g(3,4) nb 1(1) 2(1) 3(1) set_status_200 by (simp add: http_method_get_handler_def Let_def c_assert_def)
  show thesis
    by (rule that [OF h 3(2,3) vb [folded 3(4)] 3(5-10) frame_wf [OF fa] always_avail_frame [OF av fa] fa])
      (use 2(6) 3(13) in simp)
qed

text \<open>Sending what the handler has made reads the array that ended with it.\<close>

lemma get_answer_dangles:
  assumes "wf_mem (app_mem a)" and "always_avail (app_mem a)" and "first_get request a f t"
  shows "\<exists>rep a'. handle_http_request request a = Inr (http_success, Some rep, a') \<and>
     status_code (rep_status rep) = 200 \<and> rep_version rep = http_ver_1_0 \<and>
     map hdr_field (vec_els (rep_headers rep)) = [http_hdr_content_type, http_hdr_content_length] \<and>
     view_bytes (app_mem a') (rep_body rep) =
       Inr (file_bytes (stat_size (reply (app_os a) 4)) (r_data (reply (app_os a) 5))) \<and>
     (\<forall>client. http_send_response client rep a' = Inl Dangling)"
proof -
  obtain rep a' v ct where 1: "http_method_get_handler request a = Inr (http_success, Some rep, a')"
    "rep_version rep = http_ver_1_0" "rep_status rep = \<lparr>status_code = 200, status_message = lit_view ''OK''\<rparr>"
    "view_bytes (app_mem a') (rep_body rep) = Inr (file_bytes (stat_size (reply (app_os a) 4)) (r_data (reply (app_os a) 5)))"
    "vec_els (rep_headers rep) = [text_header http_hdr_content_type (lit_view ''text/html; charset=UTF-8''),
       text_header http_hdr_content_length v]"
    "sv_data v = Ptr (Buf ct) 0" "0 < sv_len v" "sv_len v \<le> 15"
    "blocks (app_mem a') (Buf ct) = None" "ct < brk (app_mem a')" "wf_mem (app_mem a')" "always_avail (app_mem a')"
    by (rule get_handler_made [OF assms]) (rule that)
  have send: "http_send_response client rep a' = Inl Dangling" for client
  proof -
    obtain b m0 where nb: "new_buf STR_SMALL_BUF_SIZE (app_mem a') = (b, m0)" by force
    note B = new_sbuf [OF 1(11) nb]
    have k: "blocks m0 (Buf ct) = None" "ct < brk m0"
      using frame_dead_buf [OF B(2) 1(10,9)] frame_brk_le [OF B(2)] 1(10) by simp_all
    let ?ct = "text_header http_hdr_content_type (lit_view ''text/html; charset=UTF-8'')"
    have els: "vec_els (rep_headers rep) = [?ct] @ text_header http_hdr_content_length v # []" using 1(5) by simp
    have "http_response_to_string rep (zero_string b) m0 = Inl Dangling"
      by (rule response_header_ended [OF frame_wf [OF B(2)] always_avail_frame [OF 1(12) B(2)] _ _ els _ _ _ k,
            where msg = "''OK''" and val = "\<lambda>_. ''text/html; charset=UTF-8''" and i = 0])
        (use B(3) 1(2,3,6-8) in \<open>simp_all add: zero_string_def header_out_def\<close>)
    then show ?thesis by (simp add: http_send_response_def nb)
  qed
  have "req_method request = http_method_get" using assms(3) by (simp add: first_get_def)
  then have "handle_http_request request a = Inr (http_success, Some rep, a')"
    using 1(1) by (simp add: handle_http_request_def)
  with 1(2-5) send show ?thesis by auto
qed

text \<open>
  C14: A GET of a file that is asked for the first time is answered by a complete response: the
  status is 200, the headers are Content-Type and Content-Length, the body is the file. But the
  value of Content-Length is a view of an array of the handler, which has ended with it, so that
  sending the response reads an object that is gone, to whichever client it is sent.
\<close>

theorem get_response_dangles:
  assumes "wf_mem (app_mem a)" and "always_avail (app_mem a)" and "first_get request a f t"
  shows "\<exists>rep a'. handle_http_request request a = Inr (http_success, Some rep, a') \<and>
     status_code (rep_status rep) = 200 \<and> rep_version rep = http_ver_1_0 \<and>
     map hdr_field (vec_els (rep_headers rep)) = [http_hdr_content_type, http_hdr_content_length] \<and>
     view_bytes (app_mem a') (rep_body rep) =
       Inr (file_bytes (stat_size (reply (app_os a) 4)) (r_data (reply (app_os a) 5))) \<and>
     (\<forall>client. http_send_response client rep a' = Inl Dangling)"
  by (rule get_answer_dangles [OF assms])

text \<open>A state for examples: working directory \<^verbatim>\<open>/srv\<close>, an empty table, one string with a path.\<close>

definition get_os :: os where
  "get_os = \<lparr>os_replies = (\<lambda>k. \<lparr>r_val = (if k = 0 then 1 else 0), r_errno = 0,
      r_data = (if k = 0 then ''/srv'' else ''hello''), r_nums = [5], r_refs = []\<rparr>), os_trace = []\<rparr>"

definition sample_config :: config where
  "sample_config = \<lparr>log_async = False, log_file = zero_string 0, server_host = zero_string 0, server_port = 2233,
     server_base_dir = zero_string 0, core_handle_threads = 4, core_listen_que = 10, core_max_events = 10\<rparr>"

definition sample_app :: app where
  "sample_app = \<lparr>app_ps = \<lparr>ps_mem = heap_mem ''a.html'', ps_nodes = (\<lambda>_. None)\<rparr>, app_os = get_os,
     app_cfg = sample_config, app_table = Some kh_zero, app_data = (\<lambda>_. None), app_jobs = [], loop_terminal = False\<rparr>"

definition sample_get :: http_request_t where
  "sample_get = \<lparr>req_method = http_method_get, req_path = heap_string ''a.html'', req_version = http_ver_1_1,
     req_headers = cc_init, req_body = zero_string 0\<rparr>"

lemma sample_app_simps [simp]:
  "app_mem sample_app = heap_mem ''a.html''" "app_os sample_app = get_os" "app_cfg sample_app = sample_config"
  "app_table sample_app = Some kh_zero" "app_jobs sample_app = []" "\<not> loop_terminal sample_app" "app_data sample_app i = None"
  by (simp_all add: sample_app_def)

lemma get_os_reply [simp]:
  "r_val (reply get_os k) = (if k = 0 then 1 else 0)" "r_data (reply get_os k) = (if k = 0 then ''/srv'' else ''hello'')"
  "r_nums (reply get_os k) = [5]"
  by (simp_all add: reply_def get_os_def)

lemma sample_first_get: "first_get sample_get sample_app ''/srv//a.html'' kh_zero"
proof -
  have b: "view_bytes (heap_mem ''a.html'') (get_base_dir sample_config) = Inr []"
    by (simp add: get_base_dir_def sample_config_def zero_string_def string_view_from_string_def string_view_from_parts_def
        view_bytes_def string_len_def Let_def)
  have p: "view_bytes (heap_mem ''a.html'') (string_view_from_string (req_path sample_get)) = Inr ''a.html''"
    by (simp add: sample_get_def view_from_string(1) [OF heap_string_rep])
  have n: "n_buckets (kh_zero :: path2resmem) = 0" by (simp add: kh_zero_def)
  show ?thesis
    unfolding first_get_def
    using b p n by (auto simp: absolute_text_def sample_get_def PATH_MAX_def)
qed

lemma get_response_dangles_witness:
  "\<exists>rep a'. handle_http_request sample_get sample_app = Inr (http_success, Some rep, a') \<and>
     status_code (rep_status rep) = 200 \<and> view_bytes (app_mem a') (rep_body rep) = Inr ''hello'' \<and>
     (\<forall>client. http_send_response client rep a' = Inl Dangling)"
proof -
  have "file_bytes (stat_size (reply get_os 4)) (r_data (reply get_os 5)) = ''hello''"
    by (simp add: file_bytes_def stat_size_def reply_num_def)
  then show ?thesis using get_response_dangles [OF _ _ sample_first_get] by auto
qed

end
