(* ===== verification/Reactor.thy ===== *)
theory Reactor
  imports Server
begin

text \<open>
  \<^verbatim>\<open>core/reactor.c\<close> and \<^verbatim>\<open>main.c\<close>: the main loop, which turns events into jobs of the
  thread pool, and the start and end of the process. The pool runs the jobs; here a job is one
  step, so that the model covers the orders in which jobs are run, not the interleaving inside
  them.
\<close>

section \<open>The main loop\<close>

definition ipv4_terminal_fn :: "app \<Rightarrow> app" where
  "ipv4_terminal_fn a = (app_log HTTP_SIGNAL_TERMINAL a)\<lparr>loop_terminal := True\<rparr>"

definition app_addjob :: "job \<Rightarrow> app \<Rightarrow> app" where
  "app_addjob j a =
     (case thdpool_addjob (app_os a) of (herr, w) \<Rightarrow>
        if herr = http_success then a\<lparr>app_os := w, app_jobs := app_jobs a @ [j]\<rparr>
        else a\<lparr>app_os := w\<rparr>)"

text \<open>The events are the pointers they carry. The result of adding a job is not looked at.\<close>

fun handle_each_event :: "fd_t \<Rightarrow> fd_t \<Rightarrow> nat list \<Rightarrow> app \<Rightarrow> (http_err_t \<times> app) res" where
  "handle_each_event server_fd epoll_fd [] a = Inr (http_success, a)"
| "handle_each_event server_fd epoll_fd (ev # evs) a =
     (case alloc_request (app_mem a) of (ok, m) \<Rightarrow>
      let a = with_mem m a in
      if \<not> ok then Inr (http_err_malloc, app_log HTTP_MALLOC_ERR a)
      else
        let args = \<lparr>fa_epoll_fd = epoll_fd, fa_usrdata = ev, fa_pherr = False\<rparr> in
        case app_data a ev of
          None \<Rightarrow> Inl Dangling
        | Some data \<Rightarrow>
            handle_each_event server_fd epoll_fd evs
              (app_addjob (if data_fd data = server_fd then Job_server args else Job_client args) a))"

text \<open>
  One wait: at most \<open>max_events\<close> events come back. A signal that arrives meanwhile runs its
  handler; it is the first number of the answer.
\<close>

definition wait_events :: "fd_t \<Rightarrow> int \<Rightarrow> app \<Rightarrow> os_reply \<times> app" where
  "wait_events epoll_fd max_events a =
     (case app_call (Epoll_wait epoll_fd max_events) a of (r, a) \<Rightarrow>
        (r, if r_nums r \<noteq> [] then ipv4_terminal_fn a else a))"

fun main_loop :: "nat \<Rightarrow> fd_t \<Rightarrow> fd_t \<Rightarrow> int \<Rightarrow> http_err_t \<Rightarrow> app \<Rightarrow> (http_err_t \<times> app) res" where
  "main_loop 0 server_fd epoll_fd max_events herr a = Inl No_fuel"
| "main_loop (Suc fuel) server_fd epoll_fd max_events herr a =
     (if loop_terminal a then Inr (herr, a)
      else case wait_events epoll_fd max_events a of (r, a) \<Rightarrow>
        if r_val r < 0
        then if r_errno r = EINTR then main_loop fuel server_fd epoll_fd max_events herr a
             else Inr (http_err_epoll_wait, app_log HTTP_EPOLL_WAIT_ERR a)
        else bnd (handle_each_event server_fd epoll_fd (take (nat max_events) (r_refs r)) a) (\<lambda>(herr, a).
             if herr \<noteq> http_success then Inr (herr, a)
             else main_loop fuel server_fd epoll_fd max_events herr a))"

text \<open>The array of events is an object of the allocator that is neither checked nor freed.\<close>

definition handle_ipv4_main_loop :: "nat \<Rightarrow> fd_t \<Rightarrow> app \<Rightarrow> (http_err_t \<times> app) res" where
  "handle_ipv4_main_loop fuel server_fd a =
     (case app_call Epoll_create a of (r, a) \<Rightarrow>
      if r_val r < 0 then Inr (http_err_epoll_create, app_log HTTP_EPOLL_CREATE_ERR a)
      else
      let epoll_fd = r_val r; uid = brk (app_mem a) in
      bnd (create_epoll_usrdata server_fd (app_mem a)) (\<lambda>(usrdata, m).
      bnd (string_init_from_string_view (eu_ip usrdata) (get_host (app_cfg a)) m) (\<lambda>(_, ip, m).
      let usrdata = usrdata\<lparr>eu_ip := ip, eu_port := config_get_port (app_cfg a)\<rparr>;
          a = (with_mem m a)\<lparr>app_data := (app_data a)(uid := Some (Usrdata usrdata))\<rparr> in
      case app_call (Epoll_add epoll_fd server_fd uid) a of (r, a) \<Rightarrow>
      if r_val r < 0 then Inr (http_err_epoll_ctl_add, app_log HTTP_EPOLL_CTL_ADD_ERR a)
      else
      case alloc_request (app_mem a) of (_, m) \<Rightarrow>
      bnd (main_loop fuel server_fd epoll_fd (config_get_max_events (app_cfg a)) http_success (with_mem m a))
        (\<lambda>(herr, a). Inr (herr, app_do (Close epoll_fd) a)))))"

section \<open>The jobs\<close>

definition run_job :: "nat \<Rightarrow> job \<Rightarrow> app \<Rightarrow> (http_err_t option \<times> app) res" where
  "run_job fuel j a =
     (case j of Job_server args \<Rightarrow> handle_server_fd args a | Job_client args \<Rightarrow> handle_client_fd fuel args a)"

section \<open>The process\<close>

text \<open>\<^verbatim>\<open>exit(1)\<close>: the first component says that the process goes on.\<close>

definition app_exit :: "app \<Rightarrow> bool \<times> app" where
  "app_exit a = (False, app_do (Exit 1) a)"

definition log_err :: "http_err_t \<Rightarrow> app \<Rightarrow> app res" where
  "log_err herr a = bnd (http_err_to_msg herr) (\<lambda>msg. Inr (app_log msg a))"

definition initial :: "toml \<Rightarrow> app \<Rightarrow> (bool \<times> app) res" where
  "initial toml a =
     (case parse_config_file ''config/config.toml'' (app_os a) of (herr, _, w) \<Rightarrow>
      let a = a\<lparr>app_os := os_do Getcwd w\<rparr> in
      if herr \<noteq> http_success then Inr (app_exit a)
      else
      case config_log toml (app_cfg a) (app_mem a) (app_os a) of (herr, cfg, m, w) \<Rightarrow>
      let a = (with_mem m a)\<lparr>app_cfg := cfg, app_os := w\<rparr> in
      bnd (if herr \<noteq> http_success then log_err herr a else Inr a) (\<lambda>a.
      bnd (config_server toml (app_cfg a) (app_mem a) (app_os a)) (\<lambda>(herr, cfg, m, w).
      let a = (with_mem m a)\<lparr>app_cfg := cfg, app_os := w\<rparr> in
      if herr = http_err_unset_fatal then bnd (log_err herr a) (\<lambda>a. Inr (app_exit a))
      else
      case config_core toml (app_cfg a) (app_os a) of (extra, cfg, w) \<Rightarrow>
      let a = a\<lparr>app_cfg := cfg, app_os := w\<rparr> in
      if extra = http_err_unset_fatal then bnd (log_err extra a) (\<lambda>a. Inr (app_exit a))
      else
      bnd (if herr \<noteq> http_success \<or> extra \<noteq> http_success
           then log_err (if herr = http_success then extra else herr) a else Inr a) (\<lambda>a.
      case thdpool_initial (app_cfg a) (app_os a) of (_, w) \<Rightarrow>
      case resource_getter_initial (app_mem a) w of (_, table, m, w) \<Rightarrow>
      Inr (True, (with_mem m a)\<lparr>app_os := w, app_table := table\<rparr>)))))"

text \<open>The signal \<^verbatim>\<open>SIGINT\<close> is 2. The result is the exit status.\<close>

definition c_main :: "nat \<Rightarrow> toml \<Rightarrow> app \<Rightarrow> (int \<times> app) res" where
  "c_main fuel toml a =
     bnd (initial toml a) (\<lambda>(go, a).
     if \<not> go then Inr (1, a)
     else
       case get_ipv4_server_fd (app_cfg a) (app_os a) of (herr, fd, w) \<Rightarrow>
       let a = a\<lparr>app_os := w\<rparr> in
       if herr \<noteq> http_success then Inr (1, a)
       else case fd of
         None \<Rightarrow> Inl Indeterminate
       | Some server_fd \<Rightarrow>
         case http_signal 2 (app_os a) of (herr, w) \<Rightarrow>
         let a = a\<lparr>app_os := w\<rparr> in
         if herr \<noteq> http_success then Inr (1, a)
         else
         bnd (handle_ipv4_main_loop fuel server_fd a) (\<lambda>(_, a).
         let a = app_do (Close server_fd) a in
         case thdpool_release (app_os a) of (_, w) \<Rightarrow>
         let w = release_config_file w in
         bnd (resource_getter_release (app_table a) (app_mem a) w) (\<lambda>(_, table, m, w).
         Inr (0, (with_mem m a)\<lparr>app_os := w, app_table := table\<rparr>))))"

end
