(* ===== verification/ConnProps.thy ===== *)
theory ConnProps
  imports HttpParseLimits ReadProps DispatchClaims Reactor
begin

text \<open>
  Connections: what the data of a client stands for - the abstract state of its parser - and what
  accepting a client, a packet from it, and the end of the connection do to it.
\<close>

section \<open>The state of a connection\<close>

text \<open>
  Object \<open>cid\<close> is a client whose list of parser contexts is one node, which represents the
  abstract state \<open>s\<close>; the text of its address has its own objects.
\<close>

definition conn_at ::
  "app \<Rightarrow> nat \<Rightarrow> client_data_t \<Rightarrow> actx \<Rightarrow> nat \<Rightarrow> http_parse_ctx_t \<Rightarrow> http_request_t \<Rightarrow> char list \<Rightarrow> bool" where
  "conn_at a cid c s nid ctx req ip \<longleftrightarrow>
     app_data a cid = Some (Client c) \<and> ctx_inv s \<and> always_avail (app_mem a) \<and>
     ctx_beg c = Some nid \<and> ctx_tail c = Some nid \<and> ps_nodes (app_ps a) nid = Some ctx \<and>
     ctx_rep (app_mem a) ctx req s \<and> str_rep (app_mem a) (cl_ip c) ip \<and>
     footprint (cl_ip c) \<inter> feed_frame ctx req = {}"

definition conn :: "app \<Rightarrow> nat \<Rightarrow> client_data_t \<Rightarrow> actx \<Rightarrow> bool" where
  "conn a cid c s \<longleftrightarrow> (\<exists>nid ctx req ip. conn_at a cid c s nid ctx req ip)"

text \<open>The objects of a connection.\<close>

definition conn_objs :: "client_data_t \<Rightarrow> http_parse_ctx_t \<Rightarrow> http_request_t \<Rightarrow> base set" where
  "conn_objs c ctx req =
     footprint (cl_ip c) \<union> footprint (post ctx) \<union> footprint (req_path req) \<union> footprint (req_body req)"

lemma conn_objs_used:
  assumes "conn_at a cid c s nid ctx req ip" and "x \<in> conn_objs c ctx req"
  shows "blocks (app_mem a) x \<noteq> None"
  using assms str_rep_footprint_used
  by (auto simp: conn_at_def conn_objs_def ctx_rep_def req_rep_def)

lemma feed_frame_objs: "feed_frame ctx req \<subseteq> conn_objs c ctx req"
  by (auto simp: feed_frame_def conn_objs_def req_bufs_def footprint_def)

lemma ctx_rep_frame:
  assumes "ctx_rep m ctx req s" and "frame B m m'"
    and "B \<inter> (footprint (post ctx) \<union> footprint (req_path req) \<union> footprint (req_body req)) = {}"
  shows "ctx_rep m' ctx req s"
  using assms(1,3) str_rep_frame [OF _ assms(2)] frame_wf [OF assms(2)]
  by (simp add: ctx_rep_def req_rep_def Int_Un_distrib)

text \<open>A connection while other objects change, or come to life.\<close>

lemma conn_at_frame:
  assumes "conn_at a cid c s nid ctx req ip" and "frame B (app_mem a) (app_mem a')" and "B \<inter> conn_objs c ctx req = {}"
    and "app_data a' cid = app_data a cid" and "ps_nodes (app_ps a') nid = ps_nodes (app_ps a) nid"
  shows "conn_at a' cid c s nid ctx req ip"
proof -
  have 1: "ctx_rep (app_mem a) ctx req s" "str_rep (app_mem a) (cl_ip c) ip" "always_avail (app_mem a)"
    using assms(1) by (simp_all add: conn_at_def)
  have "ctx_rep (app_mem a') ctx req s"
    by (rule ctx_rep_frame [OF 1(1) assms(2)]) (use assms(3) in \<open>auto simp: conn_objs_def\<close>)
  moreover have "str_rep (app_mem a') (cl_ip c) ip"
    by (rule str_rep_frame [OF 1(2) assms(2)]) (use assms(3) in \<open>auto simp: conn_objs_def\<close>)
  ultimately show ?thesis
    using assms(1,4,5) always_avail_frame [OF 1(3) assms(2)] by (simp add: conn_at_def)
qed

lemma conn_at_fresh:
  assumes "conn_at a cid c s nid ctx req ip" and "frame {} (app_mem a) (app_mem a')"
    and "app_data a' cid = app_data a cid" and "ps_nodes (app_ps a') nid = ps_nodes (app_ps a) nid"
  shows "conn_at a' cid c s nid ctx req ip"
  using assms(1,2) _ assms(3,4) by (rule conn_at_frame) simp

text \<open>An array or struct that is not part of a connection can end.\<close>

lemma Buf_in_footprint: "str_rep m t cs \<Longrightarrow> Buf b \<in> footprint t \<Longrightarrow> b = str_buf t"
  by (auto elim!: str_rep.cases)

section \<open>A new client\<close>

lemma inet_ntop_props: "NUL \<notin> set (inet_ntop bs) \<and> (bs \<noteq> [] \<longrightarrow> Suc (length (inet_ntop bs)) \<le> 4 * length bs)"
proof (induction bs rule: inet_ntop.induct)
  case (2 b)
  have "length (dec_nat (b mod 256)) \<le> 3" by (rule dec_nat_length) (simp_all add: mod_less_divisor [THEN less_trans])
  then show ?case by simp
next
  case (3 b v va)
  have "length (dec_nat (b mod 256)) \<le> 3" by (rule dec_nat_length) (simp_all add: mod_less_divisor [THEN less_trans])
  with 3 show ?case by simp
qed simp

lemma ipv4_text:
  assumes wf: "wf_mem m" and av: "always_avail m" and sb: "has_sbuf m (str_buf s)"
  obtains ip m' where "ipv4_net2str s addr m = Inr (ip, m')" and "str_holds m' ip (inet_ntop (take 4 addr))"
    and "str_buf ip = str_buf s" and "frame {Buf (str_buf s)} m m'"
proof -
  let ?t = "inet_ntop (take 4 addr)" and ?b = "brk m"
  have t: "NUL \<notin> set ?t" "Suc (length ?t) \<le> 16"
    using inet_ntop_props [of "take 4 addr"] by (cases "length addr \<le> 4"; cases addr; simp)+
  let ?ma = "m\<lparr>blocks := (blocks m)(Buf ?b := Some (replicate 16 NUL)), brk := Suc ?b\<rparr>"
  let ?bl = "?t @ NUL # drop (Suc (length ?t)) (replicate 16 NUL)"
  let ?mb = "?ma\<lparr>blocks := (blocks ?ma)(Buf ?b := Some ?bl)\<rparr>"
  have nb: "new_buf INET_ADDRSTRLEN m = (?b, ?ma)" by (simp add: new_buf_def INET_ADDRSTRLEN_def)
  have st: "store_bytes ?ma (Ptr (Buf ?b) 0) (?t @ [NUL]) = Inr ?mb" using t(2) by (simp add: store_bytes_def)
  have mb: "?mb = m\<lparr>blocks := (blocks m)(Buf ?b := Some ?bl), brk := Suc ?b\<rparr>" by simp
  have f1: "frame {} m ?mb" unfolding mb using wf by (intro frame_alloc) auto
  have ne: "?b \<noteq> str_buf s" using sb wf_mem_used(2) [OF wf] by (fastforce simp: has_sbuf_def split: option.splits)
  have sb1: "has_sbuf ?mb (str_buf s)" using sb f1 by (rule has_sbuf_frame) simp
  have lt: "length ?t < MAX_LEN" using t(2) by simp
  obtain ip m1 where 1: "string_init_from_cstr s (Ptr (Buf ?b) 0) ?mb = Inr (True, ip, m1)" "str_holds m1 ip ?t"
    "str_buf ip = str_buf s" "footprint ip \<subseteq> {Buf (str_buf s), Heap (brk ?mb)}" "frame {Buf (str_buf s)} ?mb m1"
    by (rule init_from_buf [OF frame_wf [OF f1] sb1 _ t(1) lt ne always_avail_frame [OF av f1]]) simp
  have "frame {Buf (str_buf s)} m ?mb" using f1 by (rule frame_mono) simp
  then have "frame {Buf (str_buf s)} m m1" using 1(5) by (rule frame_trans) simp
  then have f: "frame {Buf (str_buf s)} m (drop_buf ?b m1)" by (rule frame_drop_buf) (use wf in simp)
  have fd: "frame {Buf ?b} m1 (drop_buf ?b m1)" using 1(2) by (auto simp: str_holds_def frame_def drop_buf_def wf_mem_def)
  have "str_holds (drop_buf ?b m1) ip ?t"
    using 1(2,4) ne str_rep_frame [OF _ fd] frame_wf [OF fd] by (auto simp: str_holds_def)
  then show thesis by (rule that [rotated]) (use st 1(1,3) f in \<open>simp_all add: ipv4_net2str_def nb\<close>)
qed

text \<open>
  The identities from \<open>brk\<close> on name neither nodes nor data yet; those of other clients stay what
  they are.
\<close>

definition fresh_ids :: "app \<Rightarrow> bool" where
  "fresh_ids a \<longleftrightarrow> (\<forall>i \<ge> brk (app_mem a). app_data a i = None \<and> ps_nodes (app_ps a) i = None)"

lemma create_client_data_conn:
  assumes wf: "wf_mem (app_mem a)" and av: "always_avail (app_mem a)" and fr: "fresh_ids a"
  obtains c nid ctx req a' where
    "create_client_data fd addr port a = Inr (http_success, Some (brk (app_mem a)), a')"
    and "conn_at a' (brk (app_mem a)) c actx0 nid ctx req (inet_ntop (take 4 addr))"
    and "cl_fd c = fd" and "cl_port c = htons port" and "frame {} (app_mem a) (app_mem a')" and "app_os a' = app_os a"
    and "app_data a' = (app_data a)(brk (app_mem a) := Some (Client c))"
    and "ps_nodes (app_ps a') = (ps_nodes (app_ps a))(nid := Some ctx)" and "ps_nodes (app_ps a) nid = None"
    and "fresh_ids a'" and "app_cfg a' = app_cfg a" and "app_table a' = app_table a" and "loop_terminal a' = loop_terminal a"
proof -
  let ?m = "app_mem a" and ?cid = "brk (app_mem a)"
  let ?m1 = "?m\<lparr>brk := Suc ?cid\<rparr>"
  have al: "alloc_request ?m = (True, ?m1)" using av by (simp add: alloc_request_def always_avail_def)
  have f1: "frame {} ?m ?m1" using wf by (rule frame_brk)
  obtain b m2 where nb: "new_buf STR_SMALL_BUF_SIZE ?m1 = (b, m2)" by force
  note B = new_sbuf [OF frame_wf [OF f1] nb]
  have f2: "frame {} ?m m2" using f1 B(2) by (rule frame_trans) simp
  have av2: "always_avail m2" using av f2 by (rule always_avail_frame)
  have zb: "str_buf (zero_string b) = b" by (simp add: zero_string_def)
  obtain ip m3 where ip: "ipv4_net2str (zero_string b) addr m2 = Inr (ip, m3)" "str_holds m3 ip (inet_ntop (take 4 addr))"
    "str_buf ip = str_buf (zero_string b)" "frame {Buf (str_buf (zero_string b))} m2 m3"
    by (rule ipv4_text [OF frame_wf [OF f2] av2, of "zero_string b" addr]) (use B(3) zb in simp)
  have "Buf b \<notin> {} \<Longrightarrow> blocks ?m (Buf b) = None" using B(1) wf by (simp add: wf_mem_def)
  then have f3: "frame {} ?m m3" using f2 ip(4) [unfolded zb] by (intro frame_from_fresh [of ?m m2 b m3]) simp_all
  let ?st = "(app_ps a)\<lparr>ps_mem := m3\<rparr>"
  have p: "wf_mem (ps_mem ?st)" "always_avail (ps_mem ?st)"
    using frame_wf [OF f3] always_avail_frame [OF av f3] by simp_all
  from http_parse_ctx_new_refines [OF p] obtain nid ctx req m4 where
    4: "http_parse_ctx_new ?st = Inr (http_success, Some nid, \<lparr>ps_mem = m4, ps_nodes = (ps_nodes ?st)(nid := Some ctx)\<rparr>)"
      "nid = brk (ps_mem ?st)" "ctx_rep m4 ctx req actx0" "frame {} (ps_mem ?st) m4"
      "\<forall>b \<in> feed_frame ctx req. blocks (ps_mem ?st) b = None" by blast
  have f34: "frame {} m3 m4" using 4(4) by simp
  have f4: "frame {} ?m m4" using f3 f34 by (rule frame_trans) simp
  let ?c = "\<lparr>cl_fd = fd, cl_ip = ip, cl_port = htons port, ctx_beg = Some nid, ctx_tail = Some nid\<rparr>"
  let ?a = "a\<lparr>app_ps := \<lparr>ps_mem = m4, ps_nodes = (ps_nodes (app_ps a))(nid := Some ctx)\<rparr>,
      app_data := (app_data a)(?cid := Some (Client ?c))\<rparr>"
  have c: "create_client_data fd addr port a = Inr (http_success, Some ?cid, ?a)"
    using al nb ip(1) 4(1) by (simp add: create_client_data_def Let_def)
  have rip: "str_rep m3 ip (inet_ntop (take 4 addr))" using ip(2) by (simp add: str_holds_def)
  then have ip4: "str_rep m4 ip (inet_ntop (take 4 addr))" using f34 by (rule str_rep_frame) simp
  have dis: "footprint ip \<inter> feed_frame ctx req = {}" using str_rep_footprint_used [OF rip] 4(5) by fastforce
  have cn: "conn_at ?a ?cid ?c actx0 nid ctx req (inet_ntop (take 4 addr))"
    using 4(3) ip4 dis always_avail_frame [OF av f4] by (simp add: conn_at_def)
  have b2: "?cid < brk m2" using B(5) by simp
  have nid: "?cid \<le> nid" using 4(2) frame_brk_le [OF f3] by simp
  let ?pb = "str_buf (post ctx)"
  have "Buf ?pb \<in> footprint (post ctx)" by (simp add: footprint_def)
  then have "blocks m4 (Buf ?pb) \<noteq> None" "blocks m3 (Buf ?pb) = None"
    using 4(3,5) str_rep_footprint_used [of m4 "post ctx"] by (auto simp: ctx_rep_def feed_frame_def)
  then have "brk m3 \<le> ?pb" "?pb < brk m4"
    using frame_dead_buf [OF f34, of ?pb] wf_mem_used(2) [OF frame_wf [OF f4], of ?pb] by (auto simp: not_less [symmetric])
  then have nm: "nid < brk m4" using 4(2) by simp
  have "fresh_ids ?a" using fr nid nm frame_brk_le [OF f4] by (auto simp: fresh_ids_def)
  moreover have "ps_nodes (app_ps a) nid = None" using fr nid by (simp add: fresh_ids_def)
  ultimately show thesis by (intro that [OF c cn]) (use f4 in simp_all)
qed

text \<open>A whole call of the callback that accepts.\<close>

lemma handle_server_fd_accepts:
  assumes "app_data a (fa_usrdata args) = Some d" and wf: "wf_mem (app_mem a)" and av: "always_avail (app_mem a)"
    and fr: "fresh_ids a"
    and r: "0 \<le> r_val (reply (app_os a) 0)" "0 \<le> r_val (reply (app_os a) 2)" "0 \<le> r_val (reply (app_os a) 3)"
      "0 \<le> r_val (reply (app_os a) 4)"
  obtains c nid ctx req a' where "handle_server_fd args a = Inr (call_back_set args http_success, a')"
    and "conn_at a' (brk (app_mem a)) c actx0 nid ctx req (inet_ntop (take 4 (map nat (r_nums (reply (app_os a) 0)))))"
    and "cl_fd c = r_val (reply (app_os a) 0)" and "cl_port c = htons (reply_num (reply (app_os a) 0) 4)"
    and "app_os a' = (app_os a)\<lparr>os_trace := os_trace (app_os a) @ [Accept (data_fd d), Log HTTP_NEW_CLIENT_GREAT,
       Fcntl_getfl (cl_fd c), Fcntl_setfl (cl_fd c) (or (r_val (reply (app_os a) 2)) O_NONBLOCK),
       Epoll_add (fa_epoll_fd args) (cl_fd c) (brk (app_mem a))]\<rparr>"
    and "frame {} (app_mem a) (app_mem a')"
    and "app_data a' = (app_data a)(brk (app_mem a) := Some (Client c))"
    and "ps_nodes (app_ps a') = (ps_nodes (app_ps a))(nid := Some ctx)" and "ps_nodes (app_ps a) nid = None"
    and "fresh_ids a'" and "app_cfg a' = app_cfg a" and "app_table a' = app_table a" and "loop_terminal a' = loop_terminal a"
proof -
  let ?w = "app_os a" and ?fd = "r_val (reply (app_os a) 0)" and ?cid = "brk (app_mem a)"
  let ?a1 = "a\<lparr>app_os := ?w\<lparr>os_trace := os_trace ?w @ [Accept (data_fd d)]\<rparr>\<rparr>"
  have fr1: "fresh_ids ?a1" using fr by (simp add: fresh_ids_def)
  have wf1: "wf_mem (app_mem ?a1)" "always_avail (app_mem ?a1)" using wf av by simp_all
  obtain c nid ctx req a2 where 2:
    "create_client_data ?fd (map nat (take 4 (r_nums (reply ?w 0)))) (reply_num (reply ?w 0) 4) ?a1 =
       Inr (http_success, Some (brk (app_mem ?a1)), a2)"
    "conn_at a2 (brk (app_mem ?a1)) c actx0 nid ctx req (inet_ntop (take 4 (map nat (take 4 (r_nums (reply ?w 0))))))"
    "cl_fd c = ?fd" "cl_port c = htons (reply_num (reply ?w 0) 4)" "frame {} (app_mem ?a1) (app_mem a2)" "app_os a2 = app_os ?a1"
    "app_data a2 = (app_data ?a1)(brk (app_mem ?a1) := Some (Client c))"
    "ps_nodes (app_ps a2) = (ps_nodes (app_ps ?a1))(nid := Some ctx)" "ps_nodes (app_ps ?a1) nid = None" "fresh_ids a2"
    "app_cfg a2 = app_cfg ?a1" "app_table a2 = app_table ?a1" "loop_terminal a2 = loop_terminal ?a1"
    by (rule create_client_data_conn [OF wf1 fr1])
  let ?w3 = "?w\<lparr>os_trace := os_trace ?w @ [Accept (data_fd d), Log HTTP_NEW_CLIENT_GREAT,
       Fcntl_getfl ?fd, Fcntl_setfl ?fd (or (r_val (reply ?w 2)) O_NONBLOCK), Epoll_add (fa_epoll_fd args) ?fd ?cid]\<rparr>"
  let ?a3 = "a2\<lparr>app_os := ?w3\<rparr>"
  have h: "handle_server_fd args a = Inr (call_back_set args http_success, ?a3)"
    using assms(1) r 2(1,6)
    by (simp add: handle_server_fd_def app_call_def app_log_def setnoblocking_def Let_def reply_simps not_less)
  have t: "take 4 (map nat (take 4 (r_nums (reply ?w 0)))) = take 4 (map nat (r_nums (reply ?w 0)))" by (simp add: take_map)
  have cn: "conn_at ?a3 ?cid c actx0 nid ctx req (inet_ntop (take 4 (map nat (r_nums (reply ?w 0)))))"
    using 2(2) unfolding t by (simp add: conn_at_def)
  have fi: "fresh_ids ?a3" using 2(10) by (simp add: fresh_ids_def)
  show thesis by (rule that [OF h cn 2(3,4)]) (use 2(3,5-9,11-13) fi in simp_all)
qed

section \<open>A packet\<close>

text \<open>The environment when the callback for a client starts to read.\<close>

definition reporting :: "os \<Rightarrow> os" where
  "reporting w = w\<lparr>os_trace := os_trace w @ [Log HTTP_REPORT_CLIENT_INFO]\<rparr>"

definition after_reading :: "fd_t \<Rightarrow> char list list \<Rightarrow> os \<Rightarrow> os" where
  "after_reading fd cs w = w\<lparr>os_trace := os_trace w @ Log HTTP_REPORT_CLIENT_INFO # read_trace fd cs\<rparr>"

text \<open>Reading leaves the connection alone; the string it fills has objects of its own.\<close>

lemma client_reads:
  assumes cn: "conn_at a cid c s nid ctx req ip" and snd: "sends (reporting (app_os a)) cs over"
    and fuel: "length cs < fuel" and len: "length (concat cs) < MAX_LEN"
  obtains b m0 rs m1 where "new_buf STR_SMALL_BUF_SIZE (app_mem a) = (b, m0)"
    and "read_client fuel (zero_string b) c (with_mem m0 (app_log HTTP_REPORT_CLIENT_INFO a)) =
      Inr (if over then http_err_client_close else http_success, rs, (with_mem m1 a)\<lparr>app_os := after_reading (cl_fd c) cs (app_os a)\<rparr>)"
    and "conn_at ((with_mem m1 a)\<lparr>app_os := after_reading (cl_fd c) cs (app_os a)\<rparr>) cid c s nid ctx req ip"
    and "str_holds m1 rs (concat cs)" and "str_buf rs = b" and "frame {} (app_mem a) m1"
    and "\<forall>x \<in> footprint rs. blocks (app_mem a) x = None"
proof -
  let ?m = "app_mem a"
  have wf: "wf_mem ?m" and av: "always_avail ?m" using cn by (simp_all add: conn_at_def ctx_rep_def)
  obtain b m0 where nb: "new_buf STR_SMALL_BUF_SIZE ?m = (b, m0)" by force
  note B = new_sbuf [OF wf nb]
  let ?a0 = "with_mem m0 (app_log HTTP_REPORT_CLIENT_INFO a)"
  have w0: "app_os ?a0 = reporting (app_os a)" by (simp add: app_log_def reporting_def)
  have zb: "str_buf (zero_string b) = b" by (simp add: zero_string_def)
  let ?w1 = "(app_os ?a0)\<lparr>os_trace := os_trace (app_os ?a0) @ read_trace (cl_fd c) cs\<rparr>"
  have rc: "recv_all fuel (cl_fd c) (app_os ?a0) = Some (over, concat cs, ?w1)"
    using snd fuel unfolding w0 by (rule recv_sends)
  have p: "wf_mem (app_mem ?a0)" "always_avail (app_mem ?a0)" "has_sbuf (app_mem ?a0) (str_buf (zero_string b))"
    using frame_wf [OF B(2)] always_avail_frame [OF av B(2)] B(3) zb by simp_all
  obtain rs m1 where 1: "read_client fuel (zero_string b) c ?a0 =
       Inr (if over then http_err_client_close else http_success, rs, (with_mem m1 ?a0)\<lparr>app_os := ?w1\<rparr>)"
    "str_holds m1 rs (concat cs)" "always_avail m1" "str_buf rs = str_buf (zero_string b)"
    "frame {Buf (str_buf (zero_string b))} (app_mem ?a0) m1"
    "\<forall>x \<in> footprint rs. x = Buf (str_buf (zero_string b)) \<or> blocks (app_mem ?a0) x = None"
    by (rule read_client_recv [OF rc len p])
  let ?a1 = "(with_mem m1 a)\<lparr>app_os := after_reading (cl_fd c) cs (app_os a)\<rparr>"
  have a1: "(with_mem m1 ?a0)\<lparr>app_os := ?w1\<rparr> = ?a1"
    by (simp add: w0 reporting_def after_reading_def app_log_def)
  have f: "frame {} ?m m1"
    using 1(5) by (intro frame_from_fresh [OF B(2) _ B(4)]) (simp add: zb)
  have cn1: "conn_at ?a1 cid c s nid ctx req ip" by (rule conn_at_fresh [OF cn]) (use f in simp_all)
  have nf: "\<forall>x \<in> footprint rs. blocks ?m x = None"
  proof
    fix x assume "x \<in> footprint rs"
    with 1(6) have "x = Buf b \<or> blocks m0 x = None" by (simp add: zb)
    then show "blocks ?m x = None" using B(4) frame_None [OF B(2), of x] by auto
  qed
  have bb: "str_buf rs = b" using 1(4) zb by simp
  show thesis by (rule that [OF nb 1(1) [unfolded a1] cn1 1(2) bb f nf])
qed

text \<open>The view of the received text is apart from the parser's text.\<close>

lemma received_apart:
  assumes cn: "conn_at a cid c s nid ctx req ip" and nf: "\<forall>x \<in> footprint rs. blocks (app_mem a) x = None"
    and rep: "str_rep m rs cs"
  shows "view_apart (string_view_from_string rs) (post ctx)"
  unfolding view_apart_def
proof
  fix x assume "x \<in> footprint (post ctx)"
  then have "blocks (app_mem a) x \<noteq> None" using conn_objs_used [OF cn, of x] by (simp add: conn_objs_def)
  then have "x \<notin> footprint rs" using nf by auto
  moreover have "sv_data (string_view_from_string rs) = str_data rs"
    by (simp add: string_view_from_string_def string_view_from_parts_def Let_def)
  ultimately show "view_off (string_view_from_string rs) x"
    by (auto simp: view_off_def footprint_def split: ptr.splits)
qed

text \<open>What a packet does to the connection, when the parser goes on.\<close>

lemma client_feeds:
  assumes cn: "conn_at a cid c s nid ctx req ip" and v: "view_bytes (app_mem a) packet = Inr bs"
    and ap: "view_apart packet (post ctx)" and len: "length (a_text s) + length bs < MAX_LEN"
  shows "case spec_feed (ndebug (app_mem a)) bs s of
      Inl e \<Rightarrow> http_parse_feed (ctx_tail c) packet (app_ps a) = Inl e
    | Inr (herr, s') \<Rightarrow> \<exists>ctx' req' ps. http_parse_feed (ctx_tail c) packet (app_ps a) = Inr (herr, ctx_tail c, ps) \<and>
        conn_at (a\<lparr>app_ps := ps\<rparr>) cid c s' nid ctx' req' ip \<and> frame (feed_frame ctx req) (app_mem a) (ps_mem ps) \<and>
        str_buf (post ctx') = str_buf (post ctx) \<and> req_bufs req' = req_bufs req \<and>
        (\<exists>k. str_data (post ctx') = Ptr (Heap k) 0) \<and>
        (\<forall>x \<in> footprint (post ctx'). x \<in> footprint (post ctx) \<or> blocks (app_mem a) x = None)"
proof -
  have 1: "ctx_rep (app_mem a) ctx req s" "ps_nodes (app_ps a) nid = Some ctx" "ctx_inv s" "always_avail (app_mem a)"
    "ctx_tail c = Some nid" "str_rep (app_mem a) (cl_ip c) ip" "footprint (cl_ip c) \<inter> feed_frame ctx req = {}"
    using cn by (simp_all add: conn_at_def)
  note F = http_parse_feed_refines [OF 1(1-4) v ap len]
  show ?thesis
  proof (cases "spec_feed (ndebug (app_mem a)) bs s")
    case (Inl e)
    with F 1(5) show ?thesis by simp
  next
    case (Inr x)
    obtain herr s' where x: "spec_feed (ndebug (app_mem a)) bs s = Inr (herr, s')" using Inr by (cases x) auto
    with F obtain ctx' req' m' where f: "http_parse_feed (Some nid) packet (app_ps a) =
        Inr (herr, Some nid, (app_ps a)\<lparr>ps_mem := m', ps_nodes := (ps_nodes (app_ps a))(nid := Some ctx')\<rparr>)"
      "run_rep (Heap (brk (app_mem a))) (length (a_headers s)) m' ctx' req' s'" "frame (feed_frame ctx req) (app_mem a) m'"
      "str_buf (post ctx') = str_buf (post ctx)" "req_bufs req' = req_bufs req" by auto
    have ip': "str_rep m' (cl_ip c) ip" using 1(6) f(3) by (rule str_rep_frame) (use 1(7) in blast)
    have dead: "Heap (brk (app_mem a)) \<notin> footprint (cl_ip c)"
      using str_rep_footprint_used [OF 1(6), of "Heap (brk (app_mem a))"] 1(1) by (auto simp: ctx_rep_def)
    have fp: "footprint (post ctx') = {Buf (str_buf (post ctx)), Heap (brk (app_mem a))}"
      using f(2,4) by (auto simp: run_rep_def footprint_def)
    have pb: "Buf (str_buf (post ctx)) \<in> footprint (post ctx)" by (simp add: footprint_def)
    have fp': "\<forall>x \<in> footprint (post ctx'). x \<in> footprint (post ctx) \<or> blocks (app_mem a) x = None"
      unfolding fp using pb 1(1) by (simp add: ctx_rep_def)
    have "footprint (cl_ip c) \<inter> feed_frame ctx' req' = {}"
      using dead 1(7) f(5) pb unfolding feed_frame_def fp by blast
    then have "conn_at (a\<lparr>app_ps := (app_ps a)\<lparr>ps_mem := m', ps_nodes := (ps_nodes (app_ps a))(nid := Some ctx')\<rparr>\<rparr>)
        cid c s' nid ctx' req' ip"
      using cn f(2) ip' spec_feed_inv(1) [OF x 1(3)] always_avail_frame [OF 1(4) f(3)]
      by (simp add: conn_at_def run_rep_def)
    with x f 1(5) fp' show ?thesis
      by (auto simp: run_rep_def intro!: exI [of _ ctx'] exI [of _ req'])
  qed
qed

text \<open>An array that came to life after the connection is not part of it later either.\<close>

lemma buf_not_in_conn:
  assumes cn: "conn_at a cid c s nid ctx req ip" and b: "blocks (app_mem a) (Buf b) = None"
    and cn': "conn_at a' cid c s' nid ctx' req' ip" and bufs: "str_buf (post ctx') = str_buf (post ctx)" "req_bufs req' = req_bufs req"
  shows "Buf b \<notin> conn_objs c ctx' req'"
proof
  assume "Buf b \<in> conn_objs c ctx' req'"
  moreover have "str_rep (app_mem a') (cl_ip c) ip" "str_rep (app_mem a') (post ctx') (a_text s')"
    "str_rep (app_mem a') (req_path req') (a_path s')" "str_rep (app_mem a') (req_body req') (a_body s')"
    using cn' by (simp_all add: conn_at_def ctx_rep_def req_rep_def)
  ultimately have "b = str_buf (cl_ip c) \<or> b = str_buf (post ctx') \<or> Buf b \<in> req_bufs req'"
    unfolding conn_objs_def req_bufs_def using Buf_in_footprint by blast
  then have "Buf b \<in> conn_objs c ctx req"
    unfolding bufs by (auto simp: conn_objs_def req_bufs_def footprint_def)
  with conn_objs_used [OF cn this] b show False by simp
qed

lemma pop_waits:
  assumes "conn_at a cid c s nid ctx req ip" and "a_state s \<noteq> http_parse_end"
  shows "http_parse_pop_request_and_release (ctx_beg c) (app_ps a) = Inr (False, None, ctx_beg c, app_ps a)"
  using assms by (simp add: conn_at_def ctx_rep_def http_parse_pop_request_and_release_def)

text \<open>
  The callback up to its answers: the state of the parser is that of the abstract one, and the
  loop over the complete requests starts.
\<close>

lemma client_fed:
  assumes cn: "conn_at a cid c s nid ctx req ip" and args: "fa_usrdata args = cid"
    and snd: "sends (reporting (app_os a)) cs False"
    and fuel: "length cs < fuel" and len: "length (a_text s) + length (concat cs) < MAX_LEN"
  obtains (fails) e where "spec_feed (ndebug (app_mem a)) (concat cs) s = Inl e" and "handle_client_fd fuel args a = Inl e"
  | (fed) herr s' a2 ctx' req' b where "spec_feed (ndebug (app_mem a)) (concat cs) s = Inr (herr, s')"
    and "conn_at a2 cid c s' nid ctx' req' ip" and "Buf b \<notin> conn_objs c ctx' req'"
    and "a2 = a\<lparr>app_os := after_reading (cl_fd c) cs (app_os a), app_ps := app_ps a2\<rparr>"
    and "frame (feed_frame ctx req) (app_mem a) (app_mem a2)" and "\<exists>k. str_data (post ctx') = Ptr (Heap k) 0"
    and "\<forall>x \<in> footprint (post ctx'). x \<in> footprint (post ctx) \<or> blocks (app_mem a) x = None"
    and "handle_client_fd fuel args a =
      (if herr = http_err_request_fatal then Inr (call_back_set args herr, with_mem (drop_buf b (app_mem a2)) a2)
       else bnd (answer_loop (Suc (brk (app_mem a2))) cid herr a2)
              (\<lambda>(herr, a). Inr (call_back_set args herr, with_mem (drop_buf b (app_mem a)) a)))"
proof -
  have l: "length (concat cs) < MAX_LEN" using len by simp
  obtain b m0 rs m1 where 1: "new_buf STR_SMALL_BUF_SIZE (app_mem a) = (b, m0)"
    "read_client fuel (zero_string b) c (with_mem m0 (app_log HTTP_REPORT_CLIENT_INFO a)) =
      Inr (if False then http_err_client_close else http_success, rs, (with_mem m1 a)\<lparr>app_os := after_reading (cl_fd c) cs (app_os a)\<rparr>)"
    "conn_at ((with_mem m1 a)\<lparr>app_os := after_reading (cl_fd c) cs (app_os a)\<rparr>) cid c s nid ctx req ip"
    "str_holds m1 rs (concat cs)" "str_buf rs = b" "frame {} (app_mem a) m1"
    "\<forall>x \<in> footprint rs. blocks (app_mem a) x = None"
    by (rule client_reads [OF cn snd fuel l])
  let ?a1 = "(with_mem m1 a)\<lparr>app_os := after_reading (cl_fd c) cs (app_os a)\<rparr>"
  let ?p = "string_view_from_string rs"
  have rp: "str_rep m1 rs (concat cs)" using 1(4) by (simp add: str_holds_def)
  have v: "view_bytes (app_mem ?a1) ?p = Inr (concat cs)" using view_from_string(1) [OF rp] by simp
  have ap: "view_apart ?p (post ctx)" by (rule received_apart [OF cn 1(7) rp])
  have nd: "ndebug (app_mem ?a1) = ndebug (app_mem a)" using frame_env(3) [OF 1(6)] by simp
  have d: "app_data a cid = Some (Client c)" using cn by (simp add: conn_at_def)
  have am: "app_mem (app_log HTTP_REPORT_CLIENT_INFO a) = app_mem a" by (simp add: app_log_def)
  note F = client_feeds [OF 1(3) v ap len, unfolded nd]
  show thesis
  proof (cases "spec_feed (ndebug (app_mem a)) (concat cs) s")
    case (Inl e)
    with F have "http_parse_feed (ctx_tail c) ?p (app_ps ?a1) = Inl e" by simp
    then have "handle_client_fd fuel args a = Inl e" using d 1(1,2) args am by (simp add: handle_client_fd_def Let_def)
    with Inl show ?thesis by (rule fails)
  next
    case (Inr x)
    obtain herr s' where x: "spec_feed (ndebug (app_mem a)) (concat cs) s = Inr (herr, s')" using Inr by (cases x) auto
    with F obtain ctx' req' ps where f: "http_parse_feed (ctx_tail c) ?p (app_ps ?a1) = Inr (herr, ctx_tail c, ps)"
      "conn_at (?a1\<lparr>app_ps := ps\<rparr>) cid c s' nid ctx' req' ip" "str_buf (post ctx') = str_buf (post ctx)"
      "req_bufs req' = req_bufs req" "frame (feed_frame ctx req) (app_mem ?a1) (ps_mem ps)"
      "\<exists>k. str_data (post ctx') = Ptr (Heap k) 0"
      "\<forall>x \<in> footprint (post ctx'). x \<in> footprint (post ctx) \<or> blocks (app_mem ?a1) x = None" by auto
    let ?a2 = "?a1\<lparr>app_ps := ps\<rparr>"
    have same: "c\<lparr>ctx_tail := ctx_tail c\<rparr> = c" by simp
    have upd: "?a1\<lparr>app_ps := ps, app_data := (app_data ?a1)(cid := Some (Client c))\<rparr> = ?a2"
      using d by (simp add: fun_upd_idem)
    have nb: "Buf b \<notin> conn_objs c ctx' req'"
      by (rule buf_not_in_conn [OF cn _ f(2-4)]) (use 1(1) cn in \<open>auto simp: conn_at_def ctx_rep_def new_buf_def\<close>)
    have h: "handle_client_fd fuel args a =
      (if herr = http_err_request_fatal then Inr (call_back_set args herr, with_mem (drop_buf b (app_mem ?a2)) ?a2)
       else bnd (answer_loop (Suc (brk (app_mem ?a2))) cid herr ?a2)
              (\<lambda>(herr, a). Inr (call_back_set args herr, with_mem (drop_buf b (app_mem a)) a)))"
      using d 1(1,2) f(1) upd args am by (simp add: handle_client_fd_def Let_def same del: answer_loop.simps)
    have a2: "?a2 = a\<lparr>app_os := after_reading (cl_fd c) cs (app_os a), app_ps := app_ps ?a2\<rparr>" by (simp add: with_mem_def)
    have "frame (feed_frame ctx req) (app_mem a) m1" using 1(6) by (rule frame_mono) simp
    moreover have "frame (feed_frame ctx req) m1 (ps_mem ps)" using f(5) by simp
    ultimately have "frame (feed_frame ctx req) (app_mem a) (ps_mem ps)" by (rule frame_trans) simp
    then have fr: "frame (feed_frame ctx req) (app_mem a) (app_mem ?a2)" by simp
    have fp: "\<forall>x \<in> footprint (post ctx'). x \<in> footprint (post ctx) \<or> blocks (app_mem a) x = None"
      using f(7) frame_None [OF 1(6)] by auto
    show ?thesis by (rule fed [OF x f(2) nb a2 fr f(6) fp h])
  qed
qed

lemma client_packet:
  assumes cn: "conn a cid c s" and args: "fa_usrdata args = cid" and snd: "sends (reporting (app_os a)) cs False"
    and fuel: "length cs < fuel" and len: "length (a_text s) + length (concat cs) < MAX_LEN"
  shows "case spec_feed (ndebug (app_mem a)) (concat cs) s of
      Inl e \<Rightarrow> handle_client_fd fuel args a = Inl e
    | Inr (herr, s') \<Rightarrow> a_state s' \<noteq> http_parse_end \<longrightarrow>
        (\<exists>a'. handle_client_fd fuel args a = Inr (call_back_set args herr, a') \<and> conn a' cid c s' \<and>
          app_os a' = after_reading (cl_fd c) cs (app_os a))"
proof -
  from cn obtain nid ctx req ip where cn: "conn_at a cid c s nid ctx req ip" unfolding conn_def by blast
  from cn args snd fuel len show ?thesis
  proof (cases rule: client_fed [case_names fails fed])
    case (fails e)
    then show ?thesis by simp
  next
    case (fed herr s' a2 ctx' req' b)
    have w: "app_os a2 = after_reading (cl_fd c) cs (app_os a)" by (subst fed(4)) simp
    let ?a3 = "with_mem (drop_buf b (app_mem a2)) a2"
    have "wf_mem (app_mem a2)" using fed(2) by (simp add: conn_at_def ctx_rep_def)
    then have fd: "frame {Buf b} (app_mem a2) (app_mem ?a3)" by (auto simp: frame_def drop_buf_def wf_mem_def)
    have c3: "conn ?a3 cid c s'" unfolding conn_def using conn_at_frame [OF fed(2) fd] fed(3) by auto
    have "answer_loop (Suc (brk (app_mem a2))) cid herr a2 = Inr (herr, a2)" if "a_state s' \<noteq> http_parse_end"
      using pop_waits [OF fed(2) that] fed(2) by (simp add: conn_at_def fun_upd_idem)
    then have "handle_client_fd fuel args a = Inr (call_back_set args herr, ?a3)" if "a_state s' \<noteq> http_parse_end"
      using that fed(8) by (simp del: answer_loop.simps)
    with fed(1) c3 w show ?thesis by auto
  qed
qed

section \<open>A complete request\<close>

text \<open>Taking the request out: the node and its text go, the request keeps its path.\<close>

lemma pop_takes:
  assumes cn: "conn_at a cid c s nid ctx req ip" and fin: "a_state s = http_parse_end"
    and dat: "str_data (post ctx) = Ptr (Heap k) 0"
  obtains ps where "http_parse_pop_request_and_release (ctx_beg c) (app_ps a) = Inr (True, Some req, None, ps)"
    and "frame (footprint (post ctx)) (app_mem a) (ps_mem ps)" and "str_rep (ps_mem ps) (req_path req) (a_path s)"
    and "req_method req = a_method s"
proof -
  let ?m = "app_mem a"
  have rep: "ctx_rep ?m ctx req s" and nid: "ps_nodes (app_ps a) nid = Some ctx" "ctx_beg c = Some nid"
    using cn by (simp_all add: conn_at_def)
  then have r: "str_rep ?m (post ctx) (a_text s)" "wait_state ctx = http_parse_end" "http_request ctx = Some req"
      "next_ctx ctx = None" "req_rep ?m req s" "wf_mem ?m"
      "footprint (post ctx) \<inter> (footprint (req_path req) \<union> footprint (req_body req)) = {}"
    using fin by (simp_all add: ctx_rep_def)
  let ?m1 = "?m\<lparr>blocks := (blocks ?m)(Heap k := None)\<rparr>"
  let ?m' = "drop_buf (str_buf (post ctx)) ?m1"
  let ?ps = "\<lparr>ps_mem = ?m', ps_nodes = (ps_nodes (app_ps a))(nid := None)\<rparr>"
  have d: "string_destroy (post ctx) ?m = Inr ?m1" using string_destroy_frees [OF r(1)] dat by simp
  have p: "http_parse_pop_request_and_release (ctx_beg c) (app_ps a) = Inr (True, Some req, None, ?ps)"
    using nid r(2-4) d
    by (simp add: http_parse_pop_request_and_release_def http_parse_ctx_free_node_def http_request_free_def Let_def)
  have fr: "frame (footprint (post ctx)) ?m (ps_mem ?ps)"
    using r(6) dat by (auto simp: frame_def wf_mem_def drop_buf_def footprint_def)
  have "str_rep ?m (req_path req) (a_path s)" using r(5) by (simp add: req_rep_def)
  then have "str_rep (ps_mem ?ps) (req_path req) (a_path s)" using fr by (rule str_rep_frame) (use r(7) in blast)
  with p fr show thesis by (rule that) (use r(5) in \<open>simp add: req_rep_def\<close>)
qed

text \<open>
  A packet that completes a GET, while no file has been read yet, and the answers of the system
  that let the file be read.
\<close>

definition finds_file :: "os \<Rightarrow> app \<Rightarrow> char list \<Rightarrow> char list \<Rightarrow> bool" where
  "finds_file w a base p \<longleftrightarrow>
     (let cwd = r_data (reply w 0); f = absolute_text cwd base p in
      r_val (reply w 0) \<noteq> 0 \<and> length cwd < PATH_MAX \<and> NUL \<notin> set f \<and> length f < MAX_LEN \<and>
      view_bytes (app_mem a) (get_base_dir (app_cfg a)) = Inr base \<and> app_table a = Some kh_zero \<and>
      (\<forall>k \<in> {1, 2, 7, 8}. r_val (reply w k) = 0) \<and> (\<forall>k \<in> {3, 4, 5}. 0 \<le> r_val (reply w k)))"

lemma finds_file_first_get:
  assumes "finds_file (app_os a') a base p" and "app_cfg a' = app_cfg a" and "app_table a' = app_table a"
    and "view_bytes (app_mem a') (get_base_dir (app_cfg a)) = Inr base"
    and "str_rep (app_mem a') (req_path req) p" and "req_method req = http_method_get"
  shows "first_get req a' (absolute_text (r_data (reply (app_os a') 0)) base p) kh_zero"
proof -
  have v: "view_bytes (app_mem a') (string_view_from_string (req_path req)) = Inr p"
    using view_from_string(1) [OF assms(5)] .
  have n: "n_buckets (kh_zero :: path2resmem) = 0" by (simp add: kh_zero_def)
  show ?thesis
    using assms(1-4,6) v n unfolding finds_file_def first_get_def Let_def by auto
qed

lemma client_get_dangles:
  assumes cn: "conn_at a cid c s nid ctx req ip" and args: "fa_usrdata args = cid"
    and snd: "sends (reporting (app_os a)) cs False"
    and fuel: "length cs < fuel" and len: "length (a_text s) + length (concat cs) < MAX_LEN"
    and sp: "spec_feed (ndebug (app_mem a)) (concat cs) s = Inr (http_success, s')"
    and fin: "a_state s' = http_parse_end" "a_method s' = http_method_get"
    and ff: "finds_file (after_reading (cl_fd c) cs (app_os a)) a base (a_path s')"
    and off: "\<forall>x \<in> conn_objs c ctx req. view_off (get_base_dir (app_cfg a)) x"
  shows "handle_client_fd fuel args a = Inl Dangling"
  using cn args snd fuel len
proof (cases rule: client_fed [case_names fails fed])
  case (fails e)
  with sp show ?thesis by simp
next
  case (fed herr s2 a2 ctx' req' b)
  have h: "herr = http_success" "s2 = s'" using fed(1) sp by simp_all
  let ?v = "get_base_dir (app_cfg a)"
  note cn2 = fed(2) [unfolded h(2)]
  from fed(6) obtain k where k: "str_data (post ctx') = Ptr (Heap k) 0" ..
  obtain ps where p: "http_parse_pop_request_and_release (ctx_beg c) (app_ps a2) = Inr (True, Some req', None, ps)"
    "frame (footprint (post ctx')) (app_mem a2) (ps_mem ps)" "str_rep (ps_mem ps) (req_path req') (a_path s')"
    "req_method req' = a_method s'"
    by (rule pop_takes [OF cn2 fin(1) k])
  let ?c = "c\<lparr>ctx_beg := None\<rparr>"
  let ?a3 = "a2\<lparr>app_ps := ps, app_data := (app_data a2)(cid := Some (Client ?c))\<rparr>"
  have w: "app_os a2 = after_reading (cl_fd c) cs (app_os a)" "app_cfg a2 = app_cfg a" "app_table a2 = app_table a"
    by (subst fed(4), simp)+
  have base: "view_bytes (app_mem a) ?v = Inr base" using ff by (simp add: finds_file_def Let_def)
  have fresh: "view_off ?v x" if "blocks (app_mem a) x = None" "\<not> is_lit x" for x
    using view_off_fresh [OF base that] .
  have b2: "view_bytes (app_mem a2) ?v = Inr base"
  proof (rule frame_view [OF fed(5) base])
    fix x assume "x \<in> feed_frame ctx req"
    then show "view_off ?v x" using off feed_frame_objs by blast
  qed
  have b3: "view_bytes (ps_mem ps) ?v = Inr base"
  proof (rule frame_view [OF p(2) b2])
    fix x assume x: "x \<in> footprint (post ctx')"
    have "\<not> is_lit x" using x k by (auto simp: footprint_def)
    moreover have "x \<in> footprint (post ctx) \<or> blocks (app_mem a) x = None" using fed(7) x by (rule bspec)
    ultimately show "view_off ?v x" using off fresh by (auto simp: conn_objs_def)
  qed
  have g: "first_get req' ?a3 (absolute_text (r_data (reply (app_os ?a3) 0)) base (a_path s')) kh_zero"
    by (rule finds_file_first_get [where a = a]) (use ff w b3 p(3,4) fin(2) in simp_all)
  have wf3: "wf_mem (app_mem ?a3)" "always_avail (app_mem ?a3)"
    using frame_wf [OF p(2)] always_avail_frame [OF _ p(2)] cn2 by (simp_all add: conn_at_def)
  from get_answer_dangles [OF wf3 g] obtain rep a4 where
    4: "handle_http_request req' ?a3 = Inr (http_success, Some rep, a4)" "\<forall>client. http_send_response client rep a4 = Inl Dangling"
    by blast
  have d: "app_data a2 cid = Some (Client c)" using cn2 by (simp add: conn_at_def)
  have "answer_loop (Suc (brk (app_mem a2))) cid http_success a2 = Inl Dangling"
    using d p(1) 4 by (simp add: Let_def c_assert_def)
  with fed(8) h show ?thesis by simp
qed

section \<open>The end of a connection\<close>

lemma destroy_frame:
  assumes rep: "str_rep m s cs" and wf: "wf_mem m"
  obtains m' where "string_destroy s m = Inr m'" and "frame (footprint s) m m'"
proof -
  have "frame (footprint s) m (case str_data s of Ptr (Heap k) _ \<Rightarrow> m\<lparr>blocks := (blocks m)(Heap k := None)\<rparr> | _ \<Rightarrow> m)"
    using wf by (auto simp: frame_def wf_mem_def footprint_def split: ptr.split base.split)
  then show thesis using that string_destroy_frees [OF rep] by blast
qed

lemma frame_drop: "wf_mem m \<Longrightarrow> Buf b \<in> B \<Longrightarrow> frame B m (drop_buf b m)"
  by (auto simp: frame_def drop_buf_def wf_mem_def)

text \<open>The data of a client is released without a fault.\<close>

lemma client_data_freed:
  assumes cn: "conn_at a cid c s nid ctx req ip"
  obtains ps where "client_data_free cid c a = Inr (a\<lparr>app_ps := ps, app_data := (app_data a)(cid := None)\<rparr>)"
    and "frame (conn_objs c ctx req) (app_mem a) (ps_mem ps)" and "ps_nodes ps nid = None"
proof -
  let ?m = "app_mem a" and ?B = "conn_objs c ctx req"
  have r: "wf_mem ?m" "str_rep ?m (post ctx) (a_text s)" "http_request ctx = Some req" "next_ctx ctx = None"
    "ctx_beg c = Some nid" "ps_nodes (app_ps a) nid = Some ctx" "str_rep ?m (cl_ip c) ip" "req_rep ?m req s"
    "footprint (post ctx) \<inter> (footprint (req_path req) \<union> footprint (req_body req)) = {}"
    "footprint (cl_ip c) \<inter> feed_frame ctx req = {}"
    using cn by (simp_all add: conn_at_def ctx_rep_def)
  let ?R = "req_bufs req"
  let ?m1 = "http_request_free (http_request ctx) ?m"
  have R: "?R \<subseteq> footprint (req_path req) \<union> footprint (req_body req)" by (auto simp: req_bufs_def footprint_def)
  have "frame ?R ?m (drop_buf (str_buf (req_path req)) ?m)" using r(1) by (rule frame_drop) (simp add: req_bufs_def)
  moreover from frame_wf [OF this] have "frame ?R (drop_buf (str_buf (req_path req)) ?m) ?m1"
    unfolding r(3) http_request_free_def by (simp add: frame_drop req_bufs_def)
  ultimately have f1: "frame ?R ?m ?m1" by (rule frame_trans) simp
  have p1: "str_rep ?m1 (post ctx) (a_text s)" using r(2) f1 by (rule str_rep_frame) (use R r(9) in blast)
  have i1: "str_rep ?m1 (cl_ip c) ip" using r(7) f1 by (rule str_rep_frame) (use r(10) in \<open>auto simp: feed_frame_def\<close>)
  obtain m2 where 2: "string_destroy (post ctx) ?m1 = Inr m2" "frame (footprint (post ctx)) ?m1 m2"
    by (rule destroy_frame [OF p1 frame_wf [OF f1]])
  let ?m3 = "drop_buf (str_buf (post ctx)) m2"
  have f3: "frame (footprint (post ctx)) m2 ?m3" using frame_wf [OF 2(2)] by (rule frame_drop) (simp add: footprint_def)
  have f13: "frame (footprint (post ctx)) ?m1 ?m3" using 2(2) f3 by (rule frame_trans) simp
  have i3: "str_rep ?m3 (cl_ip c) ip" using i1 f13 by (rule str_rep_frame) (use r(10) in \<open>auto simp: feed_frame_def\<close>)
  obtain m4 where 4: "string_destroy (cl_ip c) ?m3 = Inr m4" "frame (footprint (cl_ip c)) ?m3 m4"
    by (rule destroy_frame [OF i3 frame_wf [OF f13]])
  let ?m5 = "drop_buf (str_buf (cl_ip c)) m4"
  have f5: "frame (footprint (cl_ip c)) m4 ?m5" using frame_wf [OF 4(2)] by (rule frame_drop) (simp add: footprint_def)
  have B: "?R \<subseteq> ?B" "footprint (post ctx) \<subseteq> ?B" "footprint (cl_ip c) \<subseteq> ?B"
    using R by (auto simp: conn_objs_def)
  note g = frame_mono [OF f1 B(1)] frame_mono [OF f13 B(2)] frame_mono [OF 4(2) B(3)] frame_mono [OF f5 B(3)]
  have "frame ?B ?m ?m3" using g(1,2) by (rule frame_trans) simp
  from this g(3) have "frame ?B ?m m4" by (rule frame_trans) simp
  from this g(4) have f: "frame ?B ?m ?m5" by (rule frame_trans) simp
  let ?ps = "\<lparr>ps_mem = ?m5, ps_nodes = (ps_nodes (app_ps a))(nid := None)\<rparr>"
  have "http_parse_ctx_destroy_chain (Suc (brk ?m)) (ctx_beg c) (app_ps a) =
      Inr \<lparr>ps_mem = ?m3, ps_nodes = (ps_nodes (app_ps a))(nid := None)\<rparr>"
    using r(3-6) 2(1) by (simp add: http_parse_ctx_free_node_def Let_def)
  then have "client_data_free cid c a = Inr (a\<lparr>app_ps := ?ps, app_data := (app_data a)(cid := None)\<rparr>)"
    using 4(1) by (simp add: client_data_free_def)
  then show thesis by (rule that) (use f in simp_all)
qed

definition EBADF :: nat where "EBADF = 9"

text \<open>The calls of the callback when the other side has closed.\<close>

definition closing_trace :: "fn_args_t \<Rightarrow> client_data_t \<Rightarrow> char list list \<Rightarrow> os_event list" where
  "closing_trace args c cs =
     Log HTTP_REPORT_CLIENT_INFO # read_trace (cl_fd c) cs @ [Epoll_del (fa_epoll_fd args) (cl_fd c), Close (fa_epoll_fd args)]"

lemma client_closes:
  assumes cn: "conn_at a cid c s nid ctx req ip" and args: "fa_usrdata args = cid" and snd: "sends (reporting (app_os a)) cs True"
    and fuel: "length cs < fuel" and len: "length (concat cs) < MAX_LEN"
    and del: "0 \<le> r_val (reply (after_reading (cl_fd c) cs (app_os a)) 0)"
  obtains a' where "handle_client_fd fuel args a = Inr (call_back_set args http_err_client_close, a')"
    and "app_data a' = (app_data a)(cid := None)" and "loop_terminal a' = loop_terminal a"
    and "app_os a' = (app_os a)\<lparr>os_trace := os_trace (app_os a) @ closing_trace args c cs\<rparr>"
proof -
  obtain b m0 rs m1 where 1: "new_buf STR_SMALL_BUF_SIZE (app_mem a) = (b, m0)"
    "read_client fuel (zero_string b) c (with_mem m0 (app_log HTTP_REPORT_CLIENT_INFO a)) =
      Inr (if True then http_err_client_close else http_success, rs, (with_mem m1 a)\<lparr>app_os := after_reading (cl_fd c) cs (app_os a)\<rparr>)"
    "conn_at ((with_mem m1 a)\<lparr>app_os := after_reading (cl_fd c) cs (app_os a)\<rparr>) cid c s nid ctx req ip"
    by (rule client_reads [OF cn snd fuel len])
  let ?w = "after_reading (cl_fd c) cs (app_os a)"
  let ?a1 = "(with_mem m1 a)\<lparr>app_os := ?w\<rparr>"
  let ?a2 = "?a1\<lparr>app_os := ?w\<lparr>os_trace := os_trace ?w @ [Epoll_del (fa_epoll_fd args) (cl_fd c), Close (fa_epoll_fd args)]\<rparr>\<rparr>"
  have c2: "conn_at ?a2 cid c s nid ctx req ip" using 1(3) by (simp add: conn_at_def)
  obtain ps where ps: "client_data_free cid c ?a2 = Inr (?a2\<lparr>app_ps := ps, app_data := (app_data ?a2)(cid := None)\<rparr>)"
    by (rule client_data_freed [OF c2])
  let ?a3 = "?a2\<lparr>app_ps := ps, app_data := (app_data ?a2)(cid := None)\<rparr>"
  have cl: "close_client args cid c http_err_client_close ?a1 = Inr (http_err_client_close, ?a3)"
    using del ps by (simp add: close_client_def app_call_def app_do_def reply_fold not_less)
  have d: "app_data a cid = Some (Client c)" using cn by (simp add: conn_at_def)
  have am: "app_mem (app_log HTTP_REPORT_CLIENT_INFO a) = app_mem a" by (simp add: app_log_def)
  let ?a4 = "with_mem (drop_buf b (app_mem ?a3)) ?a3"
  have h: "handle_client_fd fuel args a = Inr (call_back_set args http_err_client_close, ?a4)"
    using d 1(1,2) cl args am by (simp add: handle_client_fd_def Let_def)
  show thesis by (rule that [OF h]) (simp_all add: after_reading_def closing_trace_def)
qed

end
