(* ===== verification/ServerClaims.thy ===== *)
theory ServerClaims
  imports ConnProps
begin

text \<open>
  The results on the server: what accepting a client, a packet of it, and the end of its connection
  do, from the calls of the callbacks down to the bytes in memory.
\<close>

section \<open>A server for examples\<close>

text \<open>
  A process that listens on descriptor 3, has read no file, and gets the answers \<open>f\<close>; its
  first object is the data of the listening socket.
\<close>

definition net_app :: "(nat \<Rightarrow> os_reply) \<Rightarrow> app" where
  "net_app f = sample_app\<lparr>app_os := \<lparr>os_replies = f, os_trace = []\<rparr>,
     app_data := [0 \<mapsto> Usrdata \<lparr>eu_fd = 3, eu_ip = zero_string 0, eu_port = 2233\<rparr>]\<rparr>"

definition net_reply :: "int \<Rightarrow> nat \<Rightarrow> char list \<Rightarrow> os_reply" where
  "net_reply v e d = \<lparr>r_val = v, r_errno = e, r_data = d, r_nums = [], r_refs = []\<rparr>"

text \<open>A client is accepted as descriptor 7, sends \<open>d\<close>, and then nothing for now.\<close>

definition talking :: "char list \<Rightarrow> nat \<Rightarrow> os_reply" where
  "talking d = (\<lambda>k. net_reply (if k = 0 then 7 else if k = 8 then -1 else if k = 9 then 1 else 0) EAGAIN
                     (if k = 6 then d else ''/srv''))"

text \<open>A client is accepted as descriptor 7 and closes; then the wait fails.\<close>

definition leaving :: "nat \<Rightarrow> os_reply" where
  "leaving = (\<lambda>k. net_reply (if k = 0 then 7 else if k = 9 then -1 else 0) EBADF [])"

definition job_args :: "nat \<Rightarrow> fn_args_t" where
  "job_args i = \<lparr>fa_epoll_fd = 4, fa_usrdata = i, fa_pherr = False\<rparr>"

lemma job_args_simps [simp]:
  "fa_usrdata (job_args i) = i" "fa_epoll_fd (job_args i) = 4" "call_back_set (job_args i) herr = None"
  by (simp_all add: job_args_def call_back_set_def)

lemma net_app_simps [simp]:
  "app_mem (net_app f) = heap_mem ''a.html''" "app_cfg (net_app f) = sample_config"
  "app_table (net_app f) = Some kh_zero" "\<not> loop_terminal (net_app f)" "app_jobs (net_app f) = []"
  "app_os (net_app f) = \<lparr>os_replies = f, os_trace = []\<rparr>"
  "reply \<lparr>os_replies = f, os_trace = es\<rparr> k = f (length es + k)"
  "app_data (net_app f) 0 = Some (Usrdata \<lparr>eu_fd = 3, eu_ip = zero_string 0, eu_port = 2233\<rparr>)"
  by (simp_all add: net_app_def reply_def)

lemma net_app_fresh: "fresh_ids (net_app f)" "brk (heap_mem cs) = 2" "\<not> ndebug (heap_mem cs)"
  by (auto simp: fresh_ids_def net_app_def sample_app_def heap_mem_def empty_mem_def)

section \<open>A new client\<close>

text \<open>
  C10: When the calls of the system succeed, the callback of the listening socket leaves a connection
  behind: its descriptor, non-blocking and in the epoll instance, and a parser that has read nothing.
  The connections that were there before stay what they are.
\<close>

theorem accept_makes_connection:
  assumes "app_data a (fa_usrdata args) = Some d" and "wf_mem (app_mem a)" and "always_avail (app_mem a)" and "fresh_ids a"
    and "0 \<le> r_val (reply (app_os a) 0)" and "0 \<le> r_val (reply (app_os a) 2)" and "0 \<le> r_val (reply (app_os a) 3)"
    and "0 \<le> r_val (reply (app_os a) 4)"
  shows "\<exists>c a'. handle_server_fd args a = Inr (call_back_set args http_success, a') \<and>
     conn a' (brk (app_mem a)) c actx0 \<and> cl_fd c = r_val (reply (app_os a) 0) \<and> fresh_ids a' \<and>
     os_trace (app_os a') = os_trace (app_os a) @ [Accept (data_fd d), Log HTTP_NEW_CLIENT_GREAT,
       Fcntl_getfl (cl_fd c), Fcntl_setfl (cl_fd c) (or (r_val (reply (app_os a) 2)) O_NONBLOCK),
       Epoll_add (fa_epoll_fd args) (cl_fd c) (brk (app_mem a))] \<and>
     (\<forall>cid c2 s. conn a cid c2 s \<longrightarrow> conn a' cid c2 s)"
proof -
  obtain c nid ctx req a' where 1: "handle_server_fd args a = Inr (call_back_set args http_success, a')"
    "conn_at a' (brk (app_mem a)) c actx0 nid ctx req (inet_ntop (take 4 (map nat (r_nums (reply (app_os a) 0)))))"
    "cl_fd c = r_val (reply (app_os a) 0)" "cl_port c = htons (reply_num (reply (app_os a) 0) 4)"
    "app_os a' = (app_os a)\<lparr>os_trace := os_trace (app_os a) @ [Accept (data_fd d), Log HTTP_NEW_CLIENT_GREAT,
       Fcntl_getfl (cl_fd c), Fcntl_setfl (cl_fd c) (or (r_val (reply (app_os a) 2)) O_NONBLOCK),
       Epoll_add (fa_epoll_fd args) (cl_fd c) (brk (app_mem a))]\<rparr>"
    "frame {} (app_mem a) (app_mem a')" "app_data a' = (app_data a)(brk (app_mem a) := Some (Client c))"
    "ps_nodes (app_ps a') = (ps_nodes (app_ps a))(nid := Some ctx)" "ps_nodes (app_ps a) nid = None" "fresh_ids a'"
    by (rule handle_server_fd_accepts [OF assms])
  have "conn a' cid c2 s" if cn: "conn a cid c2 s" for cid c2 s
    using that unfolding conn_def
  proof (elim exE)
    fix n2 ctx2 req2 ip assume cn: "conn_at a cid c2 s n2 ctx2 req2 ip"
    then have "app_data a cid \<noteq> None" "ps_nodes (app_ps a) n2 \<noteq> None" by (simp_all add: conn_at_def)
    with assms(4) 1(9) have "cid \<noteq> brk (app_mem a)" "n2 \<noteq> nid" by (auto simp: fresh_ids_def)
    with 1(7,8) have "conn_at a' cid c2 s n2 ctx2 req2 ip" by (intro conn_at_fresh [OF cn 1(6)]) simp_all
    then show "\<exists>nid ctx req ip. conn_at a' cid c2 s nid ctx req ip" by blast
  qed
  with 1(1-3,5,10) show ?thesis unfolding conn_def by (intro exI [of _ c] exI [of _ a']) auto
qed

text \<open>The same for the examples, where it is also known which process it leaves behind.\<close>

lemma net_accepted:
  assumes "\<forall>k \<le> 4. 0 \<le> r_val (f k)"
  obtains c nid ctx req a ip where "handle_server_fd (job_args 0) (net_app f) = Inr (None, a)"
    and "conn_at a 2 c actx0 nid ctx req ip" and "cl_fd c = r_val (f 0)"
    and "\<exists>es. length es = 5 \<and> app_os a = \<lparr>os_replies = f, os_trace = es\<rparr>" and "ndebug (app_mem a) = False"
    and "\<not> loop_terminal a" and "app_cfg a = sample_config" and "app_table a = Some kh_zero"
proof -
  have d: "app_data (net_app f) (fa_usrdata (job_args 0)) = Some (Usrdata \<lparr>eu_fd = 3, eu_ip = zero_string 0, eu_port = 2233\<rparr>)"
    and wf: "wf_mem (app_mem (net_app f))" "always_avail (app_mem (net_app f))" by simp_all
  have r: "0 \<le> r_val (reply (app_os (net_app f)) 0)" "0 \<le> r_val (reply (app_os (net_app f)) 2)"
    "0 \<le> r_val (reply (app_os (net_app f)) 3)" "0 \<le> r_val (reply (app_os (net_app f)) 4)"
    using assms by simp_all
  show thesis
    by (rule handle_server_fd_accepts [OF d wf net_app_fresh(1) r])
      (rule that, use frame_env(3) in \<open>auto simp: net_app_fresh\<close>)
qed

lemma accept_makes_connection_witness:
  "\<exists>c a. handle_server_fd (job_args 0) (net_app (talking [])) = Inr (None, a) \<and> conn a 2 c actx0 \<and> cl_fd c = 7"
  using accept_makes_connection [of "net_app (talking [])" "job_args 0"]
  by (auto simp: net_app_fresh talking_def net_reply_def)

section \<open>A packet\<close>


lemma net_sends:
  assumes "length es = 5" and "d \<noteq> []" and "length d < C_BUFSIZ"
  shows "sends (reporting \<lparr>os_replies = talking d, os_trace = es\<rparr>) [d] False"
  using assms by (simp add: sends_def reporting_def talking_def net_reply_def)


section \<open>A complete request\<close>

text \<open>A connection that the view \<open>v\<close> has nothing to do with.\<close>

definition conn_apart :: "app \<Rightarrow> nat \<Rightarrow> client_data_t \<Rightarrow> actx \<Rightarrow> string_view_t \<Rightarrow> bool" where
  "conn_apart a cid c s v \<longleftrightarrow>
     (\<exists>nid ctx req ip. conn_at a cid c s nid ctx req ip \<and> (\<forall>x \<in> conn_objs c ctx req. view_off v x))"

text \<open>
  C3: The first GET that a server answers is its last: as soon as a packet completes the request - the
  first packet of the client or a later one - and the file it names is read, the callback reads an
  array that has ended, on its way to the text of the response.
\<close>

theorem first_get_ends_in_ub:
  assumes "conn_apart a cid c s (get_base_dir (app_cfg a))" and "fa_usrdata args = cid"
    and "sends (reporting (app_os a)) cs False"
    and "length cs < fuel" and "length (a_text s) + length (concat cs) < MAX_LEN"
    and "spec_feed (ndebug (app_mem a)) (concat cs) s = Inr (http_success, s')"
    and "a_state s' = http_parse_end" and "a_method s' = http_method_get"
    and "finds_file (after_reading (cl_fd c) cs (app_os a)) a base (a_path s')"
  shows "handle_client_fd fuel args a = Inl Dangling"
proof -
  from assms(1) obtain nid ctx req ip where "conn_at a cid c s nid ctx req ip"
    and "\<forall>x \<in> conn_objs c ctx req. view_off (get_base_dir (app_cfg a)) x" unfolding conn_apart_def by blast
  then show ?thesis using assms(2-9) by (intro client_get_dangles)
qed

lemma get_request_parsed:
  assumes "wf_head ''GET'' p ver []" and "length (head_text ''GET'' p ver []) < MAX_LEN"
  obtains s where "spec_feed False (head_text ''GET'' p ver []) actx0 = Inr (http_success, s)"
    and "a_state s = http_parse_end" and "a_method s = http_method_get" and "a_path s = p"
proof -
  have "outcome_of (announced_body []) (length (head_text ''GET'' p ver [])) [] = Complete []"
    by (simp add: announced_body_def)
  moreover have "method_of ''GET'' = http_method_get" by code_simp
  ultimately show thesis using that spec_feed_outcome [OF assms(1), of "[]"] assms(2)
    by (auto simp: has_outcome_def head_ctx_def Let_def)
qed

lemma first_get_ends_in_ub_witness:
  "\<exists>d a. handle_server_fd (job_args 0) (net_app (talking d)) = Inr (None, a) \<and>
     handle_client_fd 2 (job_args 2) a = Inl Dangling"
proof -
  let ?d = "head_text ''GET'' ''a.html'' ''HTTP/1.1'' []"
  have t: "\<forall>k \<le> 4. 0 \<le> r_val (talking ?d k)" by (simp add: talking_def net_reply_def)
  obtain c nid ctx req a ip es where 1: "handle_server_fd (job_args 0) (net_app (talking ?d)) = Inr (None, a)"
    "conn_at a 2 c actx0 nid ctx req ip" "length es = 5" "app_os a = \<lparr>os_replies = talking ?d, os_trace = es\<rparr>"
    "ndebug (app_mem a) = False" "app_cfg a = sample_config" "app_table a = Some kh_zero"
    by (rule net_accepted [OF t]) blast
  obtain s where s: "spec_feed False ?d actx0 = Inr (http_success, s)" "a_state s = http_parse_end"
    "a_method s = http_method_get" "a_path s = ''a.html''"
    by (rule get_request_parsed [of "''a.html''" "''HTTP/1.1''"]) (simp_all add: wf_head_def head_text_def)
  have v: "sv_data (get_base_dir sample_config) = NULL" "view_bytes m (get_base_dir sample_config) = Inr []" for m
    by (simp_all add: get_base_dir_def sample_config_def zero_string_def string_view_from_string_def
        string_view_from_parts_def view_bytes_def string_len_def Let_def)
  have ap: "conn_apart a 2 c actx0 (get_base_dir (app_cfg a))"
    unfolding conn_apart_def 1(6) using 1(2) v(1) by (auto simp: view_off_def)
  have snd: "sends (reporting (app_os a)) [?d] False"
    unfolding 1(4) by (rule net_sends [OF 1(3)]) (simp_all add: head_text_def C_BUFSIZ_def)
  have os: "after_reading (cl_fd c) [?d] (app_os a) =
      \<lparr>os_replies = talking ?d, os_trace = es @ Log HTTP_REPORT_CLIENT_INFO # read_trace (cl_fd c) [?d]\<rparr>"
    unfolding 1(4) by (simp add: after_reading_def)
  have "finds_file (after_reading (cl_fd c) [?d] (app_os a)) a [] (a_path s)"
    unfolding finds_file_def os s(4) 1(6,7) v
    using 1(3) by (simp add: read_trace_def talking_def net_reply_def absolute_text_def PATH_MAX_def)
  then have "handle_client_fd 2 (job_args 2) a = Inl Dangling"
    using first_get_ends_in_ub [OF ap _ snd, of "job_args 2" 2 s] s(1-3) 1(5)
    by (simp add: actx0_def head_text_def)
  with 1(1) show ?thesis by blast
qed

section \<open>Reading\<close>

text \<open>
  C18: When the other side sends chunks of less than a buffer each, reading ends: after as many turns as
  there are chunks the call returns, and the string holds every byte that was sent, in order. The code
  it returns says whether the other side has closed.
\<close>

theorem read_client_collects:
  assumes "sends (app_os a) cs over" and "length cs < fuel" and "length (concat cs) < MAX_LEN"
    and "wf_mem (app_mem a)" and "always_avail (app_mem a)" and "has_sbuf (app_mem a) (str_buf rec)"
  shows "\<exists>s a'. read_client fuel rec c a = Inr (if over then http_err_client_close else http_success, s, a') \<and>
     view_bytes (app_mem a') (string_view_from_string s) = Inr (concat cs) \<and> string_len s = length (concat cs) \<and>
     os_trace (app_os a') = os_trace (app_os a) @ read_trace (cl_fd c) cs"
proof -
  have rc: "recv_all fuel (cl_fd c) (app_os a) =
      Some (over, concat cs, (app_os a)\<lparr>os_trace := os_trace (app_os a) @ read_trace (cl_fd c) cs\<rparr>)"
    using assms(1,2) by (rule recv_sends)
  obtain s m where 1: "read_client fuel rec c a = Inr (if over then http_err_client_close else http_success, s,
       (with_mem m a)\<lparr>app_os := (app_os a)\<lparr>os_trace := os_trace (app_os a) @ read_trace (cl_fd c) cs\<rparr>\<rparr>)"
    "str_holds m s (concat cs)"
    by (rule read_client_recv [OF rc assms(3-6)])
  then show ?thesis
    using view_from_string(1) [of m s "concat cs"] str_rep_len(1) [of m s "concat cs"] by (auto simp: str_holds_def)
qed

lemma read_client_collects_witness:
  "\<exists>s a' w. sends w [''GET'', '' /''] True \<and>
     read_client 3 (heap_string ''a.html'') \<lparr>cl_fd = 7, cl_ip = zero_string 0, cl_port = 0, ctx_beg = None, ctx_tail = None\<rparr>
       (sample_app\<lparr>app_os := w\<rparr>) = Inr (http_err_client_close, s, a') \<and>
     view_bytes (app_mem a') (string_view_from_string s) = Inr ''GET /''"
proof -
  let ?w = "\<lparr>os_replies = (\<lambda>k. net_reply 0 0 (if k = 0 then ''GET'' else if k = 2 then '' /'' else [])), os_trace = []\<rparr>"
  let ?a = "sample_app\<lparr>app_os := ?w\<rparr>"
  have s: "sends ?w [''GET'', '' /''] True"
    by (auto simp: sends_def net_reply_def C_BUFSIZ_def less_Suc_eq numeral_2_eq_2)
  have b: "has_sbuf (app_mem ?a) (str_buf (heap_string ''a.html''))"
    by (simp add: sample_app_def heap_mem_def heap_string_def has_sbuf_def)
  have m: "app_mem ?a = heap_mem ''a.html''" "app_os ?a = ?w" by (simp_all add: sample_app_def)
  show ?thesis
    using read_client_collects [of ?a "[''GET'', '' /'']" True 3 "heap_string ''a.html''"] s b unfolding m by fastforce
qed

section \<open>The end of a connection\<close>

text \<open>
  C4: When a client closes its connection the callback closes the epoll instance in place of the
  client's descriptor: the data of the client is released, its descriptor stays open, and as soon as
  the main loop waits again, on a descriptor that is gone, it gives up - for all clients.
\<close>

theorem disconnect_stops_server:
  assumes "conn a cid c s" and "fa_usrdata args = cid" and "sends (reporting (app_os a)) cs True"
    and "length cs < fuel" and "length (concat cs) < MAX_LEN" and "cl_fd c \<noteq> fa_epoll_fd args"
    and "0 \<le> r_val (reply (after_reading (cl_fd c) cs (app_os a)) 0)" and "\<not> loop_terminal a"
    and "reply (after_reading (cl_fd c) cs (app_os a)) 2 = net_reply (-1) EBADF []"
  shows "\<exists>a' es. handle_client_fd fuel args a = Inr (call_back_set args http_err_client_close, a') \<and>
     app_data a' = (app_data a)(cid := None) \<and> os_trace (app_os a') = os_trace (app_os a) @ es \<and>
     last es = Close (fa_epoll_fd args) \<and> Close (cl_fd c) \<notin> set es \<and>
     (\<forall>n server_fd max_events herr. \<exists>a''.
        main_loop (Suc n) server_fd (fa_epoll_fd args) max_events herr a' = Inr (http_err_epoll_wait, a'') \<and>
        os_trace (app_os a'') = os_trace (app_os a') @ [Epoll_wait (fa_epoll_fd args) max_events, Log HTTP_EPOLL_WAIT_ERR])"
proof -
  from assms(1) obtain nid ctx req ip where cn: "conn_at a cid c s nid ctx req ip" unfolding conn_def by blast
  let ?es = "closing_trace args c cs"
  obtain a' where 1: "handle_client_fd fuel args a = Inr (call_back_set args http_err_client_close, a')"
    "app_data a' = (app_data a)(cid := None)" "loop_terminal a' = loop_terminal a"
    "app_os a' = (app_os a)\<lparr>os_trace := os_trace (app_os a) @ ?es\<rparr>"
    by (rule client_closes [OF cn assms(2-5,7)])
  have l: "last ?es = Close (fa_epoll_fd args)" by (simp add: closing_trace_def)
  have n: "Close (cl_fd c) \<notin> set ?es" using assms(6) by (auto simp: closing_trace_def read_trace_def)
  have "reply (app_os a') 0 = net_reply (-1) EBADF []"
    using assms(9) unfolding 1(4) by (simp add: reply_def after_reading_def closing_trace_def add.commute add.left_commute)
  then have "\<exists>a''. main_loop (Suc n) server_fd (fa_epoll_fd args) max_events herr a' = Inr (http_err_epoll_wait, a'') \<and>
        os_trace (app_os a'') = os_trace (app_os a') @ [Epoll_wait (fa_epoll_fd args) max_events, Log HTTP_EPOLL_WAIT_ERR]"
    for n server_fd max_events herr
    using assms(8) 1(3) by (simp add: wait_events_def app_call_def reply_fold net_reply_def EBADF_def EINTR_def app_log_def)
  with 1(1,2,4) l n show ?thesis by (intro exI [of _ a'] exI [of _ ?es]) simp
qed

lemma disconnect_stops_server_witness:
  "\<exists>a a' a''. handle_server_fd (job_args 0) (net_app leaving) = Inr (None, a) \<and>
     handle_client_fd 1 (job_args 2) a = Inr (None, a') \<and> app_data a' 2 = None \<and>
     main_loop 1 3 4 10 http_success a' = Inr (http_err_epoll_wait, a'')"
proof -
  have t: "\<forall>k \<le> 4. 0 \<le> r_val (leaving k)" by (simp add: leaving_def net_reply_def)
  obtain c nid ctx req a ip es where 1: "handle_server_fd (job_args 0) (net_app leaving) = Inr (None, a)"
    "conn_at a 2 c actx0 nid ctx req ip" "cl_fd c = r_val (leaving 0)" "length es = 5"
    "app_os a = \<lparr>os_replies = leaving, os_trace = es\<rparr>" "\<not> loop_terminal a"
    by (rule net_accepted [OF t]) blast
  have cn: "conn a 2 c actx0" using 1(2) unfolding conn_def by blast
  have snd: "sends (reporting (app_os a)) [] True"
    unfolding 1(5) using 1(4) by (simp add: sends_def reporting_def leaving_def net_reply_def)
  have os: "after_reading (cl_fd c) [] (app_os a) =
      \<lparr>os_replies = leaving, os_trace = es @ [Log HTTP_REPORT_CLIENT_INFO, Read (cl_fd c) (C_BUFSIZ - 1)]\<rparr>"
    unfolding 1(5) by (simp add: after_reading_def read_trace_def)
  have fd: "cl_fd c \<noteq> 4" using 1(3) by (simp add: leaving_def net_reply_def)
  have r: "0 \<le> r_val (reply (after_reading (cl_fd c) [] (app_os a)) 0)"
    "reply (after_reading (cl_fd c) [] (app_os a)) 2 = net_reply (-1) EBADF []"
    unfolding os using 1(4) by (simp_all add: leaving_def net_reply_def)
  from disconnect_stops_server [OF cn _ snd _ _ _ r(1) 1(6) r(2), of "job_args 2" 1] fd
  obtain a' where a': "handle_client_fd 1 (job_args 2) a = Inr (None, a')" "app_data a' = (app_data a)(2 := None)"
    "\<forall>n server_fd max_events herr. \<exists>a''. main_loop (Suc n) server_fd 4 max_events herr a' = Inr (http_err_epoll_wait, a'')"
    by force
  then have "app_data a' 2 = None" "\<exists>a''. main_loop 1 3 4 10 http_success a' = Inr (http_err_epoll_wait, a'')" by simp_all
  with 1(1) a'(1) show ?thesis by blast
qed

end
