(* ===== verification/ServerKeep.thy ===== *)
theory ServerKeep
  imports Reactor DispatchProps
begin

text \<open>
  What no callback touches: the configuration, the jobs that wait, the flag that ends the main loop.
  The record of the calls to the system only grows.
\<close>

section \<open>The record of calls\<close>

definition grows :: "os \<Rightarrow> os \<Rightarrow> bool" where
  "grows w w' \<longleftrightarrow> os_replies w' = os_replies w \<and> (\<exists>es. os_trace w' = os_trace w @ es)"

lemma grows_refl [simp]: "grows w w" by (simp add: grows_def)

lemma grows_more [simp]: "grows w (w\<lparr>os_trace := os_trace w @ es\<rparr>)" by (simp add: grows_def)

lemma grows_trans [trans]: "grows w w' \<Longrightarrow> grows w' w'' \<Longrightarrow> grows w w''" by (auto simp: grows_def)

lemma grows_step [simp]: "grows w w' \<Longrightarrow> grows w (w'\<lparr>os_trace := os_trace w' @ es\<rparr>)"
  by (erule grows_trans) simp

lemma grows_after: "grows (w\<lparr>os_trace := os_trace w @ es\<rparr>) w' \<Longrightarrow> grows w w'"
  by (rule grows_trans [OF grows_more])

lemma setnoblocking_grows: "setnoblocking fd w = (herr, w') \<Longrightarrow> grows w w'"
  by (auto simp: setnoblocking_def Let_def split: if_splits)

lemma get_absolue_path_grows: "get_absolue_path cfg p path m w = Inr (herr, path', m', w') \<Longrightarrow> grows w w'"
  by (auto simp: get_absolue_path_def elim!: bnd_InrE split: if_splits prod.splits)

lemma open_resource_grows: "open_resource path rm m w = Inr (herr, rm', m', w') \<Longrightarrow> grows w w'"
  by (auto simp: open_resource_def MAP_FAILED_def map_block_def Let_def elim!: bnd_InrE split: if_splits prod.splits)

lemma get_resource_lazy_grows: "get_resource_lazy path res flush table m w = Inr (herr, res', table', m', w') \<Longrightarrow> grows w w'"
  by (auto simp: get_resource_lazy_def Let_def elim!: bnd_InrE split: if_splits prod.splits option.splits
      dest!: open_resource_grows grows_after)

section \<open>The rest of the state\<close>

definition keeps :: "app \<Rightarrow> app \<Rightarrow> bool" where
  "keeps a a' \<longleftrightarrow> app_cfg a' = app_cfg a \<and> app_jobs a' = app_jobs a \<and> loop_terminal a' = loop_terminal a \<and>
     grows (app_os a) (app_os a')"

lemma keeps_refl [simp]: "keeps a a" by (simp add: keeps_def)

lemma keeps_trans [trans]: "keeps a a' \<Longrightarrow> keeps a' a'' \<Longrightarrow> keeps a a''" by (auto simp: keeps_def grows_def)

lemma keeps_os: "grows (app_os a) w \<Longrightarrow> keeps a (a\<lparr>app_os := w\<rparr>)" by (simp add: keeps_def)

lemma keeps_call: "app_call e a = (r, a') \<Longrightarrow> keeps a a'" by (auto simp: app_call_def keeps_def)

lemma keeps_simps [simp]:
  "keeps a (with_mem m a') \<longleftrightarrow> keeps a a'" "keeps (with_mem m a) a' \<longleftrightarrow> keeps a a'"
  "keeps a (a'\<lparr>app_ps := ps\<rparr>) \<longleftrightarrow> keeps a a'" "keeps (a\<lparr>app_ps := ps\<rparr>) a' \<longleftrightarrow> keeps a a'"
  "keeps a (a'\<lparr>app_data := d\<rparr>) \<longleftrightarrow> keeps a a'" "keeps (a\<lparr>app_data := d\<rparr>) a' \<longleftrightarrow> keeps a a'"
  "keeps a (a'\<lparr>app_table := t\<rparr>) \<longleftrightarrow> keeps a a'"
  by (simp_all add: keeps_def)

lemma keeps_log [simp]: "keeps a a' \<Longrightarrow> keeps a (app_log msg a')"
  and keeps_do [simp]: "keeps a a' \<Longrightarrow> keeps a (app_do e a')"
  by (simp_all add: keeps_def app_log_def app_do_def)

lemma keeps_put_os: "keeps a a' \<Longrightarrow> grows (app_os a') w \<Longrightarrow> keeps a (a'\<lparr>app_os := w\<rparr>)"
  by (auto simp: keeps_def grows_def)

lemmas keeps_unfold = keeps_def grows_def app_call_def app_log_def app_do_def get_end_def

section \<open>Requests\<close>

lemma get_response_keeps: "get_response b status html a = Inr (herr, rep, a') \<Longrightarrow> keeps a a'"
  by (auto simp: keeps_unfold get_response_def Let_def elim!: bnd_InrE split: if_splits prod.splits option.splits)

lemma get_handler_keeps: "http_method_get_handler request a = Inr (herr, rep, a') \<Longrightarrow> keeps a a'"
  unfolding http_method_get_handler_def get_resource_cached_def
  by (auto simp: keeps_unfold Let_def elim!: bnd_InrE split: if_splits prod.splits
      dest!: get_response_keeps get_absolue_path_grows get_resource_lazy_grows)

lemma handle_http_request_keeps: "handle_http_request request a = Inr (herr, rep, a') \<Longrightarrow> keeps a a'"
  by (auto simp: keeps_unfold handle_http_request_def elim!: bnd_InrE split: if_splits dest!: get_handler_keeps)

lemma http_send_response_keeps: "http_send_response client response a = Inr (herr, a') \<Longrightarrow> keeps a a'"
  by (auto simp: keeps_unfold http_send_response_def elim!: bnd_InrE split: if_splits prod.splits
      dest!: keeps_call)

section \<open>Callbacks\<close>

lemma create_client_data_keeps: "create_client_data fd addr port a = Inr (herr, cid, a') \<Longrightarrow> keeps a a'"
  by (auto simp: keeps_unfold create_client_data_def Let_def elim!: bnd_InrE split: if_splits prod.splits)

lemma handle_server_fd_keeps: "handle_server_fd args a = Inr (out, a') \<Longrightarrow> keeps a a'"
  by (auto simp: keeps_unfold handle_server_fd_def Let_def elim!: bnd_InrE split: if_splits prod.splits option.splits
      dest!: keeps_call create_client_data_keeps setnoblocking_grows)

lemma read_retry_keeps: "read_retry fuel fd n a = Inr (r, a') \<Longrightarrow> keeps a a'"
  by (induction fuel fd n a rule: read_retry.induct)
    (auto simp: keeps_unfold split: if_splits prod.splits dest!:)

lemma read_loop_keeps: "read_loop fuel c buffer s a = Inr (over, s', a') \<Longrightarrow> keeps a a'"
proof (induction fuel arbitrary: s a)
  case (Suc fuel)
  then show ?case
    by (auto simp: keeps_unfold Let_def simp del: read_retry.simps elim!: bnd_InrE split: if_splits prod.splits
        dest!: read_retry_keeps Suc.IH)
qed simp

lemma read_client_keeps: "read_client fuel rec c a = Inr (herr, s', a') \<Longrightarrow> keeps a a'"
  by (auto simp: keeps_unfold read_client_def Let_def elim!: bnd_InrE split: if_splits prod.splits dest!: read_loop_keeps)

lemma client_data_free_keeps: "client_data_free cid c a = Inr a' \<Longrightarrow> keeps a a'"
  by (auto simp: keeps_unfold client_data_free_def elim!: bnd_InrE)

lemma close_client_keeps: "close_client args cid c herr a = Inr (herr', a') \<Longrightarrow> keeps a a'"
  by (auto simp: keeps_unfold close_client_def Let_def elim!: bnd_InrE split: if_splits prod.splits
      dest!: keeps_call client_data_free_keeps)

lemma answer_loop_keeps: "answer_loop fuel cid herr a = Inr (herr', a') \<Longrightarrow> keeps a a'"
proof (induction fuel arbitrary: herr a)
  case (Suc fuel)
  then show ?case
    by (auto simp: keeps_unfold Let_def elim!: bnd_InrE split: if_splits prod.splits option.splits event_data.splits
        dest!: handle_http_request_keeps http_send_response_keeps Suc.IH)
qed simp

lemma handle_client_fd_keeps: "handle_client_fd fuel args a = Inr (out, a') \<Longrightarrow> keeps a a'"
  by (auto simp: keeps_unfold handle_client_fd_def Let_def simp del: answer_loop.simps
      elim!: bnd_InrE split: if_splits prod.splits option.splits event_data.splits
      dest!: read_client_keeps close_client_keeps answer_loop_keeps)

lemma run_job_keeps: "run_job fuel j a = Inr (out, a') \<Longrightarrow> keeps a a'"
  by (auto simp: keeps_unfold run_job_def split: job.splits dest: handle_server_fd_keeps handle_client_fd_keeps)

end
