(* ===== verification/ReactorClaims.thy ===== *)
theory ReactorClaims
  imports ServerClaims ServerKeep
begin

text \<open>
  The results on the main loop and the jobs: a running server as a step relation - the loop waits and
  queues, the pool takes any job that waits - what holds in every state it reaches, and when the loop
  ends.
\<close>

section \<open>A running server\<close>

text \<open>
  The two descriptors, the number of events of a wait, and the fuel of the reads do not change while
  the server runs.
\<close>

inductive server_step :: "fd_t \<Rightarrow> fd_t \<Rightarrow> int \<Rightarrow> nat \<Rightarrow> app \<Rightarrow> app \<Rightarrow> bool"
  for server_fd epoll_fd max_events fuel where
  events: "\<not> loop_terminal a \<Longrightarrow> wait_events epoll_fd max_events a = (r, a1) \<Longrightarrow> 0 \<le> r_val r \<Longrightarrow>
    handle_each_event server_fd epoll_fd (take (nat max_events) (r_refs r)) a1 = Inr (http_success, a2) \<Longrightarrow>
    server_step server_fd epoll_fd max_events fuel a a2"
| interrupted: "\<not> loop_terminal a \<Longrightarrow> wait_events epoll_fd max_events a = (r, a1) \<Longrightarrow> r_val r < 0 \<Longrightarrow>
    r_errno r = EINTR \<Longrightarrow> server_step server_fd epoll_fd max_events fuel a a1"
| job: "app_jobs a = xs @ j # ys \<Longrightarrow> run_job fuel j (a\<lparr>app_jobs := xs @ ys\<rparr>) = Inr (out, a') \<Longrightarrow>
    server_step server_fd epoll_fd max_events fuel a a'"

abbreviation server_run :: "fd_t \<Rightarrow> fd_t \<Rightarrow> int \<Rightarrow> nat \<Rightarrow> app \<Rightarrow> app \<Rightarrow> bool" where
  "server_run server_fd epoll_fd max_events fuel \<equiv> (server_step server_fd epoll_fd max_events fuel)\<^sup>*\<^sup>*"

section \<open>The parts of a step\<close>

lemma wait_events_simps:
  assumes "wait_events epoll_fd max_events a = (r, a1)"
  shows "r = reply (app_os a) 0" and "app_cfg a1 = app_cfg a" and "app_jobs a1 = app_jobs a" and "app_data a1 = app_data a"
    and "grows (app_os a) (app_os a1)" and "loop_terminal a1 \<longleftrightarrow> loop_terminal a \<or> r_nums r \<noteq> []"
    and "app_mem a1 = app_mem a"
  using assms
  by (auto simp: wait_events_def app_call_def ipv4_terminal_fn_def app_log_def reply_def grows_def split: if_splits)

text \<open>The job of an event.\<close>

definition event_job :: "fd_t \<Rightarrow> fd_t \<Rightarrow> app \<Rightarrow> nat \<Rightarrow> job" where
  "event_job server_fd epoll_fd a ev =
     (let args = \<lparr>fa_epoll_fd = epoll_fd, fa_usrdata = ev, fa_pherr = False\<rparr> in
      if map_option data_fd (app_data a ev) = Some server_fd then Job_server args else Job_client args)"

fun job_fn_args :: "job \<Rightarrow> fn_args_t" where
  "job_fn_args (Job_server args) = args"
| "job_fn_args (Job_client args) = args"

definition jobs_ok :: "fd_t \<Rightarrow> app \<Rightarrow> bool" where
  "jobs_ok epoll_fd a \<longleftrightarrow> (\<forall>j \<in> set (app_jobs a). fa_epoll_fd (job_fn_args j) = epoll_fd \<and> \<not> fa_pherr (job_fn_args j))"

lemma addjob_cases:
  obtains (added) "app_addjob j a = (a\<lparr>app_os := app_os (app_addjob j a)\<rparr>)\<lparr>app_jobs := app_jobs a @ [j]\<rparr>"
    and "grows (app_os a) (app_os (app_addjob j a))"
  | (refused) "app_addjob j a = a\<lparr>app_os := app_os (app_addjob j a)\<rparr>" and "grows (app_os a) (app_os (app_addjob j a))"
  by (cases "r_val (reply (app_os a) 0) = 0") (auto simp: app_addjob_def thdpool_addjob_def reply_fold)

lemma app_addjob_env [simp]:
  "app_cfg (app_addjob j a) = app_cfg a" "app_data (app_addjob j a) = app_data a"
  "loop_terminal (app_addjob j a) = loop_terminal a" "app_ps (app_addjob j a) = app_ps a"
  "grows (app_os a) (app_os (app_addjob j a))"
  "set (app_jobs (app_addjob j a)) \<subseteq> insert j (set (app_jobs a))"
  by (auto simp: app_addjob_def thdpool_addjob_def)

lemma handle_each_event_keeps:
  "handle_each_event server_fd epoll_fd evs a = Inr (herr, a') \<Longrightarrow>
     app_cfg a' = app_cfg a \<and> loop_terminal a' = loop_terminal a \<and> grows (app_os a) (app_os a') \<and>
     (jobs_ok epoll_fd a \<longrightarrow> jobs_ok epoll_fd a')"
proof (induction evs arbitrary: a)
  case (Cons ev evs)
  obtain ok m where al: "alloc_request (app_mem a) = (ok, m)" by force
  show ?case
  proof (cases ok)
    case False
    with Cons.prems al show ?thesis by (auto simp: app_log_def jobs_ok_def)
  next
    case True
    let ?args = "\<lparr>fa_epoll_fd = epoll_fd, fa_usrdata = ev, fa_pherr = False\<rparr>"
    from Cons.prems al True obtain d where d: "app_data a ev = Some d"
      and h: "handle_each_event server_fd epoll_fd evs
        (app_addjob (if data_fd d = server_fd then Job_server ?args else Job_client ?args) (with_mem m a)) = Inr (herr, a')"
      by (auto simp: Let_def split: option.splits)
    let ?j = "if data_fd d = server_fd then Job_server ?args else Job_client ?args"
    have j: "fa_epoll_fd (job_fn_args ?j) = epoll_fd \<and> \<not> fa_pherr (job_fn_args ?j)" by simp
    have ok: "jobs_ok epoll_fd (app_addjob ?j (with_mem m a))" if "jobs_ok epoll_fd a"
      unfolding jobs_ok_def
    proof
      fix x assume "x \<in> set (app_jobs (app_addjob ?j (with_mem m a)))"
      then have "x \<in> insert ?j (set (app_jobs (with_mem m a)))" by (rule subsetD [OF app_addjob_env(6)])
      then have "x = ?j \<or> x \<in> set (app_jobs a)" unfolding with_mem_simps by (rule insertE) simp_all
      then show "fa_epoll_fd (job_fn_args x) = epoll_fd \<and> \<not> fa_pherr (job_fn_args x)"
      proof
        assume "x = ?j"
        then show ?thesis by (cases "data_fd d = server_fd") simp_all
      qed (use that in \<open>simp add: jobs_ok_def\<close>)
    qed
    note IH = Cons.IH [OF h]
    have "grows (app_os a) (app_os (app_addjob ?j (with_mem m a)))"
      using app_addjob_env(5) [where j = ?j and a = "with_mem m a"] by simp
    then have "grows (app_os a) (app_os a')" by (rule grows_trans) (use IH in simp)
    with IH ok show ?thesis by simp
  qed
qed auto

section \<open>Every state that is reached\<close>

lemma server_step_keeps:
  assumes "server_step server_fd epoll_fd max_events fuel a a'"
  shows "app_cfg a' = app_cfg a \<and> (loop_terminal a \<longrightarrow> loop_terminal a') \<and> grows (app_os a) (app_os a') \<and>
     (jobs_ok epoll_fd a \<longrightarrow> jobs_ok epoll_fd a')"
  using assms
proof cases
  case (events r a1)
  note w = wait_events_simps [OF events(2)]
  note h = handle_each_event_keeps [OF events(4)]
  have "grows (app_os a) (app_os a')" using w(5) by (rule grows_trans) (use h in simp)
  moreover have "jobs_ok epoll_fd a1 \<longleftrightarrow> jobs_ok epoll_fd a" using w(3) by (simp add: jobs_ok_def)
  moreover have "loop_terminal a \<longrightarrow> loop_terminal a1" using w(6) by blast
  ultimately show ?thesis using conjunct1 [OF h] conjunct1 [OF conjunct2 [OF h]] conjunct2 [OF conjunct2 [OF conjunct2 [OF h]]] w(2)
    by (intro conjI) simp_all
next
  case (interrupted r)
  note w = wait_events_simps [OF interrupted(2)]
  show ?thesis using w by (simp add: jobs_ok_def)
next
  case (job xs j ys out)
  have k: "keeps (a\<lparr>app_jobs := xs @ ys\<rparr>) a'" using job(2) by (rule run_job_keeps)
  then show ?thesis using job(1) by (auto simp: keeps_def jobs_ok_def)
qed

lemma server_run_keeps:
  assumes "server_run server_fd epoll_fd max_events fuel a a'"
  shows "app_cfg a' = app_cfg a \<and> (loop_terminal a \<longrightarrow> loop_terminal a') \<and> grows (app_os a) (app_os a') \<and>
     (jobs_ok epoll_fd a \<longrightarrow> jobs_ok epoll_fd a')"
  using assms
proof (induction rule: rtranclp_induct)
  case (step b c)
  note k = server_step_keeps [OF step(2)]
  have "grows (app_os a) (app_os c)"
    by (rule grows_trans [of _ "app_os b"]) (use step.IH k in simp_all)
  with step.IH k show ?case by simp
qed simp

lemma handle_server_fd_out: "handle_server_fd args a = Inr (out, a') \<Longrightarrow> out \<in> range (call_back_set args)"
  by (auto simp: handle_server_fd_def Let_def elim!: bnd_InrE split: if_splits prod.splits option.splits)

lemma handle_client_fd_out: "handle_client_fd fuel args a = Inr (out, a') \<Longrightarrow> out \<in> range (call_back_set args)"
  by (auto simp: handle_client_fd_def Let_def simp del: answer_loop.simps
      elim!: bnd_InrE split: if_splits prod.splits option.splits event_data.splits)

lemma run_job_out: "run_job fuel j a = Inr (out, a') \<Longrightarrow> out \<in> range (call_back_set (job_fn_args j))"
  by (cases j) (simp_all add: run_job_def handle_server_fd_out handle_client_fd_out)

text \<open>
  C15: In every state a server reaches from one without jobs, each job that waits carries the epoll
  descriptor of the loop and no place for its error code: whatever job runs, the code that its callback
  has computed is dropped.
\<close>

theorem callback_codes_dropped:
  assumes "server_run server_fd epoll_fd max_events fuel a b" and "app_jobs a = []" and "j \<in> set (app_jobs b)"
  shows "fa_epoll_fd (job_fn_args j) = epoll_fd \<and>
     (\<forall>n c. case run_job n j c of Inl e \<Rightarrow> True | Inr (out, c') \<Rightarrow> out = None)"
proof -
  have "jobs_ok epoll_fd a" using assms(2) by (simp add: jobs_ok_def)
  with server_run_keeps [OF assms(1)] have "jobs_ok epoll_fd b" by (elim conjE) (rule mp)
  with assms(3) have j: "fa_epoll_fd (job_fn_args j) = epoll_fd" "\<not> fa_pherr (job_fn_args j)"
    by (simp_all add: jobs_ok_def)
  have "out = None" if "run_job n j c = Inr (out, c')" for n c out c'
    using run_job_out [OF that] j(2) by (auto simp: call_back_set_def)
  with j(1) show ?thesis by (auto split: sum.splits)
qed

text \<open>
  A running server never changes its configuration, never takes back the end of its loop, and its
  record of calls only grows: what it has done stays done, in every order in which jobs are run.
\<close>

theorem server_run_safe:
  assumes "server_run server_fd epoll_fd max_events fuel a b"
  shows "app_cfg b = app_cfg a \<and> (loop_terminal a \<longrightarrow> loop_terminal b) \<and> os_replies (app_os b) = os_replies (app_os a) \<and>
     (\<exists>es. os_trace (app_os b) = os_trace (app_os a) @ es)"
  using server_run_keeps [OF assms] by (simp add: grows_def)

section \<open>The loop\<close>

lemma main_loop_run:
  "main_loop n server_fd epoll_fd max_events http_success a = Inr (http_success, a') \<Longrightarrow>
     server_run server_fd epoll_fd max_events fuel a a' \<and> loop_terminal a'"
proof (induction n arbitrary: a)
  case (Suc n)
  show ?case
  proof (cases "loop_terminal a")
    case True
    with Suc.prems show ?thesis by simp
  next
    case False
    obtain r a1 where w: "wait_events epoll_fd max_events a = (r, a1)" by force
    show ?thesis
    proof (cases "r_val r < 0")
      case True
      with Suc.prems False w have e: "r_errno r = EINTR" by (simp split: if_splits)
      with True Suc.prems False w have "main_loop n server_fd epoll_fd max_events http_success a1 = Inr (http_success, a')" by simp
      from Suc.IH [OF this] have "server_run server_fd epoll_fd max_events fuel a1 a'" "loop_terminal a'" by simp_all
      moreover have "server_step server_fd epoll_fd max_events fuel a a1"
        by (rule server_step.interrupted [OF False w True e])
      ultimately show ?thesis using converse_rtranclp_into_rtranclp [of _ a a1 a'] by simp
    next
      case pos: False
      with Suc.prems False w obtain herr a2 where
        2: "handle_each_event server_fd epoll_fd (take (nat max_events) (r_refs r)) a1 = Inr (herr, a2)"
        "(if herr \<noteq> http_success then Inr (herr, a2)
          else main_loop n server_fd epoll_fd max_events herr a2) = Inr (http_success, a')"
        by (auto elim!: bnd_InrE)
      then have h: "herr = http_success" by (simp split: if_splits)
      with 2(2) have "main_loop n server_fd epoll_fd max_events http_success a2 = Inr (http_success, a')" by simp
      from Suc.IH [OF this] have "server_run server_fd epoll_fd max_events fuel a2 a'" "loop_terminal a'" by simp_all
      moreover have "server_step server_fd epoll_fd max_events fuel a a2"
        by (rule server_step.events [OF False w _ 2(1) [unfolded h]]) (use pos in simp)
      ultimately show ?thesis using converse_rtranclp_into_rtranclp [of _ a a2 a'] by simp
    qed
  qed
qed simp

text \<open>All events are known, and the pool takes every job.\<close>

lemma addjob_ok:
  assumes "r_val (reply (app_os a) 0) = 0"
  shows "app_addjob j a = a\<lparr>app_os := (app_os a)\<lparr>os_trace := os_trace (app_os a) @ [Thdpool_add_job]\<rparr>,
     app_jobs := app_jobs a @ [j]\<rparr>"
  using assms by (simp add: app_addjob_def thdpool_addjob_def reply_fold)

lemma event_job_cong: "app_data a' = app_data a \<Longrightarrow> event_job server_fd epoll_fd a' = event_job server_fd epoll_fd a"
  by (simp add: event_job_def fun_eq_iff)

lemma handle_each_event_jobs:
  assumes "always_avail (app_mem a)" and "wf_mem (app_mem a)" and "\<forall>ev \<in> set evs. app_data a ev \<noteq> None"
    and "\<forall>i < length evs. r_val (reply (app_os a) i) = 0"
  shows "\<exists>m. handle_each_event server_fd epoll_fd evs a = Inr (http_success, (with_mem m a)
     \<lparr>app_os := (app_os a)\<lparr>os_trace := os_trace (app_os a) @ replicate (length evs) Thdpool_add_job\<rparr>,
      app_jobs := app_jobs a @ map (event_job server_fd epoll_fd a) evs\<rparr>) \<and> frame {} (app_mem a) m"
  using assms
proof (induction evs arbitrary: a)
  case Nil
  have "with_mem (app_mem a) a = a" by (simp add: with_mem_def)
  with Nil.prems(2) show ?case by (intro exI [of _ "app_mem a"]) simp
next
  case (Cons ev evs)
  let ?m = "(app_mem a)\<lparr>brk := Suc (brk (app_mem a))\<rparr>"
  have al: "alloc_request (app_mem a) = (True, ?m)" using Cons.prems(1) by (simp add: alloc_request_def always_avail_def)
  have f: "frame {} (app_mem a) ?m" using Cons.prems(2) by (rule frame_brk)
  obtain d where d: "app_data a ev = Some d" using Cons.prems(3) by auto
  let ?j = "event_job server_fd epoll_fd a ev"
  let ?a = "(with_mem ?m a)\<lparr>app_os := (app_os a)\<lparr>os_trace := os_trace (app_os a) @ [Thdpool_add_job]\<rparr>, app_jobs := app_jobs a @ [?j]\<rparr>"
  have r0: "r_val (reply (app_os (with_mem ?m a)) 0) = 0" using Cons.prems(4) by simp
  have e: "handle_each_event server_fd epoll_fd (ev # evs) a = handle_each_event server_fd epoll_fd evs ?a"
    using al d addjob_ok [OF r0] by (simp add: Let_def event_job_def)
  have "\<forall>i < length evs. r_val (reply (app_os ?a) i) = 0" using Cons.prems(4) by (simp add: reply_trace)
  moreover have "always_avail (app_mem ?a)" "wf_mem (app_mem ?a)"
    using always_avail_frame [OF Cons.prems(1) f] frame_wf [OF f] by simp_all
  ultimately obtain m where m: "handle_each_event server_fd epoll_fd evs ?a = Inr (http_success, (with_mem m ?a)
     \<lparr>app_os := (app_os ?a)\<lparr>os_trace := os_trace (app_os ?a) @ replicate (length evs) Thdpool_add_job\<rparr>,
      app_jobs := app_jobs ?a @ map (event_job server_fd epoll_fd ?a) evs\<rparr>)" "frame {} (app_mem ?a) m"
    using Cons.IH [of ?a] Cons.prems(3) by auto
  have c: "event_job server_fd epoll_fd ?a = event_job server_fd epoll_fd a" by (rule event_job_cong) simp
  have "frame {} ?m m" using m(2) by simp
  with f have "frame {} (app_mem a) m" by (rule frame_trans) simp
  then show ?case unfolding e m(1) c by (intro exI [of _ m]) (simp add: with_mem_def)
qed


text \<open>An event of the listening socket, whose job the pool takes; then a signal.\<close>

definition polling :: "nat \<Rightarrow> os_reply" where
  "polling k = (if k = 0 then (net_reply 1 0 [])\<lparr>r_refs := [0]\<rparr> else if k = 2 then (net_reply (-1) EINTR [])\<lparr>r_nums := [2]\<rparr>
     else net_reply 0 0 [])"

lemma listen_job: "event_job 3 4 (net_app f) 0 = Job_server (job_args 0)"
  by (simp add: event_job_def job_args_def)


text \<open>
  C17: A signal ends the main loop: when the waits before it bring nothing - they time out, or are
  interrupted without a signal of this process - and the one it arrives in is interrupted, the loop
  returns after exactly these waits, without an error of its own.
\<close>

theorem signal_ends_main_loop:
  assumes "\<not> loop_terminal a" and "Suc k < fuel"
    and "\<forall>i < k. r_refs (reply (app_os a) i) = [] \<and> r_nums (reply (app_os a) i) = [] \<and>
       (0 \<le> r_val (reply (app_os a) i) \<or> r_errno (reply (app_os a) i) = EINTR)"
    and "r_val (reply (app_os a) k) < 0" and "r_errno (reply (app_os a) k) = EINTR" and "r_nums (reply (app_os a) k) \<noteq> []"
  shows "\<exists>herr' a'. main_loop fuel server_fd epoll_fd max_events herr a = Inr (herr', a') \<and> herr' \<in> {herr, http_success} \<and>
     loop_terminal a' \<and> app_jobs a' = app_jobs a \<and>
     os_trace (app_os a') = os_trace (app_os a) @ replicate (Suc k) (Epoll_wait epoll_fd max_events) @ [Log HTTP_SIGNAL_TERMINAL]"
  using assms
proof (induction k arbitrary: a fuel herr)
  case 0
  then obtain n where n: "fuel = Suc (Suc n)" by (metis Suc_less_eq2 less_imp_Suc_add)
  show ?case using 0 unfolding n by (simp add: wait_events_def app_call_def ipv4_terminal_fn_def app_log_def reply_fold)
next
  case (Suc k)
  then obtain n where n: "fuel = Suc n" "Suc k < n" by (cases fuel) auto
  let ?a = "a\<lparr>app_os := (app_os a)\<lparr>os_trace := os_trace (app_os a) @ [Epoll_wait epoll_fd max_events]\<rparr>\<rparr>"
  have r0: "r_refs (reply (app_os a) 0) = []" "r_nums (reply (app_os a) 0) = []"
    "0 \<le> r_val (reply (app_os a) 0) \<or> r_errno (reply (app_os a) 0) = EINTR" using Suc.prems(3) by blast+
  have w: "wait_events epoll_fd max_events a = (reply (app_os a) 0, ?a)"
    using r0(2) by (simp add: wait_events_def app_call_def reply_fold)
  have rs: "reply (app_os ?a) i = reply (app_os a) (Suc i)" for i by (simp add: reply_trace)
  have p: "\<not> loop_terminal ?a" "\<forall>i < k. r_refs (reply (app_os ?a) i) = [] \<and> r_nums (reply (app_os ?a) i) = [] \<and>
       (0 \<le> r_val (reply (app_os ?a) i) \<or> r_errno (reply (app_os ?a) i) = EINTR)"
    "r_val (reply (app_os ?a) k) < 0" "r_errno (reply (app_os ?a) k) = EINTR" "r_nums (reply (app_os ?a) k) \<noteq> []"
    unfolding rs using Suc.prems by simp_all
  obtain h where h: "main_loop fuel server_fd epoll_fd max_events herr a = main_loop n server_fd epoll_fd max_events h ?a"
    "h \<in> {herr, http_success}"
    using Suc.prems(1) r0 w unfolding n(1) by (cases "r_val (reply (app_os a) 0) < 0") auto
  from Suc.IH [OF p(1) n(2) p(2-5), of h] h show ?case by (fastforce simp del: main_loop.simps)
qed

lemma signal_ends_main_loop_witness:
  "\<exists>herr a. main_loop 2 3 4 10 http_success (net_app (\<lambda>_. (net_reply (-1) EINTR [])\<lparr>r_nums := [2]\<rparr>)) = Inr (herr, a) \<and>
     loop_terminal a"
  using signal_ends_main_loop [of "net_app (\<lambda>_. (net_reply (-1) EINTR [])\<lparr>r_nums := [2]\<rparr>)" 0 2 3 4 10 http_success]
  by (auto simp: net_reply_def simp del: main_loop.simps)

section \<open>Examples\<close>

text \<open>The server of the examples after its first wait.\<close>

lemma polling_step:
  obtains b where "server_run 3 4 10 1 (net_app polling) b" and "app_jobs b = [Job_server (job_args 0)]"
    and "os_trace (app_os b) = [Epoll_wait 4 10, Thdpool_add_job]"
proof -
  let ?a = "net_app polling"
  let ?a1 = "?a\<lparr>app_os := \<lparr>os_replies = polling, os_trace = [Epoll_wait 4 10]\<rparr>\<rparr>"
  have w: "wait_events 4 10 ?a = (polling 0, ?a1)"
    by (simp add: wait_events_def app_call_def polling_def net_reply_def)
  have p: "always_avail (app_mem ?a1)" "wf_mem (app_mem ?a1)" "\<forall>ev \<in> set [0]. app_data ?a1 ev \<noteq> None"
    "\<forall>i < length [0::nat]. r_val (reply (app_os ?a1) i) = 0"
    by (simp_all add: polling_def net_reply_def)
  have refs: "take (nat 10) (r_refs (polling 0)) = [0]" "0 \<le> r_val (polling 0)" by (simp_all add: polling_def net_reply_def)
  have j: "event_job 3 4 ?a1 0 = Job_server (job_args 0)"
    using event_job_cong [of ?a1 ?a 3 4] listen_job [of polling] by simp
  obtain m where m: "handle_each_event 3 4 [0] ?a1 = Inr (http_success, (with_mem m ?a1)
     \<lparr>app_os := (app_os ?a1)\<lparr>os_trace := os_trace (app_os ?a1) @ replicate (length [0::nat]) Thdpool_add_job\<rparr>,
      app_jobs := app_jobs ?a1 @ map (event_job 3 4 ?a1) [0]\<rparr>)"
    using handle_each_event_jobs [OF p, of 3 4] by blast
  let ?b = "(with_mem m ?a1)
     \<lparr>app_os := (app_os ?a1)\<lparr>os_trace := os_trace (app_os ?a1) @ replicate (length [0::nat]) Thdpool_add_job\<rparr>,
      app_jobs := app_jobs ?a1 @ map (event_job 3 4 ?a1) [0]\<rparr>"
  have "server_step 3 4 10 1 ?a ?b"
    by (rule server_step.events [OF _ w refs(2)]) (use m refs(1) in simp_all)
  then have "server_run 3 4 10 1 ?a ?b" by (rule r_into_rtranclp)
  then show thesis by (rule that) (simp_all add: j)
qed

lemma callback_codes_dropped_witness:
  "\<exists>b. server_run 3 4 10 1 (net_app polling) b \<and>
     (\<forall>n c. case run_job n (Job_server (job_args 0)) c of Inl e \<Rightarrow> True | Inr (out, c') \<Rightarrow> out = None)"
proof -
  obtain b where b: "server_run 3 4 10 1 (net_app polling) b" "app_jobs b = [Job_server (job_args 0)]" by (rule polling_step)
  from callback_codes_dropped [OF b(1), of "Job_server (job_args 0)"] b show ?thesis by auto
qed

lemma server_run_safe_witness:
  "\<exists>b. server_run 3 4 10 1 (net_app polling) b \<and> app_jobs b \<noteq> [] \<and> app_cfg b = sample_config"
proof -
  obtain b where b: "server_run 3 4 10 1 (net_app polling) b" "app_jobs b = [Job_server (job_args 0)]" by (rule polling_step)
  from server_run_safe [OF b(1)] b show ?thesis by auto
qed

text \<open>
  The main loop of the code is a run of the server in which no job runs: whenever it returns
  without an error, the state it returns is reached by steps, and its flag is set.
\<close>

theorem main_loop_is_run:
  assumes "main_loop n server_fd epoll_fd max_events http_success a = Inr (http_success, a')"
  shows "server_run server_fd epoll_fd max_events fuel a a' \<and> loop_terminal a'"
  using assms by (rule main_loop_run)

lemma main_loop_is_run_witness:
  "\<exists>a. main_loop 2 3 4 10 http_success (net_app (\<lambda>_. (net_reply (-1) EINTR [])\<lparr>r_nums := [2]\<rparr>)) = Inr (http_success, a) \<and>
     server_run 3 4 10 1 (net_app (\<lambda>_. (net_reply (-1) EINTR [])\<lparr>r_nums := [2]\<rparr>)) a"
proof -
  let ?a = "net_app (\<lambda>_. (net_reply (-1) EINTR [])\<lparr>r_nums := [2]\<rparr>)"
  obtain a' where "main_loop 2 3 4 10 http_success ?a = Inr (http_success, a')"
    by (simp add: numeral_2_eq_2 wait_events_def app_call_def ipv4_terminal_fn_def net_reply_def)
  with main_loop_is_run [OF this, of 1] show ?thesis by blast
qed

section \<open>The listening socket\<close>

text \<open>
  C19: Opening the listening socket: what is stored for the caller is the descriptor of the first call,
  unless that fails; of all the errors that follow, exactly the one of the socket option leaves it
  open.
\<close>

theorem server_socket_errors:
  "case get_ipv4_server_fd cfg w of (herr, fd, w') \<Rightarrow>
     \<exists>es. os_trace w' = os_trace w @ Socket # es \<and>
       fd = (if herr = http_err_socket then None else Some (r_val (reply w 0))) \<and>
       (Close (r_val (reply w 0)) \<in> set es \<longleftrightarrow> herr \<notin> {http_success, http_err_socket, http_err_setsocketopt}) \<and>
       (herr = http_success \<longleftrightarrow> Log HTTP_START_LISTEN \<in> set es)"
  unfolding get_ipv4_server_fd_def setnoblocking_def
  by (auto simp: Let_def reply_fold)

end
