(* ===== verification/BrkMono.thy ===== *)
theory BrkMono
  imports Reactor
begin

text \<open>
  Identities are handed out in order and never again: no operation, from the copy of a byte to a whole
  callback, takes the counter of the memory back. One lemma per operation, in the order of the code.
\<close>

named_theorems brk_mono

section \<open>Memory and strings\<close>

lemma store_bytes_brk [brk_mono]: "store_bytes m p bs = Inr m' \<Longrightarrow> brk m \<le> brk m'"
  by (auto simp: store_bytes_def split: if_splits ptr.splits base.splits option.splits)

lemma memcpy_brk [brk_mono]: "memcpy d s n m = Inr m' \<Longrightarrow> brk m \<le> brk m'"
  by (auto simp: memcpy_def elim!: bnd_InrE split: if_splits dest!: brk_mono)

lemma memset_brk [brk_mono]: "memset p c n m = Inr m' \<Longrightarrow> brk m \<le> brk m'"
  by (auto simp: memset_def dest!: brk_mono)

lemma malloc_brk [brk_mono]: "malloc n m = (p, m') \<Longrightarrow> brk m \<le> brk m'"
  by (auto simp: malloc_def Let_def split: if_splits)

lemma mfree_brk [brk_mono]: "mfree p m = Inr m' \<Longrightarrow> brk m \<le> brk m'"
  by (auto simp: mfree_def split: if_splits ptr.splits base.splits)

lemma realloc_brk [brk_mono]: "realloc p n m = Inr (q, m') \<Longrightarrow> brk m \<le> brk m'"
  by (auto simp: realloc_def Let_def split: if_splits ptr.splits base.splits option.splits dest!: brk_mono)

lemma new_buf_brk [brk_mono]: "new_buf n m = (b, m') \<Longrightarrow> brk m \<le> brk m'"
  by (auto simp: new_buf_def)

lemma alloc_request_brk [brk_mono]: "alloc_request m = (ok, m') \<Longrightarrow> brk m \<le> brk m'"
  by (auto simp: alloc_request_def)

lemma drop_buf_brk [simp]: "brk (drop_buf b m) = brk m"
  by (simp add: drop_buf_def)

lemma cpy_smbuf2data_brk [brk_mono]: "cpy_smbuf2data s n m = Inr (ok, s', m') \<Longrightarrow> brk m \<le> brk m'"
  by (auto simp: cpy_smbuf2data_def elim!: bnd_InrE split: if_splits prod.splits dest!: brk_mono)

lemma cpy_sv2str_brk [brk_mono]: "cpy_sv2str d sv i m = Inr (s', m') \<Longrightarrow> brk m \<le> brk m'"
  by (auto simp: cpy_sv2str_def Let_def elim!: bnd_InrE split: if_splits dest!: brk_mono)

lemma string_init_brk [brk_mono]: "string_init s m = Inr (s', m') \<Longrightarrow> brk m \<le> brk m'"
  by (auto simp: string_init_def elim!: bnd_InrE dest!: brk_mono)

lemma string_init_from_string_view_brk [brk_mono]:
  "string_init_from_string_view s sv m = Inr (ok, s', m') \<Longrightarrow> brk m \<le> brk m'"
  by (auto simp: string_init_from_string_view_def elim!: bnd_InrE split: if_splits prod.splits dest!: brk_mono)

lemma string_init_from_cstr_brk [brk_mono]: "string_init_from_cstr s p m = Inr (ok, s', m') \<Longrightarrow> brk m \<le> brk m'"
  by (auto simp: string_init_from_cstr_def elim!: bnd_InrE dest!: brk_mono)

lemma string_destroy_brk [brk_mono]: "string_destroy s m = Inr m' \<Longrightarrow> brk m \<le> brk m'"
  by (auto simp: string_destroy_def elim!: bnd_InrE split: if_splits dest!: brk_mono)

lemma string_clear_brk [brk_mono]: "string_clear s m = Inr (s', m') \<Longrightarrow> brk m \<le> brk m'"
  by (auto simp: string_clear_def Let_def elim!: bnd_InrE split: if_splits dest!: brk_mono)

lemma resize_fill_brk [brk_mono]: "resize_fill s n m = Inr m' \<Longrightarrow> brk m \<le> brk m'"
  by (auto simp: resize_fill_def dest!: brk_mono)

lemma string_resize_brk [brk_mono]: "string_resize s n m = Inr (ok, s', m') \<Longrightarrow> brk m \<le> brk m'"
  by (auto simp: string_resize_def Let_def elim!: bnd_InrE split: if_splits prod.splits dest!: brk_mono)

lemma string_append_view_brk [brk_mono]: "string_append_view s sv m = Inr (ok, s', m') \<Longrightarrow> brk m \<le> brk m'"
  by (auto simp: string_append_view_def Let_def elim!: bnd_InrE split: if_splits prod.splits dest!: brk_mono)

lemma string_append_parts_brk [brk_mono]: "string_append_parts s p n m = Inr (ok, s', m') \<Longrightarrow> brk m \<le> brk m'"
  by (auto simp: string_append_parts_def split: if_splits dest!: brk_mono)

lemma string_append_cstr_brk [brk_mono]: "string_append_cstr s p m = Inr (ok, s', m') \<Longrightarrow> brk m \<le> brk m'"
  by (auto simp: string_append_cstr_def elim!: bnd_InrE split: if_splits dest!: brk_mono)

lemma string_push_back_brk [brk_mono]: "string_push_back s c m = Inr (ok, s', m') \<Longrightarrow> brk m \<le> brk m'"
  by (auto simp: string_push_back_def elim!: bnd_InrE split: prod.splits dest!: brk_mono)

lemma string_view_to_buf_brk [brk_mono]: "string_view_to_buf sv p n m = Inr (ok, m') \<Longrightarrow> brk m \<le> brk m'"
  by (auto simp: string_view_to_buf_def Let_def elim!: bnd_InrE split: if_splits dest!: brk_mono)

lemma append_piece_brk [brk_mono]: "append_piece q s m = Inr (ok, s', m') \<Longrightarrow> brk m \<le> brk m'"
  by (cases q) (auto dest!: brk_mono)

lemma append_all_brk: "append_all append_piece qs s m = Inr (s', m') \<Longrightarrow> brk m \<le> brk m'"
  by (induction append_piece qs s m rule: append_all.induct)
    (fastforce elim!: bnd_InrE split: prod.splits dest!: append_piece_brk)+

lemmas [brk_mono] = append_all_brk

lemma c_snprintf_brk [brk_mono]: "c_snprintf p n t m = Inr m' \<Longrightarrow> brk m \<le> brk m'"
  by (auto simp: c_snprintf_def split: if_splits dest!: brk_mono)

section \<open>Requests and the parser\<close>

lemma http_request_new_brk [brk_mono]: "http_request_new m = Inr (herr, req, m') \<Longrightarrow> brk m \<le> brk m'"
  by (auto simp: http_request_new_def elim!: bnd_InrE split: if_splits prod.splits dest!: brk_mono)

lemma http_request_free_brk [simp]: "brk (http_request_free req m) = brk m"
  by (simp add: http_request_free_def split: option.splits)

lemma cc_vec_reserve_brk [brk_mono]: "cc_vec_reserve v n m = (ok, v', m') \<Longrightarrow> brk m \<le> brk m'"
  by (auto simp: cc_vec_reserve_def split: if_splits prod.splits dest!: brk_mono)

lemma cc_vec_insert_n_brk [brk_mono]: "cc_vec_insert_n v i es m = Inr (r, v', m') \<Longrightarrow> brk m \<le> brk m'"
  by (auto simp: cc_vec_insert_n_def Let_def split: if_splits prod.splits dest!: brk_mono)

lemma cc_push_brk [brk_mono]: "cc_push v x m = (ok, v', m') \<Longrightarrow> brk m \<le> brk m'"
  by (auto simp: cc_push_def cc_vec_push_def cc_vec_push_n_def split: sum.splits prod.splits dest!: brk_mono)

lemma copy_to_array_brk [brk_mono]: "copy_to_array sv m = Inr (s, m') \<Longrightarrow> brk m \<le> brk m'"
  by (auto simp: copy_to_array_def Let_def elim!: bnd_InrE split: prod.splits dest!: brk_mono)

lemma http_hdr_parse_value_brk [brk_mono]: "http_hdr_parse_value h sv m = Inr (herr, h', m') \<Longrightarrow> brk m \<le> brk m'"
  by (auto simp: http_hdr_parse_value_def http_hdr_value_parse_content_type_def Let_def
      http_hdr_value_parse_content_length_def elim!: bnd_InrE
      split: option.splits http_header_field_t.splits if_splits prod.splits dest!: brk_mono)

lemma parse_request_line_brk [brk_mono]: "parse_request_line ctx m = Inr (herr, ctx', m') \<Longrightarrow> brk m \<le> brk m'"
  by (auto simp: parse_request_line_def Let_def elim!: bnd_InrE split: option.splits prod.splits if_splits dest!: brk_mono)

lemma parse_header_line_brk [brk_mono]: "parse_header_line ctx m = Inr (herr, ctx', m') \<Longrightarrow> brk m \<le> brk m'"
  by (auto simp: parse_header_line_def Let_def elim!: bnd_InrE split: option.splits prod.splits if_splits dest!: brk_mono)

lemma header_loop_brk: "header_loop n cnt ctx m = Inr (err, cnt', ctx', m') \<Longrightarrow> brk m \<le> brk m'"
proof (induction n arbitrary: cnt ctx m)
  case (Suc n)
  then show ?case
    by (auto simp: Let_def elim!: bnd_InrE split: prod.splits if_splits dest!: brk_mono Suc.IH)
qed simp

lemmas [brk_mono] = header_loop_brk

lemma run_block_brk [brk_mono]: "run_block l ctx m = Inr (j, ctx', m') \<Longrightarrow> brk m \<le> brk m'"
  by (auto simp: run_block_def block_wait_req_def block_wait_hdr_def block_wait_fix_body_def block_wait_clen_def
      block_wait_cval_def Let_def simp del: header_loop.simps elim!: bnd_InrE
      split: label.splits option.splits prod.splits if_splits http_transfer_body_type.splits dest!: brk_mono)

lemma http_parse_ctx_new_brk [brk_mono]: "http_parse_ctx_new st = Inr (herr, n, st') \<Longrightarrow> brk (ps_mem st) \<le> brk (ps_mem st')"
  by (auto simp: http_parse_ctx_new_def Let_def elim!: bnd_InrE split: prod.splits if_splits dest!: brk_mono)

lemma http_parse_ctx_free_node_brk [brk_mono]: "http_parse_ctx_free_node n st = Inr st' \<Longrightarrow> brk (ps_mem st) \<le> brk (ps_mem st')"
  by (auto simp: http_parse_ctx_free_node_def Let_def elim!: bnd_InrE split: option.splits dest!: brk_mono)

lemma http_parse_ctx_destroy_chain_brk:
  "http_parse_ctx_destroy_chain fuel n st = Inr st' \<Longrightarrow> brk (ps_mem st) \<le> brk (ps_mem st')"
proof (induction fuel arbitrary: n st st')
  case 0
  then show ?case by (cases n) simp_all
next
  case (Suc fuel)
  then show ?case by (cases n) (auto elim!: bnd_InrE split: option.splits if_splits dest!: brk_mono Suc.IH)
qed

lemmas [brk_mono] = http_parse_ctx_destroy_chain_brk

lemma sticky_branch_brk [brk_mono]: "sticky_branch p nid ctx st = Inr (r, st') \<Longrightarrow> brk (ps_mem st) \<le> brk (ps_mem st')"
  by (auto simp: sticky_branch_def Let_def elim!: bnd_InrE split: option.splits prod.splits if_splits dest!: brk_mono)

lemma feed_run_brk: "feed_run fuel l p nid ctx st = Inr (herr, t, st') \<Longrightarrow> brk (ps_mem st) \<le> brk (ps_mem st')"
proof (induction fuel arbitrary: l nid ctx st)
  case (Suc fuel)
  then show ?case
    by (auto simp: Let_def elim!: bnd_InrE split: option.splits prod.splits if_splits sum.splits jump.splits
        dest!: brk_mono Suc.IH)
qed simp

lemmas [brk_mono] = feed_run_brk

lemma http_parse_feed_brk [brk_mono]: "http_parse_feed t p st = Inr (herr, t', st') \<Longrightarrow> brk (ps_mem st) \<le> brk (ps_mem st')"
  by (auto simp: http_parse_feed_def Let_def simp del: feed_run.simps elim!: bnd_InrE
      split: option.splits prod.splits if_splits dest!: brk_mono)

lemma http_parse_pop_brk [brk_mono]:
  "http_parse_pop_request_and_release h st = Inr (got, req, h', st') \<Longrightarrow> brk (ps_mem st) \<le> brk (ps_mem st')"
  by (auto simp: http_parse_pop_request_and_release_def Let_def elim!: bnd_InrE
      split: option.splits if_splits dest!: brk_mono)


section \<open>Responses and resources\<close>

lemma http_response_new_brk [brk_mono]: "http_response_new m = (herr, rep, m') \<Longrightarrow> brk m \<le> brk m'"
  by (auto simp: http_response_new_def split: prod.splits if_splits dest!: brk_mono)

lemma http_response_add_header_brk [brk_mono]: "http_response_add_header rep k v m = (herr, rep', m') \<Longrightarrow> brk m \<le> brk m'"
  by (auto simp: http_response_add_header_def Let_def split: prod.splits if_splits dest!: brk_mono)

lemma append_headers_brk [brk_mono]: "append_headers hs s m = Inr (s', m') \<Longrightarrow> brk m \<le> brk m'"
proof (induction hs arbitrary: s m)
  case (Cons h hs)
  then show ?case by (auto simp del: append_all.simps elim!: bnd_InrE dest!: brk_mono Cons.IH)
qed simp

lemma http_get_status_sv_brk [brk_mono]: "http_get_status_sv c p m = Inr (ok, m') \<Longrightarrow> brk m \<le> brk m'"
  by (auto simp: http_get_status_sv_def Let_def elim!: bnd_InrE split: if_splits dest!: brk_mono)

lemma http_response_to_string_brk [brk_mono]: "http_response_to_string rep s m = Inr (herr, s', m') \<Longrightarrow> brk m \<le> brk m'"
  by (auto simp: http_response_to_string_def simp del: append_all.simps elim!: bnd_InrE split: if_splits prod.splits dest!: brk_mono)

lemma open_resource_brk [brk_mono]: "open_resource path rm m w = Inr (herr, rm', m', w') \<Longrightarrow> brk m \<le> brk m'"
  by (auto simp: open_resource_def MAP_FAILED_def map_block_def Let_def elim!: bnd_InrE split: if_splits prod.splits
      dest!: brk_mono)

lemma kh_room_brk [brk_mono]: "kh_room h n m = (ok, h', m') \<Longrightarrow> brk m \<le> brk m'"
  by (auto simp: kh_room_def Let_def split: if_splits prod.splits dest!: brk_mono)

lemma shrink_array_brk [brk_mono]: "shrink_array n xs m = (ys, m') \<Longrightarrow> brk m \<le> brk m'"
  by (auto simp: shrink_array_def split: prod.splits dest!: brk_mono)

lemma kh_resize_brk [brk_mono]: "kh_resize hf h n m = Inr (r, h', m') \<Longrightarrow> brk m \<le> brk m'"
  by (auto simp: kh_resize_def Let_def elim!: bnd_InrE split: if_splits prod.splits dest!: brk_mono)

lemma kh_put_brk [brk_mono]: "kh_put hf eqf h k m = Inr (x, r, h', m') \<Longrightarrow> brk m \<le> brk m'"
  by (auto simp: kh_put_def elim!: bnd_InrE split: if_splits prod.splits dest!: brk_mono)

lemma get_resource_lazy_brk [brk_mono]:
  "get_resource_lazy path res flush t m w = Inr (herr, res', t', m', w') \<Longrightarrow> brk m \<le> brk m'"
  by (auto simp: get_resource_lazy_def Let_def elim!: bnd_InrE split: if_splits prod.splits option.splits dest!: brk_mono)

lemma get_absolue_path_brk [brk_mono]: "get_absolue_path cfg p s m w = Inr (herr, s', m', w') \<Longrightarrow> brk m \<le> brk m'"
  by (auto simp: get_absolue_path_def simp del: append_all.simps elim!: bnd_InrE split: if_splits prod.splits dest!: brk_mono)

lemma ipv4_net2str_brk [brk_mono]: "ipv4_net2str s addr m = Inr (s', m') \<Longrightarrow> brk m \<le> brk m'"
  by (auto simp: ipv4_net2str_def elim!: bnd_InrE split: prod.splits dest!: brk_mono)

section \<open>Callbacks\<close>

lemma app_call_brk [brk_mono]: "app_call e a = (r, a') \<Longrightarrow> brk (app_mem a) \<le> brk (app_mem a')"
  by (auto simp: app_call_def)

lemma app_env_brk [simp]: "app_mem (app_log msg a) = app_mem a" "app_mem (app_do e a) = app_mem a"
  by (simp_all add: app_log_def app_do_def)

lemma get_end_brk [simp]: "brk (app_mem (get_end p nb a)) = brk (app_mem a)"
  by (simp add: get_end_def split: option.splits)

lemma get_response_brk [brk_mono]:
  "get_response b status html a = Inr (herr, rep, a') \<Longrightarrow> brk (app_mem a) \<le> brk (app_mem a')"
  by (auto simp: get_response_def Let_def elim!: bnd_InrE split: if_splits prod.splits option.splits dest!: brk_mono)

lemma handle_http_request_brk [brk_mono]:
  "handle_http_request req a = Inr (herr, rep, a') \<Longrightarrow> brk (app_mem a) \<le> brk (app_mem a')"
  unfolding handle_http_request_def http_method_get_handler_def get_resource_cached_def
  by (auto simp: Let_def elim!: bnd_InrE split: if_splits prod.splits dest!: brk_mono)

lemma http_send_response_brk [brk_mono]:
  "http_send_response c rep a = Inr (herr, a') \<Longrightarrow> brk (app_mem a) \<le> brk (app_mem a')"
  by (auto simp: http_send_response_def elim!: bnd_InrE split: if_splits prod.splits dest!: brk_mono)

end
