(* ===== verification/ReactorTypes.thy ===== *)
theory ReactorTypes
  imports ReactorClaims BrkMono
begin

text \<open>
  The types behind the untyped pointers. An event carries a \<^verbatim>\<open>void*\<close> that each callback
  casts to the struct it expects; which callback gets it is decided by comparing a descriptor that is
  read through the type of the listening socket. Here: in every state a server reaches the cast is the
  right one, for every job that waits - unless the data was released in the meantime, which a client
  with two jobs can bring about.
\<close>

section \<open>What a callback does to the data of others\<close>

text \<open>Nothing is said to be new but clients on descriptors that satisfy \<open>P\<close>.\<close>

definition client_update :: "(fd_t \<Rightarrow> bool) \<Rightarrow> app \<Rightarrow> app \<Rightarrow> bool" where
  "client_update P a a' \<longleftrightarrow> brk (app_mem a) \<le> brk (app_mem a') \<and>
     (\<forall>i u. app_data a' i = Some (Usrdata u) \<longleftrightarrow> app_data a i = Some (Usrdata u)) \<and>
     (\<forall>i c. app_data a' i = Some (Client c) \<longrightarrow> P (cl_fd c) \<or> (\<exists>c0. app_data a i = Some (Client c0) \<and> cl_fd c0 = cl_fd c))"

lemma read_retry_data: "read_retry fuel fd n a = Inr (r, a') \<Longrightarrow> app_ps a' = app_ps a \<and> app_data a' = app_data a"
proof (induction fuel arbitrary: a)
  case (Suc fuel)
  then show ?case by (auto simp: app_call_def split: if_splits dest!: Suc.IH)
qed simp

lemma read_loop_data:
  "read_loop fuel c p s a = Inr (over, s', a') \<Longrightarrow> brk (app_mem a) \<le> brk (app_mem a') \<and> app_data a' = app_data a"
proof (induction fuel arbitrary: s a)
  case (Suc fuel)
  then show ?case
    by (auto simp: Let_def app_log_def simp del: read_retry.simps elim!: bnd_InrE split: if_splits prod.splits
        dest!: read_retry_data Suc.IH brk_mono)
qed simp

lemma read_client_data:
  "read_client fuel rec c a = Inr (herr, s', a') \<Longrightarrow> brk (app_mem a) \<le> brk (app_mem a') \<and> app_data a' = app_data a"
  by (auto simp: read_client_def Let_def elim!: bnd_InrE split: if_splits prod.splits dest!: read_loop_data brk_mono)

lemma get_response_data: "get_response b status html a = Inr (herr, rep, a') \<Longrightarrow> app_data a' = app_data a"
  by (auto simp: get_response_def get_end_def Let_def elim!: bnd_InrE split: if_splits prod.splits option.splits)

lemma handle_http_request_data: "handle_http_request req a = Inr (herr, rep, a') \<Longrightarrow> app_data a' = app_data a"
  by (auto simp: handle_http_request_def http_method_get_handler_def get_end_def app_log_def Let_def elim!: bnd_InrE
      split: if_splits prod.splits dest!: get_response_data)

lemma http_send_response_data: "http_send_response c rep a = Inr (herr, a') \<Longrightarrow> app_data a' = app_data a"
  by (auto simp: http_send_response_def app_call_def app_log_def elim!: bnd_InrE split: if_splits prod.splits)

lemma client_update_refl [simp]: "client_update P a a" by (simp add: client_update_def)

lemma client_update_trans:
  assumes 1: "client_update P a b" and 2: "client_update P b c"
  shows "client_update P a c"
  unfolding client_update_def
proof (intro conjI allI impI)
  show "brk (app_mem a) \<le> brk (app_mem c)" using 1 2 unfolding client_update_def by (elim conjE) (rule order_trans)
  show "app_data c i = Some (Usrdata u) \<longleftrightarrow> app_data a i = Some (Usrdata u)" for i u
    using 1 2 unfolding client_update_def by simp
  fix i d assume "app_data c i = Some (Client d)"
  with 2 consider "P (cl_fd d)" | d1 where "app_data b i = Some (Client d1)" "cl_fd d1 = cl_fd d"
    unfolding client_update_def by blast
  then show "P (cl_fd d) \<or> (\<exists>c0. app_data a i = Some (Client c0) \<and> cl_fd c0 = cl_fd d)"
  proof cases
    case 2
    with assms(1) show ?thesis unfolding client_update_def by fastforce
  qed simp
qed

text \<open>Reading and answering change the client's own data only, and not its descriptor.\<close>

lemma client_update_self:
  assumes "brk (app_mem a) \<le> brk (app_mem a')" and "app_data a cid = Some (Client c)"
    and "app_data a' = (app_data a)(cid := x)" and "x = None \<or> (\<exists>c'. x = Some (Client c') \<and> cl_fd c' = cl_fd c)"
  shows "client_update P a a'"
  unfolding client_update_def using assms(1,2,4) by (auto simp: assms(3))

lemma answer_loop_update: "answer_loop fuel cid herr a = Inr (herr', a') \<Longrightarrow> client_update P a a'"
proof (induction fuel arbitrary: herr a)
  case (Suc fuel)
  from Suc.prems obtain c where c: "app_data a cid = Some (Client c)" by (auto split: option.splits event_data.splits)
  with Suc.prems obtain got req beg ps where pop: "http_parse_pop_request_and_release (ctx_beg c) (app_ps a) = Inr (got, req, beg, ps)"
    by (auto elim!: bnd_InrE)
  let ?c = "c\<lparr>ctx_beg := beg\<rparr>"
  let ?a = "a\<lparr>app_ps := ps, app_data := (app_data a)(cid := Some (Client ?c))\<rparr>"
  have b: "brk (app_mem a) \<le> brk (app_mem ?a)" using http_parse_pop_brk [OF pop] by simp
  have u: "client_update P a ?a" by (rule client_update_self [OF b c]) (auto intro: exI [of _ ?c])
  show ?case
  proof (cases got)
    case False
    with Suc.prems c pop u show ?thesis by (simp add: Let_def)
  next
    case True
    from Suc.prems [unfolded answer_loop.simps(2)] c pop True obtain rq e1 rep a1 where 1: "handle_http_request rq ?a = Inr (e1, rep, a1)"
      and rest: "(if e1 \<noteq> http_success then Inr (e1, a1)
          else bnd (c_assert (ndebug (app_mem a1)) (rep \<noteq> None)) (\<lambda>_.
            case rep of None \<Rightarrow> Inl Null_deref
            | Some rep \<Rightarrow> bnd (http_send_response ?c rep a1) (\<lambda>(herr, a).
                if herr \<noteq> http_success then Inr (herr, a) else answer_loop fuel cid herr a))) = Inr (herr', a')"
      by (auto simp: Let_def simp del: answer_loop.simps split: option.splits elim!: bnd_InrE)
    have a1: "app_data a1 = app_data ?a" "brk (app_mem ?a) \<le> brk (app_mem a1)"
      using handle_http_request_data [OF 1] handle_http_request_brk [OF 1] by simp_all
    have u1: "client_update P a a1" by (rule client_update_self [OF order_trans [OF b a1(2)] c]) (auto simp: a1(1) intro: exI [of _ ?c])
    show ?thesis
    proof (cases "e1 = http_success")
      case False
      with rest u1 show ?thesis by simp
    next
      case True
      with rest obtain rp e2 a2 where 2: "http_send_response ?c rp a1 = Inr (e2, a2)"
        "(if e2 \<noteq> http_success then Inr (e2, a2) else answer_loop fuel cid e2 a2) = Inr (herr', a')"
        by (auto simp del: answer_loop.simps split: option.splits elim!: bnd_InrE)
      have u2: "client_update P a1 a2"
        using http_send_response_data [OF 2(1)] http_send_response_brk [OF 2(1)] by (simp add: client_update_def)
      have "a' = a2 \<or> (\<exists>e. answer_loop fuel cid e a2 = Inr (herr', a'))" using 2(2) by (simp split: if_splits) blast
      then show ?thesis
        using client_update_trans [OF u1 u2] Suc.IH client_update_trans by blast
    qed
  qed
qed simp

lemma close_client_update:
  assumes "close_client args cid c herr a = Inr (herr', a')" and "app_data a cid = Some (Client c0)"
  shows "client_update P a a'"
proof -
  from assms(1) obtain w where "client_data_free cid c (a\<lparr>app_os := w\<rparr>) = Inr a'"
    by (auto simp: close_client_def app_call_def app_log_def app_do_def Let_def elim!: bnd_InrE split: if_splits prod.splits)
  then have "brk (app_mem a) \<le> brk (app_mem a')" "app_data a' = (app_data a)(cid := None)"
    by (auto simp: client_data_free_def elim!: bnd_InrE dest!: brk_mono)
  then show ?thesis by (intro client_update_self [OF _ assms(2), where x = None]) simp_all
qed

lemma handle_client_fd_update:
  assumes "handle_client_fd fuel args a = Inr (out, a')"
  shows "client_update P a a'"
proof -
  let ?cid = "fa_usrdata args"
  from assms obtain c where c: "app_data a ?cid = Some (Client c)"
    by (auto simp: handle_client_fd_def Let_def split: option.splits event_data.splits)
  obtain b m where nb: "new_buf STR_SMALL_BUF_SIZE (app_mem a) = (b, m)" by force
  let ?a0 = "with_mem m (app_log HTTP_REPORT_CLIENT_INFO a)"
  from assms c nb obtain herr rec a1 where rd: "read_client fuel (zero_string b) c ?a0 = Inr (herr, rec, a1)"
    by (auto simp: handle_client_fd_def Let_def elim!: bnd_InrE)
  have d1: "app_data a1 = app_data a" "brk (app_mem a) \<le> brk (app_mem a1)"
    using read_client_data [OF rd] new_buf_brk [OF nb] by (simp_all add: app_log_def)
  have u1: "client_update P a a1" using d1 by (simp add: client_update_def)
  have end_buf: "client_update P a (with_mem (drop_buf b (app_mem a2)) a2)" if "client_update P a1 a2" for a2
    using client_update_trans [OF u1 that] by (simp add: client_update_def)
  show ?thesis
  proof (cases "herr = http_err_client_close")
    case True
    with assms c nb rd obtain herr2 a2 where 2: "close_client args ?cid c herr a1 = Inr (herr2, a2)"
      "a' = with_mem (drop_buf b (app_mem a2)) a2"
      by (auto simp: handle_client_fd_def Let_def elim!: bnd_InrE)
    show ?thesis unfolding 2(2) using close_client_update [OF 2(1)] c d1(1) by (intro end_buf) simp
  next
    case False
    with assms c nb rd obtain e tail ps where fd: "http_parse_feed (ctx_tail c) (string_view_from_string rec) (app_ps a1) = Inr (e, tail, ps)"
      by (auto simp: handle_client_fd_def Let_def elim!: bnd_InrE)
    let ?a2 = "a1\<lparr>app_ps := ps, app_data := (app_data a1)(?cid := Some (Client (c\<lparr>ctx_tail := tail\<rparr>)))\<rparr>"
    have b2: "brk (app_mem a1) \<le> brk (app_mem ?a2)" using http_parse_feed_brk [OF fd] by simp
    have c1: "app_data a1 ?cid = Some (Client c)" using c d1(1) by simp
    have u2: "client_update P a1 ?a2"
      by (rule client_update_self [OF b2 c1]) (auto intro: exI [of _ "c\<lparr>ctx_tail := tail\<rparr>"])
    from assms c nb rd False fd have "a' = with_mem (drop_buf b (app_mem ?a2)) ?a2 \<or>
      (\<exists>n h h' a3. answer_loop n ?cid h ?a2 = Inr (h', a3) \<and> a' = with_mem (drop_buf b (app_mem a3)) a3)"
      by (auto simp: handle_client_fd_def Let_def simp del: answer_loop.simps elim!: bnd_InrE split: if_splits)
    then show ?thesis
    proof (elim disjE exE conjE)
      assume "a' = with_mem (drop_buf b (app_mem ?a2)) ?a2"
      then show ?thesis using end_buf [OF u2] by (simp only:)
    next
      fix n h h' a3 assume "answer_loop n ?cid h ?a2 = Inr (h', a3)" and a': "a' = with_mem (drop_buf b (app_mem a3)) a3"
      then have "client_update P a1 a3" using client_update_trans [OF u2] answer_loop_update by blast
      then show ?thesis unfolding a' by (rule end_buf)
    qed
  qed
qed

section \<open>A new client\<close>

text \<open>No answer to \<^verbatim>\<open>accept\<close> is the descriptor of the listening socket, which stays open.\<close>

definition accepts_fresh :: "fd_t \<Rightarrow> os \<Rightarrow> bool" where
  "accepts_fresh server_fd w \<longleftrightarrow>
     (\<forall>k < length (os_trace w). \<forall>fd. os_trace w ! k = Accept fd \<longrightarrow> r_val (os_replies w k) \<noteq> server_fd)"

lemma accepts_fresh_grows:
  assumes "grows w w'" and "accepts_fresh server_fd w'"
  shows "accepts_fresh server_fd w"
proof -
  obtain es where "os_trace w' = os_trace w @ es" "os_replies w' = os_replies w" using assms(1) by (auto simp: grows_def)
  with assms(2) show ?thesis by (simp add: accepts_fresh_def nth_append)
qed

lemma create_client_data_data:
  "create_client_data fd addr port a = Inr (herr, cid, a') \<Longrightarrow> brk (app_mem a) \<le> brk (app_mem a') \<and>
     (app_data a' = app_data a \<or> (\<exists>c. app_data a' = (app_data a)(brk (app_mem a) := Some (Client c)) \<and> cl_fd c = fd))"
  by (auto simp: create_client_data_def app_log_def Let_def elim!: bnd_InrE split: if_splits prod.splits dest!: brk_mono)

lemma handle_server_fd_parts:
  assumes "handle_server_fd args a = Inr (out, a')"
  obtains (no) "app_ps a' = app_ps a" and "app_data a' = app_data a"
  | (new) fd a1 addr port herr cid a2 where "app_call (Accept fd) a = (reply (app_os a) 0, a1)"
      and "create_client_data (r_val (reply (app_os a) 0)) addr port a1 = Inr (herr, cid, a2)"
      and "app_ps a' = app_ps a2" and "app_data a' = app_data a2" and "grows (app_os a2) (app_os a')"
proof -
  from assms obtain d where d: "app_data a (fa_usrdata args) = Some d" by (auto simp: handle_server_fd_def split: option.splits)
  obtain a1 where a1: "app_call (Accept (data_fd d)) a = (reply (app_os a) 0, a1)" by (simp add: app_call_def reply_fold)
  show thesis
  proof (cases "r_val (reply (app_os a) 0) < 0")
    case True
    with assms d a1 have "app_ps a' = app_ps a1" "app_data a' = app_data a1"
      by (auto simp: handle_server_fd_def Let_def app_log_def split: if_splits)
    then show thesis using no a1 by (auto simp: app_call_def)
  next
    case False
    with assms d a1 obtain herr cid a2 where 2:
      "create_client_data (r_val (reply (app_os a) 0)) (map nat (take 4 (r_nums (reply (app_os a) 0))))
         (reply_num (reply (app_os a) 0) 4) a1 = Inr (herr, cid, a2)"
      by (auto simp: handle_server_fd_def Let_def elim!: bnd_InrE)
    have "app_ps a' = app_ps a2 \<and> app_data a' = app_data a2 \<and> grows (app_os a2) (app_os a')"
      using assms d a1 False 2
      by (auto simp: handle_server_fd_def Let_def app_call_def app_log_def app_do_def grows_def
          split: if_splits option.splits prod.splits dest!: setnoblocking_grows)
    then show thesis using new [OF a1 2] by blast
  qed
qed

lemma handle_server_fd_update:
  assumes "handle_server_fd args a = Inr (out, a')" and "accepts_fresh server_fd (app_os a')"
    and "\<forall>i u. app_data a i = Some (Usrdata u) \<longrightarrow> i < brk (app_mem a)"
  shows "client_update (\<lambda>fd. fd \<noteq> server_fd) a a'"
  using assms(1)
proof (cases rule: handle_server_fd_parts)
  case no
  then show ?thesis by (simp add: client_update_def)
next
  case (new fd a1 addr port herr cid a2)
  have a1: "app_ps a1 = app_ps a" "app_data a1 = app_data a"
    "app_os a1 = (app_os a)\<lparr>os_trace := os_trace (app_os a) @ [Accept fd]\<rparr>"
    using new(1) by (auto simp: app_call_def)
  have "grows (app_os a1) (app_os a')"
    using create_client_data_keeps [OF new(2)] new(5) by (auto simp: keeps_def intro: grows_trans)
  then have "accepts_fresh server_fd (app_os a1)" using assms(2) by (rule accepts_fresh_grows)
  then have fd: "r_val (reply (app_os a) 0) \<noteq> server_fd"
    unfolding a1(3) accepts_fresh_def by (auto simp: reply_def nth_append)
  have b: "brk (app_mem a) \<le> brk (app_mem a')" using create_client_data_data [OF new(2)] new(3) a1(1) by simp
  consider "app_data a' = app_data a" |
    c where "app_data a' = (app_data a)(brk (app_mem a) := Some (Client c))" "cl_fd c = r_val (reply (app_os a) 0)"
    using create_client_data_data [OF new(2)] new(4) a1 by auto
  then show ?thesis
  proof cases
    case 1
    with b show ?thesis by (simp add: client_update_def)
  next
    case (2 c)
    have "app_data a (brk (app_mem a)) \<noteq> Some (Usrdata u)" for u using assms(3) by blast
    then show ?thesis using b 2 fd unfolding client_update_def by auto
  qed
qed

section \<open>Every state that is reached\<close>

text \<open>
  The object behind an identity has the type of its owner: data of the listening socket, made before the
  loop, or of a client on another descriptor. A job has the callback for the type of its data.
\<close>

definition data_typed :: "fd_t \<Rightarrow> app \<Rightarrow> bool" where
  "data_typed server_fd a \<longleftrightarrow>
     (\<forall>i u. app_data a i = Some (Usrdata u) \<longrightarrow> eu_fd u = server_fd \<and> i < brk (app_mem a)) \<and>
     (\<forall>i c. app_data a i = Some (Client c) \<longrightarrow> cl_fd c \<noteq> server_fd)"

fun job_typed :: "app \<Rightarrow> job \<Rightarrow> bool" where
  "job_typed a (Job_server args) \<longleftrightarrow> (\<exists>u. app_data a (fa_usrdata args) = Some (Usrdata u))"
| "job_typed a (Job_client args) \<longleftrightarrow> (\<forall>u. app_data a (fa_usrdata args) \<noteq> Some (Usrdata u))"

definition well_typed :: "fd_t \<Rightarrow> app \<Rightarrow> bool" where
  "well_typed server_fd a \<longleftrightarrow> data_typed server_fd a \<and> (\<forall>j \<in> set (app_jobs a). job_typed a j)"

lemma client_update_typed:
  assumes "client_update (\<lambda>fd. fd \<noteq> server_fd) a a'" and "data_typed server_fd a"
  shows "data_typed server_fd a'" and "job_typed a' j \<longleftrightarrow> job_typed a j"
  using assms unfolding data_typed_def client_update_def by (fastforce, cases j, simp_all)

lemma job_typed_cong: "app_data a' = app_data a \<Longrightarrow> job_typed a' j = job_typed a j"
  by (cases j) simp_all

lemma well_typed_cong:
  assumes "app_data a' = app_data a" and "app_mem a' = app_mem a" and "app_jobs a' = app_jobs a"
  shows "well_typed server_fd a' \<longleftrightarrow> well_typed server_fd a"
  using assms job_typed_cong [OF assms(1)] by (simp add: well_typed_def data_typed_def)

lemma handle_each_event_typed:
  "handle_each_event server_fd epoll_fd evs a = Inr (herr, a') \<Longrightarrow> well_typed server_fd a \<Longrightarrow> well_typed server_fd a'"
proof (induction evs arbitrary: a)
  case (Cons ev evs)
  obtain ok m where al: "alloc_request (app_mem a) = (ok, m)" by force
  have wm: "well_typed server_fd (with_mem m a)"
    using Cons.prems(2) alloc_request_brk [OF al] job_typed_cong [of "with_mem m a" a]
    by (fastforce simp: well_typed_def data_typed_def)
  show ?case
  proof (cases ok)
    case False
    with Cons.prems(1) al have "a' = app_log HTTP_MALLOC_ERR (with_mem m a)" by (simp add: Let_def)
    then have "well_typed server_fd a' \<longleftrightarrow> well_typed server_fd (with_mem m a)" by (intro well_typed_cong) (simp_all add: app_log_def)
    with wm show ?thesis by simp
  next
    case True
    let ?args = "\<lparr>fa_epoll_fd = epoll_fd, fa_usrdata = ev, fa_pherr = False\<rparr>"
    from Cons.prems al True obtain d where d: "app_data a ev = Some d"
      and h: "handle_each_event server_fd epoll_fd evs
        (app_addjob (if data_fd d = server_fd then Job_server ?args else Job_client ?args) (with_mem m a)) = Inr (herr, a')"
      by (auto simp: Let_def split: option.splits)
    let ?j = "if data_fd d = server_fd then Job_server ?args else Job_client ?args"
    let ?b = "app_addjob ?j (with_mem m a)"
    have j: "job_typed ?b ?j" using wm d by (cases d) (auto simp: well_typed_def data_typed_def)
    have "job_typed ?b x" if x: "x \<in> set (app_jobs ?b)" for x
    proof -
      from x have "x = ?j \<or> x \<in> set (app_jobs a)" using app_addjob_env(6) [of ?j "with_mem m a"] by auto
      then show ?thesis using j wm job_typed_cong [of ?b "with_mem m a" x] by (auto simp: well_typed_def)
    qed
    moreover have "data_typed server_fd ?b" using wm by (simp add: well_typed_def data_typed_def)
    ultimately show ?thesis by (intro Cons.IH [OF h]) (simp add: well_typed_def)
  qed
qed simp

lemma server_step_typed:
  assumes "server_step server_fd epoll_fd max_events fuel a a'" and "well_typed server_fd a"
    and "accepts_fresh server_fd (app_os a')"
  shows "well_typed server_fd a'"
  using assms(1)
proof cases
  case (events r a1)
  have "well_typed server_fd a1"
    using wait_events_simps [OF events(2)] well_typed_cong [of a1 a server_fd] assms(2) by simp
  then show ?thesis by (rule handle_each_event_typed [OF events(4)])
next
  case (interrupted r)
  show ?thesis using wait_events_simps [OF interrupted(2)] well_typed_cong [of a' a server_fd] assms(2) by simp
next
  case (job xs j ys out)
  let ?a = "a\<lparr>app_jobs := xs @ ys\<rparr>"
  have t: "data_typed server_fd ?a" using assms(2) by (simp add: well_typed_def data_typed_def)
  have u: "client_update (\<lambda>fd. fd \<noteq> server_fd) ?a a'"
  proof (cases j)
    case (Job_server args)
    with job(2) have h: "handle_server_fd args ?a = Inr (out, a')" by (simp add: run_job_def)
    have "\<forall>i u. app_data ?a i = Some (Usrdata u) \<longrightarrow> i < brk (app_mem ?a)" using t unfolding data_typed_def by blast
    with h assms(3) show ?thesis by (rule handle_server_fd_update)
  next
    case (Job_client args)
    with job(2) show ?thesis by (auto simp: run_job_def intro: handle_client_fd_update)
  qed
  have "job_typed a' x" if "x \<in> set (app_jobs a')" for x
  proof -
    have "app_jobs a' = xs @ ys" using run_job_keeps [OF job(2)] by (simp add: keeps_def)
    then have "job_typed a x" using that assms(2) job(1) by (auto simp: well_typed_def)
    then show ?thesis using client_update_typed(2) [OF u t, of x] job_typed_cong [of ?a a x] by simp
  qed
  with client_update_typed(1) [OF u t] show ?thesis by (simp add: well_typed_def)
qed

lemma server_run_typed:
  assumes "server_run server_fd epoll_fd max_events fuel a b" and "well_typed server_fd a"
    and "accepts_fresh server_fd (app_os b)"
  shows "well_typed server_fd b"
  using assms
proof (induction rule: rtranclp_induct)
  case (step b c)
  have "grows (app_os b) (app_os c)" using server_step_keeps [OF step(2)] by simp
  then have "accepts_fresh server_fd (app_os b)" using step.prems(2) by (rule accepts_fresh_grows)
  with step.prems(1) have "well_typed server_fd b" by (rule step.IH)
  with step(2) show ?case using step.prems(2) by (rule server_step_typed)
qed

text \<open>
  C5: No callback misreads its data: however the jobs are scheduled, a job that waits with the callback of
  the listening socket carries the data of this socket, and one with the callback of a client carries
  the data of a client on another descriptor, or data that was released - never the smaller struct of
  the socket. It holds as long as \<^verbatim>\<open>accept\<close> does not hand out the descriptor of the open socket.
\<close>

theorem jobs_well_typed:
  assumes "server_run server_fd epoll_fd max_events fuel a b" and "app_jobs a = []"
    and "\<forall>i d. app_data a i = Some d \<longrightarrow> i < brk (app_mem a) \<and> (\<exists>u. d = Usrdata u \<and> eu_fd u = server_fd)"
    and "\<forall>k < length (os_trace (app_os b)). \<forall>fd. os_trace (app_os b) ! k = Accept fd \<longrightarrow>
       r_val (os_replies (app_os b) k) \<noteq> server_fd"
    and "j \<in> set (app_jobs b)"
  shows "case j of
      Job_server args \<Rightarrow> \<exists>u. app_data b (fa_usrdata args) = Some (Usrdata u) \<and> eu_fd u = server_fd
    | Job_client args \<Rightarrow> app_data b (fa_usrdata args) = None \<or>
        (\<exists>c. app_data b (fa_usrdata args) = Some (Client c) \<and> cl_fd c \<noteq> server_fd)"
proof -
  have "well_typed server_fd a" using assms(2,3) by (fastforce simp: well_typed_def data_typed_def)
  with assms(1) have w: "well_typed server_fd b"
    by (rule server_run_typed) (use assms(4) in \<open>simp add: accepts_fresh_def\<close>)
  then have "job_typed b j" "data_typed server_fd b" using assms(5) by (simp_all add: well_typed_def)
  then show ?thesis
    by (cases j; simp add: data_typed_def) (metis event_data.exhaust option.exhaust)+
qed

lemma jobs_well_typed_witness:
  "\<exists>b u. server_run 3 4 10 1 (net_app polling) b \<and> app_jobs b = [Job_server (job_args 0)] \<and>
     app_data b 0 = Some (Usrdata u) \<and> eu_fd u = 3"
proof -
  obtain b where b: "server_run 3 4 10 1 (net_app polling) b" "app_jobs b = [Job_server (job_args 0)]"
    "os_trace (app_os b) = [Epoll_wait 4 10, Thdpool_add_job]" by (rule polling_step)
  have "\<forall>i d. app_data (net_app polling) i = Some d \<longrightarrow> i < brk (app_mem (net_app polling)) \<and> (\<exists>u. d = Usrdata u \<and> eu_fd u = 3)"
    by (auto simp: net_app_def net_app_fresh split: if_splits)
  from jobs_well_typed [OF b(1) _ this, of "Job_server (job_args 0)"] b(2,3)
  have "\<exists>u. app_data b 0 = Some (Usrdata u) \<and> eu_fd u = 3" by (auto simp: less_Suc_eq)
  with b(1,2) show ?thesis by blast
qed

text \<open>
  C6: Two events of one client are two jobs, and nothing marks the data as busy: when the first job finds
  that the client has closed, it releases the data, and the second job, which the pool still runs, reads
  it - a use after free in every state where both wait, whatever the client has sent before.
\<close>

theorem second_job_dangles:
  assumes "app_jobs a = [Job_client args, Job_client args2]" and "fa_usrdata args2 = fa_usrdata args"
    and "conn a (fa_usrdata args) c s" and "sends (reporting (app_os a)) cs True"
    and "length cs < fuel" and "length (concat cs) < MAX_LEN"
    and "0 \<le> r_val (reply (after_reading (cl_fd c) cs (app_os a)) 0)"
  shows "\<exists>a'. server_step server_fd epoll_fd max_events fuel a a' \<and> app_jobs a' = [Job_client args2] \<and>
     app_data a' (fa_usrdata args2) = None \<and> (\<forall>n. run_job n (Job_client args2) (a'\<lparr>app_jobs := []\<rparr>) = Inl Dangling)"
proof -
  let ?a = "a\<lparr>app_jobs := [Job_client args2]\<rparr>"
  from assms(3) obtain nid ctx req ip where "conn_at ?a (fa_usrdata args) c s nid ctx req ip"
    unfolding conn_def by (auto simp: conn_at_def)
  from client_closes [OF this refl, of cs fuel] assms(4-7) obtain a' where
    1: "handle_client_fd fuel args ?a = Inr (call_back_set args http_err_client_close, a')"
    "app_data a' = (app_data ?a)(fa_usrdata args := None)" by auto
  have j: "app_jobs a' = [Job_client args2]" using handle_client_fd_keeps [OF 1(1)] by (simp add: keeps_def)
  have "server_step server_fd epoll_fd max_events fuel a a'"
    by (rule server_step.job [where xs = "[]" and ys = "[Job_client args2]" and j = "Job_client args"])
      (use assms(1) 1(1) in \<open>simp_all add: run_job_def\<close>)
  with j 1(2) assms(2) show ?thesis by (auto simp: run_job_def handle_client_fd_def)
qed

lemma second_job_dangles_witness:
  "\<exists>a0 a'. handle_server_fd (job_args 0) (net_app leaving) = Inr (None, a0) \<and>
     server_step 3 4 10 1 (a0\<lparr>app_jobs := [Job_client (job_args 2), Job_client (job_args 2)]\<rparr>) a' \<and>
     run_job 1 (Job_client (job_args 2)) (a'\<lparr>app_jobs := []\<rparr>) = Inl Dangling"
proof -
  have t: "\<forall>k \<le> 4. 0 \<le> r_val (leaving k)" by (simp add: leaving_def net_reply_def)
  obtain c nid ctx req a0 ip es where 1: "handle_server_fd (job_args 0) (net_app leaving) = Inr (None, a0)"
    "conn_at a0 2 c actx0 nid ctx req ip" "length es = 5" "app_os a0 = \<lparr>os_replies = leaving, os_trace = es\<rparr>"
    by (rule net_accepted [OF t]) blast
  let ?a = "a0\<lparr>app_jobs := [Job_client (job_args 2), Job_client (job_args 2)]\<rparr>"
  have "conn_at ?a 2 c actx0 nid ctx req ip" using 1(2) by (simp add: conn_at_def)
  then have cn: "conn ?a (fa_usrdata (job_args 2)) c actx0" unfolding conn_def by auto
  have snd: "sends (reporting (app_os ?a)) [] True"
    using 1(3,4) by (simp add: sends_def reporting_def leaving_def net_reply_def)
  have r: "0 \<le> r_val (reply (after_reading (cl_fd c) [] (app_os ?a)) 0)"
    using 1(3,4) by (simp add: after_reading_def read_trace_def leaving_def net_reply_def)
  from second_job_dangles [OF _ _ cn snd _ _ r, of "job_args 2" 1 3 4 10] 1(1) show ?thesis by auto
qed

end
