(* ===== verification/Spec2Isabelle.thy ===== *)
theory Spec2Isabelle
  imports CcVecProps CcListProps CcStrFmtProps ResourceRace ReactorTypes
begin

text \<open>
  A model of the HTTP server \<^verbatim>\<open>litehttp-c\<close>: the C sources under \<^verbatim>\<open>src/src\<close>, with
  the containers of the vendored libraries they use and those that come with them.

  \<^bold>\<open>The program.\<close> \<^verbatim>\<open>main.c\<close> reads the configuration, opens a listening socket and runs the
  main loop of \<^verbatim>\<open>core/reactor.c\<close>, which waits for events and hands each to a thread pool as
  a job: \<^verbatim>\<open>core/server.c\<close> accepts a client, \<^verbatim>\<open>core/client.c\<close> reads what a client sent,
  feeds it to the parser (\<^verbatim>\<open>http/http_parse_dfa.c\<close>), takes complete requests from it, has
  \<^verbatim>\<open>core/http_method_dispatch.c\<close> answer them from the files that \<^verbatim>\<open>http/resource_getter.c\<close>
  maps and caches, and writes the text of the response (\<^verbatim>\<open>http/http_response.c\<close>). Strings and
  views are those of \<^verbatim>\<open>util/string_t.c\<close>.

  \<^bold>\<open>Conventions.\<close> A C function is a HOL function of the same name that takes and returns the
  state it uses; a fallible one returns a sum, with the fault (a null, dangling or overrun access,
  a failed assertion, an overflow that C leaves undefined) on the left, and the error codes of the
  program as values of the result on the right. Sizes are natural numbers reduced modulo \<open>2 ^ 64\<close>
  where the code can wrap; \<^verbatim>\<open>int\<close> is an integer with its range written out.

  \<^item> Foundations. Prelude: results and lists. Memory: byte objects, pointers, the allocator with
    an arbitrary answer to every request; every access is checked. Os: the calls to the system and
    to the libraries outside the repository, with arbitrary answers, and their record.
  \<^item> Strings. StringView, StringT: \<^verbatim>\<open>string_t.c\<close>, function by function. StringTSpec: when a
    struct in memory represents a text, and one lemma per operation. StringOps: the contract of
    an appendable buffer as a locale, interpreted on \<^verbatim>\<open>string_t\<close>. Decimal, StringProps:
    numbers, and the properties.
  \<^item> Data. ErrorCode: \<^verbatim>\<open>error_code.c\<close>, \<^verbatim>\<open>base.c\<close>. HttpTypes, HttpTypesSpec, HttpValues:
    \<^verbatim>\<open>http_types.c\<close>. HttpRequest, HttpResponse: the two objects. CcVec, CcVecProps, CcList,
    CcListProps: the vector and the linked list of \<^verbatim>\<open>cc.h\<close>, refined to lists. CcHash: its hash
    functions, whose reads stay inside their string. CcStr, CcStrFmt: its dynamic string with formatted
    insertion; CcStrRep, CcStrProps, CcStrFmtProps: the bytes a string stands for, what every operation
    does to them, the text formatting inserts, and the comparisons and boundary cases that fail.
    Khash: the table of \<^verbatim>\<open>khash.h\<close>; KhashProbe, KhashInv,
    KhashResize, KhashPut: the quadratic probe visits every bucket, the invariant of a table as a
    locale over the keys, and that every operation keeps it and acts as on a map.
  \<^item> The parser. HttpParse: \<^verbatim>\<open>http_parse_dfa.c\<close>, its labels as functions, the jumps between
    them with fuel. HttpParseSpec: the same machine on plain texts. HttpParseRefine, HttpParseSim,
    HttpParseFeed: the code implements it. HttpParseSeg, HttpParseText, HttpParseSplit: packets
    may be cut anywhere. HttpParseProps, HttpParseLimits: the properties.
  \<^item> Resources. ResourceCache: \<^verbatim>\<open>resource_getter.c\<close>. ResourceProps: the table of paths as an
    interpretation of the table's locale. ResourceClaims: the properties of single calls.
    ResourceRace: the lookup cut at its calls of the mutex, and what interleaved calls do.
  \<^item> The server. Configure, SocketUtil, Dispatch, Server, Reactor: the files of \<^verbatim>\<open>core\<close> and
    \<^verbatim>\<open>main.c\<close>; the record \<open>app\<close> is the state they share. DispatchProps, DispatchClaims: the path
    of a file and the response to GET. ReadProps: reading implements a loop over the answers of the
    system alone. ConnProps: when the data of a client represents an abstract parser state, and what
    accepting it, a packet of it, a complete request and its end do. ServerClaims: the properties of
    the callbacks. ServerKeep: what no callback touches. ReactorClaims: a running server as a step
    relation in which any waiting job may run next, its invariants, and the main loop. BrkMono: no
    operation hands out an identity twice. ReactorTypes: the data of a job has the type its callback
    casts it to.

  \<^bold>\<open>How the parts fit.\<close> The properties of the server rest on those of its parts: a packet is read
  into a \<open>string_t\<close> (ReadProps, by the contract of StringOps), fed to a parser whose behaviour is
  \<open>spec_feed\<close> (HttpParseFeed), answered by way of the table of resources (ResourceProps) and the text
  of a response (HttpResponse). The representation predicates - \<open>str_rep\<close>, \<open>ctx_rep\<close>, \<open>table_ok\<close>,
  \<open>conn\<close> - say which objects in memory stand for a value, and \<open>frame\<close> which ones an operation touches.

  \<^bold>\<open>Fuel.\<close> Loops of the code that follow a structure are structural recursion. A feed runs at most
  six blocks of the parser, which is enough as no label comes twice (\<open>spec_feed_fuel\<close>); the header
  loop has the bound of the code. The probe of the table takes as many steps as there are buckets,
  which is enough as it visits them all; the list of contexts has at most as many nodes as objects
  were made. Reading and the main loop may go on for ever: they have fuel as an argument, and
  \<open>read_client_collects\<close> and \<open>signal_ends_main_loop\<close> say how much is enough.

  \<^bold>\<open>Not modelled.\<close> The arguments of log messages and the debug log. Interleaving inside a job: a
  job is one step, but for the cache, whose calls interleave between their calls of the mutex. The
  thread pool itself is an event of the environment, as are the TOML reader and the logger. The bytes in which vectors and tables are stored: their
  elements are values. What \<^verbatim>\<open>printf\<close> prints for floating-point numbers and pointers is a
  parameter. The rest of the vendored libraries (maps, sets and ordered maps of \<^verbatim>\<open>cc.h\<close>, whose layout is
  computed by macros; the other files of klib), which no source of the server uses; tests and test
  client.
\<close>

end
